(* ===== verification/Tmux_Prelude.thy ===== *)
theory Tmux_Prelude
  imports Main "HOL-Library.Word" "HOL-Library.Monad_Syntax"
begin

text \<open>
  Shared vocabulary of the development.

  \<^item> The C type u_int is a natural number below 2 ^ 32; its additions and subtractions
    that the source writes are \<open>uadd\<close> and \<open>usub\<close>, which wrap. Bytes, flag words and
    mode words are \<open>8 word\<close> and \<open>32 word\<close>.
  \<^item> A step of the program that may call fatalx, read or write outside an allocation,
    or follow a null pointer has a result of type \<open>'a option\<close>; None is that fault.
    \<open>runs m P\<close> says that a step does not fault and that its result satisfies P.
  \<^item> Allocated arrays are lists; \<open>lget\<close>, \<open>lput\<close> and \<open>lmove\<close> are the indexed read, the
    indexed write and memmove, each with its bounds check. What the C library leaves
    indeterminate is the unspecified value \<open>undefined\<close>.
  \<^item> A counting loop of the source is \<open>foldM\<close> over the list of its indices.
\<close>

unbundle bit_operations_syntax

named_theorems runs_simps "equations for runs over the combinators"
named_theorems dims_simps "what an operation leaves of the dimensions of a grid"

type_synonym byte = "8 word"
type_synonym cstring = "8 word list"

section \<open>Unsigned int arithmetic\<close>

abbreviation UINT_MOD :: nat where
  "UINT_MOD \<equiv> 4294967296"

definition uadd :: "nat \<Rightarrow> nat \<Rightarrow> nat" where
  "uadd a b = (a + b) mod UINT_MOD"

definition usub :: "nat \<Rightarrow> nat \<Rightarrow> nat" where
  "usub a b = (a + (UINT_MOD - b mod UINT_MOD)) mod UINT_MOD"

lemma uadd_eq: "a + b < UINT_MOD \<Longrightarrow> uadd a b = a + b"
  by (simp add: uadd_def)

lemma usub_eq: "b \<le> a \<Longrightarrow> a < UINT_MOD \<Longrightarrow> usub a b = a - b"
  by (simp add: usub_def mod_if)

lemma usub_wrap: "a < b \<Longrightarrow> b < UINT_MOD \<Longrightarrow> usub a b = UINT_MOD + a - b"
  by (simp add: usub_def)

lemma uadd_less [simp]: "uadd a b < UINT_MOD"
  by (simp add: uadd_def)

lemma usub_less [simp]: "usub a b < UINT_MOD"
  by (simp add: usub_def)

lemma uadd_usub_cancel:
  assumes "a < UINT_MOD" "b < UINT_MOD"
  shows "uadd b (usub a b) = a"
proof (cases "b \<le> a")
  case True
  with assms show ?thesis by (simp add: usub_eq uadd_eq)
next
  case False
  with assms have "usub a b = UINT_MOD + a - b" by (simp add: usub_wrap)
  with assms False show ?thesis by (simp add: uadd_def)
qed

section \<open>Steps that may fault\<close>

definition runs :: "'a option \<Rightarrow> ('a \<Rightarrow> bool) \<Rightarrow> bool" where
  "runs m P = (case m of None \<Rightarrow> False | Some x \<Rightarrow> P x)"

lemma runs_Some [simp, runs_simps]: "runs (Some x) P = P x"
  by (simp add: runs_def)

lemma runs_None [simp, runs_simps]: "\<not> runs None P"
  by (simp add: runs_def)

lemma runs_bind [simp, runs_simps]:
  "runs (Option.bind m f) P = runs m (\<lambda>x. runs (f x) P)"
  by (cases m) (simp_all add: runs_def)

lemma runs_map_option [simp, runs_simps]:
  "runs (map_option f m) P = runs m (\<lambda>x. P (f x))"
  by (cases m) (simp_all add: runs_def)

lemma runs_if [runs_simps]:
  "runs (if b then m else n) P = ((b \<longrightarrow> runs m P) \<and> (\<not> b \<longrightarrow> runs n P))"
  by simp

lemma runs_iff: "runs m P \<longleftrightarrow> (\<exists>x. m = Some x \<and> P x)"
  by (cases m) (simp_all add: runs_def)

lemma runsE [elim?]:
  assumes "runs m P"
  obtains x where "m = Some x" "P x"
  using assms by (auto simp: runs_iff)

lemma runs_mono: "runs m P \<Longrightarrow> (\<And>x. P x \<Longrightarrow> Q x) \<Longrightarrow> runs m Q"
  by (auto simp: runs_iff)

lemma runs_conjI: "runs m P \<Longrightarrow> runs m Q \<Longrightarrow> runs m (\<lambda>x. P x \<and> Q x)"
  by (auto simp: runs_iff)

lemma runs_eqD: "m = Some x \<Longrightarrow> runs m P \<Longrightarrow> P x"
  by simp

section \<open>Loops\<close>

fun foldM :: "('a \<Rightarrow> 's \<Rightarrow> 's option) \<Rightarrow> 'a list \<Rightarrow> 's \<Rightarrow> 's option" where
  "foldM f [] s = Some s"
| "foldM f (x # xs) s = Option.bind (f x s) (foldM f xs)"

lemma foldM_append: "foldM f (xs @ ys) s = Option.bind (foldM f xs s) (foldM f ys)"
  by (induction xs arbitrary: s) (auto split: bind_splits)

lemma runs_foldM_list:
  assumes "I s"
    and "\<And>x s. x \<in> set xs \<Longrightarrow> I s \<Longrightarrow> runs (f x s) I"
  shows "runs (foldM f xs s) I"
  using assms
proof (induction xs arbitrary: s)
  case Nil
  then show ?case by simp
next
  case (Cons x xs)
  have "runs (f x s) I" using Cons.prems by simp
  then show ?case
    by (auto intro!: runs_mono [of "f x s" I] Cons.IH Cons.prems)
qed

lemma runs_foldM_upt:
  assumes "I a s" "a \<le> b"
    and "\<And>i s. a \<le> i \<Longrightarrow> i < b \<Longrightarrow> I i s \<Longrightarrow> runs (f i s) (I (Suc i))"
  shows "runs (foldM f [a..<b] s) (I b)"
  using assms
proof (induction "b - a" arbitrary: a s)
  case 0
  then show ?case by simp
next
  case (Suc n)
  then have ab: "a < b" by simp
  have step: "runs (f a s) (I (Suc a))" using Suc.prems ab by simp
  have rest: "runs (foldM f [Suc a..<b] t) (I b)" if "I (Suc a) t" for t
    using Suc.hyps(1) [of "Suc a" t] Suc.hyps(2) Suc.prems that ab by simp
  have "runs (Option.bind (f a s) (foldM f [Suc a..<b])) (I b)"
    using step rest by (auto intro: runs_mono)
  then show ?case using ab by (simp add: upt_conv_Cons)
qed

section \<open>Arrays\<close>

definition lget :: "nat \<Rightarrow> 'a list \<Rightarrow> 'a option" where
  "lget i xs = (if i < length xs then Some (xs ! i) else None)"

definition lput :: "nat \<Rightarrow> 'a \<Rightarrow> 'a list \<Rightarrow> 'a list option" where
  "lput i x xs = (if i < length xs then Some (xs[i := x]) else None)"

definition lmove :: "nat \<Rightarrow> nat \<Rightarrow> nat \<Rightarrow> 'a list \<Rightarrow> 'a list option" where
  "lmove dst src n xs =
     (if dst + n \<le> length xs \<and> src + n \<le> length xs
      then Some (map (\<lambda>i. if dst \<le> i \<and> i < dst + n then xs ! (src + (i - dst)) else xs ! i)
                     [0..<length xs])
      else None)"

definition xrealloc :: "nat \<Rightarrow> 'a list \<Rightarrow> 'a list" where
  "xrealloc n xs = take n xs @ replicate (n - length xs) undefined"

lemma lget_in [simp]: "i < length xs \<Longrightarrow> lget i xs = Some (xs ! i)"
  by (simp add: lget_def)

lemma lput_in [simp]: "i < length xs \<Longrightarrow> lput i x xs = Some (xs[i := x])"
  by (simp add: lput_def)

lemma length_xrealloc [simp]: "length (xrealloc n xs) = n"
  by (simp add: xrealloc_def)

lemma nth_xrealloc: "i < n \<Longrightarrow> i < length xs \<Longrightarrow> xrealloc n xs ! i = xs ! i"
  by (simp add: xrealloc_def nth_append)

lemma xrealloc_shrink: "n \<le> length xs \<Longrightarrow> xrealloc n xs = take n xs"
  by (simp add: xrealloc_def)

lemma runs_lmove:
  assumes "dst + n \<le> length xs" "src + n \<le> length xs"
    and "\<And>ys. length ys = length xs \<Longrightarrow>
       (\<And>i. i < length xs \<Longrightarrow>
          ys ! i = (if dst \<le> i \<and> i < dst + n then xs ! (src + (i - dst)) else xs ! i)) \<Longrightarrow> P ys"
  shows "runs (lmove dst src n xs) P"
  using assms by (simp add: lmove_def)

section \<open>Flag words\<close>

definition flag_set :: "'a::len word \<Rightarrow> 'a word \<Rightarrow> bool" where
  "flag_set w m \<longleftrightarrow> w AND m \<noteq> 0"

lemma flag_set_0 [simp]: "\<not> flag_set 0 m"
  by (simp add: flag_set_def)

lemma flag_set_or: "flag_set (w OR v) m \<longleftrightarrow> flag_set w m \<or> flag_set v m"
  by (auto simp: flag_set_def bit_eq_iff bit_simps)

lemma flag_set_clear_self: "\<not> flag_set (w AND NOT m) m"
  by (simp add: flag_set_def bit_eq_iff bit_simps)

lemma flag_set_clear: "m AND v = 0 \<Longrightarrow> flag_set (w AND NOT v) m \<longleftrightarrow> flag_set w m"
  by (auto simp: flag_set_def bit_eq_iff bit_simps)

section \<open>Bit fields as arithmetic\<close>

lemma or_push_bit_nat:
  fixes a b :: nat
  assumes "a < 2 ^ n"
  shows "a OR push_bit n b = a + 2 ^ n * b"
proof -
  have "a AND push_bit n b = 0"
  proof (rule bit_eqI)
    fix i
    have "take_bit n a = a" using assms by (simp add: take_bit_nat_eq_self)
    then have "bit a i \<Longrightarrow> i < n" by (metis bit_take_bit_iff)
    then show "bit (a AND push_bit n b) i \<longleftrightarrow> bit 0 i" by (auto simp: bit_simps)
  qed
  then have "a + push_bit n b = a OR push_bit n b" by (rule disjunctive_add_eq_or)
  then show ?thesis by (simp add: push_bit_eq_mult mult.commute)
qed

lemma unat_and_mask: "unat (w AND mask n) = unat w mod 2 ^ n"
  by (simp only: take_bit_eq_mask [symmetric] unsigned_take_bit_eq) (simp add: take_bit_eq_mod)


definition byte_of_nat :: "nat \<Rightarrow> byte" where
  "byte_of_nat n = word_of_nat n"

lemma unat_byte_of_nat: "n < 256 \<Longrightarrow> unat (byte_of_nat n) = n"
  by (simp add: byte_of_nat_def unat_of_nat)

text \<open>The size of the buffers of stdio, 8192 in the GNU C library.\<close>

definition BUFSIZ :: nat where "BUFSIZ = 8192"

end
