(* ===== verification/Utf8.thy ===== *)
theory Utf8
  imports Tmux_Prelude "HOL-Library.Tree"
begin

text \<open>
  utf8.c: assembling a UTF-8 character from its bytes (\<open>utf8_open\<close>, \<open>utf8_append\<close>), the
  code point of the assembled bytes (\<open>utf8_combine\<close>) and the column width of that code
  point, found in a binary search tree of intervals that \<open>utf8_build\<close> makes at startup.
\<close>

section \<open>struct utf8_data\<close>

abbreviation UTF8_SIZE :: nat where
  "UTF8_SIZE \<equiv> 9"

record utf8_data =
  u8_data :: "byte list"
  u8_have :: nat
  u8_size :: nat
  u8_width :: nat

section \<open>The width table and its tree\<close>

record utf8_width_entry =
  uw_first :: nat
  uw_last :: nat
  uw_width :: nat

definition uwe :: "nat \<Rightarrow> nat \<Rightarrow> nat \<Rightarrow> utf8_width_entry" where
  "uwe f l w = \<lparr>uw_first = f, uw_last = l, uw_width = w\<rparr>"

definition utf8_width_table :: "utf8_width_entry list" where
  "utf8_width_table = [
   uwe 0x00951 0x00954 0, uwe 0x00ccc 0x00ccd 0, uwe 0x0fff9 0x0fffb 0,
   uwe 0x20000 0x2fffd 2, uwe 0x00ebb 0x00ebc 0, uwe 0x01932 0x01932 0,
   uwe 0x0070f 0x0070f 0, uwe 0x00a70 0x00a71 0, uwe 0x02329 0x02329 2,
   uwe 0x00acd 0x00acd 0, uwe 0x00ac7 0x00ac8 0, uwe 0x00a3c 0x00a3c 0,
   uwe 0x009cd 0x009cd 0, uwe 0x00591 0x005bd 0, uwe 0x01058 0x01059 0,
   uwe 0x0ffe0 0x0ffe6 2, uwe 0x01100 0x0115f 2, uwe 0x0fe20 0x0fe23 0,
   uwe 0x0302a 0x0302f 0, uwe 0x01772 0x01773 0, uwe 0x005bf 0x005bf 0,
   uwe 0x006ea 0x006ed 0, uwe 0x00bc0 0x00bc0 0, uwe 0x00962 0x00963 0,
   uwe 0x01732 0x01734 0, uwe 0x00d41 0x00d43 0, uwe 0x01b42 0x01b42 0,
   uwe 0x00a41 0x00a42 0, uwe 0x00eb4 0x00eb9 0, uwe 0x00b01 0x00b01 0,
   uwe 0x00e34 0x00e3a 0, uwe 0x03040 0x03098 2, uwe 0x0093c 0x0093c 0,
   uwe 0x00c4a 0x00c4d 0, uwe 0x01032 0x01032 0, uwe 0x00f37 0x00f37 0,
   uwe 0x00901 0x00902 0, uwe 0x00cbf 0x00cbf 0, uwe 0x0a806 0x0a806 0,
   uwe 0x00dd2 0x00dd4 0, uwe 0x00f71 0x00f7e 0, uwe 0x01752 0x01753 0,
   uwe 0x1d242 0x1d244 0, uwe 0x005c1 0x005c2 0, uwe 0x0309b 0x0a4cf 2,
   uwe 0xe0100 0xe01ef 0, uwe 0x017dd 0x017dd 0, uwe 0x00600 0x00603 0,
   uwe 0x009e2 0x009e3 0, uwe 0x00cc6 0x00cc6 0, uwe 0x0a80b 0x0a80b 0,
   uwe 0x01712 0x01714 0, uwe 0x00b3c 0x00b3c 0, uwe 0x01b00 0x01b03 0,
   uwe 0x007eb 0x007f3 0, uwe 0xe0001 0xe0001 0, uwe 0x1d185 0x1d18b 0,
   uwe 0x0feff 0x0feff 0, uwe 0x01b36 0x01b3a 0, uwe 0x01920 0x01922 0,
   uwe 0x00670 0x00670 0, uwe 0x00f90 0x00f97 0, uwe 0x01927 0x01928 0,
   uwe 0x0200b 0x0200f 0, uwe 0x0ff00 0x0ff60 2, uwe 0x0f900 0x0faff 2,
   uwe 0x0fb1e 0x0fb1e 0, uwe 0x00cbc 0x00cbc 0, uwe 0x00eb1 0x00eb1 0,
   uwe 0x10a38 0x10a3a 0, uwe 0x007a6 0x007b0 0, uwe 0x00f80 0x00f84 0,
   uwe 0x005c4 0x005c5 0, uwe 0x0ac00 0x0d7a3 2, uwe 0x017c9 0x017d3 0,
   uwe 0x00d4d 0x00d4d 0, uwe 0x1d167 0x1d169 0, uwe 0x01036 0x01037 0,
   uwe 0xe0020 0xe007f 0, uwe 0x00f35 0x00f35 0, uwe 0x017b4 0x017b5 0,
   uwe 0x0206a 0x0206f 0, uwe 0x00c46 0x00c48 0, uwe 0x01939 0x0193b 0,
   uwe 0x01dc0 0x01dca 0, uwe 0x10a0c 0x10a0f 0, uwe 0x0102d 0x01030 0,
   uwe 0x017c6 0x017c6 0, uwe 0x00ec8 0x00ecd 0, uwe 0x00b41 0x00b43 0,
   uwe 0x017b7 0x017bd 0, uwe 0x1d173 0x1d182 0, uwe 0x00a47 0x00a48 0,
   uwe 0x0232a 0x0232a 2, uwe 0x01b3c 0x01b3c 0, uwe 0x10a01 0x10a03 0,
   uwe 0x00ae2 0x00ae3 0, uwe 0x00483 0x00486 0, uwe 0x0135f 0x0135f 0,
   uwe 0x01a17 0x01a18 0, uwe 0x006e7 0x006e8 0, uwe 0x03099 0x0309a 0,
   uwe 0x00b4d 0x00b4d 0, uwe 0x00ce2 0x00ce3 0, uwe 0x00bcd 0x00bcd 0,
   uwe 0x00610 0x00615 0, uwe 0x00f99 0x00fbc 0, uwe 0x009c1 0x009c4 0,
   uwe 0x00730 0x0074a 0, uwe 0x00300 0x0036f 0, uwe 0x03030 0x0303e 2,
   uwe 0x01b34 0x01b34 0, uwe 0x1d1aa 0x1d1ad 0, uwe 0x00dca 0x00dca 0,
   uwe 0x006d6 0x006e4 0, uwe 0x00f86 0x00f87 0, uwe 0x00b3f 0x00b3f 0,
   uwe 0x0fe30 0x0fe6f 2, uwe 0x01039 0x01039 0, uwe 0x0094d 0x0094d 0,
   uwe 0x00c55 0x00c56 0, uwe 0x00488 0x00489 0, uwe 0x00e47 0x00e4e 0,
   uwe 0x00a81 0x00a82 0, uwe 0x00ac1 0x00ac5 0, uwe 0x0202a 0x0202e 0,
   uwe 0x00dd6 0x00dd6 0, uwe 0x018a9 0x018a9 0, uwe 0x0064b 0x0065e 0,
   uwe 0x00abc 0x00abc 0, uwe 0x00b82 0x00b82 0, uwe 0x00f39 0x00f39 0,
   uwe 0x020d0 0x020ef 0, uwe 0x01dfe 0x01dff 0, uwe 0x30000 0x3fffd 2,
   uwe 0x00711 0x00711 0, uwe 0x0fe00 0x0fe0f 0, uwe 0x01160 0x011ff 0,
   uwe 0x0180b 0x0180d 0, uwe 0x10a3f 0x10a3f 0, uwe 0x00981 0x00981 0,
   uwe 0x0a825 0x0a826 0, uwe 0x00941 0x00948 0, uwe 0x01b6b 0x01b73 0,
   uwe 0x00e31 0x00e31 0, uwe 0x0fe10 0x0fe19 2, uwe 0x00a01 0x00a02 0,
   uwe 0x00a4b 0x00a4d 0, uwe 0x00f18 0x00f19 0, uwe 0x00fc6 0x00fc6 0,
   uwe 0x02e80 0x03029 2, uwe 0x00b56 0x00b56 0, uwe 0x009bc 0x009bc 0,
   uwe 0x005c7 0x005c7 0, uwe 0x02060 0x02063 0, uwe 0x00c3e 0x00c40 0,
   uwe 0x10a05 0x10a06 0]"

definition utf8_overlap :: "utf8_width_entry \<Rightarrow> utf8_width_entry \<Rightarrow> bool" where
  "utf8_overlap item1 item2 =
     (if uw_first item1 \<ge> uw_first item2 \<and> uw_first item1 \<le> uw_last item2 then True
      else if uw_last item1 \<ge> uw_first item2 \<and> uw_last item1 \<le> uw_last item2 then True
      else if uw_first item2 \<ge> uw_first item1 \<and> uw_first item2 \<le> uw_last item1 then True
      else if uw_last item2 \<ge> uw_first item1 \<and> uw_last item2 \<le> uw_last item1 then True
      else False)"

text \<open>
  The descent of the inner loop of utf8_build. The loop stays at a node whose interval
  is neither left nor right of the item's: it does not return then, which is None here.
\<close>

fun utf8_insert :: "utf8_width_entry \<Rightarrow> utf8_width_entry tree \<Rightarrow> utf8_width_entry tree option"
  where
  "utf8_insert item Leaf = Some (Node Leaf item Leaf)"
| "utf8_insert item (Node l node r) =
     (if uw_last item < uw_first node
      then map_option (\<lambda>l'. Node l' node r) (utf8_insert item l)
      else if uw_first item > uw_last node
      then map_option (\<lambda>r'. Node l node r') (utf8_insert item r)
      else None)"

definition utf8_build_table :: "utf8_width_entry list \<Rightarrow> utf8_width_entry tree option" where
  "utf8_build_table tbl =
     foldM (\<lambda>i root.
         let item = tbl ! i in
         if list_ex (\<lambda>j. i \<noteq> j \<and> utf8_overlap item (tbl ! j)) [0..<length tbl] then None
         else utf8_insert item root)
       [0..<length tbl] Leaf"

definition utf8_build :: "utf8_width_entry tree option" where
  "utf8_build = utf8_build_table utf8_width_table"

text \<open>The global that utf8_build fills in before any input is read (tmux.c calls it once).\<close>

definition utf8_width_root :: "utf8_width_entry tree" where
  "utf8_width_root = (case utf8_build of Some t \<Rightarrow> t | None \<Rightarrow> Leaf)"

fun utf8_tree_width :: "nat \<Rightarrow> utf8_width_entry tree \<Rightarrow> nat" where
  "utf8_tree_width v Leaf = 1"
| "utf8_tree_width v (Node l item r) =
     (if v < uw_first item then utf8_tree_width v l
      else if v > uw_last item then utf8_tree_width v r
      else uw_width item)"

section \<open>Code points\<close>

definition u32_of :: "byte \<Rightarrow> 32 word" where
  "u32_of b = ucast b"

definition utf8_combine :: "utf8_data \<Rightarrow> 32 word" where
  "utf8_combine d =
     (let b = (\<lambda>i. u32_of (u8_data d ! i)) in
      if u8_size d = 1 then b 0
      else if u8_size d = 2 then (b 1 AND 0x3f) OR push_bit 6 (b 0 AND 0x1f)
      else if u8_size d = 3 then
        (b 2 AND 0x3f) OR push_bit 6 (b 1 AND 0x3f) OR push_bit 12 (b 0 AND 0x0f)
      else if u8_size d = 4 then
        (b 3 AND 0x3f) OR push_bit 6 (b 2 AND 0x3f) OR push_bit 12 (b 1 AND 0x3f)
          OR push_bit 18 (b 0 AND 0x3f)
      else 0xff)"

definition utf8_width :: "utf8_data \<Rightarrow> nat" where
  "utf8_width d = utf8_tree_width (unat (utf8_combine d)) utf8_width_root"

definition utf8_split2 :: "nat \<Rightarrow> byte list" where
  "utf8_split2 uc =
     (if uc > 0x7f
      then [word_of_nat (uc div 64) OR 0xc0, (word_of_nat uc AND 0x3f) OR 0x80]
      else [word_of_nat uc])"

section \<open>Assembling a character\<close>

text \<open>
  utf8_append: the flag is the C result (true for 1: more bytes are wanted); a full
  character, or one that would not fit the array, is fatalx.
\<close>

definition utf8_append :: "utf8_data \<Rightarrow> byte \<Rightarrow> (utf8_data \<times> bool) option" where
  "utf8_append d ch =
     (if u8_have d \<ge> u8_size d then None
      else if u8_size d > UTF8_SIZE then None
      else do {
        bytes \<leftarrow> lput (u8_have d) ch (u8_data d);
        let d1 = d\<lparr>u8_data := bytes, u8_have := u8_have d + 1\<rparr>;
        if u8_have d1 \<noteq> u8_size d1 then Some (d1, True)
        else Some (d1\<lparr>u8_width := utf8_width d1\<rparr>, False)
      })"

definition utf8_zero :: utf8_data where
  "utf8_zero = \<lparr>u8_data = replicate UTF8_SIZE 0, u8_have = 0, u8_size = 0, u8_width = 0\<rparr>"

text \<open>utf8_open: the flag says whether the byte starts a multibyte character.\<close>

definition utf8_open :: "byte \<Rightarrow> (utf8_data \<times> bool) option" where
  "utf8_open ch =
     (let start = (\<lambda>n. map_option (\<lambda>r. (fst r, True)) (utf8_append (utf8_zero\<lparr>u8_size := n\<rparr>) ch)) in
      if ch \<ge> 0xc2 \<and> ch \<le> 0xdf then start 2
      else if ch \<ge> 0xe0 \<and> ch \<le> 0xef then start 3
      else if ch \<ge> 0xf0 \<and> ch \<le> 0xf4 then start 4
      else Some (utf8_zero, False))"

section \<open>The code point of a byte sequence, as arithmetic\<close>

lemma unat_or_push: 
  fixes x y :: "32 word"
  assumes "unat x < 2 ^ n" "unat y < 2 ^ m" "n + m \<le> 32"
  shows "unat (x OR push_bit n y) = unat x + 2 ^ n * unat y"
proof -
  have "push_bit n (unat y) < 2 ^ 32"
  proof -
    have "2 ^ n * unat y < 2 ^ n * 2 ^ m" using assms(2) by simp
    also have "\<dots> \<le> 2 ^ 32" using assms(3) by (metis power_add power_increasing one_le_numeral)
    finally show ?thesis by (simp add: push_bit_eq_mult mult.commute)
  qed
  then have "unat (push_bit n y) = push_bit n (unat y)"
    by (simp add: unsigned_push_bit_eq take_bit_nat_eq_self)
  then show ?thesis using assms(1) by (simp add: unsigned_or_eq or_push_bit_nat)
qed

lemma mask_lits: "(0x3f::32 word) = mask 6" "(0x1f::32 word) = mask 5" "(0x0f::32 word) = mask 4"
  by (simp_all add: mask_eq_exp_minus_1)

lemma unat_u32_of: "unat (u32_of b) = unat b"
proof -
  have "unat b < 2 ^ 8" using unsigned_less [of b] by simp
  then have "unat b < 2 ^ 32" by simp
  then show ?thesis by (simp add: u32_of_def unsigned_ucast_eq take_bit_nat_eq_self)
qed


lemma u32_and:
  "unat (u32_of b AND 0x3f) = unat b mod 64"
  "unat (u32_of b AND 0x1f) = unat b mod 32"
  "unat (u32_of b AND 0x0f) = unat b mod 16"
  by (simp_all only: mask_lits unat_and_mask unat_u32_of) simp_all

lemma unat_or_push_eq:
  fixes x y :: "32 word"
  assumes "unat x = a" "unat y = b" "a < 2 ^ n" "b < 2 ^ m" "n + m \<le> 32"
  shows "unat (x OR push_bit n y) = a + 2 ^ n * b"
  using unat_or_push [of x n y m] assms by simp

lemma mod64_add: "(a::nat) mod 64 + 64 * (b mod 64) < 4096"
  by (simp add: mod_less_divisor)

lemma combine2:
  "unat ((u32_of b1 AND 0x3f) OR push_bit 6 (u32_of b0 AND 0x1f))
   = unat b1 mod 64 + 64 * (unat b0 mod 32)"
  using unat_or_push_eq [OF u32_and(1) u32_and(2), of b1 6 b0 5] by simp

lemma combine_low:
  "unat ((u32_of b1 AND 0x3f) OR push_bit 6 (u32_of b0 AND 0x3f))
   = unat b1 mod 64 + 64 * (unat b0 mod 64)"
  using unat_or_push_eq [OF u32_and(1) u32_and(1), of b1 6 b0 6] by simp

lemma combine3:
  "unat ((u32_of b2 AND 0x3f) OR push_bit 6 (u32_of b1 AND 0x3f) OR push_bit 12 (u32_of b0 AND 0x0f))
   = unat b2 mod 64 + 64 * (unat b1 mod 64) + 4096 * (unat b0 mod 16)"
  using unat_or_push_eq [OF combine_low u32_and(3), of b2 b1 12 b0 4] mod64_add
  by (simp add: or.assoc)

lemma combine_low3:
  "unat ((u32_of b3 AND 0x3f) OR push_bit 6 (u32_of b2 AND 0x3f) OR push_bit 12 (u32_of b1 AND 0x3f))
   = unat b3 mod 64 + 64 * (unat b2 mod 64) + 4096 * (unat b1 mod 64)"
  using unat_or_push_eq [OF combine_low u32_and(1), of b3 b2 12 b1 6] mod64_add
  by (simp add: or.assoc)

lemma combine4:
  "unat ((u32_of b3 AND 0x3f) OR push_bit 6 (u32_of b2 AND 0x3f) OR push_bit 12 (u32_of b1 AND 0x3f)
     OR push_bit 18 (u32_of b0 AND 0x3f))
   = unat b3 mod 64 + 64 * (unat b2 mod 64) + 4096 * (unat b1 mod 64) + 262144 * (unat b0 mod 64)"
proof -
  have "unat b3 mod 64 + 64 * (unat b2 mod 64) + 4096 * (unat b1 mod 64) < 262144"
    using mod64_add [of "unat b3" "unat b2"] mod_less_divisor [of 64 "unat b1"] by simp
  then show ?thesis
    using unat_or_push_eq [OF combine_low3 u32_and(1), of b3 b2 b1 18 b0 6] by (simp add: or.assoc)
qed


section \<open>The width tree is the width table\<close>

definition uw_disjoint :: "utf8_width_entry \<Rightarrow> utf8_width_entry \<Rightarrow> bool" where
  "uw_disjoint a b \<longleftrightarrow> uw_last a < uw_first b \<or> uw_last b < uw_first a"

definition uw_covers :: "nat \<Rightarrow> utf8_width_entry \<Rightarrow> bool" where
  "uw_covers v e \<longleftrightarrow> uw_first e \<le> v \<and> v \<le> uw_last e"

definition uw_tree_ok :: "utf8_width_entry tree \<Rightarrow> bool" where
  "uw_tree_ok t \<longleftrightarrow> sorted_wrt (\<lambda>a b. uw_last a < uw_first b) (inorder t)
     \<and> (\<forall>e\<in>set_tree t. uw_first e \<le> uw_last e)"

lemma uw_disjoint_no_overlap:
  "uw_disjoint a b \<Longrightarrow> uw_first a \<le> uw_last a \<Longrightarrow> uw_first b \<le> uw_last b \<Longrightarrow> \<not> utf8_overlap a b"
  by (auto simp: uw_disjoint_def utf8_overlap_def)

lemma uw_tree_ok_Node [simp]:
  "uw_tree_ok (Node l e r) \<longleftrightarrow> uw_tree_ok l \<and> uw_tree_ok r \<and> uw_first e \<le> uw_last e
     \<and> (\<forall>a\<in>set_tree l. uw_last a < uw_first e) \<and> (\<forall>b\<in>set_tree r. uw_last e < uw_first b)"
  by (fastforce simp: uw_tree_ok_def sorted_wrt_append)

lemma utf8_insert_ok:
  assumes "uw_tree_ok t" "uw_first e \<le> uw_last e" "\<forall>a\<in>set_tree t. uw_disjoint e a"
  shows "runs (utf8_insert e t) (\<lambda>t'. uw_tree_ok t' \<and> set_tree t' = insert e (set_tree t))"
  using assms
proof (induction t)
  case Leaf
  then show ?case by (simp add: uw_tree_ok_def)
next
  case (Node l a r)
  have disj: "uw_last e < uw_first a \<or> uw_last a < uw_first e"
    using Node.prems by (simp add: uw_disjoint_def)
  have "runs (utf8_insert e l) (\<lambda>t'. uw_tree_ok t' \<and> set_tree t' = insert e (set_tree l))"
    and "runs (utf8_insert e r) (\<lambda>t'. uw_tree_ok t' \<and> set_tree t' = insert e (set_tree r))"
    using Node by simp_all
  then show ?case
    using disj Node.prems by (auto elim!: runs_mono)
qed

lemma utf8_tree_width_covered:
  "uw_tree_ok t \<Longrightarrow> e \<in> set_tree t \<Longrightarrow> uw_covers v e \<Longrightarrow> utf8_tree_width v t = uw_width e"
  by (induction t) (fastforce simp: uw_covers_def)+

lemma utf8_tree_width_uncovered:
  "uw_tree_ok t \<Longrightarrow> \<forall>e\<in>set_tree t. \<not> uw_covers v e \<Longrightarrow> utf8_tree_width v t = 1"
  by (induction t) (auto simp: uw_covers_def)

lemma utf8_build_table_ok:
  assumes ok: "\<forall>e\<in>set tbl. uw_first e \<le> uw_last e" and dj: "sorted_wrt uw_disjoint tbl"
  shows "runs (utf8_build_table tbl) (\<lambda>t. uw_tree_ok t \<and> set_tree t = set tbl)"
proof -
  have ij: "uw_disjoint (tbl ! i) (tbl ! j)" if "i < length tbl" "j < length tbl" "i \<noteq> j" for i j
  proof -
    have "uw_disjoint (tbl ! m) (tbl ! n)" if "m < n" "n < length tbl" for m n
      using dj that by (simp add: sorted_wrt_iff_nth_less)
    then have "uw_disjoint (tbl ! i) (tbl ! j) \<or> uw_disjoint (tbl ! j) (tbl ! i)"
      using that by (metis linorder_neqE_nat)
    then show ?thesis by (auto simp: uw_disjoint_def)
  qed
  have no: "\<not> list_ex (\<lambda>j. i \<noteq> j \<and> utf8_overlap (tbl ! i) (tbl ! j)) [0..<length tbl]"
    if "i < length tbl" for i
    using uw_disjoint_no_overlap [OF ij] ok that by (auto simp: list_ex_iff)
  have step: "runs (utf8_insert (tbl ! i) t)
      (\<lambda>t'. uw_tree_ok t' \<and> set_tree t' = set (take (Suc i) tbl))"
    if i: "i < length tbl" and t: "uw_tree_ok t \<and> set_tree t = set (take i tbl)" for i t
  proof (rule runs_mono [OF utf8_insert_ok])
    show "uw_tree_ok t" using t by simp
    show "uw_first (tbl ! i) \<le> uw_last (tbl ! i)" using ok i by simp
    show "\<forall>a\<in>set_tree t. uw_disjoint (tbl ! i) a"
      using t i ij by (auto simp: in_set_conv_nth)
    show "uw_tree_ok t' \<and> set_tree t' = set (take (Suc i) tbl)"
      if "uw_tree_ok t' \<and> set_tree t' = insert (tbl ! i) (set_tree t)" for t'
      using that t i by (simp add: take_Suc_conv_app_nth)
  qed
  have leaf: "uw_tree_ok Leaf \<and> set_tree (Leaf :: utf8_width_entry tree) = set (take 0 tbl)"
    by (simp add: uw_tree_ok_def)
  show ?thesis
    unfolding utf8_build_table_def
    using runs_foldM_upt [where a = 0 and b = "length tbl" and s = Leaf
        and I = "\<lambda>i t. uw_tree_ok t \<and> set_tree t = set (take i tbl)", OF leaf]
    by (simp add: Let_def no step)
qed

text \<open>The pairwise check of the table, by partition so that it evaluates quickly.\<close>

fun qdisjoint :: "(nat \<times> nat) list \<Rightarrow> bool" where
  "qdisjoint [] = True"
| "qdisjoint (x # xs) =
     (fst x \<le> snd x \<and> list_all (\<lambda>y. snd x < fst y \<or> snd y < fst x) xs
      \<and> qdisjoint (filter (\<lambda>y. snd y < fst x) xs)
      \<and> qdisjoint (filter (\<lambda>y. \<not> snd y < fst x) xs))"

lemma sorted_wrt_partition:
  assumes "sorted_wrt P (filter Q xs)" "sorted_wrt P (filter (\<lambda>y. \<not> Q y) xs)"
    and "\<forall>y\<in>set xs. \<forall>z\<in>set xs. Q y \<longrightarrow> \<not> Q z \<longrightarrow> P y z \<and> P z y"
  shows "sorted_wrt P xs"
  using assms by (induction xs) (auto split: if_splits)

lemma qdisjoint_sorted_wrt:
  "qdisjoint xs \<Longrightarrow> sorted_wrt (\<lambda>x y. snd x < fst y \<or> snd y < fst x) xs \<and> (\<forall>x\<in>set xs. fst x \<le> snd x)"
proof (induction xs rule: qdisjoint.induct)
  case 1
  then show ?case by simp
next
  case (2 x xs)
  let ?P = "\<lambda>x y. snd x < fst y \<or> snd y < fst x" and ?Q = "\<lambda>y. snd y < fst x"
  have "sorted_wrt ?P xs"
    by (rule sorted_wrt_partition [where Q = ?Q])
      (use 2 in \<open>auto simp: list_all_iff\<close>)
  moreover have "fst y \<le> snd y" if "y \<in> set xs" for y
    using 2 that by (cases "snd y < fst x") simp_all
  ultimately show ?case using "2.prems" by (simp add: list_all_iff)
qed

lemma utf8_width_table_checked: "qdisjoint (map (\<lambda>e. (uw_first e, uw_last e)) utf8_width_table)"
  unfolding utf8_width_table_def uwe_def list.map utf8_width_entry.simps by simp

lemma utf8_width_table_disjoint:
  "sorted_wrt uw_disjoint utf8_width_table" "\<forall>e\<in>set utf8_width_table. uw_first e \<le> uw_last e"
  using qdisjoint_sorted_wrt [OF utf8_width_table_checked]
  by (simp_all add: sorted_wrt_map uw_disjoint_def [abs_def])

lemma utf8_build_runs:
  "runs utf8_build (\<lambda>t. uw_tree_ok t \<and> set_tree t = set utf8_width_table)"
  unfolding utf8_build_def by (rule utf8_build_table_ok [OF utf8_width_table_disjoint(2,1)])

lemma utf8_width_root_facts:
  "utf8_build = Some utf8_width_root \<and> uw_tree_ok utf8_width_root
   \<and> set_tree utf8_width_root = set utf8_width_table"
proof -
  obtain t where t: "utf8_build = Some t" "uw_tree_ok t" "set_tree t = set utf8_width_table"
    using utf8_build_runs by (auto elim: runsE)
  have "utf8_width_root = t" unfolding utf8_width_root_def t(1) by simp
  then show ?thesis using t by blast
qed

lemmas utf8_build_Some = utf8_width_root_facts [THEN conjunct1]
lemmas utf8_width_root_ok = utf8_width_root_facts [THEN conjunct2, THEN conjunct1]
lemmas set_utf8_width_root = utf8_width_root_facts [THEN conjunct2, THEN conjunct2]

section \<open>Widths\<close>

lemma utf8_width_table_widths: "list_all (\<lambda>e. uw_width e \<le> 2) utf8_width_table"
  unfolding utf8_width_table_def uwe_def list.pred_inject utf8_width_entry.simps by simp

lemma utf8_tree_width_le:
  assumes "\<forall>e\<in>set_tree t. uw_width e \<le> n" "1 \<le> n"
  shows "utf8_tree_width v t \<le> n"
  using assms by (induction t) auto

lemma utf8_width_le_2 [simp]: "utf8_width d \<le> 2"
  unfolding utf8_width_def
  by (rule utf8_tree_width_le) (simp_all only: set_utf8_width_root utf8_width_table_widths list_all_iff [symmetric] one_le_numeral)

lemma utf8_table_lookup:
  "utf8_tree_width v utf8_width_root =
     (case find (uw_covers v) utf8_width_table of Some e \<Rightarrow> uw_width e | None \<Rightarrow> 1)"
proof (cases "find (uw_covers v) utf8_width_table")
  case None
  then have "\<forall>e\<in>set_tree utf8_width_root. \<not> uw_covers v e"
    by (simp add: find_None_iff set_utf8_width_root)
  then show ?thesis
    using None utf8_tree_width_uncovered [OF utf8_width_root_ok] by simp
next
  case (Some e)
  then have "e \<in> set_tree utf8_width_root" "uw_covers v e"
    by (auto simp: find_Some_iff set_utf8_width_root)
  then show ?thesis
    using Some utf8_tree_width_covered [OF utf8_width_root_ok] by simp
qed

section \<open>Assembling\<close>

text \<open>
  The loop every caller of utf8_open and utf8_append runs: open on the first byte, then
  append the others.
\<close>

fun utf8_appends :: "utf8_data \<Rightarrow> byte list \<Rightarrow> utf8_data option" where
  "utf8_appends d [] = Some d"
| "utf8_appends d (b # bs) = Option.bind (utf8_append d b) (\<lambda>r. utf8_appends (fst r) bs)"

definition utf8_assemble :: "byte list \<Rightarrow> utf8_data option" where
  "utf8_assemble bs = Option.bind (utf8_open (hd bs)) (\<lambda>r. utf8_appends (fst r) (tl bs))"

text \<open>A character of which n more bytes are wanted.\<close>

definition utf8_pending :: "nat \<Rightarrow> utf8_data \<Rightarrow> bool" where
  "utf8_pending n d \<longleftrightarrow> u8_have d + n = u8_size d \<and> 1 \<le> u8_have d \<and> u8_size d \<le> 4
     \<and> length (u8_data d) = UTF8_SIZE \<and> u8_width d \<le> 2"

lemma utf8_append_pending:
  assumes "utf8_pending n d" "0 < n"
  shows "runs (utf8_append d b)
    (\<lambda>(d', more). utf8_pending (n - 1) d' \<and> more = (n \<noteq> 1) \<and> u8_size d' = u8_size d)"
  using assms by (auto simp: utf8_append_def utf8_pending_def Let_def)

lemma utf8_open_start:
  assumes "0xc2 \<le> b" "b \<le> 0xf4"
  shows "utf8_open b = Some (\<lparr>u8_data = b # replicate 8 0, u8_have = 1,
     u8_size = (if b \<le> 0xdf then 2 else if b \<le> 0xef then 3 else 4), u8_width = 0\<rparr>, True)"
  using assms
proof -
  have z: "(replicate 9 (0::byte))[0 := b] = b # replicate 8 0"
    by (simp add: numeral_eq_Suc)
  show ?thesis
    using assms
    by (auto simp: utf8_open_def utf8_append_def utf8_zero_def Let_def z word_le_nat_alt)
qed

text \<open>The encoder of RFC 3629, the reference that the assembled code point is checked against.\<close>

definition utf8_encode :: "nat \<Rightarrow> byte list" where
  "utf8_encode cp =
     (if cp < 0x80 then [byte_of_nat cp]
      else if cp < 0x800 then
        [byte_of_nat (0xc0 + cp div 64), byte_of_nat (0x80 + cp mod 64)]
      else if cp < 0x10000 then
        [byte_of_nat (0xe0 + cp div 4096), byte_of_nat (0x80 + cp div 64 mod 64),
         byte_of_nat (0x80 + cp mod 64)]
      else
        [byte_of_nat (0xf0 + cp div 262144), byte_of_nat (0x80 + cp div 4096 mod 64),
         byte_of_nat (0x80 + cp div 64 mod 64), byte_of_nat (0x80 + cp mod 64)])"

lemma utf8_encode_lead:
  assumes "0x80 \<le> cp" "cp < 0x110000"
  shows "0xc2 \<le> hd (utf8_encode cp)" "hd (utf8_encode cp) \<le> 0xf4"
    "length (utf8_encode cp) = (if hd (utf8_encode cp) \<le> 0xdf then 2
      else if hd (utf8_encode cp) \<le> 0xef then 3 else 4)"
proof -
  have "cp div 64 < 32" if "cp < 0x800" using that by (simp add: div_less_iff_less_mult)
  moreover have "cp div 4096 < 16" if "cp < 0x10000" using that by (simp add: div_less_iff_less_mult)
  moreover have "cp div 262144 < 5" using assms by (simp add: div_less_iff_less_mult)
  moreover have "2 \<le> cp div 64" using assms by (simp add: less_eq_div_iff_mult_less_eq)
  ultimately show "0xc2 \<le> hd (utf8_encode cp)" "hd (utf8_encode cp) \<le> 0xf4"
    "length (utf8_encode cp) = (if hd (utf8_encode cp) \<le> 0xdf then 2
      else if hd (utf8_encode cp) \<le> 0xef then 3 else 4)"
    by (auto simp: utf8_encode_def word_le_nat_alt unat_byte_of_nat)
qed


lemma utf8_assemble_2:
  assumes "0xc2 \<le> b0" "b0 \<le> 0xdf"
  shows "utf8_assemble [b0, b1] =
    (let d = \<lparr>u8_data = b0 # b1 # replicate 7 0, u8_have = 2, u8_size = 2, u8_width = 0\<rparr>
     in Some (d\<lparr>u8_width := utf8_width d\<rparr>))"
proof -
  have "b0 \<le> 0xf4" using assms(2) by (simp add: word_le_nat_alt)
  then show ?thesis using assms
    by (simp add: utf8_assemble_def utf8_open_start utf8_append_def Let_def numeral_eq_Suc)
qed

lemma utf8_assemble_3:
  assumes "0xe0 \<le> b0" "b0 \<le> 0xef"
  shows "utf8_assemble [b0, b1, b2] =
    (let d = \<lparr>u8_data = b0 # b1 # b2 # replicate 6 0, u8_have = 3, u8_size = 3, u8_width = 0\<rparr>
     in Some (d\<lparr>u8_width := utf8_width d\<rparr>))"
proof -
  have "b0 \<le> 0xf4" "0xc2 \<le> b0" "\<not> b0 \<le> 0xdf" using assms by (simp_all add: word_le_nat_alt)
  then show ?thesis using assms
    by (simp add: utf8_assemble_def utf8_open_start utf8_append_def Let_def numeral_eq_Suc)
qed

lemma utf8_assemble_4:
  assumes "0xf0 \<le> b0" "b0 \<le> 0xf4"
  shows "utf8_assemble [b0, b1, b2, b3] =
    (let d = \<lparr>u8_data = b0 # b1 # b2 # b3 # replicate 5 0, u8_have = 4, u8_size = 4, u8_width = 0\<rparr>
     in Some (d\<lparr>u8_width := utf8_width d\<rparr>))"
proof -
  have "0xc2 \<le> b0" "\<not> b0 \<le> 0xdf" "\<not> b0 \<le> 0xef" using assms by (simp_all add: word_le_nat_alt)
  then show ?thesis using assms
    by (simp add: utf8_assemble_def utf8_open_start utf8_append_def Let_def numeral_eq_Suc)
qed


lemma div_mod_64: "(cp::nat) mod 64 + 64 * (cp div 64 mod 64) + 4096 * (cp div 4096) = cp"
proof -
  have "cp div 4096 = cp div 64 div 64" by (simp add: div_mult2_eq [symmetric])
  then show ?thesis using div_mult_mod_eq [of cp 64] div_mult_mod_eq [of "cp div 64" 64] by linarith
qed

lemma utf8_combine_unfold:
  "u8_size d = 2 \<Longrightarrow> unat (utf8_combine d) = unat (u8_data d ! 1) mod 64 + 64 * (unat (u8_data d ! 0) mod 32)"
  "u8_size d = 3 \<Longrightarrow> unat (utf8_combine d) = unat (u8_data d ! 2) mod 64 + 64 * (unat (u8_data d ! 1) mod 64)
     + 4096 * (unat (u8_data d ! 0) mod 16)"
  "u8_size d = 4 \<Longrightarrow> unat (utf8_combine d) = unat (u8_data d ! 3) mod 64 + 64 * (unat (u8_data d ! 2) mod 64)
     + 4096 * (unat (u8_data d ! 1) mod 64) + 262144 * (unat (u8_data d ! 0) mod 64)"
  by (simp_all add: utf8_combine_def Let_def combine2 [simplified] combine3 [simplified]
      combine4 [simplified])

lemma lead_mods:
  "a < 64 \<Longrightarrow> (128 + a) mod 64 = (a::nat)" "a < 32 \<Longrightarrow> (192 + a) mod 32 = (a::nat)"
  "a < 16 \<Longrightarrow> (224 + a) mod 16 = (a::nat)" "a < 5 \<Longrightarrow> (240 + a) mod 64 = 48 + (a::nat)"
  using mod_mult_self3 [of 2 64 a] mod_mult_self3 [of 6 32 a] mod_mult_self3 [of 14 16 a]
    mod_mult_self3 [of 3 64 "48 + a"] by simp_all

lemma four_byte_value:
  "x + 64 * y + 4096 * q = (cp::nat) \<Longrightarrow> q = r * 64 + s \<Longrightarrow>
   x + 64 * y + 4096 * s + 262144 * (48 + r) = cp + 0xC00000"
  by simp

definition utf8_table_width :: "nat \<Rightarrow> nat" where
  "utf8_table_width v =
     (case find (uw_covers v) utf8_width_table of Some e \<Rightarrow> uw_width e | None \<Rightarrow> 1)"

text \<open>
  C18: decoding inverts encoding below U+10000. Opening and appending the bytes of the
  encoding of a code point completes a character that holds exactly those bytes, whose
  combined value is the code point and whose width is the one the width table gives it.
\<close>

theorem utf8_roundtrip:
  assumes "0x80 \<le> cp" "cp < 0x10000"
  shows "\<exists>d. utf8_assemble (utf8_encode cp) = Some d
    \<and> u8_have d = u8_size d \<and> take (u8_size d) (u8_data d) = utf8_encode cp
    \<and> unat (utf8_combine d) = cp \<and> u8_width d = utf8_table_width cp"
proof (cases "cp < 0x800")
  case True
  have b: "cp div 64 < 32" "2 \<le> cp div 64"
    using True assms by (simp_all add: div_less_iff_less_mult less_eq_div_iff_mult_less_eq)
  have enc: "utf8_encode cp = [byte_of_nat (0xc0 + cp div 64), byte_of_nat (0x80 + cp mod 64)]"
    using True assms by (simp add: utf8_encode_def)
  have "0xc2 \<le> byte_of_nat (0xc0 + cp div 64)" "byte_of_nat (0xc0 + cp div 64) \<le> 0xdf"
    using b by (simp_all add: word_le_nat_alt unat_byte_of_nat)
  from utf8_assemble_2 [OF this] show ?thesis
    using b by (simp add: enc Let_def utf8_combine_unfold(1) unat_byte_of_nat utf8_width_def
        utf8_table_lookup utf8_table_width_def lead_mods)
next
  case False
  have b: "cp div 4096 < 16" "cp div 64 mod 64 < 64" "cp mod 64 < 64"
    using assms by (simp_all add: div_less_iff_less_mult)
  have enc: "utf8_encode cp = [byte_of_nat (0xe0 + cp div 4096),
      byte_of_nat (0x80 + cp div 64 mod 64), byte_of_nat (0x80 + cp mod 64)]"
    using False assms by (simp add: utf8_encode_def)
  have "0xe0 \<le> byte_of_nat (0xe0 + cp div 4096)" "byte_of_nat (0xe0 + cp div 4096) \<le> 0xef"
    using b by (simp_all add: word_le_nat_alt unat_byte_of_nat)
  from utf8_assemble_3 [OF this] show ?thesis
    using b div_mod_64 [of cp]
    by (simp add: enc Let_def utf8_combine_unfold(2) unat_byte_of_nat utf8_width_def
        utf8_table_lookup utf8_table_width_def lead_mods)
qed

theorem utf8_roundtrip_witness:
  "\<exists>d. utf8_assemble (utf8_encode 0x20ac) = Some d
    \<and> u8_have d = u8_size d \<and> take (u8_size d) (u8_data d) = utf8_encode 0x20ac
    \<and> unat (utf8_combine d) = 0x20ac \<and> u8_width d = utf8_table_width 0x20ac"
  by (rule utf8_roundtrip) simp_all

lemma utf8_width_table_last: "list_all (\<lambda>e. uw_last e < 0xC00000) utf8_width_table"
  unfolding utf8_width_table_def uwe_def list.pred_inject utf8_width_entry.simps by simp

lemma utf8_width_beyond_table: "0xC00000 \<le> v \<Longrightarrow> utf8_tree_width v utf8_width_root = 1"
  using utf8_width_table_last
  by (intro utf8_tree_width_uncovered utf8_width_root_ok)
    (force simp only: uw_covers_def list_all_iff set_utf8_width_root not_le)

text \<open>
  a four-byte character is always one column wide. utf8_combine keeps the six low
  bits of the lead byte, not three, so that the value of every code point from U+10000 on
  is 0xC00000 too large and no interval of the width table covers it, although the table
  has intervals of width 0 and 2 there.
\<close>

theorem utf8_four_bytes_width_one:
  assumes "0x10000 \<le> cp" "cp < 0x110000"
  shows "\<exists>d. utf8_assemble (utf8_encode cp) = Some d
    \<and> unat (utf8_combine d) = cp + 0xC00000 \<and> u8_width d = 1"
proof -
  have b: "cp div 262144 < 5" "cp div 64 mod 64 < 64" "cp mod 64 < 64" "cp div 4096 mod 64 < 64"
    using assms by (simp_all add: div_less_iff_less_mult)
  have enc: "utf8_encode cp = [byte_of_nat (0xf0 + cp div 262144),
      byte_of_nat (0x80 + cp div 4096 mod 64), byte_of_nat (0x80 + cp div 64 mod 64),
      byte_of_nat (0x80 + cp mod 64)]"
    using assms by (simp add: utf8_encode_def)
  have lead: "0xf0 \<le> byte_of_nat (0xf0 + cp div 262144)" "byte_of_nat (0xf0 + cp div 262144) \<le> 0xf4"
    using b by (simp_all add: word_le_nat_alt unat_byte_of_nat)
  have "cp div 262144 = cp div 4096 div 64" by (simp add: div_mult2_eq [symmetric])
  then have v: "cp mod 64 + 64 * (cp div 64 mod 64) + 4096 * (cp div 4096 mod 64)
      + 262144 * (48 + cp div 262144) = cp + 0xC00000"
    using four_byte_value [OF div_mod_64, of cp "cp div 4096 div 64" "cp div 4096 mod 64"] by simp
  from utf8_assemble_4 [OF lead] show ?thesis
    using b v by (simp add: enc Let_def utf8_combine_unfold(3) unat_byte_of_nat utf8_width_def
        utf8_width_beyond_table lead_mods)
qed

theorem utf8_four_bytes_width_one_witness:
  "(\<exists>d. utf8_assemble (utf8_encode 0x20000) = Some d
    \<and> unat (utf8_combine d) = 0x20000 + 0xC00000 \<and> u8_width d = 1)
   \<and> utf8_table_width 0x20000 = 2"
  using utf8_four_bytes_width_one [of "0x20000"]
  by (simp add: utf8_table_width_def uw_covers_def utf8_width_table_def uwe_def)

lemma byte_or_eq:
  assumes "a < 2 ^ n" "2 ^ n * b + a < 256" "unat x = a" "unat y = 2 ^ n * b"
  shows "x OR y = byte_of_nat (2 ^ n * b + a)"
proof -
  have "unat (x OR y) = a + 2 ^ n * b"
    using or_push_bit_nat [of a n b] assms
    by (simp add: unsigned_or_eq push_bit_eq_mult mult.commute)
  then show ?thesis using assms(2) by (simp add: word_unat_eq_iff unat_byte_of_nat add.commute)
qed

text \<open>
  the short encoder agrees with the decoder. For every code point that
  utf8_split2 is meant for, its bytes are the encoding that utf8_open and utf8_append take
  apart again (mouse coordinates are sent through it).
\<close>

theorem utf8_split2_encode:
  assumes "uc < 0x800"
  shows "utf8_split2 uc = utf8_encode uc"
proof -
  have q: "uc div 64 < 32" using assms by (simp add: div_less_iff_less_mult)
  have m: "unat (word_of_nat uc AND (0x3f :: byte)) = uc mod 64"
  proof -
    have "(0x3f :: byte) = mask 6" by (simp add: mask_eq_exp_minus_1)
    then have "unat (word_of_nat uc AND (0x3f :: byte)) = uc mod 256 mod 64"
      by (simp only: unat_and_mask) (simp add: unat_of_nat)
    then show ?thesis by (simp add: mod_mod_cancel)
  qed
  have "word_of_nat (uc div 64) OR (0xc0 :: byte) = byte_of_nat (0xc0 + uc div 64)"
    using byte_or_eq [of "uc div 64" 6 3 "word_of_nat (uc div 64)" "0xc0"] q
    by (simp add: unat_of_nat)
  moreover have "(word_of_nat uc AND 0x3f) OR (0x80 :: byte) = byte_of_nat (0x80 + uc mod 64)"
    using byte_or_eq [OF _ _ m, of 6 2 "0x80"] by simp
  ultimately show ?thesis using assms
    by (auto simp: utf8_split2_def utf8_encode_def byte_of_nat_def)
qed

theorem utf8_split2_encode_witness: "utf8_split2 0xe9 = utf8_encode 0xe9"
  by (rule utf8_split2_encode) simp

end
