(* ===== verification/C_Library.thy ===== *)
theory C_Library
  imports Tmux_Prelude
begin

text \<open>
  What the sources use of the C library (and of their own copies of BSD functions in
  compat/): case-insensitive comparison, spans, strtonum, decimal printing, strlcat and
  bsearch. A C string is the list of its characters before the terminating NUL.
\<close>

section \<open>Characters and comparison\<close>

definition char_code :: "char \<Rightarrow> nat" where
  "char_code c = of_char c"

definition tolower :: "char \<Rightarrow> char" where
  "tolower c = (if 65 \<le> char_code c \<and> char_code c \<le> 90 then char_of (char_code c + 32) else c)"

definition strcaseeq :: "string \<Rightarrow> string \<Rightarrow> bool" where
  "strcaseeq s t \<longleftrightarrow> map tolower s = map tolower t"

definition strncaseeq :: "nat \<Rightarrow> string \<Rightarrow> string \<Rightarrow> bool" where
  "strncaseeq n s t \<longleftrightarrow> map tolower (take n s) = map tolower (take n t)"

definition is_digit :: "char \<Rightarrow> bool" where
  "is_digit c \<longleftrightarrow> 48 \<le> char_code c \<and> char_code c \<le> 57"

definition is_xdigit :: "char \<Rightarrow> bool" where
  "is_xdigit c \<longleftrightarrow> is_digit c \<or> (65 \<le> char_code c \<and> char_code c \<le> 70)
     \<or> (97 \<le> char_code c \<and> char_code c \<le> 102)"

definition is_space :: "char \<Rightarrow> bool" where
  "is_space c \<longleftrightarrow> char_code c = 32 \<or> (9 \<le> char_code c \<and> char_code c \<le> 13)"

text \<open>strcspn and strspn: the length of the prefix without, and with, the given characters.\<close>

definition strcspn :: "string \<Rightarrow> string \<Rightarrow> nat" where
  "strcspn s reject = length (takeWhile (\<lambda>c. c \<notin> set reject) s)"

definition strspn :: "string \<Rightarrow> string \<Rightarrow> nat" where
  "strspn s accept = length (takeWhile (\<lambda>c. c \<in> set accept) s)"

lemma strcspn_le: "strcspn s r \<le> length s"
  by (simp add: strcspn_def length_takeWhile_le)

lemma strcaseeq_refl [simp]: "strcaseeq s s"
  by (simp add: strcaseeq_def)

text \<open>strlcat into a buffer of the given size, as the resulting string.\<close>

definition strlcat :: "string \<Rightarrow> string \<Rightarrow> nat \<Rightarrow> string" where
  "strlcat dst src siz =
     (if length dst < siz then dst @ take (siz - 1 - length dst) src else dst)"

section \<open>Numbers\<close>

definition digit_value :: "char \<Rightarrow> nat" where
  "digit_value c = char_code c - 48"

definition xdigit_value :: "char \<Rightarrow> nat" where
  "xdigit_value c =
     (if is_digit c then char_code c - 48
      else if char_code c \<le> 70 then char_code c - 55
      else char_code c - 87)"

fun digits_value :: "nat \<Rightarrow> string \<Rightarrow> nat" where
  "digits_value acc [] = acc"
| "digits_value acc (c # cs) = digits_value (acc * 10 + digit_value c) cs"

text \<open>
  strtonum: strtoll in base 10 on the whole string (leading white space and a sign are
  allowed), then the range check; None is a non-NULL errstr. A value beyond long long is
  out of every range the callers give, so that the saturation of strtoll does not show.
\<close>

definition strtonum :: "string \<Rightarrow> int \<Rightarrow> int \<Rightarrow> int option" where
  "strtonum numstr minval maxval =
     (let s = dropWhile is_space numstr;
          neg = (s \<noteq> [] \<and> hd s = CHR ''-'');
          t = (if s \<noteq> [] \<and> (hd s = CHR ''-'' \<or> hd s = CHR ''+'') then tl s else s);
          ll = (if neg then - int (digits_value 0 t) else int (digits_value 0 t))
      in if minval > maxval then None
         else if t = [] \<or> \<not> list_all is_digit t then None
         else if ll < minval then None
         else if ll > maxval then None
         else Some ll)"

text \<open>Printing with %u.\<close>

definition digit_char :: "nat \<Rightarrow> char" where
  "digit_char d = char_of (48 + d)"

fun print_unsigned :: "nat \<Rightarrow> string" where
  "print_unsigned n =
     (if n < 10 then [digit_char n] else print_unsigned (n div 10) @ [digit_char (n mod 10)])"

declare print_unsigned.simps [simp del]

lemma char_code_digit: "d < 10 \<Longrightarrow> char_code (digit_char d) = 48 + d"
  by (simp add: char_code_def digit_char_def)

lemma digits_value_append:
  "digits_value acc (xs @ ys) = digits_value (digits_value acc xs) ys"
  by (induction xs arbitrary: acc) simp_all

lemma print_unsigned_digits:
  "print_unsigned n \<noteq> [] \<and> list_all is_digit (print_unsigned n)
   \<and> digits_value 0 (print_unsigned n) = n"
proof (induction n rule: print_unsigned.induct)
  case (1 n)
  have d: "is_digit (digit_char k) \<and> digit_value (digit_char k) = k" if "k < 10" for k
    using that by (simp add: is_digit_def digit_value_def char_code_digit)
  show ?case
    using 1 d [of n] d [of "n mod 10"]
    by (subst (1 2 3) print_unsigned.simps) (auto simp: digits_value_append)
qed

lemma is_digit_plain: "is_digit c \<Longrightarrow> \<not> is_space c \<and> c \<noteq> CHR ''-'' \<and> c \<noteq> CHR ''+''"
  by (auto simp: is_digit_def is_space_def char_code_def)

text \<open>Reading back what was printed.\<close>

lemma strtonum_print_unsigned:
  assumes "lo \<le> int n" "int n \<le> hi"
  shows "strtonum (print_unsigned n) lo hi = Some (int n)"
proof -
  obtain c cs where p: "print_unsigned n = c # cs"
    using print_unsigned_digits [of n] by (cases "print_unsigned n") auto
  have "is_digit c" using print_unsigned_digits [of n] by (simp add: p)
  then show ?thesis
    using is_digit_plain [of c] print_unsigned_digits [of n] assms
    by (simp add: strtonum_def p Let_def)
qed

lemma strtonum_SomeD: "strtonum s lo hi = Some n \<Longrightarrow> lo \<le> n \<and> n \<le> hi"
  by (auto simp: strtonum_def Let_def split: if_splits)

section \<open>bsearch\<close>

lemma find_append:
  "find P (xs @ ys) = (case find P xs of Some x \<Rightarrow> Some x | None \<Rightarrow> find P ys)"
  by (induction xs) auto

lemma find_unique:
  "x \<in> set xs \<Longrightarrow> P x \<Longrightarrow> (\<And>y. y \<in> set xs \<Longrightarrow> P y \<Longrightarrow> y = x) \<Longrightarrow> find P xs = Some x"
proof -
  assume x: "x \<in> set xs" "P x" and u: "\<And>y. y \<in> set xs \<Longrightarrow> P y \<Longrightarrow> y = x"
  have "find P xs \<noteq> None" using x by (auto simp: find_None_iff)
  then obtain y where y: "find P xs = Some y" by blast
  then have "y \<in> set xs \<and> P y" by (auto simp: find_Some_iff)
  with u y show ?thesis by simp
qed

text \<open>
  The binary search of stdlib, as BSD's libc writes it: compare with the element in the
  middle, then keep the part before or after it. \<open>cmp\<close> is the comparison function with
  the key fixed.
\<close>

function bsearch :: "('e \<Rightarrow> int) \<Rightarrow> 'e list \<Rightarrow> 'e option" where
  "bsearch cmp xs =
     (if xs = [] then None
      else let m = length xs div 2; p = xs ! m in
        if cmp p = 0 then Some p
        else if cmp p > 0 then bsearch cmp (drop (Suc m) xs)
        else bsearch cmp (take m xs))"
  by pat_completeness auto
termination
  by (relation "measure (\<lambda>(cmp, xs). length xs)") auto

declare bsearch.simps [simp del]

text \<open>
  The contract between a table and bsearch: the comparison orders the key against the
  entries' keys, and the table is strictly sorted by them.
\<close>

locale search_table =
  fixes cmp :: "'k::linorder \<Rightarrow> 'e \<Rightarrow> int"
    and ekey :: "'e \<Rightarrow> 'k"
    and tbl :: "'e list"
  assumes cmp_less: "cmp k e < 0 \<longleftrightarrow> k < ekey e"
    and cmp_equal: "cmp k e = 0 \<longleftrightarrow> k = ekey e"
    and tbl_sorted: "sorted_wrt (<) (map ekey tbl)"
begin

lemma bsearch_part:
  "sorted_wrt (<) (map ekey xs) \<Longrightarrow> bsearch (cmp k) xs = find (\<lambda>e. ekey e = k) xs"
proof (induction "cmp k" xs rule: bsearch.induct)
  case (1 xs)
  show ?case
  proof (cases "xs = []")
    case True
    then show ?thesis by (simp add: bsearch.simps)
  next
    case False
    define m where "m = length xs div 2"
    have m: "m < length xs" using False by (simp add: m_def)
    have split: "xs = take m xs @ xs ! m # drop (Suc m) xs"
      using m by (simp add: id_take_nth_drop)
    have sorted: "sorted_wrt (<) (map ekey (take m xs))" "sorted_wrt (<) (map ekey (drop (Suc m) xs))"
      using "1.prems" by (simp_all add: take_map [symmetric] drop_map [symmetric] sorted_wrt_take sorted_wrt_drop)
    have low: "\<forall>e\<in>set (take m xs). ekey e < ekey (xs ! m)"
      and high: "\<forall>e\<in>set (drop (Suc m) xs). ekey (xs ! m) < ekey e"
      using "1.prems" by (subst (asm) split, force simp: sorted_wrt_append)+
    have f: "find P xs = (case find P (take m xs) of Some e \<Rightarrow> Some e
        | None \<Rightarrow> if P (xs ! m) then Some (xs ! m) else find P (drop (Suc m) xs))" for P
      by (subst split) (simp only: find_append find.simps)
    have none: "find (\<lambda>e. ekey e = k) ys = None" if "\<forall>e\<in>set ys. ekey e \<noteq> k" for ys
      using that by (simp add: find_None_iff)
    consider "k = ekey (xs ! m)" | "k < ekey (xs ! m)" | "ekey (xs ! m) < k" by fastforce
    then show ?thesis
    proof cases
      case 1
      have "find (\<lambda>e. ekey e = k) (take m xs) = None" by (rule none) (use low 1 in fastforce)
      then show ?thesis
        using False 1 by (subst bsearch.simps) (simp add: Let_def m_def [symmetric] cmp_equal f)
    next
      case 2
      then have c: "cmp k (xs ! m) < 0" by (simp add: cmp_less)
      have "find (\<lambda>e. ekey e = k) (drop (Suc m) xs) = None"
        by (rule none) (use high 2 in fastforce)
      then have "find (\<lambda>e. ekey e = k) xs = find (\<lambda>e. ekey e = k) (take m xs)"
        using 2 by (simp add: f split: option.splits)
      then show ?thesis
        using False c "1.hyps"(2) [OF False m_def refl] sorted(1)
        by (subst bsearch.simps) (simp add: Let_def m_def [symmetric])
    next
      case 3
      then have c: "cmp k (xs ! m) > 0" using cmp_less [of k "xs ! m"] cmp_equal [of k "xs ! m"] by force
      have "find (\<lambda>e. ekey e = k) (take m xs) = None"
        by (rule none) (use low 3 in fastforce)
      then have "find (\<lambda>e. ekey e = k) xs = find (\<lambda>e. ekey e = k) (drop (Suc m) xs)"
        using 3 by (simp add: f)
      then show ?thesis
        using False c "1.hyps"(1) [OF False m_def refl] sorted(2)
        by (subst bsearch.simps) (simp add: Let_def m_def [symmetric])
    qed
  qed
qed

lemma bsearch_find: "bsearch (cmp k) tbl = find (\<lambda>e. ekey e = k) tbl"
  by (rule bsearch_part [OF tbl_sorted])

lemma bsearch_hit: "e \<in> set tbl \<Longrightarrow> bsearch (cmp (ekey e)) tbl = Some e"
proof -
  assume e: "e \<in> set tbl"
  have "e' = e" if "e' \<in> set tbl" "ekey e' = ekey e" for e'
    using tbl_sorted e that
    by (auto simp: in_set_conv_nth sorted_wrt_iff_nth_less) (metis linorder_neqE_nat order_less_irrefl)
  then show ?thesis
    unfolding bsearch_find by (intro find_unique e refl) auto
qed

end

end
