(* ===== verification/Grid_Cell.thy ===== *)
theory Grid_Cell
  imports Utf8
begin

text \<open>
  The cell types of tmux.h (struct grid_cell, struct grid_utf8, the flag and attribute
  bits) and grid-utf8.c, the functions on the bytes of a UTF-8 cell.
\<close>

section \<open>Bits\<close>

abbreviation GRID_ATTR_BRIGHT :: byte where "GRID_ATTR_BRIGHT \<equiv> 0x1"
abbreviation GRID_ATTR_DIM :: byte where "GRID_ATTR_DIM \<equiv> 0x2"
abbreviation GRID_ATTR_UNDERSCORE :: byte where "GRID_ATTR_UNDERSCORE \<equiv> 0x4"
abbreviation GRID_ATTR_BLINK :: byte where "GRID_ATTR_BLINK \<equiv> 0x8"
abbreviation GRID_ATTR_REVERSE :: byte where "GRID_ATTR_REVERSE \<equiv> 0x10"
abbreviation GRID_ATTR_HIDDEN :: byte where "GRID_ATTR_HIDDEN \<equiv> 0x20"
abbreviation GRID_ATTR_ITALICS :: byte where "GRID_ATTR_ITALICS \<equiv> 0x40"
abbreviation GRID_ATTR_CHARSET :: byte where "GRID_ATTR_CHARSET \<equiv> 0x80"

abbreviation GRID_FLAG_FG256 :: byte where "GRID_FLAG_FG256 \<equiv> 0x1"
abbreviation GRID_FLAG_BG256 :: byte where "GRID_FLAG_BG256 \<equiv> 0x2"
abbreviation GRID_FLAG_PADDING :: byte where "GRID_FLAG_PADDING \<equiv> 0x4"
abbreviation GRID_FLAG_UTF8 :: byte where "GRID_FLAG_UTF8 \<equiv> 0x8"

abbreviation GRID_LINE_WRAPPED :: "32 word" where "GRID_LINE_WRAPPED \<equiv> 0x1"
abbreviation GRID_HISTORY :: "32 word" where "GRID_HISTORY \<equiv> 0x1"

section \<open>Cells\<close>

record grid_cell =
  gc_attr :: byte
  gc_flags :: byte
  gc_fg :: byte
  gc_bg :: byte
  gc_data :: byte

definition grid_default_cell :: grid_cell where
  "grid_default_cell = \<lparr>gc_attr = 0, gc_flags = 0, gc_fg = 8, gc_bg = 8, gc_data = 0x20\<rparr>"

text \<open>
  The UTF-8 data of a cell. \<open>grid_utf8_indet\<close> is one that has been allocated (or declared)
  and not written: its bytes are unspecified.
\<close>

record grid_utf8 =
  gu_width :: nat
  gu_data :: "byte list"

definition grid_utf8_indet :: grid_utf8 where
  "grid_utf8_indet = \<lparr>gu_width = undefined, gu_data = replicate UTF8_SIZE undefined\<rparr>"

definition gu_ok :: "grid_utf8 \<Rightarrow> bool" where
  "gu_ok gu \<longleftrightarrow> length (gu_data gu) = UTF8_SIZE"

lemma gu_ok_indet [simp]: "gu_ok grid_utf8_indet"
  by (simp add: gu_ok_def grid_utf8_indet_def)

lemma grid_default_cell_sel [simp]:
  "gc_attr grid_default_cell = 0" "gc_flags grid_default_cell = 0" "gc_fg grid_default_cell = 8"
  "gc_bg grid_default_cell = 8" "gc_data grid_default_cell = 0x20"
  by (simp_all add: grid_default_cell_def)

abbreviation is_padding :: "grid_cell \<Rightarrow> bool" where
  "is_padding gc \<equiv> flag_set (gc_flags gc) GRID_FLAG_PADDING"

abbreviation is_utf8 :: "grid_cell \<Rightarrow> bool" where
  "is_utf8 gc \<equiv> flag_set (gc_flags gc) GRID_FLAG_UTF8"

section \<open>grid-utf8.c\<close>

definition grid_utf8_size :: "grid_utf8 \<Rightarrow> nat" where
  "grid_utf8_size gu = length (takeWhile (\<lambda>b. b \<noteq> 0xff) (take UTF8_SIZE (gu_data gu)))"

text \<open>grid_utf8_copy: the bytes that are copied out; a buffer that is too short is fatalx.\<close>

definition grid_utf8_copy :: "grid_utf8 \<Rightarrow> nat \<Rightarrow> byte list option" where
  "grid_utf8_copy gu len =
     (let size = grid_utf8_size gu in
      if size > len then None else Some (take size (gu_data gu)))"

definition grid_utf8_set :: "grid_utf8 \<Rightarrow> utf8_data \<Rightarrow> grid_utf8 option" where
  "grid_utf8_set gu u =
     (if u8_size u = 0 then None
      else if u8_size u > UTF8_SIZE then None
      else do {
        let bytes = take (u8_size u) (u8_data u) @ drop (u8_size u) (gu_data gu);
        bytes' \<leftarrow> (if u8_size u \<noteq> UTF8_SIZE then lput (u8_size u) 0xff bytes else Some bytes);
        Some (gu\<lparr>gu_data := bytes', gu_width := u8_width u mod 256\<rparr>)
      })"

text \<open>grid_utf8_append: None for the result -1 (no room; the cell is unchanged).\<close>

definition grid_utf8_append :: "grid_utf8 \<Rightarrow> utf8_data \<Rightarrow> grid_utf8 option" where
  "grid_utf8_append gu u =
     (let old_size = grid_utf8_size gu; new_size = old_size + u8_size u in
      if new_size > UTF8_SIZE then None
      else
        let bytes = take old_size (gu_data gu) @ take (u8_size u) (u8_data u)
                      @ drop new_size (gu_data gu)
        in Some (gu\<lparr>gu_data := (if new_size \<noteq> UTF8_SIZE then bytes[new_size := 0xff] else bytes)\<rparr>))"

definition grid_utf8_compare :: "grid_utf8 \<Rightarrow> grid_utf8 \<Rightarrow> bool" where
  "grid_utf8_compare gu1 gu2 =
     (let size = grid_utf8_size gu1 in
      if size \<noteq> grid_utf8_size gu2 then False
      else take size (gu_data gu1) = take size (gu_data gu2))"

text \<open>The text of a cell: its bytes up to the terminator.\<close>

abbreviation gu_text :: "grid_utf8 \<Rightarrow> byte list" where
  "gu_text gu \<equiv> take (grid_utf8_size gu) (gu_data gu)"

abbreviation u8_text :: "utf8_data \<Rightarrow> byte list" where
  "u8_text u \<equiv> take (u8_size u) (u8_data u)"

lemma takeWhile_terminated:
  "0xff \<notin> set xs \<Longrightarrow> takeWhile (\<lambda>b. b \<noteq> (0xff::byte)) (xs @ 0xff # ys) = xs"
  "0xff \<notin> set xs \<Longrightarrow> takeWhile (\<lambda>b. b \<noteq> (0xff::byte)) xs = xs"
  by (induction xs) auto

lemma gu_text_takeWhile:
  "gu_ok gu \<Longrightarrow> gu_text gu = takeWhile (\<lambda>b. b \<noteq> 0xff) (gu_data gu)"
  by (simp add: gu_ok_def grid_utf8_size_def) (metis takeWhile_eq_take)

lemma grid_utf8_size_le: "grid_utf8_size gu \<le> UTF8_SIZE"
  unfolding grid_utf8_size_def
  using length_takeWhile_le [of "\<lambda>b. b \<noteq> 0xff" "take 9 (gu_data gu)"] by simp

lemma gu_text_bytes:
  assumes "length xs \<le> UTF8_SIZE" "0xff \<notin> set xs" "gu_ok gu"
    and "gu_data gu = (if length xs \<noteq> UTF8_SIZE then xs @ 0xff # ys else xs)"
  shows "gu_text gu = xs"
  using gu_text_takeWhile [OF assms(3)] takeWhile_terminated [OF assms(2)] assms(4)
  by (simp split: if_splits)

lemma list_update_at_end: "(xs @ y # ys)[length xs := z] = xs @ z # ys"
  by (simp add: list_update_append)

text \<open>The bytes written into a cell, when none of them is the terminator.\<close>

lemma grid_utf8_set_runs:
  assumes "gu_ok gu" "length (u8_data u) = UTF8_SIZE" "0 < u8_size u" "u8_size u \<le> UTF8_SIZE"
  shows "runs (grid_utf8_set gu u) (\<lambda>gu'. gu_ok gu' \<and> gu_width gu' = u8_width u mod 256
    \<and> (0xff \<notin> set (u8_text u) \<longrightarrow> gu_text gu' = u8_text u))"
proof (cases "u8_size u = UTF8_SIZE")
  case True
  then show ?thesis
    using assms gu_text_bytes [of "u8_text u"]
    by (simp add: grid_utf8_set_def gu_ok_def)
next
  case False
  let ?xs = "u8_text u" and ?ys = "drop (Suc (u8_size u)) (gu_data gu)"
  have len: "u8_size u < 9" using False assms by simp
  have dr: "drop (u8_size u) (gu_data gu) = gu_data gu ! u8_size u # ?ys"
    using len assms by (simp add: gu_ok_def Cons_nth_drop_Suc)
  have lx: "length ?xs = u8_size u" using len assms by simp
  have "(?xs @ drop (u8_size u) (gu_data gu))[u8_size u := 0xff] = ?xs @ 0xff # ?ys"
    using list_update_at_end [of ?xs "gu_data gu ! u8_size u" ?ys "0xff"] lx dr by simp
  then show ?thesis
    using assms len gu_text_bytes [of ?xs _ ?ys]
    by (simp add: grid_utf8_set_def gu_ok_def)
qed

lemma grid_utf8_append_ok:
  "gu_ok gu \<Longrightarrow> length (u8_data u) = UTF8_SIZE \<Longrightarrow> grid_utf8_append gu u = Some gu' \<Longrightarrow>
   gu_ok gu' \<and> gu_width gu' = gu_width gu"
  by (auto simp: grid_utf8_append_def gu_ok_def Let_def split: if_splits)

lemma grid_utf8_append_text:
  assumes ok: "gu_ok gu" "length (u8_data u) = UTF8_SIZE" and nt: "0xff \<notin> set (u8_text u)"
    and r: "grid_utf8_append gu u = Some gu'"
  shows "gu_text gu' = gu_text gu @ u8_text u"
proof -
  let ?n = "grid_utf8_size gu + u8_size u" and ?xs = "gu_text gu @ u8_text u"
  have len: "?n \<le> 9" using r by (auto simp: grid_utf8_append_def Let_def split: if_splits)
  have lx: "length ?xs = ?n" using ok len by (simp add: gu_ok_def)
  have nt': "0xff \<notin> set ?xs"
    using nt ok set_takeWhileD [of "0xff" "\<lambda>b. b \<noteq> 0xff" "gu_data gu"]
    by (auto simp: gu_text_takeWhile)
  show ?thesis
  proof (cases "?n = 9")
    case True
    then show ?thesis
      using r ok gu_text_bytes [of ?xs gu'] nt' lx grid_utf8_append_ok [OF ok r]
      by (auto simp: grid_utf8_append_def gu_ok_def Let_def)
  next
    case False
    let ?ys = "drop (Suc ?n) (gu_data gu)"
    have "drop ?n (gu_data gu) = gu_data gu ! ?n # ?ys"
      using False len ok by (simp add: gu_ok_def Cons_nth_drop_Suc)
    then have "(?xs @ drop ?n (gu_data gu))[?n := 0xff] = ?xs @ 0xff # ?ys"
      using list_update_at_end [of ?xs "gu_data gu ! ?n" ?ys "0xff"] lx by simp
    then show ?thesis
      using r False ok gu_text_bytes [of ?xs gu' ?ys] nt' lx len grid_utf8_append_ok [OF ok r]
      by (auto simp: grid_utf8_append_def Let_def)
  qed
qed

end
