(* ===== verification/Colour.thy ===== *)
theory Colour
  imports Grid_Cell C_Library Complex_Main
begin

text \<open>
  colour.c: the 240 colours of the 256 colour palette, the nearest palette colour of an
  RGB value, colours to and from strings, and the reductions to 16 and 88 colours. A colour
  number is an int; bit 0x100 marks a palette colour.
\<close>

section \<open>The palette\<close>

record colour_rgb =
  rgb_r :: nat
  rgb_g :: nat
  rgb_b :: nat

text \<open>One round of the first loop: the new entry and the advanced r, g, b counters.\<close>

definition colour_level :: "nat \<Rightarrow> nat" where
  "colour_level c = (if c \<noteq> 0 then (c * 40 + 55) mod 256 else 0)"

fun colour_cube_step :: "nat \<times> nat \<times> nat \<Rightarrow> nat \<times> nat \<times> nat" where
  "colour_cube_step (r, g, b) =
     (let b = b + 1;
          (b, g) = (if b > 5 then (0, g + 1) else (b, g));
          (g, r) = (if g > 5 then (0, r + 1) else (g, r))
      in (r, g, b))"

fun colour_cube :: "nat \<Rightarrow> nat \<times> nat \<times> nat \<Rightarrow> colour_rgb list" where
  "colour_cube 0 rgb = []"
| "colour_cube (Suc n) (r, g, b) =
     \<lparr>rgb_r = colour_level r, rgb_g = colour_level g, rgb_b = colour_level b\<rparr>
       # colour_cube n (colour_cube_step (r, g, b))"

definition colour_greys :: "colour_rgb list" where
  "colour_greys = map (\<lambda>i. let v = (8 + (24 - i) * 10) mod 256
     in \<lparr>rgb_r = v, rgb_g = v, rgb_b = v\<rparr>) (rev [1..<25])"

definition colour_rgb_generate256 :: "colour_rgb list" where
  "colour_rgb_generate256 = colour_cube 216 (0, 0, 0) @ colour_greys"

text \<open>
  colour_rgb_distance: the square root of the sum of squares. The search only compares
  distances, and it compares them as their squares do, so that \<open>colour_rgb_find\<close> is
  stated on the squares.
\<close>

definition colour_rgb_distance2 :: "colour_rgb \<Rightarrow> colour_rgb \<Rightarrow> int" where
  "colour_rgb_distance2 rgb1 rgb2 =
     (let r = int (rgb_r rgb1) - int (rgb_r rgb2);
          g = int (rgb_g rgb1) - int (rgb_g rgb2);
          b = int (rgb_b rgb1) - int (rgb_b rgb2)
      in r * r + g * g + b * b)"

definition colour_rgb_distance :: "colour_rgb \<Rightarrow> colour_rgb \<Rightarrow> real" where
  "colour_rgb_distance rgb1 rgb2 = sqrt (real_of_int (colour_rgb_distance2 rgb1 rgb2))"

text \<open>The search loop; lowest starts at INFINITY, here None.\<close>

fun colour_find_loop ::
  "colour_rgb \<Rightarrow> nat \<Rightarrow> int option \<Rightarrow> nat \<Rightarrow> colour_rgb list \<Rightarrow> nat" where
  "colour_find_loop rgb i lowest colour [] = colour"
| "colour_find_loop rgb i lowest colour (c # cs) =
     (let distance = colour_rgb_distance2 c rgb in
      if (case lowest of None \<Rightarrow> True | Some l \<Rightarrow> distance < l)
      then colour_find_loop rgb (Suc i) (Some distance) (16 + i) cs
      else colour_find_loop rgb (Suc i) lowest colour cs)"

definition colour_rgb_find :: "colour_rgb \<Rightarrow> nat" where
  "colour_rgb_find rgb = colour_find_loop rgb 0 None 16 colour_rgb_generate256"

section \<open>Cells\<close>

definition colour_set_fg :: "grid_cell \<Rightarrow> int \<Rightarrow> grid_cell" where
  "colour_set_fg gc c =
     (let gc = (if c AND 0x100 \<noteq> 0 then gc\<lparr>gc_flags := gc_flags gc OR GRID_FLAG_FG256\<rparr> else gc)
      in gc\<lparr>gc_fg := word_of_int c\<rparr>)"

definition colour_set_bg :: "grid_cell \<Rightarrow> int \<Rightarrow> grid_cell" where
  "colour_set_bg gc c =
     (let gc = (if c AND 0x100 \<noteq> 0 then gc\<lparr>gc_flags := gc_flags gc OR GRID_FLAG_BG256\<rparr> else gc)
      in gc\<lparr>gc_bg := word_of_int c\<rparr>)"

section \<open>Strings\<close>

definition colour_tostring :: "int \<Rightarrow> string option" where
  "colour_tostring c =
     (if c AND 0x100 \<noteq> 0 then Some (''colour'' @ print_unsigned (nat ((c AND NOT 0x100) mod 4294967296)))
      else if c = 0 then Some ''black''
      else if c = 1 then Some ''red''
      else if c = 2 then Some ''green''
      else if c = 3 then Some ''yellow''
      else if c = 4 then Some ''blue''
      else if c = 5 then Some ''magenta''
      else if c = 6 then Some ''cyan''
      else if c = 7 then Some ''white''
      else if c = 8 then Some ''default''
      else None)"

definition hex_byte :: "char \<Rightarrow> char \<Rightarrow> nat" where
  "hex_byte h l = xdigit_value h * 16 + xdigit_value l"

definition colour_fromstring :: "string \<Rightarrow> int" where
  "colour_fromstring s =
     (if s \<noteq> [] \<and> hd s = CHR ''#'' \<and> length s = 7 then
        (if \<not> list_all is_xdigit (tl s) then -1
         else int (colour_rgb_find \<lparr>rgb_r = hex_byte (s ! 1) (s ! 2),
            rgb_g = hex_byte (s ! 3) (s ! 4), rgb_b = hex_byte (s ! 5) (s ! 6)\<rparr>) OR 0x100)
      else if strncaseeq 6 s ''colour'' then
        (case strtonum (drop 6 s) 0 255 of None \<Rightarrow> -1 | Some n \<Rightarrow> n OR 0x100)
      else if strcaseeq s ''black'' \<or> s = ''0'' then 0
      else if strcaseeq s ''red'' \<or> s = ''1'' then 1
      else if strcaseeq s ''green'' \<or> s = ''2'' then 2
      else if strcaseeq s ''yellow'' \<or> s = ''3'' then 3
      else if strcaseeq s ''blue'' \<or> s = ''4'' then 4
      else if strcaseeq s ''magenta'' \<or> s = ''5'' then 5
      else if strcaseeq s ''cyan'' \<or> s = ''6'' then 6
      else if strcaseeq s ''white'' \<or> s = ''7'' then 7
      else if strcaseeq s ''default'' \<or> s = ''8'' then 8
      else -1)"

section \<open>Reductions\<close>

definition colour_table16 :: "nat list" where
  "colour_table16 = [
    0, 1, 2, 3, 4, 5, 6, 7, 8, 9, 10, 11, 12, 13, 14, 15,
    0, 4, 4, 4, 12, 12, 2, 6, 4, 4, 12, 12, 2, 2, 6, 4,
    12, 12, 2, 2, 2, 6, 12, 12, 10, 10, 10, 10, 14, 12, 10, 10,
    10, 10, 10, 14, 1, 5, 4, 4, 12, 12, 3, 8, 4, 4, 12, 12,
    2, 2, 6, 4, 12, 12, 2, 2, 2, 6, 12, 12, 10, 10, 10, 10,
    14, 12, 10, 10, 10, 10, 10, 14, 1, 1, 5, 4, 12, 12, 1, 1,
    5, 4, 12, 12, 3, 3, 8, 4, 12, 12, 2, 2, 2, 6, 12, 12,
    10, 10, 10, 10, 14, 12, 10, 10, 10, 10, 10, 14, 1, 1, 1, 5,
    12, 12, 1, 1, 1, 5, 12, 12, 1, 1, 1, 5, 12, 12, 3, 3,
    3, 7, 12, 12, 10, 10, 10, 10, 14, 12, 10, 10, 10, 10, 10, 14,
    9, 9, 9, 9, 13, 12, 9, 9, 9, 9, 13, 12, 9, 9, 9, 9,
    13, 12, 9, 9, 9, 9, 13, 12, 11, 11, 11, 11, 7, 12, 10, 10,
    10, 10, 10, 14, 9, 9, 9, 9, 9, 13, 9, 9, 9, 9, 9, 13,
    9, 9, 9, 9, 9, 13, 9, 9, 9, 9, 9, 13, 9, 9, 9, 9,
    9, 13, 11, 11, 11, 11, 11, 15, 0, 0, 0, 0, 0, 0, 8, 8,
    8, 8, 8, 8, 7, 7, 7, 7, 7, 7, 15, 15, 15, 15, 15, 15]"

definition colour_256to16 :: "byte \<Rightarrow> nat" where
  "colour_256to16 c = colour_table16 ! unat c"

definition colour_table88 :: "nat list" where
  "colour_table88 = [
    0, 1, 2, 3, 4, 5, 6, 7, 8, 9, 10, 11, 12, 13, 14, 15,
    16, 17, 17, 18, 18, 19, 20, 21, 21, 22, 22, 23, 20, 21, 21, 22,
    22, 23, 24, 25, 25, 26, 26, 27, 24, 25, 25, 26, 26, 27, 28, 29,
    29, 30, 30, 31, 32, 33, 33, 34, 34, 35, 36, 37, 37, 38, 38, 39,
    36, 37, 37, 38, 38, 39, 40, 41, 41, 42, 42, 43, 40, 41, 41, 42,
    42, 43, 44, 45, 45, 46, 46, 47, 32, 33, 33, 34, 34, 35, 36, 37,
    37, 38, 38, 39, 36, 37, 37, 38, 38, 39, 40, 41, 41, 42, 42, 43,
    40, 41, 41, 42, 42, 43, 44, 45, 45, 46, 46, 47, 48, 49, 49, 50,
    50, 51, 52, 53, 53, 54, 54, 55, 52, 53, 53, 54, 54, 55, 56, 57,
    57, 58, 58, 59, 56, 57, 57, 58, 58, 59, 60, 61, 61, 62, 62, 63,
    48, 49, 49, 50, 50, 51, 52, 53, 53, 54, 54, 55, 52, 53, 53, 54,
    54, 55, 56, 57, 57, 58, 58, 59, 56, 57, 57, 58, 58, 59, 60, 61,
    61, 62, 62, 63, 64, 65, 65, 66, 66, 67, 68, 69, 69, 70, 70, 71,
    68, 69, 69, 70, 70, 71, 72, 73, 73, 74, 74, 75, 72, 73, 73, 74,
    74, 75, 76, 77, 77, 78, 78, 79, 0, 0, 80, 80, 80, 81, 81, 81,
    82, 82, 82, 83, 83, 83, 84, 84, 84, 85, 85, 85, 86, 86, 86, 87]"

definition colour_256to88 :: "byte \<Rightarrow> nat" where
  "colour_256to88 c = colour_table88 ! unat c"

section \<open>The palette is the colour cube and the greys\<close>

definition cube_counters :: "nat \<Rightarrow> nat \<times> nat \<times> nat" where
  "cube_counters k = (k div 6 div 6, k div 6 mod 6, k mod 6)"

lemma Suc_mod_6: "(5 < Suc (k mod 6)) = (Suc (k mod 6) = 6)"
  using mod_less_divisor [of 6 k] by simp linarith

lemma colour_cube_step_counters: "colour_cube_step (cube_counters k) = cube_counters (Suc k)"
  by (auto simp: cube_counters_def div_Suc mod_Suc Suc_mod_6 Let_def)

text \<open>The palette entry of an index, as it is usually described.\<close>

definition palette_rgb :: "nat \<Rightarrow> colour_rgb" where
  "palette_rgb i =
     (if i < 216
      then \<lparr>rgb_r = colour_level (i div 36), rgb_g = colour_level (i div 6 mod 6),
             rgb_b = colour_level (i mod 6)\<rparr>
      else let v = 8 + (i - 216) * 10 in \<lparr>rgb_r = v, rgb_g = v, rgb_b = v\<rparr>)"

lemma length_colour_cube [simp]: "length (colour_cube n rgb) = n"
  by (induction n rgb rule: colour_cube.induct) simp_all

lemma nth_colour_cube:
  "i < n \<Longrightarrow> colour_cube n (cube_counters k) ! i =
     (let (r, g, b) = cube_counters (k + i)
      in \<lparr>rgb_r = colour_level r, rgb_g = colour_level g, rgb_b = colour_level b\<rparr>)"
proof (induction n arbitrary: i k)
  case 0
  then show ?case by simp
next
  case (Suc n)
  obtain r g b where c: "cube_counters k = (r, g, b)" by (cases "cube_counters k") auto
  then have "colour_cube (Suc n) (cube_counters k) =
      \<lparr>rgb_r = colour_level r, rgb_g = colour_level g, rgb_b = colour_level b\<rparr>
      # colour_cube n (cube_counters (Suc k))"
    by (simp add: colour_cube_step_counters [symmetric])
  then show ?case
    using Suc by (cases i) (simp_all add: c)
qed

lemma length_palette [simp]: "length colour_rgb_generate256 = 240"
  by (simp add: colour_rgb_generate256_def colour_greys_def)

lemma nth_palette:
  assumes "i < 240"
  shows "colour_rgb_generate256 ! i = palette_rgb i"
proof (cases "i < 216")
  case True
  then show ?thesis
    using nth_colour_cube [of i 216 0]
    by (simp add: colour_rgb_generate256_def palette_rgb_def cube_counters_def nth_append
        div_mult2_eq [symmetric])
next
  case False
  have "\<forall>j\<in>{0..<24}. colour_greys ! j = \<lparr>rgb_r = 8 + j * 10, rgb_g = 8 + j * 10, rgb_b = 8 + j * 10\<rparr>"
    by code_simp
  then show ?thesis
    using False assms
    by (simp add: colour_rgb_generate256_def palette_rgb_def nth_append Let_def)
qed

lemma colour_level_cases: "colour_level c = (if c = 0 then 0 else c * 40 + 55)" if "c < 6"
  using that by (simp add: colour_level_def)

lemma colour_level_inj: "c < 6 \<Longrightarrow> d < 6 \<Longrightarrow> colour_level c = colour_level d \<Longrightarrow> c = d"
  by (auto simp: colour_level_cases split: if_splits)

lemma grey_not_level: "c < 6 \<Longrightarrow> colour_level c \<noteq> 8 + j * 10"
proof (cases "c = 0")
  case False
  assume c: "c < 6"
  have "(c * 40 + 55) mod 10 = 5" by presburger
  moreover have "(8 + j * 10) mod 10 = 8" by presburger
  ultimately show ?thesis using False c by (metis colour_level_cases numeral_eq_iff semiring_norm(85,88))
qed (simp add: colour_level_def)

lemma palette_rgb_inj:
  assumes "i < 240" "j < 240" "palette_rgb i = palette_rgb j"
  shows "i = j"
proof -
  have six: "k mod 6 < 6" for k :: nat by simp
  have comb: "k = q * 6 + b \<Longrightarrow> q = r * 6 + g \<Longrightarrow> k = 36 * r + (6 * g + b)" for k q r g b :: nat
    by simp
  have eq: "k = 36 * (k div 36) + (6 * (k div 6 mod 6) + k mod 6)" for k :: nat
    by (rule comb [where q = "k div 6"]) (simp_all add: div_mult2_eq [of k 6 6, simplified])
  have d: "k div 36 < 6" if "k < 216" for k :: nat using that by (simp add: div_less_iff_less_mult)
  show ?thesis
    using assms grey_not_level [OF six] grey_not_level [OF d] grey_not_level [OF d, symmetric] d colour_level_inj [OF d d] colour_level_inj [OF six six]
    by (auto simp: palette_rgb_def Let_def split: if_splits)
      (metis eq)
qed


section \<open>The nearest colour\<close>

lemma colour_rgb_distance_less:
  "colour_rgb_distance a c < colour_rgb_distance b c \<longleftrightarrow> colour_rgb_distance2 a c < colour_rgb_distance2 b c"
  "colour_rgb_distance a c \<le> colour_rgb_distance b c \<longleftrightarrow> colour_rgb_distance2 a c \<le> colour_rgb_distance2 b c"
  by (simp_all add: colour_rgb_distance_def)

lemma colour_find_loop_nearest:
  assumes "length done = i" "done = [] \<longleftrightarrow> lowest = None"
    and "\<And>l. lowest = Some l \<Longrightarrow> \<exists>k<i. colour = 16 + k \<and> l = colour_rgb_distance2 (done ! k) rgb
      \<and> (\<forall>j<i. l \<le> colour_rgb_distance2 (done ! j) rgb)
      \<and> (\<forall>j<k. l < colour_rgb_distance2 (done ! j) rgb)"
    and "done @ rest \<noteq> []"
  shows "\<exists>k<length (done @ rest). colour_find_loop rgb i lowest colour rest = 16 + k
    \<and> (\<forall>j<length (done @ rest). colour_rgb_distance2 ((done @ rest) ! k) rgb
          \<le> colour_rgb_distance2 ((done @ rest) ! j) rgb)
    \<and> (\<forall>j<k. colour_rgb_distance2 ((done @ rest) ! k) rgb
          < colour_rgb_distance2 ((done @ rest) ! j) rgb)"
  using assms
proof (induction rest arbitrary: "done" i lowest colour)
  case Nil
  then show ?case by auto
next
  case (Cons c cs)
  let ?d = "colour_rgb_distance2 c rgb" and ?done = "done @ [c]"
  have app: "(done @ [c]) @ cs = done @ c # cs" by simp
  note nthc = nth_append
  show ?case
  proof (cases "case lowest of None \<Rightarrow> True | Some l \<Rightarrow> ?d < l")
    case True
    have best: "\<forall>j<i. ?d < colour_rgb_distance2 (done ! j) rgb"
      using True Cons.prems(1-3) by (cases lowest) fastforce+
    have "\<exists>k<length (?done @ cs). colour_find_loop rgb (Suc i) (Some ?d) (16 + i) cs = 16 + k
      \<and> (\<forall>j<length (?done @ cs). colour_rgb_distance2 ((?done @ cs) ! k) rgb
          \<le> colour_rgb_distance2 ((?done @ cs) ! j) rgb)
      \<and> (\<forall>j<k. colour_rgb_distance2 ((?done @ cs) ! k) rgb
          < colour_rgb_distance2 ((?done @ cs) ! j) rgb)"
      by (rule Cons.IH) (use best Cons.prems(1) in \<open>auto simp: nthc less_Suc_eq intro: less_imp_le\<close>)
    then show ?thesis using True by (simp only: app) (simp add: Let_def)
  next
    case False
    then obtain l where l: "lowest = Some l" "l \<le> ?d" by (auto split: option.splits)
    obtain k where k: "k < i" "colour = 16 + k" "l = colour_rgb_distance2 (done ! k) rgb"
      "\<forall>j<i. l \<le> colour_rgb_distance2 (done ! j) rgb"
      "\<forall>j<k. l < colour_rgb_distance2 (done ! j) rgb"
      using Cons.prems(3) [OF l(1)] by blast
    have "\<exists>k<length (?done @ cs). colour_find_loop rgb (Suc i) lowest colour cs = 16 + k
      \<and> (\<forall>j<length (?done @ cs). colour_rgb_distance2 ((?done @ cs) ! k) rgb
          \<le> colour_rgb_distance2 ((?done @ cs) ! j) rgb)
      \<and> (\<forall>j<k. colour_rgb_distance2 ((?done @ cs) ! k) rgb
          < colour_rgb_distance2 ((?done @ cs) ! j) rgb)"
      by (rule Cons.IH)
        (use k l Cons.prems(1) in \<open>auto simp: nthc less_Suc_eq intro!: exI [of _ k]\<close>)
    then show ?thesis using False by (simp only: app) (simp add: Let_def)
  qed
qed

lemma colour_rgb_find_least:
  "\<exists>k<240. colour_rgb_find rgb = 16 + k
    \<and> (\<forall>j<240. colour_rgb_distance (palette_rgb k) rgb \<le> colour_rgb_distance (palette_rgb j) rgb)
    \<and> (\<forall>j<k. colour_rgb_distance (palette_rgb k) rgb < colour_rgb_distance (palette_rgb j) rgb)"
proof -
  have "colour_rgb_generate256 \<noteq> []" by (metis length_palette list.size(3) zero_neq_numeral)
  then obtain k where "k < 240" "colour_rgb_find rgb = 16 + k"
    "\<forall>j<240. colour_rgb_distance2 (colour_rgb_generate256 ! k) rgb
        \<le> colour_rgb_distance2 (colour_rgb_generate256 ! j) rgb"
    "\<forall>j<k. colour_rgb_distance2 (colour_rgb_generate256 ! k) rgb
        < colour_rgb_distance2 (colour_rgb_generate256 ! j) rgb"
    using colour_find_loop_nearest [of "[]" 0 None 16 rgb colour_rgb_generate256]
    by (auto simp: colour_rgb_find_def)
  then show ?thesis
    by (intro exI [of _ k]) (simp add: colour_rgb_distance_less nth_palette)
qed

text \<open>
  C24: colour_rgb_find returns the palette entry nearest to the given colour, and
  the first one of those that are equally near. The distance is the one of the code, the
  square root of the sum of squares.
\<close>

theorem colour_rgb_find_nearest:
  "\<exists>k<240. colour_rgb_find rgb = 16 + k
    \<and> (\<forall>j<240. colour_rgb_distance (palette_rgb k) rgb \<le> colour_rgb_distance (palette_rgb j) rgb)
    \<and> (\<forall>j<k. colour_rgb_distance (palette_rgb k) rgb < colour_rgb_distance (palette_rgb j) rgb)"
  by (rule colour_rgb_find_least)

theorem colour_rgb_find_nearest_witness:
  "\<exists>k<240. colour_rgb_find \<lparr>rgb_r = 250, rgb_g = 3, rgb_b = 0\<rparr> = 16 + k"
  using colour_rgb_find_nearest [of "\<lparr>rgb_r = 250, rgb_g = 3, rgb_b = 0\<rparr>"] by blast

lemma colour_rgb_distance2_zero:
  "colour_rgb_distance2 a b = 0 \<longleftrightarrow> rgb_r a = rgb_r b \<and> rgb_g a = rgb_g b \<and> rgb_b a = rgb_b b"
  by (simp add: colour_rgb_distance2_def Let_def)
    (auto simp: add_nonneg_eq_0_iff)

text \<open>
  the palette is the usual one and every palette colour is its own nearest
  colour: entry 36 r + 6 g + b of the table is the colour cube entry, the last 24 are the
  greys, and searching for a palette colour gives back its own number.
\<close>

theorem colour_rgb_find_palette:
  assumes "i < 240"
  shows "colour_rgb_generate256 ! i = palette_rgb i \<and> colour_rgb_find (palette_rgb i) = 16 + i"
proof -
  obtain k where k: "k < 240" "colour_rgb_find (palette_rgb i) = 16 + k"
    "colour_rgb_distance (palette_rgb k) (palette_rgb i)
       \<le> colour_rgb_distance (palette_rgb i) (palette_rgb i)"
    using colour_rgb_find_least [of "palette_rgb i"] assms by blast
  have "0 \<le> colour_rgb_distance2 (palette_rgb k) (palette_rgb i)"
    by (simp add: colour_rgb_distance2_def Let_def)
  moreover have "colour_rgb_distance2 (palette_rgb i) (palette_rgb i) = 0"
    by (simp add: colour_rgb_distance2_def)
  ultimately have "colour_rgb_distance2 (palette_rgb k) (palette_rgb i) = 0"
    using k(3) by (simp add: colour_rgb_distance_less)
  then have "palette_rgb k = palette_rgb i" by (simp add: colour_rgb_distance2_zero)
  then show ?thesis using palette_rgb_inj k assms nth_palette by blast
qed

theorem colour_rgb_find_palette_witness:
  "colour_rgb_generate256 ! 107 = palette_rgb 107 \<and> colour_rgb_find (palette_rgb 107) = 16 + 107"
  by (rule colour_rgb_find_palette) simp

section \<open>Strings\<close>

lemma strncaseeq_colour: "strncaseeq 6 (''colour'' @ t) ''colour''"
  by (simp add: strncaseeq_def)

lemma or_0x100: "0 \<le> n \<Longrightarrow> n < 256 \<Longrightarrow> n OR 0x100 = n + (0x100::int)"
proof -
  assume n: "0 \<le> n" "n < 256"
  have "take_bit 8 n = n" using n by (simp add: take_bit_int_eq_self)
  then have "bit n i \<Longrightarrow> i < 8" for i by (metis bit_take_bit_iff)
  moreover have "bit (0x100::int) i \<longleftrightarrow> i = 8" for i
    using bit_exp_iff [of 8 i, where 'a = int] by simp
  ultimately have "n AND 0x100 = 0" by (intro bit_eqI) (auto simp: bit_and_iff)
  then show ?thesis by (simp add: disjunctive_add_eq_or)
qed

lemma colour_number_bits:
  assumes "0 \<le> n" "n < 256"
  shows "(n OR 0x100) AND 0x100 \<noteq> (0::int)" "(n OR 0x100) AND NOT 0x100 = n"
proof -
  have "take_bit 8 n = n" using assms by (simp add: take_bit_int_eq_self)
  then have n: "bit n i \<Longrightarrow> i < 8" for i by (metis bit_take_bit_iff)
  have e: "bit (0x100::int) i \<longleftrightarrow> i = 8" for i
    using bit_exp_iff [of 8 i, where 'a = int] by simp
  have "bit ((n OR 0x100) AND 0x100) 8" by (simp add: bit_simps e)
  then show "(n OR 0x100) AND 0x100 \<noteq> 0" by (metis bit_0_eq bot_apply bot_bool_def)
  show "(n OR 0x100) AND NOT 0x100 = n"
  proof (rule bit_eqI)
    fix i
    show "bit ((n OR 0x100) AND NOT 0x100) i = bit n i"
      unfolding bit_and_iff bit_or_iff bit_not_int_iff e using n [of i] by blast
  qed
qed

lemma colour_tostring_palette:
  "0 \<le> n \<Longrightarrow> n < 256 \<Longrightarrow> colour_tostring (n OR 0x100) = Some (''colour'' @ print_unsigned (nat n))"
  unfolding colour_tostring_def using colour_number_bits [of n] by simp

lemma colour_fromstring_palette:
  assumes "n < 256"
  shows "colour_fromstring (''colour'' @ print_unsigned n) = int n OR 0x100"
proof -
  have "strtonum (print_unsigned n) 0 255 = Some (int n)"
    using assms by (intro strtonum_print_unsigned) simp_all
  moreover have "drop 6 (''colour'' @ print_unsigned n) = print_unsigned n" by simp
  moreover have "strncaseeq 6 (''colour'' @ print_unsigned n) ''colour''"
    by (rule strncaseeq_colour)
  ultimately show ?thesis by (simp add: colour_fromstring_def)
qed

text \<open>
  colour names round trip. Every colour that can be printed (the nine names and
  the 256 palette colours) is read back from its string.
\<close>

theorem colour_string_roundtrip:
  assumes "(0 \<le> c \<and> c \<le> 8) \<or> (256 \<le> c \<and> c < 512)"
  shows "\<exists>s. colour_tostring c = Some s \<and> colour_fromstring s = c"
proof (cases "256 \<le> c")
  case True
  then have n: "0 \<le> c - 256" "c - 256 < 256" and c: "c = (c - 256) OR 0x100"
    using assms or_0x100 [of "c - 256"] by simp_all
  show ?thesis
    using colour_tostring_palette [OF n] colour_fromstring_palette [of "nat (c - 256)"] n c by simp
next
  case False
  then have "c \<in> {0, 1, 2, 3, 4, 5, 6, 7, 8}" using assms by auto
  moreover have "\<forall>c \<in> {0, 1, 2, 3, 4, 5, 6, 7, 8 :: int}.
      (case colour_tostring c of None \<Rightarrow> False | Some s \<Rightarrow> colour_fromstring s = c)"
    by code_simp
  ultimately show ?thesis by (auto split: option.splits)
qed

theorem colour_string_roundtrip_witness:
  "\<exists>s. colour_tostring 300 = Some s \<and> colour_fromstring s = 300"
  by (rule colour_string_roundtrip) simp

section \<open>Reductions\<close>

lemma colour_table16_check: "length colour_table16 = 256 \<and> list_all (\<lambda>n. n < 16) colour_table16"
  by (simp add: colour_table16_def)

lemma colour_table88_check: "length colour_table88 = 256 \<and> list_all (\<lambda>n. n < 88) colour_table88"
  by (simp add: colour_table88_def)

text \<open>
  the reductions stay in range and keep the basic colours. Whatever the byte,
  its reductions are colours of the smaller palettes, and the 16 basic colours are kept.
\<close>

theorem colour_reductions_in_range:
  "colour_256to16 c < 16 \<and> colour_256to88 c < 88
   \<and> (unat c < 16 \<longrightarrow> colour_256to16 c = unat c \<and> colour_256to88 c = unat c)"
proof -
  have c: "unat c < 256" using unsigned_less [of c] by simp
  have low: "take 16 colour_table16 = [0..<16] \<and> take 16 colour_table88 = [0..<16]"
    by (simp add: colour_table16_def colour_table88_def upt_rec numeral_eq_Suc)
  have "colour_table16 ! unat c = unat c \<and> colour_table88 ! unat c = unat c" if "unat c < 16"
    using low that by (metis add_0 nth_take nth_upt)
  moreover have "colour_table16 ! unat c < 16" "colour_table88 ! unat c < 88"
    using c colour_table16_check colour_table88_check by (auto simp: list_all_length)
  ultimately show ?thesis by (simp add: colour_256to16_def colour_256to88_def)
qed

theorem colour_reductions_in_range_witness:
  "unat (9 :: byte) < 16 \<and> colour_256to16 9 = 9 \<and> colour_256to88 9 = 9"
  using colour_reductions_in_range [of 9] by simp

end
