(* ===== verification/Attributes.thy ===== *)
theory Attributes
  imports Grid_Cell C_Library
begin

text \<open>attributes.c: cell attributes to and from strings.\<close>

text \<open>The last comma and what follows it are cut off, as \<open>*(strrchr(buf, ',')) = 0\<close> does.\<close>

definition cut_last_comma :: "string \<Rightarrow> string" where
  "cut_last_comma s = rev (tl (dropWhile (\<lambda>c. c \<noteq> CHR '','') (rev s)))"

definition attributes_tostring :: "byte \<Rightarrow> string" where
  "attributes_tostring attr =
     (if attr = 0 then ''none''
      else
        let buf = [];
            buf = (if flag_set attr GRID_ATTR_BRIGHT then strlcat buf ''bright,'' 128 else buf);
            buf = (if flag_set attr GRID_ATTR_DIM then strlcat buf ''dim,'' 128 else buf);
            buf = (if flag_set attr GRID_ATTR_UNDERSCORE then strlcat buf ''underscore,'' 128 else buf);
            buf = (if flag_set attr GRID_ATTR_BLINK then strlcat buf ''blink,'' 128 else buf);
            buf = (if flag_set attr GRID_ATTR_REVERSE then strlcat buf ''reverse,'' 128 else buf);
            buf = (if flag_set attr GRID_ATTR_HIDDEN then strlcat buf ''hidden,'' 128 else buf);
            buf = (if flag_set attr GRID_ATTR_ITALICS then strlcat buf ''italics,'' 128 else buf)
        in if buf \<noteq> [] then cut_last_comma buf else buf)"

abbreviation attr_delimiters :: string where
  "attr_delimiters \<equiv> '' ,|''"

text \<open>The chain of comparisons on one word; None is the return of -1.\<close>

definition attribute_bit :: "nat \<Rightarrow> string \<Rightarrow> byte option" where
  "attribute_bit n str =
     (if (n = 6 \<and> strncaseeq n str ''bright'') \<or> (n = 4 \<and> strncaseeq n str ''bold'')
      then Some GRID_ATTR_BRIGHT
      else if n = 3 \<and> strncaseeq n str ''dim'' then Some GRID_ATTR_DIM
      else if n = 10 \<and> strncaseeq n str ''underscore'' then Some GRID_ATTR_UNDERSCORE
      else if n = 5 \<and> strncaseeq n str ''blink'' then Some GRID_ATTR_BLINK
      else if n = 7 \<and> strncaseeq n str ''reverse'' then Some GRID_ATTR_REVERSE
      else if n = 6 \<and> strncaseeq n str ''hidden'' then Some GRID_ATTR_HIDDEN
      else if n = 7 \<and> strncaseeq n str ''italics'' then Some GRID_ATTR_ITALICS
      else None)"

lemma attribute_bit_pos: "attribute_bit n str = Some b \<Longrightarrow> 0 < n"
  by (auto simp: attribute_bit_def split: if_splits)

text \<open>The do-while loop over the words.\<close>

function attributes_loop :: "byte \<Rightarrow> string \<Rightarrow> byte option" where
  "attributes_loop attr str =
     (let n = strcspn str attr_delimiters in
      case attribute_bit n str of
        None \<Rightarrow> None
      | Some b \<Rightarrow>
          (let rest = drop (n + strspn (drop n str) attr_delimiters) str in
           if rest = [] then Some (attr OR b)
           else attributes_loop (attr OR b) rest))"
  by pat_completeness auto
termination
  by (relation "measure (\<lambda>(attr, str). length str)") (auto dest: attribute_bit_pos)

declare attributes_loop.simps [simp del]

definition attributes_fromstring :: "string \<Rightarrow> byte option" where
  "attributes_fromstring str =
     (if str = [] \<or> strcspn str attr_delimiters = 0 then None
      else if last str \<in> set attr_delimiters then None
      else if strcaseeq str ''default'' \<or> strcaseeq str ''none'' then Some 0
      else attributes_loop 0 str)"

section \<open>The attribute list, word by word\<close>

definition attribute_words :: "(string \<times> byte) list" where
  "attribute_words = [(''bright'', GRID_ATTR_BRIGHT), (''dim'', GRID_ATTR_DIM),
     (''underscore'', GRID_ATTR_UNDERSCORE), (''blink'', GRID_ATTR_BLINK),
     (''reverse'', GRID_ATTR_REVERSE), (''hidden'', GRID_ATTR_HIDDEN),
     (''italics'', GRID_ATTR_ITALICS)]"

fun join_comma :: "string list \<Rightarrow> string" where
  "join_comma [] = []"
| "join_comma [w] = w"
| "join_comma (w # ws) = w @ CHR '','' # join_comma ws"

definition attribute_selection :: "byte \<Rightarrow> (string \<times> byte) list" where
  "attribute_selection attr = filter (\<lambda>p. flag_set attr (snd p)) attribute_words"

lemma attribute_words_ok:
  "\<forall>(w, b) \<in> set attribute_words. w \<noteq> [] \<and> set w \<inter> set attr_delimiters = {}
     \<and> attribute_bit (length w) w = Some b"
  by (simp add: attribute_words_def attribute_bit_def strncaseeq_def)
     (simp add: tolower_def char_code_def)

lemma strncaseeq_append: "n = length s \<Longrightarrow> strncaseeq n (s @ t) u = strncaseeq n s u"
  by (simp add: strncaseeq_def)

lemma attribute_bit_append: "attribute_bit (length w) (w @ t) = attribute_bit (length w) w"
  unfolding attribute_bit_def strncaseeq_append [OF refl] by (rule refl)

lemma strcspn_word:
  "set w \<inter> set r = {} \<Longrightarrow> strcspn w r = length w"
  "set w \<inter> set r = {} \<Longrightarrow> c \<in> set r \<Longrightarrow> strcspn (w @ c # t) r = length w"
proof -
  assume "set w \<inter> set r = {}"
  then have w: "\<forall>x\<in>set w. x \<notin> set r" by blast
  then have "takeWhile (\<lambda>c. c \<notin> set r) w = w" by (simp add: takeWhile_eq_all_conv)
  then show "strcspn w r = length w" unfolding strcspn_def by (rule arg_cong)
  show "strcspn (w @ c # t) r = length w" if "c \<in> set r"
    using w that by (simp add: strcspn_def takeWhile_append2)
qed

lemma strspn_one: "c \<in> set a \<Longrightarrow> t = [] \<or> hd t \<notin> set a \<Longrightarrow> strspn (c # t) a = 1"
  by (cases t) (auto simp: strspn_def)

lemma join_comma_hd:
  "ws \<noteq> [] \<Longrightarrow> \<forall>w\<in>set ws. w \<noteq> [] \<and> set w \<inter> set attr_delimiters = {} \<Longrightarrow>
   join_comma ws \<noteq> [] \<and> hd (join_comma ws) \<notin> set attr_delimiters
   \<and> last (join_comma ws) \<notin> set attr_delimiters"
proof (induction ws rule: join_comma.induct)
  case (2 w)
  then have "hd w \<in> set w" "last w \<in> set w" by simp_all
  with 2 show ?case by (metis disjoint_iff join_comma.simps(2) list.set_intros(1))
next
  case (3 w v vs)
  then have "hd w \<in> set w" by simp
  then have "hd w \<notin> set attr_delimiters" "w \<noteq> []"
    using 3 by (metis disjoint_iff list.set_intros(1)) (use 3 in simp)
  moreover have "join_comma (v # vs) \<noteq> [] \<and> last (join_comma (v # vs)) \<notin> set attr_delimiters"
    using 3 by (metis list.distinct(1) list.set_intros(2))
  ultimately show ?case by (simp only: join_comma.simps(3) hd_append2 last_append last.simps) simp
qed simp

lemma attributes_loop_join:
  assumes "ps \<noteq> []" "set ps \<subseteq> set attribute_words"
  shows "attributes_loop a (join_comma (map fst ps)) = Some (fold (\<lambda>p a. a OR snd p) ps a)"
  using assms
proof (induction ps arbitrary: a)
  case Nil
  then show ?case by simp
next
  case (Cons p ps)
  obtain w b where p: "p = (w, b)" by fastforce
  have w: "w \<noteq> []" "set w \<inter> set attr_delimiters = {}" "attribute_bit (length w) w = Some b"
    using Cons.prems attribute_words_ok p by auto
  show ?case
  proof (cases ps)
    case Nil
    then show ?thesis
      using w by (subst attributes_loop.simps) (simp add: p strcspn_word strspn_def)
  next
    case (Cons q qs)
    let ?t = "join_comma (map fst ps)"
    have ws: "\<forall>v\<in>set (map fst ps). v \<noteq> [] \<and> set v \<inter> set attr_delimiters = {}"
      using Cons.prems(2) attribute_words_ok by fastforce
    have t: "?t \<noteq> []" "hd ?t \<notin> set attr_delimiters"
      using join_comma_hd [OF _ ws] Cons by simp_all
    have j: "join_comma (map fst (p # ps)) = w @ CHR '','' # ?t"
      by (simp add: p Cons)
    have "attributes_loop a (w @ CHR '','' # ?t) = attributes_loop (a OR b) ?t"
      using w t strcspn_word(2) [OF w(2), of "CHR '',''" ?t]
      by (subst attributes_loop.simps)
        (simp add: attribute_bit_append strspn_one Let_def)
    also have "\<dots> = Some (fold (\<lambda>p a. a OR snd p) ps (a OR b))"
      using Cons.IH Cons.prems Cons by simp
    finally show ?thesis by (simp only: j) (simp add: p)
  qed
qed

lemma rev_dropWhile_comma:
  "cut_last_comma (s @ [CHR '','']) = s"
  by (simp add: cut_last_comma_def)

fun comma_each :: "string list \<Rightarrow> string" where
  "comma_each [] = []"
| "comma_each (w # ws) = w @ CHR '','' # comma_each ws"

lemma comma_each_join: "ws \<noteq> [] \<Longrightarrow> comma_each ws = join_comma ws @ '',''"
  by (induction ws rule: join_comma.induct) simp_all

lemma attributes_tostring_join:
  assumes "attribute_selection attr \<noteq> []"
  shows "attributes_tostring attr = join_comma (map fst (attribute_selection attr))"
proof -
  have "attr \<noteq> 0" using assms by (auto simp: attribute_selection_def)
  then have "attributes_tostring attr =
      (let buf = comma_each (map fst (attribute_selection attr)) in
       if buf \<noteq> [] then cut_last_comma buf else buf)"
    unfolding attributes_tostring_def attribute_selection_def attribute_words_def
    by (cases "flag_set attr GRID_ATTR_BRIGHT"; cases "flag_set attr GRID_ATTR_DIM";
        cases "flag_set attr GRID_ATTR_UNDERSCORE"; cases "flag_set attr GRID_ATTR_BLINK";
        cases "flag_set attr GRID_ATTR_REVERSE"; cases "flag_set attr GRID_ATTR_HIDDEN";
        cases "flag_set attr GRID_ATTR_ITALICS"; simp add: strlcat_def)
  then show ?thesis
    using assms by (simp add: comma_each_join rev_dropWhile_comma Let_def)
qed

lemma single_bit:
  fixes w :: "'a::len word"
  shows "w AND push_bit n 1 = (if flag_set w (push_bit n 1) then push_bit n 1 else 0)"
proof -
  have b: "bit (w AND push_bit n 1) i \<longleftrightarrow> bit w n \<and> bit (push_bit n 1 :: 'a word) i" for i
    by (auto simp: bit_simps)
  show ?thesis
  proof (cases "bit w n")
    case True
    then have "w AND push_bit n 1 = push_bit n 1" by (intro bit_eqI) (simp only: b simp_thms)
    then show ?thesis by (auto simp: flag_set_def)
  next
    case False
    then have "w AND push_bit n 1 = 0"
      by (intro bit_eqI) (simp only: b simp_thms bit_0_eq bot_apply bot_bool_def)
    then show ?thesis by (simp add: flag_set_def)
  qed
qed

lemma attribute_bits:
  "attr AND b = (if flag_set attr b then b else 0)" if "(w, b) \<in> set attribute_words"
proof -
  have "b \<in> (\<lambda>n. push_bit n 1) ` {0, 1, 2, 3, 4, 5, 6}"
    using that by (auto simp: attribute_words_def)
  then show ?thesis using single_bit [of attr] by blast
qed

lemma and_or_word: "w AND (x OR y) = (w AND x) OR (w AND y)" for w x y :: "'a::len word"
  by (rule bit_eqI) (auto simp: bit_simps)

lemma fold_or_filter:
  "\<forall>p\<in>set ps. w AND snd p = (if flag_set w (snd p) then snd p else 0) \<Longrightarrow>
   fold (\<lambda>p a. a OR snd p) (filter (\<lambda>p. flag_set w (snd p)) ps) a
     = a OR (w AND fold (\<lambda>p a. a OR snd p) ps 0)"
proof (induction ps arbitrary: a rule: rev_induct)
  case Nil
  then show ?case by simp
next
  case (snoc p ps)
  have "w AND snd p = (if flag_set w (snd p) then snd p else 0)" using snoc.prems by simp
  then show ?case
    using snoc by (simp add: and_or_word or.assoc)
qed

lemma fold_attribute_selection:
  "fold (\<lambda>p a. a OR snd p) (attribute_selection attr) 0 = attr AND 0x7f"
proof -
  have "\<forall>p\<in>set attribute_words. attr AND snd p = (if flag_set attr (snd p) then snd p else 0)"
    using attribute_bits by fastforce
  from fold_or_filter [OF this, of 0] show ?thesis
    by (simp add: attribute_selection_def attribute_words_def)
qed

lemma strcaseeq_take: "strcaseeq s t \<Longrightarrow> map tolower (take n s) = map tolower (take n t)"
  by (simp add: strcaseeq_def take_map [symmetric])

lemma join_comma_take2:
  "ws \<noteq> [] \<Longrightarrow> 2 \<le> length (hd ws) \<Longrightarrow> take 2 (join_comma ws) = take 2 (hd ws)"
  by (cases ws rule: join_comma.cases) simp_all

lemma attribute_words_not_default:
  "list_all (\<lambda>p. 2 \<le> length (fst p) \<and> map tolower (take 2 (fst p)) \<noteq> map tolower ''de''
     \<and> map tolower (take 2 (fst p)) \<noteq> map tolower ''no'') attribute_words"
  by code_simp

text \<open>
  C25: attribute strings round trip. Every combination of attributes that has a name
  (all bits but the internal character set bit) is read back from its string.
\<close>

theorem attributes_string_roundtrip:
  assumes "\<not> flag_set attr GRID_ATTR_CHARSET"
  shows "attributes_fromstring (attributes_tostring attr) = Some attr"
proof (cases "attr = 0")
  case True
  have "attributes_fromstring ''none'' = Some 0" by code_simp
  with True show ?thesis by (simp add: attributes_tostring_def)
next
  case False
  let ?ps = "attribute_selection attr" and ?s = "join_comma (map fst (attribute_selection attr))"
  have "attr AND 0x7f = attr"
  proof -
    have "(0x7f OR 0x80 :: byte) = -1" by simp
    then have "attr = (attr AND 0x7f) OR (attr AND 0x80)"
      by (simp only: and_or_word [symmetric] and.right_neutral)
    then show ?thesis using assms by (simp add: flag_set_def)
  qed
  then have f: "fold (\<lambda>p a. a OR snd p) ?ps 0 = attr" by (simp add: fold_attribute_selection)
  then have ne: "?ps \<noteq> []" using False by auto
  have sub: "set ?ps \<subseteq> set attribute_words" by (auto simp: attribute_selection_def)
  have h: "fst (hd ?ps) = hd (map fst ?ps)" "hd ?ps \<in> set attribute_words"
    using ne sub hd_in_set [of ?ps] by (auto simp: hd_map)
  have ws: "\<forall>w\<in>set (map fst ?ps). w \<noteq> [] \<and> set w \<inter> set attr_delimiters = {}"
    using sub attribute_words_ok by fastforce
  have two: "take 2 ?s = take 2 (hd (map fst ?ps))"
    using attribute_words_not_default h ne by (intro join_comma_take2) (auto simp: list_all_iff)
  have "\<not> strcaseeq ?s ''default''" "\<not> strcaseeq ?s ''none''"
    using attribute_words_not_default h two strcaseeq_take [of ?s _ 2]
    by (fastforce simp: list_all_iff)+
  moreover have "?s \<noteq> []" "last ?s \<notin> set attr_delimiters" "strcspn ?s attr_delimiters \<noteq> 0"
    using join_comma_hd [OF _ ws] ne by (auto simp: strcspn_def takeWhile_eq_Nil_iff)
  ultimately show ?thesis
    using ne sub f by (simp add: attributes_tostring_join attributes_fromstring_def attributes_loop_join)
qed

theorem attributes_string_roundtrip_witness:
  "attributes_fromstring (attributes_tostring 0x45) = Some 0x45"
  by (rule attributes_string_roundtrip) (simp add: flag_set_def)

end
