(* ===== verification/Grid.thy ===== *)
theory Grid
  imports Grid_Cell
begin

text \<open>
  grid.c: the grid of cells that a screen shows, with its scrolled-off history. Rows
  0 to hsize - 1 are history, the next sy rows are on screen; all functions take absolute
  coordinates.

  A line holds its cell allocation (celldata, of which the first cellsize cells are in
  use) and its UTF-8 allocation; a null pointer is an empty list. The log_debug calls have
  no effect on the model.
\<close>

section \<open>struct grid_line, struct grid\<close>

record grid_line =
  cellsize :: nat
  celldata :: "grid_cell list"
  utf8data :: "grid_utf8 list"
  gl_flags :: "32 word"

definition grid_line_zero :: grid_line where
  "grid_line_zero = \<lparr>cellsize = 0, celldata = [], utf8data = [], gl_flags = 0\<rparr>"

abbreviation utf8size :: "grid_line \<Rightarrow> nat" where
  "utf8size gl \<equiv> length (utf8data gl)"

record grid =
  gd_flags :: "32 word"
  gd_sx :: nat
  gd_sy :: nat
  gd_hsize :: nat
  gd_hlimit :: nat
  linedata :: "grid_line list"

abbreviation has_history :: "grid \<Rightarrow> bool" where
  "has_history gd \<equiv> flag_set (gd_flags gd) GRID_HISTORY"

text \<open>Replace one line of the array by what f makes of it.\<close>

definition with_line :: "nat \<Rightarrow> (grid_line \<Rightarrow> grid_line option) \<Rightarrow> grid \<Rightarrow> grid option" where
  "with_line py f gd = do {
     gl \<leftarrow> lget py (linedata gd);
     gl' \<leftarrow> f gl;
     Some (gd\<lparr>linedata := (linedata gd)[py := gl']\<rparr>)
   }"

section \<open>Operations\<close>

text \<open>grid_check_y: true for the result 0 (in range).\<close>

definition grid_check_y :: "grid \<Rightarrow> nat \<Rightarrow> bool" where
  "grid_check_y gd py \<longleftrightarrow> \<not> (py \<ge> uadd (gd_hsize gd) (gd_sy gd))"

text \<open>A zero-sized xcalloc is fatalx.\<close>

definition grid_create :: "nat \<Rightarrow> nat \<Rightarrow> nat \<Rightarrow> grid option" where
  "grid_create sx sy hlimit =
     (if sy = 0 then None
      else Some \<lparr>gd_flags = GRID_HISTORY, gd_sx = sx, gd_sy = sy, gd_hsize = 0,
        gd_hlimit = hlimit, linedata = replicate sy grid_line_zero\<rparr>)"

text \<open>
  grid_expand_line and grid_expand_line_utf8 on the line: reallocate, and for cells fill
  what is new with the default cell.
\<close>

definition line_expand :: "nat \<Rightarrow> grid_line \<Rightarrow> grid_line" where
  "line_expand sx gl =
     (if sx \<le> cellsize gl then gl
      else gl\<lparr>celldata := map (\<lambda>xx. if cellsize gl \<le> xx then grid_default_cell
                                    else xrealloc sx (celldata gl) ! xx) [0..<sx],
              cellsize := sx\<rparr>)"

definition line_expand_utf8 :: "nat \<Rightarrow> grid_line \<Rightarrow> grid_line" where
  "line_expand_utf8 sx gl =
     (if sx \<le> utf8size gl then gl
      else gl\<lparr>utf8data := take sx (utf8data gl) @ replicate (sx - utf8size gl) grid_utf8_indet\<rparr>)"

definition grid_expand_line :: "nat \<Rightarrow> nat \<Rightarrow> grid \<Rightarrow> grid option" where
  "grid_expand_line py sx = with_line py (\<lambda>gl. Some (line_expand sx gl))"

definition grid_expand_line_utf8 :: "nat \<Rightarrow> nat \<Rightarrow> grid \<Rightarrow> grid option" where
  "grid_expand_line_utf8 py sx = with_line py (\<lambda>gl. Some (line_expand_utf8 sx gl))"

definition line_put_cell :: "nat \<Rightarrow> grid_cell \<Rightarrow> grid_line \<Rightarrow> grid_line option" where
  "line_put_cell px gc gl = map_option (\<lambda>cs. gl\<lparr>celldata := cs\<rparr>) (lput px gc (celldata gl))"

definition line_put_utf8 :: "nat \<Rightarrow> grid_utf8 \<Rightarrow> grid_line \<Rightarrow> grid_line option" where
  "line_put_utf8 px gu gl = map_option (\<lambda>us. gl\<lparr>utf8data := us\<rparr>) (lput px gu (utf8data gl))"

definition grid_put_cell :: "nat \<Rightarrow> nat \<Rightarrow> grid_cell \<Rightarrow> grid \<Rightarrow> grid option" where
  "grid_put_cell px py gc = with_line py (line_put_cell px gc)"

definition grid_put_utf8 :: "nat \<Rightarrow> nat \<Rightarrow> grid_utf8 \<Rightarrow> grid \<Rightarrow> grid option" where
  "grid_put_utf8 px py gu = with_line py (line_put_utf8 px gu)"

text \<open>grid_peek_cell: the cell to read, the default cell outside the line or the grid.\<close>

definition line_peek :: "nat \<Rightarrow> grid_line \<Rightarrow> grid_cell" where
  "line_peek px gl = (if px \<ge> cellsize gl then grid_default_cell else celldata gl ! px)"

definition grid_peek_cell :: "grid \<Rightarrow> nat \<Rightarrow> nat \<Rightarrow> grid_cell" where
  "grid_peek_cell gd px py =
     (if \<not> grid_check_y gd py then grid_default_cell else line_peek px (linedata gd ! py))"

text \<open>
  grid_get_cell: the grid after the line was expanded and the cell, or None for NULL. The
  caller that writes through the pointer uses \<open>grid_put_cell\<close>.
\<close>

definition grid_get_cell :: "grid \<Rightarrow> nat \<Rightarrow> nat \<Rightarrow> (grid \<times> grid_cell option) option" where
  "grid_get_cell gd px py =
     (if \<not> grid_check_y gd py then Some (gd, None)
      else do {
        gd' \<leftarrow> grid_expand_line py (uadd px 1) gd;
        gl \<leftarrow> lget py (linedata gd');
        gc \<leftarrow> lget px (celldata gl);
        Some (gd', Some gc)
      })"

definition grid_set_cell :: "nat \<Rightarrow> nat \<Rightarrow> grid_cell \<Rightarrow> grid \<Rightarrow> grid option" where
  "grid_set_cell px py gc gd =
     (if \<not> grid_check_y gd py then Some gd
      else Option.bind (grid_expand_line py (uadd px 1) gd) (grid_put_cell px py gc))"

text \<open>grid_peek_utf8: None for NULL.\<close>

definition grid_peek_utf8 :: "grid \<Rightarrow> nat \<Rightarrow> nat \<Rightarrow> grid_utf8 option" where
  "grid_peek_utf8 gd px py =
     (if \<not> grid_check_y gd py then None
      else if px \<ge> utf8size (linedata gd ! py) then None
      else Some (utf8data (linedata gd ! py) ! px))"

definition grid_get_utf8 :: "grid \<Rightarrow> nat \<Rightarrow> nat \<Rightarrow> (grid \<times> grid_utf8 option) option" where
  "grid_get_utf8 gd px py =
     (if \<not> grid_check_y gd py then Some (gd, None)
      else do {
        gd' \<leftarrow> grid_expand_line_utf8 py (uadd px 1) gd;
        gl \<leftarrow> lget py (linedata gd');
        gu \<leftarrow> lget px (utf8data gl);
        Some (gd', Some gu)
      })"

definition grid_set_utf8 :: "nat \<Rightarrow> nat \<Rightarrow> grid_utf8 \<Rightarrow> grid \<Rightarrow> grid option" where
  "grid_set_utf8 px py gu gd =
     (if \<not> grid_check_y gd py then Some gd
      else Option.bind (grid_expand_line_utf8 py (uadd px 1) gd) (grid_put_utf8 px py gu))"

text \<open>grid_clear_lines: the lines are freed and zeroed.\<close>

definition grid_clear_lines :: "nat \<Rightarrow> nat \<Rightarrow> grid \<Rightarrow> grid option" where
  "grid_clear_lines py ny gd =
     (if ny = 0 then Some gd
      else if \<not> grid_check_y gd py then Some gd
      else if \<not> grid_check_y gd (usub (uadd py ny) 1) then Some gd
      else foldM (\<lambda>yy. with_line yy (\<lambda>gl. Some grid_line_zero)) [py..<uadd py ny] gd)"

text \<open>
  The body of the loop of grid_clear on one line: nothing beyond the line, a truncation
  if the area reaches its end, default cells otherwise.
\<close>

definition line_clear :: "nat \<Rightarrow> nat \<Rightarrow> grid_line \<Rightarrow> grid_line option" where
  "line_clear px nx gl =
     (if px \<ge> cellsize gl then Some gl
      else if uadd px nx \<ge> cellsize gl then Some (gl\<lparr>cellsize := px\<rparr>)
      else foldM (\<lambda>xx gl. if xx \<ge> cellsize gl then Some gl
                          else line_put_cell xx grid_default_cell gl) [px..<uadd px nx] gl)"

definition grid_clear :: "nat \<Rightarrow> nat \<Rightarrow> nat \<Rightarrow> nat \<Rightarrow> grid \<Rightarrow> grid option" where
  "grid_clear px py nx ny gd =
     (if nx = 0 \<or> ny = 0 then Some gd
      else if px = 0 \<and> nx = gd_sx gd then grid_clear_lines py ny gd
      else if \<not> grid_check_y gd py then Some gd
      else if \<not> grid_check_y gd (usub (uadd py ny) 1) then Some gd
      else foldM (\<lambda>yy. with_line yy (line_clear px nx)) [py..<uadd py ny] gd)"

definition grid_move_lines :: "nat \<Rightarrow> nat \<Rightarrow> nat \<Rightarrow> grid \<Rightarrow> grid option" where
  "grid_move_lines dy py ny gd =
     (if ny = 0 \<or> py = dy then Some gd
      else if \<not> grid_check_y gd py then Some gd
      else if \<not> grid_check_y gd (usub (uadd py ny) 1) then Some gd
      else if \<not> grid_check_y gd dy then Some gd
      else if \<not> grid_check_y gd (usub (uadd dy ny) 1) then Some gd
      else do {
        gd1 \<leftarrow> foldM (\<lambda>yy gd. if yy \<ge> py \<and> yy < uadd py ny then Some gd
                               else grid_clear_lines yy 1 gd) [dy..<uadd dy ny] gd;
        ls \<leftarrow> lmove dy py ny (linedata gd1);
        foldM (\<lambda>yy gd. if yy \<ge> dy \<and> yy < uadd dy ny then Some gd
                        else with_line yy (\<lambda>gl. Some grid_line_zero) gd)
          [py..<uadd py ny] (gd1\<lparr>linedata := ls\<rparr>)
      })"

definition line_move_cells :: "nat \<Rightarrow> nat \<Rightarrow> nat \<Rightarrow> grid_line \<Rightarrow> grid_line option" where
  "line_move_cells dx px nx gl = do {
     let gl1 = line_expand (uadd dx nx) (line_expand (uadd px nx) gl);
     cs \<leftarrow> lmove dx px nx (celldata gl1);
     let gl2 = gl1\<lparr>celldata := cs\<rparr>;
     gl4 \<leftarrow> (if utf8data gl2 = [] then Some gl2
             else do {
               let gl3 = line_expand_utf8 (uadd dx nx) (line_expand_utf8 (uadd px nx) gl2);
               us \<leftarrow> lmove dx px nx (utf8data gl3);
               Some (gl3\<lparr>utf8data := us\<rparr>)
             });
     foldM (\<lambda>xx gl. if xx \<ge> dx \<and> xx < uadd dx nx then Some gl
                     else line_put_cell xx grid_default_cell gl) [px..<uadd px nx] gl4
   }"

definition grid_move_cells :: "nat \<Rightarrow> nat \<Rightarrow> nat \<Rightarrow> nat \<Rightarrow> grid \<Rightarrow> grid option" where
  "grid_move_cells dx px py nx gd =
     (if nx = 0 \<or> px = dx then Some gd
      else if \<not> grid_check_y gd py then Some gd
      else with_line py (line_move_cells dx px nx) gd)"

section \<open>History\<close>

definition grid_collect_history :: "grid \<Rightarrow> grid option" where
  "grid_collect_history gd =
     (if gd_hsize gd < gd_hlimit gd then Some gd
      else do {
        let yy = gd_hlimit gd div 10;
        let yy = (if yy < 1 then 1 else yy);
        gd1 \<leftarrow> grid_move_lines 0 yy (usub (uadd (gd_hsize gd) (gd_sy gd)) yy) gd;
        Some (gd1\<lparr>gd_hsize := usub (gd_hsize gd1) yy\<rparr>)
      })"

text \<open>A zero-sized xrealloc is fatalx.\<close>

definition xrealloc_lines :: "nat \<Rightarrow> grid_line list \<Rightarrow> grid_line list option" where
  "xrealloc_lines n ls = (if n = 0 then None else Some (xrealloc n ls))"

definition grid_scroll_history :: "grid \<Rightarrow> grid option" where
  "grid_scroll_history gd = do {
     let yy = uadd (gd_hsize gd) (gd_sy gd);
     ls \<leftarrow> xrealloc_lines (uadd yy 1) (linedata gd);
     ls' \<leftarrow> lput yy grid_line_zero ls;
     Some (gd\<lparr>linedata := ls', gd_hsize := uadd (gd_hsize gd) 1\<rparr>)
   }"

definition grid_scroll_history_region :: "nat \<Rightarrow> nat \<Rightarrow> grid \<Rightarrow> grid option" where
  "grid_scroll_history_region upper lower gd = do {
     let yy = uadd (gd_hsize gd) (gd_sy gd);
     ls1 \<leftarrow> xrealloc_lines (uadd yy 1) (linedata gd);
     ls2 \<leftarrow> lmove (gd_hsize gd + 1) (gd_hsize gd) (gd_sy gd) ls1;
     let upper = uadd upper 1;
     let lower = uadd lower 1;
     gl_upper \<leftarrow> lget upper ls2;
     ls3 \<leftarrow> lput (gd_hsize gd) gl_upper ls2;
     ls4 \<leftarrow> lmove upper (upper + 1) (usub lower upper) ls3;
     ls5 \<leftarrow> lput lower grid_line_zero ls4;
     Some (gd\<lparr>linedata := ls5, gd_hsize := uadd (gd_hsize gd) 1\<rparr>)
   }"

section \<open>Copies and text\<close>

text \<open>
  grid_duplicate_lines: a destination line becomes the source line with its own copies of
  the allocations. The struct is copied first and celldata only replaced when cellsize is
  not zero. A source line with cellsize 0 and a live allocation (grid_clear leaves such a
  line) would thus give both grids the same allocation, which both free: that is a fault.
\<close>

definition line_duplicate :: "grid_line \<Rightarrow> grid_line option" where
  "line_duplicate srcl =
     (if cellsize srcl \<noteq> 0 then Some (srcl\<lparr>celldata := take (cellsize srcl) (celldata srcl)\<rparr>)
      else if celldata srcl = [] then Some srcl
      else None)"

definition grid_duplicate_lines :: "grid \<Rightarrow> nat \<Rightarrow> grid \<Rightarrow> nat \<Rightarrow> nat \<Rightarrow> grid option" where
  "grid_duplicate_lines dst dy src sy ny = do {
     let ny = (if uadd dy ny > uadd (gd_hsize dst) (gd_sy dst)
               then usub (uadd (gd_hsize dst) (gd_sy dst)) dy else ny);
     let ny = (if uadd sy ny > uadd (gd_hsize src) (gd_sy src)
               then usub (uadd (gd_hsize src) (gd_sy src)) sy else ny);
     dst1 \<leftarrow> grid_clear_lines dy ny dst;
     foldM (\<lambda>yy dst. do {
         srcl \<leftarrow> lget (sy + yy) (linedata src);
         dstl \<leftarrow> line_duplicate srcl;
         with_line (dy + yy) (\<lambda>gl. Some dstl) dst
       }) [0..<ny] dst1
   }"

text \<open>
  grid_string_cells: the bytes of the cells without padding, trailing spaces removed.
  The doubling of the buffer is not modelled; a UTF-8 cell without data is a fault.
\<close>

definition strip_spaces :: "byte list \<Rightarrow> byte list" where
  "strip_spaces bs = rev (dropWhile (\<lambda>b. b = 0x20) (rev bs))"

definition grid_string_cells :: "grid \<Rightarrow> nat \<Rightarrow> nat \<Rightarrow> nat \<Rightarrow> byte list option" where
  "grid_string_cells gd px py nx = do {
     bytes \<leftarrow> foldM (\<lambda>xx buf.
         let gc = grid_peek_cell gd xx py in
         if is_padding gc then Some buf
         else if is_utf8 gc then
           (case grid_peek_utf8 gd xx py of
              None \<Rightarrow> None
            | Some gu \<Rightarrow> Some (buf @ take (grid_utf8_size gu) (gu_data gu)))
         else Some (buf @ [gc_data gc])) [px..<uadd px nx] [];
     Some (strip_spaces bytes)
   }"

text \<open>
  grid_compare: true for the result 0 (equal), None where it reads past the cells of a
  line. Its test of the heights compares \<open>ga->sy\<close> with itself.
\<close>

definition line_compare :: "nat \<Rightarrow> grid_line \<Rightarrow> grid_line \<Rightarrow> bool option" where
  "line_compare sx gla glb =
     (if cellsize gla \<noteq> cellsize glb then Some False
      else foldM (\<lambda>xx eq. if \<not> eq then Some eq
          else do {
            gca \<leftarrow> lget xx (celldata gla);
            gcb \<leftarrow> lget xx (celldata glb);
            if gca \<noteq> gcb then Some False
            else if \<not> is_utf8 gca then Some True
            else do {
              gua \<leftarrow> lget xx (utf8data gla);
              gub \<leftarrow> lget xx (utf8data glb);
              Some (gua = gub)
            }
          }) [0..<sx] True)"

definition grid_compare :: "grid \<Rightarrow> grid \<Rightarrow> bool option" where
  "grid_compare ga gb =
     (if gd_sx ga \<noteq> gd_sx gb \<or> gd_sy ga \<noteq> gd_sy ga then Some False
      else foldM (\<lambda>yy eq. if \<not> eq then Some eq
          else do {
            gla \<leftarrow> lget yy (linedata ga);
            glb \<leftarrow> lget yy (linedata gb);
            line_compare (gd_sx ga) gla glb
          }) [0..<gd_sy ga] True)"

end
