(* ===== verification/Grid_Line.thy ===== *)
theory Grid_Line
  imports Grid
begin

text \<open>
  The content of one line of a grid, and what each operation of grid.c does to it.

  \<open>line_wf\<close> is the invariant of a line: the cells in use are allocated and every cell
  flagged as UTF-8 has its bytes. The content of a line, \<open>line_abs\<close>, forgets the
  allocations: it maps a column to the cell shown there and, for a UTF-8 cell, its data. The
  lemmas \<open>line_abs_expand\<close>, \<open>line_abs_clear\<close>, \<open>line_abs_move_cells\<close> and \<open>line_abs_set\<close> are
  the refinement of the operations to updates of that map.
\<close>

section \<open>Invariant and content\<close>

definition line_wf :: "grid_line \<Rightarrow> bool" where
  "line_wf gl \<longleftrightarrow> cellsize gl \<le> length (celldata gl)
     \<and> (\<forall>i < cellsize gl. is_utf8 (celldata gl ! i) \<longrightarrow> i < utf8size gl)
     \<and> list_all gu_ok (utf8data gl)"

type_synonym cell_content = "grid_cell \<times> grid_utf8 option"

definition line_abs :: "grid_line \<Rightarrow> nat \<Rightarrow> cell_content" where
  "line_abs gl x =
     (line_peek x gl, if is_utf8 (line_peek x gl) then Some (utf8data gl ! x) else None)"

abbreviation blank :: cell_content where
  "blank \<equiv> (grid_default_cell, None)"

lemma fst_line_abs [simp]: "fst (line_abs gl x) = line_peek x gl"
  by (simp add: line_abs_def)

lemma line_peek_beyond [simp]: "cellsize gl \<le> x \<Longrightarrow> line_peek x gl = grid_default_cell"
  by (simp add: line_peek_def)

lemma line_abs_beyond [simp]: "cellsize gl \<le> x \<Longrightarrow> line_abs gl x = blank"
  by (simp add: line_abs_def)

lemma line_peek_zero [simp]: "line_peek x grid_line_zero = grid_default_cell"
  by (simp add: line_peek_def grid_line_zero_def)

lemma line_abs_zero [simp]: "line_abs grid_line_zero x = blank"
  by (simp add: line_abs_def)

lemma line_wf_zero [simp]: "line_wf grid_line_zero"
  by (simp add: line_wf_def grid_line_zero_def)

lemma line_wfD:
  assumes "line_wf gl"
  shows "cellsize gl \<le> length (celldata gl)"
    and "i < cellsize gl \<Longrightarrow> is_utf8 (celldata gl ! i) \<Longrightarrow> i < utf8size gl"
    and "list_all gu_ok (utf8data gl)"
    and "is_utf8 (line_peek i gl) \<Longrightarrow> i < utf8size gl"
  using assms by (auto simp: line_wf_def line_peek_def split: if_splits)

lemma line_wf_gu_ok: "line_wf gl \<Longrightarrow> i < utf8size gl \<Longrightarrow> gu_ok (utf8data gl ! i)"
  by (simp add: line_wf_def list_all_length)

section \<open>Expansion\<close>

lemma cellsize_expand [simp]: "cellsize (line_expand n gl) = max n (cellsize gl)"
  by (simp add: line_expand_def)

lemma length_celldata_expand:
  "length (celldata (line_expand n gl)) = (if n \<le> cellsize gl then length (celldata gl) else n)"
  by (simp add: line_expand_def)

lemma utf8data_expand [simp]: "utf8data (line_expand n gl) = utf8data gl"
  by (simp add: line_expand_def)

lemma gl_flags_expand [simp]: "gl_flags (line_expand n gl) = gl_flags gl"
  by (simp add: line_expand_def)

lemma line_peek_expand [simp]:
  assumes "line_wf gl"
  shows "line_peek x (line_expand n gl) = line_peek x gl"
proof -
  have "x < cellsize gl \<Longrightarrow> x < length (celldata gl)" using line_wfD(1) [OF assms] by simp
  then show ?thesis by (auto simp: line_expand_def line_peek_def nth_xrealloc)
qed

lemma line_abs_expand [simp]: "line_wf gl \<Longrightarrow> line_abs (line_expand n gl) = line_abs gl"
  by (rule ext) (simp add: line_abs_def)

lemma line_wf_peekI:
  assumes "cellsize gl \<le> length (celldata gl)" "list_all gu_ok (utf8data gl)"
    and "\<And>i. is_utf8 (line_peek i gl) \<Longrightarrow> i < utf8size gl"
  shows "line_wf gl"
  using assms by (auto simp: line_wf_def line_peek_def split: if_splits)

lemma line_wf_expand [simp]: "line_wf gl \<Longrightarrow> line_wf (line_expand n gl)"
  by (rule line_wf_peekI) (auto simp: length_celldata_expand dest: line_wfD)

lemma cellsize_expand_utf8 [simp]: "cellsize (line_expand_utf8 n gl) = cellsize gl"
  by (simp add: line_expand_utf8_def)

lemma celldata_expand_utf8 [simp]: "celldata (line_expand_utf8 n gl) = celldata gl"
  by (simp add: line_expand_utf8_def)

lemma gl_flags_expand_utf8 [simp]: "gl_flags (line_expand_utf8 n gl) = gl_flags gl"
  by (simp add: line_expand_utf8_def)

lemma utf8size_expand_utf8 [simp]: "utf8size (line_expand_utf8 n gl) = max n (utf8size gl)"
  by (simp add: line_expand_utf8_def)

lemma nth_expand_utf8:
  "i < utf8size gl \<Longrightarrow> utf8data (line_expand_utf8 n gl) ! i = utf8data gl ! i"
  by (auto simp: line_expand_utf8_def nth_append)

lemma line_peek_expand_utf8 [simp]: "line_peek x (line_expand_utf8 n gl) = line_peek x gl"
  by (simp add: line_peek_def)

lemma line_abs_expand_utf8 [simp]:
  "line_wf gl \<Longrightarrow> line_abs (line_expand_utf8 n gl) = line_abs gl"
  by (rule ext) (simp add: line_abs_def nth_expand_utf8 line_wfD(4))

lemma list_all_expand_utf8:
  "list_all gu_ok (utf8data gl) \<Longrightarrow> list_all gu_ok (utf8data (line_expand_utf8 n gl))"
  by (auto simp: line_expand_utf8_def list_all_iff dest: in_set_takeD)

lemma line_wf_expand_utf8 [simp]: "line_wf gl \<Longrightarrow> line_wf (line_expand_utf8 n gl)"
  by (rule line_wf_peekI) (auto simp: list_all_expand_utf8 dest: line_wfD)

section \<open>Writing\<close>

lemma runs_line_put_cell:
  "px < length (celldata gl) \<Longrightarrow> runs (line_put_cell px gc gl) P = P (gl\<lparr>celldata := (celldata gl)[px := gc]\<rparr>)"
  by (simp add: line_put_cell_def)

lemma runs_line_put_utf8:
  "px < utf8size gl \<Longrightarrow> runs (line_put_utf8 px gu gl) P = P (gl\<lparr>utf8data := (utf8data gl)[px := gu]\<rparr>)"
  by (simp add: line_put_utf8_def)

lemma line_peek_put:
  "line_wf gl \<Longrightarrow> px < cellsize gl \<Longrightarrow>
   line_peek x (gl\<lparr>celldata := (celldata gl)[px := gc]\<rparr>) = (if x = px then gc else line_peek x gl)"
  by (auto simp: line_peek_def dest: line_wfD(1))

lemma line_wf_put:
  assumes "line_wf gl" "px < cellsize gl" "is_utf8 gc \<Longrightarrow> px < utf8size gl"
  shows "line_wf (gl\<lparr>celldata := (celldata gl)[px := gc]\<rparr>)"
  using assms by (intro line_wf_peekI) (auto simp: line_peek_put dest: line_wfD split: if_splits)

lemma line_abs_put:
  "line_wf gl \<Longrightarrow> px < cellsize gl \<Longrightarrow>
   line_abs (gl\<lparr>celldata := (celldata gl)[px := gc]\<rparr>)
     = (line_abs gl)(px := (gc, if is_utf8 gc then Some (utf8data gl ! px) else None))"
  by (rule ext) (auto simp: line_abs_def line_peek_put)

lemma line_wf_put_utf8:
  "line_wf gl \<Longrightarrow> gu_ok gu \<Longrightarrow> line_wf (gl\<lparr>utf8data := (utf8data gl)[px := gu]\<rparr>)"
  by (auto simp: line_wf_def list_all_iff dest: set_update_subset_insert [THEN subsetD])

lemma line_abs_put_utf8:
  assumes "line_wf gl"
  shows "line_abs (gl\<lparr>utf8data := (utf8data gl)[px := gu]\<rparr>) =
    (\<lambda>x. if x = px \<and> is_utf8 (line_peek x gl) then (line_peek x gl, Some gu) else line_abs gl x)"
  proof
  fix x
  show "line_abs (gl\<lparr>utf8data := (utf8data gl)[px := gu]\<rparr>) x =
    (if x = px \<and> is_utf8 (line_peek x gl) then (line_peek x gl, Some gu) else line_abs gl x)"
    using line_wfD(4) [OF assms, of x]
    by (cases "x = px") (auto simp: line_abs_def line_peek_def)
qed

definition fill :: "nat \<Rightarrow> nat \<Rightarrow> cell_content \<Rightarrow> (nat \<Rightarrow> cell_content) \<Rightarrow> nat \<Rightarrow> cell_content" where
  "fill a b v f = (\<lambda>x. if a \<le> x \<and> x < b then v else f x)"

lemma fill_step: "a \<le> i \<Longrightarrow> (fill a i v f)(i := v) = fill a (Suc i) v f"
  by (auto simp: fill_def)

lemma fill_none [simp]: "fill a a v f = f"
  by (rule ext) (auto simp: fill_def)

lemma line_clear_runs:
  assumes wf: "line_wf gl" and n: "px + nx < UINT_MOD"
  shows "runs (line_clear px nx gl) (\<lambda>gl'. line_wf gl' \<and> gl_flags gl' = gl_flags gl
    \<and> line_abs gl' = fill px (px + nx) blank (line_abs gl))"
proof -
  consider "cellsize gl \<le> px" | "px < cellsize gl" "cellsize gl \<le> px + nx" | "px + nx < cellsize gl"
    by linarith
  then show ?thesis
  proof cases
    case 1
    then show ?thesis using wf by (auto simp: line_clear_def fill_def)
  next
    case 2
    let ?g = "gl\<lparr>cellsize := px\<rparr>"
    have "line_wf ?g" using wf 2 by (auto simp: line_wf_def)
    moreover have "line_abs ?g = fill px (px + nx) blank (line_abs gl)"
      using 2 by (intro ext) (auto simp: line_abs_def line_peek_def fill_def)
    ultimately show ?thesis using 2 n by (simp add: line_clear_def uadd_eq)
  next
    case 3
    let ?f = "\<lambda>xx gl. if xx \<ge> cellsize gl then Some gl else line_put_cell xx grid_default_cell gl"
    let ?I = "\<lambda>i g. line_wf g \<and> cellsize g = cellsize gl \<and> gl_flags g = gl_flags gl
      \<and> line_abs g = fill px i blank (line_abs gl)"
    have "runs (foldM ?f [px..<px + nx] gl) (?I (px + nx))"
    proof (rule runs_foldM_upt)
      fix i g assume i: "px \<le> i" "i < px + nx" and I: "?I i g"
      have "i < length (celldata g)" "i < cellsize g" using i I 3 by (auto simp: line_wf_def)
      moreover from this have "line_wf (g\<lparr>celldata := (celldata g)[i := grid_default_cell]\<rparr>)"
        using I by (intro line_wf_put) auto
      ultimately show "runs (?f i g) (?I (Suc i))"
        using i I by (simp add: runs_line_put_cell line_abs_put fill_step)
    qed (use wf in auto)
    then show ?thesis using 3 n by (auto simp: line_clear_def uadd_eq elim: runs_mono)
  qed
qed

section \<open>Moving cells\<close>

definition moved :: "nat \<Rightarrow> nat \<Rightarrow> nat \<Rightarrow> (nat \<Rightarrow> 'a) \<Rightarrow> nat \<Rightarrow> 'a" where
  "moved dx px nx f = (\<lambda>x. if dx \<le> x \<and> x < dx + nx then f (px + (x - dx)) else f x)"

text \<open>The cells of [px, px + nx) go to dx, and what they leave behind is blank.\<close>

definition move_cells :: "nat \<Rightarrow> nat \<Rightarrow> nat \<Rightarrow> (nat \<Rightarrow> cell_content) \<Rightarrow> nat \<Rightarrow> cell_content" where
  "move_cells dx px nx f = (\<lambda>x.
     if dx \<le> x \<and> x < dx + nx then f (px + (x - dx))
     else if px \<le> x \<and> x < px + nx then blank else f x)"

lemma line_move_celldata:
  assumes wf: "line_wf gl" and sz: "px + nx \<le> cellsize gl" "dx + nx \<le> cellsize gl"
  shows "runs (lmove dx px nx (celldata gl)) (\<lambda>cs. length cs = length (celldata gl)
    \<and> (\<forall>x. line_peek x (gl\<lparr>celldata := cs\<rparr>) = moved dx px nx (\<lambda>x. line_peek x gl) x))"
  using line_wfD(1) [OF wf] sz
  by (intro runs_lmove) (auto simp: line_peek_def moved_def)

lemma list_all_lmove:
  "list_all P xs \<Longrightarrow> dst + n \<le> length xs \<Longrightarrow> src + n \<le> length xs \<Longrightarrow>
   runs (lmove dst src n xs) (list_all P)"
  by (rule runs_lmove) (auto simp: list_all_length)

lemma line_move_both:
  assumes wf: "line_wf gl" and sz: "px + nx \<le> cellsize gl" "dx + nx \<le> cellsize gl"
    and n: "px + nx < UINT_MOD" "dx + nx < UINT_MOD"
  shows "runs (do {
      cs \<leftarrow> lmove dx px nx (celldata gl);
      let gl2 = gl\<lparr>celldata := cs\<rparr>;
      (if utf8data gl2 = [] then Some gl2
       else do {
         let gl3 = line_expand_utf8 (uadd dx nx) (line_expand_utf8 (uadd px nx) gl2);
         us \<leftarrow> lmove dx px nx (utf8data gl3);
         Some (gl3\<lparr>utf8data := us\<rparr>)
       }) }) (\<lambda>g. line_wf g \<and> cellsize g = cellsize gl \<and> gl_flags g = gl_flags gl
        \<and> line_abs g = moved dx px nx (line_abs gl))"
proof -
  define E where "E = (\<lambda>g. line_expand_utf8 (dx + nx) (line_expand_utf8 (px + nx) g))"
  have goal: "line_wf g \<and> cellsize g = cellsize gl \<and> gl_flags g = gl_flags gl
      \<and> line_abs g = moved dx px nx (line_abs gl)"
    if g: "g = gl\<lparr>celldata := cs, utf8data := us\<rparr>"
      and cs: "length cs = length (celldata gl)"
        "\<And>x. line_peek x (gl\<lparr>celldata := cs\<rparr>) = moved dx px nx (\<lambda>x. line_peek x gl) x"
      and us: "list_all gu_ok us"
        "\<And>x. is_utf8 (moved dx px nx (\<lambda>x. line_peek x gl) x) \<Longrightarrow>
          x < length us \<and> us ! x = moved dx px nx (\<lambda>x. utf8data gl ! x) x" for g cs us
  proof -
    have pk: "line_peek x g = moved dx px nx (\<lambda>x. line_peek x gl) x" for x
    proof -
      have "line_peek x g = line_peek x (gl\<lparr>celldata := cs\<rparr>)" by (simp add: g line_peek_def)
      then show ?thesis using cs(2) [of x] by (rule trans)
    qed
    have "line_wf g"
      by (rule line_wf_peekI)
        (use us wf cs(1) pk in \<open>auto simp: g dest: line_wfD\<close>)
    moreover have "line_abs g = moved dx px nx (line_abs gl)"
    proof
      fix x
      show "line_abs g x = moved dx px nx (line_abs gl) x"
        using pk [of x] us(2) [of x] by (auto simp: line_abs_def moved_def g)
    qed
    ultimately show ?thesis by (simp add: g)
  qed
  obtain cs where cs: "lmove dx px nx (celldata gl) = Some cs" "length cs = length (celldata gl)"
      "\<And>x. line_peek x (gl\<lparr>celldata := cs\<rparr>) = moved dx px nx (\<lambda>x. line_peek x gl) x"
    using line_move_celldata [OF wf sz] by (auto simp: runs_iff)
  show ?thesis
  proof (cases "utf8data gl = []")
    case True
    have "\<not> is_utf8 (moved dx px nx (\<lambda>x. line_peek x gl) x)" for x
      using line_wfD(4) [OF wf] True by (auto simp: moved_def)
    moreover have "gl\<lparr>celldata := cs\<rparr> = gl\<lparr>celldata := cs, utf8data := []\<rparr>"
      using True by (cases gl) simp
    ultimately have "line_wf (gl\<lparr>celldata := cs\<rparr>) \<and> cellsize (gl\<lparr>celldata := cs\<rparr>) = cellsize gl
        \<and> gl_flags (gl\<lparr>celldata := cs\<rparr>) = gl_flags gl
        \<and> line_abs (gl\<lparr>celldata := cs\<rparr>) = moved dx px nx (line_abs gl)"
      by (intro goal [OF _ cs(2,3), of _ "[]"]) simp_all
    then show ?thesis using True cs(1) by simp
  next
    case False
    let ?u = "utf8data (E gl)"
    have E: "length ?u = max (dx + nx) (max (px + nx) (utf8size gl))"
      "list_all gu_ok ?u" using wf line_wfD(3) [OF wf]
      by (simp_all add: E_def list_all_expand_utf8)
    have Ei: "i < utf8size gl \<Longrightarrow> ?u ! i = utf8data gl ! i" for i
      by (simp add: E_def nth_expand_utf8)
    have Eg: "E (gl\<lparr>celldata := cs\<rparr>) = gl\<lparr>celldata := cs, utf8data := ?u\<rparr>"
      by (simp add: E_def line_expand_utf8_def)
    have "runs (lmove dx px nx ?u) (\<lambda>us. list_all gu_ok us \<and>
        (\<forall>x. is_utf8 (moved dx px nx (\<lambda>x. line_peek x gl) x) \<longrightarrow>
          x < length us \<and> us ! x = moved dx px nx (\<lambda>x. utf8data gl ! x) x))"
    proof (rule runs_conjI)
      show "runs (lmove dx px nx ?u) (list_all gu_ok)"
        using E by (intro list_all_lmove) auto
      show "runs (lmove dx px nx ?u) (\<lambda>us. \<forall>x. is_utf8 (moved dx px nx (\<lambda>x. line_peek x gl) x) \<longrightarrow>
          x < length us \<and> us ! x = moved dx px nx (\<lambda>x. utf8data gl ! x) x)"
        using E(1) by (intro runs_lmove) (auto simp: moved_def Ei dest!: line_wfD(4) [OF wf])
    qed
    then obtain us where us: "lmove dx px nx ?u = Some us" "list_all gu_ok us"
        "\<And>x. is_utf8 (moved dx px nx (\<lambda>x. line_peek x gl) x) \<Longrightarrow>
          x < length us \<and> us ! x = moved dx px nx (\<lambda>x. utf8data gl ! x) x"
      by (auto simp: runs_iff)
    show ?thesis
      using goal [OF refl cs(2,3) us(2,3)] False cs(1) us(1) n Eg
      by (simp add: uadd_eq E_def)
  qed
qed

lemma line_wipe_runs:
  assumes wf: "line_wf gl" and sz: "px + nx \<le> cellsize gl" and n: "px + nx < UINT_MOD" "dx + nx < UINT_MOD"
  shows "runs (foldM (\<lambda>xx gl. if xx \<ge> dx \<and> xx < uadd dx nx then Some gl
                     else line_put_cell xx grid_default_cell gl) [px..<uadd px nx] gl)
    (\<lambda>g. line_wf g \<and> gl_flags g = gl_flags gl \<and> cellsize g = cellsize gl \<and>
      line_abs g = (\<lambda>x. if px \<le> x \<and> x < px + nx \<and> \<not> (dx \<le> x \<and> x < dx + nx) then blank else line_abs gl x))"
proof -
  let ?f = "\<lambda>xx gl. if xx \<ge> dx \<and> xx < dx + nx then Some gl else line_put_cell xx grid_default_cell gl"
  let ?A = "\<lambda>i x. if px \<le> x \<and> x < i \<and> \<not> (dx \<le> x \<and> x < dx + nx) then blank else line_abs gl x"
  let ?I = "\<lambda>i g. line_wf g \<and> gl_flags g = gl_flags gl \<and> cellsize g = cellsize gl \<and> line_abs g = ?A i"
  have "runs (foldM ?f [px..<px + nx] gl) (?I (px + nx))"
  proof (rule runs_foldM_upt)
    fix i g assume i: "px \<le> i" "i < px + nx" and I: "?I i g"
    have b: "i < length (celldata g)" "i < cellsize g" using i I sz by (auto simp: line_wf_def)
    moreover from b have "line_wf (g\<lparr>celldata := (celldata g)[i := grid_default_cell]\<rparr>)"
      using I by (intro line_wf_put) auto
    moreover have "(?A i)(i := blank) = ?A (Suc i)" if "\<not> (dx \<le> i \<and> i < dx + nx)"
      using i that by (auto simp: fun_eq_iff)
    moreover have "?A i = ?A (Suc i)" if "dx \<le> i \<and> i < dx + nx"
      using that by (auto simp: fun_eq_iff less_Suc_eq)
    ultimately show "runs (?f i g) (?I (Suc i))"
      using I by (auto simp: runs_line_put_cell line_abs_put)
  qed (use wf in auto)
  then show ?thesis using n by (simp add: uadd_eq)
qed

lemma line_move_cells_runs:
  assumes wf: "line_wf gl" and n: "px + nx < UINT_MOD" "dx + nx < UINT_MOD"
  shows "runs (line_move_cells dx px nx gl) (\<lambda>g. line_wf g \<and> gl_flags g = gl_flags gl
     \<and> line_abs g = move_cells dx px nx (line_abs gl))"
proof -
  let ?g = "line_expand (uadd dx nx) (line_expand (uadd px nx) gl)"
  have g: "line_wf ?g" "px + nx \<le> cellsize ?g" "dx + nx \<le> cellsize ?g"
      "line_abs ?g = line_abs gl" "gl_flags ?g = gl_flags gl"
    using wf n by (simp_all add: uadd_eq)
  have fin: "(\<lambda>x. if px \<le> x \<and> x < px + nx \<and> \<not> (dx \<le> x \<and> x < dx + nx) then blank
      else moved dx px nx (line_abs gl) x) = move_cells dx px nx (line_abs gl)"
    by (auto simp: fun_eq_iff moved_def move_cells_def)
  note both = line_move_both [OF g(1-3) n, unfolded runs_bind Let_def]
  show ?thesis
    unfolding line_move_cells_def Let_def runs_bind
  proof (rule runs_mono [OF both], rule runs_mono, assumption)
    fix cs g assume I: "line_wf g \<and> cellsize g = cellsize ?g \<and> gl_flags g = gl_flags ?g
        \<and> line_abs g = moved dx px nx (line_abs ?g)"
    then have la: "line_abs g = moved dx px nx (line_abs gl)" by (simp only: g(4))
    from I show "runs (foldM (\<lambda>xx gl. if xx \<ge> dx \<and> xx < uadd dx nx then Some gl
        else line_put_cell xx grid_default_cell gl) [px..<uadd px nx] g)
      (\<lambda>g. line_wf g \<and> gl_flags g = gl_flags gl \<and> line_abs g = move_cells dx px nx (line_abs gl))"
      using line_wipe_runs [of g px nx dx, unfolded la fin] g(2,5) n by (auto elim!: runs_mono)
  qed
qed

end
