(* ===== verification/Grid_Facts.thy ===== *)
theory Grid_Facts
  imports Grid_Line
begin

text \<open>
  What the operations of grid.c do to the grid as a whole.

  \<open>grid_ok\<close> is the invariant of a grid. The content of a grid, \<open>rows\<close>, maps each row of
  history and screen to the content of its line and the flags of the line.
  \<open>becomes gd R gd'\<close> says that gd' is a grid of the same dimensions, satisfies the
  invariant, and has the content R: each operation has one lemma that says which content it
  leaves, and that it does not fault.
\<close>

section \<open>Invariant and content\<close>

abbreviation grid_height :: "grid \<Rightarrow> nat" where
  "grid_height gd \<equiv> gd_hsize gd + gd_sy gd"

definition grid_ok :: "grid \<Rightarrow> bool" where
  "grid_ok gd \<longleftrightarrow> grid_height gd < UINT_MOD \<and> grid_height gd \<le> length (linedata gd)
     \<and> 0 < gd_sy gd \<and> 0 < gd_sx gd \<and> gd_sx gd < UINT_MOD
     \<and> (\<forall>y < grid_height gd. line_wf (linedata gd ! y))"

type_synonym row_content = "(nat \<Rightarrow> cell_content) \<times> 32 word"

definition line_view :: "grid_line \<Rightarrow> row_content" where
  "line_view gl = (line_abs gl, gl_flags gl)"

definition rows :: "grid \<Rightarrow> nat \<Rightarrow> row_content" where
  "rows gd y = line_view (linedata gd ! y)"

abbreviation blank_row :: row_content where
  "blank_row \<equiv> (\<lambda>x. blank, 0)"

definition same_dims :: "grid \<Rightarrow> grid \<Rightarrow> bool" where
  "same_dims gd gd' \<longleftrightarrow> gd_flags gd' = gd_flags gd \<and> gd_sx gd' = gd_sx gd \<and> gd_sy gd' = gd_sy gd
     \<and> gd_hsize gd' = gd_hsize gd \<and> gd_hlimit gd' = gd_hlimit gd"

definition becomes :: "grid \<Rightarrow> (nat \<Rightarrow> row_content) \<Rightarrow> grid \<Rightarrow> bool" where
  "becomes gd R gd' \<longleftrightarrow> grid_ok gd' \<and> same_dims gd gd' \<and> (\<forall>y < grid_height gd. rows gd' y = R y)"

lemma line_view_zero [simp]: "line_view grid_line_zero = blank_row"
  by (simp add: line_view_def fun_eq_iff) (simp add: grid_line_zero_def)

lemma grid_okD:
  assumes "grid_ok gd"
  shows "grid_height gd < UINT_MOD" "grid_height gd \<le> length (linedata gd)" "0 < gd_sy gd"
    "gd_sx gd < UINT_MOD" "0 < gd_sx gd" "y < grid_height gd \<Longrightarrow> line_wf (linedata gd ! y)"
  using assms by (auto simp: grid_ok_def)

lemma same_dims_refl [simp]: "same_dims gd gd"
  by (simp add: same_dims_def)

lemma same_dims_trans: "same_dims a b \<Longrightarrow> same_dims b c \<Longrightarrow> same_dims a c"
  by (simp add: same_dims_def)

lemma becomesD:
  assumes "becomes gd R gd'"
  shows "grid_ok gd'" "same_dims gd gd'" "gd_sx gd' = gd_sx gd" "gd_sy gd' = gd_sy gd"
    "gd_hsize gd' = gd_hsize gd" "gd_hlimit gd' = gd_hlimit gd" "gd_flags gd' = gd_flags gd"
    "y < grid_height gd \<Longrightarrow> rows gd' y = R y"
  using assms by (auto simp: becomes_def same_dims_def)

lemma becomes_refl: "grid_ok gd \<Longrightarrow> (\<And>y. y < grid_height gd \<Longrightarrow> R y = rows gd y) \<Longrightarrow> becomes gd R gd"
  by (simp add: becomes_def)

lemma becomes_self [simp]: "grid_ok gd \<Longrightarrow> becomes gd (rows gd) gd"
  by (simp add: becomes_def)

lemma becomes_cong:
  "becomes gd R gd' \<Longrightarrow> (\<And>y. y < grid_height gd \<Longrightarrow> R y = S y) \<Longrightarrow> becomes gd S gd'"
  by (simp add: becomes_def)

lemma becomes_trans:
  assumes "becomes gd R gd'" "becomes gd' S gd''"
    and "\<And>y. y < grid_height gd \<Longrightarrow> S y = T y"
  shows "becomes gd T gd''"
  using assms by (auto simp: becomes_def same_dims_def)

lemma grid_check_y_iff [simp]: "grid_ok gd \<Longrightarrow> grid_check_y gd y \<longleftrightarrow> y < grid_height gd"
  by (auto simp: grid_check_y_def uadd_eq dest: grid_okD(1))

lemma check_last:
  "grid_ok gd \<Longrightarrow> 0 < ny \<Longrightarrow> py + ny \<le> grid_height gd \<Longrightarrow> grid_check_y gd (usub (uadd py ny) 1)"
  using grid_okD(1) [of gd] by (simp add: uadd_eq usub_eq)

section \<open>One line\<close>

lemma runs_with_line:
  assumes ok: "grid_ok gd" and y: "py < grid_height gd"
    and f: "runs (f (linedata gd ! py)) (\<lambda>l. line_wf l \<and> line_view l = v)"
  shows "runs (with_line py f gd) (becomes gd ((rows gd)(py := v)))"
proof -
  have "py < length (linedata gd)" using ok y grid_okD(2) by fastforce
  then show ?thesis
    using f ok y
    by (auto simp: with_line_def runs_iff becomes_def same_dims_def rows_def grid_ok_def nth_list_update)
qed

lemma grid_expand_line_runs:
  assumes "grid_ok gd" "py < grid_height gd"
  shows "runs (grid_expand_line py n gd) (\<lambda>gd'. becomes gd (rows gd) gd'
    \<and> linedata gd' = (linedata gd)[py := line_expand n (linedata gd ! py)])"
proof -
  have "runs (grid_expand_line py n gd) (becomes gd ((rows gd)(py := rows gd py)))"
    unfolding grid_expand_line_def using assms grid_okD(6) [OF assms]
    by (intro runs_with_line) (simp_all add: rows_def line_view_def)
  moreover have "py < length (linedata gd)" using assms grid_okD(2) by fastforce
  ultimately show ?thesis by (simp add: grid_expand_line_def with_line_def)
qed

section \<open>Clearing\<close>

lemma grid_clear_lines_runs:
  assumes ok: "grid_ok gd" and b: "py + ny \<le> grid_height gd"
  shows "runs (grid_clear_lines py ny gd)
    (becomes gd (\<lambda>y. if py \<le> y \<and> y < py + ny then blank_row else rows gd y))"
proof (cases "ny = 0")
  case True
  then show ?thesis using ok by (simp add: grid_clear_lines_def) (rule becomes_refl, auto)
next
  case False
  let ?R = "\<lambda>i y. if py \<le> y \<and> y < i then blank_row else rows gd y"
  have "runs (foldM (\<lambda>yy. with_line yy (\<lambda>gl. Some grid_line_zero)) [py..<py + ny] gd) (becomes gd (?R (py + ny)))"
  proof (rule runs_foldM_upt [where I = "\<lambda>i. becomes gd (?R i)"])
    fix i g assume i: "py \<le> i" "i < py + ny" and I: "becomes gd (?R i) g"
    have "i < grid_height g" using i b becomesD(4,5) [OF I] by simp
    with becomesD(1) [OF I] have "runs (with_line i (\<lambda>gl. Some grid_line_zero) g)
        (becomes g ((rows g)(i := blank_row)))"
      by (intro runs_with_line) simp_all
    then show "runs (with_line i (\<lambda>gl. Some grid_line_zero) g) (becomes gd (?R (Suc i)))"
      using i becomesD(8) [OF I] by (auto elim!: runs_mono becomes_trans [OF I])
  qed (use ok in \<open>auto intro!: becomes_refl\<close>)
  then show ?thesis
    using False ok b check_last [OF ok _ b] grid_okD(1) [OF ok]
    by (simp add: grid_clear_lines_def uadd_eq)
qed

lemma grid_clear_lines_wrap: "uadd py ny \<le> py \<Longrightarrow> grid_clear_lines py ny gd = Some gd"
  by (simp add: grid_clear_lines_def)

text \<open>What grid_clear leaves of a row: a clear of the whole width also resets the line.\<close>

definition clear_row :: "nat \<Rightarrow> nat \<Rightarrow> nat \<Rightarrow> row_content \<Rightarrow> row_content" where
  "clear_row sx px nx r =
     (if px = 0 \<and> nx = sx then blank_row else (fill px (px + nx) blank (fst r), snd r))"

lemma grid_clear_runs:
  assumes ok: "grid_ok gd" and b: "py + ny \<le> grid_height gd" and n: "px + nx < UINT_MOD"
  shows "runs (grid_clear px py nx ny gd)
    (becomes gd (\<lambda>y. if py \<le> y \<and> y < py + ny then clear_row (gd_sx gd) px nx (rows gd y) else rows gd y))"
proof (cases "nx = 0 \<or> ny = 0")
  case True
  then show ?thesis using ok grid_okD(5) [OF ok]
    by (auto simp: grid_clear_def clear_row_def fill_def intro!: becomes_refl)
next
  case False
  show ?thesis
  proof (cases "px = 0 \<and> nx = gd_sx gd")
    case True
    then show ?thesis using False grid_clear_lines_runs [OF ok b]
      by (simp add: grid_clear_def clear_row_def cong: if_cong)
  next
    case part: False
    let ?R = "\<lambda>i y. if py \<le> y \<and> y < i then clear_row (gd_sx gd) px nx (rows gd y) else rows gd y"
    have "runs (foldM (\<lambda>yy. with_line yy (line_clear px nx)) [py..<py + ny] gd) (becomes gd (?R (py + ny)))"
    proof (rule runs_foldM_upt [where I = "\<lambda>i. becomes gd (?R i)"])
      fix i g assume i: "py \<le> i" "i < py + ny" and I: "becomes gd (?R i) g"
      have ig: "i < grid_height g" using i b becomesD(4,5) [OF I] by simp
      have r: "rows g i = rows gd i" using i b becomesD(8) [OF I, of i] by simp
      have "runs (with_line i (line_clear px nx) g) (becomes g ((rows g)(i := ?R (Suc i) i)))"
        using line_clear_runs [OF grid_okD(6) [OF becomesD(1) [OF I] ig] n] r i part
        by (intro runs_with_line ig becomesD(1) [OF I])
          (auto simp: clear_row_def line_view_def rows_def elim!: runs_mono)
      then show "runs (with_line i (line_clear px nx) g) (becomes gd (?R (Suc i)))"
        using i becomesD(8) [OF I] by (auto elim!: runs_mono becomes_trans [OF I])
    qed (use ok in \<open>auto intro!: becomes_refl\<close>)
    then show ?thesis
      using False part ok b check_last [OF ok _ b] grid_okD(1) [OF ok]
      by (auto simp: grid_clear_def uadd_eq)
  qed
qed

lemma grid_clear_wrap_lines: "uadd py ny \<le> py \<Longrightarrow> grid_clear px py nx ny gd = Some gd"
  by (simp add: grid_clear_def grid_clear_lines_wrap)

text \<open>The width has wrapped below zero: the area is empty.\<close>

lemma grid_clear_wrap_cells:
  assumes ok: "grid_ok gd" and py: "py < grid_height gd" and w: "uadd px nx \<le> px" and p: "0 < px"
  shows "runs (grid_clear px py nx 1 gd) (becomes gd (rows gd))"
proof (cases "nx = 0")
  case True
  then show ?thesis using ok by (simp add: grid_clear_def)
next
  case False
  have v: "line_clear px nx gl = Some gl" for gl
    using w by (simp add: line_clear_def)
  have "runs (with_line py (line_clear px nx) gd) (becomes gd ((rows gd)(py := rows gd py)))"
    using grid_okD(6) [OF ok py] by (intro runs_with_line ok py) (simp add: v rows_def)
  then show ?thesis
    using False p ok py check_last [OF ok, of 1 py] grid_okD(1) [OF ok]
    by (simp add: grid_clear_def uadd_eq)
qed

section \<open>Moving lines\<close>

definition move_rows :: "nat \<Rightarrow> nat \<Rightarrow> nat \<Rightarrow> (nat \<Rightarrow> row_content) \<Rightarrow> nat \<Rightarrow> row_content" where
  "move_rows dy py ny R = (\<lambda>y.
     if dy \<le> y \<and> y < dy + ny then R (py + (y - dy))
     else if py \<le> y \<and> y < py + ny then blank_row else R y)"

lemma move_rows_0 [simp]: "move_rows dy py 0 R = R"
  by (rule ext) (auto simp: move_rows_def)

lemma move_cells_0 [simp]: "move_cells dx px 0 f = f"
  by (rule ext) (auto simp: move_cells_def)

lemma clear_one_runs:
  assumes "grid_ok gd" "y < grid_height gd"
  shows "runs (grid_clear_lines y 1 gd) (becomes gd ((rows gd)(y := blank_row)))"
  using grid_clear_lines_runs [of gd y 1] assms by (auto elim!: runs_mono becomes_cong)

lemma zero_line_runs:
  assumes "grid_ok gd" "y < grid_height gd"
  shows "runs (with_line y (\<lambda>gl. Some grid_line_zero) gd) (becomes gd ((rows gd)(y := blank_row)))"
  using assms by (intro runs_with_line) simp_all

lemma lmove_lines_runs:
  assumes ok: "grid_ok gd" and b: "py + ny \<le> grid_height gd" "dy + ny \<le> grid_height gd"
  shows "runs (lmove dy py ny (linedata gd)) (\<lambda>ls. becomes gd (moved dy py ny (rows gd)) (gd\<lparr>linedata := ls\<rparr>))"
  using b grid_okD(1,2,3,4,5) [OF ok] grid_okD(6) [OF ok]
  by (intro runs_lmove) (auto simp: becomes_def same_dims_def grid_ok_def rows_def moved_def)

text \<open>A loop that blanks some of the rows of a range.\<close>

lemma blank_loop_runs:
  assumes ok: "grid_ok gd" and b: "e \<le> grid_height gd" and ae: "a \<le> e"
    and f: "\<And>g y. grid_ok g \<Longrightarrow> grid_height g = grid_height gd \<Longrightarrow> a \<le> y \<Longrightarrow> y < e \<Longrightarrow>
      runs (f y g) (becomes g (if skip y then rows g else (rows g)(y := blank_row)))"
  shows "runs (foldM f [a..<e] gd)
    (becomes gd (\<lambda>y. if a \<le> y \<and> y < e \<and> \<not> skip y then blank_row else rows gd y))"
proof -
  let ?R = "\<lambda>i y. if a \<le> y \<and> y < i \<and> \<not> skip y then blank_row else rows gd y"
  show ?thesis
  proof (rule runs_foldM_upt [where I = "\<lambda>i. becomes gd (?R i)"])
    fix i g assume i: "a \<le> i" "i < e" and I: "becomes gd (?R i) g"
    have "runs (f i g) (becomes g (if skip i then rows g else (rows g)(i := blank_row)))"
      using f becomesD(1,4,5) [OF I] i by simp
    then show "runs (f i g) (becomes gd (?R (Suc i)))"
      using i becomesD(8) [OF I] by (auto elim!: runs_mono becomes_trans [OF I] simp: less_Suc_eq)
  qed (use ok ae in \<open>auto intro!: becomes_refl\<close>)
qed

lemma grid_move_lines_runs:
  assumes ok: "grid_ok gd" and b: "py + ny \<le> grid_height gd" "dy + ny \<le> grid_height gd"
    and ne: "py \<noteq> dy"
  shows "runs (grid_move_lines dy py ny gd) (becomes gd (move_rows dy py ny (rows gd)))"
proof (cases "ny = 0")
  case True
  then show ?thesis using ok by (simp add: grid_move_lines_def)
next
  case False
  note lt = grid_okD(1) [OF ok]
  let ?src = "\<lambda>y. py \<le> y \<and> y < py + ny" and ?dst = "\<lambda>y. dy \<le> y \<and> y < dy + ny"
  let ?f1 = "\<lambda>yy gd. if yy \<ge> py \<and> yy < py + ny then Some gd else grid_clear_lines yy 1 gd"
  let ?f2 = "\<lambda>yy gd. if yy \<ge> dy \<and> yy < dy + ny then Some gd
                        else with_line yy (\<lambda>gl. Some grid_line_zero) gd"
  have 1: "runs (foldM ?f1 [dy..<dy + ny] gd)
      (becomes gd (\<lambda>y. if dy \<le> y \<and> y < dy + ny \<and> \<not> ?src y then blank_row else rows gd y))"
    by (rule blank_loop_runs [OF ok b(2)]) (use b in \<open>auto simp: clear_one_runs [unfolded One_nat_def]\<close>)
  have 2: "runs (foldM ?f2 [py..<py + ny] g)
      (becomes g (\<lambda>y. if py \<le> y \<and> y < py + ny \<and> \<not> ?dst y then blank_row else rows g y))"
    if "becomes gd R g" for R g
    by (rule blank_loop_runs [OF becomesD(1) [OF that]])
      (use b becomesD(4,5) [OF that] in \<open>auto simp: zero_line_runs\<close>)
  have "runs (foldM ?f1 [dy..<dy + ny] gd) (\<lambda>g1. runs (lmove dy py ny (linedata g1))
      (\<lambda>ls. runs (foldM ?f2 [py..<py + ny] (g1\<lparr>linedata := ls\<rparr>))
        (becomes gd (move_rows dy py ny (rows gd)))))"
  proof (rule runs_mono [OF 1])
    fix g1 assume B1: "becomes gd (\<lambda>y. if dy \<le> y \<and> y < dy + ny \<and> \<not> ?src y then blank_row else rows gd y) g1"
    have b1: "py + ny \<le> grid_height g1" "dy + ny \<le> grid_height g1"
      using b becomesD(4,5) [OF B1] by simp_all
    show "runs (lmove dy py ny (linedata g1)) (\<lambda>ls. runs (foldM ?f2 [py..<py + ny] (g1\<lparr>linedata := ls\<rparr>))
        (becomes gd (move_rows dy py ny (rows gd))))"
    proof (rule runs_mono [OF lmove_lines_runs [OF becomesD(1) [OF B1] b1]])
      fix ls assume B2: "becomes g1 (moved dy py ny (rows g1)) (g1\<lparr>linedata := ls\<rparr>)"
      have B3: "becomes gd (moved dy py ny (rows gd)) (g1\<lparr>linedata := ls\<rparr>)"
        by (rule becomes_trans [OF B1 B2]) (use b becomesD(8) [OF B1] in \<open>auto simp: moved_def\<close>)
      show "runs (foldM ?f2 [py..<py + ny] (g1\<lparr>linedata := ls\<rparr>)) (becomes gd (move_rows dy py ny (rows gd)))"
        by (rule runs_mono [OF 2 [OF B3]], erule becomes_trans [OF B3])
          (use becomesD(8) [OF B3] in \<open>auto simp: moved_def move_rows_def\<close>)
    qed
  qed
  then show ?thesis
    using False ne ok b lt check_last [OF ok _ b(1)] check_last [OF ok _ b(2)]
    by (simp add: grid_move_lines_def uadd_eq)
qed

section \<open>Moving cells in a row\<close>

lemma grid_move_cells_runs:
  assumes ok: "grid_ok gd" and y: "py < grid_height gd" and ne: "px \<noteq> dx"
    and n: "px + nx < UINT_MOD" "dx + nx < UINT_MOD"
  shows "runs (grid_move_cells dx px py nx gd)
    (becomes gd ((rows gd)(py := (move_cells dx px nx (fst (rows gd py)), snd (rows gd py)))))"
proof (cases "nx = 0")
  case True
  then show ?thesis using ok by (simp add: grid_move_cells_def)
next
  case False
  have "runs (with_line py (line_move_cells dx px nx) gd)
      (becomes gd ((rows gd)(py := (move_cells dx px nx (fst (rows gd py)), snd (rows gd py)))))"
    using line_move_cells_runs [OF grid_okD(6) [OF ok y] n]
    by (intro runs_with_line ok y) (auto simp: rows_def line_view_def elim!: runs_mono)
  then show ?thesis using False ne ok y by (simp add: grid_move_cells_def)
qed

section \<open>Setting a cell\<close>

lemma with_line_chain:
  "Option.bind (with_line py f gd) (with_line py g) = with_line py (\<lambda>l. Option.bind (f l) g) gd"
  by (auto simp: with_line_def lget_def bind_eq_Some_conv split: bind_splits)

definition line_set_cell :: "nat \<Rightarrow> grid_cell \<Rightarrow> grid_line \<Rightarrow> grid_line option" where
  "line_set_cell px gc gl = line_put_cell px gc (line_expand (uadd px 1) gl)"

definition line_set_utf8 :: "nat \<Rightarrow> grid_utf8 \<Rightarrow> grid_line \<Rightarrow> grid_line option" where
  "line_set_utf8 px gu gl = line_put_utf8 px gu (line_expand_utf8 (uadd px 1) gl)"

lemma bind_Some_comp: "(\<lambda>l. Option.bind (Some (f l)) g) = (\<lambda>l. g (f l))"
  by simp

lemma grid_set_cell_line:
  "grid_ok gd \<Longrightarrow> py < grid_height gd \<Longrightarrow> grid_set_cell px py gc gd = with_line py (line_set_cell px gc) gd"
  by (simp add: grid_set_cell_def grid_expand_line_def grid_put_cell_def with_line_chain line_set_cell_def [abs_def])

lemma with_line_check: "with_line py f gd = Some g \<Longrightarrow> grid_check_y g y = grid_check_y gd y"
  by (auto simp: with_line_def bind_eq_Some_conv grid_check_y_def)

lemma grid_set_utf8_line:
  "grid_check_y gd py \<Longrightarrow> grid_set_utf8 px py gu gd = with_line py (line_set_utf8 px gu) gd"
  by (simp add: grid_set_utf8_def grid_expand_line_utf8_def grid_put_utf8_def with_line_chain
      line_set_utf8_def [abs_def])

lemma line_set_cell_eq:
  assumes "line_wf gl" "px + 1 < UINT_MOD"
  shows "line_set_cell px gc gl = Some ((line_expand (Suc px) gl)\<lparr>celldata := (celldata (line_expand (Suc px) gl))[px := gc]\<rparr>)"
proof -
  have "px < length (celldata (line_expand (Suc px) gl))"
    using line_wfD(1) [OF assms(1)] by (simp add: length_celldata_expand)
  then show ?thesis using assms(2) by (simp add: line_set_cell_def uadd_eq line_put_cell_def)
qed

lemma line_set_cell_runs:
  assumes wf: "line_wf gl" and n: "px + 1 < UINT_MOD" and u: "is_utf8 gc \<Longrightarrow> px < utf8size gl"
  shows "runs (line_set_cell px gc gl) (\<lambda>l. line_wf l \<and> gl_flags l = gl_flags gl \<and> utf8data l = utf8data gl
    \<and> line_abs l = (line_abs gl)(px := (gc, if is_utf8 gc then Some (utf8data gl ! px) else None)))"
  using line_wf_put [of "line_expand (Suc px) gl" px gc] line_abs_put [of "line_expand (Suc px) gl" px gc] assms
  by (simp add: line_set_cell_eq)

lemma line_set_cell_utf8_runs:
  assumes wf: "line_wf gl" and n: "px + 1 < UINT_MOD" and u: "is_utf8 gc" and gu: "gu_ok gu"
  shows "runs (Option.bind (line_set_cell px gc gl) (line_set_utf8 px gu))
    (\<lambda>l. line_wf l \<and> gl_flags l = gl_flags gl \<and> line_abs l = (line_abs gl)(px := (gc, Some gu)))"
proof -
  let ?e = "line_expand (Suc px) gl"
  let ?l = "?e\<lparr>celldata := (celldata ?e)[px := gc]\<rparr>"
  let ?u = "(utf8data (line_expand_utf8 (Suc px) gl))[px := gu]"
  let ?r = "(line_expand_utf8 (Suc px) ?l)\<lparr>utf8data := ?u\<rparr>"
  have u8: "utf8data (line_expand_utf8 (Suc px) ?l) = utf8data (line_expand_utf8 (Suc px) gl)"
    by (simp add: line_expand_utf8_def)
  have eq: "Option.bind (line_set_cell px gc gl) (line_set_utf8 px gu) = Some ?r"
    using n by (simp add: line_set_cell_eq [OF wf n] line_set_utf8_def uadd_eq line_put_utf8_def u8)
  have pk0: "line_peek x ?l = (if x = px then gc else line_peek x gl)" for x
    using line_peek_put [of ?e px x gc] wf by simp
  have pk: "line_peek x ?r = (if x = px then gc else line_peek x gl)" for x
  proof -
    have "line_peek x ?r = line_peek x ?l" by (simp add: line_peek_def)
    then show ?thesis using pk0 [of x] by (rule trans)
  qed
  have "line_wf ?r"
  proof (rule line_wf_peekI)
    show "cellsize ?r \<le> length (celldata ?r)"
      using line_wfD(1) [OF line_wf_expand [OF wf, of "Suc px"]] by simp
    show "list_all gu_ok (utf8data ?r)"
      using list_all_expand_utf8 [OF line_wfD(3) [OF wf], of "Suc px"] gu
      by (auto simp: list_all_iff dest: set_update_subset_insert [THEN subsetD])
    show "is_utf8 (line_peek i ?r) \<Longrightarrow> i < utf8size ?r" for i
      using line_wfD(4) [OF wf, of i] by (auto simp: pk split: if_splits)
  qed
  moreover have "line_abs ?r = (line_abs gl)(px := (gc, Some gu))"
  proof
    fix x
    show "line_abs ?r x = ((line_abs gl)(px := (gc, Some gu))) x"
      using line_wfD(4) [OF wf, of x] u
      by (cases "x = px") (auto simp: line_abs_def pk nth_expand_utf8)
  qed
  ultimately show ?thesis by (simp add: eq)
qed

text \<open>grid_set_cell with a cell that is not UTF-8, and grid_set_cell and grid_set_utf8 with one that is.\<close>

lemma grid_set_cell_runs:
  assumes ok: "grid_ok gd" and y: "py < grid_height gd" and n: "px + 1 < UINT_MOD" and u: "\<not> is_utf8 gc"
  shows "runs (grid_set_cell px py gc gd)
    (becomes gd ((rows gd)(py := ((fst (rows gd py))(px := (gc, None)), snd (rows gd py)))))"
  unfolding grid_set_cell_line [OF ok y]
  using line_set_cell_runs [OF grid_okD(6) [OF ok y] n, of gc] u
  by (intro runs_with_line ok y) (auto simp: rows_def line_view_def elim!: runs_mono)

lemma grid_set_cell_utf8_runs:
  assumes ok: "grid_ok gd" and y: "py < grid_height gd" and n: "px + 1 < UINT_MOD"
    and u: "is_utf8 gc" and gu: "gu_ok gu"
  shows "runs (Option.bind (grid_set_cell px py gc gd) (grid_set_utf8 px py gu))
    (becomes gd ((rows gd)(py := ((fst (rows gd py))(px := (gc, Some gu)), snd (rows gd py)))))"
proof -
  have *: "Option.bind (with_line py (line_set_cell px gc) gd) (grid_set_utf8 px py gu)
      = Option.bind (with_line py (line_set_cell px gc) gd) (with_line py (line_set_utf8 px gu))"
    using ok y by (intro Option.bind_cong refl grid_set_utf8_line) (simp add: with_line_check)
  show ?thesis
    unfolding grid_set_cell_line [OF ok y] * with_line_chain
    using line_set_cell_utf8_runs [OF grid_okD(6) [OF ok y] n u gu]
    by (intro runs_with_line ok y) (auto simp: rows_def line_view_def elim!: runs_mono)
qed

section \<open>History\<close>

text \<open>
  As \<open>becomes\<close>, for the operations that change the size of the history.
\<close>

definition becomes_at :: "nat \<Rightarrow> grid \<Rightarrow> (nat \<Rightarrow> row_content) \<Rightarrow> grid \<Rightarrow> bool" where
  "becomes_at h gd R gd' \<longleftrightarrow> grid_ok gd' \<and> gd_flags gd' = gd_flags gd \<and> gd_sx gd' = gd_sx gd
     \<and> gd_sy gd' = gd_sy gd \<and> gd_hlimit gd' = gd_hlimit gd \<and> gd_hsize gd' = h
     \<and> (\<forall>y < h + gd_sy gd. rows gd' y = R y)"

lemma becomes_atD:
  assumes "becomes_at h gd R gd'"
  shows "grid_ok gd'" "gd_flags gd' = gd_flags gd" "gd_sx gd' = gd_sx gd" "gd_sy gd' = gd_sy gd"
    "gd_hlimit gd' = gd_hlimit gd" "gd_hsize gd' = h"
    "y < h + gd_sy gd \<Longrightarrow> rows gd' y = R y"
  using assms by (auto simp: becomes_at_def)

lemma becomes_at_becomes: "becomes gd R gd' \<Longrightarrow> becomes_at (gd_hsize gd) gd R gd'"
  by (auto simp: becomes_at_def dest: becomesD)

lemma becomes_at_cong:
  "becomes_at h gd R gd' \<Longrightarrow> (\<And>y. y < h + gd_sy gd \<Longrightarrow> R y = S y) \<Longrightarrow> becomes_at h gd S gd'"
  by (simp add: becomes_at_def)

lemma becomes_at_trans:
  assumes "becomes_at h gd R gd'" "becomes_at k gd' S gd''"
    and "\<And>y. y < k + gd_sy gd \<Longrightarrow> S y = T y"
  shows "becomes_at k gd T gd''"
  using assms by (auto simp: becomes_at_def)

definition collect_count :: "grid \<Rightarrow> nat" where
  "collect_count gd = (if gd_hsize gd < gd_hlimit gd then 0 else max 1 (gd_hlimit gd div 10))"

lemma collect_count_le:
  "0 < gd_hlimit gd \<Longrightarrow> collect_count gd \<le> gd_hsize gd"
  "0 < gd_hlimit gd \<Longrightarrow> gd_hsize gd \<le> gd_hlimit gd \<Longrightarrow> gd_hsize gd - collect_count gd < gd_hlimit gd"
  by (auto simp: collect_count_def max_def)

lemma grid_collect_history_runs:
  assumes ok: "grid_ok gd" and lim: "0 < gd_hlimit gd"
  shows "runs (grid_collect_history gd)
    (becomes_at (gd_hsize gd - collect_count gd) gd (\<lambda>y. rows gd (y + collect_count gd)))"
proof (cases "gd_hsize gd < gd_hlimit gd")
  case True
  then show ?thesis using ok
    by (auto simp: grid_collect_history_def collect_count_def intro!: becomes_at_becomes)
next
  case False
  let ?c = "collect_count gd"
  note lt = grid_okD(1) [OF ok]
  have c: "0 < ?c" "?c \<le> gd_hsize gd" using False collect_count_le [OF lim] by (auto simp: collect_count_def)
  have cc: "(if gd_hlimit gd div 10 < 1 then 1 else gd_hlimit gd div 10) = ?c"
    using False by (auto simp: collect_count_def)
  have r: "runs (grid_move_lines 0 ?c (grid_height gd - ?c) gd)
      (becomes gd (move_rows 0 ?c (grid_height gd - ?c) (rows gd)))"
    using c by (intro grid_move_lines_runs ok) auto
  have "becomes_at (gd_hsize gd - ?c) gd (\<lambda>y. rows gd (y + ?c)) (g\<lparr>gd_hsize := gd_hsize g - ?c\<rparr>)"
    if "becomes gd (move_rows 0 ?c (grid_height gd - ?c) (rows gd)) g" for g
    using becomesD(1-7) [OF that] becomesD(8) [OF that] c
    by (auto simp: becomes_at_def grid_ok_def rows_def move_rows_def add.commute)
  moreover have "grid_collect_history gd =
      Option.bind (grid_move_lines 0 ?c (usub (uadd (gd_hsize gd) (gd_sy gd)) ?c) gd)
        (\<lambda>g. Some (g\<lparr>gd_hsize := usub (gd_hsize g) ?c\<rparr>))"
    using False by (simp only: grid_collect_history_def Let_def cc if_False)
  moreover have "usub (gd_hsize gd) ?c = gd_hsize gd - ?c" using c lt by (intro usub_eq) auto
  ultimately show ?thesis
    using c lt r by (auto simp: uadd_eq usub_eq becomesD(5) elim!: runs_mono)
qed

lemma grid_scroll_history_runs:
  assumes ok: "grid_ok gd" and lim: "grid_height gd + 1 < UINT_MOD"
  shows "runs (grid_scroll_history gd) (becomes_at (gd_hsize gd + 1) gd
    (\<lambda>y. if y < grid_height gd then rows gd y else blank_row))"
  using lim grid_okD(2-6) [OF ok]
  by (auto simp: grid_scroll_history_def uadd_eq xrealloc_lines_def becomes_at_def grid_ok_def
      rows_def nth_list_update nth_xrealloc less_Suc_eq Let_def)

text \<open>
  A region upper to lower of the grid moves up, its first row becoming the last of the
  history, the rows above and below the region move down with the start of the screen.
\<close>

definition scroll_rows :: "nat \<Rightarrow> nat \<Rightarrow> nat \<Rightarrow> (nat \<Rightarrow> row_content) \<Rightarrow> nat \<Rightarrow> row_content" where
  "scroll_rows h upper lower R = (\<lambda>y.
     if y < h then R y
     else if y = h then R upper
     else if y \<le> upper then R (y - 1)
     else if y \<le> lower then R y
     else if y = lower + 1 then blank_row
     else R (y - 1))"

lemma grid_scroll_history_region_runs:
  assumes ok: "grid_ok gd" and lim: "grid_height gd + 1 < UINT_MOD"
    and r: "gd_hsize gd \<le> upper" "upper \<le> lower" "lower < grid_height gd"
  shows "runs (grid_scroll_history_region upper lower gd) (becomes_at (gd_hsize gd + 1) gd
    (scroll_rows (gd_hsize gd) upper lower (rows gd)))"
proof -
  let ?h = "gd_hsize gd" and ?n = "grid_height gd"
  define ls1 where "ls1 = xrealloc (?n + 1) (linedata gd)"
  have ls1: "length ls1 = ?n + 1" "\<And>y. y < ?n \<Longrightarrow> ls1 ! y = linedata gd ! y"
    using grid_okD(2) [OF ok] by (simp_all add: ls1_def nth_xrealloc)
  define T where "T = (\<lambda>y. if y < ?h then linedata gd ! y
     else if y = ?h then linedata gd ! upper
     else if y \<le> upper then linedata gd ! (y - 1)
     else if y \<le> lower then linedata gd ! y
     else if y = lower + 1 then grid_line_zero
     else linedata gd ! (y - 1))"
  have T: "line_view (T y) = scroll_rows ?h upper lower (rows gd) y" for y
    by (simp add: T_def scroll_rows_def rows_def)
  have Twf: "y < ?n + 1 \<Longrightarrow> line_wf (T y)" for y
    using grid_okD(6) [OF ok] r by (simp add: T_def)
  have "runs (grid_scroll_history_region upper lower gd)
      (\<lambda>g. \<exists>ls. length ls = ?n + 1 \<and> (\<forall>y < ?n + 1. ls ! y = T y)
        \<and> g = gd\<lparr>linedata := ls, gd_hsize := ?h + 1\<rparr>)"
  proof -
    have u: "uadd upper 1 = upper + 1" "uadd lower 1 = lower + 1" "uadd ?h (gd_sy gd) = ?n"
      "uadd ?n 1 = ?n + 1" "uadd ?h 1 = ?h + 1" "usub (lower + 1) (upper + 1) = lower - upper"
      using r lim by (simp_all add: uadd_eq usub_eq)
    have n: "?n + 1 \<noteq> 0" by simp
    have QI: "length xs = Suc ?n \<Longrightarrow> \<forall>y < Suc ?n. xs ! y = T y \<Longrightarrow>
        \<exists>ls. length ls = Suc ?n \<and> (\<forall>y < Suc ?n. ls ! y = T y) \<and>
          gd\<lparr>linedata := xs, gd_hsize := Suc ?h\<rparr> = gd\<lparr>linedata := ls, gd_hsize := Suc ?h\<rparr>" for xs
      by blast
    show ?thesis
      unfolding grid_scroll_history_region_def Let_def u xrealloc_lines_def if_not_P [OF n]
        ls1_def [symmetric] runs_bind runs_Some
    proof (rule runs_lmove)
      show "?h + 1 + gd_sy gd \<le> length ls1" "?h + gd_sy gd \<le> length ls1" using ls1(1) by simp_all
    next
      fix ls2 assume l2: "length ls2 = length ls1" and
        "\<And>i. i < length ls1 \<Longrightarrow> ls2 ! i =
          (if ?h + 1 \<le> i \<and> i < ?h + 1 + gd_sy gd then ls1 ! (?h + (i - (?h + 1))) else ls1 ! i)"
      then have n2: "i < ?n + 1 \<Longrightarrow> ls2 ! i = (if ?h < i then linedata gd ! (i - 1) else ls1 ! i)" for i
        using ls1 by auto
      obtain L3 where L3: "L3 = ls2[?h := ls2 ! (upper + 1)]" by simp
      have l3: "length L3 = ?n + 1" using l2 ls1(1) by (simp add: L3)
      have n3: "i < ?n + 1 \<Longrightarrow> L3 ! i = (if i = ?h then linedata gd ! upper
          else if ?h < i then linedata gd ! (i - 1) else linedata gd ! i)" for i
        using n2 l2 ls1 r by (auto simp: nth_list_update L3)
      have "runs (lmove (upper + 1) (upper + 1 + 1) (lower - upper) L3)
          (\<lambda>ls4. length ls4 = ?n + 1 \<and> (\<forall>y < ?n + 1. (ls4[lower + 1 := grid_line_zero]) ! y = T y))"
        using r l3 n3 by (intro runs_lmove) (auto simp: T_def nth_list_update)
      then show "runs (lget (upper + 1) ls2) (\<lambda>gl_upper. runs (lput ?h gl_upper ls2)
          (\<lambda>ls3. runs (lmove (upper + 1) (upper + 1 + 1) (lower - upper) ls3)
          (\<lambda>ls4. runs (lput (lower + 1) grid_line_zero ls4)
          (\<lambda>ls5. \<exists>ls. length ls = ?n + 1 \<and> (\<forall>y < ?n + 1. ls ! y = T y)
            \<and> gd\<lparr>linedata := ls5, gd_hsize := ?h + 1\<rparr> = gd\<lparr>linedata := ls, gd_hsize := ?h + 1\<rparr>))))"
        using l2 ls1(1) r by (auto simp: L3 elim!: runs_mono intro!: QI)
    qed
  qed
  then show ?thesis
    using T Twf lim grid_okD(1-5) [OF ok]
    by (auto simp: becomes_at_def grid_ok_def rows_def elim!: runs_mono)
qed

end
