(* ===== verification/Grid_View.thy ===== *)
theory Grid_View
  imports Grid_Facts
begin

text \<open>
  grid-view.c: the operations of grid.c in the coordinates of the visible screen, the
  scrolling of a region and the insertion and deletion of lines and cells.

  The visible part of the content of a grid is \<open>view\<close>; \<open>view_becomes gd V gd'\<close> says that
  an operation leaves the view V and keeps the history and the dimensions. \<open>insert_rows\<close>,
  \<open>delete_rows\<close>, \<open>insert_blanks\<close> and \<open>delete_blanks\<close> are the abstract operations on a
  view and on a row that the functions implement.
\<close>

section \<open>Operations\<close>

definition grid_view_y :: "grid \<Rightarrow> nat \<Rightarrow> nat" where
  "grid_view_y gd y = uadd (gd_hsize gd) y"

definition grid_view_peek_cell :: "grid \<Rightarrow> nat \<Rightarrow> nat \<Rightarrow> grid_cell" where
  "grid_view_peek_cell gd px py = grid_peek_cell gd px (grid_view_y gd py)"

definition grid_view_get_cell :: "grid \<Rightarrow> nat \<Rightarrow> nat \<Rightarrow> (grid \<times> grid_cell option) option" where
  "grid_view_get_cell gd px py = grid_get_cell gd px (grid_view_y gd py)"

definition grid_view_set_cell :: "nat \<Rightarrow> nat \<Rightarrow> grid_cell \<Rightarrow> grid \<Rightarrow> grid option" where
  "grid_view_set_cell px py gc gd = grid_set_cell px (grid_view_y gd py) gc gd"

definition grid_view_peek_utf8 :: "grid \<Rightarrow> nat \<Rightarrow> nat \<Rightarrow> grid_utf8 option" where
  "grid_view_peek_utf8 gd px py = grid_peek_utf8 gd px (grid_view_y gd py)"

definition grid_view_get_utf8 :: "grid \<Rightarrow> nat \<Rightarrow> nat \<Rightarrow> (grid \<times> grid_utf8 option) option" where
  "grid_view_get_utf8 gd px py = grid_get_utf8 gd px (grid_view_y gd py)"

definition grid_view_set_utf8 :: "nat \<Rightarrow> nat \<Rightarrow> grid_utf8 \<Rightarrow> grid \<Rightarrow> grid option" where
  "grid_view_set_utf8 px py gu gd = grid_set_utf8 px (grid_view_y gd py) gu gd"

text \<open>The caller's write through the pointer that grid_view_get_cell or grid_view_get_utf8 returned.\<close>

definition grid_view_put_cell :: "nat \<Rightarrow> nat \<Rightarrow> grid_cell \<Rightarrow> grid \<Rightarrow> grid option" where
  "grid_view_put_cell px py gc gd = grid_put_cell px (grid_view_y gd py) gc gd"

definition grid_view_put_utf8 :: "nat \<Rightarrow> nat \<Rightarrow> grid_utf8 \<Rightarrow> grid \<Rightarrow> grid option" where
  "grid_view_put_utf8 px py gu gd = grid_put_utf8 px (grid_view_y gd py) gu gd"

definition grid_view_clear_history :: "grid \<Rightarrow> grid option" where
  "grid_view_clear_history gd = do {
     last \<leftarrow> foldM (\<lambda>yy last. do {
         gl \<leftarrow> lget (grid_view_y gd yy) (linedata gd);
         Some (if cellsize gl \<noteq> 0 \<or> utf8size gl \<noteq> 0 then uadd yy 1 else last)
       }) [0..<gd_sy gd] 0;
     if last = 0 then Some gd
     else foldM (\<lambda>yy. grid_scroll_history) [0..<last] gd
   }"

definition grid_view_clear :: "nat \<Rightarrow> nat \<Rightarrow> nat \<Rightarrow> nat \<Rightarrow> grid \<Rightarrow> grid option" where
  "grid_view_clear px py nx ny gd = grid_clear px (grid_view_y gd py) nx ny gd"

definition grid_view_scroll_region_up :: "nat \<Rightarrow> nat \<Rightarrow> grid \<Rightarrow> grid option" where
  "grid_view_scroll_region_up rupper rlower gd =
     (if has_history gd then do {
        gd1 \<leftarrow> grid_collect_history gd;
        if rupper = 0 \<and> rlower = usub (gd_sy gd1) 1 then grid_scroll_history gd1
        else grid_scroll_history_region (grid_view_y gd1 rupper) (grid_view_y gd1 rlower) gd1
      }
      else
        let rupper = grid_view_y gd rupper; rlower = grid_view_y gd rlower in
        grid_move_lines rupper (uadd rupper 1) (usub rlower rupper) gd)"

definition grid_view_scroll_region_down :: "nat \<Rightarrow> nat \<Rightarrow> grid \<Rightarrow> grid option" where
  "grid_view_scroll_region_down rupper rlower gd =
     (let rupper = grid_view_y gd rupper; rlower = grid_view_y gd rlower in
      grid_move_lines (uadd rupper 1) rupper (usub rlower rupper) gd)"

definition grid_view_insert_lines :: "nat \<Rightarrow> nat \<Rightarrow> grid \<Rightarrow> grid option" where
  "grid_view_insert_lines py ny gd =
     (let py = grid_view_y gd py; sy = grid_view_y gd (gd_sy gd) in
      grid_move_lines (uadd py ny) py (usub (usub sy py) ny) gd)"

definition grid_view_insert_lines_region :: "nat \<Rightarrow> nat \<Rightarrow> nat \<Rightarrow> grid \<Rightarrow> grid option" where
  "grid_view_insert_lines_region rlower py ny gd =
     (let rlower = grid_view_y gd rlower; py = grid_view_y gd py;
          ny2 = usub (usub (uadd rlower 1) py) ny in do {
        gd1 \<leftarrow> grid_move_lines (usub (uadd rlower 1) ny2) py ny2 gd;
        grid_clear 0 (uadd py ny2) (gd_sx gd1) (usub ny ny2) gd1
      })"

definition grid_view_delete_lines :: "nat \<Rightarrow> nat \<Rightarrow> grid \<Rightarrow> grid option" where
  "grid_view_delete_lines py ny gd =
     (let py = grid_view_y gd py; sy = grid_view_y gd (gd_sy gd) in do {
        gd1 \<leftarrow> grid_move_lines py (uadd py ny) (usub (usub sy py) ny) gd;
        grid_clear 0 (usub sy ny) (gd_sx gd1) (usub (uadd py ny) (usub sy ny)) gd1
      })"

definition grid_view_delete_lines_region :: "nat \<Rightarrow> nat \<Rightarrow> nat \<Rightarrow> grid \<Rightarrow> grid option" where
  "grid_view_delete_lines_region rlower py ny gd =
     (let rlower = grid_view_y gd rlower; py = grid_view_y gd py;
          ny2 = usub (usub (uadd rlower 1) py) ny in do {
        gd1 \<leftarrow> grid_move_lines py (uadd py ny) ny2 gd;
        grid_clear 0 (uadd py ny2) (gd_sx gd1) (usub ny ny2) gd1
      })"

definition grid_view_insert_cells :: "nat \<Rightarrow> nat \<Rightarrow> nat \<Rightarrow> grid \<Rightarrow> grid option" where
  "grid_view_insert_cells px py nx gd =
     (let py = grid_view_y gd py; sx = gd_sx gd in
      if px = usub sx 1 then grid_clear px py 1 1 gd
      else grid_move_cells (uadd px nx) px py (usub (usub sx px) nx) gd)"

definition grid_view_delete_cells :: "nat \<Rightarrow> nat \<Rightarrow> nat \<Rightarrow> grid \<Rightarrow> grid option" where
  "grid_view_delete_cells px py nx gd =
     (let py = grid_view_y gd py; sx = gd_sx gd in do {
        gd1 \<leftarrow> grid_move_cells px (uadd px nx) py (usub (usub sx px) nx) gd;
        grid_clear (usub sx nx) py (usub (uadd px nx) (usub sx nx)) 1 gd1
      })"

definition grid_view_string_cells :: "grid \<Rightarrow> nat \<Rightarrow> nat \<Rightarrow> nat \<Rightarrow> byte list option" where
  "grid_view_string_cells gd px py nx = grid_string_cells gd px (grid_view_y gd py) nx"

section \<open>The visible content\<close>

definition view :: "grid \<Rightarrow> nat \<Rightarrow> row_content" where
  "view gd y = rows gd (gd_hsize gd + y)"

definition view_becomes :: "grid \<Rightarrow> (nat \<Rightarrow> row_content) \<Rightarrow> grid \<Rightarrow> bool" where
  "view_becomes gd V gd' \<longleftrightarrow> grid_ok gd' \<and> same_dims gd gd'
     \<and> (\<forall>y < gd_hsize gd. rows gd' y = rows gd y) \<and> (\<forall>y < gd_sy gd. view gd' y = V y)"

lemma view_becomesI:
  assumes "becomes gd R gd'" "\<And>y. y < gd_hsize gd \<Longrightarrow> R y = rows gd y"
    and "\<And>y. y < gd_sy gd \<Longrightarrow> R (gd_hsize gd + y) = V y"
  shows "view_becomes gd V gd'"
  using assms by (auto simp: view_becomes_def becomes_def view_def same_dims_def)

lemma view_becomesD:
  assumes "view_becomes gd V gd'"
  shows "grid_ok gd'" "same_dims gd gd'" "gd_sx gd' = gd_sx gd" "gd_sy gd' = gd_sy gd"
    "gd_hsize gd' = gd_hsize gd" "gd_hlimit gd' = gd_hlimit gd" "gd_flags gd' = gd_flags gd"
    "y < gd_hsize gd \<Longrightarrow> rows gd' y = rows gd y" "y < gd_sy gd \<Longrightarrow> view gd' y = V y"
  using assms by (auto simp: view_becomes_def same_dims_def)

lemma view_becomes_refl: "grid_ok gd \<Longrightarrow> (\<And>y. y < gd_sy gd \<Longrightarrow> V y = view gd y) \<Longrightarrow> view_becomes gd V gd"
  by (simp add: view_becomes_def)

lemma view_becomes_trans:
  assumes "view_becomes gd V gd'" "view_becomes gd' W gd''" "\<And>y. y < gd_sy gd \<Longrightarrow> W y = X y"
  shows "view_becomes gd X gd''"
  using assms by (auto simp: view_becomes_def same_dims_def)

lemma view_becomes_cong:
  "view_becomes gd V gd' \<Longrightarrow> (\<And>y. y < gd_sy gd \<Longrightarrow> V y = W y) \<Longrightarrow> view_becomes gd W gd'"
  by (simp add: view_becomes_def)

lemma grid_view_y_eq [simp]: "grid_ok gd \<Longrightarrow> y \<le> gd_sy gd \<Longrightarrow> grid_view_y gd y = gd_hsize gd + y"
  using grid_okD(1) [of gd] by (simp add: grid_view_y_def uadd_eq)

lemma grid_view_peek_cell_eq:
  "grid_ok gd \<Longrightarrow> py < gd_sy gd \<Longrightarrow> grid_view_peek_cell gd px py = fst (fst (view gd py) px)"
  by (simp add: grid_view_peek_cell_def grid_peek_cell_def view_def rows_def line_view_def)

text \<open>The abstract operations on the rows before e, and on the columns before e.\<close>

definition insert_rows :: "nat \<Rightarrow> nat \<Rightarrow> nat \<Rightarrow> (nat \<Rightarrow> row_content) \<Rightarrow> nat \<Rightarrow> row_content" where
  "insert_rows e py ny V = (\<lambda>y. if py \<le> y \<and> y < e then if y < py + ny then blank_row else V (y - ny) else V y)"

definition delete_rows :: "nat \<Rightarrow> nat \<Rightarrow> nat \<Rightarrow> (nat \<Rightarrow> row_content) \<Rightarrow> nat \<Rightarrow> row_content" where
  "delete_rows e py ny V = (\<lambda>y. if py \<le> y \<and> y < e then if y + ny < e then V (y + ny) else blank_row else V y)"

definition delete_blanks :: "nat \<Rightarrow> nat \<Rightarrow> nat \<Rightarrow> (nat \<Rightarrow> cell_content) \<Rightarrow> nat \<Rightarrow> cell_content" where
  "delete_blanks e px nx f = (\<lambda>x. if px \<le> x \<and> x < e then if x + nx < e then f (x + nx) else blank else f x)"

text \<open>
  Insertion as the code does it: columns (rows) from px to px + nx that nothing has been
  moved from keep what they showed, except that an insertion at the last column blanks it.
\<close>

definition insert_blanks :: "nat \<Rightarrow> nat \<Rightarrow> nat \<Rightarrow> (nat \<Rightarrow> cell_content) \<Rightarrow> nat \<Rightarrow> cell_content" where
  "insert_blanks e px nx f = (\<lambda>x.
     if px \<le> x \<and> x < e then if x < px + nx then if x < e - nx \<or> px + 1 = e then blank else f x else f (x - nx) else f x)"

definition insert_rows_stale :: "nat \<Rightarrow> nat \<Rightarrow> nat \<Rightarrow> (nat \<Rightarrow> row_content) \<Rightarrow> nat \<Rightarrow> row_content" where
  "insert_rows_stale e py ny V = (\<lambda>y.
     if py \<le> y \<and> y < e then if y < py + ny then if y < e - ny then blank_row else V y else V (y - ny) else V y)"

lemma insert_rows_stale_eq: "py + 2 * ny \<le> e \<Longrightarrow> insert_rows_stale e py ny V = insert_rows e py ny V"
  by (auto simp: insert_rows_stale_def insert_rows_def fun_eq_iff)

section \<open>Clearing\<close>

lemma grid_view_clear_runs:
  assumes ok: "grid_ok gd" and b: "py + ny \<le> gd_sy gd" and n: "px + nx < UINT_MOD"
  shows "runs (grid_view_clear px py nx ny gd) (view_becomes gd
    (\<lambda>y. if py \<le> y \<and> y < py + ny then clear_row (gd_sx gd) px nx (view gd y) else view gd y))"
  using grid_clear_runs [OF ok _ n, of "gd_hsize gd + py" ny] b ok
  by (auto simp: grid_view_clear_def view_def elim!: runs_mono view_becomesI)

section \<open>Inserting and deleting lines\<close>

lemma uadd_usub_sum: "a < UINT_MOD \<Longrightarrow> b < UINT_MOD \<Longrightarrow> p + b < UINT_MOD \<Longrightarrow>
   uadd (p + b) (usub a b) = (p + a) mod UINT_MOD"
proof (cases "b \<le> a")
  case True
  moreover assume "a < UINT_MOD"
  ultimately show ?thesis by (simp add: usub_eq uadd_def)
next
  case False
  assume "b < UINT_MOD"
  with False have "p + b + usub a b = (p + a) + UINT_MOD" by (simp add: usub_wrap)
  then show ?thesis by (simp only: uadd_def mod_add_self2)
qed

text \<open>The clear that follows a move: rows a to b, none if the count has wrapped.\<close>

lemma clear_rest_runs:
  assumes ok: "grid_ok gd" and ab: "a \<le> grid_height gd" "b \<le> grid_height gd"
    and n: "uadd a n = b" "n < UINT_MOD"
  shows "runs (grid_clear 0 a (gd_sx gd) n gd)
    (becomes gd (\<lambda>y. if a \<le> y \<and> y < b then blank_row else rows gd y))"
proof (cases "b \<le> a")
  case True
  then show ?thesis using ok n
    by (auto simp: grid_clear_wrap_lines intro!: becomes_refl)
next
  case False
  note lt = grid_okD(1) [OF ok]
  have "n = b - a"
  proof (cases "a + n < UINT_MOD")
    case True
    then show ?thesis using n by (simp add: uadd_eq)
  next
    case f: False
    moreover have "a + n - UINT_MOD < UINT_MOD" using n ab lt by linarith
    ultimately have "b = a + n - UINT_MOD" using n by (simp add: uadd_def mod_if)
    with f n False show ?thesis by simp
  qed
  then show ?thesis
    using grid_clear_runs [of gd a n 0 "gd_sx gd"] ok ab grid_okD(4) [OF ok] False
    by (auto simp: clear_row_def elim!: runs_mono becomes_cong)
qed

lemma move_then_clear_runs:
  assumes ok: "grid_ok gd" and m: "py + ny \<le> grid_height gd" "dy + ny \<le> grid_height gd" "py \<noteq> dy"
    and c: "a \<le> grid_height gd" "b \<le> grid_height gd" "uadd a n = b" "n < UINT_MOD"
  shows "runs (do { gd1 \<leftarrow> grid_move_lines dy py ny gd; grid_clear 0 a (gd_sx gd1) n gd1 })
    (becomes gd (\<lambda>y. if a \<le> y \<and> y < b then blank_row else move_rows dy py ny (rows gd) y))"
proof -
  have "runs (grid_clear 0 a (gd_sx g) n g)
      (becomes gd (\<lambda>y. if a \<le> y \<and> y < b then blank_row else move_rows dy py ny (rows gd) y))"
    if B: "becomes gd (move_rows dy py ny (rows gd)) g" for g
    using becomesD(4,5) [OF B] becomesD(8) [OF B] c
    by (intro runs_mono [OF clear_rest_runs [OF becomesD(1) [OF B], of a b n]])
      (auto elim!: becomes_trans [OF B])
  then show ?thesis using grid_move_lines_runs [OF ok m] by (auto elim!: runs_mono)
qed

lemma grid_view_insert_lines_runs:
  assumes ok: "grid_ok gd" and b: "py + ny \<le> gd_sy gd" "0 < ny"
  shows "runs (grid_view_insert_lines py ny gd)
    (view_becomes gd (insert_rows_stale (gd_sy gd) py ny (view gd)))"
proof -
  note lt = grid_okD(1) [OF ok]
  have v: "grid_view_y gd (gd_sy gd) = grid_height gd" "grid_view_y gd py = gd_hsize gd + py"
    using ok b by simp_all
  have u: "uadd (gd_hsize gd + py) ny = gd_hsize gd + py + ny"
    "usub (usub (grid_height gd) (gd_hsize gd + py)) ny = gd_sy gd - py - ny"
    using lt b by (simp_all add: uadd_eq usub_eq)
  have m: "runs (grid_move_lines (gd_hsize gd + py + ny) (gd_hsize gd + py) (gd_sy gd - py - ny) gd)
      (becomes gd (move_rows (gd_hsize gd + py + ny) (gd_hsize gd + py) (gd_sy gd - py - ny) (rows gd)))"
    using b by (intro grid_move_lines_runs ok) auto
  show ?thesis
    unfolding grid_view_insert_lines_def Let_def v u
    by (rule runs_mono [OF m], erule view_becomesI)
      (use b in \<open>auto simp: move_rows_def insert_rows_stale_def view_def algebra_simps\<close>)
qed

lemma grid_view_insert_lines_region_runs:
  assumes ok: "grid_ok gd" and b: "py + ny \<le> rlower + 1" "rlower < gd_sy gd" "0 < ny"
  shows "runs (grid_view_insert_lines_region rlower py ny gd)
    (view_becomes gd (insert_rows (rlower + 1) py ny (view gd)))"
proof -
  note lt = grid_okD(1) [OF ok]
  let ?h = "gd_hsize gd" and ?n2 = "rlower + 1 - py - ny"
  have v: "grid_view_y gd rlower = gd_hsize gd + rlower" "grid_view_y gd py = gd_hsize gd + py"
    using ok b by simp_all
  have u: "uadd (?h + rlower) 1 = ?h + rlower + 1"
    "usub (usub (?h + rlower + 1) (?h + py)) ny = ?n2"
    "usub (?h + rlower + 1) ?n2 = ?h + py + ny" "uadd (?h + py) ?n2 = ?h + py + ?n2"
    using lt b by (simp_all add: uadd_eq usub_eq)
  have m: "runs (do { gd1 \<leftarrow> grid_move_lines (?h + py + ny) (?h + py) ?n2 gd;
        grid_clear 0 (?h + py + ?n2) (gd_sx gd1) (usub ny ?n2) gd1 })
      (becomes gd (\<lambda>y. if ?h + py + ?n2 \<le> y \<and> y < ?h + py + ny then blank_row
        else move_rows (?h + py + ny) (?h + py) ?n2 (rows gd) y))"
    using b lt uadd_usub_sum [of ny ?n2 "?h + py"]
    by (intro move_then_clear_runs ok) auto
  show ?thesis
    unfolding grid_view_insert_lines_region_def Let_def v u
    by (rule runs_mono [OF m], erule view_becomesI)
      (use b in \<open>auto simp: move_rows_def insert_rows_def view_def algebra_simps\<close>)
qed

lemma grid_view_delete_lines_region_runs:
  assumes ok: "grid_ok gd" and b: "py + ny \<le> rlower + 1" "rlower < gd_sy gd" "0 < ny"
  shows "runs (grid_view_delete_lines_region rlower py ny gd)
    (view_becomes gd (delete_rows (rlower + 1) py ny (view gd)))"
proof -
  note lt = grid_okD(1) [OF ok]
  let ?h = "gd_hsize gd" and ?n2 = "rlower + 1 - py - ny"
  have v: "grid_view_y gd rlower = gd_hsize gd + rlower" "grid_view_y gd py = gd_hsize gd + py"
    using ok b by simp_all
  have u: "uadd (?h + rlower) 1 = ?h + rlower + 1"
    "usub (usub (?h + rlower + 1) (?h + py)) ny = ?n2"
    "uadd (?h + py) ny = ?h + py + ny" "uadd (?h + py) ?n2 = ?h + py + ?n2"
    using lt b by (simp_all add: uadd_eq usub_eq)
  have m: "runs (do { gd1 \<leftarrow> grid_move_lines (?h + py) (?h + py + ny) ?n2 gd;
        grid_clear 0 (?h + py + ?n2) (gd_sx gd1) (usub ny ?n2) gd1 })
      (becomes gd (\<lambda>y. if ?h + py + ?n2 \<le> y \<and> y < ?h + py + ny then blank_row
        else move_rows (?h + py) (?h + py + ny) ?n2 (rows gd) y))"
    using b lt uadd_usub_sum [of ny ?n2 "?h + py"]
    by (intro move_then_clear_runs ok) auto
  show ?thesis
    unfolding grid_view_delete_lines_region_def Let_def v u
    by (rule runs_mono [OF m], erule view_becomesI)
      (use b in \<open>auto simp: move_rows_def delete_rows_def view_def algebra_simps\<close>)
qed

lemma grid_view_delete_lines_runs:
  assumes ok: "grid_ok gd" and b: "py + ny \<le> gd_sy gd" "0 < ny"
  shows "runs (grid_view_delete_lines py ny gd)
    (view_becomes gd (delete_rows (gd_sy gd) py ny (view gd)))"
proof -
  note lt = grid_okD(1) [OF ok]
  let ?h = "gd_hsize gd" and ?n2 = "gd_sy gd - py - ny"
  have v: "grid_view_y gd (gd_sy gd) = grid_height gd" "grid_view_y gd py = gd_hsize gd + py"
    using ok b by simp_all
  have u: "usub (usub (grid_height gd) (?h + py)) ny = ?n2"
    "uadd (?h + py) ny = ?h + py + ny" "usub (grid_height gd) ny = grid_height gd - ny"
    using lt b by (simp_all add: uadd_eq usub_eq)
  have m: "runs (do { gd1 \<leftarrow> grid_move_lines (?h + py) (?h + py + ny) ?n2 gd;
        grid_clear 0 (grid_height gd - ny) (gd_sx gd1) (usub (?h + py + ny) (grid_height gd - ny)) gd1 })
      (becomes gd (\<lambda>y. if grid_height gd - ny \<le> y \<and> y < ?h + py + ny then blank_row
        else move_rows (?h + py) (?h + py + ny) ?n2 (rows gd) y))"
    using b lt uadd_usub_cancel [of "?h + py + ny" "grid_height gd - ny"]
    by (intro move_then_clear_runs ok) auto
  show ?thesis
    unfolding grid_view_delete_lines_def Let_def v u
    by (rule runs_mono [OF m], erule view_becomesI)
      (use b in \<open>auto simp: move_rows_def delete_rows_def view_def algebra_simps\<close>)
qed

section \<open>Scrolling\<close>

lemma grid_view_scroll_region_down_runs:
  assumes ok: "grid_ok gd" and b: "rupper < rlower" "rlower < gd_sy gd"
  shows "runs (grid_view_scroll_region_down rupper rlower gd)
    (view_becomes gd (insert_rows (rlower + 1) rupper 1 (view gd)))"
proof -
  note lt = grid_okD(1) [OF ok]
  let ?h = "gd_hsize gd"
  have v: "grid_view_y gd rlower = ?h + rlower" "grid_view_y gd rupper = ?h + rupper"
    using ok b by simp_all
  have u: "uadd (?h + rupper) 1 = ?h + rupper + 1" "usub (?h + rlower) (?h + rupper) = rlower - rupper"
    using lt b by (simp_all add: uadd_eq usub_eq)
  have m: "runs (grid_move_lines (?h + rupper + 1) (?h + rupper) (rlower - rupper) gd)
      (becomes gd (move_rows (?h + rupper + 1) (?h + rupper) (rlower - rupper) (rows gd)))"
    using b by (intro grid_move_lines_runs ok) auto
  show ?thesis
    unfolding grid_view_scroll_region_down_def Let_def v u
    by (rule runs_mono [OF m], erule view_becomesI)
      (use b in \<open>auto simp: move_rows_def insert_rows_def view_def\<close>)
qed

lemma grid_view_scroll_region_up_no_history_runs:
  assumes ok: "grid_ok gd" and b: "rupper < rlower" "rlower < gd_sy gd" and nh: "\<not> has_history gd"
  shows "runs (grid_view_scroll_region_up rupper rlower gd)
    (view_becomes gd (delete_rows (rlower + 1) rupper 1 (view gd)))"
proof -
  note lt = grid_okD(1) [OF ok]
  let ?h = "gd_hsize gd"
  have v: "grid_view_y gd rlower = ?h + rlower" "grid_view_y gd rupper = ?h + rupper"
    using ok b by simp_all
  have u: "uadd (?h + rupper) 1 = ?h + rupper + 1" "usub (?h + rlower) (?h + rupper) = rlower - rupper"
    using lt b by (simp_all add: uadd_eq usub_eq)
  have m: "runs (grid_move_lines (?h + rupper) (?h + rupper + 1) (rlower - rupper) gd)
      (becomes gd (move_rows (?h + rupper) (?h + rupper + 1) (rlower - rupper) (rows gd)))"
    using b by (intro grid_move_lines_runs ok) auto
  show ?thesis
    unfolding grid_view_scroll_region_up_def Let_def v u if_not_P [OF nh]
    by (rule runs_mono [OF m], erule view_becomesI)
      (use b in \<open>auto simp: move_rows_def delete_rows_def view_def\<close>)
qed

text \<open>
  With history: the oldest rows may be collected, the row at the top of the region is
  appended to the history, and the region moves up.
\<close>

definition scrolled_up :: "nat \<Rightarrow> nat \<Rightarrow> grid \<Rightarrow> grid \<Rightarrow> bool" where
  "scrolled_up rupper rlower gd gd' \<longleftrightarrow>
     (let c = collect_count gd; h = gd_hsize gd - c in
      grid_ok gd' \<and> gd_flags gd' = gd_flags gd \<and> gd_sx gd' = gd_sx gd \<and> gd_sy gd' = gd_sy gd
      \<and> gd_hlimit gd' = gd_hlimit gd \<and> gd_hsize gd' = h + 1
      \<and> (\<forall>y < h. rows gd' y = rows gd (y + c)) \<and> rows gd' h = view gd rupper
      \<and> (\<forall>y < gd_sy gd. view gd' y = delete_rows (rlower + 1) rupper 1 (view gd) y))"

lemma grid_view_scroll_region_up_runs:
  assumes ok: "grid_ok gd" and b: "rupper \<le> rlower" "rlower < gd_sy gd" and hi: "has_history gd"
    and lim: "0 < gd_hlimit gd" "grid_height gd + 1 < UINT_MOD"
  shows "runs (grid_view_scroll_region_up rupper rlower gd) (scrolled_up rupper rlower gd)"
proof -
  let ?c = "collect_count gd"
  let ?h = "gd_hsize gd - ?c"
  have step: "runs (if rupper = 0 \<and> rlower = usub (gd_sy g) 1 then grid_scroll_history g
        else grid_scroll_history_region (grid_view_y g rupper) (grid_view_y g rlower) g)
      (scrolled_up rupper rlower gd)" if C: "becomes_at ?h gd (\<lambda>y. rows gd (y + ?c)) g" for g
  proof -
    note g = becomes_atD(1-6) [OF C] and gr = becomes_atD(7) [OF C]
    have c: "?c \<le> gd_hsize gd" by (rule collect_count_le(1) [OF lim(1)])
    have sy: "usub (gd_sy g) 1 = gd_sy gd - 1"
      using grid_okD(1,3) [OF ok] g by (simp add: usub_eq)
    have lim': "grid_height g + 1 < UINT_MOD" using g lim c by simp
    show ?thesis
    proof (cases "rupper = 0 \<and> rlower = gd_sy gd - 1")
      case True
      have "scrolled_up rupper rlower gd g'"
        if "becomes_at (gd_hsize g + 1) g (\<lambda>y. if y < grid_height g then rows g y else blank_row) g'" for g'
        using becomes_atD(1-6) [OF that] becomes_atD(7) [OF that] True g gr c grid_okD(3) [OF ok] b
        by (auto simp: scrolled_up_def Let_def view_def delete_rows_def add.commute)
      then show ?thesis
        unfolding sy if_P [OF True]
        using True grid_scroll_history_runs [OF g(1) lim'] by (auto elim!: runs_mono)
    next
      case False
      have v: "grid_view_y g rupper = ?h + rupper" "grid_view_y g rlower = ?h + rlower"
        using g b by simp_all
      have "scrolled_up rupper rlower gd g'"
        if S: "becomes_at (gd_hsize g + 1) g (scroll_rows (gd_hsize g) (?h + rupper) (?h + rlower) (rows g)) g'" for g'
      proof -
        note s = becomes_atD(1-6) [OF S] and sr = becomes_atD(7) [OF S]
        have G: "rows g (?h + y) = view gd y" if "y < gd_sy gd" for y
          using gr [of "?h + y"] that c by (simp add: view_def)
        have "rows g' y = rows gd (y + ?c)" if "y < ?h" for y
          using sr [of y] gr [of y] that g by (simp add: scroll_rows_def)
        moreover have "rows g' ?h = view gd rupper"
          using sr [of ?h] G [of rupper] g b by (simp add: scroll_rows_def)
        moreover have "view g' y = delete_rows (rlower + 1) rupper 1 (view gd) y" if "y < gd_sy gd" for y
          using sr [of "?h + 1 + y"] G [of y] G [of "y + 1"] that g s b
          by (auto simp: scroll_rows_def delete_rows_def view_def [of g'])
        ultimately show ?thesis
          using s g by (simp add: scrolled_up_def Let_def)
      qed
      moreover have "runs (grid_scroll_history_region (?h + rupper) (?h + rlower) g)
          (becomes_at (gd_hsize g + 1) g (scroll_rows (gd_hsize g) (?h + rupper) (?h + rlower) (rows g)))"
        using g b by (intro grid_scroll_history_region_runs lim') auto
      ultimately show ?thesis unfolding sy if_not_P [OF False] v by (auto elim!: runs_mono)
    qed
  qed
  show ?thesis
    unfolding grid_view_scroll_region_up_def if_P [OF hi] runs_bind
    by (rule runs_mono [OF grid_collect_history_runs [OF ok lim(1)]], rule step)
qed

section \<open>Inserting and deleting cells\<close>

definition on_row :: "nat \<Rightarrow> (row_content \<Rightarrow> row_content) \<Rightarrow> (nat \<Rightarrow> row_content) \<Rightarrow> nat \<Rightarrow> row_content" where
  "on_row py f V = V(py := f (V py))"

abbreviation on_cells :: "((nat \<Rightarrow> cell_content) \<Rightarrow> nat \<Rightarrow> cell_content) \<Rightarrow> row_content \<Rightarrow> row_content" where
  "on_cells f r \<equiv> (f (fst r), snd r)"

lemma view_of_row:
  assumes "becomes gd ((rows gd)(gd_hsize gd + py := f (rows gd (gd_hsize gd + py)))) gd'"
  shows "view_becomes gd (on_row py f (view gd)) gd'"
  by (rule view_becomesI [OF assms]) (auto simp: on_row_def view_def)

lemma grid_view_insert_cells_runs:
  assumes ok: "grid_ok gd" and y: "py < gd_sy gd" and b: "px + nx \<le> gd_sx gd" "0 < nx" "1 < gd_sx gd"
  shows "runs (grid_view_insert_cells px py nx gd)
    (view_becomes gd (on_row py (on_cells (insert_blanks (gd_sx gd) px nx)) (view gd)))"
proof -
  let ?h = "gd_hsize gd" and ?n = "gd_sx gd - px - nx"
  note sx = grid_okD(4) [OF ok]
  have v: "grid_view_y gd py = ?h + py" using ok y by simp
  have u: "usub (gd_sx gd) 1 = gd_sx gd - 1" "uadd px nx = px + nx" "usub (usub (gd_sx gd) px) nx = ?n"
    using b sx by (simp_all add: usub_eq uadd_eq)
  show ?thesis
  proof (cases "px = gd_sx gd - 1")
    case True
    have m: "runs (grid_clear px (?h + py) 1 1 gd) (becomes gd
        (\<lambda>y. if ?h + py \<le> y \<and> y < ?h + py + 1 then clear_row (gd_sx gd) px 1 (rows gd y) else rows gd y))"
      using b y sx by (intro grid_clear_runs ok) auto
    show ?thesis
      unfolding grid_view_insert_cells_def Let_def v u if_P [OF True]
      by (rule runs_mono [OF m], rule view_of_row, erule becomes_cong)
        (use True b in \<open>auto simp: clear_row_def insert_blanks_def fill_def fun_eq_iff\<close>)
  next
    case False
    have m: "runs (grid_move_cells (px + nx) px (?h + py) ?n gd) (becomes gd ((rows gd)(?h + py :=
        (move_cells (px + nx) px ?n (fst (rows gd (?h + py))), snd (rows gd (?h + py))))))"
      using b y sx by (intro grid_move_cells_runs ok) auto
    show ?thesis
      unfolding grid_view_insert_cells_def Let_def v u if_not_P [OF False]
      by (rule runs_mono [OF m], rule view_of_row, erule becomes_cong)
        (use False b in \<open>auto simp: move_cells_def insert_blanks_def fun_eq_iff\<close>)
  qed
qed

lemma grid_view_delete_cells_runs:
  assumes ok: "grid_ok gd" and y: "py < gd_sy gd" and b: "px + nx \<le> gd_sx gd" "0 < nx"
  shows "runs (grid_view_delete_cells px py nx gd) (view_becomes gd (on_row py
    (\<lambda>r. if px = 0 \<and> nx = gd_sx gd then blank_row else on_cells (delete_blanks (gd_sx gd) px nx) r) (view gd)))"
proof -
  let ?h = "gd_hsize gd" and ?sx = "gd_sx gd"
  let ?n = "?sx - px - nx" and ?f = "\<lambda>r. if px = 0 \<and> nx = gd_sx gd then blank_row
    else on_cells (delete_blanks (gd_sx gd) px nx) r"
  note sx = grid_okD(4) [OF ok]
  have v: "grid_view_y gd py = ?h + py" using ok y by simp
  have u: "usub ?sx nx = ?sx - nx" "uadd px nx = px + nx" "usub (usub ?sx px) nx = ?n"
    using b sx by (simp_all add: usub_eq uadd_eq)
  let ?R = "(rows gd)(?h + py := (move_cells px (px + nx) ?n (fst (rows gd (?h + py))), snd (rows gd (?h + py))))"
  have m: "runs (grid_move_cells px (px + nx) (?h + py) ?n gd) (becomes gd ?R)"
    using b y sx by (intro grid_move_cells_runs ok) auto
  have "runs (grid_clear (?sx - nx) (?h + py) (usub (px + nx) (?sx - nx)) 1 g)
      (view_becomes gd (on_row py ?f (view gd)))" if B: "becomes gd ?R g" for g
  proof -
    have g: "grid_ok g" "?h + py < grid_height g" "gd_sx g = ?sx" "rows g (?h + py) = ?R (?h + py)"
      using becomesD(1,3,4,5) [OF B] becomesD(8) [OF B, of "?h + py"] y by simp_all
    let ?S = "if ?sx - nx < px + nx then
        (\<lambda>y. if ?h + py \<le> y \<and> y < ?h + py + 1 then clear_row ?sx (?sx - nx) (px + nx - (?sx - nx)) (rows g y) else rows g y)
      else rows g"
    have c: "runs (grid_clear (?sx - nx) (?h + py) (usub (px + nx) (?sx - nx)) 1 g) (becomes g ?S)"
    proof (cases "?sx - nx < px + nx")
      case True
      then have "usub (px + nx) (?sx - nx) = px + nx - (?sx - nx)" using b sx by (intro usub_eq) auto
      then show ?thesis using True grid_clear_runs [OF g(1), of "?h + py" 1 "?sx - nx" "px + nx - (?sx - nx)", unfolded g(3)] g b sx
        by simp
    next
      case False
      moreover have "uadd (?sx - nx) (usub (px + nx) (?sx - nx)) = px + nx"
        using b sx by (intro uadd_usub_cancel) auto
      ultimately show ?thesis using grid_clear_wrap_cells [OF g(1,2)] b by simp
    qed
    show ?thesis
      by (rule runs_mono [OF c], rule view_of_row, erule becomes_trans [OF B])
        (use b g becomesD(8) [OF B] in
          \<open>auto simp: move_cells_def delete_blanks_def clear_row_def fill_def fun_eq_iff
            add.commute [of nx]\<close>)
  qed
  with m show ?thesis
    unfolding grid_view_delete_cells_def Let_def v u by (auto simp: becomesD(3) elim!: runs_mono)
qed

section \<open>Clearing into the history\<close>

lemma grid_scroll_history_loop:
  assumes ok: "grid_ok gd" and n: "grid_height gd + n < UINT_MOD"
  shows "runs (foldM (\<lambda>yy. grid_scroll_history) [0..<n] gd) (becomes_at (gd_hsize gd + n) gd
    (\<lambda>y. if y < grid_height gd then rows gd y else blank_row))"
proof -
  let ?R = "\<lambda>y. if y < grid_height gd then rows gd y else blank_row"
  have "runs (foldM (\<lambda>yy. grid_scroll_history) [0..<n] gd)
      ((\<lambda>i. becomes_at (gd_hsize gd + i) gd ?R) n)"
  proof (rule runs_foldM_upt)
    fix i g assume i: "0 \<le> i" "i < n" and I: "becomes_at (gd_hsize gd + i) gd ?R g"
    have "grid_height g + 1 < UINT_MOD" using becomes_atD(4,6) [OF I] n i by simp
    then show "runs (grid_scroll_history g) (becomes_at (gd_hsize gd + Suc i) gd ?R)"
      using grid_scroll_history_runs [OF becomes_atD(1) [OF I]] becomes_atD(4,6) [OF I] becomes_atD(7) [OF I]
      by (auto elim!: runs_mono becomes_at_trans [OF I])
  qed (use ok in \<open>auto simp: becomes_at_def\<close>)
  then show ?thesis by simp
qed

definition line_used :: "grid_line \<Rightarrow> bool" where
  "line_used gl \<longleftrightarrow> cellsize gl \<noteq> 0 \<or> utf8size gl \<noteq> 0"

lemma last_used_runs:
  assumes ok: "grid_ok gd"
  shows "runs (foldM (\<lambda>yy last. do {
         gl \<leftarrow> lget (grid_view_y gd yy) (linedata gd);
         Some (if cellsize gl \<noteq> 0 \<or> utf8size gl \<noteq> 0 then uadd yy 1 else last)
       }) [0..<gd_sy gd] 0) (\<lambda>n. n \<le> gd_sy gd \<and>
     (\<forall>y. n \<le> y \<and> y < gd_sy gd \<longrightarrow> \<not> line_used (linedata gd ! (gd_hsize gd + y))))"
proof -
  let ?f = "\<lambda>yy last. do {
         gl \<leftarrow> lget (grid_view_y gd yy) (linedata gd);
         Some (if cellsize gl \<noteq> 0 \<or> utf8size gl \<noteq> 0 then uadd yy 1 else last) }"
  let ?I = "\<lambda>i n. n \<le> i \<and> (\<forall>y. n \<le> y \<and> y < i \<longrightarrow> \<not> line_used (linedata gd ! (gd_hsize gd + y)))"
  have "runs (foldM ?f [0..<gd_sy gd] 0) (?I (gd_sy gd))"
  proof (rule runs_foldM_upt)
    fix i n assume i: "0 \<le> i" "i < gd_sy gd" and I: "?I i n"
    have "gd_hsize gd + i < length (linedata gd)" "i + 1 < UINT_MOD"
      using grid_okD(1,2) [OF ok] i by simp_all
    then show "runs (?f i n) (?I (Suc i))"
      using I i ok by (auto simp: line_used_def uadd_eq less_Suc_eq)
  qed auto
  then show ?thesis by simp
qed

lemma view_unused:
  "grid_ok gd \<Longrightarrow> y < gd_sy gd \<Longrightarrow> \<not> line_used (linedata gd ! (gd_hsize gd + y)) \<Longrightarrow>
   fst (view gd y) = (\<lambda>x. blank)"
  by (auto simp: view_def rows_def line_view_def line_used_def)

lemma grid_view_clear_history_runs:
  assumes ok: "grid_ok gd" and n: "grid_height gd + gd_sy gd < UINT_MOD"
  shows "runs (grid_view_clear_history gd) (\<lambda>g. \<exists>n \<le> gd_sy gd.
    becomes_at (gd_hsize gd + n) gd (\<lambda>y. if y < grid_height gd then rows gd y else blank_row) g
    \<and> (\<forall>y < gd_sy gd. fst (view g y) = (\<lambda>x. blank)))"
  unfolding grid_view_clear_history_def runs_bind
proof (rule runs_mono [OF last_used_runs [OF ok]])
  fix n assume N: "n \<le> gd_sy gd \<and> (\<forall>y. n \<le> y \<and> y < gd_sy gd \<longrightarrow> \<not> line_used (linedata gd ! (gd_hsize gd + y)))"
  let ?B = "becomes_at (gd_hsize gd + n) gd (\<lambda>y. if y < grid_height gd then rows gd y else blank_row)"
  have V: "fst (view g y) = (\<lambda>x. blank)" if B: "?B g" and y: "y < gd_sy gd" for g y
  proof -
    have "view g y = (if y + n < gd_sy gd then view gd (y + n) else blank_row)"
      using becomes_atD(6) [OF B] becomes_atD(7) [OF B, of "gd_hsize gd + n + y"] y
      by (auto simp: view_def ac_simps)
    then show ?thesis using N view_unused [OF ok, of "y + n"] by auto
  qed
  have L: "runs (foldM (\<lambda>yy. grid_scroll_history) [0..<n] gd) ?B"
    by (rule grid_scroll_history_loop [OF ok]) (use n N in simp)
  then have "runs (if n = 0 then Some gd else foldM (\<lambda>yy. grid_scroll_history) [0..<n] gd) ?B"
    by (cases "n = 0") simp_all
  then show "runs (if n = 0 then Some gd else foldM (\<lambda>yy. grid_scroll_history) [0..<n] gd) (\<lambda>g. \<exists>n \<le> gd_sy gd.
    becomes_at (gd_hsize gd + n) gd (\<lambda>y. if y < grid_height gd then rows gd y else blank_row) g
    \<and> (\<forall>y < gd_sy gd. fst (view g y) = (\<lambda>x. blank)))"
    by (rule runs_mono) (use N V in blast)
qed

section \<open>Rows that show something\<close>

text \<open>
  A row of which every visible cell is padding has no character that a redraw could start
  from; screen_write_initctx follows a null pointer on one. No operation makes one.
\<close>

definition row_shown :: "nat \<Rightarrow> row_content \<Rightarrow> bool" where
  "row_shown sx r \<longleftrightarrow> (\<exists>x < sx. \<not> is_padding (fst (fst r x)))"

definition grid_shown :: "grid \<Rightarrow> bool" where
  "grid_shown gd \<longleftrightarrow> (\<forall>y < grid_height gd. row_shown (gd_sx gd) (rows gd y))"

definition grid_good :: "grid \<Rightarrow> bool" where
  "grid_good gd \<longleftrightarrow> grid_ok gd \<and> grid_shown gd"

lemma row_shown_blank [simp]: "0 < sx \<Longrightarrow> row_shown sx blank_row"
  by (auto simp: row_shown_def)

lemma row_shown_at: "x < sx \<Longrightarrow> f x = blank \<Longrightarrow> row_shown sx (f, fl)"
  by (auto simp: row_shown_def)

lemma row_shown_flags: "row_shown sx (f, fl) \<longleftrightarrow> row_shown sx (f, fl')"
  by (simp add: row_shown_def)

lemma row_shown_clear:
  "0 < sx \<Longrightarrow> row_shown sx r \<Longrightarrow> row_shown sx (clear_row sx px nx r)"
  by (auto simp: row_shown_def clear_row_def fill_def)

lemma row_shown_insert:
  assumes r: "row_shown sx r" and n: "0 < nx"
  shows "row_shown sx (on_cells (insert_blanks sx px nx) r)"
proof (cases "px < sx \<and> (px < sx - nx \<or> px + 1 = sx)")
  case True
  then have "insert_blanks sx px nx (fst r) px = blank" using n by (simp add: insert_blanks_def)
  then show ?thesis using True by (intro row_shown_at [of px]) auto
next
  case False
  then have "insert_blanks sx px nx (fst r) x = fst r x" if "x < sx" for x
    using that by (auto simp: insert_blanks_def)
  then show ?thesis using r by (auto simp: row_shown_def)
qed

lemma row_shown_delete:
  assumes r: "row_shown sx r" and n: "0 < nx" "0 < sx"
  shows "row_shown sx (on_cells (delete_blanks sx px nx) r)"
proof (cases "px < sx")
  case True
  then have "delete_blanks sx px nx (fst r) (sx - 1) = blank" using n by (auto simp: delete_blanks_def)
  then show ?thesis using n by (intro row_shown_at [of "sx - 1"]) auto
next
  case False
  then have "delete_blanks sx px nx (fst r) x = fst r x" if "x < sx" for x
    using that by (auto simp: delete_blanks_def)
  then show ?thesis using r by (auto simp: row_shown_def)
qed

lemma row_shown_move:
  assumes r: "row_shown sx r" and d: "px < dx" "px < sx"
  shows "row_shown sx (on_cells (move_cells dx px nx) r)"
proof (cases "0 < nx")
  case True
  then have "move_cells dx px nx (fst r) px = blank" using d by (simp add: move_cells_def)
  then show ?thesis using d by (intro row_shown_at [of px]) auto
qed (use r in simp)

lemma grid_goodD:
  assumes "grid_good gd"
  shows "grid_ok gd" "y < grid_height gd \<Longrightarrow> row_shown (gd_sx gd) (rows gd y)"
    "y < gd_sy gd \<Longrightarrow> row_shown (gd_sx gd) (view gd y)"
  using assms by (auto simp: grid_good_def grid_shown_def view_def)

lemma grid_good_becomes:
  assumes "grid_good gd" "becomes gd R gd'" "\<And>y. y < grid_height gd \<Longrightarrow> row_shown (gd_sx gd) (R y)"
  shows "grid_good gd'"
  using assms by (auto simp: grid_good_def grid_shown_def becomes_def same_dims_def)

lemma grid_good_view_becomes:
  assumes g: "grid_good gd" and b: "view_becomes gd V gd'"
    and V: "\<And>y. y < gd_sy gd \<Longrightarrow> row_shown (gd_sx gd) (V y)"
  shows "grid_good gd'"
proof -
  have "row_shown (gd_sx gd') (rows gd' y)" if y: "y < grid_height gd'" for y
  proof (cases "y < gd_hsize gd")
    case True
    then show ?thesis using view_becomesD(3,8) [OF b] grid_goodD(2) [OF g] by simp
  next
    case False
    then have "rows gd' y = view gd' (y - gd_hsize gd)" using view_becomesD(5) [OF b] by (simp add: view_def)
    moreover have "y - gd_hsize gd < gd_sy gd" using y False view_becomesD(4,5) [OF b] by simp
    ultimately show ?thesis using view_becomesD(3,9) [OF b] V by simp
  qed
  then show ?thesis using view_becomesD(1) [OF b] by (simp add: grid_good_def grid_shown_def)
qed

lemma grid_good_becomes_at:
  assumes "grid_good gd" "becomes_at h gd R gd'" "\<And>y. y < h + gd_sy gd \<Longrightarrow> row_shown (gd_sx gd) (R y)"
  shows "grid_good gd'"
  using assms by (auto simp: grid_good_def grid_shown_def becomes_at_def)

lemma grid_good_scrolled_up:
  assumes g: "grid_good gd" and s: "scrolled_up rupper rlower gd gd'"
    and r: "rupper \<le> rlower" "rlower < gd_sy gd" and lim: "0 < gd_hlimit gd"
  shows "grid_good gd'"
proof -
  let ?c = "collect_count gd"
  let ?h = "gd_hsize gd - ?c"
  have c: "?c \<le> gd_hsize gd" by (rule collect_count_le(1) [OF lim])
  have sx: "0 < gd_sx gd" by (rule grid_okD(5) [OF grid_goodD(1) [OF g]])
  have D: "row_shown (gd_sx gd) (delete_rows (rlower + 1) rupper 1 (view gd) y)" if "y < gd_sy gd" for y
    using that r sx grid_goodD(3) [OF g] by (auto simp: delete_rows_def)
  have "row_shown (gd_sx gd') (rows gd' y)" if y: "y < grid_height gd'" for y
  proof (cases "y \<le> ?h")
    case True
    then show ?thesis using s c r grid_goodD(2) [OF g, of "y + ?c"] grid_goodD(3) [OF g, of rupper]
      by (cases "y = ?h") (auto simp: scrolled_up_def Let_def)
  next
    case False
    then have "rows gd' y = view gd' (y - (?h + 1))" "y - (?h + 1) < gd_sy gd"
      using s y by (auto simp: scrolled_up_def Let_def view_def)
    then show ?thesis using s D by (simp add: scrolled_up_def Let_def)
  qed
  then show ?thesis using s by (simp add: grid_good_def grid_shown_def scrolled_up_def Let_def)
qed

section \<open>A store of cells\<close>

text \<open>
  The interface through which the screen writes single cells: \<open>put\<close> sets the cell at a
  position that is inside, and \<open>peek\<close> reads it back.
\<close>

locale cell_store =
  fixes ok :: "'s \<Rightarrow> bool"
    and inside :: "nat \<Rightarrow> nat \<Rightarrow> bool"
    and peek :: "'s \<Rightarrow> nat \<Rightarrow> nat \<Rightarrow> grid_cell"
    and put :: "nat \<Rightarrow> nat \<Rightarrow> grid_cell \<Rightarrow> 's \<Rightarrow> 's option"
  assumes put_runs: "ok s \<Longrightarrow> inside x y \<Longrightarrow> \<not> is_utf8 gc \<Longrightarrow> \<not> is_padding gc \<Longrightarrow>
    runs (put x y gc s) (\<lambda>s'. ok s' \<and>
      (\<forall>x' y'. inside x' y' \<longrightarrow> peek s' x' y' = (if x' = x \<and> y' = y then gc else peek s x' y')))"
begin

lemma put_row_runs:
  assumes ok: "ok s" and ins: "\<And>x. x \<in> set xs \<Longrightarrow> inside x y" and gc: "\<not> is_utf8 gc" "\<not> is_padding gc"
  shows "runs (foldM (\<lambda>x. put x y gc) xs s) (\<lambda>s'. ok s' \<and>
    (\<forall>x' y'. inside x' y' \<longrightarrow> peek s' x' y' = (if x' \<in> set xs \<and> y' = y then gc else peek s x' y')))"
  using ok ins
proof (induction xs arbitrary: s)
  case (Cons x xs)
  have "runs (put x y gc s) (\<lambda>s'. ok s' \<and>
      (\<forall>x' y'. inside x' y' \<longrightarrow> peek s' x' y' = (if x' = x \<and> y' = y then gc else peek s x' y')))"
    using Cons.prems gc by (intro put_runs) auto
  then show ?case
    by (auto elim!: runs_mono intro!: runs_mono [OF Cons.IH] Cons.prems(2))
qed auto

lemma put_all_runs:
  assumes ok: "ok s" and ins: "\<And>x y. x \<in> set xs \<Longrightarrow> y \<in> set ys \<Longrightarrow> inside x y"
    and gc: "\<not> is_utf8 gc" "\<not> is_padding gc"
  shows "runs (foldM (\<lambda>y. foldM (\<lambda>x. put x y gc) xs) ys s) (\<lambda>s'. ok s' \<and>
    (\<forall>x' y'. inside x' y' \<longrightarrow> peek s' x' y' = (if x' \<in> set xs \<and> y' \<in> set ys then gc else peek s x' y')))"
  using ok ins
proof (induction ys arbitrary: s)
  case (Cons y ys)
  have "runs (foldM (\<lambda>x. put x y gc) xs s) (\<lambda>s'. ok s' \<and>
      (\<forall>x' y'. inside x' y' \<longrightarrow> peek s' x' y' = (if x' \<in> set xs \<and> y' = y then gc else peek s x' y')))"
    using Cons.prems gc by (intro put_row_runs) auto
  then show ?case
    by (auto elim!: runs_mono intro!: runs_mono [OF Cons.IH] Cons.prems(2))
qed auto

end

lemma grid_view_set_cell_runs:
  assumes ok: "grid_ok gd" and y: "py < gd_sy gd" and n: "px + 1 < UINT_MOD" and u: "\<not> is_utf8 gc"
  shows "runs (grid_view_set_cell px py gc gd)
    (view_becomes gd (on_row py (on_cells (\<lambda>f. f(px := (gc, None)))) (view gd)))"
proof -
  have "runs (grid_set_cell px (gd_hsize gd + py) gc gd) (becomes gd ((rows gd)(gd_hsize gd + py :=
      ((fst (rows gd (gd_hsize gd + py)))(px := (gc, None)), snd (rows gd (gd_hsize gd + py))))))"
    using assms by (intro grid_set_cell_runs) auto
  then show ?thesis
    using ok y by (auto simp: grid_view_set_cell_def elim!: runs_mono intro: view_of_row)
qed

lemma row_shown_set:
  "row_shown sx r \<Longrightarrow> \<not> is_padding gc \<Longrightarrow> row_shown sx (on_cells (\<lambda>f. f(px := (gc, u))) r)"
  by (auto simp: row_shown_def)

lemma row_shown_on_row:
  "(\<And>y. y < n \<Longrightarrow> row_shown sx (V y)) \<Longrightarrow> (row_shown sx (V py) \<Longrightarrow> row_shown sx (f (V py))) \<Longrightarrow>
   y < n \<Longrightarrow> row_shown sx (on_row py f V y)"
  by (auto simp: on_row_def)

interpretation gv: cell_store
  "\<lambda>gd. grid_good gd \<and> same_dims gd0 gd \<and> (\<forall>y < gd_hsize gd0. rows gd y = rows gd0 y)"
  "\<lambda>px py. px + 1 < UINT_MOD \<and> py < gd_sy gd0" grid_view_peek_cell grid_view_set_cell
  for gd0
proof
  fix s x y gc
  assume s: "grid_good s \<and> same_dims gd0 s \<and> (\<forall>y < gd_hsize gd0. rows s y = rows gd0 y)"
    and i: "x + 1 < UINT_MOD \<and> y < gd_sy gd0" and gc: "\<not> is_utf8 gc" "\<not> is_padding gc"
  have y: "y < gd_sy s" "gd_sy s = gd_sy gd0" "gd_hsize s = gd_hsize gd0" using s i by (auto simp: same_dims_def)
  have "grid_good g \<and> same_dims gd0 g \<and> (\<forall>y < gd_hsize gd0. rows g y = rows gd0 y) \<and>
      (\<forall>x' y'. x' + 1 < UINT_MOD \<and> y' < gd_sy gd0 \<longrightarrow>
        grid_view_peek_cell g x' y' = (if x' = x \<and> y' = y then gc else grid_view_peek_cell s x' y'))"
    if B: "view_becomes s (on_row y (on_cells (\<lambda>f. f(x := (gc, None)))) (view s)) g" for g
  proof (intro conjI)
    show "grid_good g"
      using s gc by (intro grid_good_view_becomes [OF _ B] row_shown_on_row row_shown_set)
        (auto dest: grid_goodD)
    show "same_dims gd0 g" using s view_becomesD(2) [OF B] by (auto intro: same_dims_trans)
    show "\<forall>y < gd_hsize gd0. rows g y = rows gd0 y" using s y view_becomesD(8) [OF B] by simp
    show "\<forall>x' y'. x' + 1 < UINT_MOD \<and> y' < gd_sy gd0 \<longrightarrow>
        grid_view_peek_cell g x' y' = (if x' = x \<and> y' = y then gc else grid_view_peek_cell s x' y')"
      using view_becomesD(1,4) [OF B] view_becomesD(9) [OF B] y s
      by (auto simp: grid_view_peek_cell_eq grid_goodD(1) on_row_def)
  qed
  then show "runs (grid_view_set_cell x y gc s) (\<lambda>g. (grid_good g \<and> same_dims gd0 g \<and>
      (\<forall>y < gd_hsize gd0. rows g y = rows gd0 y)) \<and> (\<forall>x' y'. x' + 1 < UINT_MOD \<and> y' < gd_sy gd0 \<longrightarrow>
        grid_view_peek_cell g x' y' = (if x' = x \<and> y' = y then gc else grid_view_peek_cell s x' y')))"
    using grid_view_set_cell_runs [OF grid_goodD(1) y(1), where px = x and gc = gc] s i gc by (auto elim!: runs_mono)
qed

section \<open>Properties\<close>

text \<open>A grid of three rows and four columns, with one row of history, for the witnesses.\<close>

definition sample_line :: "byte \<Rightarrow> grid_line" where
  "sample_line b = \<lparr>cellsize = 2, celldata = [grid_default_cell\<lparr>gc_data := b\<rparr>, grid_default_cell],
     utf8data = [], gl_flags = 0\<rparr>"

definition sample_grid :: grid where
  "sample_grid = \<lparr>gd_flags = GRID_HISTORY, gd_sx = 4, gd_sy = 3, gd_hsize = 1, gd_hlimit = 10,
     linedata = [sample_line 0x61, sample_line 0x62, sample_line 0x63, sample_line 0x64]\<rparr>"

lemma line_wf_sample: "line_wf (sample_line b)"
  by (auto simp: line_wf_def sample_line_def less_Suc_eq numeral_2_eq_2)

lemma grid_ok_sample: "grid_ok sample_grid"
  by (auto simp: grid_ok_def sample_grid_def line_wf_sample nth_Cons split: nat.splits)

lemma sample_grid_sel [simp]:
  "gd_flags sample_grid = GRID_HISTORY" "gd_sx sample_grid = 4" "gd_sy sample_grid = 3"
  "gd_hsize sample_grid = 1" "gd_hlimit sample_grid = 10" "flag_set GRID_HISTORY GRID_HISTORY"
  by (simp_all add: sample_grid_def flag_set_def)

text \<open>
  C26: moving ny lines from py to dy moves whole lines, also where the two ranges overlap: the
  lines of the destination are those of the source, what the move leaves behind is blank, and
  every other line is untouched.
\<close>

theorem grid_move_lines_moves:
  assumes "grid_ok gd" "py + ny \<le> gd_hsize gd + gd_sy gd" "dy + ny \<le> gd_hsize gd + gd_sy gd" "py \<noteq> dy"
  shows "\<exists>gd'. grid_move_lines dy py ny gd = Some gd' \<and> grid_ok gd' \<and> same_dims gd gd' \<and>
    (\<forall>i < ny. rows gd' (dy + i) = rows gd (py + i)) \<and>
    (\<forall>y < gd_hsize gd + gd_sy gd. y \<notin> {dy..<dy + ny} \<longrightarrow>
      rows gd' y = (if y \<in> {py..<py + ny} then (\<lambda>x. (grid_default_cell, None), 0) else rows gd y))"
proof -
  obtain gd' where m: "grid_move_lines dy py ny gd = Some gd'" and
      b: "becomes gd (move_rows dy py ny (rows gd)) gd'"
    using grid_move_lines_runs [OF assms] by (auto simp: runs_iff)
  show ?thesis
    using m becomesD(1,2) [OF b] becomesD(8) [OF b] assms(3)
    by (intro exI [of _ gd']) (auto simp: move_rows_def)
qed

theorem grid_move_lines_moves_witness:
  "\<exists>gd'. grid_move_lines 1 2 2 sample_grid = Some gd' \<and> rows gd' 1 = rows sample_grid 2"
proof -
  obtain gd' where "grid_move_lines 1 2 2 sample_grid = Some gd'"
      "\<forall>i < 2. rows gd' (1 + i) = rows sample_grid (2 + i)"
    using grid_move_lines_moves [OF grid_ok_sample, of 2 2 1] by auto
  then show ?thesis by (intro exI [of _ gd']) (auto dest: spec [of _ 0] simp: numeral_2_eq_2)
qed

text \<open>
  C20: scrolling a region up in a grid with history: the row at the top of the region is
  appended to the history, of which the oldest tenth (at least one row) has been dropped if it
  was full; the history stays within its limit; the region moves up by a row and the rows
  above and below it do not change.
\<close>

theorem scroll_region_up_history:
  assumes "grid_ok gd" "rupper \<le> rlower" "rlower < gd_sy gd" "has_history gd"
    and "0 < gd_hlimit gd" "gd_hsize gd \<le> gd_hlimit gd" "gd_hsize gd + gd_sy gd + 1 < UINT_MOD"
  shows "\<exists>gd'. grid_view_scroll_region_up rupper rlower gd = Some gd' \<and> grid_ok gd' \<and>
    gd_hsize gd' \<le> gd_hlimit gd' \<and>
    map (rows gd') [0..<gd_hsize gd'] =
      drop (if gd_hsize gd < gd_hlimit gd then 0 else max 1 (gd_hlimit gd div 10))
        (map (rows gd) [0..<gd_hsize gd]) @ [view gd rupper] \<and>
    (\<forall>y < gd_sy gd. view gd' y =
      (if rupper \<le> y \<and> y < rlower then view gd (y + 1) else if y = rlower then blank_row else view gd y))"
proof -
  let ?c = "collect_count gd"
  let ?h = "gd_hsize gd - ?c"
  obtain gd' where m: "grid_view_scroll_region_up rupper rlower gd = Some gd'" and
      s: "scrolled_up rupper rlower gd gd'"
    using grid_view_scroll_region_up_runs [OF assms(1-5,7)] by (auto simp: runs_iff)
  have "map (rows gd') [0..<?h + 1] = drop ?c (map (rows gd) [0..<gd_hsize gd]) @ [view gd rupper]"
    using s collect_count_le(1) [OF assms(5)]
    by (auto simp: scrolled_up_def Let_def drop_map intro!: nth_equalityI) (simp add: add.commute)
  moreover have "?h + 1 \<le> gd_hlimit gd" using collect_count_le(2) [OF assms(5,6)] by simp
  moreover have "\<forall>y < gd_sy gd. view gd' y =
      (if rupper \<le> y \<and> y < rlower then view gd (y + 1) else if y = rlower then blank_row else view gd y)"
    using s assms(2) by (auto simp: scrolled_up_def Let_def delete_rows_def)
  ultimately show ?thesis
    unfolding collect_count_def [symmetric]
    using m s by (intro exI [of _ gd']) (simp add: scrolled_up_def Let_def)
qed

theorem scroll_region_up_history_witness:
  "\<exists>gd'. grid_view_scroll_region_up 1 2 sample_grid = Some gd' \<and> gd_hsize gd' \<le> gd_hlimit gd' \<and>
    view gd' 0 = view sample_grid 0 \<and> view gd' 1 = view sample_grid 2 \<and> view gd' 2 = blank_row"
proof -
  obtain gd' where "grid_view_scroll_region_up 1 2 sample_grid = Some gd'"
      "gd_hsize gd' \<le> gd_hlimit gd'"
      "\<forall>y < 3. view gd' y = (if 1 \<le> y \<and> y < 2 then view sample_grid (y + 1) else if y = 2 then blank_row else view sample_grid y)"
    using scroll_region_up_history [OF grid_ok_sample, of 1 2] by auto
  then show ?thesis by (intro exI [of _ gd']) (auto simp: numeral_2_eq_2)
qed

text \<open>
  C27: inserting ny lines in a region and deleting ny lines at the same row gives the screen
  back, but for the last ny rows of the region, which were pushed out and are now blank; the
  history is not touched.
\<close>

theorem insert_delete_lines_region:
  assumes "grid_ok gd" "py + ny \<le> rlower + 1" "rlower < gd_sy gd" "0 < ny"
  shows "\<exists>gd1 gd2. grid_view_insert_lines_region rlower py ny gd = Some gd1 \<and>
    (\<forall>y < gd_sy gd. py \<le> y \<and> y < py + ny \<longrightarrow> view gd1 y = blank_row) \<and>
    grid_view_delete_lines_region rlower py ny gd1 = Some gd2 \<and>
    (\<forall>y < gd_hsize gd. rows gd2 y = rows gd y) \<and>
    (\<forall>y < gd_sy gd. view gd2 y =
      (if rlower + 1 - ny \<le> y \<and> y \<le> rlower then blank_row else view gd y))"
proof -
  obtain gd1 where m1: "grid_view_insert_lines_region rlower py ny gd = Some gd1" and
      b1: "view_becomes gd (insert_rows (rlower + 1) py ny (view gd)) gd1"
    using grid_view_insert_lines_region_runs [OF assms] by (auto simp: runs_iff)
  have "rlower < gd_sy gd1" using assms(3) view_becomesD(4) [OF b1] by simp
  then obtain gd2 where m2: "grid_view_delete_lines_region rlower py ny gd1 = Some gd2" and
      b2: "view_becomes gd1 (delete_rows (rlower + 1) py ny (view gd1)) gd2"
    using grid_view_delete_lines_region_runs [OF view_becomesD(1) [OF b1] assms(2) _ assms(4)]
    by (auto simp: runs_iff)
  have V1: "view gd1 y = insert_rows (rlower + 1) py ny (view gd) y" if "y < gd_sy gd" for y
    using view_becomesD(9) [OF b1] that by simp
  have "view gd2 y = (if rlower + 1 - ny \<le> y \<and> y \<le> rlower then blank_row else view gd y)"
    if y: "y < gd_sy gd" for y
    using view_becomesD(9) [OF b2, of y] view_becomesD(4) [OF b1] V1 [of y] V1 [of "y + ny"] y assms(2,3)
    by (auto simp: delete_rows_def insert_rows_def)
  then show ?thesis
    using m1 m2 V1 view_becomesD(5,8) [OF b1] view_becomesD(8) [OF b2] assms(2)
    by (intro exI [of _ gd1] exI [of _ gd2]) (auto simp: insert_rows_def)
qed

theorem insert_delete_lines_region_witness:
  "\<exists>gd1 gd2. grid_view_insert_lines_region 2 0 1 sample_grid = Some gd1 \<and>
    grid_view_delete_lines_region 2 0 1 gd1 = Some gd2 \<and>
    view gd1 0 = blank_row \<and> view gd2 0 = view sample_grid 0"
proof -
  obtain gd1 gd2 where "grid_view_insert_lines_region 2 0 1 sample_grid = Some gd1"
      "\<forall>y < 3. 0 \<le> y \<and> y < 0 + 1 \<longrightarrow> view gd1 y = blank_row"
      "grid_view_delete_lines_region 2 0 1 gd1 = Some gd2"
      "\<forall>y < 3. view gd2 y = (if 2 + 1 - 1 \<le> y \<and> y \<le> 2 then blank_row else view sample_grid y)"
    using insert_delete_lines_region [OF grid_ok_sample, of 0 1 2] by auto
  then show ?thesis by (intro exI [of _ gd1] exI [of _ gd2]) auto
qed

text \<open>
  inserting ny lines outside the scroll region. The rows below move down, but the rows
  from sy - ny to py + ny, when there are such, keep what they showed instead of being blank:
  the function only blanks the rows that it moves.
\<close>

theorem insert_lines_leaves_stale_rows:
  assumes "grid_ok gd" "py + ny \<le> gd_sy gd" "0 < ny"
  shows "\<exists>gd'. grid_view_insert_lines py ny gd = Some gd' \<and> grid_ok gd' \<and>
    (\<forall>y < py. view gd' y = view gd y) \<and>
    (\<forall>y < gd_sy gd. py + ny \<le> y \<longrightarrow> view gd' y = view gd (y - ny)) \<and>
    (\<forall>y. py \<le> y \<and> y < py + ny \<longrightarrow>
      view gd' y = (if y < gd_sy gd - ny then blank_row else view gd y))"
proof -
  obtain gd' where m: "grid_view_insert_lines py ny gd = Some gd'" and
      b: "view_becomes gd (insert_rows_stale (gd_sy gd) py ny (view gd)) gd'"
    using grid_view_insert_lines_runs [OF assms] by (auto simp: runs_iff)
  show ?thesis
    using m view_becomesD(1) [OF b] view_becomesD(9) [OF b] assms(2,3)
    by (intro exI [of _ gd']) (auto simp: insert_rows_stale_def)
qed

theorem insert_lines_leaves_stale_rows_witness:
  "\<exists>gd'. grid_view_insert_lines 0 2 sample_grid = Some gd' \<and> view gd' 0 = blank_row \<and>
    view gd' 1 = view sample_grid 1 \<and> view gd' 2 = view sample_grid 0"
proof -
  obtain gd' where "grid_view_insert_lines 0 2 sample_grid = Some gd'"
      "\<forall>y < 3. 0 + 2 \<le> y \<longrightarrow> view gd' y = view sample_grid (y - 2)"
      "\<forall>y. 0 \<le> y \<and> y < 0 + 2 \<longrightarrow> view gd' y = (if y < 3 - 2 then blank_row else view sample_grid y)"
    using insert_lines_leaves_stale_rows [OF grid_ok_sample, of 0 2] by auto
  then show ?thesis by (intro exI [of _ gd']) auto
qed

text \<open>
  deleting nx cells moves the rest of the row left and blanks its last nx columns, in
  all cases, also where the computed width of the final clear wraps below zero; cells beyond
  the screen, other rows and the history are not touched.
\<close>

theorem delete_cells_shifts:
  assumes "grid_ok gd" "py < gd_sy gd" "px + nx \<le> gd_sx gd" "0 < nx" "nx < gd_sx gd"
  shows "\<exists>gd'. grid_view_delete_cells px py nx gd = Some gd' \<and> grid_ok gd' \<and>
    (\<forall>x. fst (view gd' py) x =
      (if px \<le> x \<and> x + nx < gd_sx gd then fst (view gd py) (x + nx)
       else if gd_sx gd \<le> x + nx \<and> x < gd_sx gd then (grid_default_cell, None)
       else fst (view gd py) x)) \<and>
    (\<forall>y < gd_sy gd. y \<noteq> py \<longrightarrow> view gd' y = view gd y) \<and>
    (\<forall>y < gd_hsize gd. rows gd' y = rows gd y)"
proof -
  obtain gd' where m: "grid_view_delete_cells px py nx gd = Some gd'" and
      b: "view_becomes gd (on_row py (\<lambda>r. if px = 0 \<and> nx = gd_sx gd then blank_row
        else on_cells (delete_blanks (gd_sx gd) px nx) r) (view gd)) gd'"
    using grid_view_delete_cells_runs [OF assms(1-4)] by (auto simp: runs_iff)
  have r: "view gd' py = on_cells (delete_blanks (gd_sx gd) px nx) (view gd py)"
    using view_becomesD(9) [OF b assms(2)] assms(5) by (simp add: on_row_def)
  show ?thesis
    using m view_becomesD(1,8) [OF b] view_becomesD(9) [OF b] assms
    by (intro exI [of _ gd']) (auto simp: r delete_blanks_def on_row_def)
qed

theorem delete_cells_shifts_witness:
  "\<exists>gd'. grid_view_delete_cells 0 1 1 sample_grid = Some gd' \<and>
    fst (view gd' 1) 0 = fst (view sample_grid 1) 1"
proof -
  obtain gd' where "grid_view_delete_cells 0 1 1 sample_grid = Some gd'"
      "\<forall>x. fst (view gd' 1) x = (if 0 \<le> x \<and> x + 1 < 4 then fst (view sample_grid 1) (x + 1)
       else if 4 \<le> x + 1 \<and> x < 4 then (grid_default_cell, None) else fst (view sample_grid 1) x)"
    using delete_cells_shifts [OF grid_ok_sample, of 1 0 1] by auto
  then show ?thesis by (intro exI [of _ gd']) auto
qed

text \<open>
  clearing the screen into the history loses nothing: every row that was visible is now
  in the history or was empty, the history grows by at most the height of the screen (its
  limit is not applied), and the screen shows blanks only.
\<close>

theorem clear_history_keeps_rows:
  assumes "grid_ok gd" "gd_hsize gd + gd_sy gd + gd_sy gd < UINT_MOD"
  shows "\<exists>gd' n. grid_view_clear_history gd = Some gd' \<and> grid_ok gd' \<and> n \<le> gd_sy gd \<and>
    gd_hsize gd' = gd_hsize gd + n \<and>
    (\<forall>y < gd_hsize gd + gd_sy gd. rows gd' y = rows gd y) \<and>
    (\<forall>y < gd_sy gd. fst (view gd' y) = (\<lambda>x. (grid_default_cell, None)))"
proof -
  obtain gd' n where m: "grid_view_clear_history gd = Some gd'" and n: "n \<le> gd_sy gd" and
      b: "becomes_at (gd_hsize gd + n) gd (\<lambda>y. if y < grid_height gd then rows gd y else blank_row) gd'" and
      v: "\<forall>y < gd_sy gd. fst (view gd' y) = (\<lambda>x. blank)"
    using grid_view_clear_history_runs [OF assms] by (auto simp: runs_iff)
  show ?thesis
    using m n v becomes_atD(1,6) [OF b] becomes_atD(7) [OF b] by (intro exI [of _ gd'] exI [of _ n]) auto
qed

theorem clear_history_keeps_rows_witness:
  "\<exists>gd' n. grid_view_clear_history sample_grid = Some gd' \<and> gd_hsize gd' = 1 + n \<and> n \<le> 3 \<and>
    rows gd' 3 = rows sample_grid 3"
proof -
  obtain gd' n where "grid_view_clear_history sample_grid = Some gd'" "n \<le> 3" "gd_hsize gd' = 1 + n"
      "\<forall>y < 1 + 3. rows gd' y = rows sample_grid y"
    using clear_history_keeps_rows [OF grid_ok_sample] by auto
  then show ?thesis by (intro exI [of _ gd'] exI [of _ n]) auto
qed

end
