(* ===== verification/Screen.thy ===== *)
theory Screen
  imports Grid_View
begin

text \<open>
  screen.c: a screen is a grid with a cursor, a scroll region, a mode word, tab stops, a
  title and a selection. \<open>screen_wf\<close> is its invariant (the column of the cursor
  may be beyond the last one: a write wraps there, and see screen_write_cursorright); \<open>screen_ok\<close> adds that every row shows something.

  The result of gethostname is an argument of \<open>screen_init\<close> (None where it fails). The tab
  stops are the bits of the bit string, its bytes filled up to a multiple of eight.
  screen_free, which only releases memory, is not modelled.
\<close>

abbreviation MODE_CURSOR :: "32 word" where "MODE_CURSOR \<equiv> 0x1"
abbreviation MODE_INSERT :: "32 word" where "MODE_INSERT \<equiv> 0x2"
abbreviation MODE_KCURSOR :: "32 word" where "MODE_KCURSOR \<equiv> 0x4"
abbreviation MODE_KKEYPAD :: "32 word" where "MODE_KKEYPAD \<equiv> 0x8"
abbreviation MODE_WRAP :: "32 word" where "MODE_WRAP \<equiv> 0x10"
abbreviation MODE_MOUSE_STANDARD :: "32 word" where "MODE_MOUSE_STANDARD \<equiv> 0x20"
abbreviation MODE_MOUSE_BUTTON :: "32 word" where "MODE_MOUSE_BUTTON \<equiv> 0x40"
abbreviation MODE_MOUSE_ANY :: "32 word" where "MODE_MOUSE_ANY \<equiv> 0x80"
abbreviation MODE_MOUSE_UTF8 :: "32 word" where "MODE_MOUSE_UTF8 \<equiv> 0x100"
abbreviation ALL_MOUSE_MODES :: "32 word" where "ALL_MOUSE_MODES \<equiv> 0xe0"

record screen_sel =
  sel_flag :: bool
  sel_rectflag :: bool
  sel_sx :: nat
  sel_sy :: nat
  sel_ex :: nat
  sel_ey :: nat
  sel_cell :: grid_cell

record screen =
  s_title :: cstring
  s_grid :: grid
  s_cx :: nat
  s_cy :: nat
  s_cstyle :: nat
  s_ccolour :: cstring
  s_rupper :: nat
  s_rlower :: nat
  s_mode :: "32 word"
  s_tabs :: "bool list"
  s_sel :: screen_sel

abbreviation screen_size_x :: "screen \<Rightarrow> nat" where "screen_size_x s \<equiv> gd_sx (s_grid s)"
abbreviation screen_size_y :: "screen \<Rightarrow> nat" where "screen_size_y s \<equiv> gd_sy (s_grid s)"
abbreviation screen_hsize :: "screen \<Rightarrow> nat" where "screen_hsize s \<equiv> gd_hsize (s_grid s)"

section \<open>Operations\<close>

definition bit_alloc :: "nat \<Rightarrow> bool list" where
  "bit_alloc nbits = replicate (8 * (uadd nbits 7 div 8)) False"

definition screen_reset_tabs :: "screen \<Rightarrow> screen option" where
  "screen_reset_tabs s = do {
     let n = screen_size_x s;
     tabs \<leftarrow> foldM (\<lambda>i tabs. if i mod 8 = 0 then lput i True tabs else Some tabs) [8..<n] (bit_alloc n);
     Some (s\<lparr>s_tabs := tabs\<rparr>)
   }"

definition screen_clear_selection :: "screen \<Rightarrow> screen" where
  "screen_clear_selection s = s\<lparr>s_sel := (s_sel s)\<lparr>sel_flag := False\<rparr>\<rparr>"

definition screen_reinit :: "screen \<Rightarrow> screen option" where
  "screen_reinit s = do {
     let s = s\<lparr>s_cx := 0, s_cy := 0, s_rupper := 0, s_rlower := usub (screen_size_y s) 1,
       s_mode := MODE_CURSOR OR MODE_WRAP\<rparr>;
     s \<leftarrow> screen_reset_tabs s;
     gd \<leftarrow> grid_clear_lines (screen_hsize s) (screen_size_y s) (s_grid s);
     Some (screen_clear_selection (s\<lparr>s_grid := gd\<rparr>))
   }"

definition screen_init :: "cstring option \<Rightarrow> nat \<Rightarrow> nat \<Rightarrow> nat \<Rightarrow> screen \<Rightarrow> screen option" where
  "screen_init hostname sx sy hlimit s = do {
     gd \<leftarrow> grid_create sx sy hlimit;
     screen_reinit (s\<lparr>s_grid := gd,
       s_title := (case hostname of Some hn \<Rightarrow> hn | None \<Rightarrow> []),
       s_cstyle := 0, s_ccolour := [], s_tabs := []\<rparr>)
   }"

definition screen_set_cursor_style :: "nat \<Rightarrow> screen \<Rightarrow> screen" where
  "screen_set_cursor_style style s = (if style \<le> 4 then s\<lparr>s_cstyle := style\<rparr> else s)"

definition screen_set_cursor_colour :: "cstring \<Rightarrow> screen \<Rightarrow> screen" where
  "screen_set_cursor_colour colour s = s\<lparr>s_ccolour := colour\<rparr>"

text \<open>The title goes through a buffer of BUFSIZ bytes.\<close>

definition screen_set_title :: "cstring \<Rightarrow> screen \<Rightarrow> screen" where
  "screen_set_title title s = s\<lparr>s_title := take (BUFSIZ - 1) title\<rparr>"

definition screen_resize_x :: "nat \<Rightarrow> screen \<Rightarrow> screen option" where
  "screen_resize_x sx s =
     (if sx = 0 then None
      else
        let s = (if s_cx s \<ge> sx then s\<lparr>s_cx := usub sx 1\<rparr> else s) in
        Some (s\<lparr>s_grid := (s_grid s)\<lparr>gd_sx := sx\<rparr>\<rparr>))"

text \<open>The two directions of screen_resize_y, before and after the lines are reallocated.\<close>

definition resize_y_shrink :: "nat \<Rightarrow> screen \<Rightarrow> screen option" where
  "resize_y_shrink sy s = do {
     let oldy = screen_size_y s;
     let needed = usub oldy sy;
     let available = usub (usub oldy 1) (s_cy s);
     (gd, available) \<leftarrow>
       (if available > 0 then do {
          let available = (if available > needed then needed else available);
          gd \<leftarrow> grid_view_delete_lines (usub oldy available) available (s_grid s);
          Some (gd, available)
        } else Some (s_grid s, available));
     let needed = usub needed available;
     let available = s_cy s;
     gd \<leftarrow> (if has_history gd then Some (gd\<lparr>gd_hsize := uadd (gd_hsize gd) needed\<rparr>)
           else if needed > 0 \<and> available > 0 then
             grid_view_delete_lines 0 (if available > needed then needed else available) gd
           else Some gd);
     Some (s\<lparr>s_grid := gd, s_cy := usub (s_cy s) needed\<rparr>)
   }"

definition resize_y_pull :: "nat \<Rightarrow> screen \<Rightarrow> screen \<times> nat" where
  "resize_y_pull needed s =
     (let gd = s_grid s; available = gd_hsize gd in
      if has_history gd \<and> available > 0 then
        let available = (if available > needed then needed else available) in
        (s\<lparr>s_grid := gd\<lparr>gd_hsize := usub (gd_hsize gd) available\<rparr>, s_cy := uadd (s_cy s) available\<rparr>,
         available)
      else (s, 0))"

definition resize_y_grow :: "nat \<Rightarrow> nat \<Rightarrow> screen \<Rightarrow> screen option" where
  "resize_y_grow sy oldy s = do {
     let needed = usub sy oldy;
     let (s, available) = resize_y_pull needed s;
     let needed = usub needed available;
     let gd = s_grid s;
     ls \<leftarrow> foldM (\<lambda>i. lput i grid_line_zero)
       [usub (uadd (gd_hsize gd) sy) needed..<uadd (gd_hsize gd) sy] (linedata gd);
     Some (s\<lparr>s_grid := gd\<lparr>linedata := ls\<rparr>\<rparr>)
   }"

definition screen_resize_y :: "nat \<Rightarrow> screen \<Rightarrow> screen option" where
  "screen_resize_y sy s =
     (if sy = 0 then None
      else do {
        let oldy = screen_size_y s;
        s \<leftarrow> (if sy < oldy then resize_y_shrink sy s else Some s);
        ls \<leftarrow> xrealloc_lines (uadd (screen_hsize s) sy) (linedata (s_grid s));
        let s = s\<lparr>s_grid := (s_grid s)\<lparr>linedata := ls\<rparr>\<rparr>;
        s \<leftarrow> (if sy > oldy then resize_y_grow sy oldy s else Some s);
        Some (s\<lparr>s_grid := (s_grid s)\<lparr>gd_sy := sy\<rparr>, s_rupper := 0, s_rlower := usub sy 1\<rparr>)
      })"

definition screen_resize :: "nat \<Rightarrow> nat \<Rightarrow> screen \<Rightarrow> screen option" where
  "screen_resize sx sy s = do {
     let sx = (if sx < 1 then 1 else sx);
     let sy = (if sy < 1 then 1 else sy);
     s \<leftarrow> (if sx \<noteq> screen_size_x s then Option.bind (screen_resize_x sx s) screen_reset_tabs else Some s);
     (if sy \<noteq> screen_size_y s then screen_resize_y sy s else Some s)
   }"

definition screen_set_selection ::
  "nat \<Rightarrow> nat \<Rightarrow> nat \<Rightarrow> nat \<Rightarrow> bool \<Rightarrow> grid_cell \<Rightarrow> screen \<Rightarrow> screen" where
  "screen_set_selection sx sy ex ey rectflag gc s =
     s\<lparr>s_sel := \<lparr>sel_flag = True, sel_rectflag = rectflag, sel_sx = sx, sel_sy = sy,
       sel_ex = ex, sel_ey = ey, sel_cell = gc\<rparr>\<rparr>"

definition screen_check_selection :: "screen \<Rightarrow> nat \<Rightarrow> nat \<Rightarrow> bool" where
  "screen_check_selection s px py =
     (let sel = s_sel s in
      if \<not> sel_flag sel then False
      else if sel_rectflag sel then
        if sel_sy sel < sel_ey sel \<and> (py < sel_sy sel \<or> py > sel_ey sel) then False
        else if sel_sy sel > sel_ey sel \<and> (py > sel_sy sel \<or> py < sel_ey sel) then False
        else if sel_sy sel = sel_ey sel \<and> py \<noteq> sel_sy sel then False
        else if sel_ex sel < sel_sx sel then
          if px < sel_ex sel then False else if px > sel_sx sel then False else True
        else
          if px < sel_sx sel then False else if px > sel_ex sel then False else True
      else
        if sel_sy sel < sel_ey sel then
          if py < sel_sy sel \<or> py > sel_ey sel then False
          else if (py = sel_sy sel \<and> px < sel_sx sel) \<or> (py = sel_ey sel \<and> px > sel_ex sel) then False
          else True
        else if sel_sy sel > sel_ey sel then
          if py > sel_sy sel \<or> py < sel_ey sel then False
          else if (py = sel_sy sel \<and> px \<ge> sel_sx sel) \<or> (py = sel_ey sel \<and> px < sel_ex sel) then False
          else True
        else
          if py \<noteq> sel_sy sel then False
          else if sel_ex sel < sel_sx sel then
            if px > sel_sx sel \<or> px < sel_ex sel then False else True
          else
            if px < sel_sx sel \<or> px > sel_ex sel then False else True)"

section \<open>The invariant\<close>

definition screen_wf :: "screen \<Rightarrow> bool" where
  "screen_wf s \<longleftrightarrow> grid_ok (s_grid s)
     \<and> s_cx s < UINT_MOD \<and> s_cy s < screen_size_y s
     \<and> s_rlower s < screen_size_y s
     \<and> (s_rupper s < s_rlower s \<or> s_rupper s = 0 \<and> s_rlower s = 0 \<and> screen_size_y s = 1)
     \<and> length (s_tabs s) = 8 * ((screen_size_x s + 7) div 8)
     \<and> screen_size_x s + 7 < UINT_MOD"

definition screen_ok :: "screen \<Rightarrow> bool" where
  "screen_ok s \<longleftrightarrow> screen_wf s \<and> grid_shown (s_grid s)"

lemma screen_wfD:
  assumes "screen_wf s"
  shows "grid_ok (s_grid s)" "s_cx s < UINT_MOD" "s_cy s < screen_size_y s"
    "s_rlower s < screen_size_y s" "s_rupper s \<le> s_rlower s"
    "s_rupper s = s_rlower s \<Longrightarrow> screen_size_y s = 1"
    "length (s_tabs s) = 8 * ((screen_size_x s + 7) div 8)" "screen_size_x s + 7 < UINT_MOD"
    "0 < screen_size_x s" "0 < screen_size_y s" "screen_hsize s + screen_size_y s < UINT_MOD"
  using assms grid_okD(1,3,5) [of "s_grid s"] by (auto simp: screen_wf_def)

lemma screen_okD:
  assumes "screen_ok s"
  shows "screen_wf s" "grid_good (s_grid s)"
  using assms by (auto simp: screen_ok_def grid_good_def screen_wf_def)

section \<open>Initialisation and tab stops\<close>

lemma tabs_enough: "i < n \<Longrightarrow> i < 8 * ((n + 7) div (8::nat))"
  by linarith

lemma screen_reset_tabs_runs:
  assumes sx: "screen_size_x s + 7 < UINT_MOD"
  shows "runs (screen_reset_tabs s) (\<lambda>s'. \<exists>tabs. s' = s\<lparr>s_tabs := tabs\<rparr>
    \<and> length tabs = 8 * ((screen_size_x s + 7) div 8)
    \<and> (\<forall>i < screen_size_x s. tabs ! i \<longleftrightarrow> 0 < i \<and> i mod 8 = 0))"
proof -
  let ?n = "screen_size_x s"
  let ?f = "\<lambda>i tabs. if i mod 8 = 0 then lput i True tabs else Some tabs"
  let ?I = "\<lambda>k tabs. length tabs = 8 * ((?n + 7) div 8)
    \<and> (\<forall>i < ?n. tabs ! i \<longleftrightarrow> i < k \<and> 0 < i \<and> i mod 8 = 0)"
  have b: "length (bit_alloc ?n) = 8 * ((?n + 7) div 8)" "\<And>i. i < ?n \<Longrightarrow> \<not> bit_alloc ?n ! i"
    using sx tabs_enough by (simp_all add: bit_alloc_def uadd_eq)
  have "runs (foldM ?f [8..<?n] (bit_alloc ?n)) (?I ?n)"
  proof (cases "8 \<le> ?n")
    case True
    have small: "i mod 8 = 0 \<longleftrightarrow> i = 0" if "i < 8" for i :: nat using that by simp
    show ?thesis
    proof (rule runs_foldM_upt [where I = ?I])
      show "?I 8 (bit_alloc ?n)" using b small by auto
      fix k tabs assume k: "8 \<le> k" "k < ?n" and I: "?I k tabs"
      then show "runs (?f k tabs) (?I (Suc k))"
        using tabs_enough [of k ?n] by (auto simp: nth_list_update less_Suc_eq)
    qed (use True in auto)
  next
    case False
    then have "[8..<?n] = []" by simp
    then show ?thesis using b False by auto
  qed
  then show ?thesis by (auto simp: screen_reset_tabs_def Let_def elim!: runs_mono)
qed

lemma grid_create_runs:
  assumes "0 < sx" "sx < UINT_MOD" "0 < sy" "sy < UINT_MOD"
  shows "runs (grid_create sx sy hlimit) (\<lambda>gd. grid_good gd \<and> gd_sx gd = sx \<and> gd_sy gd = sy
    \<and> gd_hsize gd = 0 \<and> gd_hlimit gd = hlimit \<and> gd_flags gd = GRID_HISTORY
    \<and> (\<forall>y < sy. rows gd y = blank_row))"
  using assms by (auto simp: grid_create_def grid_good_def grid_shown_def grid_ok_def rows_def)

lemma screen_reinit_runs:
  assumes ok: "grid_good (s_grid s)" and sx: "screen_size_x s + 7 < UINT_MOD"
  shows "runs (screen_reinit s) (\<lambda>s'. screen_ok s' \<and> s_cx s' = 0 \<and> s_cy s' = 0 \<and> s_rupper s' = 0
    \<and> s_rlower s' = screen_size_y s - 1 \<and> s_mode s' = MODE_CURSOR OR MODE_WRAP
    \<and> \<not> sel_flag (s_sel s') \<and> view_becomes (s_grid s) (\<lambda>y. blank_row) (s_grid s')
    \<and> (\<forall>i < screen_size_x s. s_tabs s' ! i \<longleftrightarrow> 0 < i \<and> i mod 8 = 0))"
proof -
  note g = grid_goodD(1) [OF ok]
  have "runs (grid_clear_lines (screen_hsize s) (screen_size_y s) (s_grid s)) (becomes (s_grid s)
      (\<lambda>y. if screen_hsize s \<le> y \<and> y < screen_hsize s + screen_size_y s then blank_row else rows (s_grid s) y))"
    by (rule grid_clear_lines_runs [OF g]) simp
  then have clr: "runs (grid_clear_lines (screen_hsize s) (screen_size_y s) (s_grid s))
      (view_becomes (s_grid s) (\<lambda>y. blank_row))"
    by (rule runs_mono) (erule view_becomesI, auto)
  have u: "usub (screen_size_y s) 1 = screen_size_y s - 1"
    using grid_okD(1,3) [OF g] by (simp add: usub_eq)
  have fin: "screen_ok (screen_clear_selection (s\<lparr>s_cx := 0, s_cy := 0, s_rupper := 0,
        s_rlower := screen_size_y s - 1, s_mode := MODE_CURSOR OR MODE_WRAP, s_tabs := tabs, s_grid := gd\<rparr>))"
    if "view_becomes (s_grid s) (\<lambda>y. blank_row) gd" "length tabs = 8 * ((screen_size_x s + 7) div 8)" for gd tabs
    using grid_good_view_becomes [OF ok that(1)] view_becomesD(1,3,4) [OF that(1)] that(2) grid_okD(3,5) [OF g] sx
    by (auto simp: screen_ok_def screen_wf_def screen_clear_selection_def grid_good_def)
  show ?thesis
    unfolding screen_reinit_def Let_def runs_bind u
    by (rule runs_mono [OF screen_reset_tabs_runs])
      (use sx clr in \<open>auto elim!: runs_mono simp: screen_clear_selection_def
        dest: fin [unfolded screen_clear_selection_def, simplified]\<close>)
qed

lemma screen_init_runs:
  assumes "0 < sx" "sx + 7 < UINT_MOD" "0 < sy" "sy < UINT_MOD"
  shows "runs (screen_init hn sx sy hlimit s) (\<lambda>s'. screen_ok s' \<and> screen_size_x s' = sx \<and> screen_size_y s' = sy
    \<and> screen_hsize s' = 0 \<and> gd_hlimit (s_grid s') = hlimit \<and> has_history (s_grid s')
    \<and> s_cx s' = 0 \<and> s_cy s' = 0 \<and> s_mode s' = MODE_CURSOR OR MODE_WRAP \<and> \<not> sel_flag (s_sel s')
    \<and> (\<forall>y < sy. view (s_grid s') y = blank_row) \<and> (\<forall>i < sx. s_tabs s' ! i \<longleftrightarrow> 0 < i \<and> i mod 8 = 0))"
  unfolding screen_init_def runs_bind
proof (rule runs_mono [OF grid_create_runs])
  fix gd assume G: "grid_good gd \<and> gd_sx gd = sx \<and> gd_sy gd = sy \<and> gd_hsize gd = 0 \<and> gd_hlimit gd = hlimit
    \<and> gd_flags gd = GRID_HISTORY \<and> (\<forall>y < sy. rows gd y = blank_row)"
  let ?s = "s\<lparr>s_grid := gd, s_title := (case hn of Some h \<Rightarrow> h | None \<Rightarrow> []), s_cstyle := 0,
    s_ccolour := [], s_tabs := []\<rparr>"
  have "flag_set GRID_HISTORY GRID_HISTORY" by (simp add: flag_set_def)
  then show "runs (screen_reinit ?s) (\<lambda>s'. screen_ok s' \<and> screen_size_x s' = sx \<and> screen_size_y s' = sy
    \<and> screen_hsize s' = 0 \<and> gd_hlimit (s_grid s') = hlimit \<and> has_history (s_grid s')
    \<and> s_cx s' = 0 \<and> s_cy s' = 0 \<and> s_mode s' = MODE_CURSOR OR MODE_WRAP \<and> \<not> sel_flag (s_sel s')
    \<and> (\<forall>y < sy. view (s_grid s') y = blank_row) \<and> (\<forall>i < sx. s_tabs s' ! i \<longleftrightarrow> 0 < i \<and> i mod 8 = 0))"
    using G assms by (intro runs_mono [OF screen_reinit_runs]) (auto dest: view_becomesD)
qed (use assms in auto)

section \<open>Resizing\<close>

text \<open>
  What a grid in the middle of a vertical resize has kept of the grid G: the first
  hsize + sy lines are well formed, each is blank or was a row of G, and the row of the
  cursor is where the cursor now is.
\<close>

definition rows_kept :: "nat \<Rightarrow> grid \<Rightarrow> grid \<Rightarrow> bool" where
  "rows_kept sy G gd \<longleftrightarrow> gd_flags gd = gd_flags G \<and> gd_sx gd = gd_sx G \<and> gd_hlimit gd = gd_hlimit G
     \<and> gd_hsize gd + sy < UINT_MOD \<and> gd_hsize gd + sy \<le> length (linedata gd)
     \<and> (\<forall>y < gd_hsize gd + sy. line_wf (linedata gd ! y)
          \<and> (rows gd y = blank_row \<or> (\<exists>y' < grid_height G. rows gd y = rows G y')))"

lemma rows_kept_self:
  assumes ok: "grid_ok G" and sy: "sy \<le> gd_sy G"
  shows "rows_kept sy G G"
proof -
  have "\<exists>y' < grid_height G. rows G y = rows G y'" if "y < gd_hsize G + sy" for y
    using that sy by (intro exI [of _ y]) simp
  then show ?thesis using grid_okD(1,2) [OF ok] grid_okD(6) [OF ok] sy by (simp add: rows_kept_def)
qed

lemma rows_kept_sub:
  assumes b: "view_becomes G V gd" and V: "\<And>y. y < gd_sy G \<Longrightarrow> V y = blank_row \<or> (\<exists>y' < gd_sy G. V y = view G y')"
    and n: "h + sy \<le> grid_height G"
  shows "rows_kept sy G (gd\<lparr>gd_hsize := h\<rparr>)"
proof -
  note ok = view_becomesD(1) [OF b] and d = view_becomesD(2-7) [OF b]
  have "rows gd y = blank_row \<or> (\<exists>y' < grid_height G. rows gd y = rows G y')" if "y < h + sy" for y
  proof (cases "y < gd_hsize G")
    case True
    then show ?thesis using view_becomesD(8) [OF b, of y] by (auto intro!: exI [of _ y])
  next
    case False
    then have y: "y - gd_hsize G < gd_sy G" "rows gd y = view gd (y - gd_hsize G)"
      using that n d by (simp_all add: view_def)
    then have "rows gd y = V (y - gd_hsize G)" using view_becomesD(9) [OF b] by simp
    then show ?thesis using V [OF y(1)]
      by (auto simp: view_def intro: exI [of _ "gd_hsize G + y'" for y'])
  qed
  then show ?thesis
    using d n grid_okD(1,2) [OF ok] grid_okD(6) [OF ok] by (simp add: rows_kept_def rows_def)
qed

lemma resize_y_shrink_runs:
  assumes wf: "screen_wf s" and sy: "0 < sy" "sy < screen_size_y s"
  shows "runs (resize_y_shrink sy s) (\<lambda>s'. s' = s\<lparr>s_grid := s_grid s', s_cy := s_cy s'\<rparr>
    \<and> rows_kept sy (s_grid s) (s_grid s') \<and> s_cy s' < sy
    \<and> rows (s_grid s') (screen_hsize s' + s_cy s') = view (s_grid s) (s_cy s))"
proof -
  let ?G = "s_grid s" and ?o = "screen_size_y s" and ?cy = "s_cy s" and ?h = "screen_hsize s"
  note ok = screen_wfD(1) [OF wf] and cy = screen_wfD(3) [OF wf] and lt = grid_okD(1) [OF screen_wfD(1) [OF wf]]
  define a where "a = min (?o - 1 - ?cy) (?o - sy)"
  define n2 where "n2 = ?o - sy - a"
  let ?V1 = "\<lambda>y. if ?o - a \<le> y then blank_row else view ?G y"
  have u: "usub ?o sy = ?o - sy" "usub (usub ?o 1) ?cy = ?o - 1 - ?cy" "usub ?o a = ?o - a"
    "usub (?o - sy) a = n2" "usub ?cy n2 = ?cy - n2" "uadd ?h n2 = ?h + n2"
    using lt sy cy by (simp_all add: usub_eq uadd_eq a_def n2_def)
  have b: "n2 \<le> ?cy" "?cy - n2 < sy" "?cy < ?o - a" "?h + n2 + sy \<le> grid_height ?G"
    "a \<le> ?o" "?h + sy \<le> grid_height ?G"
    using sy cy by (auto simp: a_def n2_def)
  have ma: "(if ?o - 1 - ?cy > ?o - sy then ?o - sy else ?o - 1 - ?cy) = a" by (simp add: a_def)
  have 1: "runs (if ?o - 1 - ?cy > 0 then do {
          gd \<leftarrow> grid_view_delete_lines (?o - a) a ?G;
          Some (gd, a) } else Some (?G, ?o - 1 - ?cy))
      (\<lambda>(gd, av). av = a \<and> view_becomes ?G ?V1 gd)"
  proof (cases "?o - 1 - ?cy > 0")
    case True
    have "runs (grid_view_delete_lines (?o - a) a ?G) (view_becomes ?G (delete_rows ?o (?o - a) a (view ?G)))"
      using True sy b by (intro grid_view_delete_lines_runs ok) (auto simp: a_def)
    then have "runs (grid_view_delete_lines (?o - a) a ?G) (view_becomes ?G ?V1)"
      by (rule runs_mono) (erule view_becomes_cong, auto simp: delete_rows_def)
    then show ?thesis using True by (simp only: if_True runs_bind runs_Some prod.case simp_thms)
  next
    case False
    then show ?thesis using ok b by (auto simp: a_def intro!: view_becomes_refl)
  qed
  have 2: "runs (if has_history gd then Some (gd\<lparr>gd_hsize := uadd (gd_hsize gd) n2\<rparr>)
           else if n2 > 0 \<and> ?cy > 0 then
             grid_view_delete_lines 0 (if ?cy > n2 then n2 else ?cy) gd
           else Some gd)
      (\<lambda>g. rows_kept sy ?G g \<and> rows g (gd_hsize g + (?cy - n2)) = view ?G ?cy)"
    if B: "view_becomes ?G ?V1 gd" for gd
  proof -
    note d = view_becomesD(1-7) [OF B] and r = view_becomesD(8,9) [OF B]
    have cur: "view gd ?cy = view ?G ?cy" using r(2) [OF cy] b(3) by simp
    have d5: "gd_hsize gd = ?h" by (rule d(5))
    consider "has_history gd" | "\<not> has_history gd" "n2 = 0" | "\<not> has_history gd" "0 < n2" by linarith
    then show ?thesis
    proof cases
      case 1
      have "rows_kept sy ?G (gd\<lparr>gd_hsize := ?h + n2\<rparr>)"
        by (rule rows_kept_sub [OF B]) (use b in auto)
      moreover have "rows (gd\<lparr>gd_hsize := ?h + n2\<rparr>) (?h + n2 + (?cy - n2)) = view ?G ?cy"
        using cur b(1) d(5) by (simp add: rows_def view_def)
      ultimately show ?thesis using 1 d(5) u(6) by simp
    next
      case 2
      have "rows_kept sy ?G (gd\<lparr>gd_hsize := ?h\<rparr>)"
        by (rule rows_kept_sub [OF B]) (use b in auto)
      moreover have "gd\<lparr>gd_hsize := ?h\<rparr> = gd" using d by simp
      moreover have "rows gd (gd_hsize gd + ?cy) = view ?G ?cy" using cur by (simp add: view_def)
      ultimately show ?thesis using 2 by simp
    next
      case 3
      then have c: "0 < ?cy" "(if ?cy > n2 then n2 else ?cy) = n2" using b(1) by auto
      have "runs (grid_view_delete_lines 0 n2 gd) (view_becomes gd (delete_rows (gd_sy gd) 0 n2 (view gd)))"
        using 3 d(1,4) b(1) cy by (intro grid_view_delete_lines_runs) auto
      then have "runs (grid_view_delete_lines 0 n2 gd) (\<lambda>g. rows_kept sy ?G g
          \<and> rows g (gd_hsize g + (?cy - n2)) = view ?G ?cy)"
      proof (rule runs_mono)
        fix g assume C: "view_becomes gd (delete_rows (gd_sy gd) 0 n2 (view gd)) g"
        let ?V2 = "\<lambda>y. if y + n2 < ?o then ?V1 (y + n2) else blank_row"
        have C': "view_becomes ?G ?V2 g"
          by (rule view_becomes_trans [OF B C]) (use d(4) r(2) in \<open>auto simp: delete_rows_def\<close>)
        have "rows_kept sy ?G (g\<lparr>gd_hsize := ?h\<rparr>)"
          by (rule rows_kept_sub [OF C']) (use b in auto)
        moreover have "g\<lparr>gd_hsize := ?h\<rparr> = g" using view_becomesD(5) [OF C'] by simp
        moreover have "view g (?cy - n2) = view ?G ?cy"
          using view_becomesD(9) [OF C', of "?cy - n2"] b(1,3) cy by simp
        ultimately show "rows_kept sy ?G g \<and> rows g (gd_hsize g + (?cy - n2)) = view ?G ?cy"
          by (simp add: view_def)
      qed
      then show ?thesis using 3 c by simp
    qed
  qed
  show ?thesis
    unfolding resize_y_shrink_def Let_def u(1,2) ma u(3) runs_bind
    by (rule runs_mono [OF 1], clarify, simp only: runs_bind runs_Some u(4))
      (rule runs_mono [OF 2], assumption, use b(2) u(5) in simp)
qed

lemma zero_lines_runs:
  assumes "b \<le> length ls" "a \<le> b"
  shows "runs (foldM (\<lambda>i. lput i grid_line_zero) [a..<b] ls) (\<lambda>ls'. length ls' = length ls
    \<and> (\<forall>y < length ls. ls' ! y = (if a \<le> y \<and> y < b then grid_line_zero else ls ! y)))"
proof -
  let ?I = "\<lambda>i xs. length xs = length ls
    \<and> (\<forall>y < length ls. xs ! y = (if a \<le> y \<and> y < i then grid_line_zero else ls ! y))"
  show ?thesis
  proof (rule runs_foldM_upt [where I = ?I])
    fix i xs assume "a \<le> i" "i < b" "?I i xs"
    then show "runs (lput i grid_line_zero xs) (?I (Suc i))"
      using assms by (auto simp: nth_list_update less_Suc_eq)
  qed (use assms in auto)
qed

lemma resize_y_grow_runs:
  assumes wf: "screen_wf s" and sy: "screen_size_y s < sy" and lim: "screen_hsize s + sy < UINT_MOD"
  shows "runs (resize_y_grow sy (screen_size_y s)
      (s\<lparr>s_grid := (s_grid s)\<lparr>linedata := xrealloc (screen_hsize s + sy) (linedata (s_grid s))\<rparr>\<rparr>))
    (\<lambda>s'. s' = s\<lparr>s_grid := s_grid s', s_cy := s_cy s'\<rparr>
    \<and> rows_kept sy (s_grid s) (s_grid s') \<and> s_cy s' < sy
    \<and> rows (s_grid s') (screen_hsize s' + s_cy s') = view (s_grid s) (s_cy s))"
proof -
  let ?G = "s_grid s" and ?o = "screen_size_y s" and ?cy = "s_cy s" and ?h = "screen_hsize s"
  let ?X = "xrealloc (?h + sy) (linedata ?G)"
  note ok = screen_wfD(1) [OF wf] and cy = screen_wfD(3) [OF wf] and lt = grid_okD(1) [OF screen_wfD(1) [OF wf]]
  define a where "a = (if has_history ?G then min ?h (sy - ?o) else 0)"
  have a: "a \<le> ?h" "a \<le> sy - ?o" by (simp_all add: a_def)
  have u: "usub sy ?o = sy - ?o" "usub ?h a = ?h - a" "uadd ?cy a = ?cy + a" "usub (sy - ?o) a = sy - ?o - a"
    "uadd (?h - a) sy = ?h - a + sy" "usub (?h - a + sy) (sy - ?o - a) = ?h + ?o"
    using a lim lt sy cy by (simp_all add: usub_eq uadd_eq)
  let ?g = "?G\<lparr>linedata := ?X, gd_hsize := ?h - a\<rparr>"
  let ?s = "s\<lparr>s_grid := ?G\<lparr>linedata := ?X\<rparr>\<rparr>"
  have sel: "resize_y_pull (sy - ?o) ?s = (s\<lparr>s_grid := ?g, s_cy := ?cy + a\<rparr>, a)"
  proof (cases "has_history ?G \<and> 0 < ?h")
    case True
    show ?thesis
    proof (cases "?h > sy - ?o")
      case less: True
      then have "a = sy - ?o" using True by (simp add: a_def)
      then show ?thesis using True less u(2,3) by (simp add: resize_y_pull_def Let_def)
    next
      case False
      then have "a = ?h" using True by (simp add: a_def)
      then show ?thesis using True False u(2,3) by (simp add: resize_y_pull_def Let_def)
    qed
  next
    case False
    then have "a = 0" by (auto simp: a_def)
    then show ?thesis using False by (auto simp: resize_y_pull_def)
  qed
  have fin: "rows_kept sy ?G (?g\<lparr>linedata := ls\<rparr>) \<and> rows (?g\<lparr>linedata := ls\<rparr>) (?h - a + (?cy + a)) = view ?G ?cy"
    if ls: "length ls = ?h + sy" "\<forall>y < ?h + sy. ls ! y = (if ?h + ?o \<le> y \<and> y < ?h - a + sy then grid_line_zero else ?X ! y)"
    for ls
  proof -
    have l: "ls ! y = (if ?h + ?o \<le> y then grid_line_zero else linedata ?G ! y)" if "y < ?h - a + sy" for y
      using that ls sy grid_okD(2) [OF ok] by (auto simp: nth_xrealloc)
    have "line_wf (ls ! y) \<and> (line_view (ls ! y) = blank_row \<or> (\<exists>y' < ?h + ?o. line_view (ls ! y) = rows ?G y'))"
      if "y < ?h - a + sy" for y
      using l [OF that] grid_okD(6) [OF ok, of y] by (auto simp: rows_def intro: exI [of _ y])
    moreover have "?h - a + (?cy + a) = ?h + ?cy" using a by simp
    moreover have "ls ! (?h + ?cy) = linedata ?G ! (?h + ?cy)" using l [of "?h + ?cy"] cy a sy by simp
    ultimately show ?thesis
      using ls a lim by (simp add: rows_kept_def rows_def view_def)
  qed
  have z: "runs (foldM (\<lambda>i. lput i grid_line_zero) [?h + ?o..<?h - a + sy] ?X)
      (\<lambda>ls. length ls = ?h + sy \<and> (\<forall>y < ?h + sy. ls ! y = (if ?h + ?o \<le> y \<and> y < ?h - a + sy then grid_line_zero else ?X ! y)))"
    using zero_lines_runs [of "?h - a + sy" ?X "?h + ?o"] a sy by simp
  have e: "resize_y_grow sy ?o ?s = Option.bind (foldM (\<lambda>i. lput i grid_line_zero)
      [?h + ?o..<?h - a + sy] ?X) (\<lambda>ls. Some (s\<lparr>s_cy := ?cy + a, s_grid := ?g\<lparr>linedata := ls\<rparr>\<rparr>))"
    using sel u(1,4,5,6) by (simp add: resize_y_grow_def)
  show ?thesis
    unfolding e runs_bind runs_Some
    by (rule runs_mono [OF z]) (use fin a sy cy in auto)
qed

text \<open>The last steps of screen_resize_y: the lines are reallocated and the sizes set.\<close>

lemma rows_kept_final:
  assumes k: "rows_kept sy G gd" and ok: "grid_ok G" and sy: "0 < sy"
    and ls: "gd_hsize gd + sy \<le> length ls" "\<And>y. y < gd_hsize gd + sy \<Longrightarrow> ls ! y = linedata gd ! y"
  shows "grid_ok (gd\<lparr>linedata := ls, gd_sy := sy\<rparr>)"
    and "grid_shown G \<Longrightarrow> grid_shown (gd\<lparr>linedata := ls, gd_sy := sy\<rparr>)"
    and "y < gd_hsize gd + sy \<Longrightarrow> rows (gd\<lparr>linedata := ls, gd_sy := sy\<rparr>) y = rows gd y"
proof -
  show "grid_ok (gd\<lparr>linedata := ls, gd_sy := sy\<rparr>)"
    using k sy ls grid_okD(4,5) [OF ok] by (simp add: grid_ok_def rows_kept_def)
  show r: "rows (gd\<lparr>linedata := ls, gd_sy := sy\<rparr>) y = rows gd y" if "y < gd_hsize gd + sy" for y
    using ls that by (simp add: rows_def)
  show "grid_shown (gd\<lparr>linedata := ls, gd_sy := sy\<rparr>)" if sh: "grid_shown G"
  proof -
    have "row_shown (gd_sx G) (rows gd y)" if "y < gd_hsize gd + sy" for y
      using k that sh row_shown_blank [OF grid_okD(5) [OF ok]]
      unfolding rows_kept_def grid_shown_def by metis
    then show ?thesis using k r by (simp add: grid_shown_def rows_kept_def)
  qed
qed

definition resized_y :: "nat \<Rightarrow> screen \<Rightarrow> screen \<Rightarrow> bool" where
  "resized_y sy s s' \<longleftrightarrow> screen_wf s' \<and> screen_size_y s' = sy \<and> screen_size_x s' = screen_size_x s
     \<and> gd_flags (s_grid s') = gd_flags (s_grid s) \<and> gd_hlimit (s_grid s') = gd_hlimit (s_grid s)
     \<and> s_rupper s' = 0 \<and> s_rlower s' = sy - 1 \<and> s_cx s' = s_cx s \<and> s_mode s' = s_mode s
     \<and> s_tabs s' = s_tabs s \<and> s_sel s' = s_sel s
     \<and> (grid_shown (s_grid s) \<longrightarrow> grid_shown (s_grid s'))
     \<and> view (s_grid s') (s_cy s') = view (s_grid s) (s_cy s)"

lemma screen_resize_y_runs:
  assumes wf: "screen_wf s" and sy: "0 < sy" and lim: "screen_hsize s + sy < UINT_MOD"
    and ne: "sy \<noteq> screen_size_y s"
  shows "runs (screen_resize_y sy s) (resized_y sy s)"
proof -
  let ?G = "s_grid s"
  note ok = screen_wfD(1) [OF wf]
  have fin: "resized_y sy s (t\<lparr>s_grid := (s_grid t)\<lparr>linedata := ls, gd_sy := sy\<rparr>, s_rupper := 0, s_rlower := usub sy 1\<rparr>)"
    if t: "t = s\<lparr>s_grid := s_grid t, s_cy := s_cy t\<rparr>" and k: "rows_kept sy ?G (s_grid t)" and cy: "s_cy t < sy"
      and cur: "rows (s_grid t) (screen_hsize t + s_cy t) = view ?G (s_cy s)"
      and ls: "screen_hsize t + sy \<le> length ls" "\<And>y. y < screen_hsize t + sy \<Longrightarrow> ls ! y = linedata (s_grid t) ! y" for t ls
  proof -
    note f = rows_kept_final [OF k ok sy ls]
    have e: "s_cx t = s_cx s" "s_mode t = s_mode s" "s_tabs t = s_tabs s" "s_sel t = s_sel s"
      by (subst t, simp)+
    have g: "gd_sx (s_grid t) = gd_sx ?G" "gd_flags (s_grid t) = gd_flags ?G" "gd_hlimit (s_grid t) = gd_hlimit ?G"
      using k by (simp_all add: rows_kept_def)
    have u: "usub sy 1 = sy - 1" using sy lim by (simp add: usub_eq)
    show ?thesis
      using f(1,2) f(3) [of "screen_hsize t + s_cy t"] cur cy e g u sy
        screen_wfD(2,7,8) [OF wf]
      by (simp add: resized_y_def screen_wf_def view_def) linarith
  qed
  show ?thesis
  proof (cases "sy < screen_size_y s")
    case True
    have "runs (do {
        ls \<leftarrow> xrealloc_lines (uadd (screen_hsize t) sy) (linedata (s_grid t));
        let t = t\<lparr>s_grid := (s_grid t)\<lparr>linedata := ls\<rparr>\<rparr>;
        Some (t\<lparr>s_grid := (s_grid t)\<lparr>gd_sy := sy\<rparr>, s_rupper := 0, s_rlower := usub sy 1\<rparr>)
      }) (resized_y sy s)"
      if t: "t = s\<lparr>s_grid := s_grid t, s_cy := s_cy t\<rparr>" and k: "rows_kept sy ?G (s_grid t)" and cy: "s_cy t < sy"
      and cur: "rows (s_grid t) (screen_hsize t + s_cy t) = view ?G (s_cy s)" for t
      using k sy fin [OF t k cy cur, of "xrealloc (screen_hsize t + sy) (linedata (s_grid t))"]
      by (simp add: rows_kept_def uadd_eq xrealloc_lines_def nth_xrealloc)
    then show ?thesis
      using True sy unfolding screen_resize_y_def Let_def
      by (auto intro!: runs_mono [OF resize_y_shrink_runs [OF wf sy True]])
  next
    case False
    then have gt: "screen_size_y s < sy" using ne by simp
    have u: "uadd (screen_hsize s) sy = screen_hsize s + sy" using lim by (simp add: uadd_eq)
    have "resized_y sy s (t\<lparr>s_grid := (s_grid t)\<lparr>gd_sy := sy\<rparr>, s_rupper := 0, s_rlower := usub sy 1\<rparr>)"
      if t: "t = s\<lparr>s_grid := s_grid t, s_cy := s_cy t\<rparr>" and k: "rows_kept sy ?G (s_grid t)" and cy: "s_cy t < sy"
      and cur: "rows (s_grid t) (screen_hsize t + s_cy t) = view ?G (s_cy s)" for t
    proof -
      have "screen_hsize t + sy \<le> length (linedata (s_grid t))" using k by (simp add: rows_kept_def)
      moreover have "(s_grid t)\<lparr>linedata := linedata (s_grid t), gd_sy := sy\<rparr> = (s_grid t)\<lparr>gd_sy := sy\<rparr>"
        by simp
      ultimately show ?thesis using fin [OF t k cy cur, of "linedata (s_grid t)"] by simp
    qed
    then show ?thesis
      using sy gt u
      by (auto simp: screen_resize_y_def xrealloc_lines_def
        intro!: runs_mono [OF resize_y_grow_runs [OF wf gt lim]])
  qed
qed

lemma screen_resize_x_runs:
  assumes wf: "screen_wf s" and sx: "0 < sx" "sx + 7 < UINT_MOD"
  shows "runs (Option.bind (screen_resize_x sx s) screen_reset_tabs) (\<lambda>s'. screen_wf s'
    \<and> screen_size_x s' = sx \<and> screen_size_y s' = screen_size_y s \<and> screen_hsize s' = screen_hsize s
    \<and> gd_flags (s_grid s') = gd_flags (s_grid s) \<and> gd_hlimit (s_grid s') = gd_hlimit (s_grid s)
    \<and> rows (s_grid s') = rows (s_grid s) \<and> s_cy s' = s_cy s \<and> s_cx s' = min (s_cx s) (if s_cx s < sx then s_cx s else sx - 1)
    \<and> s_mode s' = s_mode s \<and> s_sel s' = s_sel s \<and> s_rupper s' = s_rupper s \<and> s_rlower s' = s_rlower s)"
proof -
  let ?c = "if s_cx s < sx then s_cx s else sx - 1"
  define t where "t = s\<lparr>s_cx := ?c, s_grid := (s_grid s)\<lparr>gd_sx := sx\<rparr>\<rparr>"
  have c: "?c \<le> sx" "?c < UINT_MOD" "?c = min (s_cx s) ?c" using sx by auto
  have "screen_resize_x sx s = Some t"
    using sx by (simp add: screen_resize_x_def t_def usub_eq)
  moreover have "runs (screen_reset_tabs t) (\<lambda>s'. \<exists>tabs. s' = t\<lparr>s_tabs := tabs\<rparr>
      \<and> length tabs = 8 * ((sx + 7) div 8) \<and> (\<forall>i < sx. tabs ! i \<longleftrightarrow> 0 < i \<and> i mod 8 = 0))"
    using screen_reset_tabs_runs [of t] sx by (simp add: t_def)
  moreover have "grid_ok ((s_grid s)\<lparr>gd_sx := sx\<rparr>)"
    using screen_wfD(1) [OF wf] sx by (simp add: grid_ok_def)
  moreover have "rows ((s_grid s)\<lparr>gd_sx := sx\<rparr>) = rows (s_grid s)" by (rule ext) (simp add: rows_def)
  ultimately show ?thesis
    using wf sx c by (auto simp: screen_wf_def t_def elim!: runs_mono)
qed

definition resized :: "nat \<Rightarrow> nat \<Rightarrow> screen \<Rightarrow> screen \<Rightarrow> bool" where
  "resized sx sy s s' \<longleftrightarrow> screen_wf s' \<and> screen_size_x s' = sx \<and> screen_size_y s' = sy
     \<and> gd_flags (s_grid s') = gd_flags (s_grid s) \<and> gd_hlimit (s_grid s') = gd_hlimit (s_grid s)
     \<and> s_mode s' = s_mode s \<and> s_sel s' = s_sel s
     \<and> (s_cx s \<le> screen_size_x s \<longrightarrow> s_cx s' \<le> sx)
     \<and> (screen_size_y s \<noteq> sy \<longrightarrow> s_rupper s' = 0 \<and> s_rlower s' = sy - 1)
     \<and> (sx = screen_size_x s \<longrightarrow> grid_shown (s_grid s) \<longrightarrow> grid_shown (s_grid s'))
     \<and> view (s_grid s') (s_cy s') = view (s_grid s) (s_cy s)"

lemma screen_resize_runs:
  assumes wf: "screen_wf s" and sx: "sx + 7 < UINT_MOD" and lim: "screen_hsize s + max 1 sy < UINT_MOD"
  shows "runs (screen_resize sx sy s) (resized (max 1 sx) (max 1 sy) s)"
proof -
  let ?x = "max 1 sx" and ?y = "max 1 sy"
  have m: "(if sx < 1 then 1 else sx) = ?x" "(if sy < 1 then 1 else sy) = ?y" by auto
  have Y: "runs (if ?y \<noteq> screen_size_y t then screen_resize_y ?y t else Some t) (resized ?x ?y s)"
    if t: "screen_wf t" "screen_size_x t = ?x" "screen_size_y t = screen_size_y s" "screen_hsize t = screen_hsize s"
      "gd_flags (s_grid t) = gd_flags (s_grid s)" "gd_hlimit (s_grid t) = gd_hlimit (s_grid s)"
      "rows (s_grid t) = rows (s_grid s)" "s_cy t = s_cy s" "s_mode t = s_mode s" "s_sel t = s_sel s"
      "s_cx s \<le> screen_size_x s \<longrightarrow> s_cx t \<le> ?x" for t
  proof (cases "?y = screen_size_y t")
    case True
    then show ?thesis using t by (simp add: resized_def view_def grid_shown_def)
  next
    case False
    have "runs (screen_resize_y ?y t) (resized_y ?y t)"
      using screen_resize_y_runs [of t ?y] t False lim by simp
    then have "runs (screen_resize_y ?y t) (resized ?x ?y s)"
      by (rule runs_mono) (use t in \<open>auto simp: resized_def resized_y_def view_def grid_shown_def\<close>)
    then show ?thesis using False by simp
  qed
  show ?thesis
  proof (cases "?x = screen_size_x s")
    case True
    have "runs (if ?y \<noteq> screen_size_y s then screen_resize_y ?y s else Some s) (resized ?x ?y s)"
      by (rule Y) (use wf True in auto)
    then show ?thesis unfolding screen_resize_def m Let_def using True by simp
  next
    case False
    have "runs (Option.bind (screen_resize_x ?x s) screen_reset_tabs)
        (\<lambda>t. runs (if ?y \<noteq> screen_size_y t then screen_resize_y ?y t else Some t) (resized ?x ?y s))"
      by (rule runs_mono [OF screen_resize_x_runs [OF wf, of ?x]]) (use sx in simp, use sx in simp, rule Y, simp_all)
    then show ?thesis unfolding screen_resize_def m Let_def using False by simp
  qed
qed

section \<open>Properties\<close>


definition sample_screen :: screen where
  "sample_screen = \<lparr>s_title = [], s_grid = sample_grid, s_cx = 1, s_cy = 2, s_cstyle = 0, s_ccolour = [],
     s_rupper = 0, s_rlower = 2, s_mode = MODE_CURSOR OR MODE_WRAP, s_tabs = replicate 8 False,
     s_sel = \<lparr>sel_flag = False, sel_rectflag = False, sel_sx = 0, sel_sy = 0, sel_ex = 0, sel_ey = 0,
       sel_cell = grid_default_cell\<rparr>\<rparr>"

lemma screen_wf_sample: "screen_wf sample_screen"
  by (simp add: screen_wf_def sample_screen_def grid_ok_sample)


definition pos_le :: "nat \<times> nat \<Rightarrow> nat \<times> nat \<Rightarrow> bool" where
  "pos_le p q \<longleftrightarrow> fst p < fst q \<or> fst p = fst q \<and> snd p \<le> snd q"

definition between :: "nat \<Rightarrow> nat \<Rightarrow> nat \<Rightarrow> bool" where
  "between a b x \<longleftrightarrow> min a b \<le> x \<and> x \<le> max a b"

text \<open>
  what screen_check_selection decides. A rectangular selection is the rectangle of its two
  corners. Any other selection is, in reading order of (row, column), everything from its start
  to its end, both included; only a selection that was made upwards over several rows leaves out
  the cell at its lower end, where it was started.
\<close>

theorem screen_check_selection_area:
  "screen_check_selection s px py \<longleftrightarrow> sel_flag (s_sel s) \<and>
    (let a = (sel_sy (s_sel s), sel_sx (s_sel s)); b = (sel_ey (s_sel s), sel_ex (s_sel s)) in
     if sel_rectflag (s_sel s) then between (fst a) (fst b) py \<and> between (snd a) (snd b) px
     else if fst b < fst a then pos_le b (py, px) \<and> pos_le (py, px) a \<and> (py, px) \<noteq> a
     else if pos_le a b then pos_le a (py, px) \<and> pos_le (py, px) b
     else pos_le b (py, px) \<and> pos_le (py, px) a)"
  by (auto simp: screen_check_selection_def Let_def between_def pos_le_def split: if_splits)

end
