(* ===== verification/Screen_Write.thy ===== *)
theory Screen_Write
  imports Screen Colour Attributes
begin

text \<open>
  screen-write.c: the operations through which everything is written onto a screen. A write
  context holds the screen, whether it belongs to a pane, and the commands that have been
  handed to tty_write for the terminals that show the pane, in order (tty.c is not modelled:
  a command is its name and the contents of struct tty_ctx, a field that was not set is
  None).

  The printf-like functions take the formatted string. gc, a cell that the caller lends by
  pointer and that is written through, is returned with the context.
\<close>

datatype tty_cmd = Tty_alignmenttest | Tty_cell | Tty_clearendofline | Tty_clearendofscreen
  | Tty_clearline | Tty_clearscreen | Tty_clearstartofline | Tty_clearstartofscreen
  | Tty_deletecharacter | Tty_deleteline | Tty_insertcharacter | Tty_insertline | Tty_linefeed
  | Tty_utf8character | Tty_reverseindex | Tty_setselection | Tty_rawstring

record tty_ctx =
  t_cell :: "grid_cell option"
  t_utf8 :: "grid_utf8 option"
  t_num :: "nat option"
  t_ptr :: "byte list option"
  t_ocx :: nat
  t_ocy :: nat
  t_orupper :: nat
  t_orlower :: nat
  t_last_cell :: "grid_cell option"
  t_last_utf8 :: "grid_utf8 option"
  t_last_width :: "nat option"

record screen_write_ctx =
  sw_wp :: bool
  sw_s :: screen
  sw_out :: "(tty_cmd \<times> tty_ctx) list"

definition tty_write :: "tty_cmd \<Rightarrow> tty_ctx \<Rightarrow> screen_write_ctx \<Rightarrow> screen_write_ctx" where
  "tty_write cmd t ctx = (if sw_wp ctx then ctx\<lparr>sw_out := sw_out ctx @ [(cmd, t)]\<rparr> else ctx)"

text \<open>Update the screen, or run an operation of the grid on the grid of the screen.\<close>

definition on_screen :: "(screen \<Rightarrow> screen) \<Rightarrow> screen_write_ctx \<Rightarrow> screen_write_ctx" where
  "on_screen f ctx = ctx\<lparr>sw_s := f (sw_s ctx)\<rparr>"

definition on_grid :: "(grid \<Rightarrow> grid option) \<Rightarrow> screen_write_ctx \<Rightarrow> screen_write_ctx option" where
  "on_grid f ctx = map_option (\<lambda>gd. on_screen (\<lambda>s. s\<lparr>s_grid := gd\<rparr>) ctx) (f (s_grid (sw_s ctx)))"

section \<open>The redraw context\<close>

text \<open>
  screen_write_initctx: the position before the update and, if save_last, the last cell of
  the line of the cursor that is not padding. Reading the UTF-8 data of a cell that has none
  is a null pointer.
\<close>

definition initctx_scan :: "grid \<Rightarrow> nat \<Rightarrow> nat \<Rightarrow> nat \<times> grid_cell" where
  "initctx_scan gd sx cy =
     (case find (\<lambda>xx. \<not> is_padding (grid_view_peek_cell gd (sx - xx) cy)) [1..<sx + 1] of
        Some xx \<Rightarrow> (xx, grid_view_peek_cell gd (sx - xx) cy)
      | None \<Rightarrow> (sx + 1, if sx = 0 then grid_default_cell else grid_view_peek_cell gd 0 cy))"

definition screen_write_initctx :: "screen_write_ctx \<Rightarrow> bool \<Rightarrow> tty_ctx option" where
  "screen_write_initctx ctx save_last =
     (let s = sw_s ctx; gd = s_grid s;
          t = \<lparr>t_cell = None, t_utf8 = None, t_num = None, t_ptr = None, t_ocx = s_cx s, t_ocy = s_cy s,
            t_orupper = s_rupper s, t_orlower = s_rlower s,
            t_last_cell = None, t_last_utf8 = None, t_last_width = None\<rparr> in
      if \<not> save_last then Some t
      else
        let (xx, gc) = initctx_scan gd (screen_size_x s) (s_cy s);
            t = t\<lparr>t_last_width := Some xx, t_last_cell := Some gc\<rparr> in
        if is_utf8 gc then
          (case grid_view_peek_utf8 gd (usub (screen_size_x s) xx) (s_cy s) of
             None \<Rightarrow> None
           | Some gu \<Rightarrow> Some (t\<lparr>t_last_utf8 := Some gu\<rparr>))
        else Some t)"

text \<open>The shape of most operations: the redraw context, the work, the command.\<close>

definition with_tty :: "tty_cmd \<Rightarrow> nat option \<Rightarrow> (screen_write_ctx \<Rightarrow> screen_write_ctx option)
    \<Rightarrow> screen_write_ctx \<Rightarrow> screen_write_ctx option" where
  "with_tty cmd num f ctx = do {
     t \<leftarrow> screen_write_initctx ctx False;
     ctx1 \<leftarrow> f ctx;
     Some (tty_write cmd (t\<lparr>t_num := num\<rparr>) ctx1)
   }"

section \<open>Cursor\<close>

definition screen_write_cursorup :: "nat \<Rightarrow> screen_write_ctx \<Rightarrow> screen_write_ctx" where
  "screen_write_cursorup ny = on_screen (\<lambda>s.
     let ny = (if ny = 0 then 1 else ny);
         ny = (if s_cy s < s_rupper s then (if ny > s_cy s then s_cy s else ny)
               else if ny > usub (s_cy s) (s_rupper s) then usub (s_cy s) (s_rupper s) else ny)
     in if ny = 0 then s else s\<lparr>s_cy := usub (s_cy s) ny\<rparr>)"

definition screen_write_cursordown :: "nat \<Rightarrow> screen_write_ctx \<Rightarrow> screen_write_ctx" where
  "screen_write_cursordown ny = on_screen (\<lambda>s.
     let ny = (if ny = 0 then 1 else ny);
         below = usub (usub (screen_size_y s) 1) (s_cy s);
         above = usub (s_rlower s) (s_cy s);
         ny = (if s_cy s > s_rlower s then (if ny > below then below else ny)
               else if ny > above then above else ny)
     in if ny = 0 then s else s\<lparr>s_cy := uadd (s_cy s) ny\<rparr>)"

definition screen_write_cursorright :: "nat \<Rightarrow> screen_write_ctx \<Rightarrow> screen_write_ctx" where
  "screen_write_cursorright nx = on_screen (\<lambda>s.
     let nx = (if nx = 0 then 1 else nx);
         room = usub (usub (screen_size_x s) 1) (s_cx s);
         nx = (if nx > room then room else nx)
     in if nx = 0 then s else s\<lparr>s_cx := uadd (s_cx s) nx\<rparr>)"

definition screen_write_cursorleft :: "nat \<Rightarrow> screen_write_ctx \<Rightarrow> screen_write_ctx" where
  "screen_write_cursorleft nx = on_screen (\<lambda>s.
     let nx = (if nx = 0 then 1 else nx);
         nx = (if nx > s_cx s then s_cx s else nx)
     in if nx = 0 then s else s\<lparr>s_cx := usub (s_cx s) nx\<rparr>)"

definition screen_write_backspace :: "screen_write_ctx \<Rightarrow> screen_write_ctx option" where
  "screen_write_backspace ctx =
     (let s = sw_s ctx in
      if s_cx s = 0 then
        (if s_cy s = 0 then Some ctx
         else do {
           gl \<leftarrow> lget (usub (uadd (screen_hsize s) (s_cy s)) 1) (linedata (s_grid s));
           Some (if flag_set (gl_flags gl) GRID_LINE_WRAPPED
             then on_screen (\<lambda>s. s\<lparr>s_cy := usub (s_cy s) 1, s_cx := usub (screen_size_x s) 1\<rparr>) ctx
             else ctx)
         })
      else Some (on_screen (\<lambda>s. s\<lparr>s_cx := usub (s_cx s) 1\<rparr>) ctx))"

definition screen_write_cursormove :: "nat \<Rightarrow> nat \<Rightarrow> screen_write_ctx \<Rightarrow> screen_write_ctx" where
  "screen_write_cursormove px py = on_screen (\<lambda>s.
     let px = (if px > usub (screen_size_x s) 1 then usub (screen_size_x s) 1 else px);
         py = (if py > usub (screen_size_y s) 1 then usub (screen_size_y s) 1 else py)
     in s\<lparr>s_cx := px, s_cy := py\<rparr>)"

definition screen_write_carriagereturn :: "screen_write_ctx \<Rightarrow> screen_write_ctx" where
  "screen_write_carriagereturn = on_screen (\<lambda>s. s\<lparr>s_cx := 0\<rparr>)"

section \<open>Modes\<close>

definition mode_set :: "32 word \<Rightarrow> bool \<Rightarrow> screen_write_ctx \<Rightarrow> screen_write_ctx" where
  "mode_set m state = on_screen (\<lambda>s. if state then s\<lparr>s_mode := s_mode s OR m\<rparr>
     else s\<lparr>s_mode := s_mode s AND NOT m\<rparr>)"

definition screen_write_cursormode :: "bool \<Rightarrow> screen_write_ctx \<Rightarrow> screen_write_ctx" where
  "screen_write_cursormode = mode_set MODE_CURSOR"

definition screen_write_insertmode :: "bool \<Rightarrow> screen_write_ctx \<Rightarrow> screen_write_ctx" where
  "screen_write_insertmode = mode_set MODE_INSERT"

definition screen_write_utf8mousemode :: "bool \<Rightarrow> screen_write_ctx \<Rightarrow> screen_write_ctx" where
  "screen_write_utf8mousemode = mode_set MODE_MOUSE_UTF8"

definition screen_write_kcursormode :: "bool \<Rightarrow> screen_write_ctx \<Rightarrow> screen_write_ctx" where
  "screen_write_kcursormode = mode_set MODE_KCURSOR"

definition screen_write_kkeypadmode :: "bool \<Rightarrow> screen_write_ctx \<Rightarrow> screen_write_ctx" where
  "screen_write_kkeypadmode = mode_set MODE_KKEYPAD"

definition screen_write_mousemode_off :: "screen_write_ctx \<Rightarrow> screen_write_ctx" where
  "screen_write_mousemode_off = on_screen (\<lambda>s. s\<lparr>s_mode := s_mode s AND NOT ALL_MOUSE_MODES\<rparr>)"

definition screen_write_mousemode_on :: "32 word \<Rightarrow> screen_write_ctx \<Rightarrow> screen_write_ctx" where
  "screen_write_mousemode_on mode = on_screen (\<lambda>s. s\<lparr>s_mode := (s_mode s AND NOT ALL_MOUSE_MODES) OR mode\<rparr>)"

definition screen_write_scrollregion :: "nat \<Rightarrow> nat \<Rightarrow> screen_write_ctx \<Rightarrow> screen_write_ctx" where
  "screen_write_scrollregion rupper rlower = on_screen (\<lambda>s.
     let rupper = (if rupper > usub (screen_size_y s) 1 then usub (screen_size_y s) 1 else rupper);
         rlower = (if rlower > usub (screen_size_y s) 1 then usub (screen_size_y s) 1 else rlower)
     in if rupper \<ge> rlower then s
        else s\<lparr>s_cx := 0, s_cy := 0, s_rupper := rupper, s_rlower := rlower\<rparr>)"

section \<open>Insertion, deletion and clearing\<close>

definition screen_write_alignmenttest :: "screen_write_ctx \<Rightarrow> screen_write_ctx option" where
  "screen_write_alignmenttest = with_tty Tty_alignmenttest None (\<lambda>ctx. do {
     let s = sw_s ctx;
     let gc = grid_default_cell\<lparr>gc_data := 0x45\<rparr>;
     ctx \<leftarrow> on_grid (foldM (\<lambda>yy. foldM (\<lambda>xx. grid_view_set_cell xx yy gc) [0..<screen_size_x s])
       [0..<screen_size_y s]) ctx;
     Some (on_screen (\<lambda>s. s\<lparr>s_cx := 0, s_cy := 0, s_rupper := 0, s_rlower := usub (screen_size_y s) 1\<rparr>) ctx)
   })"

definition screen_write_insertcharacter :: "nat \<Rightarrow> screen_write_ctx \<Rightarrow> screen_write_ctx option" where
  "screen_write_insertcharacter nx ctx =
     (let s = sw_s ctx;
          nx = (if nx = 0 then 1 else nx);
          nx = (if nx > usub (screen_size_x s) (s_cx s) then usub (screen_size_x s) (s_cx s) else nx) in
      if nx = 0 then Some ctx
      else with_tty Tty_insertcharacter (Some nx) (\<lambda>ctx.
        if s_cx s \<le> usub (screen_size_x s) 1 then on_grid (grid_view_insert_cells (s_cx s) (s_cy s) nx) ctx
        else Some ctx) ctx)"

definition screen_write_deletecharacter :: "nat \<Rightarrow> screen_write_ctx \<Rightarrow> screen_write_ctx option" where
  "screen_write_deletecharacter nx ctx =
     (let s = sw_s ctx;
          nx = (if nx = 0 then 1 else nx);
          nx = (if nx > usub (screen_size_x s) (s_cx s) then usub (screen_size_x s) (s_cx s) else nx) in
      if nx = 0 then Some ctx
      else with_tty Tty_deletecharacter (Some nx) (\<lambda>ctx.
        if s_cx s \<le> usub (screen_size_x s) 1 then on_grid (grid_view_delete_cells (s_cx s) (s_cy s) nx) ctx
        else Some ctx) ctx)"

definition screen_write_insertline :: "nat \<Rightarrow> screen_write_ctx \<Rightarrow> screen_write_ctx option" where
  "screen_write_insertline ny ctx =
     (let s = sw_s ctx; ny = (if ny = 0 then 1 else ny) in
      if s_cy s < s_rupper s \<or> s_cy s > s_rlower s then
        let ny = (if ny > usub (screen_size_y s) (s_cy s) then usub (screen_size_y s) (s_cy s) else ny) in
        if ny = 0 then Some ctx
        else with_tty Tty_insertline (Some ny) (on_grid (grid_view_insert_lines (s_cy s) ny)) ctx
      else
        let room = usub (uadd (s_rlower s) 1) (s_cy s); ny = (if ny > room then room else ny) in
        if ny = 0 then Some ctx
        else with_tty Tty_insertline (Some ny) (on_grid (
          if s_cy s < s_rupper s \<or> s_cy s > s_rlower s then grid_view_insert_lines (s_cy s) ny
          else grid_view_insert_lines_region (s_rlower s) (s_cy s) ny)) ctx)"

definition screen_write_deleteline :: "nat \<Rightarrow> screen_write_ctx \<Rightarrow> screen_write_ctx option" where
  "screen_write_deleteline ny ctx =
     (let s = sw_s ctx; ny = (if ny = 0 then 1 else ny) in
      if s_cy s < s_rupper s \<or> s_cy s > s_rlower s then
        let ny = (if ny > usub (screen_size_y s) (s_cy s) then usub (screen_size_y s) (s_cy s) else ny) in
        if ny = 0 then Some ctx
        else with_tty Tty_deleteline (Some ny) (on_grid (grid_view_delete_lines (s_cy s) ny)) ctx
      else
        let room = usub (uadd (s_rlower s) 1) (s_cy s); ny = (if ny > room then room else ny) in
        if ny = 0 then Some ctx
        else with_tty Tty_deleteline (Some ny) (on_grid (
          if s_cy s < s_rupper s \<or> s_cy s > s_rlower s then grid_view_delete_lines (s_cy s) ny
          else grid_view_delete_lines_region (s_rlower s) (s_cy s) ny)) ctx)"

definition screen_write_clearline :: "screen_write_ctx \<Rightarrow> screen_write_ctx option" where
  "screen_write_clearline = with_tty Tty_clearline None (\<lambda>ctx. let s = sw_s ctx in
     on_grid (grid_view_clear 0 (s_cy s) (screen_size_x s) 1) ctx)"

definition screen_write_clearendofline :: "screen_write_ctx \<Rightarrow> screen_write_ctx option" where
  "screen_write_clearendofline = with_tty Tty_clearendofline None (\<lambda>ctx. let s = sw_s ctx; sx = screen_size_x s in
     if s_cx s \<le> usub sx 1 then on_grid (grid_view_clear (s_cx s) (s_cy s) (usub sx (s_cx s)) 1) ctx
     else Some ctx)"

definition screen_write_clearstartofline :: "screen_write_ctx \<Rightarrow> screen_write_ctx option" where
  "screen_write_clearstartofline = with_tty Tty_clearstartofline None (\<lambda>ctx. let s = sw_s ctx; sx = screen_size_x s in
     on_grid (if s_cx s > usub sx 1 then grid_view_clear 0 (s_cy s) sx 1
       else grid_view_clear 0 (s_cy s) (uadd (s_cx s) 1) 1) ctx)"

definition screen_write_clearendofscreen :: "screen_write_ctx \<Rightarrow> screen_write_ctx option" where
  "screen_write_clearendofscreen = with_tty Tty_clearendofscreen None (\<lambda>ctx.
     let s = sw_s ctx; sx = screen_size_x s; sy = screen_size_y s in
     if s_cy s = 0 \<and> has_history (s_grid s) then on_grid grid_view_clear_history ctx
     else do {
       ctx \<leftarrow> (if s_cx s \<le> usub sx 1
         then on_grid (grid_view_clear (s_cx s) (s_cy s) (usub sx (s_cx s)) 1) ctx else Some ctx);
       on_grid (grid_view_clear 0 (uadd (s_cy s) 1) sx (usub sy (uadd (s_cy s) 1))) ctx
     })"

definition screen_write_clearstartofscreen :: "screen_write_ctx \<Rightarrow> screen_write_ctx option" where
  "screen_write_clearstartofscreen = with_tty Tty_clearstartofscreen None (\<lambda>ctx.
     let s = sw_s ctx; sx = screen_size_x s in do {
       ctx \<leftarrow> (if s_cy s > 0 then on_grid (grid_view_clear 0 0 sx (s_cy s)) ctx else Some ctx);
       on_grid (if s_cx s > usub sx 1 then grid_view_clear 0 (s_cy s) sx 1
         else grid_view_clear 0 (s_cy s) (uadd (s_cx s) 1) 1) ctx
     })"

definition screen_write_clearscreen :: "screen_write_ctx \<Rightarrow> screen_write_ctx option" where
  "screen_write_clearscreen = with_tty Tty_clearscreen None (\<lambda>ctx. let s = sw_s ctx in
     if has_history (s_grid s) then on_grid grid_view_clear_history ctx
     else on_grid (grid_view_clear 0 0 (screen_size_x s) (screen_size_y s)) ctx)"

section \<open>Scrolling\<close>

definition screen_write_reverseindex :: "screen_write_ctx \<Rightarrow> screen_write_ctx option" where
  "screen_write_reverseindex = with_tty Tty_reverseindex None (\<lambda>ctx. let s = sw_s ctx in
     if s_cy s = s_rupper s then on_grid (grid_view_scroll_region_down (s_rupper s) (s_rlower s)) ctx
     else Some (if s_cy s > 0 then on_screen (\<lambda>s. s\<lparr>s_cy := usub (s_cy s) 1\<rparr>) ctx else ctx))"

definition line_set_wrapped :: "bool \<Rightarrow> grid_line \<Rightarrow> grid_line option" where
  "line_set_wrapped wrapped gl =
     Some (if wrapped then gl\<lparr>gl_flags := gl_flags gl OR GRID_LINE_WRAPPED\<rparr>
           else gl\<lparr>gl_flags := gl_flags gl AND NOT GRID_LINE_WRAPPED\<rparr>)"

definition screen_write_linefeed :: "bool \<Rightarrow> screen_write_ctx \<Rightarrow> screen_write_ctx option" where
  "screen_write_linefeed wrapped = with_tty Tty_linefeed (Some (if wrapped then 1 else 0)) (\<lambda>ctx. do {
     let s = sw_s ctx;
     ctx \<leftarrow> on_grid (with_line (uadd (screen_hsize s) (s_cy s)) (line_set_wrapped wrapped)) ctx;
     if s_cy s = s_rlower s then on_grid (grid_view_scroll_region_up (s_rupper s) (s_rlower s)) ctx
     else Some (if s_cy s < usub (screen_size_y s) 1
       then on_screen (\<lambda>s. s\<lparr>s_cy := uadd (s_cy s) 1\<rparr>) ctx else ctx)
   })"

section \<open>Writing a cell\<close>

text \<open>
  screen_write_overwrite: back from the cursor over padding to the character that it belongs
  to, and forward over padding that would be left without its character.
\<close>

fun overwrite_back :: "nat \<Rightarrow> nat \<Rightarrow> grid \<Rightarrow> (nat \<times> grid) option" where
  "overwrite_back cy 0 gd = Some (0, gd)"
| "overwrite_back cy (Suc n) gd =
     (if \<not> is_padding (grid_view_peek_cell gd (Suc n) cy) then Some (Suc n, gd)
      else Option.bind (grid_view_set_cell (Suc n) cy grid_default_cell gd) (overwrite_back cy n))"

definition overwrite_forward :: "nat \<Rightarrow> nat \<Rightarrow> nat \<Rightarrow> grid \<Rightarrow> grid option" where
  "overwrite_forward cy from_x sx gd =
     map_option snd (foldM (\<lambda>xx (go, gd).
       if \<not> go then Some (go, gd)
       else if \<not> is_padding (grid_view_peek_cell gd xx cy) then Some (False, gd)
       else map_option (Pair True) (grid_view_set_cell xx cy grid_default_cell gd))
     [from_x..<sx] (True, gd))"

definition screen_write_overwrite :: "nat \<Rightarrow> screen_write_ctx \<Rightarrow> screen_write_ctx option" where
  "screen_write_overwrite width ctx =
     (let s = sw_s ctx in on_grid (\<lambda>gd. do {
        gd1 \<leftarrow> (if is_padding (grid_view_peek_cell gd (s_cx s) (s_cy s)) then do {
            (xx, gd) \<leftarrow> overwrite_back (s_cy s) (s_cx s) gd;
            grid_view_set_cell xx (s_cy s) grid_default_cell gd
          } else Some gd);
        overwrite_forward (s_cy s) (uadd (s_cx s) width) (screen_size_x s) gd1
      }) ctx)"

text \<open>screen_write_combine: the flag is true for the result 0.\<close>

definition combine_underscores :: "grid_utf8 \<Rightarrow> grid_utf8" where
  "combine_underscores gu =
     (let i = min (gu_width gu) UTF8_SIZE;
          bytes = replicate i 0x5f @ drop i (gu_data gu)
      in gu\<lparr>gu_data := (if i \<noteq> UTF8_SIZE then bytes[i := 0xff] else bytes), gu_width := i\<rparr>)"

definition combine_cells :: "nat \<Rightarrow> nat \<Rightarrow> utf8_data \<Rightarrow> grid \<Rightarrow> grid option" where
  "combine_cells px cy u gd = do {
     (gd, p) \<leftarrow> grid_view_get_cell gd px cy;
     gc \<leftarrow> p;
     (gd, gc) \<leftarrow> (if \<not> is_utf8 gc then do {
         let tmp_gu = \<lparr>gu_width = 1, gu_data = gc_data gc # 0xff # replicate 7 undefined\<rparr>;
         gd \<leftarrow> grid_view_set_utf8 px cy tmp_gu gd;
         let gc = gc\<lparr>gc_flags := gc_flags gc OR GRID_FLAG_UTF8\<rparr>;
         gd \<leftarrow> grid_view_put_cell px cy gc gd;
         Some (gd, gc)
       } else Some (gd, gc));
     (gd, p) \<leftarrow> grid_view_get_utf8 gd px cy;
     gu \<leftarrow> p;
     (case grid_utf8_append gu u of
        Some gu' \<Rightarrow> grid_view_put_utf8 px cy gu' gd
      | None \<Rightarrow>
          if gu_width gu = 1 then
            grid_view_put_cell px cy (gc\<lparr>gc_data := 0x5f, gc_flags := gc_flags gc AND NOT GRID_FLAG_UTF8\<rparr>) gd
          else grid_view_put_utf8 px cy (combine_underscores gu) gd)
   }"

definition screen_write_combine :: "utf8_data \<Rightarrow> screen_write_ctx \<Rightarrow> (screen_write_ctx \<times> bool) option" where
  "screen_write_combine u ctx =
     (let s = sw_s ctx in
      if s_cx s = 0 then Some (ctx, False)
      else if u8_size u = 0 then None
      else map_option (\<lambda>c. (c, True)) (on_grid (combine_cells (usub (s_cx s) 1) (s_cy s) u) ctx))"

text \<open>
  The steps of screen_write_cell after the width is known: insertion, wrapping, and the
  write itself.
\<close>

definition cell_insert :: "nat \<Rightarrow> screen_write_ctx \<Rightarrow> (screen_write_ctx \<times> bool) option" where
  "cell_insert width ctx =
     (let s = sw_s ctx in
      if flag_set (s_mode s) MODE_INSERT \<and> s_cx s \<le> usub (screen_size_x s) width then
        let xx = usub (usub (screen_size_x s) (s_cx s)) width in
        map_option (\<lambda>c. (c, True)) (on_grid (grid_move_cells (uadd (s_cx s) width) (s_cx s) (s_cy s) xx) ctx)
      else Some (ctx, False))"

definition cell_wrap :: "nat \<Rightarrow> screen_write_ctx \<Rightarrow> screen_write_ctx option" where
  "cell_wrap width ctx =
     (let s = sw_s ctx in
      if flag_set (s_mode s) MODE_WRAP \<and> s_cx s > usub (screen_size_x s) width
      then map_option (on_screen (\<lambda>s. s\<lparr>s_cx := 0\<rparr>)) (screen_write_linefeed True ctx)
      else Some ctx)"

definition cell_pad :: "nat \<Rightarrow> nat \<Rightarrow> grid \<Rightarrow> grid option" where
  "cell_pad cy xx gd = do {
     (gd, p) \<leftarrow> grid_view_get_cell gd xx cy;
     (case p of
        None \<Rightarrow> Some gd
      | Some gc \<Rightarrow> grid_view_put_cell xx cy (gc\<lparr>gc_flags := gc_flags gc OR GRID_FLAG_PADDING\<rparr>) gd)
   }"

definition cell_set :: "grid_cell \<Rightarrow> grid_utf8 option \<Rightarrow> nat \<Rightarrow> screen_write_ctx \<Rightarrow> screen_write_ctx option" where
  "cell_set gc gu width ctx = do {
     let s = sw_s ctx;
     ctx \<leftarrow> on_grid (foldM (cell_pad (s_cy s)) [uadd (s_cx s) 1..<uadd (s_cx s) width]) ctx;
     ctx \<leftarrow> on_grid (grid_view_set_cell (s_cx s) (s_cy s) gc) ctx;
     ctx \<leftarrow> (case gu of
         None \<Rightarrow> Some ctx
       | Some gu \<Rightarrow> on_grid (grid_view_set_utf8 (s_cx s) (s_cy s) gu) ctx);
     Some (on_screen (\<lambda>s. s\<lparr>s_cx := uadd (s_cx s) width\<rparr>) ctx)
   }"

definition cell_draw :: "grid_cell \<Rightarrow> grid_utf8 option \<Rightarrow> nat \<Rightarrow> bool \<Rightarrow> tty_ctx \<Rightarrow> screen_write_ctx \<Rightarrow> screen_write_ctx" where
  "cell_draw gc gu width ins t ctx =
     (let s = sw_s ctx;
          t1 = (if ins then t\<lparr>t_num := Some width\<rparr> else t);
          ctx = (if ins then tty_write Tty_insertcharacter t1 ctx else ctx);
          t2 = t1\<lparr>t_utf8 := gu\<rparr> in
      if screen_check_selection s (usub (s_cx s) width) (s_cy s) then
        let m = GRID_FLAG_FG256 OR GRID_FLAG_BG256;
            sc = sel_cell (s_sel s);
            tmp_gc = sc\<lparr>gc_data := gc_data gc, gc_flags := (gc_flags gc AND NOT m) OR (gc_flags sc AND m)\<rparr>
        in tty_write Tty_cell (t2\<lparr>t_cell := Some tmp_gc\<rparr>) ctx
      else tty_write Tty_cell (t2\<lparr>t_cell := Some gc\<rparr>) ctx)"

definition cell_print :: "grid_cell \<Rightarrow> utf8_data option \<Rightarrow> nat \<Rightarrow> screen_write_ctx \<Rightarrow> screen_write_ctx option" where
  "cell_print gc u width ctx = do {
     t \<leftarrow> screen_write_initctx ctx True;
     (ctx, ins) \<leftarrow> cell_insert width ctx;
     ctx \<leftarrow> cell_wrap width ctx;
     let s = sw_s ctx;
     if (flag_set (s_mode s) MODE_WRAP \<and> s_cx s > usub (screen_size_x s) width)
        \<or> s_cy s > usub (screen_size_y s) 1 then Some ctx
     else do {
       ctx \<leftarrow> screen_write_overwrite width ctx;
       gu \<leftarrow> (if is_utf8 gc then
           (case u of None \<Rightarrow> None | Some u \<Rightarrow> map_option Some (grid_utf8_set grid_utf8_indet u))
         else Some None);
       ctx \<leftarrow> cell_set gc gu width ctx;
       Some (cell_draw gc gu width ins t ctx)
     }
   }"

definition screen_write_cell :: "grid_cell \<Rightarrow> utf8_data option \<Rightarrow> screen_write_ctx \<Rightarrow> screen_write_ctx option" where
  "screen_write_cell gc u ctx =
     (if is_padding gc then Some ctx
      else do {
        let s = sw_s ctx;
        width \<leftarrow> (if is_utf8 gc then map_option u8_width u else Some 1);
        if \<not> flag_set (s_mode s) MODE_WRAP \<and> width > 1 \<and> (width > screen_size_x s \<or>
             (s_cx s \<noteq> screen_size_x s \<and> s_cx s > usub (screen_size_x s) width))
        then Some ctx
        else if width = 0 then
          (case u of
             None \<Rightarrow> None
           | Some u \<Rightarrow> do {
               (ctx, ok) \<leftarrow> screen_write_combine u ctx;
               if ok then do {
                 t \<leftarrow> screen_write_initctx ctx False;
                 Some (tty_write Tty_utf8character t ctx)
               } else Some ctx
             })
        else cell_print gc u width ctx
      })"

definition screen_write_putc :: "grid_cell \<Rightarrow> byte \<Rightarrow> screen_write_ctx \<Rightarrow> (screen_write_ctx \<times> grid_cell) option" where
  "screen_write_putc gc ch ctx =
     (let gc = gc\<lparr>gc_data := ch\<rparr> in map_option (\<lambda>c. (c, gc)) (screen_write_cell gc None ctx))"

definition screen_write_setselection :: "byte list \<Rightarrow> screen_write_ctx \<Rightarrow> screen_write_ctx option" where
  "screen_write_setselection str ctx = do {
     t \<leftarrow> screen_write_initctx ctx False;
     Some (tty_write Tty_setselection (t\<lparr>t_ptr := Some str, t_num := Some (length str)\<rparr>) ctx)
   }"

definition screen_write_rawstring :: "byte list \<Rightarrow> screen_write_ctx \<Rightarrow> screen_write_ctx option" where
  "screen_write_rawstring str ctx = do {
     t \<leftarrow> screen_write_initctx ctx False;
     Some (tty_write Tty_rawstring (t\<lparr>t_ptr := Some str, t_num := Some (length str)\<rparr>) ctx)
   }"

section \<open>Strings\<close>

text \<open>
  The bytes of one multibyte character, appended until it is complete; None also where the
  string ends before.
\<close>

fun utf8_take :: "utf8_data \<Rightarrow> cstring \<Rightarrow> (utf8_data \<times> cstring) option" where
  "utf8_take u [] = None"
| "utf8_take u (b # bs) = Option.bind (utf8_append u b)
     (\<lambda>(u', more). if more then utf8_take u' bs else Some (u', bs))"

lemma utf8_take_shorter: "utf8_take u bs = Some (u', bs') \<Longrightarrow> length bs' < length bs"
  by (induction u bs rule: utf8_take.induct) (fastforce simp: bind_eq_Some_conv split: if_splits)+

text \<open>
  What the loops of screen_write_strlen, vnputs and cnputs read next at a byte that is not
  the end: a plain byte, a multibyte character, or the end because the character is cut off.
\<close>

datatype str_item = Plain byte | Multi utf8_data | Cut

definition str_next :: "bool \<Rightarrow> byte \<Rightarrow> cstring \<Rightarrow> (str_item \<times> cstring) option" where
  "str_next utf8flag b bs =
     (if utf8flag \<and> b > 0x7f then do {
        (u, ok) \<leftarrow> utf8_open b;
        if ok then
          (if length bs < u8_size u - 1 then Some (Cut, [])
           else map_option (\<lambda>(u', bs'). (Multi u', bs')) (utf8_take u bs))
        else Some (Plain b, bs)
      } else Some (Plain b, bs))"

lemma str_next_shorter: "str_next utf8flag b bs = Some (it, bs') \<Longrightarrow> length bs' \<le> length bs"
  by (auto simp: str_next_def bind_eq_Some_conv split: if_splits dest: utf8_take_shorter)

function strlen_loop :: "bool \<Rightarrow> cstring \<Rightarrow> nat \<Rightarrow> nat option" where
  "strlen_loop utf8flag [] sz = Some sz"
| "strlen_loop utf8flag (b # bs) sz =
     (case str_next utf8flag b bs of
        None \<Rightarrow> None
      | Some (Cut, bs') \<Rightarrow> Some sz
      | Some (Multi u, bs') \<Rightarrow> strlen_loop utf8flag bs' (sz + u8_width u)
      | Some (Plain c, bs') \<Rightarrow> strlen_loop utf8flag bs' (sz + 1))"
  by pat_completeness auto
termination
  by (relation "measure (\<lambda>(f, bs, n). length bs)") (auto dest: str_next_shorter)

definition screen_write_strlen :: "bool \<Rightarrow> cstring \<Rightarrow> nat option" where
  "screen_write_strlen utf8flag msg = strlen_loop utf8flag msg 0"

text \<open>screen_write_cstrlen: styles, #[...], are taken out first.\<close>

fun skip_style :: "cstring \<Rightarrow> cstring" where
  "skip_style [] = []"
| "skip_style (b # bs) = (if b = 0x5d then bs else skip_style bs)"

lemma skip_style_length: "length (skip_style bs) \<le> length bs"
  by (induction bs) auto

function strip_styles :: "cstring \<Rightarrow> cstring" where
  "strip_styles [] = []"
| "strip_styles (b # bs) =
     (if b = 0x23 \<and> bs \<noteq> [] \<and> hd bs = 0x5b then strip_styles (skip_style bs)
      else b # strip_styles bs)"
  by pat_completeness auto
termination
  by (relation "measure length") (auto simp: less_Suc_eq_le skip_style_length)

definition screen_write_cstrlen :: "bool \<Rightarrow> cstring \<Rightarrow> nat option" where
  "screen_write_cstrlen utf8flag msg = screen_write_strlen utf8flag (strip_styles msg)"

text \<open>The padding of a string that a wide character would take beyond its length limit.\<close>

fun put_spaces :: "nat \<Rightarrow> grid_cell \<Rightarrow> screen_write_ctx \<Rightarrow> (screen_write_ctx \<times> grid_cell) option" where
  "put_spaces 0 gc ctx = Some (ctx, gc)"
| "put_spaces (Suc n) gc ctx =
     Option.bind (screen_write_putc gc 0x20 ctx) (\<lambda>(ctx, gc). put_spaces n gc ctx)"

definition put_multi :: "grid_cell \<Rightarrow> utf8_data \<Rightarrow> screen_write_ctx \<Rightarrow> (screen_write_ctx \<times> grid_cell) option" where
  "put_multi gc u ctx =
     (let gc = gc\<lparr>gc_flags := gc_flags gc OR GRID_FLAG_UTF8\<rparr> in
      map_option (\<lambda>c. (c, gc\<lparr>gc_flags := gc_flags gc AND NOT GRID_FLAG_UTF8\<rparr>)) (screen_write_cell gc (Some u) ctx))"

function vnputs_loop :: "int \<Rightarrow> bool \<Rightarrow> cstring \<Rightarrow> nat \<Rightarrow> grid_cell \<Rightarrow> screen_write_ctx
    \<Rightarrow> (screen_write_ctx \<times> grid_cell) option" where
  "vnputs_loop maxlen utf8flag [] sz gc ctx = Some (ctx, gc)"
| "vnputs_loop maxlen utf8flag (b # bs) sz gc ctx =
     (case str_next utf8flag b bs of
        None \<Rightarrow> None
      | Some (Cut, bs') \<Rightarrow> Some (ctx, gc)
      | Some (Multi u, bs') \<Rightarrow>
          if maxlen > 0 \<and> int (sz + u8_width u) > maxlen then put_spaces (nat maxlen - sz) gc ctx
          else Option.bind (put_multi gc u ctx)
            (\<lambda>(ctx, gc). vnputs_loop maxlen utf8flag bs' (sz + u8_width u) gc ctx)
      | Some (Plain c, bs') \<Rightarrow>
          if maxlen > 0 \<and> int (sz + 1) > maxlen then Some (ctx, gc)
          else Option.bind (screen_write_putc gc c ctx)
            (\<lambda>(ctx, gc). vnputs_loop maxlen utf8flag bs' (sz + 1) gc ctx))"
  by pat_completeness auto
termination
  by (relation "measure (\<lambda>(m, f, bs, r). length bs)") (auto dest: str_next_shorter)

definition screen_write_vnputs :: "int \<Rightarrow> grid_cell \<Rightarrow> bool \<Rightarrow> cstring \<Rightarrow> screen_write_ctx
    \<Rightarrow> (screen_write_ctx \<times> grid_cell) option" where
  "screen_write_vnputs maxlen gc utf8flag msg ctx = vnputs_loop maxlen utf8flag msg 0 gc ctx"

definition screen_write_puts :: "grid_cell \<Rightarrow> cstring \<Rightarrow> screen_write_ctx \<Rightarrow> (screen_write_ctx \<times> grid_cell) option" where
  "screen_write_puts gc msg = screen_write_vnputs (-1) gc False msg"

definition screen_write_nputs :: "int \<Rightarrow> grid_cell \<Rightarrow> bool \<Rightarrow> cstring \<Rightarrow> screen_write_ctx
    \<Rightarrow> (screen_write_ctx \<times> grid_cell) option" where
  "screen_write_nputs maxlen gc utf8flag msg = screen_write_vnputs maxlen gc utf8flag msg"

section \<open>Styles\<close>

definition chars :: "cstring \<Rightarrow> string" where
  "chars bs = map (\<lambda>b. char_of (unat b)) bs"

abbreviation style_delimiters :: string where
  "style_delimiters \<equiv> '' ,''"

text \<open>
  The values that parsestyle works on before it commits them (fg, bg, attr, flags), and what
  one word does to them; None is an early return, which leaves the cell as it was.
\<close>

type_synonym style = "byte \<times> byte \<times> byte \<times> byte"

definition style_colour :: "byte \<Rightarrow> int \<Rightarrow> byte \<Rightarrow> byte \<Rightarrow> byte \<times> byte" where
  "style_colour flag val defcol flags =
     (if val \<noteq> 8 then
        if val AND 0x100 \<noteq> 0 then (word_of_int (val AND NOT 0x100), flags OR flag)
        else (word_of_int val, flags AND NOT flag)
      else (defcol, flags))"

fun style_word :: "grid_cell \<Rightarrow> string \<Rightarrow> style \<Rightarrow> style option" where
  "style_word defgc w (fg, bg, attr, flags) =
     (if strcaseeq w ''default'' then Some (gc_fg defgc, gc_bg defgc, gc_attr defgc, flags)
      else if length w > 3 \<and> strncaseeq 2 (tl w) ''g='' then
        (let val = colour_fromstring (drop 3 w) in
         if val = -1 then None
         else if hd w = CHR ''f'' \<or> hd w = CHR ''F'' then
           (let (fg', flags') = style_colour GRID_FLAG_FG256 val (gc_fg defgc) flags in Some (fg', bg, attr, flags'))
         else if hd w = CHR ''b'' \<or> hd w = CHR ''B'' then
           (let (bg', flags') = style_colour GRID_FLAG_BG256 val (gc_bg defgc) flags in Some (fg, bg', attr, flags'))
         else None)
      else if length w > 2 \<and> strncaseeq 2 w ''no'' then
        (case attributes_fromstring (drop 2 w) of
           None \<Rightarrow> None | Some val \<Rightarrow> Some (fg, bg, attr AND NOT val, flags))
      else
        (case attributes_fromstring w of
           None \<Rightarrow> None | Some val \<Rightarrow> Some (fg, bg, attr OR val, flags)))"

text \<open>
  The loop over the words of at most 31 characters (the buffer has 32). A step that took no
  character would go on for ever; the empty word is rejected by attributes_fromstring.
\<close>

lemma style_word_nonempty: "style_word defgc [] st = None"
  by (cases st) (simp add: attributes_fromstring_def strcaseeq_def)

function style_loop :: "grid_cell \<Rightarrow> string \<Rightarrow> style \<Rightarrow> style option" where
  "style_loop defgc s st =
     (let end_w = strcspn s style_delimiters in
      if end_w > 31 then None
      else case style_word defgc (take end_w s) st of
        None \<Rightarrow> None
      | Some st' \<Rightarrow>
          (let rest = drop (end_w + strspn (drop end_w s) style_delimiters) s in
           if rest = [] then Some st' else style_loop defgc rest st'))"
  by pat_completeness auto
termination
proof (relation "measure (\<lambda>(d, s, st). length s)", simp)
  fix defgc :: grid_cell and s st end_w st' rest
  assume e: "end_w = strcspn s style_delimiters" and w: "style_word defgc (take end_w s) st = Some st'"
    and r: "rest = drop (end_w + strspn (drop end_w s) style_delimiters) s" "rest \<noteq> []"
  have "take end_w s \<noteq> []" using w style_word_nonempty by (metis option.distinct(1))
  then have "0 < end_w" by (cases end_w) auto
  then show "((defgc, rest, st'), (defgc, s, st)) \<in> measure (\<lambda>(d, s, st). length s)"
    using r by (cases s) auto
qed

declare style_loop.simps [simp del]

definition screen_write_parsestyle :: "grid_cell \<Rightarrow> grid_cell \<Rightarrow> string \<Rightarrow> grid_cell" where
  "screen_write_parsestyle defgc gc s =
     (if s = [] then gc
      else if last s \<in> set style_delimiters then gc
      else case style_loop defgc s (gc_fg gc, gc_bg gc, gc_attr gc, gc_flags gc) of
        None \<Rightarrow> gc
      | Some (fg, bg, attr, flags) \<Rightarrow>
          gc\<lparr>gc_fg := fg, gc_bg := bg, gc_attr := attr, gc_flags := flags\<rparr>)"

text \<open>screen_write_cnputs: lgc is the cell that the styles change; the padding uses gc.\<close>

function cnputs_loop :: "int \<Rightarrow> bool \<Rightarrow> cstring \<Rightarrow> nat \<Rightarrow> grid_cell \<Rightarrow> grid_cell \<Rightarrow> screen_write_ctx
    \<Rightarrow> (screen_write_ctx \<times> grid_cell) option" where
  "cnputs_loop maxlen utf8flag [] sz gc lgc ctx = Some (ctx, gc)"
| "cnputs_loop maxlen utf8flag (b # bs) sz gc lgc ctx =
     (if b = 0x23 \<and> bs \<noteq> [] \<and> hd bs = 0x5b then
        (let body = tl bs; n = length (takeWhile (\<lambda>c. c \<noteq> 0x5d) body) in
         if n = length body then Some (ctx, gc)
         else cnputs_loop maxlen utf8flag (drop (n + 1) body) sz gc
           (screen_write_parsestyle gc lgc (chars (take n body))) ctx)
      else case str_next utf8flag b bs of
        None \<Rightarrow> None
      | Some (Cut, bs') \<Rightarrow> Some (ctx, gc)
      | Some (Multi u, bs') \<Rightarrow>
          if maxlen > 0 \<and> int (sz + u8_width u) > maxlen then put_spaces (nat maxlen - sz) gc ctx
          else Option.bind (put_multi lgc u ctx)
            (\<lambda>(ctx, lgc). cnputs_loop maxlen utf8flag bs' (sz + u8_width u) gc lgc ctx)
      | Some (Plain c, bs') \<Rightarrow>
          if maxlen > 0 \<and> int (sz + 1) > maxlen then Some (ctx, gc)
          else Option.bind (screen_write_putc lgc c ctx)
            (\<lambda>(ctx, lgc). cnputs_loop maxlen utf8flag bs' (sz + 1) gc lgc ctx))"
  by pat_completeness auto
termination
  by (relation "measure (\<lambda>(m, f, bs, r). length bs)") (auto dest: str_next_shorter)

definition screen_write_cnputs :: "int \<Rightarrow> grid_cell \<Rightarrow> bool \<Rightarrow> cstring \<Rightarrow> screen_write_ctx
    \<Rightarrow> (screen_write_ctx \<times> grid_cell) option" where
  "screen_write_cnputs maxlen gc utf8flag msg ctx = cnputs_loop maxlen utf8flag msg 0 gc gc ctx"

section \<open>Copying\<close>

text \<open>
  screen_write_copy: the rows py to py + ny of the grid of src, from column px. The bytes of
  the local utf8data beyond its sz are not written by the copy.
\<close>

definition copy_cell :: "grid_line \<Rightarrow> nat \<Rightarrow> screen_write_ctx \<Rightarrow> screen_write_ctx option" where
  "copy_cell gl xx ctx = do {
     gc \<leftarrow> (if xx \<ge> cellsize gl then Some grid_default_cell else lget xx (celldata gl));
     if \<not> is_utf8 gc then screen_write_cell gc None ctx
     else do {
       gu \<leftarrow> lget xx (utf8data gl);
       bytes \<leftarrow> grid_utf8_copy gu UTF8_SIZE;
       screen_write_cell gc (Some \<lparr>u8_data = bytes @ replicate (UTF8_SIZE - length bytes) undefined,
         u8_have = undefined, u8_size = length bytes, u8_width = gu_width gu\<rparr>) ctx
     }
   }"

definition copy_row :: "grid \<Rightarrow> nat \<Rightarrow> nat \<Rightarrow> nat \<Rightarrow> screen_write_ctx \<Rightarrow> screen_write_ctx option" where
  "copy_row gd px nx yy ctx =
     (if yy < uadd (gd_hsize gd) (gd_sy gd) then do {
        gl \<leftarrow> lget yy (linedata gd);
        let ax = (if px > cellsize gl then cellsize gl else px);
        let to_end = (uadd px nx = gd_sx gd \<and> uadd px nx > cellsize gl);
        let bx = (if to_end then cellsize gl else uadd px nx);
        ctx \<leftarrow> foldM (copy_cell gl) [ax..<bx] ctx;
        if to_end then screen_write_clearendofline ctx else Some ctx
      } else screen_write_clearline ctx)"

definition screen_write_copy :: "grid \<Rightarrow> nat \<Rightarrow> nat \<Rightarrow> nat \<Rightarrow> nat \<Rightarrow> screen_write_ctx \<Rightarrow> screen_write_ctx option" where
  "screen_write_copy gd px py nx ny ctx =
     (let cx = s_cx (sw_s ctx); cy = s_cy (sw_s ctx) in
      map_option fst (foldM (\<lambda>yy (ctx, cy). do {
          ctx \<leftarrow> copy_row gd px nx yy ctx;
          let cy = uadd cy 1;
          Some (screen_write_cursormove cx cy ctx, cy)
        }) [py..<uadd py ny] (ctx, cy)))"

end
