(* ===== verification/Cell_Facts.thy ===== *)
theory Cell_Facts
  imports Screen_Write
begin

text \<open>
  What the steps of screen_write_cell do to the row of the cursor: overwriting, padding,
  combining and setting a cell. A step that works on one line is computed on that line
  (\<open>set_line\<close>); its effect on the content is an update of the row.
\<close>

section \<open>Steps on one line\<close>

definition set_line :: "grid \<Rightarrow> nat \<Rightarrow> grid_line \<Rightarrow> grid" where
  "set_line gd py l = gd\<lparr>linedata := (linedata gd)[py := l]\<rparr>"

lemma set_line_simps [simp]:
  "gd_hsize (set_line gd py l) = gd_hsize gd" "gd_sy (set_line gd py l) = gd_sy gd"
  "gd_sx (set_line gd py l) = gd_sx gd" "length (linedata (set_line gd py l)) = length (linedata gd)"
  "grid_check_y (set_line gd py l) y = grid_check_y gd y"
  "grid_view_y (set_line gd py l) y = grid_view_y gd y"
  "set_line (set_line gd py l) py l' = set_line gd py l'"
  "py < length (linedata gd) \<Longrightarrow> linedata (set_line gd py l) ! py = l"
  by (simp_all add: set_line_def grid_check_y_def grid_view_y_def)

lemma set_line_self: "py < length (linedata gd) \<Longrightarrow> set_line gd py (linedata gd ! py) = gd"
  by (simp add: set_line_def)

lemma with_line_set: "py < length (linedata gd) \<Longrightarrow> with_line py f gd = map_option (set_line gd py) (f (linedata gd ! py))"
  by (cases "f (linedata gd ! py)") (simp_all add: with_line_def set_line_def)

lemma set_line_becomes:
  assumes ok: "grid_ok gd" and y: "py < grid_height gd" and l: "line_wf l"
  shows "becomes gd ((rows gd)(py := line_view l)) (set_line gd py l)"
proof -
  have "runs (with_line py (\<lambda>_. Some l) gd) (becomes gd ((rows gd)(py := line_view l)))"
    using l by (intro runs_with_line ok y) simp
  moreover have "py < length (linedata gd)" using y grid_okD(2) [OF ok] by simp
  ultimately show ?thesis by (simp add: with_line_set)
qed

text \<open>A position of a visible line, and a line that takes the place of that line.\<close>

definition visible :: "grid \<Rightarrow> nat \<Rightarrow> nat \<Rightarrow> bool" where
  "visible gd cy px \<longleftrightarrow> grid_ok gd \<and> cy < gd_sy gd \<and> px + 1 < UINT_MOD"

abbreviation put_line :: "grid \<Rightarrow> nat \<Rightarrow> grid_line \<Rightarrow> grid" where
  "put_line gd cy l \<equiv> set_line gd (gd_hsize gd + cy) l"

abbreviation line_at :: "grid \<Rightarrow> nat \<Rightarrow> grid_line" where
  "line_at gd cy \<equiv> linedata gd ! (gd_hsize gd + cy)"

lemma visibleD:
  assumes "visible gd cy px"
  shows "gd_hsize gd + cy < length (linedata gd)" "grid_view_y gd cy = gd_hsize gd + cy"
    "grid_check_y gd (gd_hsize gd + cy)" "uadd px 1 = Suc px"
    "line_wf (line_at gd cy)" "view gd cy = line_view (line_at gd cy)" "put_line gd cy (line_at gd cy) = gd"
  using assms grid_okD(1,2) [of gd] grid_okD(6) [of gd]
  by (simp_all add: visible_def uadd_eq view_def rows_def set_line_self)

lemma view_get_cell_line:
  assumes v: "visible gd cy px" and wf: "line_wf l"
  shows "grid_view_get_cell (put_line gd cy l) px cy =
    Some (put_line gd cy (line_expand (Suc px) l), Some (celldata (line_expand (Suc px) l) ! px))"
proof -
  have "px < length (celldata (line_expand (Suc px) l))"
    using line_wfD(1) [OF line_wf_expand [OF wf], of "Suc px"] by simp
  then show ?thesis
    using visibleD [OF v] by (simp add: grid_view_get_cell_def grid_get_cell_def grid_expand_line_def with_line_set)
qed

lemma view_put_cell_line:
  assumes v: "visible gd cy px"
  shows "px < length (celldata l) \<Longrightarrow> grid_view_put_cell px cy gc (put_line gd cy l) =
    Some (put_line gd cy (l\<lparr>celldata := (celldata l)[px := gc]\<rparr>))"
  using visibleD [OF v] by (simp add: grid_view_put_cell_def grid_put_cell_def with_line_set line_put_cell_def)

lemma view_get_utf8_line:
  assumes v: "visible gd cy px"
  shows "grid_view_get_utf8 (put_line gd cy l) px cy =
    Some (put_line gd cy (line_expand_utf8 (Suc px) l), Some (utf8data (line_expand_utf8 (Suc px) l) ! px))"
  using visibleD [OF v] by (simp add: grid_view_get_utf8_def grid_get_utf8_def grid_expand_line_utf8_def with_line_set)

lemma view_put_utf8_line:
  assumes v: "visible gd cy px"
  shows "px < utf8size l \<Longrightarrow> grid_view_put_utf8 px cy gu (put_line gd cy l) =
    Some (put_line gd cy (l\<lparr>utf8data := (utf8data l)[px := gu]\<rparr>))"
  using visibleD [OF v] by (simp add: grid_view_put_utf8_def grid_put_utf8_def with_line_set line_put_utf8_def)

lemma view_set_utf8_line:
  assumes v: "visible gd cy px"
  shows "grid_view_set_utf8 px cy gu (put_line gd cy l) =
    Some (put_line gd cy
      (let e = line_expand_utf8 (Suc px) l in e\<lparr>utf8data := (utf8data e)[px := gu]\<rparr>))"
  using visibleD [OF v] by (simp add: grid_view_set_utf8_def grid_set_utf8_def grid_expand_line_utf8_def grid_put_utf8_def
      with_line_set line_put_utf8_def Let_def)

lemma put_line_becomes:
  assumes v: "visible gd cy px" and l: "line_wf l" "line_view l = f (view gd cy)"
  shows "view_becomes gd (on_row cy f (view gd)) (put_line gd cy l)"
proof (rule view_of_row)
  have "gd_hsize gd + cy < grid_height gd" "grid_ok gd" using v by (simp_all add: visible_def)
  then show "becomes gd ((rows gd)(gd_hsize gd + cy := f (rows gd (gd_hsize gd + cy)))) (put_line gd cy l)"
    using set_line_becomes [of gd "gd_hsize gd + cy" l] l by (simp add: view_def)
qed

lemmas line_steps = view_get_cell_line view_put_cell_line view_get_utf8_line view_put_utf8_line view_set_utf8_line

section \<open>Padding\<close>

definition padded :: "cell_content \<Rightarrow> cell_content" where
  "padded c = ((fst c)\<lparr>gc_flags := gc_flags (fst c) OR GRID_FLAG_PADDING\<rparr>, snd c)"

lemma is_utf8_or_padding [simp]:
  "flag_set (w OR GRID_FLAG_PADDING) GRID_FLAG_UTF8 = flag_set w (GRID_FLAG_UTF8 :: byte)"
  by (simp add: flag_set_or) (simp add: flag_set_def)

lemma is_padding_or_utf8 [simp]:
  "flag_set (w OR GRID_FLAG_UTF8) GRID_FLAG_PADDING = flag_set w (GRID_FLAG_PADDING :: byte)"
  "flag_set (w AND NOT GRID_FLAG_UTF8) GRID_FLAG_PADDING = flag_set w (GRID_FLAG_PADDING :: byte)"
  by (simp add: flag_set_or) (simp add: flag_set_def, rule flag_set_clear, simp)

lemma cell_pad_runs:
  assumes ok: "grid_ok gd" and cy: "cy < gd_sy gd" and px: "px + 1 < UINT_MOD"
  shows "runs (cell_pad cy px gd) (view_becomes gd (on_row cy (on_cells (\<lambda>f. f(px := padded (f px)))) (view gd)))"
proof -
  have v: "visible gd cy px" using assms by (simp add: visible_def)
  let ?l = "line_at gd cy"
  let ?e = "line_expand (Suc px) ?l"
  let ?gc = "celldata ?e ! px"
  let ?p = "?gc\<lparr>gc_flags := gc_flags ?gc OR GRID_FLAG_PADDING\<rparr>"
  let ?r = "?e\<lparr>celldata := (celldata ?e)[px := ?p]\<rparr>"
  note wf = visibleD(5) [OF v]
  have b: "px < cellsize ?e" "px < length (celldata ?e)" using line_wfD(1) [OF line_wf_expand [OF wf], of "Suc px"] by simp_all
  have pk: "?gc = line_peek px ?l" using line_peek_expand [OF wf, of px "Suc px"] b(1) by (simp add: line_peek_def)
  have c: "cell_pad cy px gd = Some (put_line gd cy ?r)"
    using view_get_cell_line [OF v wf] view_put_cell_line [OF v b(2)] visibleD(7) [OF v]
    by (simp add: cell_pad_def)
  have "line_wf ?r" using wf b line_wfD(4) [OF wf, of px] by (intro line_wf_put) (auto simp: pk)
  moreover have "line_view ?r = on_cells (\<lambda>f. f(px := padded (f px))) (view gd cy)"
    using line_abs_put [OF line_wf_expand [OF wf] b(1), of ?p] wf visibleD(6) [OF v]
    by (simp add: line_view_def pk line_abs_def [of ?l px] padded_def fun_eq_iff)
  ultimately show ?thesis unfolding c runs_Some by (intro put_line_becomes [OF v])
qed

lemma on_row_trans:
  assumes b: "view_becomes gd (on_row cy (on_cells F) (view gd)) g"
    and c: "view_becomes g (on_row cy (on_cells G) (view g)) h" and cy: "cy < gd_sy gd"
    and FG: "G (F (fst (view gd cy))) = H (fst (view gd cy))"
  shows "view_becomes gd (on_row cy (on_cells H) (view gd)) h"
  by (rule view_becomes_trans [OF b c])
    (use view_becomesD(9) [OF b] cy FG in \<open>auto simp: on_row_def\<close>)

lemma on_row_id: "grid_ok gd \<Longrightarrow> view_becomes gd (on_row cy (on_cells (\<lambda>f. f)) (view gd)) gd"
  by (rule view_becomes_refl) (auto simp: on_row_def)

lemma cell_pads_runs:
  assumes ok: "grid_ok gd" and cy: "cy < gd_sy gd" and b: "b < UINT_MOD"
  shows "runs (foldM (cell_pad cy) [a..<b] gd) (view_becomes gd
    (on_row cy (on_cells (\<lambda>f x. if a \<le> x \<and> x < b then padded (f x) else f x)) (view gd)))"
proof (cases "a \<le> b")
  case True
  let ?F = "\<lambda>i f x. if a \<le> x \<and> x < i then padded (f x) else f x"
  show ?thesis
  proof (rule runs_foldM_upt [where I = "\<lambda>i. view_becomes gd (on_row cy (on_cells (?F i)) (view gd))"])
    have "?F a f = f" for f by (auto simp: fun_eq_iff)
    then show "view_becomes gd (on_row cy (on_cells (?F a)) (view gd)) gd" using on_row_id [OF ok] by simp
    fix i g assume i: "a \<le> i" "i < b" and B: "view_becomes gd (on_row cy (on_cells (?F i)) (view gd)) g"
    have "runs (cell_pad cy i g) (view_becomes g (on_row cy (on_cells (\<lambda>f. f(i := padded (f i)))) (view g)))"
      using i b cy view_becomesD(1,4) [OF B] by (intro cell_pad_runs) auto
    then show "runs (cell_pad cy i g) (view_becomes gd (on_row cy (on_cells (?F (Suc i))) (view gd)))"
      by (rule runs_mono) (erule on_row_trans [OF B _ cy], use i in \<open>auto simp: fun_eq_iff\<close>)
  qed (use True in auto)
next
  case False
  then have "(\<lambda>x. if a \<le> x \<and> x < b then padded (f x) else f x) = f" for f by (auto simp: fun_eq_iff)
  then show ?thesis using False on_row_id [OF ok] by simp
qed

section \<open>Blanking\<close>

definition blanks :: "nat set \<Rightarrow> (nat \<Rightarrow> cell_content) \<Rightarrow> nat \<Rightarrow> cell_content" where
  "blanks S f = (\<lambda>x. if x \<in> S then blank else f x)"

lemma blanks_empty [simp]: "blanks {} f = f"
  by (simp add: blanks_def)

lemma blanks_blanks: "blanks S (blanks T f) = blanks (S \<union> T) f"
  by (auto simp: blanks_def fun_eq_iff)

lemma row_shown_blanks: "row_shown sx r \<Longrightarrow> row_shown sx (on_cells (blanks S) r)"
  by (auto simp: row_shown_def blanks_def)

lemma blank_one_runs:
  assumes "grid_ok gd" "cy < gd_sy gd" "px + 1 < UINT_MOD"
  shows "runs (grid_view_set_cell px cy grid_default_cell gd) (view_becomes gd (on_row cy (on_cells (blanks {px})) (view gd)))"
proof -
  have "f(px := blank) = blanks {px} f" for f by (auto simp: blanks_def fun_eq_iff)
  then show ?thesis using grid_view_set_cell_runs [OF assms, of grid_default_cell] by simp
qed

text \<open>
  Going back from n over padding: the padding cells are blanked, up to the column that
  remains.
\<close>

lemma overwrite_back_runs:
  assumes "grid_ok gd" "cy < gd_sy gd" "n + 1 < UINT_MOD"
  shows "runs (overwrite_back cy n gd) (\<lambda>(xx, g). xx \<le> n
    \<and> view_becomes gd (on_row cy (on_cells (blanks {xx<..n})) (view gd)) g
    \<and> (\<forall>x. xx < x \<and> x \<le> n \<longrightarrow> is_padding (fst (fst (view gd cy) x)))
    \<and> (xx = 0 \<or> \<not> is_padding (fst (fst (view gd cy) xx))))"
  using assms
proof (induction n arbitrary: gd)
  case 0
  then show ?case using on_row_id by simp
next
  case (Suc n)
  show ?case
  proof (cases "is_padding (grid_view_peek_cell gd (Suc n) cy)")
    case False
    then show ?thesis using Suc.prems on_row_id [OF Suc.prems(1)] by (auto simp: grid_view_peek_cell_eq)
  next
    case True
    have p: "is_padding (fst (fst (view gd cy) (Suc n)))" using True Suc.prems by (simp add: grid_view_peek_cell_eq)
    have "runs (overwrite_back cy n g) (\<lambda>(xx, g). xx \<le> Suc n
        \<and> view_becomes gd (on_row cy (on_cells (blanks {xx<..Suc n})) (view gd)) g
        \<and> (\<forall>x. xx < x \<and> x \<le> Suc n \<longrightarrow> is_padding (fst (fst (view gd cy) x)))
        \<and> (xx = 0 \<or> \<not> is_padding (fst (fst (view gd cy) xx))))"
      if B: "view_becomes gd (on_row cy (on_cells (blanks {Suc n})) (view gd)) g" for g
    proof -
      have r: "fst (view g cy) = blanks {Suc n} (fst (view gd cy))"
        using view_becomesD(9) [OF B] Suc.prems(2) by (simp add: on_row_def)
      have "runs (overwrite_back cy n g) (\<lambda>(xx, h). xx \<le> n
          \<and> view_becomes g (on_row cy (on_cells (blanks {xx<..n})) (view g)) h
          \<and> (\<forall>x. xx < x \<and> x \<le> n \<longrightarrow> is_padding (fst (fst (view g cy) x)))
          \<and> (xx = 0 \<or> \<not> is_padding (fst (fst (view g cy) xx))))"
        using Suc.prems view_becomesD(1,4) [OF B] by (intro Suc.IH) auto
      then show ?thesis
      proof (rule runs_mono, clarify, intro conjI)
        fix xx h assume xx: "xx \<le> n" and C: "view_becomes g (on_row cy (on_cells (blanks {xx<..n})) (view g)) h"
          and a: "\<forall>x. xx < x \<and> x \<le> n \<longrightarrow> is_padding (fst (fst (view g cy) x))"
          and e: "xx = 0 \<or> \<not> is_padding (fst (fst (view g cy) xx))"
        have "{xx<..n} \<union> {Suc n} = {xx<..Suc n}" using xx by auto
        then show "view_becomes gd (on_row cy (on_cells (blanks {xx<..Suc n})) (view gd)) h"
          by (intro on_row_trans [OF B C Suc.prems(2)]) (simp add: blanks_blanks)
        show "\<forall>x. xx < x \<and> x \<le> Suc n \<longrightarrow> is_padding (fst (fst (view gd cy) x))"
          using a p by (auto simp: r blanks_def le_Suc_eq)
        show "xx = 0 \<or> \<not> is_padding (fst (fst (view gd cy) xx))" using e xx by (simp add: r blanks_def)
      qed simp
    qed
    then show ?thesis using True Suc.prems
      by (auto intro!: runs_mono [OF blank_one_runs])
  qed
qed

lemma overwrite_forward_runs:
  assumes ok: "grid_ok gd" and cy: "cy < gd_sy gd" and sx: "sx < UINT_MOD"
  shows "runs (overwrite_forward cy a sx gd) (\<lambda>g. \<exists>e. view_becomes gd (on_row cy (on_cells (blanks {a..<e})) (view gd)) g
    \<and> e \<le> sx \<and> (\<forall>x. a \<le> x \<and> x < e \<longrightarrow> is_padding (fst (fst (view gd cy) x)))
    \<and> (e < sx \<longrightarrow> a \<le> e \<and> \<not> is_padding (fst (fst (view gd cy) e))))"
proof (cases "a \<le> sx")
  case True
  let ?f = "\<lambda>xx (go, gd). if \<not> go then Some (go, gd)
       else if \<not> is_padding (grid_view_peek_cell gd xx cy) then Some (False, gd)
       else map_option (Pair True) (grid_view_set_cell xx cy grid_default_cell gd)"
  let ?pad = "\<lambda>x. is_padding (fst (fst (view gd cy) x))"
  let ?I = "\<lambda>i (go, g). \<exists>e. view_becomes gd (on_row cy (on_cells (blanks {a..<e})) (view gd)) g
    \<and> a \<le> e \<and> e \<le> i \<and> (\<forall>x. a \<le> x \<and> x < e \<longrightarrow> ?pad x) \<and> (if go then e = i else \<not> ?pad e)"
  have "runs (foldM ?f [a..<sx] (True, gd)) (?I sx)"
  proof (rule runs_foldM_upt [where I = ?I])
    show "?I a (True, gd)" using on_row_id [OF ok] by (auto intro!: exI [of _ a])
    fix i and st :: "bool \<times> grid" assume i: "a \<le> i" "i < sx" and I: "?I i st"
    obtain go g where st: "st = (go, g)" by force
    obtain e where e: "view_becomes gd (on_row cy (on_cells (blanks {a..<e})) (view gd)) g" "a \<le> e" "e \<le> i"
        "\<forall>x. a \<le> x \<and> x < e \<longrightarrow> ?pad x" "if go then e = i else \<not> ?pad e" using I st by auto
    have r: "fst (view g cy) = blanks {a..<e} (fst (view gd cy))"
      using view_becomesD(9) [OF e(1) cy] by (simp add: on_row_def)
    have pk: "grid_view_peek_cell g i cy = fst (fst (view gd cy) i)" if "e = i"
      using view_becomesD(1,4) [OF e(1)] cy that by (simp add: grid_view_peek_cell_eq r blanks_def)
    consider "\<not> go" | "go" "e = i" "\<not> ?pad i" | "go" "e = i" "?pad i" using e(5) by auto
    then show "runs (?f i st) (?I (Suc i))"
    proof cases
      case 1
      then show ?thesis using st e by (auto intro: exI [of _ e])
    next
      case 2
      then show ?thesis using st e pk by (auto intro: exI [of _ i])
    next
      case 3
      have "runs (grid_view_set_cell i cy grid_default_cell g) (view_becomes g (on_row cy (on_cells (blanks {i})) (view g)))"
        using i sx cy view_becomesD(1,4) [OF e(1)] by (intro blank_one_runs) auto
      then have "runs (grid_view_set_cell i cy grid_default_cell g) (\<lambda>h. ?I (Suc i) (True, h))"
      proof (rule runs_mono)
        fix h assume C: "view_becomes g (on_row cy (on_cells (blanks {i})) (view g)) h"
        have "{i} \<union> {a..<i} = {a..<Suc i}" using i by auto
        then have "view_becomes gd (on_row cy (on_cells (blanks {a..<Suc i})) (view gd)) h"
          using 3 e(1) by (intro on_row_trans [OF _ C cy]) (auto simp: blanks_blanks)
        then show "?I (Suc i) (True, h)" using e 3 by (auto simp: less_Suc_eq intro!: exI [of _ "Suc i"])
      qed
      then show ?thesis using 3 st pk by simp
    qed
  qed (use True in auto)
  then show ?thesis
    unfolding overwrite_forward_def runs_map_option
    by (rule runs_mono) (auto split: if_splits)
next
  case False
  then show ?thesis using on_row_id [OF ok] by (auto simp: overwrite_forward_def intro!: exI [of _ sx])
qed

section \<open>Combining\<close>

lemma gu_ok_underscores: "gu_ok gu \<Longrightarrow> gu_ok (combine_underscores gu)"
  by (auto simp: gu_ok_def combine_underscores_def Let_def)

text \<open>A line with UTF-8 data at px written and read back, its cells unchanged.\<close>

lemma line_put_utf8_facts:
  assumes wf: "line_wf l" and gu: "gu_ok gu" and e: "e = line_expand_utf8 (Suc px) l"
    and r: "r = e\<lparr>utf8data := (utf8data e)[px := gu]\<rparr>"
  shows "line_wf r" "gl_flags r = gl_flags l" "celldata r = celldata l" "cellsize r = cellsize l"
    "px < utf8size r" "line_abs r = (\<lambda>x. if x = px \<and> is_utf8 (line_peek x l) then (line_peek x l, Some gu) else line_abs l x)"
  using line_wf_put_utf8 [OF line_wf_expand_utf8 [OF wf] gu] line_abs_put_utf8 [OF line_wf_expand_utf8 [OF wf], of "Suc px" px gu] wf
  by (simp_all add: r e cong: if_cong)

text \<open>The first half of combining: the cell is made a UTF-8 cell, if it is not one.\<close>

definition make_utf8 :: "nat \<Rightarrow> nat \<Rightarrow> grid_cell \<Rightarrow> grid \<Rightarrow> (grid \<times> grid_cell) option" where
  "make_utf8 px cy gc gd = (if \<not> is_utf8 gc then do {
         let tmp_gu = \<lparr>gu_width = 1, gu_data = gc_data gc # 0xff # replicate 7 undefined\<rparr>;
         gd \<leftarrow> grid_view_set_utf8 px cy tmp_gu gd;
         let gc = gc\<lparr>gc_flags := gc_flags gc OR GRID_FLAG_UTF8\<rparr>;
         gd \<leftarrow> grid_view_put_cell px cy gc gd;
         Some (gd, gc)
       } else Some (gd, gc))"

lemma make_utf8_line:
  assumes v: "visible gd cy px" and wf1: "line_wf l1" and b1: "px < cellsize l1" "px < length (celldata l1)"
    and pk1: "line_peek px l1 = gc"
  shows "\<exists>l2 gc2 c. make_utf8 px cy gc (put_line gd cy l1) = Some (put_line gd cy l2, gc2)
     \<and> line_wf l2 \<and> px < utf8size l2 \<and> px < cellsize l2 \<and> px < length (celldata l2) \<and> line_peek px l2 = gc2
     \<and> is_utf8 gc2 \<and> is_padding gc2 = is_padding gc \<and> gl_flags l2 = gl_flags l1
     \<and> line_abs l2 = (line_abs l1)(px := c)"
proof (cases "is_utf8 gc")
  case True
  have "line_abs l1 = (line_abs l1)(px := line_abs l1 px)" by simp
  then show ?thesis using True wf1 b1 pk1 line_wfD(4) [OF wf1, of px]
    by (intro exI [of _ l1] exI [of _ gc] exI [of _ "line_abs l1 px"]) (simp add: make_utf8_def)
next
  case False
  let ?tmp = "\<lparr>gu_width = 1, gu_data = gc_data gc # 0xff # replicate 7 undefined\<rparr>"
  let ?gcu = "gc\<lparr>gc_flags := gc_flags gc OR GRID_FLAG_UTF8\<rparr>"
  define e where "e = line_expand_utf8 (Suc px) l1"
  define r where "r = e\<lparr>utf8data := (utf8data e)[px := ?tmp]\<rparr>"
  have tmp: "gu_ok ?tmp" by (simp add: gu_ok_def)
  note f = line_put_utf8_facts [OF wf1 tmp e_def r_def]
  define l2 where "l2 = r\<lparr>celldata := (celldata r)[px := ?gcu]\<rparr>"
  have br: "px < cellsize r" "px < length (celldata r)" using f b1 by simp_all
  have u8: "is_utf8 ?gcu" by (simp add: flag_set_or) (simp add: flag_set_def)
  have "line_wf l2" unfolding l2_def using f br by (intro line_wf_put) auto
  moreover have "line_abs l2 = (line_abs r)(px := (?gcu, Some (utf8data r ! px)))"
    unfolding l2_def using line_abs_put [OF f(1) br(1), of ?gcu] u8 by simp
  moreover have "line_abs r = line_abs l1" using f(6) False pk1 by (auto simp: fun_eq_iff)
  moreover have "line_peek px l2 = ?gcu" unfolding l2_def using line_peek_put [OF f(1) br(1)] by simp
  moreover have "grid_view_set_utf8 px cy ?tmp (put_line gd cy l1) = Some (put_line gd cy r)"
    using view_set_utf8_line [OF v] by (simp add: e_def r_def Let_def)
  moreover have "grid_view_put_cell px cy ?gcu (put_line gd cy r) = Some (put_line gd cy l2)"
    using view_put_cell_line [OF v br(2)] by (simp add: l2_def)
  ultimately show ?thesis
    using False f br u8 unfolding make_utf8_def by (intro exI [of _ l2] exI [of _ ?gcu]) (auto simp: l2_def Let_def)
qed

text \<open>The second half: the bytes are appended, or the cell is replaced.\<close>

definition append_utf8 :: "nat \<Rightarrow> nat \<Rightarrow> utf8_data \<Rightarrow> grid_cell \<Rightarrow> grid \<Rightarrow> grid option" where
  "append_utf8 px cy u gc gd = do {
     (gd, p) \<leftarrow> grid_view_get_utf8 gd px cy;
     gu \<leftarrow> p;
     (case grid_utf8_append gu u of
        Some gu' \<Rightarrow> grid_view_put_utf8 px cy gu' gd
      | None \<Rightarrow>
          if gu_width gu = 1 then
            grid_view_put_cell px cy (gc\<lparr>gc_data := 0x5f, gc_flags := gc_flags gc AND NOT GRID_FLAG_UTF8\<rparr>) gd
          else grid_view_put_utf8 px cy (combine_underscores gu) gd)
   }"

lemma combine_cells_split:
  "combine_cells px cy u gd = do {
     (gd, p) \<leftarrow> grid_view_get_cell gd px cy;
     gc \<leftarrow> p;
     (gd, gc) \<leftarrow> make_utf8 px cy gc gd;
     append_utf8 px cy u gc gd
   }"
  by (simp add: combine_cells_def make_utf8_def append_utf8_def)

lemma append_utf8_line:
  assumes v: "visible gd cy px" and u: "length (u8_data u) = UTF8_SIZE"
    and l2: "line_wf l2" "px < cellsize l2" "px < length (celldata l2)" "line_peek px l2 = gc"
  shows "\<exists>r c. append_utf8 px cy u gc (put_line gd cy l2) = Some (put_line gd cy r)
    \<and> line_wf r \<and> gl_flags r = gl_flags l2 \<and> line_abs r = (line_abs l2)(px := c) \<and> is_padding (fst c) = is_padding gc"
proof -
  define e where "e = line_expand_utf8 (Suc px) l2"
  define gu where "gu = utf8data e ! px"
  have e: "line_wf e" "px < utf8size e" "celldata e = celldata l2" "cellsize e = cellsize l2"
      "gl_flags e = gl_flags l2" "line_abs e = line_abs l2" "line_peek px e = gc"
    using l2 by (simp_all add: e_def)
  have guok: "gu_ok gu" unfolding gu_def by (rule line_wf_gu_ok [OF e(1,2)])
  have get: "grid_view_get_utf8 (put_line gd cy l2) px cy = Some (put_line gd cy e, Some gu)"
    unfolding e_def gu_def by (rule view_get_utf8_line [OF v])
  have put: "\<exists>r c. grid_view_put_utf8 px cy gu' (put_line gd cy e) = Some (put_line gd cy r)
    \<and> line_wf r \<and> gl_flags r = gl_flags l2 \<and> line_abs r = (line_abs l2)(px := c) \<and> is_padding (fst c) = is_padding gc"
    if "gu_ok gu'" for gu'
    unfolding view_put_utf8_line [OF v e(2)]
    by (intro exI [of _ "e\<lparr>utf8data := (utf8data e)[px := gu']\<rparr>"] exI [of _ "if is_utf8 gc then (gc, Some gu') else line_abs l2 px"])
      (use that e l2(4) in \<open>auto simp: line_wf_put_utf8 line_abs_put_utf8 fun_eq_iff\<close>)
  let ?un = "gc\<lparr>gc_data := 0x5f, gc_flags := gc_flags gc AND NOT GRID_FLAG_UTF8\<rparr>"
  let ?r = "e\<lparr>celldata := (celldata e)[px := ?un]\<rparr>"
  have nu: "\<not> flag_set (gc_flags gc AND NOT GRID_FLAG_UTF8) GRID_FLAG_UTF8" by (rule flag_set_clear_self)
  have np: "flag_set (gc_flags gc AND NOT GRID_FLAG_UTF8) GRID_FLAG_PADDING = is_padding gc" by (rule is_padding_or_utf8(2))
  have b: "px < cellsize e" "px < length (celldata e)" using e l2 by simp_all
  have "line_wf ?r" "line_abs ?r = (line_abs e)(px := (?un, None))"
    using line_wf_put [OF e(1) b(1), of ?un] line_abs_put [OF e(1) b(1), of ?un] nu
    by simp_all
  moreover have "grid_view_put_cell px cy ?un (put_line gd cy e) = Some (put_line gd cy ?r)"
    by (rule view_put_cell_line [OF v b(2)])
  ultimately have put_: "\<exists>r c. grid_view_put_cell px cy ?un (put_line gd cy e) = Some (put_line gd cy r)
    \<and> line_wf r \<and> gl_flags r = gl_flags l2 \<and> line_abs r = (line_abs l2)(px := c) \<and> is_padding (fst c) = is_padding gc"
    using e(5,6) np by (intro exI [of _ ?r] exI [of _ "(?un, None)"]) simp
  show ?thesis
    using put [OF gu_ok_underscores [OF guok]] put_ put [of "the (grid_utf8_append gu u)"]
      grid_utf8_append_ok [OF guok u]
    by (cases "grid_utf8_append gu u") (auto simp: append_utf8_def get)
qed

lemma combine_cells_runs:
  assumes ok: "grid_ok gd" and cy: "cy < gd_sy gd" and px: "px + 1 < UINT_MOD" and u: "length (u8_data u) = UTF8_SIZE"
  shows "runs (combine_cells px cy u gd) (\<lambda>g. \<exists>c. view_becomes gd (on_row cy (on_cells (\<lambda>f. f(px := c))) (view gd)) g
    \<and> is_padding (fst c) = is_padding (fst (fst (view gd cy) px)))"
proof -
  have v: "visible gd cy px" using ok cy px by (simp add: visible_def)
  define l1 where "l1 = line_expand (Suc px) (line_at gd cy)"
  define gc where "gc = celldata l1 ! px"
  note wf0 = visibleD(5) [OF v]
  have wf1: "line_wf l1" and b1: "px < cellsize l1" "px < length (celldata l1)"
    using wf0 line_wfD(1) [OF line_wf_expand [OF wf0], of "Suc px"] by (simp_all add: l1_def)
  have pk1: "line_peek px l1 = gc" using b1 by (simp add: line_peek_def gc_def)
  have abs1: "line_abs l1 = fst (view gd cy)" "gl_flags l1 = snd (view gd cy)"
    using wf0 visibleD(6) [OF v] by (simp_all add: l1_def line_view_def)
  have pad1: "is_padding (fst (fst (view gd cy) px)) = is_padding gc" using pk1 abs1(1) by (metis fst_line_abs)
  have get: "grid_view_get_cell gd px cy = Some (put_line gd cy l1, Some gc)"
    using view_get_cell_line [OF v wf0] visibleD(7) [OF v] by (simp add: l1_def gc_def)
  obtain l2 gc2 c2 where s2: "make_utf8 px cy gc (put_line gd cy l1) = Some (put_line gd cy l2, gc2)"
    and l2: "line_wf l2" "px < cellsize l2" "px < length (celldata l2)" "line_peek px l2 = gc2"
      "is_padding gc2 = is_padding gc" "gl_flags l2 = gl_flags l1" "line_abs l2 = (line_abs l1)(px := c2)"
    using make_utf8_line [OF v wf1 b1 pk1] by blast
  obtain r c where r: "append_utf8 px cy u gc2 (put_line gd cy l2) = Some (put_line gd cy r)"
      "line_wf r" "gl_flags r = gl_flags l2" "line_abs r = (line_abs l2)(px := c)" "is_padding (fst c) = is_padding gc2"
    using append_utf8_line [OF v u l2(1-4)] by blast
  have "combine_cells px cy u gd = Some (put_line gd cy r)"
    using get s2 r(1) by (simp add: combine_cells_split)
  moreover have "line_view r = on_cells (\<lambda>f. f(px := c)) (view gd cy)"
    using r l2 abs1 by (simp add: line_view_def)
  then have B: "view_becomes gd (on_row cy (on_cells (\<lambda>f. f(px := c))) (view gd)) (put_line gd cy r)"
    by (intro put_line_becomes [OF v r(2)])
  ultimately show ?thesis using B r(5) l2(5) pad1 by (simp only: runs_Some) blast
qed

section \<open>Setting\<close>

lemma runs_on_grid [runs_simps]:
  "runs (on_grid f ctx) P = runs (f (s_grid (sw_s ctx))) (\<lambda>g. P (ctx\<lparr>sw_s := (sw_s ctx)\<lparr>s_grid := g\<rparr>\<rparr>))"
  by (simp add: on_grid_def on_screen_def)

lemma grid_set_cell_dims: "grid_set_cell px py gc gd = Some g \<Longrightarrow> gd_hsize g = gd_hsize gd \<and> gd_sy g = gd_sy gd"
  by (auto simp: grid_set_cell_def grid_expand_line_def grid_put_cell_def with_line_def bind_eq_Some_conv split: if_splits)

lemma grid_view_set_cell_utf8_runs:
  assumes ok: "grid_ok gd" and y: "py < gd_sy gd" and n: "px + 1 < UINT_MOD" and u: "is_utf8 gc" and gu: "gu_ok gu"
  shows "runs (Option.bind (grid_view_set_cell px py gc gd) (grid_view_set_utf8 px py gu))
    (view_becomes gd (on_row py (on_cells (\<lambda>f. f(px := (gc, Some gu)))) (view gd)))"
proof -
  have "Option.bind (grid_view_set_cell px py gc gd) (grid_view_set_utf8 px py gu)
      = Option.bind (grid_set_cell px (gd_hsize gd + py) gc gd) (grid_set_utf8 px (gd_hsize gd + py) gu)"
  proof (rule Option.bind_cong)
    have y': "grid_view_y gd py = gd_hsize gd + py" using ok y grid_okD(1) [OF ok] by (simp add: grid_view_y_def uadd_eq)
    show c: "grid_view_set_cell px py gc gd = grid_set_cell px (gd_hsize gd + py) gc gd" by (simp add: grid_view_set_cell_def y')
    fix a assume "grid_set_cell px (gd_hsize gd + py) gc gd = Some a"
    then have "grid_view_y a py = gd_hsize gd + py" using grid_set_cell_dims y' by (fastforce simp: grid_view_y_def)
    then show "grid_view_set_utf8 px py gu a = grid_set_utf8 px (gd_hsize gd + py) gu a" by (simp add: grid_view_set_utf8_def)
  qed
  moreover have "runs (Option.bind (grid_set_cell px (gd_hsize gd + py) gc gd) (grid_set_utf8 px (gd_hsize gd + py) gu))
      (becomes gd ((rows gd)(gd_hsize gd + py := ((fst (rows gd (gd_hsize gd + py)))(px := (gc, Some gu)),
        snd (rows gd (gd_hsize gd + py))))))"
    using assms by (intro grid_set_cell_utf8_runs) auto
  ultimately show ?thesis by (auto elim!: runs_mono intro: view_of_row)
qed

text \<open>The row after a cell of the given width has been written at column cx.\<close>

definition write_cell :: "nat \<Rightarrow> nat \<Rightarrow> cell_content \<Rightarrow> (nat \<Rightarrow> cell_content) \<Rightarrow> nat \<Rightarrow> cell_content" where
  "write_cell cx width c f = (\<lambda>x. if x = cx then c else if cx < x \<and> x < cx + width then padded (f x) else f x)"

lemma cell_set_runs:
  assumes ok: "grid_ok (s_grid (sw_s ctx))" and cy: "s_cy (sw_s ctx) < screen_size_y (sw_s ctx)"
    and cx: "s_cx (sw_s ctx) + width < UINT_MOD" and w: "0 < width"
    and gu: "case gu of None \<Rightarrow> \<not> is_utf8 gc | Some u \<Rightarrow> is_utf8 gc \<and> gu_ok u"
  shows "runs (cell_set gc gu width ctx) (\<lambda>c. \<exists>g. c = ctx\<lparr>sw_s := (sw_s ctx)\<lparr>s_grid := g, s_cx := s_cx (sw_s ctx) + width\<rparr>\<rparr>
    \<and> view_becomes (s_grid (sw_s ctx)) (on_row (s_cy (sw_s ctx)) (on_cells (write_cell (s_cx (sw_s ctx)) width (gc, gu)))
        (view (s_grid (sw_s ctx)))) g)"
proof -
  let ?s = "sw_s ctx" and ?gd = "s_grid (sw_s ctx)" and ?cx = "s_cx (sw_s ctx)" and ?cy = "s_cy (sw_s ctx)"
  let ?P = "\<lambda>f x. if ?cx + 1 \<le> x \<and> x < ?cx + width then padded (f x) else f x"
  have u: "uadd ?cx width = ?cx + width" "uadd ?cx 1 = ?cx + 1" using cx w by (simp_all add: uadd_eq)
  have set: "runs (Option.bind (grid_view_set_cell ?cx ?cy gc g)
        (\<lambda>g. case gu of None \<Rightarrow> Some g | Some u \<Rightarrow> grid_view_set_utf8 ?cx ?cy u g))
      (view_becomes ?gd (on_row ?cy (on_cells (write_cell ?cx width (gc, gu))) (view ?gd)))"
    if B: "view_becomes ?gd (on_row ?cy (on_cells ?P) (view ?gd)) g" for g
  proof -
    have g: "grid_ok g" "?cy < gd_sy g" "?cx + 1 < UINT_MOD" using view_becomesD(1,4) [OF B] cy cx w by auto
    have "runs (Option.bind (grid_view_set_cell ?cx ?cy gc g)
        (\<lambda>g. case gu of None \<Rightarrow> Some g | Some u \<Rightarrow> grid_view_set_utf8 ?cx ?cy u g))
      (view_becomes g (on_row ?cy (on_cells (\<lambda>f. f(?cx := (gc, gu)))) (view g)))"
      using gu grid_view_set_cell_runs [OF g] grid_view_set_cell_utf8_runs [OF g]
      by (cases gu) (auto elim!: runs_mono)
    then show ?thesis
      by (rule runs_mono) (erule on_row_trans [OF B _ cy], auto simp: write_cell_def fun_eq_iff)
  qed
  have pads: "runs (foldM (cell_pad ?cy) [?cx + 1..<?cx + width] ?gd)
      (view_becomes ?gd (on_row ?cy (on_cells ?P) (view ?gd)))"
    by (rule cell_pads_runs [OF ok cy cx])
  have "runs (foldM (cell_pad ?cy) [?cx + 1..<?cx + width] ?gd) (\<lambda>g. runs (grid_view_set_cell ?cx ?cy gc g)
      (\<lambda>g. runs (case gu of None \<Rightarrow> Some g | Some u \<Rightarrow> grid_view_set_utf8 ?cx ?cy u g)
      (view_becomes ?gd (on_row ?cy (on_cells (write_cell ?cx width (gc, gu))) (view ?gd)))))"
    by (rule runs_mono [OF pads]) (use set in \<open>simp only: runs_bind\<close>)
  then show ?thesis
    unfolding cell_set_def Let_def runs_bind runs_on_grid u
    by (cases gu) (auto simp: runs_on_grid on_screen_def u elim!: runs_mono)
qed

end
