(* ===== verification/Screen_Write_Facts.thy ===== *)
theory Screen_Write_Facts
  imports Cell_Facts
begin

text \<open>
  What every operation of screen-write.c keeps. \<open>sw_good F k\<close> says that the screen of a write
  context is in order, that its frame (size, history limit, flags, whether it is a pane) is
  \<open>snd F\<close>, that the cursor is at most one column beyond the last if \<open>fst F\<close> asks for that, and
  that its history can still grow by k rows; an operation takes what it may use from k.
  Under it no operation faults: no cell outside the grid is written and no UTF-8 data that
  is not there is read.
\<close>

type_synonym sw_frame = "bool \<times> 32 word \<times> nat \<times> nat \<times> nat"

definition frame_of :: "screen_write_ctx \<Rightarrow> sw_frame" where
  "frame_of c = (let gd = s_grid (sw_s c) in (sw_wp c, gd_flags gd, gd_sx gd, gd_sy gd, gd_hlimit gd))"

definition sw_good :: "bool \<times> sw_frame \<Rightarrow> nat \<Rightarrow> screen_write_ctx \<Rightarrow> bool" where
  "sw_good F k c \<longleftrightarrow> screen_ok (sw_s c) \<and> frame_of c = snd F \<and> (fst F \<longrightarrow> s_cx (sw_s c) \<le> screen_size_x (sw_s c)) \<and> flag_set (s_mode (sw_s c)) MODE_WRAP
     \<and> 2 \<le> screen_size_x (sw_s c) \<and> 0 < gd_hlimit (s_grid (sw_s c))
     \<and> screen_hsize (sw_s c) + screen_size_y (sw_s c) + k < UINT_MOD"

lemma sw_goodD:
  assumes "sw_good F k c"
  shows "screen_ok (sw_s c)" "screen_wf (sw_s c)" "grid_good (s_grid (sw_s c))" "grid_ok (s_grid (sw_s c))"
    "frame_of c = snd F" "flag_set (s_mode (sw_s c)) MODE_WRAP"
    "2 \<le> screen_size_x (sw_s c)" "0 < gd_hlimit (s_grid (sw_s c))"
    "screen_hsize (sw_s c) + screen_size_y (sw_s c) + k < UINT_MOD"
    "s_cx (sw_s c) < UINT_MOD" "s_cy (sw_s c) < screen_size_y (sw_s c)"
    "s_rlower (sw_s c) < screen_size_y (sw_s c)" "s_rupper (sw_s c) \<le> s_rlower (sw_s c)"
    "screen_size_x (sw_s c) + 7 < UINT_MOD" "screen_size_y (sw_s c) < UINT_MOD"
    "fst F \<Longrightarrow> s_cx (sw_s c) \<le> screen_size_x (sw_s c)"
  using assms screen_okD [of "sw_s c"] screen_wfD [of "sw_s c"] grid_goodD(1) [of "s_grid (sw_s c)"]
  by (auto simp: sw_good_def)

lemma sw_good_less: "sw_good F k c \<Longrightarrow> j \<le> k \<Longrightarrow> sw_good F j c"
  by (auto simp: sw_good_def)

lemma sw_good_tty [simp]: "sw_good F k (tty_write cmd t c) = sw_good F k c"
  by (simp add: tty_write_def sw_good_def frame_of_def Let_def)

lemma tty_write_sel [simp]: "sw_s (tty_write cmd t c) = sw_s c" "sw_wp (tty_write cmd t c) = sw_wp c"
  by (simp_all add: tty_write_def)

lemma on_screen_sel [simp]: "sw_s (on_screen f c) = f (sw_s c)" "sw_wp (on_screen f c) = sw_wp c"
  by (simp_all add: on_screen_def)

section \<open>The cursor and the modes\<close>

lemma sw_good_set:
  assumes g: "sw_good F k c"
    and f: "s_grid (f (sw_s c)) = s_grid (sw_s c)" "s_tabs (f (sw_s c)) = s_tabs (sw_s c)"
      "s_cx (f (sw_s c)) < UINT_MOD"
      "fst F \<Longrightarrow> s_cx (sw_s c) \<le> screen_size_x (sw_s c) \<Longrightarrow> s_cx (f (sw_s c)) \<le> screen_size_x (sw_s c)" "s_cy (f (sw_s c)) < screen_size_y (sw_s c)"
      "s_rupper (f (sw_s c)) < s_rlower (f (sw_s c)) \<and> s_rlower (f (sw_s c)) < screen_size_y (sw_s c)
        \<or> s_rupper (f (sw_s c)) = s_rupper (sw_s c) \<and> s_rlower (f (sw_s c)) = s_rlower (sw_s c)
        \<or> s_rupper (f (sw_s c)) = 0 \<and> s_rlower (f (sw_s c)) = screen_size_y (sw_s c) - 1"
      "flag_set (s_mode (f (sw_s c))) MODE_WRAP"
  shows "sw_good F k (on_screen f c)"
  using g f by (auto simp: sw_good_def screen_ok_def screen_wf_def frame_of_def Let_def)

text \<open>Everything but the cursor as it was.\<close>

definition cursor_at :: "nat \<Rightarrow> nat \<Rightarrow> screen_write_ctx \<Rightarrow> screen_write_ctx" where
  "cursor_at x y c = c\<lparr>sw_s := (sw_s c)\<lparr>s_cx := x, s_cy := y\<rparr>\<rparr>"

lemma sw_good_cursor_at: "sw_good F k c \<Longrightarrow> x < UINT_MOD \<Longrightarrow> (fst F \<Longrightarrow> s_cx (sw_s c) \<le> screen_size_x (sw_s c) \<Longrightarrow> x \<le> screen_size_x (sw_s c)) \<Longrightarrow>
   y < screen_size_y (sw_s c) \<Longrightarrow> sw_good F k (cursor_at x y c)"
  using sw_good_set [of F k c "\<lambda>s. s\<lparr>s_cx := x, s_cy := y\<rparr>"] sw_goodD(6) [of F k c]
  by (simp add: cursor_at_def on_screen_def)

lemma cursor_at_same: "x = s_cx (sw_s c) \<Longrightarrow> y = s_cy (sw_s c) \<Longrightarrow> cursor_at x y c = c"
  by (simp add: cursor_at_def)

lemma on_screen_cursor:
  "f (sw_s c) = (sw_s c)\<lparr>s_cx := x, s_cy := y\<rparr> \<Longrightarrow> on_screen f c = cursor_at x y c"
  by (simp add: on_screen_def cursor_at_def)

text \<open>
  Where the cursor goes, in numbers that do not wrap; but beyond the last column, where the
  cursor is after a write to that column, screen_write_cursorright computes a room that wraps.
\<close>

lemma usub_one: "0 < n \<Longrightarrow> n < UINT_MOD \<Longrightarrow> usub n 1 = n - 1"
  by (simp add: usub_eq)

lemma set_cursor_if:
  "(if b then s else s\<lparr>s_cy := y\<rparr>) = s\<lparr>s_cx := s_cx s, s_cy := (if b then s_cy s else y)\<rparr>"
  "(if b then s else s\<lparr>s_cx := x\<rparr>) = s\<lparr>s_cx := (if b then s_cx s else x), s_cy := s_cy s\<rparr>"
  by simp_all

definition step_of :: "nat \<Rightarrow> nat \<Rightarrow> nat" where
  "step_of n room = (let n = (if n = 0 then 1 else n) in if n > room then room else n)"

lemma step_of_eq: "step_of n room = min room (max 1 n)"
  by (auto simp: step_of_def Let_def)

lemma move_back:
  assumes "y < UINT_MOD" "lo \<le> y" "m = step_of n (usub y lo)"
  shows "(if m = 0 then y else usub y m) = max lo (y - max 1 n)"
  using assms by (auto simp: step_of_eq usub_eq max_def min_def simp del: One_nat_def)

lemma move_on:
  assumes "hi < UINT_MOD" "y \<le> hi" "m = step_of n (usub hi y)"
  shows "(if m = 0 then y else uadd y m) = min hi (y + max 1 n)"
proof -
  have "usub hi y = hi - y" using assms by (simp add: usub_eq)
  moreover have "uadd y a = y + a" if "a \<le> hi - y" for a using assms that by (simp add: uadd_eq)
  ultimately show ?thesis using assms by (auto simp: step_of_eq max_def min_def simp del: One_nat_def)
qed

lemma cursorup_at:
  assumes g: "sw_good F k c"
  shows "screen_write_cursorup n c = cursor_at (s_cx (sw_s c))
    (if s_cy (sw_s c) < s_rupper (sw_s c) then s_cy (sw_s c) - max 1 n
     else max (s_rupper (sw_s c)) (s_cy (sw_s c) - max 1 n)) c"
proof -
  let ?y = "s_cy (sw_s c)" and ?lo = "if s_cy (sw_s c) < s_rupper (sw_s c) then 0 else s_rupper (sw_s c)"
  let ?m = "step_of n (usub ?y ?lo)"
  have b: "?y < UINT_MOD" using sw_goodD(11,15) [OF g] by simp
  have "usub ?y 0 = ?y" using b by (simp add: usub_eq)
  then have "screen_write_cursorup n c = on_screen (\<lambda>s. if ?m = 0 then s else s\<lparr>s_cy := usub (s_cy s) ?m\<rparr>) c"
    by (auto simp: screen_write_cursorup_def on_screen_def Let_def step_of_def)
  also have "\<dots> = cursor_at (s_cx (sw_s c)) (if ?m = 0 then ?y else usub ?y ?m) c"
    by (rule on_screen_cursor) (rule set_cursor_if)
  finally show ?thesis using move_back [OF b, of ?lo ?m n] by (auto split: if_splits)
qed

lemma cursordown_at:
  assumes g: "sw_good F k c"
  shows "screen_write_cursordown n c = cursor_at (s_cx (sw_s c))
    (min (if s_cy (sw_s c) > s_rlower (sw_s c) then screen_size_y (sw_s c) - 1 else s_rlower (sw_s c))
      (s_cy (sw_s c) + max 1 n)) c"
proof -
  let ?y = "s_cy (sw_s c)"
  let ?hi = "if ?y > s_rlower (sw_s c) then screen_size_y (sw_s c) - 1 else s_rlower (sw_s c)"
  let ?m = "step_of n (usub ?hi ?y)"
  have b: "?hi < UINT_MOD" "?y \<le> ?hi" using sw_goodD(11,12,15) [OF g] by auto
  have "usub (screen_size_y (sw_s c)) 1 = screen_size_y (sw_s c) - 1"
    using sw_goodD(11,15) [OF g] by (intro usub_one) auto
  then have "screen_write_cursordown n c = on_screen (\<lambda>s. if ?m = 0 then s else s\<lparr>s_cy := uadd (s_cy s) ?m\<rparr>) c"
    by (auto simp: screen_write_cursordown_def on_screen_def Let_def step_of_def simp del: One_nat_def)
  also have "\<dots> = cursor_at (s_cx (sw_s c)) (if ?m = 0 then ?y else uadd ?y ?m) c"
    by (rule on_screen_cursor) (rule set_cursor_if)
  finally show ?thesis using move_on [OF b, of ?m n] by simp
qed

lemma cursorleft_at:
  assumes g: "sw_good F k c"
  shows "screen_write_cursorleft n c = cursor_at (s_cx (sw_s c) - max 1 n) (s_cy (sw_s c)) c"
proof -
  let ?x = "s_cx (sw_s c)"
  let ?m = "step_of n (usub ?x 0)"
  have b: "?x < UINT_MOD" by (rule sw_goodD(10) [OF g])
  have "usub ?x 0 = ?x" using b by (simp add: usub_eq)
  then have "screen_write_cursorleft n c = on_screen (\<lambda>s. if ?m = 0 then s else s\<lparr>s_cx := usub (s_cx s) ?m\<rparr>) c"
    by (simp add: screen_write_cursorleft_def on_screen_def Let_def step_of_def)
  also have "\<dots> = cursor_at (if ?m = 0 then ?x else usub ?x ?m) (s_cy (sw_s c)) c"
    by (rule on_screen_cursor) (rule set_cursor_if)
  finally show ?thesis using move_back [OF b, of 0 ?m n] by simp
qed

lemma cursorright_step:
  "screen_write_cursorright n c =
    (let m = step_of n (usub (usub (screen_size_x (sw_s c)) 1) (s_cx (sw_s c))) in
     cursor_at (if m = 0 then s_cx (sw_s c) else uadd (s_cx (sw_s c)) m) (s_cy (sw_s c)) c)"
proof -
  let ?m = "step_of n (usub (usub (screen_size_x (sw_s c)) 1) (s_cx (sw_s c)))"
  have "screen_write_cursorright n c = on_screen (\<lambda>s. if ?m = 0 then s else s\<lparr>s_cx := uadd (s_cx s) ?m\<rparr>) c"
    by (simp add: screen_write_cursorright_def on_screen_def Let_def step_of_def)
  also have "\<dots> = cursor_at (if ?m = 0 then s_cx (sw_s c) else uadd (s_cx (sw_s c)) ?m) (s_cy (sw_s c)) c"
    by (rule on_screen_cursor) (rule set_cursor_if)
  finally show ?thesis by (simp only: Let_def)
qed

lemma cursorright_at:
  assumes g: "sw_good F k c" and x: "s_cx (sw_s c) < screen_size_x (sw_s c)"
  shows "screen_write_cursorright n c =
    cursor_at (min (screen_size_x (sw_s c) - 1) (s_cx (sw_s c) + max 1 n)) (s_cy (sw_s c)) c"
proof -
  have u: "usub (screen_size_x (sw_s c)) 1 = screen_size_x (sw_s c) - 1"
    using x sw_goodD(14) [OF g] by (intro usub_one) auto
  have "screen_size_x (sw_s c) - 1 < UINT_MOD" "s_cx (sw_s c) \<le> screen_size_x (sw_s c) - 1"
    using x sw_goodD(14) [OF g] by auto
  then show ?thesis unfolding cursorright_step u Let_def by (simp only: move_on [OF _ _ refl])
qed

lemma cursorright_beyond:
  assumes g: "sw_good F k c" and x: "s_cx (sw_s c) = screen_size_x (sw_s c)" and n: "s_cx (sw_s c) + max 1 n < UINT_MOD"
  shows "screen_write_cursorright n c = cursor_at (s_cx (sw_s c) + max 1 n) (s_cy (sw_s c)) c"
proof -
  have u: "usub (screen_size_x (sw_s c)) 1 = screen_size_x (sw_s c) - 1"
    using sw_goodD(7,14) [OF g] by (intro usub_one) auto
  have "usub (usub (screen_size_x (sw_s c)) 1) (s_cx (sw_s c)) = UINT_MOD - 1"
    unfolding u x using sw_goodD(7,14) [OF g] by (subst usub_wrap) auto
  then have "step_of n (usub (usub (screen_size_x (sw_s c)) 1) (s_cx (sw_s c))) = max 1 n"
    using n unfolding step_of_eq by simp
  then show ?thesis using n unfolding cursorright_step Let_def by (simp add: uadd_eq)
qed

lemma cursorright_good:
  assumes g: "sw_good F k c" and F: "\<not> fst F"
  shows "sw_good F k (screen_write_cursorright n c)"
  unfolding cursorright_step Let_def using sw_goodD(10,11) [OF g] F by (intro sw_good_cursor_at g) auto

lemma sw_good_cursor_moves:
  assumes g: "sw_good F k c"
  shows "sw_good F k (screen_write_cursorup n c)" "sw_good F k (screen_write_cursordown n c)"
    "sw_good F k (screen_write_cursorleft n c)"
    "sw_good F k (screen_write_cursormove x y c)" "sw_good F k (screen_write_carriagereturn c)"
proof -
  note b = sw_goodD(10,11,12,13) [OF g]
  show "sw_good F k (screen_write_cursorup n c)" unfolding cursorup_at [OF g]
    using b by (intro sw_good_cursor_at g) (auto simp: Let_def)
  show "sw_good F k (screen_write_cursordown n c)" unfolding cursordown_at [OF g]
    using b by (intro sw_good_cursor_at g) (auto simp: Let_def)
  show "sw_good F k (screen_write_cursorleft n c)" unfolding cursorleft_at [OF g]
    using b by (intro sw_good_cursor_at g) auto
  show "sw_good F k (screen_write_cursormove x y c)" unfolding screen_write_cursormove_def
    using sw_goodD(6,7,11,14,15) [OF g] by (intro sw_good_set g) (auto simp: Let_def usub_eq)
  show "sw_good F k (screen_write_carriagereturn c)" unfolding screen_write_carriagereturn_def
    using sw_goodD(6,11) [OF g] by (intro sw_good_set g) auto
qed

lemma cursormove_at:
  assumes g: "sw_good F k c"
  shows "screen_write_cursormove x y c = cursor_at (min x (screen_size_x (sw_s c) - 1)) (min y (screen_size_y (sw_s c) - 1)) c"
proof -
  have "usub (screen_size_x (sw_s c)) 1 = screen_size_x (sw_s c) - 1" "usub (screen_size_y (sw_s c)) 1 = screen_size_y (sw_s c) - 1"
    using sw_goodD(7,11,14,15) [OF g] by (simp_all add: usub_eq)
  then show ?thesis unfolding screen_write_cursormove_def
    by (intro on_screen_cursor) (simp add: Let_def min_def)
qed

lemma mode_set_good:
  assumes g: "sw_good F k c" and m: "MODE_WRAP AND m = 0"
  shows "sw_good F k (mode_set m b c)"
  unfolding mode_set_def using sw_goodD(6,10,11) [OF g] flag_set_clear [OF m, of "s_mode (sw_s c)"]
  by (intro sw_good_set g) (auto simp: flag_set_or)

lemma mode_operations_good:
  assumes g: "sw_good F k c"
  shows "sw_good F k (screen_write_cursormode b c)" "sw_good F k (screen_write_insertmode b c)"
    "sw_good F k (screen_write_utf8mousemode b c)" "sw_good F k (screen_write_kcursormode b c)"
    "sw_good F k (screen_write_kkeypadmode b c)" "sw_good F k (screen_write_mousemode_off c)"
    "sw_good F k (screen_write_mousemode_on m c)"
proof -
  have a: "flag_set (s_mode (sw_s c) AND NOT ALL_MOUSE_MODES) MODE_WRAP"
    using sw_goodD(6) [OF g] flag_set_clear [of MODE_WRAP ALL_MOUSE_MODES "s_mode (sw_s c)"] by simp
  show "sw_good F k (screen_write_mousemode_off c)" "sw_good F k (screen_write_mousemode_on m c)"
    unfolding screen_write_mousemode_off_def screen_write_mousemode_on_def
    using a sw_goodD(10,11) [OF g] by (intro sw_good_set g, auto simp: flag_set_or)+
qed (unfold screen_write_cursormode_def screen_write_insertmode_def screen_write_utf8mousemode_def
  screen_write_kcursormode_def screen_write_kkeypadmode_def, (rule mode_set_good [OF g], simp)+)

lemma scrollregion_good:
  assumes g: "sw_good F k c"
  shows "sw_good F k (screen_write_scrollregion a b c)"
proof -
  have "usub (screen_size_y (sw_s c)) 1 = screen_size_y (sw_s c) - 1"
    using sw_goodD(11,15) [OF g] by (intro usub_one) auto
  then show ?thesis unfolding screen_write_scrollregion_def
    using sw_goodD(6,10,11,12,13) [OF g] by (intro sw_good_set g) (auto simp: Let_def)
qed

section \<open>The redraw context\<close>

lemma peek_utf8_there:
  assumes "grid_ok gd" "y < gd_sy gd" "is_utf8 (grid_view_peek_cell gd x y)"
  shows "\<exists>gu. grid_view_peek_utf8 gd x y = Some gu"
  using assms line_wfD(4) [OF grid_okD(6) [OF assms(1), of "gd_hsize gd + y"], of x]
  by (auto simp: grid_view_peek_cell_def grid_view_peek_utf8_def grid_peek_cell_def grid_peek_utf8_def)

lemma initctx_scan_found:
  assumes g: "sw_good F k c"
  shows "\<exists>xx gc. initctx_scan (s_grid (sw_s c)) (screen_size_x (sw_s c)) (s_cy (sw_s c)) = (xx, gc)
    \<and> 1 \<le> xx \<and> xx \<le> screen_size_x (sw_s c) \<and> \<not> is_padding gc
    \<and> gc = grid_view_peek_cell (s_grid (sw_s c)) (screen_size_x (sw_s c) - xx) (s_cy (sw_s c))"
proof -
  let ?gd = "s_grid (sw_s c)" and ?sx = "screen_size_x (sw_s c)" and ?cy = "s_cy (sw_s c)"
  let ?P = "\<lambda>xx. \<not> is_padding (grid_view_peek_cell ?gd (?sx - xx) ?cy)"
  obtain x where x: "x < ?sx" "\<not> is_padding (grid_view_peek_cell ?gd x ?cy)"
    using grid_goodD(3) [OF sw_goodD(3) [OF g] sw_goodD(11) [OF g]] sw_goodD(4,11) [OF g]
    by (auto simp: row_shown_def grid_view_peek_cell_eq)
  have "?sx - x \<in> set [1..<?sx + 1] \<and> ?P (?sx - x)" using x by auto
  then have "find ?P [1..<?sx + 1] \<noteq> None" unfolding find_None_iff by blast
  then obtain xx where xx: "find ?P [1..<?sx + 1] = Some xx" by auto
  then have "?P xx \<and> xx \<in> set [1..<?sx + 1]" unfolding find_Some_iff by (metis nth_mem)
  then have "?P xx" "1 \<le> xx" "xx \<le> ?sx" by auto
  then show ?thesis using xx by (simp add: initctx_scan_def del: upt_Suc)
qed

lemma initctx_runs:
  assumes g: "sw_good F k c"
  shows "runs (screen_write_initctx c b) (\<lambda>t. True)"
proof -
  obtain xx gc where f: "initctx_scan (s_grid (sw_s c)) (screen_size_x (sw_s c)) (s_cy (sw_s c)) = (xx, gc)"
      "1 \<le> xx" "xx \<le> screen_size_x (sw_s c)"
      "gc = grid_view_peek_cell (s_grid (sw_s c)) (screen_size_x (sw_s c) - xx) (s_cy (sw_s c))"
    using initctx_scan_found [OF g] by blast
  have "usub (screen_size_x (sw_s c)) xx = screen_size_x (sw_s c) - xx"
    using f(3) sw_goodD(14) [OF g] by (simp add: usub_eq)
  then show ?thesis
    using f peek_utf8_there [OF sw_goodD(4,11) [OF g], of "screen_size_x (sw_s c) - xx"]
    by (auto simp: screen_write_initctx_def Let_def)
qed

lemma with_tty_runs:
  assumes g: "sw_good F k c" and f: "runs (f c) (sw_good F j)"
  shows "runs (with_tty cmd num f c) (sw_good F j)"
  unfolding with_tty_def runs_bind
  by (rule runs_mono [OF initctx_runs [OF g]]) (use f in \<open>auto elim!: runs_mono\<close>)

lemma with_tty_step:
  assumes g: "sw_good F k c" and f: "runs (f c) P"
  shows "runs (with_tty cmd num f c) (\<lambda>d. \<exists>e t. P e \<and> d = tty_write cmd t e)"
  unfolding with_tty_def runs_bind
  by (rule runs_mono [OF initctx_runs [OF g]]) (use f in \<open>auto elim!: runs_mono\<close>)

section \<open>Clearing, insertion and deletion\<close>

abbreviation with_grid :: "grid \<Rightarrow> screen_write_ctx \<Rightarrow> screen_write_ctx" where
  "with_grid g c \<equiv> c\<lparr>sw_s := (sw_s c)\<lparr>s_grid := g\<rparr>\<rparr>"

lemma sw_good_with_grid:
  assumes g: "sw_good F k c" and b: "view_becomes (s_grid (sw_s c)) V gd"
    and V: "\<And>y. y < screen_size_y (sw_s c) \<Longrightarrow> row_shown (screen_size_x (sw_s c)) (V y)"
  shows "sw_good F k (with_grid gd c)"
  using g view_becomesD(1-7) [OF b] grid_good_view_becomes [OF sw_goodD(3) [OF g] b V]
  by (auto simp: sw_good_def screen_ok_def screen_wf_def frame_of_def Let_def grid_good_def)

lemma on_grid_view:
  assumes g: "sw_good F k c" and f: "runs (f (s_grid (sw_s c))) (view_becomes (s_grid (sw_s c)) V)"
    and V: "\<And>y. y < screen_size_y (sw_s c) \<Longrightarrow> row_shown (screen_size_x (sw_s c)) (V y)"
  shows "runs (on_grid f c) (\<lambda>d. sw_good F k d \<and> (\<exists>gd. d = with_grid gd c \<and> view_becomes (s_grid (sw_s c)) V gd))"
  unfolding runs_on_grid by (rule runs_mono [OF f]) (use sw_good_with_grid [OF g _ V] in auto)

lemmas on_grid_good = on_grid_view [THEN runs_mono, of _ _ _ _ _ "sw_good F j" for F j]

lemma shown_rows: "sw_good F k c \<Longrightarrow> y < screen_size_y (sw_s c) \<Longrightarrow> row_shown (screen_size_x (sw_s c)) (view (s_grid (sw_s c)) y)"
  by (rule grid_goodD(3) [OF sw_goodD(3)])

lemma clear_good:
  assumes g: "sw_good F k c" and b: "py + ny \<le> screen_size_y (sw_s c)" "px + nx < UINT_MOD"
  shows "runs (on_grid (grid_view_clear px py nx ny) c) (\<lambda>d. sw_good F k d \<and> (\<exists>gd. d = with_grid gd c
    \<and> view_becomes (s_grid (sw_s c)) (\<lambda>y. if py \<le> y \<and> y < py + ny
        then clear_row (screen_size_x (sw_s c)) px nx (view (s_grid (sw_s c)) y) else view (s_grid (sw_s c)) y) gd))"
  using b sw_goodD(7) [OF g] shown_rows [OF g]
  by (intro on_grid_view [OF g] grid_view_clear_runs [OF sw_goodD(4) [OF g]]) (auto intro!: row_shown_clear)

lemma size_bounds:
  assumes "sw_good F k c"
  shows "usub (screen_size_x (sw_s c)) 1 = screen_size_x (sw_s c) - 1"
    "s_cx (sw_s c) \<le> screen_size_x (sw_s c) - 1 \<longleftrightarrow> s_cx (sw_s c) < screen_size_x (sw_s c)"
    "s_cx (sw_s c) < screen_size_x (sw_s c) \<Longrightarrow> usub (screen_size_x (sw_s c)) (s_cx (sw_s c)) = screen_size_x (sw_s c) - s_cx (sw_s c)"
    "screen_size_x (sw_s c) < UINT_MOD" "s_cy (sw_s c) + 1 \<le> screen_size_y (sw_s c)"
    "uadd (s_cy (sw_s c)) 1 = s_cy (sw_s c) + 1"
    "s_cx (sw_s c) < screen_size_x (sw_s c) \<Longrightarrow> uadd (s_cx (sw_s c)) 1 = s_cx (sw_s c) + 1"
    "usub (screen_size_y (sw_s c)) (s_cy (sw_s c)) = screen_size_y (sw_s c) - s_cy (sw_s c)"
    "usub (screen_size_y (sw_s c)) (s_cy (sw_s c) + 1) = screen_size_y (sw_s c) - (s_cy (sw_s c) + 1)"
    "usub (screen_size_y (sw_s c)) 1 = screen_size_y (sw_s c) - 1"
  using sw_goodD(7,11,14,15) [OF assms] by (auto simp: usub_eq uadd_eq)

lemma clearline_good: "sw_good F k c \<Longrightarrow> runs (screen_write_clearline c) (sw_good F k)"
  unfolding screen_write_clearline_def
  by (rule with_tty_runs) (auto simp: Let_def size_bounds Suc_leI intro!: runs_mono [OF clear_good] dest: sw_goodD(11))

lemma clearendofline_good: "sw_good F k c \<Longrightarrow> runs (screen_write_clearendofline c) (sw_good F k)"
  unfolding screen_write_clearendofline_def
  by (rule with_tty_runs) (auto simp: Let_def size_bounds simp del: One_nat_def intro!: runs_mono [OF clear_good])

lemma clear_to_cursor_good:
  assumes g: "sw_good F k c"
  shows "runs (on_grid (if s_cx (sw_s c) > usub (screen_size_x (sw_s c)) 1
      then grid_view_clear 0 (s_cy (sw_s c)) (screen_size_x (sw_s c)) 1
      else grid_view_clear 0 (s_cy (sw_s c)) (uadd (s_cx (sw_s c)) 1) 1) c) (sw_good F k)"
  by (cases "s_cx (sw_s c) > usub (screen_size_x (sw_s c)) 1")
    (use size_bounds(1,4,5) [OF g] in \<open>auto intro!: runs_mono [OF clear_good [OF g]]\<close>)

lemma clearstartofline_good: "sw_good F k c \<Longrightarrow> runs (screen_write_clearstartofline c) (sw_good F k)"
  unfolding screen_write_clearstartofline_def Let_def
  by (rule with_tty_runs) (assumption, erule clear_to_cursor_good)

lemma clear_history_good:
  assumes g: "sw_good F (k + screen_size_y (sw_s c)) c"
  shows "runs (on_grid grid_view_clear_history c) (sw_good F k)"
proof -
  let ?gd = "s_grid (sw_s c)"
  have n: "grid_height ?gd + gd_sy ?gd < UINT_MOD" using sw_goodD(9) [OF g] by simp
  have "sw_good F k (with_grid gd c)"
    if m: "m \<le> gd_sy ?gd" and b: "becomes_at (gd_hsize ?gd + m) ?gd (\<lambda>y. if y < grid_height ?gd then rows ?gd y else blank_row) gd" for m gd
  proof -
    have "grid_good gd"
      using sw_goodD(7) [OF g] grid_goodD(2) [OF sw_goodD(3) [OF g]]
      by (intro grid_good_becomes_at [OF sw_goodD(3) [OF g] b]) auto
    then show ?thesis using g m becomes_atD(1-6) [OF b]
      by (auto simp: sw_good_def screen_ok_def screen_wf_def frame_of_def Let_def grid_good_def)
  qed
  then show ?thesis unfolding runs_on_grid
    by (intro runs_mono [OF grid_view_clear_history_runs [OF sw_goodD(4) [OF g] n]]) auto
qed

lemma clearscreen_good:
  assumes g: "sw_good F (k + screen_size_y (sw_s c)) c"
  shows "runs (screen_write_clearscreen c) (sw_good F k)"
  unfolding screen_write_clearscreen_def Let_def
  by (rule with_tty_runs [OF g])
    (use clear_history_good [OF g] sw_good_less [OF g, of k, simplified] size_bounds(4) [OF g] in \<open>auto intro!: runs_mono [OF clear_good]\<close>)

lemma clearendofscreen_good:
  assumes g: "sw_good F (k + screen_size_y (sw_s c)) c"
  shows "runs (screen_write_clearendofscreen c) (sw_good F k)"
  unfolding screen_write_clearendofscreen_def
proof (rule with_tty_runs [OF g])
  let ?s = "sw_s c"
  note gk = sw_good_less [OF g, of k, simplified]
  note b = size_bounds [OF g]
  have rest: "runs (on_grid (grid_view_clear 0 (s_cy ?s + 1) (screen_size_x ?s) (screen_size_y ?s - (s_cy ?s + 1))) d) (sw_good F k)"
    if "sw_good F k d" "s_cy (sw_s d) = s_cy ?s" "screen_size_y (sw_s d) = screen_size_y ?s" for d
    using that b(4,5) by (intro runs_mono [OF clear_good [OF that(1)]]) auto
  have line: "runs (if s_cx ?s \<le> screen_size_x ?s - 1
      then on_grid (grid_view_clear (s_cx ?s) (s_cy ?s) (usub (screen_size_x ?s) (s_cx ?s)) 1) c else Some c)
    (\<lambda>d. sw_good F k d \<and> s_cy (sw_s d) = s_cy ?s \<and> screen_size_y (sw_s d) = screen_size_y ?s)"
    using gk b(2-5) by (auto intro!: runs_mono [OF clear_good [OF gk]] dest: view_becomesD(4) simp del: One_nat_def)
  show "runs (let s = sw_s c; sx = screen_size_x s; sy = screen_size_y s in
     if s_cy s = 0 \<and> has_history (s_grid s) then on_grid grid_view_clear_history c
     else do {
       ctx \<leftarrow> (if s_cx s \<le> usub sx 1
         then on_grid (grid_view_clear (s_cx s) (s_cy s) (usub sx (s_cx s)) 1) c else Some c);
       on_grid (grid_view_clear 0 (uadd (s_cy s) 1) sx (usub sy (uadd (s_cy s) 1))) ctx
     }) (sw_good F k)"
    unfolding Let_def b(1,6,9)
    using clear_history_good [OF g] runs_mono [OF line] rest by (auto simp del: One_nat_def)
qed

lemma clearstartofscreen_good:
  assumes g: "sw_good F k c"
  shows "runs (screen_write_clearstartofscreen c) (sw_good F k)"
  unfolding screen_write_clearstartofscreen_def Let_def
proof (rule with_tty_runs [OF g])
  let ?s = "sw_s c"
  define cur where "cur = on_grid (if s_cx ?s > usub (screen_size_x ?s) 1 then grid_view_clear 0 (s_cy ?s) (screen_size_x ?s) 1
     else grid_view_clear 0 (s_cy ?s) (uadd (s_cx ?s) 1) 1)"
  have cur: "runs (cur d) (sw_good F k)"
    if "sw_good F k d" "s_cy (sw_s d) = s_cy ?s" "s_cx (sw_s d) = s_cx ?s" "screen_size_x (sw_s d) = screen_size_x ?s" for d
    unfolding cur_def by (rule clear_to_cursor_good [OF that(1), unfolded that(2-4)])
  have "runs (if s_cy ?s > 0 then on_grid (grid_view_clear 0 0 (screen_size_x ?s) (s_cy ?s)) c else Some c)
    (\<lambda>d. runs (cur d) (sw_good F k))"
    using size_bounds(4,5) [OF g] g
    by (auto intro!: runs_mono [OF clear_good [OF g]] cur dest: view_becomesD(3))
  then show "runs (do { ctx \<leftarrow> (if s_cy ?s > 0 then on_grid (grid_view_clear 0 0 (screen_size_x ?s) (s_cy ?s)) c else Some c);
      on_grid (if s_cx ?s > usub (screen_size_x ?s) 1 then grid_view_clear 0 (s_cy ?s) (screen_size_x ?s) 1
        else grid_view_clear 0 (s_cy ?s) (uadd (s_cx ?s) 1) 1) ctx }) (sw_good F k)"
    unfolding cur_def [symmetric] by (simp only: runs_bind)
qed

lemma clamped: "(if n = 0 then 1 else n) = max 1 (n::nat)"
  by auto

lemma on_grid_row:
  assumes g: "sw_good F k c" and f: "runs (f (s_grid (sw_s c))) (view_becomes (s_grid (sw_s c)) (on_row py R (view (s_grid (sw_s c)))))"
    and R: "\<And>r. row_shown (screen_size_x (sw_s c)) r \<Longrightarrow> row_shown (screen_size_x (sw_s c)) (R r)"
  shows "runs (on_grid f c) (\<lambda>d. sw_good F k d \<and> (\<exists>gd. d = with_grid gd c \<and>
    view_becomes (s_grid (sw_s c)) (on_row py R (view (s_grid (sw_s c)))) gd))"
  by (rule on_grid_view [OF g], rule f) (use R shown_rows [OF g] in \<open>auto simp: on_row_def\<close>)

lemma on_grid_row_good:
  assumes g: "sw_good F k c" and f: "runs (f (s_grid (sw_s c))) (view_becomes (s_grid (sw_s c)) (on_row py R (view (s_grid (sw_s c)))))"
    and R: "\<And>r. row_shown (screen_size_x (sw_s c)) r \<Longrightarrow> row_shown (screen_size_x (sw_s c)) (R r)"
  shows "runs (on_grid f c) (sw_good F k)"
  by (rule runs_mono, rule on_grid_row [OF g], rule f, erule R) simp

lemma insert_cells_good:
  assumes g: "sw_good F k c" and b: "px + nx \<le> screen_size_x (sw_s c)" "0 < nx"
  shows "runs (on_grid (grid_view_insert_cells px (s_cy (sw_s c)) nx) c) (sw_good F k)"
  by (rule on_grid_row_good [OF g], rule grid_view_insert_cells_runs [OF sw_goodD(4,11) [OF g] b])
    (use sw_goodD(7) [OF g] b(2) in \<open>auto intro: row_shown_insert\<close>)

lemma delete_cells_good:
  assumes g: "sw_good F k c" and b: "px + nx \<le> screen_size_x (sw_s c)" "0 < nx"
  shows "runs (on_grid (grid_view_delete_cells px (s_cy (sw_s c)) nx) c) (sw_good F k)"
  by (rule on_grid_row_good [OF g], rule grid_view_delete_cells_runs [OF sw_goodD(4,11) [OF g] b])
    (use sw_goodD(7) [OF g] b(2) in \<open>auto intro: row_shown_delete\<close>)

lemma insertcharacter_good:
  assumes g: "sw_good F k c"
  shows "runs (screen_write_insertcharacter n c) (sw_good F k)"
  using size_bounds(1-4) [OF g] g
  by (auto simp: screen_write_insertcharacter_def Let_def clamped simp del: One_nat_def
      intro!: with_tty_runs [OF g] insert_cells_good [OF g])

lemma deletecharacter_good:
  assumes g: "sw_good F k c"
  shows "runs (screen_write_deletecharacter n c) (sw_good F k)"
  using size_bounds(1-4) [OF g] g
  by (auto simp: screen_write_deletecharacter_def Let_def clamped simp del: One_nat_def
      intro!: with_tty_runs [OF g] delete_cells_good [OF g])

text \<open>Lines that are moved: every row of the result is blank or a row of the view.\<close>

lemma moved_rows_good:
  assumes g: "sw_good F k c" and f: "runs (f (s_grid (sw_s c))) (view_becomes (s_grid (sw_s c)) V)"
    and V: "\<And>y. y < screen_size_y (sw_s c) \<Longrightarrow> V y = blank_row \<or> (\<exists>z < screen_size_y (sw_s c). V y = view (s_grid (sw_s c)) z)"
  shows "runs (on_grid f c) (sw_good F k)"
proof (rule runs_mono, rule on_grid_view [OF g], rule f)
  fix y assume y: "y < screen_size_y (sw_s c)"
  show "row_shown (screen_size_x (sw_s c)) (V y)"
    using V [OF y] shown_rows [OF g] sw_goodD(7) [OF g] by auto
qed simp

lemma insert_lines_good:
  assumes g: "sw_good F k c" and b: "py + ny \<le> screen_size_y (sw_s c)" "0 < ny"
  shows "runs (on_grid (grid_view_insert_lines py ny) c) (sw_good F k)"
  by (rule moved_rows_good [OF g], rule grid_view_insert_lines_runs [OF sw_goodD(4) [OF g] b])
    (auto simp: insert_rows_stale_def intro: less_imp_diff_less)

lemma delete_lines_good:
  assumes g: "sw_good F k c" and b: "py + ny \<le> screen_size_y (sw_s c)" "0 < ny"
  shows "runs (on_grid (grid_view_delete_lines py ny) c) (sw_good F k)"
  by (rule moved_rows_good [OF g], rule grid_view_delete_lines_runs [OF sw_goodD(4) [OF g] b])
    (auto simp: delete_rows_def)

lemma insert_lines_region_good:
  assumes g: "sw_good F k c" and b: "py + ny \<le> rlower + 1" "rlower < screen_size_y (sw_s c)" "0 < ny"
  shows "runs (on_grid (grid_view_insert_lines_region rlower py ny) c) (sw_good F k)"
  by (rule moved_rows_good [OF g], rule grid_view_insert_lines_region_runs [OF sw_goodD(4) [OF g] b])
    (auto simp: insert_rows_def intro: less_imp_diff_less)

lemma delete_lines_region_good:
  assumes g: "sw_good F k c" and b: "py + ny \<le> rlower + 1" "rlower < screen_size_y (sw_s c)" "0 < ny"
  shows "runs (on_grid (grid_view_delete_lines_region rlower py ny) c) (sw_good F k)"
  by (rule moved_rows_good [OF g], rule grid_view_delete_lines_region_runs [OF sw_goodD(4) [OF g] b])
    (auto simp: delete_rows_def dest: less_le_trans [OF _ Suc_leI [OF b(2)]])

lemma region_room:
  assumes "sw_good F k c" "\<not> (s_cy (sw_s c) < s_rupper (sw_s c) \<or> s_cy (sw_s c) > s_rlower (sw_s c))"
  shows "usub (uadd (s_rlower (sw_s c)) 1) (s_cy (sw_s c)) = s_rlower (sw_s c) + 1 - s_cy (sw_s c)"
  using assms sw_goodD(12,15) [OF assms(1)] by (auto simp: uadd_eq usub_eq)

lemma insertline_good:
  assumes g: "sw_good F k c"
  shows "runs (screen_write_insertline n c) (sw_good F k)"
proof (cases "s_cy (sw_s c) < s_rupper (sw_s c) \<or> s_cy (sw_s c) > s_rlower (sw_s c)")
  case True
  then show ?thesis using size_bounds(5,8) [OF g] g
    by (auto simp: screen_write_insertline_def Let_def clamped simp del: One_nat_def
        intro!: with_tty_runs [OF g] insert_lines_good [OF g])
next
  case False
  then show ?thesis using region_room [OF g False] sw_goodD(12) [OF g] g
    by (auto simp: screen_write_insertline_def Let_def clamped simp del: One_nat_def
        intro!: with_tty_runs [OF g] insert_lines_region_good [OF g])
qed

lemma deleteline_good:
  assumes g: "sw_good F k c"
  shows "runs (screen_write_deleteline n c) (sw_good F k)"
proof (cases "s_cy (sw_s c) < s_rupper (sw_s c) \<or> s_cy (sw_s c) > s_rlower (sw_s c)")
  case True
  then show ?thesis using size_bounds(5,8) [OF g] g
    by (auto simp: screen_write_deleteline_def Let_def clamped simp del: One_nat_def
        intro!: with_tty_runs [OF g] delete_lines_good [OF g])
next
  case False
  then show ?thesis using region_room [OF g False] sw_goodD(12) [OF g] g
    by (auto simp: screen_write_deleteline_def Let_def clamped simp del: One_nat_def
        intro!: with_tty_runs [OF g] delete_lines_region_good [OF g])
qed

lemma alignmenttest_step:
  assumes g: "sw_good F k c"
  defines "E \<equiv> grid_default_cell\<lparr>gc_data := 0x45\<rparr>"
  shows "runs (screen_write_alignmenttest c) (\<lambda>d. sw_good F k d \<and> s_cx (sw_s d) = 0 \<and> s_cy (sw_s d) = 0
    \<and> s_rupper (sw_s d) = 0 \<and> s_rlower (sw_s d) = screen_size_y (sw_s c) - 1
    \<and> (\<forall>x < screen_size_x (sw_s c). \<forall>y < screen_size_y (sw_s c). grid_view_peek_cell (s_grid (sw_s d)) x y = E)
    \<and> (\<forall>y < screen_hsize (sw_s c). rows (s_grid (sw_s d)) y = rows (s_grid (sw_s c)) y))"
proof -
  let ?gd = "s_grid (sw_s c)"
  have "\<not> is_utf8 E" "\<not> is_padding E" by (simp_all add: E_def)
  then have "runs (foldM (\<lambda>yy. foldM (\<lambda>xx. grid_view_set_cell xx yy E) [0..<gd_sx ?gd]) [0..<gd_sy ?gd] ?gd)
    (\<lambda>gd. (grid_good gd \<and> same_dims ?gd gd \<and> (\<forall>y < gd_hsize ?gd. rows gd y = rows ?gd y)) \<and>
      (\<forall>x' y'. x' + 1 < UINT_MOD \<and> y' < gd_sy ?gd \<longrightarrow> grid_view_peek_cell gd x' y' =
        (if x' \<in> set [0..<gd_sx ?gd] \<and> y' \<in> set [0..<gd_sy ?gd] then E else grid_view_peek_cell ?gd x' y')))"
    by (intro gv.put_all_runs) (use sw_goodD(3,14) [OF g] in auto)
  moreover have "sw_good F k (on_screen (\<lambda>s. s\<lparr>s_cx := 0, s_cy := 0, s_rupper := 0, s_rlower := usub (screen_size_y s) 1\<rparr>) (with_grid gd c))"
    if "grid_good gd" "same_dims ?gd gd" for gd
    using that g size_bounds(10) [OF g]
    by (auto simp: sw_good_def screen_ok_def screen_wf_def frame_of_def Let_def grid_good_def same_dims_def)
  ultimately have "runs (do {
     ctx \<leftarrow> on_grid (foldM (\<lambda>yy. foldM (\<lambda>xx. grid_view_set_cell xx yy E) [0..<gd_sx ?gd]) [0..<gd_sy ?gd]) c;
     Some (on_screen (\<lambda>s. s\<lparr>s_cx := 0, s_cy := 0, s_rupper := 0, s_rlower := usub (screen_size_y s) 1\<rparr>) ctx)
    }) (\<lambda>d. sw_good F k d \<and> s_cx (sw_s d) = 0 \<and> s_cy (sw_s d) = 0
    \<and> s_rupper (sw_s d) = 0 \<and> s_rlower (sw_s d) = screen_size_y (sw_s c) - 1
    \<and> (\<forall>x < screen_size_x (sw_s c). \<forall>y < screen_size_y (sw_s c). grid_view_peek_cell (s_grid (sw_s d)) x y = E)
    \<and> (\<forall>y < screen_hsize (sw_s c). rows (s_grid (sw_s d)) y = rows (s_grid (sw_s c)) y))"
    unfolding runs_bind runs_on_grid
    by (elim runs_mono) (use sw_goodD(14) [OF g] size_bounds(10) [OF g] in \<open>auto simp: same_dims_def\<close>)
  then show ?thesis unfolding screen_write_alignmenttest_def E_def [symmetric] Let_def
    by (rule runs_mono [OF with_tty_step [OF g]]) auto
qed

section \<open>Scrolling\<close>

text \<open>The scroll region has one row only on a screen of one row: then nothing moves.\<close>

lemma region_cases:
  assumes "sw_good F k c"
  shows "s_rupper (sw_s c) < s_rlower (sw_s c) \<or> s_rupper (sw_s c) = 0 \<and> s_rlower (sw_s c) = 0"
  using screen_wfD(6) [OF sw_goodD(2) [OF assms]] sw_goodD(12,13) [OF assms] by auto

lemma reverseindex_good:
  assumes g: "sw_good F k c"
  shows "runs (screen_write_reverseindex c) (sw_good F k)"
  unfolding screen_write_reverseindex_def Let_def
proof (rule with_tty_runs [OF g])
  let ?s = "sw_s c"
  have scroll: "runs (on_grid (grid_view_scroll_region_down (s_rupper ?s) (s_rlower ?s)) c) (sw_good F k)"
  proof (cases "s_rupper ?s < s_rlower ?s")
    case True
    have "runs (grid_view_scroll_region_down (s_rupper ?s) (s_rlower ?s) (s_grid ?s))
      (view_becomes (s_grid ?s) (insert_rows (s_rlower ?s + 1) (s_rupper ?s) 1 (view (s_grid ?s))))"
      by (rule grid_view_scroll_region_down_runs [OF sw_goodD(4) [OF g] True sw_goodD(12) [OF g]])
    then show ?thesis
      by (rule moved_rows_good [OF g]) (use sw_goodD(12) [OF g] in \<open>auto simp: insert_rows_def intro: less_imp_diff_less\<close>)
  next
    case False
    then have "s_rupper ?s = 0" "s_rlower ?s = 0" using region_cases [OF g] by auto
    then show ?thesis using g by (simp add: grid_view_scroll_region_down_def grid_move_lines_def runs_on_grid usub_def Let_def grid_view_y_def)
  qed
  have "sw_good F k (on_screen (\<lambda>s. s\<lparr>s_cy := usub (s_cy s) 1\<rparr>) c)" if "s_cy ?s > 0"
    using that sw_goodD(6,10,11,15) [OF g] by (intro sw_good_set g) (auto simp: usub_eq)
  then show "runs (if s_cy ?s = s_rupper ?s then on_grid (grid_view_scroll_region_down (s_rupper ?s) (s_rlower ?s)) c
     else Some (if s_cy ?s > 0 then on_screen (\<lambda>s. s\<lparr>s_cy := usub (s_cy s) 1\<rparr>) c else c)) (sw_good F k)"
    using scroll g by simp
qed

definition wrap_row :: "bool \<Rightarrow> row_content \<Rightarrow> row_content" where
  "wrap_row w r = (fst r, if w then snd r OR GRID_LINE_WRAPPED else snd r AND NOT GRID_LINE_WRAPPED)"

lemma set_wrapped_runs:
  assumes ok: "grid_ok gd" and y: "cy < gd_sy gd"
  shows "runs (with_line (gd_hsize gd + cy) (line_set_wrapped w) gd) (view_becomes gd (on_row cy (wrap_row w) (view gd)))"
proof -
  let ?y = "gd_hsize gd + cy"
  have y': "?y < grid_height gd" using y by simp
  have "runs (with_line ?y (line_set_wrapped w) gd) (becomes gd ((rows gd)(?y := wrap_row w (rows gd ?y))))"
    using grid_okD(6) [OF ok y'] by (intro runs_with_line ok y')
      (auto simp: line_set_wrapped_def wrap_row_def rows_def line_view_def line_wf_def line_abs_def line_peek_def fun_eq_iff)
  then show ?thesis by (rule runs_mono) (rule view_of_row)
qed

text \<open>What the grid of a screen is after a line feed on row cy.\<close>

definition fed :: "bool \<Rightarrow> screen \<Rightarrow> grid \<Rightarrow> bool" where
  "fed w s gd' \<longleftrightarrow> (\<exists>gd1. view_becomes (s_grid s) (on_row (s_cy s) (wrap_row w) (view (s_grid s))) gd1 \<and>
     (if s_cy s \<noteq> s_rlower s then gd' = gd1
      else if has_history (s_grid s) then scrolled_up (s_rupper s) (s_rlower s) gd1 gd'
      else if s_rupper s < s_rlower s then view_becomes gd1 (delete_rows (s_rlower s + 1) (s_rupper s) 1 (view gd1)) gd'
      else gd' = gd1))"

lemma scroll_up_step:
  assumes g: "sw_good F (k + 1) c"
  shows "runs (grid_view_scroll_region_up (s_rupper (sw_s c)) (s_rlower (sw_s c)) (s_grid (sw_s c)))
    (\<lambda>gd'. sw_good F k (with_grid gd' c) \<and>
      (if has_history (s_grid (sw_s c)) then scrolled_up (s_rupper (sw_s c)) (s_rlower (sw_s c)) (s_grid (sw_s c)) gd'
      else if s_rupper (sw_s c) < s_rlower (sw_s c)
        then view_becomes (s_grid (sw_s c)) (delete_rows (s_rlower (sw_s c) + 1) (s_rupper (sw_s c)) 1 (view (s_grid (sw_s c)))) gd'
      else gd' = s_grid (sw_s c)))"
proof -
  let ?s = "sw_s c" and ?gd = "s_grid (sw_s c)" and ?u = "s_rupper (sw_s c)" and ?l = "s_rlower (sw_s c)"
  note ok = sw_goodD(4) [OF g] and gk = sw_good_less [OF g, of k, simplified] and l = sw_goodD(12) [OF g]
  show ?thesis
  proof (cases "has_history ?gd")
    case True
    have lim: "grid_height ?gd + 1 < UINT_MOD" using sw_goodD(9) [OF g] by simp
    have "sw_good F k (with_grid gd' c)" if s: "scrolled_up ?u ?l ?gd gd'" for gd'
      using g s grid_good_scrolled_up [OF sw_goodD(3) [OF g] s sw_goodD(13) [OF g] l sw_goodD(8) [OF g]]
      by (auto simp: sw_good_def screen_ok_def screen_wf_def frame_of_def Let_def grid_good_def scrolled_up_def)
    then show ?thesis using True
      by (auto intro: runs_mono [OF grid_view_scroll_region_up_runs [OF ok sw_goodD(13) [OF g] l True sw_goodD(8) [OF g] lim]])
  next
    case nh: False
    show ?thesis
    proof (cases "?u < ?l")
      case True
      have "sw_good F k (with_grid gd' c)" if "view_becomes ?gd (delete_rows (?l + 1) ?u 1 (view ?gd)) gd'" for gd'
        by (rule sw_good_with_grid [OF gk that])
          (use sw_goodD(7) [OF g] shown_rows [OF g] l in \<open>auto simp: delete_rows_def\<close>)
      then show ?thesis using nh True
        by (auto intro: runs_mono [OF grid_view_scroll_region_up_no_history_runs [OF ok True l nh]])
    next
      case False
      then have "?u = 0" "?l = 0" using region_cases [OF g] by auto
      then show ?thesis using nh gk
        by (simp add: grid_view_scroll_region_up_def grid_move_lines_def usub_def Let_def grid_view_y_def)
    qed
  qed
qed

lemma cy_same: "s_cy s = y \<Longrightarrow> s\<lparr>s_grid := g, s_cy := y\<rparr> = s\<lparr>s_grid := g\<rparr>"
  by simp

lemma linefeed_step:
  assumes g: "sw_good F (k + 1) c"
  shows "runs (screen_write_linefeed w c) (\<lambda>d. sw_good F k d \<and> fed w (sw_s c) (s_grid (sw_s d)) \<and>
    sw_s d = (sw_s c)\<lparr>s_grid := s_grid (sw_s d),
      s_cy := (if s_cy (sw_s c) = s_rlower (sw_s c) \<or> s_cy (sw_s c) + 1 = screen_size_y (sw_s c) then s_cy (sw_s c) else s_cy (sw_s c) + 1)\<rparr>)"
    (is "runs _ ?P")
proof -
  let ?s = "sw_s c" and ?gd = "s_grid (sw_s c)"
  have y: "uadd (screen_hsize ?s) (s_cy ?s) = screen_hsize ?s + s_cy ?s"
    using sw_goodD(9,11) [OF g] by (simp add: uadd_eq)
  note b = size_bounds [OF g]
  have W: "runs (on_grid (with_line (screen_hsize ?s + s_cy ?s) (line_set_wrapped w)) c)
    (\<lambda>d. sw_good F (k + 1) d \<and> (\<exists>gd. d = with_grid gd c \<and> view_becomes ?gd (on_row (s_cy ?s) (wrap_row w) (view ?gd)) gd))"
    by (rule on_grid_row [OF g], rule set_wrapped_runs [OF sw_goodD(4,11) [OF g]]) (simp add: wrap_row_def row_shown_def)
  have S: "runs (if s_cy ?s = s_rlower ?s then on_grid (grid_view_scroll_region_up (s_rupper ?s) (s_rlower ?s)) (with_grid gd c)
      else Some (if s_cy ?s < screen_size_y ?s - 1 then on_screen (\<lambda>s. s\<lparr>s_cy := uadd (s_cy s) 1\<rparr>) (with_grid gd c) else with_grid gd c)) ?P"
    if d: "sw_good F (k + 1) (with_grid gd c)" and v: "view_becomes ?gd (on_row (s_cy ?s) (wrap_row w) (view ?gd)) gd" for gd
  proof (cases "s_cy ?s = s_rlower ?s")
    case True
    then show ?thesis
      using scroll_up_step [OF d] v view_becomesD(7) [OF v] unfolding runs_on_grid
      by (auto simp: fed_def runs_on_grid cy_same elim!: runs_mono)
  next
    case False
    have "sw_good F k (on_screen (\<lambda>s. s\<lparr>s_cy := uadd (s_cy s) 1\<rparr>) (with_grid gd c))" if "s_cy ?s < screen_size_y ?s - 1"
      using that sw_goodD(6,10,11,15) [OF g] view_becomesD(4) [OF v]
      by (intro sw_good_set sw_good_less [OF d]) (auto simp: uadd_eq)
    then show ?thesis using False v sw_good_less [OF d, of k] b(6) sw_goodD(11) [OF g]
      by (auto simp: fed_def)
  qed
  have "runs (do {
     ctx \<leftarrow> on_grid (with_line (screen_hsize ?s + s_cy ?s) (line_set_wrapped w)) c;
     if s_cy ?s = s_rlower ?s then on_grid (grid_view_scroll_region_up (s_rupper ?s) (s_rlower ?s)) ctx
     else Some (if s_cy ?s < screen_size_y ?s - 1
       then on_screen (\<lambda>s. s\<lparr>s_cy := uadd (s_cy s) 1\<rparr>) ctx else ctx) }) ?P"
    unfolding runs_bind by (rule runs_mono [OF W]) (use S in auto)
  then show ?thesis
    unfolding screen_write_linefeed_def Let_def y [symmetric] b(10) [symmetric]
    by (rule runs_mono [OF with_tty_step [OF g]]) (elim exE conjE, hypsubst, simp only: sw_good_tty tty_write_sel)
qed

end
