(* ===== verification/Print_Facts.thy ===== *)
theory Print_Facts
  imports Screen_Write_Facts
begin

text \<open>
  Writing a cell, screen_write_cell: what it does to the row of the cursor and that it keeps
  the screen in order, in the steps of the code: overwriting, insertion, wrapping and the
  write.
\<close>

section \<open>Overwriting\<close>

text \<open>
  The columns that are blanked before a cell of the given width is written at column cx: the
  character whose padding is at cx, up to cx, and padding that follows the new cell.
\<close>

definition overwritten :: "nat \<Rightarrow> nat \<Rightarrow> nat \<Rightarrow> (nat \<Rightarrow> cell_content) \<Rightarrow> nat set" where
  "overwritten cx width sx f =
     {x. x \<le> cx \<and> is_padding (fst (f cx)) \<and> (\<forall>z. x < z \<and> z \<le> cx \<longrightarrow> is_padding (fst (f z)))}
     \<union> {x. cx + width \<le> x \<and> x < sx \<and> (\<forall>z. cx + width \<le> z \<and> z \<le> x \<longrightarrow> is_padding (fst (f z)))}"

definition overwrite_grid :: "nat \<Rightarrow> nat \<Rightarrow> nat \<Rightarrow> nat \<Rightarrow> grid \<Rightarrow> grid option" where
  "overwrite_grid cx cy width sx gd = do {
     gd1 \<leftarrow> (if is_padding (grid_view_peek_cell gd cx cy) then do {
         (xx, gd) \<leftarrow> overwrite_back cy cx gd;
         grid_view_set_cell xx cy grid_default_cell gd
       } else Some gd);
     overwrite_forward cy (cx + width) sx gd1
   }"

lemma overwrite_start_runs:
  assumes ok: "grid_ok gd" and cy: "cy < gd_sy gd" and cx: "cx + 1 < UINT_MOD"
  shows "runs (if is_padding (grid_view_peek_cell gd cx cy) then do {
         (xx, gd) \<leftarrow> overwrite_back cy cx gd;
         grid_view_set_cell xx cy grid_default_cell gd
       } else Some gd) (view_becomes gd (on_row cy (on_cells (\<lambda>f. blanks {x. x \<le> cx \<and> is_padding (fst (f cx))
          \<and> (\<forall>z. x < z \<and> z \<le> cx \<longrightarrow> is_padding (fst (f z)))} f)) (view gd)))"
proof (cases "is_padding (fst (fst (view gd cy) cx))")
  case False
  have "view_becomes gd (on_row cy (on_cells (\<lambda>f. blanks {x. x \<le> cx \<and> is_padding (fst (f cx))
          \<and> (\<forall>z. x < z \<and> z \<le> cx \<longrightarrow> is_padding (fst (f z)))} f)) (view gd)) gd"
    by (rule view_becomes_refl [OF ok]) (use False in \<open>auto simp: on_row_def\<close>)
  then show ?thesis using False ok cy by (simp add: grid_view_peek_cell_eq)
next
  case True
  let ?f = "fst (view gd cy)"
  let ?S = "\<lambda>f. {x. x \<le> cx \<and> is_padding (fst (f cx)) \<and> (\<forall>z. x < z \<and> z \<le> cx \<longrightarrow> is_padding (fst (f z)))}"
  have "runs (grid_view_set_cell xx cy grid_default_cell g) (view_becomes gd (on_row cy (on_cells (\<lambda>f. blanks (?S f) f)) (view gd)))"
    if xx: "xx \<le> cx" and B: "view_becomes gd (on_row cy (on_cells (blanks {xx<..cx})) (view gd)) g"
      and p: "\<forall>x. xx < x \<and> x \<le> cx \<longrightarrow> is_padding (fst (?f x))" and e: "xx = 0 \<or> \<not> is_padding (fst (?f xx))" for xx g
  proof -
    have "?S ?f = {xx..cx}"
    proof (intro set_eqI iffI)
      fix x assume "x \<in> ?S ?f"
      then have x: "x \<le> cx" "\<forall>z. x < z \<and> z \<le> cx \<longrightarrow> is_padding (fst (?f z))" by auto
      then show "x \<in> {xx..cx}" using e xx by (cases "x < xx") auto
    qed (use True p in auto)
    moreover have "{xx} \<union> {xx<..cx} = {xx..cx}" using xx by auto
    ultimately have eq: "blanks {xx} (blanks {xx<..cx} ?f) = blanks (?S ?f) ?f" by (simp add: blanks_blanks)
    have "runs (grid_view_set_cell xx cy grid_default_cell g) (view_becomes g (on_row cy (on_cells (blanks {xx})) (view g)))"
      using view_becomesD(1,4) [OF B] cy xx cx by (intro blank_one_runs) auto
    then show ?thesis by (rule runs_mono) (erule on_row_trans [OF B _ cy], rule eq)
  qed
  then show ?thesis using True ok cy runs_mono [OF overwrite_back_runs [OF ok cy cx]]
    by (auto simp: grid_view_peek_cell_eq)
qed

lemma overwrite_grid_runs:
  assumes ok: "grid_ok gd" and cy: "cy < gd_sy gd" and cx: "cx + 1 < UINT_MOD" and w: "0 < width" and sx: "sx < UINT_MOD"
  shows "runs (overwrite_grid cx cy width sx gd) (view_becomes gd
    (on_row cy (on_cells (\<lambda>f. blanks (overwritten cx width sx f) f)) (view gd)))"
  unfolding overwrite_grid_def runs_bind
proof (rule runs_mono [OF overwrite_start_runs [OF ok cy cx]])
  let ?f = "fst (view gd cy)"
  let ?S = "\<lambda>f. {x. x \<le> cx \<and> is_padding (fst (f cx)) \<and> (\<forall>z. x < z \<and> z \<le> cx \<longrightarrow> is_padding (fst (f z)))}"
  fix g assume B: "view_becomes gd (on_row cy (on_cells (\<lambda>f. blanks (?S f) f)) (view gd)) g"
  have r: "fst (view g cy) = blanks (?S ?f) ?f" using view_becomesD(9) [OF B cy] by (simp add: on_row_def)
  have same: "fst (view g cy) x = ?f x" if "cx + width \<le> x" for x
    unfolding r blanks_def using that w by auto
  have g: "grid_ok g" "cy < gd_sy g" using view_becomesD(1,4) [OF B] cy by auto
  show "runs (overwrite_forward cy (cx + width) sx g) (view_becomes gd
    (on_row cy (on_cells (\<lambda>f. blanks (overwritten cx width sx f) f)) (view gd)))"
  proof (rule runs_mono [OF overwrite_forward_runs [OF g sx]], elim exE conjE)
    fix h e assume C: "view_becomes g (on_row cy (on_cells (blanks {cx + width..<e})) (view g)) h" and e: "e \<le> sx"
      and p: "\<forall>x. cx + width \<le> x \<and> x < e \<longrightarrow> is_padding (fst (fst (view g cy) x))"
      and n: "e < sx \<longrightarrow> cx + width \<le> e \<and> \<not> is_padding (fst (fst (view g cy) e))"
    have "{cx + width..<e} = {x. cx + width \<le> x \<and> x < sx \<and> (\<forall>z. cx + width \<le> z \<and> z \<le> x \<longrightarrow> is_padding (fst (?f z)))}"
    proof (intro set_eqI iffI)
      fix x assume "x \<in> {x. cx + width \<le> x \<and> x < sx \<and> (\<forall>z. cx + width \<le> z \<and> z \<le> x \<longrightarrow> is_padding (fst (?f z)))}"
      then have x: "cx + width \<le> x" "x < sx" "\<And>z. cx + width \<le> z \<Longrightarrow> z \<le> x \<Longrightarrow> is_padding (fst (?f z))" by auto
      show "x \<in> {cx + width..<e}"
      proof (rule ccontr)
        assume "x \<notin> {cx + width..<e}"
        then have "e \<le> x" using x by auto
        then show False using n x(1,2) x(3) [of e] same [of e] by auto
      qed
    qed (use p e same in auto)
    then have "{cx + width..<e} \<union> ?S ?f = overwritten cx width sx ?f" by (auto simp: overwritten_def)
    then show "view_becomes gd (on_row cy (on_cells (\<lambda>f. blanks (overwritten cx width sx f) f)) (view gd)) h"
      by (intro on_row_trans [OF B C cy]) (simp add: blanks_blanks)
  qed
qed

section \<open>The write\<close>

text \<open>The cells of the row after a cell of the given width has been written at column cx.\<close>

definition print_row :: "nat \<Rightarrow> nat \<Rightarrow> nat \<Rightarrow> cell_content \<Rightarrow> (nat \<Rightarrow> cell_content) \<Rightarrow> nat \<Rightarrow> cell_content" where
  "print_row cx width sx c f = write_cell cx width c (blanks (overwritten cx width sx f) f)"

lemma is_padding_padded [simp]: "is_padding (fst (padded c))"
  by (simp add: padded_def flag_set_or) (simp add: flag_set_def)

lemma print_row_at:
  assumes "0 < width"
  shows "print_row cx width sx c f cx = c"
    "cx < x \<Longrightarrow> x < cx + width \<Longrightarrow> is_padding (fst (print_row cx width sx c f x))"
    "x < cx \<or> cx + width \<le> x \<Longrightarrow> print_row cx width sx c f x = (if x \<in> overwritten cx width sx f then blank else f x)"
    "cx + width < sx \<Longrightarrow> \<not> is_padding (fst (print_row cx width sx c f (cx + width)))"
  using assms by (auto simp: print_row_def write_cell_def blanks_def) (auto simp: overwritten_def)

lemma screen_write_overwrite_eq:
  "s_cx (sw_s c) + width < UINT_MOD \<Longrightarrow> screen_write_overwrite width c =
    on_grid (overwrite_grid (s_cx (sw_s c)) (s_cy (sw_s c)) width (screen_size_x (sw_s c))) c"
  by (simp add: screen_write_overwrite_def overwrite_grid_def [abs_def] uadd_eq Let_def)

lemma on_grid_some: "on_grid f c = map_option (\<lambda>gd. with_grid gd c) (f (s_grid (sw_s c)))"
  by (simp add: on_grid_def on_screen_def)

definition gu_matches :: "grid_cell \<Rightarrow> grid_utf8 option \<Rightarrow> bool" where
  "gu_matches gc gu \<longleftrightarrow> (case gu of None \<Rightarrow> \<not> is_utf8 gc | Some u \<Rightarrow> is_utf8 gc \<and> gu_ok u)"

lemma write_step:
  assumes g: "sw_good F k c" and cx: "s_cx (sw_s c) + width \<le> screen_size_x (sw_s c)" and w: "0 < width"
    and np: "\<not> is_padding gc" and gu: "gu_matches gc gu"
  shows "runs (Option.bind (screen_write_overwrite width c) (cell_set gc gu width)) (\<lambda>d. sw_good F k d \<and>
    (\<exists>gd. d = c\<lparr>sw_s := (sw_s c)\<lparr>s_grid := gd, s_cx := s_cx (sw_s c) + width\<rparr>\<rparr> \<and>
      view_becomes (s_grid (sw_s c)) (on_row (s_cy (sw_s c))
        (on_cells (print_row (s_cx (sw_s c)) width (screen_size_x (sw_s c)) (gc, gu))) (view (s_grid (sw_s c)))) gd))"
proof -
  let ?s = "sw_s c" and ?gd = "s_grid (sw_s c)" and ?cx = "s_cx (sw_s c)" and ?cy = "s_cy (sw_s c)" and ?sx = "screen_size_x (sw_s c)"
  let ?O = "\<lambda>f. blanks (overwritten ?cx width ?sx f) f"
  have b: "?cx + width < UINT_MOD" "?cx + 1 < UINT_MOD" using cx w sw_goodD(14) [OF g] by auto
  note ok = sw_goodD(4) [OF g] and cy = sw_goodD(11) [OF g] and sx = size_bounds(4) [OF g]
  have set: "runs (cell_set gc gu width (with_grid h c)) (\<lambda>d. sw_good F k d \<and>
    (\<exists>gd. d = c\<lparr>sw_s := ?s\<lparr>s_grid := gd, s_cx := ?cx + width\<rparr>\<rparr> \<and>
      view_becomes ?gd (on_row ?cy (on_cells (print_row ?cx width ?sx (gc, gu))) (view ?gd)) gd))"
    if B: "view_becomes ?gd (on_row ?cy (on_cells ?O) (view ?gd)) h" for h
  proof -
    have h: "grid_ok h" "?cy < gd_sy h" using view_becomesD(1,4) [OF B] cy by simp_all
    have fin: "sw_good F k (c\<lparr>sw_s := ?s\<lparr>s_grid := gd, s_cx := ?cx + width\<rparr>\<rparr>)
        \<and> view_becomes ?gd (on_row ?cy (on_cells (print_row ?cx width ?sx (gc, gu))) (view ?gd)) gd"
      if C: "view_becomes h (on_row ?cy (on_cells (write_cell ?cx width (gc, gu))) (view h)) gd" for gd
    proof -
      have D: "view_becomes ?gd (on_row ?cy (on_cells (print_row ?cx width ?sx (gc, gu))) (view ?gd)) gd"
        by (rule on_row_trans [OF B C cy]) (simp add: print_row_def)
      have x: "?cx < ?sx" using cx w by simp
      have "sw_good F k (with_grid gd c)"
        by (rule sw_good_with_grid [OF g D])
          (use shown_rows [OF g] np x in \<open>auto simp: on_row_def row_shown_def print_row_def write_cell_def intro!: exI [of _ ?cx]\<close>)
      from sw_good_cursor_at [OF this, of "?cx + width" ?cy] show ?thesis
        using b cy cx D view_becomesD(3,4) [OF D] by (simp add: cursor_at_def)
    qed
    have "runs (cell_set gc gu width (with_grid h c)) (\<lambda>d. \<exists>gd. d = (with_grid h c)\<lparr>sw_s := (sw_s (with_grid h c))\<lparr>s_grid := gd,
          s_cx := s_cx (sw_s (with_grid h c)) + width\<rparr>\<rparr>
        \<and> view_becomes (s_grid (sw_s (with_grid h c))) (on_row (s_cy (sw_s (with_grid h c)))
            (on_cells (write_cell (s_cx (sw_s (with_grid h c))) width (gc, gu))) (view (s_grid (sw_s (with_grid h c))))) gd)"
      by (rule cell_set_runs) (use h b w gu in \<open>auto simp: gu_matches_def\<close>)
    then show ?thesis by (rule runs_mono) (use fin in auto)
  qed
  show ?thesis
    unfolding runs_bind screen_write_overwrite_eq [OF b(1)] runs_on_grid
    by (rule runs_mono [OF overwrite_grid_runs [OF ok cy b(2) w sx]]) (rule set)
qed

section \<open>Insertion and wrapping\<close>

lemma cell_insert_step:
  assumes g: "sw_good F k c" and w: "0 < width" "width \<le> 2"
  shows "runs (cell_insert width c) (\<lambda>(d, ins). sw_good F k d \<and> (\<exists>gd. d = with_grid gd c)
    \<and> (\<not> flag_set (s_mode (sw_s c)) MODE_INSERT \<longrightarrow> d = c \<and> \<not> ins))"
proof (cases "flag_set (s_mode (sw_s c)) MODE_INSERT \<and> s_cx (sw_s c) \<le> usub (screen_size_x (sw_s c)) width")
  case False
  have "\<exists>gd. c = with_grid gd c" by (rule exI [of _ "s_grid (sw_s c)"]) simp
  then show ?thesis using False g by (auto simp: cell_insert_def)
next
  case True
  let ?s = "sw_s c" and ?gd = "s_grid (sw_s c)" and ?cx = "s_cx (sw_s c)" and ?cy = "s_cy (sw_s c)" and ?sx = "screen_size_x (sw_s c)"
  have cx: "?cx + width \<le> ?sx" using True w sw_goodD(7,14) [OF g] by (auto simp: usub_eq)
  have u: "uadd ?cx width = ?cx + width" "usub (usub ?sx ?cx) width = ?sx - ?cx - width"
    using cx sw_goodD(14) [OF g] by (auto simp: uadd_eq usub_eq)
  have y: "?cy < grid_height ?gd" using sw_goodD(11) [OF g] by simp
  have "runs (grid_move_cells (?cx + width) ?cx ?cy (?sx - ?cx - width) ?gd)
      (becomes ?gd ((rows ?gd)(?cy := (move_cells (?cx + width) ?cx (?sx - ?cx - width) (fst (rows ?gd ?cy)), snd (rows ?gd ?cy)))))"
    using cx w sw_goodD(14) [OF g] by (intro grid_move_cells_runs [OF sw_goodD(4) [OF g] y]) auto
  moreover have "sw_good F k (with_grid gd c)"
    if B: "becomes ?gd ((rows ?gd)(?cy := (move_cells (?cx + width) ?cx (?sx - ?cx - width) (fst (rows ?gd ?cy)), snd (rows ?gd ?cy)))) gd" for gd
  proof -
    have "row_shown ?sx (on_cells (move_cells (?cx + width) ?cx (?sx - ?cx - width)) (rows ?gd ?cy))"
      using cx w grid_goodD(2) [OF sw_goodD(3) [OF g] y] by (intro row_shown_move) auto
    then have "grid_good gd"
      using grid_goodD(2) [OF sw_goodD(3) [OF g]] by (intro grid_good_becomes [OF sw_goodD(3) [OF g] B]) auto
    then show ?thesis using g becomesD(1-6) [OF B]
      by (auto simp: sw_good_def screen_ok_def screen_wf_def frame_of_def Let_def grid_good_def same_dims_def)
  qed
  ultimately show ?thesis using True
    by (auto simp: cell_insert_def Let_def u runs_on_grid elim!: runs_mono)
qed

lemma cell_wrap_step:
  assumes g: "sw_good F (k + 1) c" and w: "0 < width" "width \<le> 2"
  shows "runs (cell_wrap width c) (\<lambda>d. sw_good F k d \<and> s_cx (sw_s d) + width \<le> screen_size_x (sw_s d)
    \<and> (if s_cx (sw_s c) + width \<le> screen_size_x (sw_s c) then d = c
       else fed True (sw_s c) (s_grid (sw_s d)) \<and> sw_s d = (sw_s c)\<lparr>s_grid := s_grid (sw_s d), s_cx := 0,
         s_cy := (if s_cy (sw_s c) = s_rlower (sw_s c) \<or> s_cy (sw_s c) + 1 = screen_size_y (sw_s c) then s_cy (sw_s c) else s_cy (sw_s c) + 1)\<rparr>))"
proof -
  have u: "usub (screen_size_x (sw_s c)) width = screen_size_x (sw_s c) - width"
    using w sw_goodD(7,14) [OF g] by (simp add: usub_eq)
  have iff: "s_cx (sw_s c) > screen_size_x (sw_s c) - width \<longleftrightarrow> \<not> s_cx (sw_s c) + width \<le> screen_size_x (sw_s c)"
    using w sw_goodD(7) [OF g] by auto
  have wr: "flag_set (s_mode (sw_s c)) MODE_WRAP" by (rule sw_goodD(6) [OF g])
  show ?thesis
  proof (cases "s_cx (sw_s c) + width \<le> screen_size_x (sw_s c)")
    case True
    then show ?thesis using sw_good_less [OF g, of k] by (simp add: cell_wrap_def Let_def u iff)
  next
    case False
    have S: "sw_good F k (on_screen (\<lambda>s. s\<lparr>s_cx := 0\<rparr>) d)" "width \<le> screen_size_x (sw_s d)" if "sw_good F k d" for d
      using sw_good_set [OF that, of "\<lambda>s. s\<lparr>s_cx := 0\<rparr>"] sw_goodD(6,7,11) [OF that] w by auto
    show ?thesis
      unfolding cell_wrap_def Let_def u iff if_P [OF conjI [OF wr False]] if_not_P [OF False] runs_map_option
    proof (rule runs_mono [OF linefeed_step [OF g, of True]], elim conjE, intro conjI)
      fix d assume d: "sw_good F k d" "fed True (sw_s c) (s_grid (sw_s d))"
        and E: "sw_s d = (sw_s c)\<lparr>s_grid := s_grid (sw_s d), s_cy :=
          (if s_cy (sw_s c) = s_rlower (sw_s c) \<or> s_cy (sw_s c) + 1 = screen_size_y (sw_s c) then s_cy (sw_s c) else s_cy (sw_s c) + 1)\<rparr>"
      show "sw_s (on_screen (\<lambda>s. s\<lparr>s_cx := 0\<rparr>) d) = (sw_s c)\<lparr>s_grid := s_grid (sw_s (on_screen (\<lambda>s. s\<lparr>s_cx := 0\<rparr>) d)), s_cx := 0,
          s_cy := (if s_cy (sw_s c) = s_rlower (sw_s c) \<or> s_cy (sw_s c) + 1 = screen_size_y (sw_s c) then s_cy (sw_s c) else s_cy (sw_s c) + 1)\<rparr>"
        using arg_cong [OF E, of "\<lambda>s. s\<lparr>s_cx := 0\<rparr>"] by simp
    qed (simp_all add: S)
  qed
qed

section \<open>Printing a cell\<close>

text \<open>A complete character, and the UTF-8 data that the cell gets for it.\<close>

definition u8_good :: "utf8_data \<Rightarrow> bool" where
  "u8_good u \<longleftrightarrow> length (u8_data u) = UTF8_SIZE \<and> 0 < u8_size u \<and> u8_size u \<le> UTF8_SIZE \<and> u8_width u \<le> 2"

definition cell_args :: "grid_cell \<Rightarrow> utf8_data option \<Rightarrow> bool" where
  "cell_args gc u \<longleftrightarrow> (is_utf8 gc \<longrightarrow> (\<exists>d. u = Some d \<and> u8_good d))"

definition shows_utf8 :: "grid_cell \<Rightarrow> utf8_data option \<Rightarrow> grid_utf8 option \<Rightarrow> bool" where
  "shows_utf8 gc u gu \<longleftrightarrow> (if is_utf8 gc then \<exists>d v. u = Some d \<and> gu = Some v \<and> gu_ok v \<and> gu_width v = u8_width d
       \<and> (0xff \<notin> set (u8_text d) \<longrightarrow> gu_text v = u8_text d)
     else gu = None)"

lemma shows_utf8_matches: "shows_utf8 gc u gu \<Longrightarrow> gu_matches gc gu"
  by (auto simp: shows_utf8_def gu_matches_def split: if_splits)

lemma cell_utf8_runs:
  assumes "cell_args gc u"
  shows "runs (if is_utf8 gc then
           (case u of None \<Rightarrow> None | Some u \<Rightarrow> map_option Some (grid_utf8_set grid_utf8_indet u))
         else Some None) (shows_utf8 gc u)"
proof (cases "is_utf8 gc")
  case True
  then obtain d where d: "u = Some d" "u8_good d" using assms by (auto simp: cell_args_def)
  have "runs (grid_utf8_set grid_utf8_indet d) (\<lambda>gu'. gu_ok gu' \<and> gu_width gu' = u8_width d mod 256
    \<and> (0xff \<notin> set (u8_text d) \<longrightarrow> gu_text gu' = u8_text d))"
    using d(2) by (intro grid_utf8_set_runs) (auto simp: u8_good_def gu_ok_def grid_utf8_indet_def)
  then show ?thesis using True d by (auto simp: shows_utf8_def u8_good_def elim!: runs_mono)
qed (simp add: shows_utf8_def)

lemma cell_draw_sel [simp]: "sw_s (cell_draw gc gu width ins t c) = sw_s c"
  by (simp add: cell_draw_def Let_def)

lemma sw_good_cell_draw [simp]: "sw_good F k (cell_draw gc gu width ins t c) = sw_good F k c"
  by (simp add: cell_draw_def Let_def)

text \<open>Where a cell is written: at the cursor, or at the start of the next row.\<close>

definition wrapped_to :: "nat \<Rightarrow> screen \<Rightarrow> screen \<Rightarrow> bool" where
  "wrapped_to width s t \<longleftrightarrow> (if s_cx s + width \<le> screen_size_x s then t = s
     else fed True s (s_grid t) \<and> t = s\<lparr>s_grid := s_grid t, s_cx := 0,
       s_cy := (if s_cy s = s_rlower s \<or> s_cy s + 1 = screen_size_y s then s_cy s else s_cy s + 1)\<rparr>)"

definition printed :: "grid_cell \<Rightarrow> utf8_data option \<Rightarrow> nat \<Rightarrow> screen \<Rightarrow> screen \<Rightarrow> bool" where
  "printed gc u width t s' \<longleftrightarrow> (\<exists>gu. shows_utf8 gc u gu \<and>
     s' = t\<lparr>s_grid := s_grid s', s_cx := s_cx t + width\<rparr> \<and>
     view_becomes (s_grid t) (on_row (s_cy t)
       (on_cells (print_row (s_cx t) width (screen_size_x t) (gc, gu))) (view (s_grid t))) (s_grid s'))"

lemma cell_print_step:
  assumes g: "sw_good F (k + 1) c" and w: "0 < width" "width \<le> 2" and np: "\<not> is_padding gc" and u: "cell_args gc u"
  shows "runs (cell_print gc u width c) (\<lambda>d. sw_good F k d \<and> (flag_set (s_mode (sw_s c)) MODE_INSERT \<or>
    (\<exists>t. wrapped_to width (sw_s c) t \<and> printed gc u width t (sw_s d))))"
proof -
  let ?R = "\<lambda>c d. sw_good F k d \<and> (\<exists>t. wrapped_to width (sw_s c) t \<and> printed gc u width t (sw_s d))"
  define finish where "finish e = (if (flag_set (s_mode (sw_s e)) MODE_WRAP \<and> s_cx (sw_s e) > usub (screen_size_x (sw_s e)) width)
        \<or> s_cy (sw_s e) > usub (screen_size_y (sw_s e)) 1 then (\<lambda>t ins. Some e)
     else (\<lambda>t ins. do {
       ctx \<leftarrow> screen_write_overwrite width e;
       gu \<leftarrow> (if is_utf8 gc then
           (case u of None \<Rightarrow> None | Some u \<Rightarrow> map_option Some (grid_utf8_set grid_utf8_indet u))
         else Some None);
       ctx \<leftarrow> cell_set gc gu width ctx;
       Some (cell_draw gc gu width ins t ctx)
     }))" for e
  have fin: "runs (finish e t ins) (\<lambda>d. sw_good F k d \<and> printed gc u width (sw_s e) (sw_s d))"
    if e: "sw_good F k e" "s_cx (sw_s e) + width \<le> screen_size_x (sw_s e)" for e t ins
  proof -
    have ng: "\<not> ((flag_set (s_mode (sw_s e)) MODE_WRAP \<and> s_cx (sw_s e) > usub (screen_size_x (sw_s e)) width)
        \<or> s_cy (sw_s e) > usub (screen_size_y (sw_s e)) 1)"
      using e(2) w sw_goodD(7,11,14,15) [OF e(1)] by (auto simp: usub_eq)
    obtain gu where gu: "(if is_utf8 gc then
           (case u of None \<Rightarrow> None | Some u \<Rightarrow> map_option Some (grid_utf8_set grid_utf8_indet u))
         else Some None) = Some gu" "shows_utf8 gc u gu"
      using cell_utf8_runs [OF u] unfolding runs_iff by blast
    have W: "runs (Option.bind (screen_write_overwrite width e) (cell_set gc gu width))
       (\<lambda>d. sw_good F k d \<and> printed gc u width (sw_s e) (sw_s d))"
      by (rule runs_mono [OF write_step [OF e w(1) np shows_utf8_matches [OF gu(2)]]])
        (use gu(2) in \<open>auto simp: printed_def\<close>)
    show ?thesis unfolding finish_def if_not_P [OF ng] gu(1)
      using W by (simp add: runs_simps)
  qed
  have wr: "runs (Option.bind (cell_wrap width c') (\<lambda>e. finish e t ins)) (?R c')" if "sw_good F (k + 1) c'" for c' t ins
    unfolding runs_bind
    by (rule runs_mono [OF cell_wrap_step [OF that w]]) (auto simp: wrapped_to_def intro!: runs_mono [OF fin])
  have ins: "runs (Option.bind (cell_insert width c) (\<lambda>(c, ins). Option.bind (cell_wrap width c) (\<lambda>e. finish e t ins)))
     (\<lambda>d. sw_good F k d \<and> (flag_set (s_mode (sw_s c)) MODE_INSERT \<or> (\<exists>t. wrapped_to width (sw_s c) t \<and> printed gc u width t (sw_s d))))" for t
    unfolding runs_bind [of "cell_insert width c"]
  proof (rule runs_mono [OF cell_insert_step [OF g w]], clarify)
    fix a b gd assume d: "sw_good F (k + 1) (with_grid gd c)"
      and i: "\<not> flag_set (s_mode (sw_s c)) MODE_INSERT \<longrightarrow> with_grid gd c = c \<and> \<not> b"
    show "runs (Option.bind (cell_wrap width (with_grid gd c)) (\<lambda>e. finish e t b)) (\<lambda>d. sw_good F k d \<and>
        (flag_set (s_mode (sw_s c)) MODE_INSERT \<or> (\<exists>t. wrapped_to width (sw_s c) t \<and> printed gc u width t (sw_s d))))"
      by (rule runs_mono [OF wr [OF d]]) (use i in metis)
  qed
  have eq: "cell_print gc u width c = Option.bind (screen_write_initctx c True) (\<lambda>t.
      Option.bind (cell_insert width c) (\<lambda>(c, ins). Option.bind (cell_wrap width c) (\<lambda>e. finish e t ins)))"
    by (simp add: cell_print_def finish_def Let_def if_distrib [of "\<lambda>f. f _ _"] cong: if_cong)
  show ?thesis unfolding eq runs_bind [of "screen_write_initctx c True"]
    by (rule runs_mono [OF initctx_runs [OF g]]) (rule ins)
qed

section \<open>Combining and screen_write_cell\<close>

lemma combine_step:
  assumes g: "sw_good F k c" and u: "length (u8_data u) = UTF8_SIZE" "0 < u8_size u" and cx: "0 < s_cx (sw_s c)"
  shows "runs (on_grid (combine_cells (usub (s_cx (sw_s c)) 1) (s_cy (sw_s c)) u) c) (\<lambda>d. sw_good F k d \<and>
    (\<exists>gd v. d = with_grid gd c \<and> view_becomes (s_grid (sw_s c))
       (on_row (s_cy (sw_s c)) (on_cells (\<lambda>f. f(s_cx (sw_s c) - 1 := v))) (view (s_grid (sw_s c)))) gd))"
proof -
  let ?gd = "s_grid (sw_s c)" and ?cx = "s_cx (sw_s c)" and ?cy = "s_cy (sw_s c)"
  have x: "usub ?cx 1 = ?cx - 1" "?cx - 1 + 1 < UINT_MOD" using cx sw_goodD(10) [OF g] by (simp_all add: usub_eq)
  have "sw_good F k (with_grid gd c)"
    if B: "view_becomes ?gd (on_row ?cy (on_cells (\<lambda>f. f(?cx - 1 := v))) (view ?gd)) gd"
      and p: "is_padding (fst v) = is_padding (fst (fst (view ?gd ?cy) (?cx - 1)))" for v gd
  proof (rule sw_good_with_grid [OF g B])
    fix y assume y: "y < screen_size_y (sw_s c)"
    obtain x where "x < screen_size_x (sw_s c)" "\<not> is_padding (fst (fst (view ?gd y) x))"
      using shown_rows [OF g y] by (auto simp: row_shown_def)
    then show "row_shown (screen_size_x (sw_s c)) (on_row ?cy (on_cells (\<lambda>f. f(?cx - 1 := v))) (view ?gd) y)"
      using p by (auto simp: row_shown_def on_row_def intro!: exI [of _ x])
  qed
  then show ?thesis
    unfolding runs_on_grid x(1)
    by (intro runs_mono [OF combine_cells_runs [OF sw_goodD(4,11) [OF g] x(2) u(1)]]) auto
qed

lemma screen_write_cell_good:
  assumes g: "sw_good F (k + 1) c" and u: "cell_args gc u"
  shows "runs (screen_write_cell gc u c) (sw_good F k)"
proof (cases "is_padding gc")
  case True
  then show ?thesis using sw_good_less [OF g, of k] by (simp add: screen_write_cell_def)
next
  case np: False
  obtain width where w: "(if is_utf8 gc then map_option u8_width u else Some 1) = Some width" "width \<le> 2"
      "width = 0 \<longrightarrow> (\<exists>d. u = Some d \<and> u8_good d)"
    using u by (cases "is_utf8 gc") (auto simp: cell_args_def u8_good_def)
  note wr = sw_goodD(6) [OF g] and gk = sw_good_less [OF g, of k, simplified]
  have pr: "runs (cell_print gc u width c) (sw_good F k)" if "0 < width"
    by (rule runs_mono [OF cell_print_step [OF g that w(2) np u]]) simp
  have cb: "runs (case u of None \<Rightarrow> None | Some u \<Rightarrow> do {
       (ctx, ok) \<leftarrow> screen_write_combine u c;
       if ok then do {
         t \<leftarrow> screen_write_initctx ctx False;
         Some (tty_write Tty_utf8character t ctx)
       } else Some ctx
     }) (sw_good F k)" if w0: "width = 0"
  proof -
    obtain d where d: "u = Some d" "u8_good d" using w(3) w0 by auto
    have "runs (Option.bind (screen_write_initctx e False) (\<lambda>t. Some (tty_write Tty_utf8character t e))) (sw_good F k)"
      if "sw_good F k e" for e
      unfolding runs_bind by (rule runs_mono [OF initctx_runs [OF that]]) (simp add: that)
    then have "runs (screen_write_combine d c) (\<lambda>(ctx, ok). runs (if ok then do {
         t \<leftarrow> screen_write_initctx ctx False;
         Some (tty_write Tty_utf8character t ctx)
       } else Some ctx) (sw_good F k))"
      using d gk by (cases "s_cx (sw_s c) = 0")
        (auto simp: screen_write_combine_def Let_def u8_good_def runs_map_option simp del: runs_bind One_nat_def intro!: runs_mono [OF combine_step [OF gk]])
    then show ?thesis using d(1) by (simp add: case_prod_unfold)
  qed
  show ?thesis
    unfolding screen_write_cell_def Let_def if_not_P [OF np] w(1) using wr pr cb by simp
qed

lemma putc_good:
  "sw_good F (k + 1) c \<Longrightarrow> \<not> is_utf8 gc \<Longrightarrow> runs (screen_write_putc gc ch c) (\<lambda>(d, gc'). sw_good F k d \<and> gc' = gc\<lparr>gc_data := ch\<rparr>)"
  unfolding screen_write_putc_def Let_def runs_map_option
  by (rule runs_mono [OF screen_write_cell_good]) (auto simp: cell_args_def)

section \<open>Properties\<close>

text \<open>The screen of three rows and four columns, in a pane, for the witnesses.\<close>

definition sample_ctx :: screen_write_ctx where
  "sample_ctx = \<lparr>sw_wp = True, sw_s = sample_screen, sw_out = []\<rparr>"

lemma row_shown_sample: "y < 4 \<Longrightarrow> row_shown 4 (rows sample_grid y)"
  unfolding row_shown_def
  by (intro exI [of _ 1]) (auto simp: rows_def sample_grid_def line_view_def sample_line_def line_peek_def nth_Cons split: nat.splits)

lemma sample_screen_sel [simp]:
  "s_grid sample_screen = sample_grid" "s_cx sample_screen = 1" "s_cy sample_screen = 2"
  "s_rupper sample_screen = 0" "s_rlower sample_screen = 2" "s_mode sample_screen = MODE_CURSOR OR MODE_WRAP"
  by (simp_all add: sample_screen_def)

lemma sw_good_sample: "sw_good (True, frame_of sample_ctx) 100 sample_ctx"
  using row_shown_sample by (auto simp: sw_good_def sample_ctx_def screen_ok_def screen_wf_sample grid_shown_def flag_set_def)

text \<open>
  C5: a cell that fits is written at the cursor. It shows the character with the attributes
  asked for; the other columns that a wide character covers become padding; the characters
  that were only partly overwritten, and padding left without its character, are blanked, so
  that no padding follows the new cell; every other cell, row and the history stay as they
  were, and the cursor moves on by the width of the character.
\<close>

theorem screen_write_cell_prints:
  assumes g: "sw_good F (k + 1) c" and np: "\<not> is_padding gc" and nins: "\<not> flag_set (s_mode (sw_s c)) MODE_INSERT"
    and w: "if is_utf8 gc then \<exists>d. u = Some d \<and> u8_good d \<and> u8_width d = w else w = 1"
    and cx: "0 < w" "s_cx (sw_s c) + w \<le> screen_size_x (sw_s c)"
  shows "\<exists>d. screen_write_cell gc u c = Some d \<and> sw_good F k d \<and>
    s_cx (sw_s d) = s_cx (sw_s c) + w \<and> s_cy (sw_s d) = s_cy (sw_s c) \<and>
    (\<forall>y < screen_hsize (sw_s c). rows (s_grid (sw_s d)) y = rows (s_grid (sw_s c)) y) \<and>
    (\<forall>y < screen_size_y (sw_s c). y \<noteq> s_cy (sw_s c) \<longrightarrow> view (s_grid (sw_s d)) y = view (s_grid (sw_s c)) y) \<and>
    (let f = fst (view (s_grid (sw_s c)) (s_cy (sw_s c))); f' = fst (view (s_grid (sw_s d)) (s_cy (sw_s c)));
         cx = s_cx (sw_s c); sx = screen_size_x (sw_s c) in
     fst (f' cx) = gc \<and> shows_utf8 gc u (snd (f' cx)) \<and>
     (\<forall>x. cx < x \<and> x < cx + w \<longrightarrow> is_padding (fst (f' x))) \<and>
     (cx + w < sx \<longrightarrow> \<not> is_padding (fst (f' (cx + w)))) \<and>
     (\<forall>x. x < cx \<or> cx + w \<le> x \<longrightarrow> f' x = (if x \<in> overwritten cx w sx f then (grid_default_cell, None) else f x)))"
proof -
  let ?s = "sw_s c"
  have a: "cell_args gc u" "w \<le> 2" using w by (auto simp: cell_args_def u8_good_def split: if_splits)
  have w': "(if is_utf8 gc then map_option u8_width u else Some 1) = Some w" using w by (auto split: if_splits)
  obtain d where d: "cell_print gc u w c = Some d" "sw_good F k d" and p: "printed gc u w ?s (sw_s d)"
    using cell_print_step [OF g cx(1) a(2) np a(1)] nins cx(2) by (auto simp: runs_iff wrapped_to_def)
  obtain gu where gu: "shows_utf8 gc u gu" and s: "sw_s d = ?s\<lparr>s_grid := s_grid (sw_s d), s_cx := s_cx ?s + w\<rparr>"
    and v: "view_becomes (s_grid ?s) (on_row (s_cy ?s) (on_cells (print_row (s_cx ?s) w (screen_size_x ?s) (gc, gu))) (view (s_grid ?s))) (s_grid (sw_s d))"
    using p by (auto simp: printed_def)
  have cur: "s_cx (sw_s d) = s_cx ?s + w" "s_cy (sw_s d) = s_cy ?s" by (subst s, simp)+
  have "screen_write_cell gc u c = Some d"
    unfolding screen_write_cell_def Let_def if_not_P [OF np] w' using d(1) cx(1) sw_goodD(6) [OF g] by simp
  moreover have "fst (view (s_grid (sw_s d)) (s_cy ?s)) =
      print_row (s_cx ?s) w (screen_size_x ?s) (gc, gu) (fst (view (s_grid ?s) (s_cy ?s)))"
    using view_becomesD(9) [OF v sw_goodD(11) [OF g]] by (simp add: on_row_def)
  ultimately show ?thesis
    using d(2) cur gu view_becomesD(8) [OF v] view_becomesD(9) [OF v] print_row_at [OF cx(1)]
    by (intro exI [of _ d]) (simp add: Let_def on_row_def)
qed

theorem screen_write_cell_prints_witness:
  "\<exists>d. screen_write_cell (grid_default_cell\<lparr>gc_data := 0x7a\<rparr>) None sample_ctx = Some d \<and> s_cx (sw_s d) = 2 \<and>
    gc_data (fst (fst (view (s_grid (sw_s d)) 2) 1)) = 0x7a \<and>
    view (s_grid (sw_s d)) 0 = view sample_grid 0"
proof -
  let ?gc = "grid_default_cell\<lparr>gc_data := 0x7a\<rparr>"
  have g: "sw_good (True, frame_of sample_ctx) (99 + 1) sample_ctx" using sw_good_sample by simp
  have n: "\<not> is_padding ?gc" "\<not> is_utf8 ?gc" by simp_all
  have i: "\<not> flag_set (s_mode (sw_s sample_ctx)) MODE_INSERT" by (simp add: sample_ctx_def flag_set_def)
  have w: "if is_utf8 ?gc then \<exists>d. None = Some d \<and> u8_good d \<and> u8_width d = 1 else (1::nat) = 1" using n by simp
  have cx: "s_cx (sw_s sample_ctx) + 1 \<le> screen_size_x (sw_s sample_ctx)" by (simp add: sample_ctx_def)
  obtain d where d: "screen_write_cell ?gc None sample_ctx = Some d" "s_cx (sw_s d) = s_cx (sw_s sample_ctx) + 1"
      "\<forall>y < screen_size_y (sw_s sample_ctx). y \<noteq> s_cy (sw_s sample_ctx) \<longrightarrow> view (s_grid (sw_s d)) y = view (s_grid (sw_s sample_ctx)) y"
      "fst (fst (view (s_grid (sw_s d)) (s_cy (sw_s sample_ctx))) (s_cx (sw_s sample_ctx))) = ?gc"
    using screen_write_cell_prints [OF g n(1) i w _ cx] by (auto simp: Let_def)
  then show ?thesis by (intro exI [of _ d]) (simp add: sample_ctx_def)
qed


text \<open>The cursor behind the last column of the bottom row.\<close>

definition sample_end :: screen_write_ctx where
  "sample_end = cursor_at 4 2 sample_ctx"

lemma sample_end_sel [simp]:
  "s_grid (sw_s sample_end) = sample_grid" "s_cx (sw_s sample_end) = 4" "s_cy (sw_s sample_end) = 2"
  "s_rupper (sw_s sample_end) = 0" "s_rlower (sw_s sample_end) = 2"
  "s_mode (sw_s sample_end) = MODE_CURSOR OR MODE_WRAP"
  by (simp_all add: sample_end_def cursor_at_def sample_ctx_def)

lemma sw_good_sample_end: "sw_good (True, frame_of sample_ctx) 100 sample_end"
  unfolding sample_end_def by (rule sw_good_cursor_at [OF sw_good_sample]) (simp_all add: sample_ctx_def)




text \<open>
  the exception. When a character has just been written in the last column, the cursor is
  one column beyond it, the room to the right is computed below zero, and moving right takes
  the cursor out of the screen by the whole count, however large.
\<close>

theorem cursorright_leaves_screen:
  assumes "sw_good F k c" "s_cx (sw_s c) = screen_size_x (sw_s c)" "s_cx (sw_s c) + max 1 n < UINT_MOD"
  shows "s_cx (sw_s (screen_write_cursorright n c)) = screen_size_x (sw_s c) + max 1 n"
  using cursorright_beyond [OF assms] assms(2) by (simp add: cursor_at_def)

theorem cursorright_leaves_screen_witness:
  "s_cx (sw_s (screen_write_cursorright 1000 sample_end)) = 1004"
  using cursorright_leaves_screen [OF sw_good_sample_end, of 1000] by simp

text \<open>
  the alignment test fills every cell of the screen with an E in the default colours, puts
  the cursor in the top left corner and the scroll region to the whole screen, and leaves the
  history alone.
\<close>

theorem alignmenttest_fills_screen:
  assumes "sw_good F k c"
  shows "\<exists>d. screen_write_alignmenttest c = Some d \<and> sw_good F k d \<and>
    s_cx (sw_s d) = 0 \<and> s_cy (sw_s d) = 0 \<and> s_rupper (sw_s d) = 0 \<and> s_rlower (sw_s d) = screen_size_y (sw_s c) - 1 \<and>
    (\<forall>x < screen_size_x (sw_s c). \<forall>y < screen_size_y (sw_s c).
      grid_view_peek_cell (s_grid (sw_s d)) x y = grid_default_cell\<lparr>gc_data := 0x45\<rparr>) \<and>
    (\<forall>y < screen_hsize (sw_s c). rows (s_grid (sw_s d)) y = rows (s_grid (sw_s c)) y)"
  using alignmenttest_step [OF assms] by (auto simp: runs_iff)

theorem alignmenttest_fills_screen_witness:
  "\<exists>d. screen_write_alignmenttest sample_ctx = Some d \<and> gc_data (grid_view_peek_cell (s_grid (sw_s d)) 3 2) = 0x45"
proof -
  obtain d where "screen_write_alignmenttest sample_ctx = Some d"
      "\<forall>x < 4. \<forall>y < 3. grid_view_peek_cell (s_grid (sw_s d)) x y = grid_default_cell\<lparr>gc_data := 0x45\<rparr>"
    using alignmenttest_fills_screen [OF sw_good_sample] by (auto simp: sample_ctx_def)
  then show ?thesis by (intro exI [of _ d]) simp
qed

end
