(* ===== verification/Pane.thy ===== *)
theory Pane
  imports Screen_Write
begin

text \<open>
  The state that the input parser works on: struct input_ctx, and of struct window_pane and
  struct window what the parser and the alternate screen (window.c) use.

  \<^item> The base screen of the pane is the screen of the write context, because input_parse
    opens the context on it; \<open>wp_mode\<close> says whether a window mode is set.
  \<^item> A buffer with its length is the list of the bytes in use. input_ctx.ch is the byte at
    hand.
  \<^item> The options utf8, alternate-screen and automatic-rename of the window, which the code
    asks options.c for, are fields; what the parser writes to the program in the pane and its
    calls of server_status_window are collected in \<open>wp_reply\<close> and \<open>w_status\<close>.
\<close>

datatype input_state = Ground | Esc_enter | Esc_intermediate | Csi_enter | Csi_parameter
  | Csi_intermediate | Csi_ignore | Dcs_enter | Dcs_parameter | Dcs_intermediate | Dcs_handler
  | Dcs_escape | Dcs_ignore | Osc_string | Apc_string | Rename_string | Consume_st
  | Utf8_three | Utf8_two | Utf8_one

record input_ctx =
  i_cell :: grid_cell
  i_old_cell :: grid_cell
  i_old_cx :: nat
  i_old_cy :: nat
  i_interm :: "byte list"
  i_param :: "byte list"
  i_input :: "byte list"
  i_plist :: "int list"
  i_utf8data :: utf8_data
  i_ch :: byte
  i_discard :: bool
  i_state :: input_state

record input_window =
  w_name :: cstring
  w_flags :: "32 word"
  w_utf8 :: bool
  w_alternate_screen :: bool
  w_automatic_rename :: bool
  w_status :: nat

record window_pane =
  wp_window :: input_window
  wp_ctx :: screen_write_ctx
  wp_mode :: bool
  wp_flags :: "32 word"
  wp_saved_grid :: "grid option"
  wp_saved_cx :: nat
  wp_saved_cy :: nat
  wp_saved_cell :: grid_cell
  wp_reply :: "byte list"
  wp_ictx :: input_ctx

abbreviation WINDOW_BELL :: "32 word" where "WINDOW_BELL \<equiv> 0x1"
abbreviation WINDOW_ACTIVITY :: "32 word" where "WINDOW_ACTIVITY \<equiv> 0x2"
abbreviation WINDOW_SILENCE :: "32 word" where "WINDOW_SILENCE \<equiv> 0x8"
abbreviation PANE_REDRAW :: "32 word" where "PANE_REDRAW \<equiv> 0x1"

abbreviation wp_base :: "window_pane \<Rightarrow> screen" where "wp_base wp \<equiv> sw_s (wp_ctx wp)"

definition set_base :: "screen \<Rightarrow> window_pane \<Rightarrow> window_pane" where
  "set_base s wp = wp\<lparr>wp_ctx := (wp_ctx wp)\<lparr>sw_s := s\<rparr>\<rparr>"

section \<open>The alternate screen\<close>

definition window_pane_alternate_on :: "grid_cell \<Rightarrow> window_pane \<Rightarrow> window_pane option" where
  "window_pane_alternate_on gc wp =
     (if wp_saved_grid wp \<noteq> None then Some wp
      else if \<not> w_alternate_screen (wp_window wp) then Some wp
      else do {
        let s = wp_base wp;
        let sx = screen_size_x s;
        let sy = screen_size_y s;
        saved \<leftarrow> grid_create sx sy 0;
        saved \<leftarrow> grid_duplicate_lines saved 0 (s_grid s) (screen_hsize s) sy;
        gd \<leftarrow> grid_view_clear 0 0 sx sy (s_grid s);
        let gd = gd\<lparr>gd_flags := gd_flags gd AND NOT GRID_HISTORY\<rparr>;
        Some (set_base (s\<lparr>s_grid := gd\<rparr>) wp
          \<lparr>wp_saved_grid := Some saved, wp_saved_cx := s_cx s, wp_saved_cy := s_cy s,
           wp_saved_cell := gc, wp_flags := wp_flags wp OR PANE_REDRAW\<rparr>)
      })"

text \<open>The result is the pane and the cell that is written through gc.\<close>

definition window_pane_alternate_off :: "grid_cell \<Rightarrow> window_pane \<Rightarrow> (window_pane \<times> grid_cell) option" where
  "window_pane_alternate_off gc wp =
     (case wp_saved_grid wp of
        None \<Rightarrow> Some (wp, gc)
      | Some saved \<Rightarrow>
        if \<not> w_alternate_screen (wp_window wp) then Some (wp, gc)
        else do {
          let s = wp_base wp;
          let sx = screen_size_x s;
          let sy = screen_size_y s;
          s \<leftarrow> (if sy > gd_sy saved then screen_resize sx (gd_sy saved) s else Some s);
          gd \<leftarrow> grid_duplicate_lines (s_grid s) (screen_hsize s) saved 0 sy;
          let s = s\<lparr>s_grid := gd, s_cx := wp_saved_cx wp\<rparr>;
          let s = (if s_cx s > usub (screen_size_x s) 1 then s\<lparr>s_cx := usub (screen_size_x s) 1\<rparr> else s);
          let s = s\<lparr>s_cy := wp_saved_cy wp\<rparr>;
          let s = (if s_cy s > usub (screen_size_y s) 1 then s\<lparr>s_cy := usub (screen_size_y s) 1\<rparr> else s);
          let s = s\<lparr>s_grid := (s_grid s)\<lparr>gd_flags := gd_flags (s_grid s) OR GRID_HISTORY\<rparr>\<rparr>;
          s \<leftarrow> (if sy > gd_sy saved then screen_resize sx sy s else Some s);
          Some (set_base s wp\<lparr>wp_saved_grid := None, wp_flags := wp_flags wp OR PANE_REDRAW\<rparr>,
            wp_saved_cell wp)
        })"

end
