(* ===== verification/Input_Tables.thy ===== *)
theory Input_Tables
  imports Pane C_Library "HOL-Library.Product_Lexorder" "HOL-Library.List_Lexorder" "HOL-Library.Multiset"
begin

text \<open>
  The tables of input.c: the transitions of the twenty states of the parser, with the handler
  and the next state of each range of bytes, the entry and exit handlers of the states, and
  the tables of escape and control sequences that bsearch looks up. Every state has exactly
  one transition for every byte, and the lookups find what a search of the whole table would.
\<close>

section \<open>Escape and control sequences\<close>

record 'a input_table_entry =
  it_ch :: byte
  it_interm :: "byte list"
  it_type :: 'a

abbreviation entry :: "byte \<Rightarrow> byte list \<Rightarrow> 'a \<Rightarrow> 'a input_table_entry" where
  "entry c i t \<equiv> \<lparr>it_ch = c, it_interm = i, it_type = t\<rparr>"

datatype input_esc_type = INPUT_ESC_DECALN | INPUT_ESC_DECKPAM | INPUT_ESC_DECKPNM
  | INPUT_ESC_DECRC | INPUT_ESC_DECSC | INPUT_ESC_HTS | INPUT_ESC_IND | INPUT_ESC_NEL
  | INPUT_ESC_RI | INPUT_ESC_RIS | INPUT_ESC_SCSOFF_G0 | INPUT_ESC_SCSON_G0

definition input_esc_table :: "input_esc_type input_table_entry list" where
  "input_esc_table = [
     entry 0x30 [0x28] INPUT_ESC_SCSOFF_G0,
     entry 0x37 [] INPUT_ESC_DECSC,
     entry 0x38 [] INPUT_ESC_DECRC,
     entry 0x38 [0x23] INPUT_ESC_DECALN,
     entry 0x3d [] INPUT_ESC_DECKPAM,
     entry 0x3e [] INPUT_ESC_DECKPNM,
     entry 0x42 [0x28] INPUT_ESC_SCSON_G0,
     entry 0x44 [] INPUT_ESC_IND,
     entry 0x45 [] INPUT_ESC_NEL,
     entry 0x48 [] INPUT_ESC_HTS,
     entry 0x4d [] INPUT_ESC_RI,
     entry 0x63 [] INPUT_ESC_RIS]"

datatype input_csi_type = INPUT_CSI_CBT | INPUT_CSI_CUB | INPUT_CSI_CUD | INPUT_CSI_CUF
  | INPUT_CSI_CUP | INPUT_CSI_CUU | INPUT_CSI_DA | INPUT_CSI_DCH | INPUT_CSI_DECSCUSR
  | INPUT_CSI_DECSTBM | INPUT_CSI_DL | INPUT_CSI_DSR | INPUT_CSI_ED | INPUT_CSI_EL
  | INPUT_CSI_HPA | INPUT_CSI_ICH | INPUT_CSI_IL | INPUT_CSI_RM | INPUT_CSI_RM_PRIVATE
  | INPUT_CSI_SGR | INPUT_CSI_SM | INPUT_CSI_SM_PRIVATE | INPUT_CSI_TBC | INPUT_CSI_VPA

definition input_csi_table :: "input_csi_type input_table_entry list" where
  "input_csi_table = [
     entry 0x40 [] INPUT_CSI_ICH,
     entry 0x41 [] INPUT_CSI_CUU,
     entry 0x42 [] INPUT_CSI_CUD,
     entry 0x43 [] INPUT_CSI_CUF,
     entry 0x44 [] INPUT_CSI_CUB,
     entry 0x47 [] INPUT_CSI_HPA,
     entry 0x48 [] INPUT_CSI_CUP,
     entry 0x4a [] INPUT_CSI_ED,
     entry 0x4b [] INPUT_CSI_EL,
     entry 0x4c [] INPUT_CSI_IL,
     entry 0x4d [] INPUT_CSI_DL,
     entry 0x50 [] INPUT_CSI_DCH,
     entry 0x5a [] INPUT_CSI_CBT,
     entry 0x63 [] INPUT_CSI_DA,
     entry 0x64 [] INPUT_CSI_VPA,
     entry 0x66 [] INPUT_CSI_CUP,
     entry 0x67 [] INPUT_CSI_TBC,
     entry 0x68 [] INPUT_CSI_SM,
     entry 0x68 [0x3f] INPUT_CSI_SM_PRIVATE,
     entry 0x6c [] INPUT_CSI_RM,
     entry 0x6c [0x3f] INPUT_CSI_RM_PRIVATE,
     entry 0x6d [] INPUT_CSI_SGR,
     entry 0x6e [] INPUT_CSI_DSR,
     entry 0x71 [0x20] INPUT_CSI_DECSCUSR,
     entry 0x72 [] INPUT_CSI_DECSTBM]"

text \<open>strcmp: only the sign of its result is specified.\<close>

definition strcmp :: "byte list \<Rightarrow> byte list \<Rightarrow> int" where
  "strcmp s t = (if s = t then 0 else if s < t then -1 else 1)"

text \<open>The key of a search is the byte at hand and the intermediate bytes of input_ctx.\<close>

definition input_table_compare :: "byte \<times> byte list \<Rightarrow> 'a input_table_entry \<Rightarrow> int" where
  "input_table_compare key e =
     (if fst key \<noteq> it_ch e then uint (fst key) - uint (it_ch e) else strcmp (snd key) (it_interm e))"

abbreviation entry_key :: "'a input_table_entry \<Rightarrow> byte \<times> byte list" where
  "entry_key e \<equiv> (it_ch e, it_interm e)"

lemma input_table_compare_sign:
  "input_table_compare k e < 0 \<longleftrightarrow> k < entry_key e"
  "input_table_compare k e = 0 \<longleftrightarrow> k = entry_key e"
proof -
  obtain c i where k: "k = (c, i)" by (cases k)
  show "input_table_compare k e < 0 \<longleftrightarrow> k < entry_key e"
  proof (cases "c = it_ch e")
    case True
    then show ?thesis by (auto simp: k input_table_compare_def strcmp_def)
  next
    case False
    have "uint c - uint (it_ch e) < 0 \<longleftrightarrow> c < it_ch e" by (simp add: word_less_def)
    then show ?thesis using False order_le_imp_less_or_eq [of c "it_ch e"]
      by (simp add: k input_table_compare_def) blast
  qed
  show "input_table_compare k e = 0 \<longleftrightarrow> k = entry_key e"
    by (auto simp: k input_table_compare_def strcmp_def word_uint_eq_iff)
qed

interpretation esc: search_table input_table_compare entry_key input_esc_table
  by unfold_locales (simp_all add: input_table_compare_sign input_esc_table_def sorted_wrt2_simps del: sorted_wrt.simps(2))

interpretation csi: search_table input_table_compare entry_key input_csi_table
  by unfold_locales (simp_all add: input_table_compare_sign input_csi_table_def sorted_wrt2_simps del: sorted_wrt.simps(2))

section \<open>Transitions\<close>

datatype input_handler = Input_print | Input_intermediate | Input_parameter | Input_input
  | Input_c0_dispatch | Input_esc_dispatch | Input_csi_dispatch | Input_dcs_dispatch
  | Input_utf8_open | Input_utf8_add | Input_utf8_close

type_synonym input_transition = "nat \<times> nat \<times> input_handler option \<times> input_state option"

definition INPUT_STATE_ANYWHERE :: "input_transition list" where
  "INPUT_STATE_ANYWHERE = [
     (0x18, 0x18, Some Input_c0_dispatch, Some Ground),
     (0x1a, 0x1a, Some Input_c0_dispatch, Some Ground),
     (0x1b, 0x1b, None, Some Esc_enter)]"

definition input_state_ground_table :: "input_transition list" where
  "input_state_ground_table = INPUT_STATE_ANYWHERE @ [
     (0x00, 0x17, Some Input_c0_dispatch, None),
     (0x19, 0x19, Some Input_c0_dispatch, None),
     (0x1c, 0x1f, Some Input_c0_dispatch, None),
     (0x20, 0x7e, Some Input_print, None),
     (0x7f, 0x7f, None, None),
     (0x80, 0xc1, Some Input_print, None),
     (0xc2, 0xdf, Some Input_utf8_open, Some Utf8_one),
     (0xe0, 0xef, Some Input_utf8_open, Some Utf8_two),
     (0xf0, 0xf4, Some Input_utf8_open, Some Utf8_three),
     (0xf5, 0xff, Some Input_print, None)]"

definition input_state_esc_enter_table :: "input_transition list" where
  "input_state_esc_enter_table = INPUT_STATE_ANYWHERE @ [
     (0x00, 0x17, Some Input_c0_dispatch, None),
     (0x19, 0x19, Some Input_c0_dispatch, None),
     (0x1c, 0x1f, Some Input_c0_dispatch, None),
     (0x20, 0x2f, Some Input_intermediate, Some Esc_intermediate),
     (0x30, 0x4f, Some Input_esc_dispatch, Some Ground),
     (0x50, 0x50, None, Some Dcs_enter),
     (0x51, 0x57, Some Input_esc_dispatch, Some Ground),
     (0x58, 0x58, None, Some Consume_st),
     (0x59, 0x59, Some Input_esc_dispatch, Some Ground),
     (0x5a, 0x5a, Some Input_esc_dispatch, Some Ground),
     (0x5b, 0x5b, None, Some Csi_enter),
     (0x5c, 0x5c, Some Input_esc_dispatch, Some Ground),
     (0x5d, 0x5d, None, Some Osc_string),
     (0x5e, 0x5e, None, Some Consume_st),
     (0x5f, 0x5f, None, Some Apc_string),
     (0x60, 0x6a, Some Input_esc_dispatch, Some Ground),
     (0x6b, 0x6b, None, Some Rename_string),
     (0x6c, 0x7e, Some Input_esc_dispatch, Some Ground),
     (0x7f, 0xff, None, None)]"

definition input_state_esc_intermediate_table :: "input_transition list" where
  "input_state_esc_intermediate_table = INPUT_STATE_ANYWHERE @ [
     (0x00, 0x17, Some Input_c0_dispatch, None),
     (0x19, 0x19, Some Input_c0_dispatch, None),
     (0x1c, 0x1f, Some Input_c0_dispatch, None),
     (0x20, 0x2f, Some Input_intermediate, None),
     (0x30, 0x7e, Some Input_esc_dispatch, Some Ground),
     (0x7f, 0xff, None, None)]"

definition input_state_csi_enter_table :: "input_transition list" where
  "input_state_csi_enter_table = INPUT_STATE_ANYWHERE @ [
     (0x00, 0x17, Some Input_c0_dispatch, None),
     (0x19, 0x19, Some Input_c0_dispatch, None),
     (0x1c, 0x1f, Some Input_c0_dispatch, None),
     (0x20, 0x2f, Some Input_intermediate, Some Csi_intermediate),
     (0x30, 0x39, Some Input_parameter, Some Csi_parameter),
     (0x3a, 0x3a, None, Some Csi_ignore),
     (0x3b, 0x3b, Some Input_parameter, Some Csi_parameter),
     (0x3c, 0x3f, Some Input_intermediate, Some Csi_parameter),
     (0x40, 0x7e, Some Input_csi_dispatch, Some Ground),
     (0x7f, 0xff, None, None)]"

definition input_state_csi_parameter_table :: "input_transition list" where
  "input_state_csi_parameter_table = INPUT_STATE_ANYWHERE @ [
     (0x00, 0x17, Some Input_c0_dispatch, None),
     (0x19, 0x19, Some Input_c0_dispatch, None),
     (0x1c, 0x1f, Some Input_c0_dispatch, None),
     (0x20, 0x2f, Some Input_intermediate, Some Csi_intermediate),
     (0x30, 0x39, Some Input_parameter, None),
     (0x3a, 0x3a, None, Some Csi_ignore),
     (0x3b, 0x3b, Some Input_parameter, None),
     (0x3c, 0x3f, None, Some Csi_ignore),
     (0x40, 0x7e, Some Input_csi_dispatch, Some Ground),
     (0x7f, 0xff, None, None)]"

definition input_state_csi_intermediate_table :: "input_transition list" where
  "input_state_csi_intermediate_table = INPUT_STATE_ANYWHERE @ [
     (0x00, 0x17, Some Input_c0_dispatch, None),
     (0x19, 0x19, Some Input_c0_dispatch, None),
     (0x1c, 0x1f, Some Input_c0_dispatch, None),
     (0x20, 0x2f, Some Input_intermediate, None),
     (0x30, 0x3f, None, Some Csi_ignore),
     (0x40, 0x7e, Some Input_csi_dispatch, Some Ground),
     (0x7f, 0xff, None, None)]"

definition input_state_csi_ignore_table :: "input_transition list" where
  "input_state_csi_ignore_table = INPUT_STATE_ANYWHERE @ [
     (0x00, 0x17, Some Input_c0_dispatch, None),
     (0x19, 0x19, Some Input_c0_dispatch, None),
     (0x1c, 0x1f, Some Input_c0_dispatch, None),
     (0x20, 0x3f, None, None),
     (0x40, 0x7e, None, Some Ground),
     (0x7f, 0xff, None, None)]"

definition input_state_dcs_enter_table :: "input_transition list" where
  "input_state_dcs_enter_table = INPUT_STATE_ANYWHERE @ [
     (0x00, 0x17, None, None),
     (0x19, 0x19, None, None),
     (0x1c, 0x1f, None, None),
     (0x20, 0x2f, Some Input_intermediate, Some Dcs_intermediate),
     (0x30, 0x39, Some Input_parameter, Some Dcs_parameter),
     (0x3a, 0x3a, None, Some Dcs_ignore),
     (0x3b, 0x3b, Some Input_parameter, Some Dcs_parameter),
     (0x3c, 0x3f, Some Input_intermediate, Some Dcs_parameter),
     (0x40, 0x7e, Some Input_input, Some Dcs_handler),
     (0x7f, 0xff, None, None)]"

definition input_state_dcs_parameter_table :: "input_transition list" where
  "input_state_dcs_parameter_table = INPUT_STATE_ANYWHERE @ [
     (0x00, 0x17, None, None),
     (0x19, 0x19, None, None),
     (0x1c, 0x1f, None, None),
     (0x20, 0x2f, Some Input_intermediate, Some Dcs_intermediate),
     (0x30, 0x39, Some Input_parameter, None),
     (0x3a, 0x3a, None, Some Dcs_ignore),
     (0x3b, 0x3b, Some Input_parameter, None),
     (0x3c, 0x3f, None, Some Dcs_ignore),
     (0x40, 0x7e, Some Input_input, Some Dcs_handler),
     (0x7f, 0xff, None, None)]"

definition input_state_dcs_intermediate_table :: "input_transition list" where
  "input_state_dcs_intermediate_table = INPUT_STATE_ANYWHERE @ [
     (0x00, 0x17, None, None),
     (0x19, 0x19, None, None),
     (0x1c, 0x1f, None, None),
     (0x20, 0x2f, Some Input_intermediate, None),
     (0x30, 0x3f, None, Some Dcs_ignore),
     (0x40, 0x7e, Some Input_input, Some Dcs_handler),
     (0x7f, 0xff, None, None)]"

definition input_state_dcs_handler_table :: "input_transition list" where
  "input_state_dcs_handler_table = [
     (0x00, 0x1a, Some Input_input, None),
     (0x1b, 0x1b, None, Some Dcs_escape),
     (0x1c, 0xff, Some Input_input, None)]"

definition input_state_dcs_escape_table :: "input_transition list" where
  "input_state_dcs_escape_table = [
     (0x00, 0x5b, Some Input_input, Some Dcs_handler),
     (0x5c, 0x5c, Some Input_dcs_dispatch, Some Ground),
     (0x5d, 0xff, Some Input_input, Some Dcs_handler)]"

definition input_state_dcs_ignore_table :: "input_transition list" where
  "input_state_dcs_ignore_table = INPUT_STATE_ANYWHERE @ [
     (0x00, 0x17, None, None),
     (0x19, 0x19, None, None),
     (0x1c, 0x1f, None, None),
     (0x20, 0xff, None, None)]"

definition input_state_osc_string_table :: "input_transition list" where
  "input_state_osc_string_table = INPUT_STATE_ANYWHERE @ [
     (0x00, 0x06, None, None),
     (0x07, 0x07, None, Some Ground),
     (0x08, 0x17, None, None),
     (0x19, 0x19, None, None),
     (0x1c, 0x1f, None, None),
     (0x20, 0xff, Some Input_input, None)]"

definition input_state_apc_string_table :: "input_transition list" where
  "input_state_apc_string_table = INPUT_STATE_ANYWHERE @ [
     (0x00, 0x17, None, None),
     (0x19, 0x19, None, None),
     (0x1c, 0x1f, None, None),
     (0x20, 0xff, Some Input_input, None)]"

definition input_state_rename_string_table :: "input_transition list" where
  "input_state_rename_string_table = INPUT_STATE_ANYWHERE @ [
     (0x00, 0x17, None, None),
     (0x19, 0x19, None, None),
     (0x1c, 0x1f, None, None),
     (0x20, 0xff, Some Input_input, None)]"

definition input_state_consume_st_table :: "input_transition list" where
  "input_state_consume_st_table = INPUT_STATE_ANYWHERE @ [
     (0x00, 0x17, None, None),
     (0x19, 0x19, None, None),
     (0x1c, 0x1f, None, None),
     (0x20, 0xff, None, None)]"

definition input_state_utf8_three_table :: "input_transition list" where
  "input_state_utf8_three_table = [
     (0x00, 0x7f, None, Some Ground),
     (0x80, 0xbf, Some Input_utf8_add, Some Utf8_two),
     (0xc0, 0xff, None, Some Ground)]"

definition input_state_utf8_two_table :: "input_transition list" where
  "input_state_utf8_two_table = [
     (0x00, 0x7f, None, Some Ground),
     (0x80, 0xbf, Some Input_utf8_add, Some Utf8_one),
     (0xc0, 0xff, None, Some Ground)]"

definition input_state_utf8_one_table :: "input_transition list" where
  "input_state_utf8_one_table = [
     (0x00, 0x7f, None, Some Ground),
     (0x80, 0xbf, Some Input_utf8_close, Some Ground),
     (0xc0, 0xff, None, Some Ground)]"

fun transitions :: "input_state \<Rightarrow> input_transition list" where
  "transitions Ground = input_state_ground_table"
| "transitions Esc_enter = input_state_esc_enter_table"
| "transitions Esc_intermediate = input_state_esc_intermediate_table"
| "transitions Csi_enter = input_state_csi_enter_table"
| "transitions Csi_parameter = input_state_csi_parameter_table"
| "transitions Csi_intermediate = input_state_csi_intermediate_table"
| "transitions Csi_ignore = input_state_csi_ignore_table"
| "transitions Dcs_enter = input_state_dcs_enter_table"
| "transitions Dcs_parameter = input_state_dcs_parameter_table"
| "transitions Dcs_intermediate = input_state_dcs_intermediate_table"
| "transitions Dcs_handler = input_state_dcs_handler_table"
| "transitions Dcs_escape = input_state_dcs_escape_table"
| "transitions Dcs_ignore = input_state_dcs_ignore_table"
| "transitions Osc_string = input_state_osc_string_table"
| "transitions Apc_string = input_state_apc_string_table"
| "transitions Rename_string = input_state_rename_string_table"
| "transitions Consume_st = input_state_consume_st_table"
| "transitions Utf8_three = input_state_utf8_three_table"
| "transitions Utf8_two = input_state_utf8_two_table"
| "transitions Utf8_one = input_state_utf8_one_table"

text \<open>The entry and exit handlers of the states.\<close>

datatype input_hook = Input_clear | Input_enter_osc | Input_exit_osc | Input_enter_apc
  | Input_exit_apc | Input_enter_rename | Input_exit_rename

fun state_enter :: "input_state \<Rightarrow> input_hook option" where
  "state_enter Esc_enter = Some Input_clear"
| "state_enter Csi_enter = Some Input_clear"
| "state_enter Dcs_enter = Some Input_clear"
| "state_enter Osc_string = Some Input_enter_osc"
| "state_enter Apc_string = Some Input_enter_apc"
| "state_enter Rename_string = Some Input_enter_rename"
| "state_enter st = None"

fun state_exit :: "input_state \<Rightarrow> input_hook option" where
  "state_exit Osc_string = Some Input_exit_osc"
| "state_exit Apc_string = Some Input_exit_apc"
| "state_exit Rename_string = Some Input_exit_rename"
| "state_exit st = None"

definition covers :: "nat \<Rightarrow> input_transition \<Rightarrow> bool" where
  "covers n t \<longleftrightarrow> fst t \<le> n \<and> n \<le> fst (snd t)"

text \<open>The transition of a state for a byte; None is fatalx.\<close>

definition find_transition :: "input_state \<Rightarrow> byte \<Rightarrow> (input_handler option \<times> input_state option) option" where
  "find_transition st b = map_option (\<lambda>t. snd (snd t)) (find (covers (unat b)) (transitions st))"

section \<open>Every state covers every byte\<close>

text \<open>Ranges that follow one another, from a to before e.\<close>

fun chained :: "nat \<Rightarrow> input_transition list \<Rightarrow> nat \<Rightarrow> bool" where
  "chained a [] e \<longleftrightarrow> a = e"
| "chained a (t # ts) e \<longleftrightarrow> fst t = a \<and> a \<le> fst (snd t) \<and> chained (Suc (fst (snd t))) ts e"

lemma chained_le: "chained a ts e \<Longrightarrow> a \<le> e"
  by (induction a ts e rule: chained.induct) auto

lemma chained_none: "chained a ts e \<Longrightarrow> n < a \<Longrightarrow> filter (covers n) ts = []"
  by (induction a ts e rule: chained.induct) (auto simp: covers_def)

lemma chained_one:
  "chained a ts e \<Longrightarrow> a \<le> n \<Longrightarrow> n < e \<Longrightarrow> length (filter (covers n) ts) = 1"
proof (induction a ts e rule: chained.induct)
  case (2 a t ts e)
  show ?case
  proof (cases "n \<le> fst (snd t)")
    case True
    then show ?thesis using 2 chained_none [of "Suc (fst (snd t))" ts e n] by (simp add: covers_def [of n t])
  next
    case False
    then show ?thesis using 2 by (simp add: covers_def)
  qed
qed simp

lemmas state_tables = INPUT_STATE_ANYWHERE_def input_state_ground_table_def
  input_state_esc_enter_table_def input_state_esc_intermediate_table_def
  input_state_csi_enter_table_def input_state_csi_parameter_table_def
  input_state_csi_intermediate_table_def input_state_csi_ignore_table_def
  input_state_dcs_enter_table_def input_state_dcs_parameter_table_def
  input_state_dcs_intermediate_table_def input_state_dcs_handler_table_def
  input_state_dcs_escape_table_def input_state_dcs_ignore_table_def
  input_state_osc_string_table_def input_state_apc_string_table_def
  input_state_rename_string_table_def input_state_consume_st_table_def
  input_state_utf8_three_table_def input_state_utf8_two_table_def
  input_state_utf8_one_table_def

lemma transitions_chained: "chained 0 (sort_key fst (transitions st)) 256"
  by (cases st) (simp_all add: state_tables)

lemma transitions_one: "n < 256 \<Longrightarrow> length (filter (covers n) (transitions st)) = 1"
proof -
  assume n: "n < 256"
  have "mset (filter (covers n) (sort_key fst (transitions st))) = mset (filter (covers n) (transitions st))"
    by simp
  then have "length (filter (covers n) (transitions st)) = length (filter (covers n) (sort_key fst (transitions st)))"
    by (metis mset_eq_length)
  then show ?thesis using chained_one [OF transitions_chained _ n] by simp
qed

lemma find_transition_Some: "\<exists>h st'. find_transition st b = Some (h, st')"
proof -
  have "unat b < 256" using unsigned_less [of b] by simp
  then have "filter (covers (unat b)) (transitions st) \<noteq> []"
    using transitions_one [of "unat b" st] by auto
  then have "find (covers (unat b)) (transitions st) \<noteq> None"
    by (auto simp: find_None_iff filter_empty_conv)
  then show ?thesis by (auto simp: find_transition_def)
qed

end
