(* ===== verification/Input.thy ===== *)
theory Input
  imports Input_Tables
begin

text \<open>
  The input parser of input.c: its handlers, the execution of control characters, escape
  sequences, control sequences and strings, and the loop of input_parse over the bytes that a
  program in a pane has written.

  None is a fault, as everywhere. The signed overflow in input_exit_osc, undefined in C, wraps.
\<close>

definition on_ctx :: "(screen_write_ctx \<Rightarrow> screen_write_ctx option) \<Rightarrow> window_pane \<Rightarrow> window_pane option" where
  "on_ctx f wp = map_option (\<lambda>c. wp\<lparr>wp_ctx := c\<rparr>) (f (wp_ctx wp))"

definition on_base :: "(screen \<Rightarrow> screen option) \<Rightarrow> window_pane \<Rightarrow> window_pane option" where
  "on_base f wp = map_option (\<lambda>s. set_base s wp) (f (wp_base wp))"

definition on_ictx :: "(input_ctx \<Rightarrow> input_ctx) \<Rightarrow> window_pane \<Rightarrow> window_pane" where
  "on_ictx f wp = wp\<lparr>wp_ictx := f (wp_ictx wp)\<rparr>"

definition on_cell :: "(grid_cell \<Rightarrow> grid_cell) \<Rightarrow> window_pane \<Rightarrow> window_pane" where
  "on_cell f = on_ictx (\<lambda>i. i\<lparr>i_cell := f (i_cell i)\<rparr>)"

definition on_window :: "(input_window \<Rightarrow> input_window) \<Rightarrow> window_pane \<Rightarrow> window_pane" where
  "on_window f wp = wp\<lparr>wp_window := f (wp_window wp)\<rparr>"

definition server_status_window :: "window_pane \<Rightarrow> window_pane" where
  "server_status_window = on_window (\<lambda>w. w\<lparr>w_status := w_status w + 1\<rparr>)"

definition input_init :: "input_ctx \<Rightarrow> input_ctx" where
  "input_init ictx = ictx\<lparr>i_cell := grid_default_cell, i_old_cell := grid_default_cell, i_old_cx := 0,
     i_old_cy := 0, i_interm := [], i_param := [], i_state := Ground, i_discard := False\<rparr>"

section \<open>Parameters\<close>

abbreviation INT_MAX :: int where "INT_MAX \<equiv> 2147483647"

definition PARAM_LIST :: nat where "PARAM_LIST = 24"

text \<open>The loop of input_split; the flag is true for the result 0.\<close>

function split_loop :: "byte list option \<Rightarrow> int list \<Rightarrow> int list \<times> bool" where
  "split_loop None ps = (ps, True)"
| "split_loop (Some s) ps =
     (let out = takeWhile (\<lambda>b. b \<noteq> 0x3b) s;
          ptr = (if length out < length s then Some (drop (length out + 1) s) else None) in
      case (if out = [] then Some (-1) else strtonum (chars out) 0 INT_MAX) of
        None \<Rightarrow> (ps, False)
      | Some n \<Rightarrow>
          if length ps + 1 = PARAM_LIST then (ps @ [n], False) else split_loop ptr (ps @ [n]))"
  by pat_completeness auto
termination
  by (relation "measure (\<lambda>(p, ps). case p of None \<Rightarrow> 0 | Some s \<Rightarrow> Suc (length s))") auto

declare split_loop.simps [simp del]

definition input_split :: "input_ctx \<Rightarrow> input_ctx \<times> bool" where
  "input_split ictx =
     (if i_param ictx = [] then (ictx\<lparr>i_plist := []\<rparr>, True)
      else let (ps, ok) = split_loop (Some (i_param ictx)) [] in (ictx\<lparr>i_plist := ps\<rparr>, ok))"

definition input_get :: "input_ctx \<Rightarrow> nat \<Rightarrow> int \<Rightarrow> int \<Rightarrow> int" where
  "input_get ictx validx minval defval =
     (if validx \<ge> length (i_plist ictx) then defval
      else let retval = i_plist ictx ! validx in
        if retval = -1 then defval else if retval < minval then minval else retval)"

definition input_reply :: "byte list \<Rightarrow> window_pane \<Rightarrow> window_pane" where
  "input_reply bytes wp = wp\<lparr>wp_reply := wp_reply wp @ bytes\<rparr>"

definition bytes_of :: "string \<Rightarrow> byte list" where
  "bytes_of s = map (\<lambda>c. word_of_nat (char_code c)) s"

section \<open>Collecting\<close>

definition input_clear :: "window_pane \<Rightarrow> window_pane" where
  "input_clear = on_ictx (\<lambda>i. i\<lparr>i_interm := [], i_param := [], i_input := [], i_discard := False\<rparr>)"

definition input_print :: "window_pane \<Rightarrow> window_pane option" where
  "input_print wp =
     (let wp = on_ictx (\<lambda>i. i\<lparr>i_cell := (i_cell i)\<lparr>gc_data := i_ch i\<rparr>\<rparr>) wp in
      on_ctx (screen_write_cell (i_cell (wp_ictx wp)) None) wp)"

definition input_intermediate :: "window_pane \<Rightarrow> window_pane" where
  "input_intermediate = on_ictx (\<lambda>i. if length (i_interm i) = 3 then i\<lparr>i_discard := True\<rparr>
     else i\<lparr>i_interm := i_interm i @ [i_ch i]\<rparr>)"

definition input_parameter :: "window_pane \<Rightarrow> window_pane" where
  "input_parameter = on_ictx (\<lambda>i. if length (i_param i) = 63 then i\<lparr>i_discard := True\<rparr>
     else i\<lparr>i_param := i_param i @ [i_ch i]\<rparr>)"

definition input_input :: "window_pane \<Rightarrow> window_pane" where
  "input_input = on_ictx (\<lambda>i. if length (i_input i) = 255 then i\<lparr>i_discard := True\<rparr>
     else i\<lparr>i_input := i_input i @ [i_ch i]\<rparr>)"

section \<open>Control characters\<close>

text \<open>The next tab stop, or the last column; bit_test outside the bit string is a fault.\<close>

function tab_forward :: "bool list \<Rightarrow> nat \<Rightarrow> nat \<Rightarrow> nat option" where
  "tab_forward tabs edge cx =
     (case lget (Suc cx) tabs of
        None \<Rightarrow> None
      | Some b \<Rightarrow> if b then Some (Suc cx) else if Suc cx < edge then tab_forward tabs edge (Suc cx)
          else Some (Suc cx))"
  by pat_completeness auto
termination
  by (relation "measure (\<lambda>(tabs, edge, cx). edge - cx)") auto

declare tab_forward.simps [simp del]

definition input_tab :: "screen \<Rightarrow> screen option" where
  "input_tab s =
     (let edge = usub (screen_size_x s) 1 in
      if s_cx s \<ge> edge then Some s
      else map_option (\<lambda>x. s\<lparr>s_cx := x\<rparr>) (tab_forward (s_tabs s) edge (s_cx s)))"

definition input_c0_dispatch :: "window_pane \<Rightarrow> window_pane option" where
  "input_c0_dispatch wp =
     (let ch = i_ch (wp_ictx wp) in
      if ch = 0x07 then Some (on_window (\<lambda>w. w\<lparr>w_flags := w_flags w OR WINDOW_BELL\<rparr>) wp)
      else if ch = 0x08 then on_ctx screen_write_backspace wp
      else if ch = 0x09 then on_base input_tab wp
      else if ch = 0x0a \<or> ch = 0x0b \<or> ch = 0x0c then on_ctx (screen_write_linefeed False) wp
      else if ch = 0x0d then on_ctx (\<lambda>c. Some (screen_write_carriagereturn c)) wp
      else if ch = 0x0e then Some (on_cell (\<lambda>gc. gc\<lparr>gc_attr := gc_attr gc OR GRID_ATTR_CHARSET\<rparr>) wp)
      else if ch = 0x0f then Some (on_cell (\<lambda>gc. gc\<lparr>gc_attr := gc_attr gc AND NOT GRID_ATTR_CHARSET\<rparr>) wp)
      else Some wp)"

section \<open>Escape sequences\<close>

text \<open>RIS, the full reset.\<close>

definition esc_ris :: "window_pane \<Rightarrow> window_pane option" where
  "esc_ris wp = do {
     let wp = on_ictx (\<lambda>i. i\<lparr>i_cell := grid_default_cell, i_old_cell := grid_default_cell,
       i_old_cx := 0, i_old_cy := 0\<rparr>) wp;
     wp \<leftarrow> on_base screen_reset_tabs wp;
     on_ctx (\<lambda>c. do {
       let c = screen_write_scrollregion 0 (usub (screen_size_y (sw_s c)) 1) c;
       let c = screen_write_insertmode False c;
       let c = screen_write_kcursormode False c;
       let c = screen_write_kkeypadmode False c;
       let c = screen_write_mousemode_off c;
       c \<leftarrow> screen_write_clearscreen c;
       Some (screen_write_cursormove 0 0 c)
     }) wp
   }"

definition bit_put :: "bool \<Rightarrow> screen \<Rightarrow> screen option" where
  "bit_put b s = (if s_cx s < screen_size_x s
     then map_option (\<lambda>tabs. s\<lparr>s_tabs := tabs\<rparr>) (lput (s_cx s) b (s_tabs s)) else Some s)"

fun esc_execute :: "input_esc_type \<Rightarrow> window_pane \<Rightarrow> window_pane option" where
  "esc_execute INPUT_ESC_RIS wp = esc_ris wp"
| "esc_execute INPUT_ESC_IND wp = on_ctx (screen_write_linefeed False) wp"
| "esc_execute INPUT_ESC_NEL wp = on_ctx (\<lambda>c. screen_write_linefeed False (screen_write_carriagereturn c)) wp"
| "esc_execute INPUT_ESC_HTS wp = on_base (bit_put True) wp"
| "esc_execute INPUT_ESC_RI wp = on_ctx screen_write_reverseindex wp"
| "esc_execute INPUT_ESC_DECKPAM wp = on_ctx (\<lambda>c. Some (screen_write_kkeypadmode True c)) wp"
| "esc_execute INPUT_ESC_DECKPNM wp = on_ctx (\<lambda>c. Some (screen_write_kkeypadmode False c)) wp"
| "esc_execute INPUT_ESC_DECSC wp = Some (on_ictx (\<lambda>i. i\<lparr>i_old_cell := i_cell i,
     i_old_cx := s_cx (wp_base wp), i_old_cy := s_cy (wp_base wp)\<rparr>) wp)"
| "esc_execute INPUT_ESC_DECRC wp =
     (let wp = on_ictx (\<lambda>i. i\<lparr>i_cell := i_old_cell i\<rparr>) wp; i = wp_ictx wp in
      on_ctx (\<lambda>c. Some (screen_write_cursormove (i_old_cx i) (i_old_cy i) c)) wp)"
| "esc_execute INPUT_ESC_DECALN wp = on_ctx screen_write_alignmenttest wp"
| "esc_execute INPUT_ESC_SCSON_G0 wp = Some (on_cell (\<lambda>gc. gc\<lparr>gc_attr := gc_attr gc AND NOT GRID_ATTR_CHARSET\<rparr>) wp)"
| "esc_execute INPUT_ESC_SCSOFF_G0 wp = Some (on_cell (\<lambda>gc. gc\<lparr>gc_attr := gc_attr gc OR GRID_ATTR_CHARSET\<rparr>) wp)"

definition input_esc_dispatch :: "window_pane \<Rightarrow> window_pane option" where
  "input_esc_dispatch wp =
     (let i = wp_ictx wp in
      if i_discard i then Some wp
      else case bsearch (input_table_compare (i_ch i, i_interm i)) input_esc_table of
        None \<Rightarrow> Some wp
      | Some e \<Rightarrow> esc_execute (it_type e) wp)"

section \<open>Control sequences\<close>

definition arg :: "window_pane \<Rightarrow> nat \<Rightarrow> int \<Rightarrow> int \<Rightarrow> nat" where
  "arg wp i minval defval = nat (input_get (wp_ictx wp) i minval defval)"

text \<open>
  CBT, n times back to a tab stop. The first step of each round goes below the column
  without a check; bit_test outside the bit string is a fault.
\<close>

fun tab_back :: "bool list \<Rightarrow> nat \<Rightarrow> nat option" where
  "tab_back tabs 0 = Some 0"
| "tab_back tabs (Suc cx) =
     (if cx = 0 then Some 0
      else case lget cx tabs of None \<Rightarrow> None | Some b \<Rightarrow> if b then Some cx else tab_back tabs cx)"

fun tabs_back :: "bool list \<Rightarrow> nat \<Rightarrow> nat \<Rightarrow> nat option" where
  "tabs_back tabs 0 cx = Some cx"
| "tabs_back tabs (Suc n) cx =
     (if cx = 0 then Some 0 else Option.bind (tab_back tabs cx) (tabs_back tabs n))"

definition csi_cbt :: "window_pane \<Rightarrow> window_pane option" where
  "csi_cbt wp = on_base (\<lambda>s. map_option (\<lambda>x. s\<lparr>s_cx := x\<rparr>) (tabs_back (s_tabs s) (arg wp 0 1 1) (s_cx s))) wp"

definition csi_da :: "window_pane \<Rightarrow> window_pane" where
  "csi_da wp = (if input_get (wp_ictx wp) 0 0 0 = 0
     then input_reply [0x1b, 0x5b, 0x3f, 0x31, 0x3b, 0x32, 0x63] wp else wp)"

definition csi_dsr :: "window_pane \<Rightarrow> window_pane" where
  "csi_dsr wp =
     (let n = input_get (wp_ictx wp) 0 0 0; s = wp_base wp in
      if n = 5 then input_reply [0x1b, 0x5b, 0x30, 0x6e] wp
      else if n = 6 then input_reply ([0x1b, 0x5b] @ bytes_of (print_unsigned (uadd (s_cy s) 1)) @ [0x3b]
        @ bytes_of (print_unsigned (uadd (s_cx s) 1)) @ [0x52]) wp
      else wp)"

definition csi_ed :: "window_pane \<Rightarrow> window_pane option" where
  "csi_ed wp =
     (let n = input_get (wp_ictx wp) 0 0 0 in
      if n = 0 then on_ctx screen_write_clearendofscreen wp
      else if n = 1 then on_ctx screen_write_clearstartofscreen wp
      else if n = 2 then on_ctx screen_write_clearscreen wp
      else Some wp)"

definition csi_el :: "window_pane \<Rightarrow> window_pane option" where
  "csi_el wp =
     (let n = input_get (wp_ictx wp) 0 0 0 in
      if n = 0 then on_ctx screen_write_clearendofline wp
      else if n = 1 then on_ctx screen_write_clearstartofline wp
      else if n = 2 then on_ctx screen_write_clearline wp
      else Some wp)"

text \<open>DECCOLM, in both directions.\<close>

definition deccolm :: "window_pane \<Rightarrow> window_pane option" where
  "deccolm = on_ctx (\<lambda>c. screen_write_clearscreen (screen_write_cursormove 0 0 c))"

definition csi_rm_private :: "window_pane \<Rightarrow> window_pane option" where
  "csi_rm_private wp =
     (let n = input_get (wp_ictx wp) 0 0 (-1) in
      if n = 1 then on_ctx (\<lambda>c. Some (screen_write_kcursormode False c)) wp
      else if n = 3 then deccolm wp
      else if n = 25 then on_ctx (\<lambda>c. Some (screen_write_cursormode False c)) wp
      else if n = 1000 \<or> n = 1001 \<or> n = 1002 \<or> n = 1003 then on_ctx (\<lambda>c. Some (screen_write_mousemode_off c)) wp
      else if n = 1005 then on_ctx (\<lambda>c. Some (screen_write_utf8mousemode False c)) wp
      else if n = 1049 then map_option (\<lambda>(wp, gc). on_cell (\<lambda>_. gc) wp)
        (window_pane_alternate_off (i_cell (wp_ictx wp)) wp)
      else Some wp)"

definition csi_sm_private :: "window_pane \<Rightarrow> window_pane option" where
  "csi_sm_private wp =
     (let n = input_get (wp_ictx wp) 0 0 (-1) in
      if n = 1 then on_ctx (\<lambda>c. Some (screen_write_kcursormode True c)) wp
      else if n = 3 then deccolm wp
      else if n = 25 then on_ctx (\<lambda>c. Some (screen_write_cursormode True c)) wp
      else if n = 1000 then on_ctx (\<lambda>c. Some (screen_write_mousemode_on MODE_MOUSE_STANDARD c)) wp
      else if n = 1002 then on_ctx (\<lambda>c. Some (screen_write_mousemode_on MODE_MOUSE_BUTTON c)) wp
      else if n = 1003 then on_ctx (\<lambda>c. Some (screen_write_mousemode_on MODE_MOUSE_ANY c)) wp
      else if n = 1005 then on_ctx (\<lambda>c. Some (screen_write_utf8mousemode True c)) wp
      else if n = 1049 then window_pane_alternate_on (i_cell (wp_ictx wp)) wp
      else Some wp)"

definition csi_insertmode :: "bool \<Rightarrow> window_pane \<Rightarrow> window_pane option" where
  "csi_insertmode b wp = (if input_get (wp_ictx wp) 0 0 (-1) = 4
     then on_ctx (\<lambda>c. Some (screen_write_insertmode b c)) wp else Some wp)"

definition csi_tbc :: "window_pane \<Rightarrow> window_pane option" where
  "csi_tbc wp =
     (let n = input_get (wp_ictx wp) 0 0 0 in
      if n = 0 then on_base (bit_put False) wp
      else if n = 3 then on_base (\<lambda>s. map_option (\<lambda>tabs. s\<lparr>s_tabs := tabs\<rparr>)
        (foldM (\<lambda>i. lput i False) [0..<usub (screen_size_x s) 1 + 1] (s_tabs s))) wp
      else Some wp)"

section \<open>SGR\<close>

definition sgr_reset :: "grid_cell \<Rightarrow> grid_cell" where
  "sgr_reset gc = grid_default_cell\<lparr>gc_attr := gc_attr grid_default_cell OR (gc_attr gc AND GRID_ATTR_CHARSET)\<rparr>"

definition sgr_fg :: "int \<Rightarrow> grid_cell \<Rightarrow> grid_cell" where
  "sgr_fg v gc = gc\<lparr>gc_flags := gc_flags gc AND NOT GRID_FLAG_FG256, gc_fg := word_of_int v\<rparr>"

definition sgr_bg :: "int \<Rightarrow> grid_cell \<Rightarrow> grid_cell" where
  "sgr_bg v gc = gc\<lparr>gc_flags := gc_flags gc AND NOT GRID_FLAG_BG256, gc_bg := word_of_int v\<rparr>"

definition sgr_on :: "byte \<Rightarrow> grid_cell \<Rightarrow> grid_cell" where
  "sgr_on a gc = gc\<lparr>gc_attr := gc_attr gc OR a\<rparr>"

definition sgr_off :: "byte \<Rightarrow> grid_cell \<Rightarrow> grid_cell" where
  "sgr_off a gc = gc\<lparr>gc_attr := gc_attr gc AND NOT a\<rparr>"

text \<open>The switch on one parameter.\<close>

definition sgr_one :: "int \<Rightarrow> grid_cell \<Rightarrow> grid_cell" where
  "sgr_one n gc =
     (if n = 0 \<or> n = 10 then sgr_reset gc
      else if n = 1 then sgr_on GRID_ATTR_BRIGHT gc
      else if n = 2 then sgr_on GRID_ATTR_DIM gc
      else if n = 3 then sgr_on GRID_ATTR_ITALICS gc
      else if n = 4 then sgr_on GRID_ATTR_UNDERSCORE gc
      else if n = 5 then sgr_on GRID_ATTR_BLINK gc
      else if n = 7 then sgr_on GRID_ATTR_REVERSE gc
      else if n = 8 then sgr_on GRID_ATTR_HIDDEN gc
      else if n = 22 then sgr_off (GRID_ATTR_BRIGHT OR GRID_ATTR_DIM) gc
      else if n = 23 then sgr_off GRID_ATTR_ITALICS gc
      else if n = 24 then sgr_off GRID_ATTR_UNDERSCORE gc
      else if n = 25 then sgr_off GRID_ATTR_BLINK gc
      else if n = 27 then sgr_off GRID_ATTR_REVERSE gc
      else if 30 \<le> n \<and> n \<le> 37 then sgr_fg (n - 30) gc
      else if n = 39 then sgr_fg 8 gc
      else if 40 \<le> n \<and> n \<le> 47 then sgr_bg (n - 40) gc
      else if n = 49 then sgr_bg 8 gc
      else if 90 \<le> n \<and> n \<le> 97 then sgr_fg n gc
      else if 100 \<le> n \<and> n \<le> 107 then sgr_bg n gc
      else gc)"

text \<open>What 38;5;m and 48;5;m do; m is -1 when it is not there.\<close>

definition sgr_256 :: "int \<Rightarrow> int \<Rightarrow> grid_cell \<Rightarrow> grid_cell" where
  "sgr_256 n m gc =
     (if m = -1 then if n = 38 then sgr_fg 8 gc else sgr_bg 8 gc
      else if n = 38 then gc\<lparr>gc_flags := gc_flags gc OR GRID_FLAG_FG256, gc_fg := word_of_int m\<rparr>
      else gc\<lparr>gc_flags := gc_flags gc OR GRID_FLAG_BG256, gc_bg := word_of_int m\<rparr>)"

function sgr_loop :: "input_ctx \<Rightarrow> nat \<Rightarrow> grid_cell \<Rightarrow> grid_cell" where
  "sgr_loop ictx i gc =
     (if i \<ge> length (i_plist ictx) then gc
      else let n = input_get ictx i 0 0 in
        if n = 38 \<or> n = 48 then
          if input_get ictx (i + 1) 0 (-1) \<noteq> 5 then sgr_loop ictx (i + 2) gc
          else sgr_loop ictx (i + 3) (sgr_256 n (input_get ictx (i + 2) 0 (-1)) gc)
        else sgr_loop ictx (i + 1) (sgr_one n gc))"
  by pat_completeness auto
termination
  by (relation "measure (\<lambda>(ictx, i, gc). length (i_plist ictx) - i)") auto

declare sgr_loop.simps [simp del]

definition input_csi_dispatch_sgr :: "input_ctx \<Rightarrow> input_ctx" where
  "input_csi_dispatch_sgr ictx =
     (if i_plist ictx = [] then ictx\<lparr>i_cell := sgr_reset (i_cell ictx)\<rparr>
      else ictx\<lparr>i_cell := sgr_loop ictx 0 (i_cell ictx)\<rparr>)"

fun csi_execute :: "input_csi_type \<Rightarrow> window_pane \<Rightarrow> window_pane option" where
  "csi_execute INPUT_CSI_CBT wp = csi_cbt wp"
| "csi_execute INPUT_CSI_CUB wp = on_ctx (\<lambda>c. Some (screen_write_cursorleft (arg wp 0 1 1) c)) wp"
| "csi_execute INPUT_CSI_CUD wp = on_ctx (\<lambda>c. Some (screen_write_cursordown (arg wp 0 1 1) c)) wp"
| "csi_execute INPUT_CSI_CUF wp = on_ctx (\<lambda>c. Some (screen_write_cursorright (arg wp 0 1 1) c)) wp"
| "csi_execute INPUT_CSI_CUP wp = on_ctx (\<lambda>c. Some (screen_write_cursormove (arg wp 1 1 1 - 1) (arg wp 0 1 1 - 1) c)) wp"
| "csi_execute INPUT_CSI_CUU wp = on_ctx (\<lambda>c. Some (screen_write_cursorup (arg wp 0 1 1) c)) wp"
| "csi_execute INPUT_CSI_DA wp = Some (csi_da wp)"
| "csi_execute INPUT_CSI_DCH wp = on_ctx (screen_write_deletecharacter (arg wp 0 1 1)) wp"
| "csi_execute INPUT_CSI_DECSTBM wp = on_ctx (\<lambda>c. Some (screen_write_scrollregion (arg wp 0 1 1 - 1)
     (arg wp 1 1 (int (screen_size_y (wp_base wp))) - 1) c)) wp"
| "csi_execute INPUT_CSI_DL wp = on_ctx (screen_write_deleteline (arg wp 0 1 1)) wp"
| "csi_execute INPUT_CSI_DSR wp = Some (csi_dsr wp)"
| "csi_execute INPUT_CSI_ED wp = csi_ed wp"
| "csi_execute INPUT_CSI_EL wp = csi_el wp"
| "csi_execute INPUT_CSI_HPA wp = on_ctx (\<lambda>c. Some (screen_write_cursormove (arg wp 0 1 1 - 1) (s_cy (wp_base wp)) c)) wp"
| "csi_execute INPUT_CSI_ICH wp = on_ctx (screen_write_insertcharacter (arg wp 0 1 1)) wp"
| "csi_execute INPUT_CSI_IL wp = on_ctx (screen_write_insertline (arg wp 0 1 1)) wp"
| "csi_execute INPUT_CSI_RM wp = csi_insertmode False wp"
| "csi_execute INPUT_CSI_RM_PRIVATE wp = csi_rm_private wp"
| "csi_execute INPUT_CSI_SGR wp = Some (on_ictx input_csi_dispatch_sgr wp)"
| "csi_execute INPUT_CSI_SM wp = csi_insertmode True wp"
| "csi_execute INPUT_CSI_SM_PRIVATE wp = csi_sm_private wp"
| "csi_execute INPUT_CSI_TBC wp = csi_tbc wp"
| "csi_execute INPUT_CSI_VPA wp = on_ctx (\<lambda>c. Some (screen_write_cursormove (s_cx (wp_base wp)) (arg wp 0 1 1 - 1) c)) wp"
| "csi_execute INPUT_CSI_DECSCUSR wp = on_base (\<lambda>s. Some (screen_set_cursor_style (arg wp 0 0 0) s)) wp"

definition input_csi_dispatch :: "window_pane \<Rightarrow> window_pane option" where
  "input_csi_dispatch wp =
     (if i_discard (wp_ictx wp) then Some wp
      else let (i, ok) = input_split (wp_ictx wp); wp = on_ictx (\<lambda>_. i) wp in
        if \<not> ok then Some wp
        else case bsearch (input_table_compare (i_ch i, i_interm i)) input_csi_table of
          None \<Rightarrow> Some wp
        | Some e \<Rightarrow> csi_execute (it_type e) wp)"

section \<open>Strings\<close>

text \<open>The prefix is tmux; and what follows goes to the terminals as it is.\<close>

definition input_dcs_dispatch :: "window_pane \<Rightarrow> window_pane option" where
  "input_dcs_dispatch wp =
     (let i = wp_ictx wp; prefix = [0x74, 0x6d, 0x75, 0x78, 0x3b] in
      if i_discard i then Some wp
      else if length (i_input i) \<ge> length prefix \<and> take (length prefix) (i_input i) = prefix
      then on_ctx (screen_write_rawstring (drop (length prefix) (i_input i))) wp
      else Some wp)"

definition int32 :: "int \<Rightarrow> int" where
  "int32 n = signed_take_bit 31 n"

fun osc_number :: "byte list \<Rightarrow> int \<Rightarrow> int \<times> byte list" where
  "osc_number [] n = (n, [])"
| "osc_number (b # bs) n =
     (if 0x30 \<le> b \<and> b \<le> 0x39 then osc_number bs (int32 (n * 10 + uint b - 0x30)) else (n, b # bs))"

definition input_exit_osc :: "window_pane \<Rightarrow> window_pane" where
  "input_exit_osc wp =
     (let i = wp_ictx wp; p = i_input i in
      if i_discard i then wp
      else if length p < 1 \<or> hd p < 0x30 \<or> hd p > 0x39 then wp
      else
        let (option, p) = osc_number p 0;
            p = (if p \<noteq> [] \<and> hd p = 0x3b then tl p else p) in
        if option = 0 \<or> option = 2 then
          server_status_window (set_base (screen_set_title p (wp_base wp)) wp)
        else if option = 12 then set_base (screen_set_cursor_colour p (wp_base wp)) wp
        else if option = 112 then
          (if p = [] then set_base (screen_set_cursor_colour [] (wp_base wp)) wp else wp)
        else wp)"

definition input_exit_apc :: "window_pane \<Rightarrow> window_pane" where
  "input_exit_apc wp =
     (let i = wp_ictx wp in
      if i_discard i then wp
      else server_status_window (set_base (screen_set_title (i_input i) (wp_base wp)) wp))"

definition input_exit_rename :: "window_pane \<Rightarrow> window_pane" where
  "input_exit_rename wp =
     (let i = wp_ictx wp in
      if i_discard i then wp
      else server_status_window (on_window (\<lambda>w. w\<lparr>w_name := i_input i, w_automatic_rename := False\<rparr>) wp))"

section \<open>UTF-8\<close>

text \<open>The flag is true for the result 0, with which the state is switched.\<close>

definition input_utf8_open :: "window_pane \<Rightarrow> (window_pane \<times> bool) option" where
  "input_utf8_open wp =
     (if \<not> w_utf8 (wp_window wp) then map_option (\<lambda>wp. (wp, False)) (input_print wp)
      else map_option (\<lambda>(u, ok). (on_ictx (\<lambda>i. i\<lparr>i_utf8data := u\<rparr>) wp, True)) (utf8_open (i_ch (wp_ictx wp))))"

definition input_utf8_add :: "window_pane \<Rightarrow> window_pane option" where
  "input_utf8_add wp =
     map_option (\<lambda>(u, more). on_ictx (\<lambda>i. i\<lparr>i_utf8data := u\<rparr>) wp)
       (utf8_append (i_utf8data (wp_ictx wp)) (i_ch (wp_ictx wp)))"

definition input_utf8_close :: "window_pane \<Rightarrow> window_pane option" where
  "input_utf8_close wp = do {
     wp \<leftarrow> input_utf8_add wp;
     let wp = on_cell (\<lambda>gc. gc\<lparr>gc_flags := gc_flags gc OR GRID_FLAG_UTF8\<rparr>) wp;
     wp \<leftarrow> on_ctx (screen_write_cell (i_cell (wp_ictx wp)) (Some (i_utf8data (wp_ictx wp)))) wp;
     Some (on_cell (\<lambda>gc. gc\<lparr>gc_flags := gc_flags gc AND NOT GRID_FLAG_UTF8\<rparr>) wp)
   }"

section \<open>Parsing\<close>

fun run_handler :: "input_handler \<Rightarrow> window_pane \<Rightarrow> (window_pane \<times> bool) option" where
  "run_handler Input_print wp = map_option (\<lambda>wp. (wp, True)) (input_print wp)"
| "run_handler Input_intermediate wp = Some (input_intermediate wp, True)"
| "run_handler Input_parameter wp = Some (input_parameter wp, True)"
| "run_handler Input_input wp = Some (input_input wp, True)"
| "run_handler Input_c0_dispatch wp = map_option (\<lambda>wp. (wp, True)) (input_c0_dispatch wp)"
| "run_handler Input_esc_dispatch wp = map_option (\<lambda>wp. (wp, True)) (input_esc_dispatch wp)"
| "run_handler Input_csi_dispatch wp = map_option (\<lambda>wp. (wp, True)) (input_csi_dispatch wp)"
| "run_handler Input_dcs_dispatch wp = map_option (\<lambda>wp. (wp, True)) (input_dcs_dispatch wp)"
| "run_handler Input_utf8_open wp = input_utf8_open wp"
| "run_handler Input_utf8_add wp = map_option (\<lambda>wp. (wp, True)) (input_utf8_add wp)"
| "run_handler Input_utf8_close wp = map_option (\<lambda>wp. (wp, True)) (input_utf8_close wp)"

fun run_hook :: "input_hook \<Rightarrow> window_pane \<Rightarrow> window_pane" where
  "run_hook Input_clear wp = input_clear wp"
| "run_hook Input_enter_osc wp = input_clear wp"
| "run_hook Input_exit_osc wp = input_exit_osc wp"
| "run_hook Input_enter_apc wp = input_clear wp"
| "run_hook Input_exit_apc wp = input_exit_apc wp"
| "run_hook Input_enter_rename wp = input_clear wp"
| "run_hook Input_exit_rename wp = input_exit_rename wp"

definition hook :: "input_hook option \<Rightarrow> window_pane \<Rightarrow> window_pane" where
  "hook h wp = (case h of None \<Rightarrow> wp | Some h \<Rightarrow> run_hook h wp)"

definition switch_state :: "input_state \<Rightarrow> window_pane \<Rightarrow> window_pane" where
  "switch_state st wp =
     (let wp = hook (state_exit (i_state (wp_ictx wp))) wp;
          wp = on_ictx (\<lambda>i. i\<lparr>i_state := st\<rparr>) wp
      in hook (state_enter st) wp)"

text \<open>The body of the loop of input_parse for one byte.\<close>

definition input_byte :: "byte \<Rightarrow> window_pane \<Rightarrow> window_pane option" where
  "input_byte ch wp = do {
     let wp = on_ictx (\<lambda>i. i\<lparr>i_ch := ch\<rparr>) wp;
     (handler, st) \<leftarrow> find_transition (i_state (wp_ictx wp)) ch;
     (wp, ok) \<leftarrow> (case handler of None \<Rightarrow> Some (wp, True) | Some h \<Rightarrow> run_handler h wp);
     Some (if \<not> ok then wp else case st of None \<Rightarrow> wp | Some st \<Rightarrow> switch_state st wp)
   }"

definition input_parse :: "byte list \<Rightarrow> window_pane \<Rightarrow> window_pane option" where
  "input_parse buf wp =
     (if buf = [] then Some wp
      else
        let wp = on_window (\<lambda>w. w\<lparr>w_flags := (w_flags w OR WINDOW_ACTIVITY) AND NOT WINDOW_SILENCE\<rparr>) wp;
            wp = wp\<lparr>wp_ctx := (wp_ctx wp)\<lparr>sw_wp := \<not> wp_mode wp\<rparr>\<rparr>
        in foldM input_byte buf wp)"

end
