(* ===== verification/Input_Facts.thy ===== *)
theory Input_Facts
  imports Input Print_Facts
begin

text \<open>
  The parser never faults: every handler keeps \<open>pane_good\<close>, that is \<open>sw_good\<close> for the screen
  that is written to and \<open>parser_ok\<close> for the state of the parser (buffers within their
  allocations, a cell that is neither padding nor UTF-8, a partial character that the state is
  waiting for). The option alternate-screen is off, so that the pane always shows its own
  screen.
\<close>

section \<open>Handlers on the screen\<close>

lemma backspace_good:
  assumes g: "sw_good F k c"
  shows "runs (screen_write_backspace c) (sw_good F k)"
proof (cases "s_cx (sw_s c) = 0")
  case False
  then have "usub (s_cx (sw_s c)) 1 = s_cx (sw_s c) - 1" using sw_goodD(10) [OF g] by (intro usub_one) auto
  then have "sw_good F k (on_screen (\<lambda>s. s\<lparr>s_cx := usub (s_cx s) 1\<rparr>) c)"
    using sw_goodD(6,10,11) [OF g] by (intro sw_good_set g) auto
  then show ?thesis using False by (simp add: screen_write_backspace_def Let_def)
next
  case True
  show ?thesis
  proof (cases "s_cy (sw_s c) = 0")
    case False
    let ?n = "usub (uadd (screen_hsize (sw_s c)) (s_cy (sw_s c))) 1"
    have "?n = screen_hsize (sw_s c) + s_cy (sw_s c) - 1"
      using False sw_goodD(9,11) [OF g] by (simp add: uadd_eq usub_eq)
    then have "?n < length (linedata (s_grid (sw_s c)))"
      using sw_goodD(11) [OF g] grid_okD(2) [OF sw_goodD(4) [OF g]] False by auto
    moreover have "sw_good F k (on_screen (\<lambda>s. s\<lparr>s_cy := usub (s_cy s) 1, s_cx := usub (screen_size_x s) 1\<rparr>) c)"
      using False sw_goodD(6,7,11,14,15) [OF g] by (intro sw_good_set g) (auto simp: usub_eq)
    ultimately show ?thesis using True False g by (simp add: screen_write_backspace_def Let_def)
  qed (use True g in \<open>simp add: screen_write_backspace_def Let_def\<close>)
qed

lemma rawstring_good: "sw_good F k c \<Longrightarrow> runs (screen_write_rawstring s c) (sw_good F k)"
  unfolding screen_write_rawstring_def runs_bind by (rule runs_mono [OF initctx_runs]) auto

lemma linefeed_good: "sw_good F (k + 1) c \<Longrightarrow> runs (screen_write_linefeed w c) (sw_good F k)"
  by (rule runs_mono, erule linefeed_step, erule conjunct1)

text \<open>Operations on the base screen that leave the grid alone.\<close>

lemma sw_good_screen:
  assumes g: "sw_good F k c" and s: "s_grid s = s_grid (sw_s c)" "length (s_tabs s) = length (s_tabs (sw_s c))"
    "s_cx s < UINT_MOD" "fst F \<longrightarrow> s_cx (sw_s c) \<le> screen_size_x (sw_s c) \<longrightarrow> s_cx s \<le> screen_size_x (sw_s c)"
    "s_cy s = s_cy (sw_s c)" "s_rupper s = s_rupper (sw_s c)" "s_rlower s = s_rlower (sw_s c)" "s_mode s = s_mode (sw_s c)"
  shows "sw_good F k (c\<lparr>sw_s := s\<rparr>)"
  using g s by (auto simp: sw_good_def screen_ok_def screen_wf_def frame_of_def Let_def)

lemma tabs_cover: "sw_good F k c \<Longrightarrow> x < screen_size_x (sw_s c) \<Longrightarrow> x < length (s_tabs (sw_s c))"
  using screen_wfD(7) [OF sw_goodD(2)] tabs_enough by metis

lemma tab_forward_runs:
  "edge < length tabs \<Longrightarrow> cx < edge \<Longrightarrow> runs (tab_forward tabs edge cx) (\<lambda>x. cx < x \<and> x \<le> edge)"
proof (induction tabs edge cx rule: tab_forward.induct)
  case (1 tabs edge cx)
  have "lget (Suc cx) tabs = Some (tabs ! Suc cx)" using "1.prems" by simp
  moreover have "runs (tab_forward tabs edge (Suc cx)) (\<lambda>x. cx < x \<and> x \<le> edge)"
    if "\<not> tabs ! Suc cx" "Suc cx < edge"
    using "1.IH" [OF _ that] "1.prems" that by (auto elim: runs_mono)
  ultimately show ?case using "1.prems" by (subst tab_forward.simps) auto
qed

lemma tab_back_runs: "cx \<le> length tabs \<Longrightarrow> runs (tab_back tabs cx) (\<lambda>x. x \<le> cx)"
  by (induction cx) (auto elim: runs_mono)

lemma tabs_back_runs: "cx \<le> length tabs \<Longrightarrow> runs (tabs_back tabs n cx) (\<lambda>x. x \<le> cx)"
proof (induction n arbitrary: cx)
  case (Suc n)
  have "runs (tabs_back tabs n x) (\<lambda>y. y \<le> cx)" if "x \<le> cx" for x
    using Suc.prems that by (auto intro: runs_mono [OF Suc.IH])
  then show ?case using Suc.prems by (auto intro!: runs_mono [OF tab_back_runs])
qed simp

section \<open>The state of the parser\<close>

definition cell_plain :: "grid_cell \<Rightarrow> bool" where
  "cell_plain gc \<longleftrightarrow> \<not> is_padding gc \<and> \<not> is_utf8 gc"

definition parser_ok :: "window_pane \<Rightarrow> bool" where
  "parser_ok wp \<longleftrightarrow> (let i = wp_ictx wp in cell_plain (i_cell i) \<and> cell_plain (i_old_cell i)
     \<and> length (i_interm i) \<le> 3 \<and> length (i_param i) \<le> 63 \<and> length (i_input i) \<le> 255
     \<and> length (i_plist i) \<le> PARAM_LIST \<and> \<not> w_alternate_screen (wp_window wp))"

fun utf8_ok :: "input_state \<Rightarrow> utf8_data \<Rightarrow> bool" where
  "utf8_ok Utf8_three u = utf8_pending 3 u"
| "utf8_ok Utf8_two u = utf8_pending 2 u"
| "utf8_ok Utf8_one u = utf8_pending 1 u"
| "utf8_ok st u = True"

definition handler_good :: "bool \<times> sw_frame \<Rightarrow> nat \<Rightarrow> window_pane \<Rightarrow> bool" where
  "handler_good F k wp \<longleftrightarrow> sw_good F k (wp_ctx wp) \<and> parser_ok wp"

definition pane_good :: "bool \<times> sw_frame \<Rightarrow> nat \<Rightarrow> window_pane \<Rightarrow> bool" where
  "pane_good F k wp \<longleftrightarrow> handler_good F k wp \<and> utf8_ok (i_state (wp_ictx wp)) (i_utf8data (wp_ictx wp))"

text \<open>
  What a handler other than the three for UTF-8 leaves alone: the state and the partial
  character.
\<close>

definition same_parse :: "window_pane \<Rightarrow> window_pane \<Rightarrow> bool" where
  "same_parse wp wp' \<longleftrightarrow> i_state (wp_ictx wp') = i_state (wp_ictx wp) \<and> i_utf8data (wp_ictx wp') = i_utf8data (wp_ictx wp)"

definition handles :: "bool \<times> sw_frame \<Rightarrow> nat \<Rightarrow> window_pane \<Rightarrow> window_pane \<Rightarrow> bool" where
  "handles F k wp wp' \<longleftrightarrow> handler_good F k wp' \<and> same_parse wp wp'"

lemma handler_goodD:
  "handler_good F k wp \<Longrightarrow> sw_good F k (wp_ctx wp)" "handler_good F k wp \<Longrightarrow> parser_ok wp"
  by (simp_all add: handler_good_def)

lemma handles_refl: "handler_good F j wp \<Longrightarrow> k \<le> j \<Longrightarrow> handles F k wp wp"
  by (auto simp: handles_def handler_good_def same_parse_def intro: sw_good_less)

lemma handler_good_less: "handler_good F j wp \<Longrightarrow> k \<le> j \<Longrightarrow> handler_good F k wp"
  unfolding handler_good_def using sw_good_less [of F j "wp_ctx wp" k] by blast

lemma on_ctx_handles:
  assumes "handler_good F j wp" "runs (f (wp_ctx wp)) (sw_good F k)"
  shows "runs (on_ctx f wp) (handles F k wp)"
  unfolding on_ctx_def runs_map_option
  by (rule runs_mono [OF assms(2)])
    (use assms(1) in \<open>auto simp: handles_def handler_good_def same_parse_def parser_ok_def Let_def\<close>)

lemma on_base_handles:
  assumes g: "handler_good F k wp" and f: "runs (f (wp_base wp)) (\<lambda>s. s_grid s = s_grid (wp_base wp) \<and>
    length (s_tabs s) = length (s_tabs (wp_base wp)) \<and> s_cx s < UINT_MOD \<and>
    (fst F \<longrightarrow> s_cx (wp_base wp) \<le> screen_size_x (wp_base wp) \<longrightarrow> s_cx s \<le> screen_size_x (wp_base wp)) \<and>
    s_cy s = s_cy (wp_base wp) \<and> s_rupper s = s_rupper (wp_base wp) \<and> s_rlower s = s_rlower (wp_base wp) \<and>
    s_mode s = s_mode (wp_base wp))"
  shows "runs (on_base f wp) (handles F k wp)"
  unfolding on_base_def runs_map_option
  by (rule runs_mono [OF f])
    (use handler_goodD [OF g] in \<open>auto simp: set_base_def handles_def handler_good_def same_parse_def parser_ok_def Let_def
      intro!: sw_good_screen\<close>)

lemma on_ictx_handles:
  assumes "handler_good F k wp" "parser_ok (on_ictx f wp)" "i_state (f (wp_ictx wp)) = i_state (wp_ictx wp)"
    "i_utf8data (f (wp_ictx wp)) = i_utf8data (wp_ictx wp)"
  shows "handles F k wp (on_ictx f wp)"
  using assms by (simp add: handles_def handler_good_def same_parse_def on_ictx_def)

lemma handles_trans: "handles F k wp wp' \<Longrightarrow> handles G j wp' wp'' \<Longrightarrow> handles G j wp wp''"
  by (auto simp: handles_def same_parse_def)

lemma on_window_handles:
  "handler_good F k wp \<Longrightarrow> \<not> w_alternate_screen (f (wp_window wp)) \<Longrightarrow> handles F k wp (on_window f wp)"
  by (simp add: handles_def handler_good_def same_parse_def on_window_def parser_ok_def Let_def)

lemma handles_good: "handles F k wp wp' \<Longrightarrow> handler_good F k wp'"
  by (simp add: handles_def)

section \<open>The cell of the parser\<close>

lemma plain_flags:
  "cell_plain (gc\<lparr>gc_attr := a\<rparr>) = cell_plain gc" "cell_plain (gc\<lparr>gc_fg := c\<rparr>) = cell_plain gc"
  "cell_plain (gc\<lparr>gc_bg := c\<rparr>) = cell_plain gc" "cell_plain (gc\<lparr>gc_data := d\<rparr>) = cell_plain gc"
  "cell_plain grid_default_cell"
  by (simp_all add: cell_plain_def)

lemma plain_flag_word:
  "cell_plain (gc\<lparr>gc_flags := w\<rparr>) \<longleftrightarrow> \<not> flag_set w GRID_FLAG_PADDING \<and> \<not> flag_set w GRID_FLAG_UTF8"
  by (simp add: cell_plain_def)

lemma plain_256:
  assumes "cell_plain gc"
  shows "cell_plain (gc\<lparr>gc_flags := gc_flags gc AND NOT GRID_FLAG_FG256\<rparr>)"
    "cell_plain (gc\<lparr>gc_flags := gc_flags gc AND NOT GRID_FLAG_BG256\<rparr>)"
    "cell_plain (gc\<lparr>gc_flags := gc_flags gc OR GRID_FLAG_FG256\<rparr>)"
    "cell_plain (gc\<lparr>gc_flags := gc_flags gc OR GRID_FLAG_BG256\<rparr>)"
proof -
  have a: "flag_set (w AND NOT GRID_FLAG_FG256) GRID_FLAG_PADDING = flag_set w GRID_FLAG_PADDING"
    "flag_set (w AND NOT GRID_FLAG_FG256) GRID_FLAG_UTF8 = flag_set w GRID_FLAG_UTF8"
    "flag_set (w AND NOT GRID_FLAG_BG256) GRID_FLAG_PADDING = flag_set w GRID_FLAG_PADDING"
    "flag_set (w AND NOT GRID_FLAG_BG256) GRID_FLAG_UTF8 = flag_set w GRID_FLAG_UTF8" for w :: byte
    by (rule flag_set_clear, simp)+
  have o: "\<not> flag_set GRID_FLAG_FG256 GRID_FLAG_PADDING" "\<not> flag_set GRID_FLAG_FG256 GRID_FLAG_UTF8"
    "\<not> flag_set GRID_FLAG_BG256 GRID_FLAG_PADDING" "\<not> flag_set GRID_FLAG_BG256 GRID_FLAG_UTF8"
    by (simp_all add: flag_set_def)
  note p = assms [unfolded cell_plain_def]
  show "cell_plain (gc\<lparr>gc_flags := gc_flags gc AND NOT GRID_FLAG_FG256\<rparr>)"
    "cell_plain (gc\<lparr>gc_flags := gc_flags gc AND NOT GRID_FLAG_BG256\<rparr>)"
    unfolding plain_flag_word a using p by simp_all
  show "cell_plain (gc\<lparr>gc_flags := gc_flags gc OR GRID_FLAG_FG256\<rparr>)"
    "cell_plain (gc\<lparr>gc_flags := gc_flags gc OR GRID_FLAG_BG256\<rparr>)"
    using p o by (simp_all add: cell_plain_def flag_set_or)
qed

lemma plain_sgr:
  assumes "cell_plain gc"
  shows "cell_plain (sgr_one n gc)" "cell_plain (sgr_256 n m gc)" "cell_plain (sgr_reset gc)"
  using assms plain_256 by (simp_all add: sgr_one_def sgr_256_def sgr_reset_def sgr_fg_def sgr_bg_def sgr_on_def sgr_off_def
      plain_flags Let_def)

lemma plain_sgr_loop: "cell_plain gc \<Longrightarrow> cell_plain (sgr_loop ictx i gc)"
proof (induction ictx i gc rule: sgr_loop.induct)
  case (1 ictx i gc)
  then show ?case by (subst sgr_loop.simps) (auto simp: Let_def plain_sgr)
qed

lemma parser_ok_cell: "parser_ok wp \<Longrightarrow> (\<And>gc. cell_plain gc \<Longrightarrow> cell_plain (f gc)) \<Longrightarrow> parser_ok (on_cell f wp)"
  by (simp add: parser_ok_def on_cell_def on_ictx_def Let_def)

lemma on_cell_handles:
  "handler_good F k wp \<Longrightarrow> (\<And>gc. cell_plain gc \<Longrightarrow> cell_plain (f gc)) \<Longrightarrow> handles F k wp (on_cell f wp)"
  unfolding on_cell_def
  by (rule on_ictx_handles) (auto simp: on_cell_def [symmetric] intro: parser_ok_cell handler_goodD)

section \<open>Parameters\<close>

lemma split_loop_length: "length ps < PARAM_LIST \<Longrightarrow> length (fst (split_loop ptr ps)) \<le> PARAM_LIST"
proof (induction ptr ps rule: split_loop.induct)
  case (2 s ps)
  then show ?case
    by (subst split_loop.simps) (auto simp: Let_def split: option.splits)
qed (simp add: split_loop.simps)

lemma input_split_parser_ok:
  assumes "parser_ok wp" "input_split (wp_ictx wp) = (i, ok)"
  shows "parser_ok (on_ictx (\<lambda>_. i) wp)" "i_state i = i_state (wp_ictx wp)" "i_utf8data i = i_utf8data (wp_ictx wp)"
    "i_ch i = i_ch (wp_ictx wp)"
  using assms split_loop_length [of "[]" "Some (i_param (wp_ictx wp))"]
  by (auto simp: input_split_def parser_ok_def on_ictx_def Let_def PARAM_LIST_def split: if_splits prod.splits)

section \<open>Handlers\<close>

lemma input_print_handles:
  assumes "handler_good F (k + 1) wp"
  shows "runs (input_print wp) (handles F k wp)"
proof -
  let ?wp = "on_ictx (\<lambda>i. i\<lparr>i_cell := (i_cell i)\<lparr>gc_data := i_ch i\<rparr>\<rparr>) wp"
  have a: "handles F (k + 1) wp ?wp"
    using assms by (intro on_ictx_handles) (auto simp: handler_good_def parser_ok_def on_ictx_def Let_def plain_flags)
  have "cell_plain (i_cell (wp_ictx ?wp))" using handler_goodD(2) [OF handles_good [OF a]] by (simp add: parser_ok_def Let_def)
  then have "runs (screen_write_cell (i_cell (wp_ictx ?wp)) None (wp_ctx ?wp)) (sw_good F k)"
    using handler_goodD(1) [OF handles_good [OF a]]
    by (intro screen_write_cell_good) (auto simp: cell_args_def cell_plain_def)
  then show ?thesis unfolding input_print_def Let_def
    by (rule runs_mono [OF on_ctx_handles [OF handles_good [OF a]]]) (rule handles_trans [OF a])
qed

lemma input_tab_handles:
  assumes g: "handler_good F k wp"
  shows "runs (on_base input_tab wp) (handles F k wp)"
proof (rule on_base_handles [OF g])
  let ?s = "wp_base wp"
  note sw = handler_goodD(1) [OF g]
  have l: "usub (screen_size_x ?s) 1 = screen_size_x ?s - 1" by (rule size_bounds(1) [OF sw])
  have t: "screen_size_x ?s - 1 < length (s_tabs ?s)" using sw_goodD(7) [OF sw] by (intro tabs_cover [OF sw]) simp
  show "runs (input_tab ?s) (\<lambda>s. s_grid s = s_grid ?s \<and>
    length (s_tabs s) = length (s_tabs ?s) \<and> s_cx s < UINT_MOD \<and>
    (fst F \<longrightarrow> s_cx ?s \<le> screen_size_x ?s \<longrightarrow> s_cx s \<le> screen_size_x ?s) \<and>
    s_cy s = s_cy ?s \<and> s_rupper s = s_rupper ?s \<and> s_rlower s = s_rlower ?s \<and> s_mode s = s_mode ?s)"
  proof (cases "screen_size_x ?s - 1 \<le> s_cx ?s")
    case True
    then show ?thesis unfolding input_tab_def Let_def l if_P [OF True] using sw_goodD(10) [OF sw] by simp
  next
    case False
    then have x: "s_cx ?s < screen_size_x ?s - 1" by simp
    show ?thesis unfolding input_tab_def Let_def l if_not_P [OF False] runs_map_option
      by (rule runs_mono [OF tab_forward_runs [OF t x]]) (use sw_goodD(14) [OF sw] in auto)
  qed
qed

lemma input_c0_handles:
  assumes g: "handler_good F (k + 1) wp"
  shows "runs (input_c0_dispatch wp) (handles F k wp)"
proof -
  have gk: "handler_good F k wp" by (rule handler_good_less [OF g]) simp
  note sw = handler_goodD(1) [OF g] and swk = handler_goodD(1) [OF gk]
  have "runs (on_ctx (\<lambda>c. Some (screen_write_carriagereturn c)) wp) (handles F k wp)"
    using sw_good_cursor_moves(5) [OF swk] by (intro on_ctx_handles [OF g]) simp
  moreover have "runs (on_ctx (screen_write_linefeed False) wp) (handles F k wp)"
    by (intro on_ctx_handles [OF g] runs_mono [OF linefeed_step [OF sw]]) simp
  moreover have "runs (on_ctx screen_write_backspace wp) (handles F k wp)"
    by (intro on_ctx_handles [OF g] backspace_good [OF swk])
  moreover have "\<not> w_alternate_screen (wp_window wp)" using handler_goodD(2) [OF g] by (simp add: parser_ok_def Let_def)
  ultimately show ?thesis
    using handles_refl [OF g, of k] input_tab_handles [OF gk]
    by (auto simp: input_c0_dispatch_def Let_def intro!: on_window_handles [OF gk] on_cell_handles [OF gk] simp: plain_flags)
qed

text \<open>The frame says how many rows a byte may add to the history.\<close>

definition frame_sy :: "bool \<times> sw_frame \<Rightarrow> nat" where
  "frame_sy F = fst (snd (snd (snd (snd F))))"

lemma frame_sy_eq: "sw_good F k c \<Longrightarrow> screen_size_y (sw_s c) = frame_sy F"
  using sw_goodD(5) [of F k c] by (cases F) (auto simp: frame_sy_def frame_of_def Let_def)

lemma frame_sy_pos: "sw_good F k c \<Longrightarrow> 1 \<le> frame_sy F"
  using frame_sy_eq [of F k c] sw_goodD(11) [of F k c] by simp

lemma reset_tabs_handles:
  assumes g: "handler_good F k wp"
  shows "runs (on_base screen_reset_tabs wp) (handles F k wp)"
proof (rule on_base_handles [OF g])
  note sw = handler_goodD(1) [OF g]
  have "screen_size_x (wp_base wp) + 7 < UINT_MOD" by (rule sw_goodD(14) [OF sw])
  then show "runs (screen_reset_tabs (wp_base wp)) (\<lambda>s. s_grid s = s_grid (wp_base wp) \<and>
    length (s_tabs s) = length (s_tabs (wp_base wp)) \<and> s_cx s < UINT_MOD \<and>
    (fst F \<longrightarrow> s_cx (wp_base wp) \<le> screen_size_x (wp_base wp) \<longrightarrow> s_cx s \<le> screen_size_x (wp_base wp)) \<and>
    s_cy s = s_cy (wp_base wp) \<and> s_rupper s = s_rupper (wp_base wp) \<and> s_rlower s = s_rlower (wp_base wp) \<and>
    s_mode s = s_mode (wp_base wp))"
    using screen_wfD(7) [OF sw_goodD(2) [OF sw]] sw_goodD(10) [OF sw]
    by (auto intro: runs_mono [OF screen_reset_tabs_runs])
qed

lemma clear_then_home:
  assumes "sw_good F (k + frame_sy F) c"
  shows "runs (screen_write_clearscreen c) (sw_good F k)"
  using assms frame_sy_eq [OF assms] by (intro clearscreen_good) simp

lemma esc_ris_handles:
  assumes g: "handler_good F (k + frame_sy F) wp"
  shows "runs (esc_ris wp) (handles F k wp)"
proof -
  let ?j = "k + frame_sy F"
  let ?wp = "on_ictx (\<lambda>i. i\<lparr>i_cell := grid_default_cell, i_old_cell := grid_default_cell, i_old_cx := 0, i_old_cy := 0\<rparr>) wp"
  have a: "handles F ?j wp ?wp"
    using g by (intro on_ictx_handles) (auto simp: handler_good_def parser_ok_def on_ictx_def Let_def plain_flags)
  have run: "runs (on_ctx (\<lambda>c. do {
       let c = screen_write_scrollregion 0 (usub (screen_size_y (sw_s c)) 1) c;
       let c = screen_write_insertmode False c;
       let c = screen_write_kcursormode False c;
       let c = screen_write_kkeypadmode False c;
       let c = screen_write_mousemode_off c;
       c \<leftarrow> screen_write_clearscreen c;
       Some (screen_write_cursormove 0 0 c)
     }) w) (handles F k w)" if w: "handler_good F ?j w" for w
  proof (rule on_ctx_handles [OF w], unfold Let_def runs_bind)
    have "sw_good F ?j (screen_write_mousemode_off (screen_write_kkeypadmode False (screen_write_kcursormode False
        (screen_write_insertmode False (screen_write_scrollregion 0 (usub (screen_size_y (sw_s (wp_ctx w))) 1) (wp_ctx w))))))"
      by (intro mode_operations_good scrollregion_good handler_goodD(1) [OF w])
    then show "runs (screen_write_clearscreen (screen_write_mousemode_off (screen_write_kkeypadmode False (screen_write_kcursormode False
        (screen_write_insertmode False (screen_write_scrollregion 0 (usub (screen_size_y (sw_s (wp_ctx w))) 1) (wp_ctx w)))))))
      (\<lambda>c. runs (Some (screen_write_cursormove 0 0 c)) (sw_good F k))"
      by (rule runs_mono [OF clear_then_home]) (simp add: sw_good_cursor_moves)
  qed
  show ?thesis
    unfolding esc_ris_def Let_def [of "on_ictx _ wp"] runs_bind
    by (rule runs_mono [OF reset_tabs_handles [OF handles_good [OF a]]])
      (use handles_trans [OF handles_trans [OF a]] handles_good in \<open>blast intro: runs_mono [OF run]\<close>)
qed

lemma bit_put_handles:
  assumes g: "handler_good F k wp"
  shows "runs (on_base (bit_put b) wp) (handles F k wp)"
  by (rule on_base_handles [OF g])
    (use handler_goodD(1) [OF g] sw_goodD(10) [OF handler_goodD(1) [OF g]] tabs_cover in \<open>auto simp: bit_put_def\<close>)

lemma esc_execute_handles:
  assumes g: "handler_good F (k + frame_sy F) wp"
  shows "runs (esc_execute t wp) (handles F k wp)"
proof -
  note sw = handler_goodD(1) [OF g]
  have gk: "handler_good F k wp" by (rule handler_good_less [OF g]) simp
  have g1: "handler_good F (k + 1) wp" by (rule handler_good_less [OF g]) (use frame_sy_pos [OF sw] in simp)
  note swk = handler_goodD(1) [OF gk] and sw1 = handler_goodD(1) [OF g1]
  note total = on_ctx_handles [OF gk]
  note p = handler_goodD(2) [OF g, unfolded parser_ok_def Let_def]
  show ?thesis
  proof (cases t)
    case INPUT_ESC_DECRC
    let ?wp = "on_ictx (\<lambda>i. i\<lparr>i_cell := i_old_cell i\<rparr>) wp"
    have a: "handles F k wp ?wp"
      using gk p by (intro on_ictx_handles) (auto simp: parser_ok_def on_ictx_def Let_def)
    have "runs (on_ctx (\<lambda>c. Some (screen_write_cursormove (i_old_cx (wp_ictx ?wp)) (i_old_cy (wp_ictx ?wp)) c)) ?wp) (handles F k ?wp)"
      using sw_good_cursor_moves(4) [OF handler_goodD(1) [OF handles_good [OF a]]]
      by (intro on_ctx_handles [OF handles_good [OF a]]) simp
    then have "runs (on_ctx (\<lambda>c. Some (screen_write_cursormove (i_old_cx (wp_ictx ?wp)) (i_old_cy (wp_ictx ?wp)) c)) ?wp) (handles F k wp)"
      by (rule runs_mono) (rule handles_trans [OF a])
    then show ?thesis using INPUT_ESC_DECRC by (simp only: esc_execute.simps Let_def)
  next
    case INPUT_ESC_DECSC
    have "handles F k wp (on_ictx (\<lambda>i. i\<lparr>i_old_cell := i_cell i, i_old_cx := s_cx (wp_base wp), i_old_cy := s_cy (wp_base wp)\<rparr>) wp)"
      by (rule on_ictx_handles [OF gk]) (use p in \<open>simp_all add: parser_ok_def on_ictx_def Let_def\<close>)
    then show ?thesis using INPUT_ESC_DECSC by simp
  next
    case INPUT_ESC_DECALN
    then show ?thesis by (auto intro!: total runs_mono [OF alignmenttest_step [OF swk]])
  next
    case INPUT_ESC_IND
    then show ?thesis by (auto intro!: total runs_mono [OF linefeed_step [OF sw1]])
  next
    case INPUT_ESC_NEL
    then show ?thesis
      using linefeed_good [OF sw_good_cursor_moves(5) [OF sw1]] by (auto intro!: total)
  next
    case INPUT_ESC_RI
    then show ?thesis by (auto intro!: total reverseindex_good swk)
  next
    case INPUT_ESC_RIS
    then show ?thesis using esc_ris_handles [OF g] by simp
  next
    case INPUT_ESC_HTS
    then show ?thesis using bit_put_handles [OF gk] by simp
  qed (auto intro!: total on_cell_handles [OF gk] mode_operations_good swk simp: plain_flags)
qed

lemma input_esc_handles:
  assumes g: "handler_good F (k + frame_sy F) wp"
  shows "runs (input_esc_dispatch wp) (handles F k wp)"
  using handles_refl [OF g, of k] esc_execute_handles [OF g]
  by (auto simp: input_esc_dispatch_def Let_def split: option.splits)

section \<open>Control sequences\<close>

lemma cbt_handles:
  assumes g: "handler_good F k wp" and cx: "s_cx (wp_base wp) \<le> screen_size_x (wp_base wp)"
  shows "runs (csi_cbt wp) (handles F k wp)"
  unfolding csi_cbt_def
proof (rule on_base_handles [OF g])
  note sw = handler_goodD(1) [OF g]
  have "screen_size_x (wp_base wp) \<le> length (s_tabs (wp_base wp))"
    using screen_wfD(7) [OF sw_goodD(2) [OF sw]] by linarith
  then have "s_cx (wp_base wp) \<le> length (s_tabs (wp_base wp))" using cx by simp
  then show "runs (map_option (\<lambda>x. wp_base wp\<lparr>s_cx := x\<rparr>) (tabs_back (s_tabs (wp_base wp)) (arg wp 0 1 1) (s_cx (wp_base wp))))
    (\<lambda>s. s_grid s = s_grid (wp_base wp) \<and> length (s_tabs s) = length (s_tabs (wp_base wp)) \<and> s_cx s < UINT_MOD \<and>
      (fst F \<longrightarrow> s_cx (wp_base wp) \<le> screen_size_x (wp_base wp) \<longrightarrow> s_cx s \<le> screen_size_x (wp_base wp)) \<and>
      s_cy s = s_cy (wp_base wp) \<and> s_rupper s = s_rupper (wp_base wp) \<and> s_rlower s = s_rlower (wp_base wp) \<and>
      s_mode s = s_mode (wp_base wp))"
    unfolding runs_map_option
    by (rule runs_mono [OF tabs_back_runs]) (use cx sw_goodD(10) [OF sw] in auto)
qed

lemma reply_handles: "handler_good F k wp \<Longrightarrow> handles F k wp (input_reply bytes wp)"
  by (simp add: input_reply_def handles_def handler_good_def same_parse_def parser_ok_def Let_def)

lemma deccolm_handles:
  assumes g: "handler_good F (k + frame_sy F) wp"
  shows "runs (deccolm wp) (handles F k wp)"
  unfolding deccolm_def
  by (rule on_ctx_handles [OF g], rule clear_then_home) (simp add: sw_good_cursor_moves(4) [OF handler_goodD(1) [OF g]])

lemma csi_ed_handles:
  assumes g: "handler_good F (k + frame_sy F) wp"
  shows "runs (csi_ed wp) (handles F k wp)"
proof -
  note sw = handler_goodD(1) [OF g]
  have gk: "handler_good F k wp" by (rule handler_good_less [OF g]) simp
  have sy: "sw_good F (k + screen_size_y (wp_base wp)) (wp_ctx wp)" using sw frame_sy_eq [OF sw] by simp
  show ?thesis
    using handles_refl [OF g, of k]
    by (auto simp: csi_ed_def Let_def intro!: on_ctx_handles [OF g] clearendofscreen_good [OF sy]
      clearscreen_good [OF sy] clearstartofscreen_good handler_goodD(1) [OF gk])
qed

lemma csi_el_handles: "handler_good F k wp \<Longrightarrow> runs (csi_el wp) (handles F k wp)"
  by (auto simp: csi_el_def Let_def intro: handles_refl on_ctx_handles clearline_good clearendofline_good
    clearstartofline_good handler_goodD)

lemma alternate_off_skip: "handler_good F k wp \<Longrightarrow> window_pane_alternate_off gc wp = Some (wp, gc)"
  by (simp add: handler_good_def parser_ok_def window_pane_alternate_off_def Let_def split: option.split)

lemma alternate_on_skip: "handler_good F k wp \<Longrightarrow> window_pane_alternate_on gc wp = Some wp"
  by (simp add: handler_good_def parser_ok_def window_pane_alternate_on_def Let_def)

lemma csi_rm_private_handles:
  assumes g: "handler_good F (k + frame_sy F) wp"
  shows "runs (csi_rm_private wp) (handles F k wp)"
proof -
  have gk: "handler_good F k wp" by (rule handler_good_less [OF g]) simp
  have c: "handles F k wp (on_cell (\<lambda>_. i_cell (wp_ictx wp)) wp)"
    by (rule on_cell_handles [OF gk]) (use handler_goodD(2) [OF gk] in \<open>simp add: parser_ok_def Let_def\<close>)
  show ?thesis
    using handles_refl [OF g, of k] deccolm_handles [OF g] alternate_off_skip [OF gk] c
    by (auto simp: csi_rm_private_def Let_def intro!: on_ctx_handles [OF gk] mode_operations_good handler_goodD(1) [OF gk])
qed

lemma csi_sm_private_handles:
  assumes g: "handler_good F (k + frame_sy F) wp"
  shows "runs (csi_sm_private wp) (handles F k wp)"
proof -
  have gk: "handler_good F k wp" by (rule handler_good_less [OF g]) simp
  show ?thesis
    using handles_refl [OF g, of k] deccolm_handles [OF g] alternate_on_skip [OF gk]
    by (auto simp: csi_sm_private_def Let_def intro!: on_ctx_handles [OF gk] mode_operations_good handler_goodD(1) [OF gk])
qed

lemma csi_insertmode_handles: "handler_good F k wp \<Longrightarrow> runs (csi_insertmode b wp) (handles F k wp)"
  by (auto simp: csi_insertmode_def intro!: on_ctx_handles mode_operations_good intro: handles_refl handler_goodD)

lemma clear_tabs_runs:
  "n \<le> length tabs \<Longrightarrow> runs (foldM (\<lambda>i. lput i False) [0..<n] tabs) (\<lambda>t. length t = length tabs)"
  by (rule runs_foldM_list) auto

lemma csi_tbc_handles:
  assumes g: "handler_good F k wp"
  shows "runs (csi_tbc wp) (handles F k wp)"
proof -
  let ?s = "wp_base wp"
  note sw = handler_goodD(1) [OF g]
  have n: "usub (screen_size_x ?s) 1 + 1 = screen_size_x ?s" using sw_goodD(7,14) [OF sw] by (simp add: usub_eq)
  have "screen_size_x ?s \<le> length (s_tabs ?s)"
    using screen_wfD(7) [OF sw_goodD(2) [OF sw]] by linarith
  then have "runs (on_base (\<lambda>s. map_option (\<lambda>tabs. s\<lparr>s_tabs := tabs\<rparr>)
      (foldM (\<lambda>i. lput i False) [0..<usub (screen_size_x s) 1 + 1] (s_tabs s))) wp) (handles F k wp)"
    using sw_goodD(10) [OF sw]
    by (intro on_base_handles [OF g]) (auto simp: runs_map_option n simp del: One_nat_def intro!: runs_mono [OF clear_tabs_runs])
  then show ?thesis using handles_refl [OF g] bit_put_handles [OF g] by (simp add: csi_tbc_def Let_def)
qed

lemma csi_execute_handles:
  assumes g: "handler_good F (k + frame_sy F) wp"
    and cbt: "t = INPUT_CSI_CBT \<Longrightarrow> s_cx (wp_base wp) \<le> screen_size_x (wp_base wp)"
    and cuf: "t = INPUT_CSI_CUF \<Longrightarrow> \<not> fst F"
  shows "runs (csi_execute t wp) (handles F k wp)"
proof -
  have gk: "handler_good F k wp" by (rule handler_good_less [OF g]) simp
  note sw = handler_goodD(1) [OF gk] and total = on_ctx_handles [OF gk] and p = handler_goodD(2) [OF gk, unfolded parser_ok_def Let_def]
  show ?thesis
  proof (cases t)
    case INPUT_CSI_CBT
    then show ?thesis using cbt_handles [OF gk cbt] by simp
  next
    case INPUT_CSI_CUF
    then show ?thesis using cuf by (auto intro!: total cursorright_good sw)
  next
    case INPUT_CSI_DA
    then show ?thesis using handles_refl [OF gk] reply_handles [OF gk] by (simp add: csi_da_def)
  next
    case INPUT_CSI_DSR
    then show ?thesis using handles_refl [OF gk] reply_handles [OF gk] by (simp add: csi_dsr_def Let_def)
  next
    case INPUT_CSI_SGR
    then show ?thesis using p plain_sgr_loop plain_sgr(3)
      by (auto simp: input_csi_dispatch_sgr_def parser_ok_def on_ictx_def [abs_def] Let_def
        intro!: on_ictx_handles [unfolded on_ictx_def, OF gk])
  next
    case INPUT_CSI_DECSCUSR
    then show ?thesis using sw_goodD(10) [OF sw] by (auto simp: screen_set_cursor_style_def intro!: on_base_handles [OF gk])
  next
    case INPUT_CSI_ED then show ?thesis using csi_ed_handles [OF g] by simp
  next
    case INPUT_CSI_EL then show ?thesis using csi_el_handles [OF gk] by simp
  next
    case INPUT_CSI_RM then show ?thesis using csi_insertmode_handles [OF gk] by simp
  next
    case INPUT_CSI_SM then show ?thesis using csi_insertmode_handles [OF gk] by simp
  next
    case INPUT_CSI_RM_PRIVATE then show ?thesis using csi_rm_private_handles [OF g] by simp
  next
    case INPUT_CSI_SM_PRIVATE then show ?thesis using csi_sm_private_handles [OF g] by simp
  next
    case INPUT_CSI_TBC then show ?thesis using csi_tbc_handles [OF gk] by simp
  qed (auto intro!: total sw_good_cursor_moves deletecharacter_good insertcharacter_good deleteline_good insertline_good
      scrollregion_good sw)
qed

lemma bsearch_csi: "bsearch (input_table_compare k) input_csi_table = Some e \<Longrightarrow> entry_key e = k \<and> e \<in> set input_csi_table"
  unfolding csi.bsearch_find by (auto simp: find_Some_iff)

lemma csi_type_byte:
  "e \<in> set input_csi_table \<Longrightarrow> it_type e = INPUT_CSI_CBT \<Longrightarrow> it_ch e = 0x5a"
  "e \<in> set input_csi_table \<Longrightarrow> it_type e = INPUT_CSI_CUF \<Longrightarrow> it_ch e = 0x43"
  by (auto simp: input_csi_table_def)

lemma input_csi_handles:
  assumes g: "handler_good F (k + frame_sy F) wp"
    and b: "if fst F then i_ch (wp_ictx wp) \<noteq> 0x43 else i_ch (wp_ictx wp) \<noteq> 0x5a"
  shows "runs (input_csi_dispatch wp) (handles F k wp)"
proof (cases "i_discard (wp_ictx wp)")
  case True
  then show ?thesis using handles_refl [OF g, of k] by (simp add: input_csi_dispatch_def)
next
  case False
  obtain i ok where i: "input_split (wp_ictx wp) = (i, ok)" by force
  let ?wp = "on_ictx (\<lambda>_. i) wp"
  have a: "handles F (k + frame_sy F) wp ?wp"
    using input_split_parser_ok [OF handler_goodD(2) [OF g] i] by (intro on_ictx_handles [OF g]) auto
  note ga = handles_good [OF a]
  have ex: "runs (csi_execute (it_type e) ?wp) (handles F k wp)"
    if "bsearch (input_table_compare (i_ch i, i_interm i)) input_csi_table = Some e" for e
  proof -
    have e: "it_ch e = i_ch (wp_ictx wp)" "e \<in> set input_csi_table"
      using bsearch_csi [OF that] input_split_parser_ok(4) [OF handler_goodD(2) [OF g] i] by auto
    have "runs (csi_execute (it_type e) ?wp) (handles F k ?wp)"
      by (rule csi_execute_handles [OF ga])
        (use csi_type_byte [OF e(2)] e(1) b sw_goodD(16) [OF handler_goodD(1) [OF ga]] in \<open>auto split: if_splits\<close>)
    then show ?thesis by (rule runs_mono) (rule handles_trans [OF a])
  qed
  have "handles F k wp ?wp" using handles_trans [OF a handles_refl [OF ga, of k]] by simp
  then show ?thesis using False ex by (simp add: input_csi_dispatch_def Let_def i split: option.split)
qed

section \<open>Strings and states\<close>

lemma input_dcs_handles: "handler_good F k wp \<Longrightarrow> runs (input_dcs_dispatch wp) (handles F k wp)"
  by (auto simp: input_dcs_dispatch_def Let_def intro: handles_refl on_ctx_handles rawstring_good handler_goodD)

lemma collect_handles:
  assumes g: "handler_good F k wp"
  shows "handles F k wp (input_intermediate wp)" "handles F k wp (input_parameter wp)" "handles F k wp (input_input wp)"
    "handles F k wp (input_clear wp)"
  unfolding input_intermediate_def input_parameter_def input_input_def input_clear_def
  by (rule on_ictx_handles [OF g]; use handler_goodD(2) [OF g] in \<open>simp add: parser_ok_def on_ictx_def Let_def\<close>)+

lemma base_strings_handles:
  assumes g: "handler_good F k wp"
  shows "handles F k wp (set_base (screen_set_title p (wp_base wp)) wp)"
    "handles F k wp (set_base (screen_set_cursor_colour p (wp_base wp)) wp)"
  using on_base_handles [OF g, of "\<lambda>s. Some (screen_set_title p s)"] on_base_handles [OF g, of "\<lambda>s. Some (screen_set_cursor_colour p s)"]
    sw_goodD(10) [OF handler_goodD(1) [OF g]]
  by (simp_all add: on_base_def screen_set_title_def screen_set_cursor_colour_def)

lemma status_handles: "handles F k wp wp' \<Longrightarrow> handles F k wp (server_status_window wp')"
  unfolding server_status_window_def
  by (rule handles_trans, assumption, rule on_window_handles [OF handles_good])
    (auto simp: handles_def handler_good_def parser_ok_def Let_def)

lemma run_hook_handles:
  assumes g: "handler_good F k wp"
  shows "handles F k wp (run_hook h wp)"
proof (cases h)
  case Input_exit_osc
  then show ?thesis
    using base_strings_handles [OF g] handles_refl [OF g order_refl]
    by (auto simp: input_exit_osc_def Let_def split: prod.split intro: status_handles)
next
  case Input_exit_apc
  then show ?thesis
    using base_strings_handles [OF g] handles_refl [OF g order_refl]
    by (auto simp: input_exit_apc_def Let_def intro: status_handles)
next
  case Input_exit_rename
  have "\<not> w_alternate_screen (wp_window wp)" using handler_goodD(2) [OF g] by (simp add: parser_ok_def Let_def)
  then show ?thesis
    using Input_exit_rename handles_refl [OF g order_refl]
    by (auto simp: input_exit_rename_def Let_def intro!: status_handles on_window_handles [OF g])
qed (use collect_handles(4) [OF g] in simp_all)

lemma hook_handles: "handler_good F k wp \<Longrightarrow> handles F k wp (hook h wp)"
  by (auto simp: hook_def intro: run_hook_handles handles_refl split: option.split)

lemma switch_state_good:
  assumes g: "handler_good F k wp"
  shows "handler_good F k (switch_state st wp)" "i_state (wp_ictx (switch_state st wp)) = st"
    "i_utf8data (wp_ictx (switch_state st wp)) = i_utf8data (wp_ictx wp)"
proof -
  let ?a = "hook (state_exit (i_state (wp_ictx wp))) wp"
  let ?b = "on_ictx (\<lambda>i. i\<lparr>i_state := st\<rparr>) ?a"
  have a: "handles F k wp ?a" by (rule hook_handles [OF g])
  have b: "handler_good F k ?b" "i_state (wp_ictx ?b) = st" "i_utf8data (wp_ictx ?b) = i_utf8data (wp_ictx wp)"
    using a by (auto simp: handles_def handler_good_def same_parse_def parser_ok_def on_ictx_def Let_def)
  have "handles F k ?b (switch_state st wp)" using hook_handles [OF b(1)] by (simp add: switch_state_def Let_def)
  then show "handler_good F k (switch_state st wp)" "i_state (wp_ictx (switch_state st wp)) = st"
    "i_utf8data (wp_ictx (switch_state st wp)) = i_utf8data (wp_ictx wp)"
    using b by (auto simp: handles_def same_parse_def)
qed

section \<open>UTF-8\<close>

definition utf8_states :: "input_state set" where
  "utf8_states = {Utf8_three, Utf8_two, Utf8_one}"

definition utf8_handlers :: "input_handler set" where
  "utf8_handlers = {Input_utf8_open, Input_utf8_add, Input_utf8_close}"

lemma transition_cases:
  assumes "find_transition st b = Some (h, st')"
  shows "(h = Some Input_utf8_open \<and> st = Ground \<and> 0xc2 \<le> b \<and> b \<le> 0xf4 \<and>
      st' = Some (if b \<le> 0xdf then Utf8_one else if b \<le> 0xef then Utf8_two else Utf8_three)) \<or>
    (h = Some Input_utf8_add \<and> (st = Utf8_three \<and> st' = Some Utf8_two \<or> st = Utf8_two \<and> st' = Some Utf8_one)) \<or>
    (h = Some Input_utf8_close \<and> st = Utf8_one \<and> st' = Some Ground) \<or>
    ((\<forall>x. h = Some x \<longrightarrow> x \<notin> utf8_handlers) \<and> (case st' of None \<Rightarrow> st \<notin> utf8_states | Some s \<Rightarrow> s \<notin> utf8_states))"
  using assms
  by (cases st) (auto simp: find_transition_def state_tables covers_def utf8_states_def utf8_handlers_def word_le_nat_alt split: if_splits)

lemma input_utf8_open_handles:
  assumes g: "handler_good F (k + 1) wp" and b: "0xc2 \<le> i_ch (wp_ictx wp)" "i_ch (wp_ictx wp) \<le> 0xf4"
  shows "runs (input_utf8_open wp) (\<lambda>(wp', ok). handler_good F k wp' \<and> i_state (wp_ictx wp') = i_state (wp_ictx wp) \<and>
    (ok \<longrightarrow> utf8_pending (if i_ch (wp_ictx wp) \<le> 0xdf then 1 else if i_ch (wp_ictx wp) \<le> 0xef then 2 else 3) (i_utf8data (wp_ictx wp'))))"
proof (cases "w_utf8 (wp_window wp)")
  case False
  then show ?thesis using input_print_handles [OF g]
    by (auto simp: input_utf8_open_def handles_def same_parse_def runs_map_option elim!: runs_mono)
next
  case True
  have "handler_good F k (on_ictx (\<lambda>i. i\<lparr>i_utf8data := u\<rparr>) wp)" for u
    using handler_good_less [OF g, of k] by (simp add: handler_good_def parser_ok_def on_ictx_def Let_def)
  then show ?thesis using True
    by (simp add: input_utf8_open_def utf8_open_start [OF b] utf8_pending_def on_ictx_def)
qed

lemma input_utf8_add_handles:
  assumes g: "handler_good F k wp" and u: "utf8_pending n (i_utf8data (wp_ictx wp))" "0 < n"
  shows "runs (input_utf8_add wp) (\<lambda>wp'. handler_good F k wp' \<and> i_state (wp_ictx wp') = i_state (wp_ictx wp) \<and>
    utf8_pending (n - 1) (i_utf8data (wp_ictx wp')))"
  unfolding input_utf8_add_def runs_map_option
  by (rule runs_mono [OF utf8_append_pending [OF u]])
    (use g in \<open>auto simp: handler_good_def parser_ok_def on_ictx_def Let_def\<close>)

lemma plain_not_padding: "cell_plain gc \<Longrightarrow> \<not> is_padding (gc\<lparr>gc_flags := gc_flags gc OR GRID_FLAG_UTF8\<rparr>)"
  by (simp add: cell_plain_def)

lemma plain_utf8_off:
  assumes "\<not> is_padding gc"
  shows "cell_plain (gc\<lparr>gc_flags := gc_flags gc AND NOT GRID_FLAG_UTF8\<rparr>)"
proof -
  have "\<not> flag_set (gc_flags gc AND NOT GRID_FLAG_UTF8) GRID_FLAG_UTF8" by (rule flag_set_clear_self)
  moreover have "\<not> flag_set (gc_flags gc AND NOT GRID_FLAG_UTF8) GRID_FLAG_PADDING"
    using assms is_padding_or_utf8(2) by blast
  ultimately show ?thesis unfolding plain_flag_word by blast
qed

lemma u8_good_pending: "utf8_pending 0 u \<Longrightarrow> u8_good u"
  by (auto simp: utf8_pending_def u8_good_def)

lemma input_utf8_close_handles:
  assumes g: "handler_good F (k + 1) wp" and u: "utf8_pending 1 (i_utf8data (wp_ictx wp))"
  shows "runs (input_utf8_close wp) (\<lambda>wp'. handler_good F k wp' \<and> i_state (wp_ictx wp') = i_state (wp_ictx wp))"
  unfolding input_utf8_close_def runs_bind
proof (rule runs_mono [OF input_utf8_add_handles [OF g u]], simp, unfold Let_def runs_bind, elim conjE)
  fix w assume w: "handler_good F (k + 1) w" and st: "i_state (wp_ictx w) = i_state (wp_ictx wp)"
    and p: "utf8_pending (1 - 1) (i_utf8data (wp_ictx w))"
  let ?w = "on_cell (\<lambda>gc. gc\<lparr>gc_flags := gc_flags gc OR GRID_FLAG_UTF8\<rparr>) w"
  have plain: "cell_plain (i_cell (wp_ictx w))" using handler_goodD(2) [OF w] by (simp add: parser_ok_def Let_def)
  have cell: "i_cell (wp_ictx ?w) = (i_cell (wp_ictx w))\<lparr>gc_flags := gc_flags (i_cell (wp_ictx w)) OR GRID_FLAG_UTF8\<rparr>"
    by (simp add: on_cell_def on_ictx_def)
  have "runs (screen_write_cell (i_cell (wp_ictx ?w)) (Some (i_utf8data (wp_ictx ?w))) (wp_ctx ?w)) (sw_good F k)"
    using handler_goodD(1) [OF w] p u8_good_pending
    by (intro screen_write_cell_good) (auto simp: cell_args_def on_cell_def on_ictx_def)
  then show "runs (on_ctx (screen_write_cell (i_cell (wp_ictx ?w)) (Some (i_utf8data (wp_ictx ?w)))) ?w)
    (\<lambda>x. runs (Some (on_cell (\<lambda>gc. gc\<lparr>gc_flags := gc_flags gc AND NOT GRID_FLAG_UTF8\<rparr>) x))
       (\<lambda>wp'. handler_good F k wp' \<and> i_state (wp_ictx wp') = i_state (wp_ictx wp)))"
    unfolding on_ctx_def runs_map_option
    by (rule runs_mono)
      (use handler_goodD(2) [OF w] st plain_utf8_off [OF plain_not_padding [OF plain]] in
        \<open>auto simp: handler_good_def parser_ok_def on_cell_def on_ictx_def Let_def\<close>)
qed

section \<open>One byte\<close>

lemma run_handler_handles:
  assumes g: "handler_good F (k + frame_sy F) wp" and h: "h \<notin> utf8_handlers"
    and b: "if fst F then i_ch (wp_ictx wp) \<noteq> 0x43 else i_ch (wp_ictx wp) \<noteq> 0x5a"
  shows "runs (run_handler h wp) (\<lambda>(wp', ok). ok \<and> handles F k wp wp')"
proof -
  have g1: "handler_good F (k + 1) wp" by (rule handler_good_less [OF g]) (use frame_sy_pos [OF handler_goodD(1) [OF g]] in simp)
  have gk: "handler_good F k wp" by (rule handler_good_less [OF g]) simp
  show ?thesis
    using h collect_handles [OF gk] input_print_handles [OF g1] input_c0_handles [OF g1] input_esc_handles [OF g]
      input_csi_handles [OF g b] input_dcs_handles [OF gk]
    by (cases h) (auto simp: utf8_handlers_def runs_map_option)
qed

lemma pane_switch:
  assumes g: "handler_good F k wp" and u: "utf8_ok st (i_utf8data (wp_ictx wp))"
  shows "pane_good F k (switch_state st wp)"
  using switch_state_good [OF g, of st] u by (simp add: pane_good_def)

lemma input_byte_good:
  assumes g: "pane_good F (k + frame_sy F) wp" and b: "if fst F then ch \<noteq> 0x43 else ch \<noteq> 0x5a"
  shows "runs (input_byte ch wp) (pane_good F k)"
proof -
  let ?wp = "on_ictx (\<lambda>i. i\<lparr>i_ch := ch\<rparr>) wp"
  let ?st = "i_state (wp_ictx wp)" and ?u = "i_utf8data (wp_ictx wp)"
  have h: "handler_good F (k + frame_sy F) ?wp"
    using g by (simp add: pane_good_def handler_good_def parser_ok_def on_ictx_def Let_def)
  have sel: "i_ch (wp_ictx ?wp) = ch" "i_state (wp_ictx ?wp) = ?st" "i_utf8data (wp_ictx ?wp) = ?u"
    by (simp_all add: on_ictx_def)
  have h1: "handler_good F (k + 1) ?wp" by (rule handler_good_less [OF h]) (use frame_sy_pos [OF handler_goodD(1) [OF h]] in simp)
  have hk: "handler_good F k ?wp" by (rule handler_good_less [OF h]) simp
  have u: "utf8_ok ?st ?u" using g by (simp add: pane_good_def)
  obtain hd st' where tr: "find_transition ?st ch = Some (hd, st')" using find_transition_Some by blast
  define fin where "fin r = (case r of (wp', ok) \<Rightarrow> if \<not> ok then wp' else case st' of None \<Rightarrow> wp' | Some s \<Rightarrow> switch_state s wp')"
    for r :: "window_pane \<times> bool"
  have byte: "input_byte ch wp = map_option fin (case hd of None \<Rightarrow> Some (?wp, True) | Some x \<Rightarrow> run_handler x ?wp)"
    by (simp add: input_byte_def Let_def sel tr fin_def [abs_def] map_conv_bind_option case_prod_unfold comp_def cong: if_cong)
  consider (Open) "hd = Some Input_utf8_open" "?st = Ground" "0xc2 \<le> ch" "ch \<le> 0xf4"
        "st' = Some (if ch \<le> 0xdf then Utf8_one else if ch \<le> 0xef then Utf8_two else Utf8_three)"
    | (Add3) "hd = Some Input_utf8_add" "?st = Utf8_three" "st' = Some Utf8_two"
    | (Add2) "hd = Some Input_utf8_add" "?st = Utf8_two" "st' = Some Utf8_one"
    | (Close) "hd = Some Input_utf8_close" "?st = Utf8_one" "st' = Some Ground"
    | (Other) "\<And>x. hd = Some x \<Longrightarrow> x \<notin> utf8_handlers" "case st' of None \<Rightarrow> ?st \<notin> utf8_states | Some s \<Rightarrow> s \<notin> utf8_states"
    using transition_cases [OF tr] by blast
  then show ?thesis
  proof cases
    case Open
    have "fin r = (if snd r then switch_state (if ch \<le> 0xdf then Utf8_one else if ch \<le> 0xef then Utf8_two else Utf8_three) (fst r) else fst r)" for r
      using Open(5) by (simp add: fin_def split: prod.split)
    then show ?thesis
      using Open input_utf8_open_handles [OF h1] sel
      by (auto simp: byte runs_map_option pane_good_def [of F k "fst _"] split: prod.splits elim!: runs_mono intro!: pane_switch)
  next
    case Add3
    then show ?thesis using input_utf8_add_handles [OF hk, of 3] u
      by (auto simp: byte runs_map_option fin_def sel elim!: runs_mono intro!: pane_switch)
  next
    case Add2
    then show ?thesis using input_utf8_add_handles [OF hk, of 2] u
      by (auto simp: byte runs_map_option fin_def sel elim!: runs_mono intro!: pane_switch)
  next
    case Close
    then show ?thesis using input_utf8_close_handles [OF h1] u
      by (auto simp: byte runs_map_option fin_def sel elim!: runs_mono intro!: pane_switch)
  next
    case Other
    have ok: "utf8_ok s v" if "s \<notin> utf8_states" for s v using that by (cases s) (auto simp: utf8_states_def)
    have f: "pane_good F k (fin (wp', True))" if "handles F k ?wp wp'" for wp'
      using that Other(2) ok sel
      by (auto simp: fin_def pane_good_def [of F k wp'] handles_def same_parse_def split: option.split intro!: pane_switch)
    show ?thesis
    proof (cases hd)
      case None
      then show ?thesis using f [OF handles_refl [OF hk order_refl]] by (simp add: byte)
    next
      case (Some x)
      have "runs (run_handler x ?wp) (\<lambda>(wp', ok). ok \<and> handles F k ?wp wp')"
        using run_handler_handles [OF h Other(1) [OF Some]] b sel by simp
      then show ?thesis unfolding byte Some option.case runs_map_option
        by (rule runs_mono) (use f in auto)
    qed
  qed
qed

end
