(* ===== verification/Input_Props.thy ===== *)
theory Input_Props
  imports Input_Facts
begin

text \<open>
  Properties of the input parser: its tables, its safety and where that ends, and what whole
  sequences of bytes do to the screen, from the bytes through the states of the parser to the
  operation of the screen.
\<close>

section \<open>A pane for the witnesses\<close>

definition sample_window :: input_window where
  "sample_window = \<lparr>w_name = [], w_flags = 0, w_utf8 = True, w_alternate_screen = False,
     w_automatic_rename = True, w_status = 0\<rparr>"

definition sample_ictx :: input_ctx where
  "sample_ictx = input_init \<lparr>i_cell = grid_default_cell, i_old_cell = grid_default_cell, i_old_cx = 0,
     i_old_cy = 0, i_interm = [], i_param = [], i_input = [], i_plist = [], i_utf8data = utf8_zero,
     i_ch = 0, i_discard = False, i_state = Ground\<rparr>"

definition pane_of :: "screen_write_ctx \<Rightarrow> window_pane" where
  "pane_of c = \<lparr>wp_window = sample_window, wp_ctx = c, wp_mode = False, wp_flags = 0, wp_saved_grid = None,
     wp_saved_cx = 0, wp_saved_cy = 0, wp_saved_cell = grid_default_cell, wp_reply = [], wp_ictx = sample_ictx\<rparr>"

text \<open>
  A pane whose screen is in order and whose parser is; \<open>inside\<close> asks that the cursor is at
  most one column beyond the last, k is how many rows the history may still grow by.
\<close>

definition pane_ready :: "bool \<Rightarrow> nat \<Rightarrow> window_pane \<Rightarrow> bool" where
  "pane_ready inside k wp \<longleftrightarrow> pane_good (inside, frame_of (wp_ctx wp)) k wp"

lemma pane_readyI: "pane_good F k wp \<Longrightarrow> pane_ready (fst F) k wp"
  using sw_goodD(5) [of F k "wp_ctx wp"] by (simp add: pane_ready_def pane_good_def handler_good_def)

lemma pane_of_ready:
  assumes "sw_good (True, frame_of sample_ctx) 100 c"
  shows "pane_ready True 100 (pane_of c)"
proof -
  have "frame_of c = frame_of sample_ctx" using sw_goodD(5) [OF assms] by simp
  then show ?thesis using assms
    by (simp add: pane_ready_def pane_good_def handler_good_def parser_ok_def pane_of_def sample_ictx_def
        input_init_def sample_window_def cell_plain_def Let_def)
qed

lemma pane_of_sel [simp]:
  "wp_ctx (pane_of c) = c" "wp_mode (pane_of c) = False" "i_state (wp_ictx (pane_of c)) = Ground"
  "wp_window (pane_of c) = sample_window" "i_cell (wp_ictx (pane_of c)) = grid_default_cell"
  by (simp_all add: pane_of_def sample_ictx_def input_init_def)

section \<open>Tables\<close>

text \<open>
  the state machine is complete and deterministic. In every state, every byte is in the
  range of exactly one transition, so that the search of input_parse always ends at a
  transition before the end of the table and never gets to fatalx.
\<close>

theorem input_tables_total:
  "length (filter (\<lambda>t. fst t \<le> unat b \<and> unat b \<le> fst (snd t)) (transitions st)) = 1 \<and> find_transition st b \<noteq> None"
proof -
  have "unat b < 256" using unsigned_less [of b] by simp
  then have "length (filter (covers (unat b)) (transitions st)) = 1" by (rule transitions_one)
  moreover have "filter (covers (unat b)) (transitions st) =
      filter (\<lambda>t. fst t \<le> unat b \<and> unat b \<le> fst (snd t)) (transitions st)"
    by (simp add: covers_def [abs_def])
  ultimately show ?thesis using find_transition_Some [of st b] by auto
qed

text \<open>
  the binary searches. bsearch with input_table_compare finds in the tables of escape and
  of control sequences exactly what a search through the whole table for the final byte and
  the intermediate bytes would find, and every entry of the tables is found.
\<close>

theorem input_lookups:
  "bsearch (input_table_compare (ch, interm)) input_esc_table = find (\<lambda>e. it_ch e = ch \<and> it_interm e = interm) input_esc_table \<and>
   bsearch (input_table_compare (ch, interm)) input_csi_table = find (\<lambda>e. it_ch e = ch \<and> it_interm e = interm) input_csi_table \<and>
   (\<forall>e \<in> set input_esc_table. bsearch (input_table_compare (it_ch e, it_interm e)) input_esc_table = Some e) \<and>
   (\<forall>e \<in> set input_csi_table. bsearch (input_table_compare (it_ch e, it_interm e)) input_csi_table = Some e)"
proof -
  have g: "(\<lambda>e. entry_key e = (ch, interm)) = (\<lambda>e :: input_esc_type input_table_entry. it_ch e = ch \<and> it_interm e = interm)"
    "(\<lambda>e. entry_key e = (ch, interm)) = (\<lambda>e :: input_csi_type input_table_entry. it_ch e = ch \<and> it_interm e = interm)" by auto
  have "\<forall>e \<in> set input_esc_table. bsearch (input_table_compare (it_ch e, it_interm e)) input_esc_table = Some e"
    using esc.bsearch_hit by auto
  moreover have "\<forall>e \<in> set input_csi_table. bsearch (input_table_compare (it_ch e, it_interm e)) input_csi_table = Some e"
    using csi.bsearch_hit by auto
  ultimately show ?thesis
    unfolding esc.bsearch_find csi.bsearch_find g by simp
qed

theorem input_lookups_witness:
  "bsearch (input_table_compare (0x68, [0x3f])) input_csi_table = Some \<lparr>it_ch = 0x68, it_interm = [0x3f], it_type = INPUT_CSI_SM_PRIVATE\<rparr>"
  using input_lookups [of "0x68" "[0x3f]"] by (simp add: input_csi_table_def)

section \<open>Safety\<close>

lemma input_bytes_good:
  "pane_good F (k + length buf * frame_sy F) wp \<Longrightarrow> (if fst F then 0x43 \<notin> set buf else 0x5a \<notin> set buf) \<Longrightarrow>
   runs (foldM input_byte buf wp) (pane_good F k)"
proof (induction buf arbitrary: wp)
  case (Cons b bs)
  have "pane_good F (k + length bs * frame_sy F + frame_sy F) wp" using Cons.prems(1) by (simp add: algebra_simps)
  then have "runs (input_byte b wp) (pane_good F (k + length bs * frame_sy F))"
    by (rule input_byte_good) (use Cons.prems(2) in \<open>auto split: if_splits\<close>)
  then show ?case unfolding foldM.simps runs_bind
    by (rule runs_mono, intro Cons.IH) (use Cons.prems(2) in \<open>auto split: if_splits\<close>)
qed simp

lemma pane_good_start:
  assumes "pane_ready inside k wp" "wp' = on_window f wp\<lparr>wp_ctx := (wp_ctx wp)\<lparr>sw_wp := b\<rparr>\<rparr>"
    "\<And>w. w_alternate_screen (f w) = w_alternate_screen w"
  shows "pane_good (inside, b, snd (frame_of (wp_ctx wp))) k wp'"
  using assms by (auto simp: pane_ready_def pane_good_def handler_good_def sw_good_def parser_ok_def on_window_def
      frame_of_def Let_def)



end
