(* ===== verification/Input_Seq.thy ===== *)
theory Input_Seq
  imports Input_Props
begin

text \<open>
  Whole sequences through the state machine: a control sequence, ESC [ parameters final byte,
  and a multibyte character, from the ground state back to it.
\<close>

section \<open>Control sequences\<close>

definition param_byte :: "byte \<Rightarrow> bool" where
  "param_byte b \<longleftrightarrow> 0x30 \<le> b \<and> b \<le> 0x39 \<or> b = 0x3b"

definition final_byte :: "byte \<Rightarrow> bool" where
  "final_byte b \<longleftrightarrow> 0x40 \<le> b \<and> b \<le> 0x7e"

text \<open>The pane while the parser collects a control sequence.\<close>

definition in_csi :: "input_state \<Rightarrow> byte list \<Rightarrow> byte \<Rightarrow> window_pane \<Rightarrow> window_pane" where
  "in_csi st ps b wp = on_ictx (\<lambda>i. i\<lparr>i_ch := b, i_interm := [], i_param := ps, i_input := [],
     i_discard := False, i_state := st\<rparr>) wp"

lemma in_csi_sel [simp]:
  "i_ch (wp_ictx (in_csi st ps b wp)) = b" "i_state (wp_ictx (in_csi st ps b wp)) = st"
  "i_interm (wp_ictx (in_csi st ps b wp)) = []" "i_param (wp_ictx (in_csi st ps b wp)) = ps"
  "i_discard (wp_ictx (in_csi st ps b wp)) = False" "wp_ctx (in_csi st ps b wp) = wp_ctx wp"
  "i_cell (wp_ictx (in_csi st ps b wp)) = i_cell (wp_ictx wp)"
  by (simp_all add: in_csi_def on_ictx_def)

lemma start_transitions:
  "find_transition Ground 0x1b = Some (None, Some Esc_enter)"
  "find_transition Esc_enter 0x5b = Some (None, Some Csi_enter)"
  by (simp_all add: find_transition_def state_tables covers_def)

lemma param_byte_nat: "param_byte b \<longleftrightarrow> 48 \<le> unat b \<and> unat b \<le> 57 \<or> unat b = 59"
  by (simp add: param_byte_def word_le_nat_alt word_unat_eq_iff)

lemma final_byte_nat: "final_byte b \<longleftrightarrow> 64 \<le> unat b \<and> unat b \<le> 126"
  by (simp add: final_byte_def word_le_nat_alt)

lemma csi_tables:
  "48 \<le> n \<Longrightarrow> n \<le> 57 \<Longrightarrow> find (covers n) input_state_csi_enter_table = Some (0x30, 0x39, Some Input_parameter, Some Csi_parameter)"
  "find (covers 59) input_state_csi_enter_table = Some (0x3b, 0x3b, Some Input_parameter, Some Csi_parameter)"
  "64 \<le> n \<Longrightarrow> n \<le> 126 \<Longrightarrow> find (covers n) input_state_csi_enter_table = Some (0x40, 0x7e, Some Input_csi_dispatch, Some Ground)"
  "48 \<le> n \<Longrightarrow> n \<le> 57 \<Longrightarrow> find (covers n) input_state_csi_parameter_table = Some (0x30, 0x39, Some Input_parameter, None)"
  "find (covers 59) input_state_csi_parameter_table = Some (0x3b, 0x3b, Some Input_parameter, None)"
  "64 \<le> n \<Longrightarrow> n \<le> 126 \<Longrightarrow> find (covers n) input_state_csi_parameter_table = Some (0x40, 0x7e, Some Input_csi_dispatch, Some Ground)"
  by (simp_all add: input_state_csi_enter_table_def input_state_csi_parameter_table_def INPUT_STATE_ANYWHERE_def covers_def)

lemma csi_transitions:
  "param_byte b \<Longrightarrow> find_transition Csi_enter b = Some (Some Input_parameter, Some Csi_parameter)"
  "param_byte b \<Longrightarrow> find_transition Csi_parameter b = Some (Some Input_parameter, None)"
  "final_byte b \<Longrightarrow> find_transition Csi_enter b = Some (Some Input_csi_dispatch, Some Ground)"
  "final_byte b \<Longrightarrow> find_transition Csi_parameter b = Some (Some Input_csi_dispatch, Some Ground)"
  unfolding param_byte_nat final_byte_nat find_transition_def by (auto simp: csi_tables)

lemma csi_start:
  "i_state (wp_ictx wp) = Ground \<Longrightarrow> foldM input_byte [0x1b, 0x5b] wp = Some (in_csi Csi_enter [] 0x5b wp)"
  by (simp add: input_byte_def start_transitions switch_state_def hook_def on_ictx_def input_clear_def in_csi_def)

lemma csi_param_byte:
  assumes "param_byte b" "length ps < 63" "st = Csi_enter \<or> st = Csi_parameter"
  shows "input_byte b (in_csi st ps a wp) = Some (in_csi Csi_parameter (ps @ [b]) b wp)"
  using assms csi_transitions(1,2) [OF assms(1)]
  by (auto simp: input_byte_def switch_state_def hook_def on_ictx_def input_parameter_def in_csi_def)

lemma csi_params:
  "list_all param_byte qs \<Longrightarrow> length ps + length qs \<le> 63 \<Longrightarrow> st = Csi_enter \<or> st = Csi_parameter \<Longrightarrow>
   foldM input_byte qs (in_csi st ps a wp) = Some (in_csi (if qs = [] then st else Csi_parameter) (ps @ qs) (last (a # qs)) wp)"
proof (induction qs arbitrary: ps st a)
  case (Cons b qs)
  then have "input_byte b (in_csi st ps a wp) = Some (in_csi Csi_parameter (ps @ [b]) b wp)"
    by (intro csi_param_byte) auto
  moreover have "foldM input_byte qs (in_csi Csi_parameter (ps @ [b]) b wp) =
      Some (in_csi Csi_parameter (ps @ b # qs) (last (b # qs)) wp)"
    using Cons by (auto simp: Cons.IH)
  ultimately show ?case by simp
qed simp

lemma csi_final:
  assumes "final_byte b" "st = Csi_enter \<or> st = Csi_parameter"
  shows "input_byte b (in_csi st ps a wp) =
    map_option (switch_state Ground) (input_csi_dispatch (in_csi st ps b wp))"
proof -
  have e: "on_ictx (\<lambda>i. i\<lparr>i_ch := b\<rparr>) (in_csi st ps a wp) = in_csi st ps b wp" by (simp add: in_csi_def on_ictx_def)
  have t: "find_transition st b = Some (Some Input_csi_dispatch, Some Ground)" using assms csi_transitions(3,4) by auto
  show ?thesis by (cases "input_csi_dispatch (in_csi st ps b wp)") (simp_all add: input_byte_def e t)
qed

lemma foldM_single: "foldM f [x] s = f x s"
  by (cases "f x s") simp_all

lemma csi_sequence:
  assumes "i_state (wp_ictx wp) = Ground" "list_all param_byte ps" "length ps \<le> 63" "final_byte b"
  shows "foldM input_byte (0x1b # 0x5b # ps @ [b]) wp =
    map_option (switch_state Ground) (input_csi_dispatch (in_csi (if ps = [] then Csi_enter else Csi_parameter) ps b wp))"
proof -
  have "foldM input_byte ([0x1b, 0x5b] @ ps @ [b]) wp = Option.bind (foldM input_byte [0x1b, 0x5b] wp) (foldM input_byte (ps @ [b]))"
    by (rule foldM_append)
  also have "\<dots> = foldM input_byte (ps @ [b]) (in_csi Csi_enter [] 0x5b wp)" by (simp only: csi_start [OF assms(1)] Option.bind.simps)
  also have "\<dots> = foldM input_byte [b] (in_csi (if ps = [] then Csi_enter else Csi_parameter) ps (last (0x5b # ps)) wp)"
    using csi_params [OF assms(2), of "[]" Csi_enter "0x5b" wp] assms(3) by (simp add: foldM_append)
  also have "\<dots> = map_option (switch_state Ground) (input_csi_dispatch (in_csi (if ps = [] then Csi_enter else Csi_parameter) ps b wp))"
    by (subst foldM_single, rule csi_final [OF assms(4)]) simp
  finally show ?thesis by simp
qed

section \<open>Parameters\<close>

text \<open>The fields of a string between semicolons.\<close>

fun param_fields :: "byte list \<Rightarrow> byte list list" where
  "param_fields [] = [[]]"
| "param_fields (b # bs) = (if b = 0x3b then [] # param_fields bs else (b # hd (param_fields bs)) # tl (param_fields bs))"

lemma fields_nonempty: "param_fields s \<noteq> []"
  by (cases s) auto

lemma fields_split:
  "param_fields s = takeWhile (\<lambda>b. b \<noteq> 0x3b) s # (let n = length (takeWhile (\<lambda>b. b \<noteq> 0x3b) s) in
     if n < length s then param_fields (drop (n + 1) s) else [])"
  by (induction s) (auto simp: Let_def)

definition field_value :: "byte list \<Rightarrow> int option" where
  "field_value f = (if f = [] then Some (-1) else strtonum (chars f) 0 INT_MAX)"

text \<open>Values up to the first field that is not a number, and whether there was none.\<close>

fun field_values :: "byte list list \<Rightarrow> int list \<times> bool" where
  "field_values [] = ([], True)"
| "field_values (f # fs) = (case field_value f of None \<Rightarrow> ([], False) | Some n \<Rightarrow> (n # fst (field_values fs), snd (field_values fs)))"

lemma split_loop_values:
  "length ps + length (param_fields s) < PARAM_LIST \<Longrightarrow> split_loop (Some s) ps = (ps @ fst (field_values (param_fields s)), snd (field_values (param_fields s)))"
proof (induction "length s" arbitrary: s ps rule: less_induct)
  case less
  let ?f = "takeWhile (\<lambda>b. b \<noteq> 0x3b) s"
  define more where "more = (length ?f < length s)"
  define rest where "rest = drop (length ?f + 1) s"
  have fs: "param_fields s = ?f # (if more then param_fields rest else [])"
    by (subst fields_split) (simp add: Let_def more_def rest_def)
  show ?case
  proof (cases "field_value ?f")
    case None
    then show ?thesis by (subst split_loop.simps) (auto simp: fs Let_def field_value_def split: if_splits)
  next
    case (Some n)
    have len: "length ps + 1 \<noteq> PARAM_LIST" using less.prems by (simp add: fs)
    have "split_loop (if more then Some rest else None) (ps @ [n]) =
        (ps @ fst (field_values (param_fields s)), snd (field_values (param_fields s)))"
    proof (cases more)
      case True
      then have "length rest < length s" by (simp add: rest_def more_def)
      then have "split_loop (Some rest) (ps @ [n]) = ((ps @ [n]) @ fst (field_values (param_fields rest)), snd (field_values (param_fields rest)))"
        using less.prems True by (intro less.hyps) (simp_all add: fs)
      then show ?thesis using True Some by (simp add: fs)
    next
      case False
      then show ?thesis using Some by (simp add: fs split_loop.simps)
    qed
    then show ?thesis using Some len
      by (subst split_loop.simps) (simp add: Let_def field_value_def [symmetric] more_def rest_def split: if_splits)
  qed
qed

lemma split_loop_full:
  "length ps < PARAM_LIST \<Longrightarrow> PARAM_LIST \<le> length ps + length (param_fields s) \<Longrightarrow> \<not> snd (split_loop (Some s) ps)"
proof (induction "length s" arbitrary: s ps rule: less_induct)
  case less
  let ?f = "takeWhile (\<lambda>b. b \<noteq> 0x3b) s"
  let ?rest = "drop (length ?f + 1) s"
  have fs: "param_fields s = ?f # (if length ?f < length s then param_fields ?rest else [])"
    by (subst fields_split) (simp add: Let_def)
  have rec: "\<not> snd (split_loop (if length ?f < length s then Some ?rest else None) (ps @ [n]))" if "length ps + 1 \<noteq> PARAM_LIST" for n
  proof (cases "length ?f < length s")
    case True
    then have "length ?rest < length s" by simp
    then have "\<not> snd (split_loop (Some ?rest) (ps @ [n]))"
      using less.prems that True fs by (intro less.hyps) simp_all
    then show ?thesis using True by simp
  next
    case False
    then show ?thesis using less.prems that fs by simp
  qed
  show ?case
    using rec by (subst split_loop.simps) (auto simp: Let_def split: option.split)
qed

section \<open>Decimal parameters\<close>

definition dec :: "nat \<Rightarrow> byte list" where
  "dec n = bytes_of (print_unsigned n)"

lemma digit_char_byte: "is_digit c \<Longrightarrow> param_byte (word_of_nat (char_code c)) \<and> (word_of_nat (char_code c) :: byte) \<noteq> 0x3b"
  by (auto simp: is_digit_def param_byte_nat unat_of_nat word_unat_eq_iff)

lemma dec_bytes: "list_all param_byte (dec n)" "0x3b \<notin> set (dec n)" "dec n \<noteq> []"
  using print_unsigned_digits [of n] digit_char_byte by (auto simp: dec_def bytes_of_def list_all_iff)

lemma chars_bytes_of: "list_all is_digit s \<Longrightarrow> chars (bytes_of s) = s"
  by (induction s) (auto simp: chars_def bytes_of_def is_digit_def char_code_def unat_of_nat)

lemma chars_dec: "chars (dec n) = print_unsigned n"
  using print_unsigned_digits [of n] by (simp add: dec_def chars_bytes_of)

lemma field_value_dec: "int n \<le> INT_MAX \<Longrightarrow> field_value (dec n) = Some (int n)"
  using strtonum_print_unsigned [of 0 n INT_MAX] by (simp add: field_value_def dec_bytes chars_dec)

lemma fields_plain: "0x3b \<notin> set a \<Longrightarrow> param_fields a = [a]"
  by (induction a) auto

lemma fields_cons: "0x3b \<notin> set a \<Longrightarrow> param_fields (a @ 0x3b # s) = a # param_fields s"
  by (induction a) auto

section \<open>Properties\<close>

text \<open>
  input_split. The parameters of a control sequence are the fields between semicolons: an
  empty field is -1, a field must be a decimal number that fits an int, and the sequence is
  rejected otherwise. A sequence with 24 or more fields is rejected too, and the list of 24
  entries is never overrun.
\<close>

theorem input_split_fields:
  "length (i_plist (fst (input_split i))) \<le> 24 \<and>
   (i_param i \<noteq> [] \<and> length (param_fields (i_param i)) < 24 \<longrightarrow>
     input_split i = (i\<lparr>i_plist := fst (field_values (param_fields (i_param i)))\<rparr>, snd (field_values (param_fields (i_param i))))) \<and>
   (24 \<le> length (param_fields (i_param i)) \<longrightarrow> \<not> snd (input_split i))"
proof (cases "i_param i = []")
  case True
  then show ?thesis by (simp add: input_split_def)
next
  case False
  have a: "length (fst (split_loop (Some (i_param i)) [])) \<le> 24"
    using split_loop_length [of "[]" "Some (i_param i)"] by (simp add: PARAM_LIST_def)
  have b: "split_loop (Some (i_param i)) [] = (fst (field_values (param_fields (i_param i))), snd (field_values (param_fields (i_param i))))"
    if "length (param_fields (i_param i)) < 24"
    using split_loop_values [of "[]" "i_param i"] that by (simp add: PARAM_LIST_def)
  have c: "\<not> snd (split_loop (Some (i_param i)) [])" if "24 \<le> length (param_fields (i_param i))"
    using split_loop_full [of "[]" "i_param i"] that by (simp add: PARAM_LIST_def)
  show ?thesis using False a b c by (auto simp: input_split_def Let_def case_prod_unfold)
qed

theorem input_split_fields_witness:
  "i_plist (fst (input_split (sample_ictx\<lparr>i_param := dec 10 @ 0x3b # 0x3b # dec 7\<rparr>))) = [10, -1, 7]"
proof -
  let ?p = "dec 10 @ 0x3b # 0x3b # dec 7"
  have f: "param_fields ?p = [dec 10, [], dec 7]" by (simp add: fields_cons fields_plain dec_bytes)
  have v: "field_values [dec 10, [], dec 7] = ([10, -1, 7], True)" using field_value_dec [of 10] field_value_dec [of 7]
    by (simp add: field_value_def [of "[]"])
  show ?thesis using input_split_fields [of "sample_ictx\<lparr>i_param := ?p\<rparr>"] by (simp add: f v del: field_values.simps)
qed

text \<open>A control sequence with one or two decimal parameters, up to its execution.\<close>

lemma csi_dispatch_entry:
  assumes "input_split (wp_ictx wp) = (i, True)" "\<not> i_discard (wp_ictx wp)" "e \<in> set input_csi_table"
    "i_ch (wp_ictx wp) = it_ch e" "i_interm (wp_ictx wp) = it_interm e"
  shows "input_csi_dispatch wp = csi_execute (it_type e) (on_ictx (\<lambda>_. i) wp)"
proof -
  have "i_ch i = i_ch (wp_ictx wp)" "i_interm i = i_interm (wp_ictx wp)"
    using assms(1) by (auto simp: input_split_def Let_def split: if_splits prod.splits)
  then show ?thesis
    using csi.bsearch_hit [OF assms(3)] assms by (simp add: input_csi_dispatch_def Let_def)
qed

definition csi_args :: "int list \<Rightarrow> byte list \<Rightarrow> byte \<Rightarrow> window_pane \<Rightarrow> window_pane" where
  "csi_args vs ps b wp = on_ictx (\<lambda>i. i\<lparr>i_plist := vs\<rparr>) (in_csi (if ps = [] then Csi_enter else Csi_parameter) ps b wp)"

lemma csi_run:
  assumes "i_state (wp_ictx wp) = Ground" "list_all param_byte ps" "length ps \<le> 63" "ps \<noteq> []"
    and e: "e \<in> set input_csi_table" "it_interm e = []" "final_byte (it_ch e)"
    and v: "length (param_fields ps) < 24" "field_values (param_fields ps) = (vs, True)"
  shows "foldM input_byte (0x1b # 0x5b # ps @ [it_ch e]) wp =
    map_option (switch_state Ground) (csi_execute (it_type e) (csi_args vs ps (it_ch e) wp))"
proof -
  let ?wp = "in_csi (if ps = [] then Csi_enter else Csi_parameter) ps (it_ch e) wp"
  have "split_loop (Some ps) [] = (vs, True)"
    using split_loop_values [of "[]" ps] v by (simp add: PARAM_LIST_def)
  then have "input_split (wp_ictx ?wp) = ((wp_ictx ?wp)\<lparr>i_plist := vs\<rparr>, True)"
    using assms(4) by (simp add: input_split_def)
  then have "input_csi_dispatch ?wp = csi_execute (it_type e) (on_ictx (\<lambda>_. (wp_ictx ?wp)\<lparr>i_plist := vs\<rparr>) ?wp)"
    by (rule csi_dispatch_entry) (simp_all add: e)
  moreover have "on_ictx (\<lambda>_. (wp_ictx ?wp)\<lparr>i_plist := vs\<rparr>) ?wp = csi_args vs ps (it_ch e) wp"
    by (simp add: csi_args_def on_ictx_def)
  ultimately show ?thesis using csi_sequence [OF assms(1-3) e(3)] by simp
qed

lemma csi_args_sel [simp]:
  "wp_ctx (csi_args vs ps b wp) = wp_ctx wp" "i_plist (wp_ictx (csi_args vs ps b wp)) = vs"
  "i_cell (wp_ictx (csi_args vs ps b wp)) = i_cell (wp_ictx wp)" "i_state (wp_ictx (csi_args vs ps b wp)) = (if ps = [] then Csi_enter else Csi_parameter)"
  by (simp_all add: csi_args_def on_ictx_def)

lemma length_dec: "n < 10 ^ k \<Longrightarrow> 0 < k \<Longrightarrow> length (dec n) \<le> k"
proof (induction k arbitrary: n)
  case (Suc k)
  show ?case
  proof (cases "n < 10")
    case True
    then show ?thesis by (subst print_unsigned.simps [THEN arg_cong, of "\<lambda>s. length (bytes_of s)", folded dec_def]) (simp add: bytes_of_def)
  next
    case False
    then have "0 < k" using Suc.prems by (cases k) auto
    moreover have "n div 10 < 10 ^ k" using Suc.prems by (simp add: less_mult_imp_div_less mult.commute)
    ultimately have "length (dec (n div 10)) \<le> k" using Suc.IH by blast
    then show ?thesis using False by (simp add: dec_def bytes_of_def print_unsigned.simps [of n])
  qed
qed simp

lemma dec_short: "int n \<le> INT_MAX \<Longrightarrow> length (dec n) \<le> 10"
  by (rule length_dec) simp_all

lemma pane_readyD:
  assumes "pane_ready b k wp"
  shows "sw_good (b, frame_of (wp_ctx wp)) k (wp_ctx wp)" "parser_ok wp"
  using assms by (simp_all add: pane_ready_def pane_good_def handler_good_def)

lemma switch_ground [simp]:
  "i_state (wp_ictx wp) \<in> {Csi_enter, Csi_parameter, Esc_enter, Utf8_one} \<Longrightarrow>
     switch_state Ground wp = on_ictx (\<lambda>i. i\<lparr>i_state := Ground\<rparr>) wp"
  by (auto simp: switch_state_def hook_def)

text \<open>The pane with its flags set and its context opened, as input_parse does.\<close>

definition parse_start :: "window_pane \<Rightarrow> window_pane" where
  "parse_start wp = (on_window (\<lambda>w. w\<lparr>w_flags := (w_flags w OR WINDOW_ACTIVITY) AND NOT WINDOW_SILENCE\<rparr>) wp)
     \<lparr>wp_ctx := (wp_ctx wp)\<lparr>sw_wp := \<not> wp_mode wp\<rparr>\<rparr>"

lemma input_parse_start: "buf \<noteq> [] \<Longrightarrow> input_parse buf wp = foldM input_byte buf (parse_start wp)"
  by (simp add: input_parse_def parse_start_def on_window_def Let_def)

lemma parse_start_sel [simp]:
  "sw_s (wp_ctx (parse_start wp)) = sw_s (wp_ctx wp)" "wp_ictx (parse_start wp) = wp_ictx wp"
  "w_utf8 (wp_window (parse_start wp)) = w_utf8 (wp_window wp)"
  by (simp_all add: parse_start_def on_window_def)

lemma parse_start_good: "pane_ready b k wp \<Longrightarrow> sw_good (b, \<not> wp_mode wp, snd (frame_of (wp_ctx wp))) k (wp_ctx (parse_start wp))"
  using pane_good_start [of b k wp "parse_start wp"]
  by (simp add: parse_start_def pane_good_def handler_good_def)

text \<open>
  C10: cursor addressing, from the bytes to the screen. ESC [ r ; c H, with r and c in decimal,
  moves the cursor to row r and column c counted from one, or to the last row and column where
  they are beyond the screen, and changes nothing that is shown.
\<close>

theorem input_cup_moves_cursor:
  assumes "pane_ready b k wp" "i_state (wp_ictx wp) = Ground" "1 \<le> r" "int r \<le> INT_MAX" "1 \<le> c" "int c \<le> INT_MAX"
  shows "\<exists>wp'. input_parse (0x1b # 0x5b # dec r @ 0x3b # dec c @ [0x48]) wp = Some wp' \<and>
    i_state (wp_ictx wp') = Ground \<and> s_grid (wp_base wp') = s_grid (wp_base wp) \<and>
    s_cx (wp_base wp') = min (c - 1) (screen_size_x (wp_base wp) - 1) \<and>
    s_cy (wp_base wp') = min (r - 1) (screen_size_y (wp_base wp) - 1)"
proof -
  let ?ps = "dec r @ 0x3b # dec c" and ?vs = "[int r, int c]"
  let ?e = "\<lparr>it_ch = 0x48, it_interm = [], it_type = INPUT_CSI_CUP\<rparr>"
  have ps: "list_all param_byte ?ps" "length ?ps \<le> 63" "?ps \<noteq> []"
    using dec_bytes(1) dec_short [OF assms(4)] dec_short [OF assms(6)] by (auto simp: param_byte_def)
  have e: "?e \<in> set input_csi_table" "it_interm ?e = []" "final_byte (it_ch ?e)"
    by (simp_all add: input_csi_table_def final_byte_def)
  have f: "param_fields ?ps = [dec r, dec c]" by (simp add: fields_cons fields_plain dec_bytes)
  have v: "length (param_fields ?ps) < 24" "field_values (param_fields ?ps) = (?vs, True)"
    using field_value_dec assms(4,6) by (simp_all add: f)
  have g: "i_state (wp_ictx (parse_start wp)) = Ground" using assms(2) by simp
  let ?a = "csi_args ?vs ?ps 0x48 (parse_start wp)"
  have "input_parse (0x1b # 0x5b # ?ps @ [0x48]) wp = foldM input_byte (0x1b # 0x5b # ?ps @ [0x48]) (parse_start wp)"
    by (rule input_parse_start) simp
  also have "\<dots> = map_option (switch_state Ground) (csi_execute INPUT_CSI_CUP ?a)"
    using csi_run [OF g ps e v] by simp
  also have "arg ?a 0 1 1 = r" "arg ?a 1 1 1 = c" using assms(3,5) by (simp_all add: arg_def input_get_def)
  then have "csi_execute INPUT_CSI_CUP ?a = Some (?a\<lparr>wp_ctx := screen_write_cursormove (c - 1) (r - 1) (wp_ctx ?a)\<rparr>)"
    by (simp add: on_ctx_def)
  finally have "input_parse (0x1b # 0x5b # ?ps @ [0x48]) wp =
      Some (switch_state Ground (?a\<lparr>wp_ctx := screen_write_cursormove (c - 1) (r - 1) (wp_ctx ?a)\<rparr>))"
    by simp
  then show ?thesis
    using cursormove_at [OF parse_start_good [OF assms(1)], of "c - 1" "r - 1"]
    by (simp add: on_ictx_def cursor_at_def)
qed

theorem input_cup_moves_cursor_witness:
  "\<exists>wp'. input_parse (0x1b # 0x5b # dec 2 @ 0x3b # dec 3 @ [0x48]) (pane_of sample_ctx) = Some wp' \<and>
    s_cx (wp_base wp') = 2 \<and> s_cy (wp_base wp') = 1"
  using input_cup_moves_cursor [OF pane_of_ready [OF sw_good_sample], of 2 3] by (auto simp: sample_ctx_def)

lemma tabs_back_fault: "0 < n \<Longrightarrow> length tabs < cx \<Longrightarrow> 1 < cx \<Longrightarrow> tabs_back tabs n cx = None"
  by (cases n; cases cx) (auto simp: lget_def)

lemma cuf_cbt_faults:
  assumes g: "sw_good F k (wp_ctx wp)" and cx: "s_cx (wp_base wp) = screen_size_x (wp_base wp)"
    and n: "9 \<le> n" "screen_size_x (wp_base wp) + n < UINT_MOD"
  shows "csi_cbt (wp\<lparr>wp_ctx := screen_write_cursorright n (wp_ctx wp), wp_ictx := i\<rparr>) = None"
proof -
  let ?c = "screen_write_cursorright n (wp_ctx wp)"
  have c: "?c = cursor_at (screen_size_x (wp_base wp) + n) (s_cy (wp_base wp)) (wp_ctx wp)"
    using cursorright_beyond [OF g cx, of n] n cx by (simp add: max_def)
  have "length (s_tabs (wp_base wp)) < screen_size_x (wp_base wp) + n"
    using screen_wfD(7) [OF sw_goodD(2) [OF g]] n by linarith
  moreover have "1 < screen_size_x (wp_base wp) + n" using n by simp
  moreover have "0 < arg wp' 0 1 1" for wp'
    by (auto simp: arg_def input_get_def Let_def)
  ultimately show ?thesis by (simp add: csi_cbt_def on_base_def c cursor_at_def tabs_back_fault)
qed

text \<open>
  C29: where the parser is not safe. When the cursor is beyond the last column, as after
  writing in that column, CUF by nine or more and then CBT read a tab stop outside the bit
  string of the tab stops: out of bounds in the heap, driven by what a program prints.
\<close>

theorem input_cbt_reads_out_of_bounds:
  assumes "pane_ready b k wp" "i_state (wp_ictx wp) = Ground" "s_cx (wp_base wp) = screen_size_x (wp_base wp)"
    and "9 \<le> n" "int n \<le> INT_MAX" "screen_size_x (wp_base wp) + n < UINT_MOD"
  shows "input_parse ((0x1b # 0x5b # dec n @ [0x43]) @ [0x1b, 0x5b, 0x5a]) wp = None"
proof -
  let ?e = "\<lparr>it_ch = 0x43, it_interm = [], it_type = INPUT_CSI_CUF\<rparr>" and ?vs = "[int n]"
  let ?z = "\<lparr>it_ch = 0x5a, it_interm = [], it_type = INPUT_CSI_CBT\<rparr>"
  let ?w = "parse_start wp"
  have ps: "list_all param_byte (dec n)" "length (dec n) \<le> 63" "dec n \<noteq> []"
    using dec_bytes dec_short [OF assms(5)] by auto
  have e: "?e \<in> set input_csi_table" "it_interm ?e = []" "final_byte (it_ch ?e)"
    by (simp_all add: input_csi_table_def final_byte_def)
  have v: "length (param_fields (dec n)) < 24" "field_values (param_fields (dec n)) = (?vs, True)"
    using field_value_dec [OF assms(5)] by (simp_all add: fields_plain dec_bytes)
  have g: "i_state (wp_ictx ?w) = Ground" using assms(2) by simp
  let ?a = "csi_args ?vs (dec n) 0x43 ?w"
  let ?b = "switch_state Ground (?a\<lparr>wp_ctx := screen_write_cursorright n (wp_ctx ?w)\<rparr>)"
  have "arg ?a 0 1 1 = n" using assms(4) by (simp add: arg_def input_get_def)
  then have one: "foldM input_byte (0x1b # 0x5b # dec n @ [0x43]) ?w = Some ?b"
    using csi_run [OF g ps e v] by (simp add: on_ctx_def)
  let ?d = "in_csi Csi_enter [] 0x5a ?b"
  have "i_state (wp_ictx ?b) = Ground" using ps(3) by (simp add: on_ictx_def)
  then have two: "foldM input_byte (0x1b # 0x5b # [] @ [0x5a]) ?b = map_option (switch_state Ground) (input_csi_dispatch ?d)"
    using csi_sequence [of ?b "[]" "0x5a"] by (simp add: final_byte_def)
  have "input_split (wp_ictx ?d) = ((wp_ictx ?d)\<lparr>i_plist := []\<rparr>, True)" by (simp add: input_split_def)
  then have "input_csi_dispatch ?d = csi_execute INPUT_CSI_CBT (on_ictx (\<lambda>_. (wp_ictx ?d)\<lparr>i_plist := []\<rparr>) ?d)"
    using csi_dispatch_entry [of ?d _ ?z] by (simp add: input_csi_table_def)
  moreover have "on_ictx (\<lambda>_. (wp_ictx ?d)\<lparr>i_plist := []\<rparr>) ?d =
      ?w\<lparr>wp_ctx := screen_write_cursorright n (wp_ctx ?w), wp_ictx := (wp_ictx ?d)\<lparr>i_plist := []\<rparr>\<rparr>"
    using ps(3) by (simp add: csi_args_def in_csi_def on_ictx_def)
  moreover have "csi_cbt (?w\<lparr>wp_ctx := screen_write_cursorright n (wp_ctx ?w), wp_ictx := (wp_ictx ?d)\<lparr>i_plist := []\<rparr>\<rparr>) = None"
    by (rule cuf_cbt_faults [OF parse_start_good [OF assms(1)]]) (use assms(3,4,6) in simp_all)
  ultimately have "foldM input_byte [0x1b, 0x5b, 0x5a] ?b = None" using two by simp
  then have "foldM input_byte ((0x1b # 0x5b # dec n @ [0x43]) @ [0x1b, 0x5b, 0x5a]) ?w = None"
    by (simp only: foldM_append one Option.bind.simps)
  then show ?thesis by (subst input_parse_start) simp_all
qed

theorem input_cbt_reads_out_of_bounds_witness:
  "input_parse ((0x1b # 0x5b # dec 1000 @ [0x43]) @ [0x1b, 0x5b, 0x5a]) (pane_of sample_end) = None"
  using input_cbt_reads_out_of_bounds [OF pane_of_ready [OF sw_good_sample_end], of 1000] by simp

end
