(* ===== verification/Layout.thy ===== *)
theory Layout
  imports Screen C_Library
begin

text \<open>
  layout.c: the tree of cells that divides a window between its panes. A cell is a container
  that runs left to right or top to bottom, or it holds one pane. The parent of a cell is its
  place in the tree: a cell is named by its path from the root, the list of the indices of the
  children, and lc->parent is the path without its last index. A pane is named by a number;
  wp->layout_cell is the cell of the tree that holds the number, if there is one. The sizes
  are u_int, and the changes of sizes are int.
\<close>

section \<open>Cells\<close>

datatype layout_type = LAYOUT_LEFTRIGHT | LAYOUT_TOPBOTTOM | LAYOUT_WINDOWPANE

datatype layout_cell = Cell (lc_type: layout_type) (lc_sx: nat) (lc_sy: nat) (lc_xoff: nat) (lc_yoff: nat)
  (lc_wp: "nat option") (lc_cells: "layout_cell list")

abbreviation UINT_MAX :: nat where "UINT_MAX \<equiv> 4294967295"

definition PANE_MINIMUM :: nat where "PANE_MINIMUM = 2"

text \<open>A u_int as an int, and the addition of an int to a u_int.\<close>

definition int_of_u :: "nat \<Rightarrow> int" where
  "int_of_u n = (if n < 2147483648 then int n else int n - 4294967296)"

definition uadd_int :: "nat \<Rightarrow> int \<Rightarrow> nat" where
  "uadd_int n c = nat ((int n + c) mod 4294967296)"

definition layout_create_cell :: layout_cell where
  "layout_create_cell = Cell LAYOUT_WINDOWPANE UINT_MAX UINT_MAX UINT_MAX UINT_MAX None []"

fun layout_set_size :: "nat \<Rightarrow> nat \<Rightarrow> nat \<Rightarrow> nat \<Rightarrow> layout_cell \<Rightarrow> layout_cell" where
  "layout_set_size sx sy xoff yoff (Cell t _ _ _ _ wp cs) = Cell t sx sy xoff yoff wp cs"

fun layout_make_leaf :: "nat \<Rightarrow> layout_cell \<Rightarrow> layout_cell" where
  "layout_make_leaf wp (Cell t sx sy xoff yoff _ cs) = Cell LAYOUT_WINDOWPANE sx sy xoff yoff (Some wp) []"

fun layout_make_node :: "layout_type \<Rightarrow> layout_cell \<Rightarrow> layout_cell option" where
  "layout_make_node type (Cell t sx sy xoff yoff wp cs) =
     (if type = LAYOUT_WINDOWPANE then None else Some (Cell type sx sy xoff yoff None []))"

fun set_cells :: "layout_cell list \<Rightarrow> layout_cell \<Rightarrow> layout_cell" where
  "set_cells cs (Cell t sx sy xoff yoff wp _) = Cell t sx sy xoff yoff wp cs"

fun set_offsets :: "nat \<Rightarrow> nat \<Rightarrow> layout_cell \<Rightarrow> layout_cell" where
  "set_offsets xoff yoff (Cell t sx sy _ _ wp cs) = Cell t sx sy xoff yoff wp cs"

text \<open>The size of a cell along a direction.\<close>

definition lc_size :: "layout_type \<Rightarrow> layout_cell \<Rightarrow> nat" where
  "lc_size type c = (if type = LAYOUT_LEFTRIGHT then lc_sx c else lc_sy c)"

fun resized_by :: "layout_type \<Rightarrow> int \<Rightarrow> layout_cell \<Rightarrow> layout_cell" where
  "resized_by type change (Cell t sx sy xoff yoff wp cs) =
     (if type = LAYOUT_LEFTRIGHT then Cell t (uadd_int sx change) sy xoff yoff wp cs
      else Cell t sx (uadd_int sy change) xoff yoff wp cs)"

fun mapM :: "('a \<Rightarrow> 'b option) \<Rightarrow> 'a list \<Rightarrow> 'b list option" where
  "mapM f [] = Some []"
| "mapM f (x # xs) = do {
     y \<leftarrow> f x;
     ys \<leftarrow> mapM f xs;
     Some (y # ys)
   }"

section \<open>Paths\<close>

fun cell_at :: "nat list \<Rightarrow> layout_cell \<Rightarrow> layout_cell option" where
  "cell_at [] c = Some c"
| "cell_at (i # p) c = Option.bind (lget i (lc_cells c)) (cell_at p)"

text \<open>Replace the cell at a path.\<close>

fun put_at :: "nat list \<Rightarrow> layout_cell \<Rightarrow> layout_cell \<Rightarrow> layout_cell option" where
  "put_at [] c' c = Some c'"
| "put_at (i # p) c' c = do {
     d \<leftarrow> lget i (lc_cells c);
     d' \<leftarrow> put_at p c' d;
     cs \<leftarrow> lput i d' (lc_cells c);
     Some (set_cells cs c)
   }"

fun pane_path :: "nat \<Rightarrow> layout_cell \<Rightarrow> nat list option"
  and pane_path_in :: "nat \<Rightarrow> nat \<Rightarrow> layout_cell list \<Rightarrow> nat list option" where
  "pane_path wp (Cell t sx sy xoff yoff w cs) = (if w = Some wp then Some [] else pane_path_in wp 0 cs)"
| "pane_path_in wp i [] = None"
| "pane_path_in wp i (c # cs) = (case pane_path wp c of Some p \<Rightarrow> Some (i # p) | None \<Rightarrow> pane_path_in wp (i + 1) cs)"

section \<open>Offsets and counting\<close>

fun layout_fix_offsets :: "layout_cell \<Rightarrow> layout_cell"
  and fix_children :: "bool \<Rightarrow> nat \<Rightarrow> nat \<Rightarrow> layout_cell list \<Rightarrow> layout_cell list" where
  "layout_fix_offsets (Cell t sx sy xoff yoff wp cs) =
     Cell t sx sy xoff yoff wp (fix_children (t = LAYOUT_LEFTRIGHT) xoff yoff cs)"
| "fix_children horiz xoff yoff [] = []"
| "fix_children horiz xoff yoff (Cell t sx sy _ _ wp cs # rest) =
     (if t \<noteq> LAYOUT_WINDOWPANE
      then Cell t sx sy xoff yoff wp (fix_children (t = LAYOUT_LEFTRIGHT) xoff yoff cs)
      else Cell t sx sy xoff yoff wp cs) #
     (if horiz then fix_children horiz (uadd xoff (uadd sx 1)) yoff rest
      else fix_children horiz xoff (uadd yoff (uadd sy 1)) rest)"

fun layout_count_cells :: "layout_cell \<Rightarrow> nat" where
  "layout_count_cells (Cell t sx sy xoff yoff wp cs) =
     (if t = LAYOUT_WINDOWPANE then 1 else foldl (\<lambda>n c. uadd n (layout_count_cells c)) 0 cs)"

section \<open>Resizing cells\<close>

text \<open>The size that can be removed from a cell.\<close>

fun layout_resize_check :: "layout_type \<Rightarrow> layout_cell \<Rightarrow> nat" where
  "layout_resize_check type (Cell t sx sy xoff yoff wp cs) =
     (if t = LAYOUT_WINDOWPANE then
        let available = (if type = LAYOUT_LEFTRIGHT then sx else sy) in
        if available > PANE_MINIMUM then available - PANE_MINIMUM else 0
      else if t = type then foldl (\<lambda>a c. uadd a (layout_resize_check type c)) 0 cs
      else foldl (\<lambda>m c. let a = layout_resize_check type c in if a < m then a else m) UINT_MAX cs)"

text \<open>
  layout_resize_adjust. The recursion goes down the tree; \<open>resize_adjust_at\<close> counts the levels,
  and the height of the cell is enough. In the direction of the container, a round of the
  while loop gives each child one column or row, or takes one where there is one to take. A
  round that changes nothing would be repeated for ever: the result is then None.
\<close>

fun adjust_round :: "(int \<Rightarrow> layout_cell \<Rightarrow> layout_cell option) \<Rightarrow> layout_type \<Rightarrow> int \<Rightarrow> layout_cell list
    \<Rightarrow> (layout_cell list \<times> int) option" where
  "adjust_round f type change [] = Some ([], change)"
| "adjust_round f type change (c # cs) =
     (if change = 0 then Some (c # cs, 0)
      else if change > 0 then do {
        c' \<leftarrow> f 1 c;
        (cs', change') \<leftarrow> adjust_round f type (change - 1) cs;
        Some (c' # cs', change')
      }
      else if layout_resize_check type c > 0 then do {
        c' \<leftarrow> f (-1) c;
        (cs', change') \<leftarrow> adjust_round f type (change + 1) cs;
        Some (c' # cs', change')
      }
      else do {
        (cs', change') \<leftarrow> adjust_round f type change cs;
        Some (c # cs', change')
      })"

lemma adjust_round_change:
  "adjust_round f type change cs = Some (cs', change') \<Longrightarrow>
   length cs' = length cs \<and> min 0 change \<le> change' \<and> change' \<le> max 0 change"
proof (induction cs arbitrary: change cs')
  case (Cons c cs)
  then show ?case
    by (fastforce simp: bind_eq_Some_conv split: if_splits dest!: Cons.IH)
qed simp

function adjust_loop :: "(int \<Rightarrow> layout_cell \<Rightarrow> layout_cell option) \<Rightarrow> layout_type \<Rightarrow> int \<Rightarrow> layout_cell list
    \<Rightarrow> layout_cell list option" where
  "adjust_loop f type change cs =
     (if change = 0 then Some cs
      else case adjust_round f type change cs of
        None \<Rightarrow> None
      | Some (cs', change') \<Rightarrow> if change' = change then None else adjust_loop f type change' cs')"
  by auto
termination
  by (relation "measure (\<lambda>(f, type, change, cs). nat \<bar>change\<bar>)") (auto dest!: adjust_round_change)

declare adjust_loop.simps [simp del]

primrec resize_adjust_at :: "nat \<Rightarrow> layout_type \<Rightarrow> int \<Rightarrow> layout_cell \<Rightarrow> layout_cell option" where
  "resize_adjust_at 0 type change c = None"
| "resize_adjust_at (Suc d) type change c =
     (let c1 = resized_by type change c in
      if type = LAYOUT_WINDOWPANE then Some c1
      else if lc_type c \<noteq> type then
        map_option (\<lambda>cs. set_cells cs c1) (mapM (resize_adjust_at d type change) (lc_cells c))
      else map_option (\<lambda>cs. set_cells cs c1) (adjust_loop (resize_adjust_at d type) type change (lc_cells c)))"

fun lc_height :: "layout_cell \<Rightarrow> nat" where
  "lc_height (Cell t sx sy xoff yoff wp cs) = Suc (foldr max (map lc_height cs) 0)"

definition layout_resize_adjust :: "layout_type \<Rightarrow> int \<Rightarrow> layout_cell \<Rightarrow> layout_cell option" where
  "layout_resize_adjust type change c = resize_adjust_at (lc_height c) type change c"

section \<open>Panes and windows\<close>

text \<open>
  What the layout needs of a pane and of a window: the position and the size of the pane, and
  the screen that is resized with it. The order of lw_panes is that of w->panes.
\<close>

record layout_pane =
  lp_id :: nat
  lp_xoff :: nat
  lp_yoff :: nat
  lp_sx :: nat
  lp_sy :: nat
  lp_base :: screen

record layout_window =
  lw_sx :: nat
  lw_sy :: nat
  lw_panes :: "layout_pane list"
  lw_root :: "layout_cell option"
  lw_lastlayout :: int

text \<open>window_pane_resize, in window.c; the size is also told to the program in the pane.\<close>

definition window_pane_resize :: "nat \<Rightarrow> nat \<Rightarrow> layout_pane \<Rightarrow> layout_pane option" where
  "window_pane_resize sx sy wp =
     (if sx = lp_sx wp \<and> sy = lp_sy wp then Some wp
      else map_option (\<lambda>s. wp\<lparr>lp_sx := sx, lp_sy := sy, lp_base := s\<rparr>) (screen_resize sx sy (lp_base wp)))"

text \<open>The size of a pane in one direction: its cell, cut at the edge of the window.\<close>

definition crop_pane :: "nat \<Rightarrow> nat \<Rightarrow> nat \<Rightarrow> nat \<Rightarrow> nat" where
  "crop_pane least off sz wsz =
     (if off \<ge> wsz \<or> uadd off sz < wsz then sz
      else if usub wsz off < least then sz
      else usub wsz off)"

definition fix_pane :: "nat \<Rightarrow> nat \<Rightarrow> layout_cell \<Rightarrow> layout_pane \<Rightarrow> layout_pane option" where
  "fix_pane wsx wsy lc wp =
     window_pane_resize (crop_pane 1 (lc_xoff lc) (lc_sx lc) wsx) (crop_pane 2 (lc_yoff lc) (lc_sy lc) wsy)
       (wp\<lparr>lp_xoff := lc_xoff lc, lp_yoff := lc_yoff lc\<rparr>)"

definition pane_cell :: "layout_cell \<Rightarrow> nat \<Rightarrow> layout_cell option" where
  "pane_cell root wp = Option.bind (pane_path wp root) (\<lambda>p. cell_at p root)"

definition layout_fix_panes :: "nat \<Rightarrow> nat \<Rightarrow> layout_window \<Rightarrow> layout_window option" where
  "layout_fix_panes wsx wsy w =
     map_option (\<lambda>ps. w\<lparr>lw_panes := ps\<rparr>)
       (mapM (\<lambda>wp. case Option.bind (lw_root w) (\<lambda>root. pane_cell root (lp_id wp)) of
                None \<Rightarrow> Some wp
              | Some lc \<Rightarrow> fix_pane wsx wsy lc wp) (lw_panes w))"

definition layout_init :: "layout_window \<Rightarrow> layout_window option" where
  "layout_init w = do {
     wp \<leftarrow> lget 0 (lw_panes w);
     let lc = layout_make_leaf (lp_id wp) (layout_set_size (lw_sx w) (lw_sy w) 0 0 layout_create_cell);
     layout_fix_panes (lw_sx w) (lw_sy w) (w\<lparr>lw_root := Some lc\<rparr>)
   }"

section \<open>Destroying a cell\<close>

definition remove_nth :: "nat \<Rightarrow> 'a list \<Rightarrow> 'a list" where
  "remove_nth i xs = take i xs @ drop (i + 1) xs"

text \<open>
  The space of a cell goes to the previous cell, or the next one if it is the first; a parent
  with one cell left is replaced by that cell. The result is the new root.
\<close>

definition layout_destroy_cell :: "nat list \<Rightarrow> layout_cell \<Rightarrow> layout_cell option option" where
  "layout_destroy_cell p root =
     (if p = [] then Some None
      else do {
        let q = butlast p;
        let i = last p;
        lcparent \<leftarrow> cell_at q root;
        lc \<leftarrow> lget i (lc_cells lcparent);
        let j = (if i = 0 then 1 else i - 1);
        lcother \<leftarrow> lget j (lc_cells lcparent);
        let room = (if lc_type lcparent = LAYOUT_LEFTRIGHT then lc_sx lc else lc_sy lc);
        lcother \<leftarrow> layout_resize_adjust (lc_type lcparent) (int_of_u (uadd room 1)) lcother;
        let cs = remove_nth i ((lc_cells lcparent)[j := lcother]);
        (case cs of
           [lc] \<Rightarrow> if q = [] then Some (Some (set_offsets 0 0 lc)) else map_option Some (put_at q lc root)
         | _ \<Rightarrow> map_option Some (put_at q (set_cells cs lcparent) root))
      })"

definition layout_close_pane :: "nat \<Rightarrow> layout_window \<Rightarrow> layout_window option" where
  "layout_close_pane wp w = do {
     root \<leftarrow> lw_root w;
     p \<leftarrow> pane_path wp root;
     r \<leftarrow> layout_destroy_cell p root;
     (case r of
        None \<Rightarrow> Some (w\<lparr>lw_root := None\<rparr>)
      | Some root \<Rightarrow> layout_fix_panes (lw_sx w) (lw_sy w) (w\<lparr>lw_root := Some (layout_fix_offsets root)\<rparr>))
   }"

section \<open>Resizing the layout\<close>

text \<open>
  The change of layout_resize along one direction: the change of the window, but not beyond
  the minimum, and what is beyond the layout if that is at its minimum already.
\<close>

definition resize_change :: "nat \<Rightarrow> nat \<Rightarrow> nat \<Rightarrow> nat \<Rightarrow> int" where
  "resize_change new old lim cursz =
     (let change = int_of_u (usub new old);
          limit = int_of_u lim;
          change = (if change < 0 \<and> change < - limit then - limit else change) in
      if limit = 0 then (if new \<le> cursz then 0 else int_of_u (usub new cursz)) else change)"

definition resize_direction :: "layout_type \<Rightarrow> nat \<Rightarrow> nat \<Rightarrow> layout_cell \<Rightarrow> layout_cell option" where
  "resize_direction type new old lc =
     (let change = resize_change new old (layout_resize_check type lc) (lc_size type lc) in
      if change \<noteq> 0 then layout_resize_adjust type change lc else Some lc)"

definition layout_resize :: "nat \<Rightarrow> nat \<Rightarrow> layout_window \<Rightarrow> layout_window option" where
  "layout_resize sx sy w = do {
     lc \<leftarrow> lw_root w;
     lc \<leftarrow> resize_direction LAYOUT_LEFTRIGHT sx (lw_sx w) lc;
     lc \<leftarrow> resize_direction LAYOUT_TOPBOTTOM sy (lw_sy w) lc;
     layout_fix_panes sx sy (w\<lparr>lw_root := Some (layout_fix_offsets lc)\<rparr>)
   }"

text \<open>Growing and shrinking a cell of a container by taking from, or giving to, its neighbours.\<close>

definition move_size :: "layout_type \<Rightarrow> nat \<Rightarrow> nat \<Rightarrow> nat \<Rightarrow> layout_cell list \<Rightarrow> layout_cell list option" where
  "move_size type add remove sz cs = do {
     lc \<leftarrow> lget add cs;
     lcadd \<leftarrow> layout_resize_adjust type (int_of_u sz) lc;
     cs \<leftarrow> lput add lcadd cs;
     lc \<leftarrow> lget remove cs;
     lcremove \<leftarrow> layout_resize_adjust type (- int_of_u sz) lc;
     lput remove lcremove cs
   }"

definition layout_resize_pane_grow :: "nat \<Rightarrow> layout_type \<Rightarrow> int \<Rightarrow> layout_cell list \<Rightarrow> (int \<times> layout_cell list) option" where
  "layout_resize_pane_grow i type needed cs =
     (if i < length cs then
        case find (\<lambda>j. layout_resize_check type (cs ! j) > 0) ([i + 1..<length cs] @ rev [0..<i]) of
          None \<Rightarrow> Some (0, cs)
        | Some j \<Rightarrow>
            let sz = min (layout_resize_check type (cs ! j)) (uadd_int 0 needed) in
            map_option (\<lambda>cs. (int_of_u sz, cs)) (move_size type i j sz cs)
      else None)"

definition layout_resize_pane_shrink :: "nat \<Rightarrow> layout_type \<Rightarrow> int \<Rightarrow> layout_cell list \<Rightarrow> (int \<times> layout_cell list) option" where
  "layout_resize_pane_shrink i type needed cs =
     (if i < length cs then
        case find (\<lambda>j. layout_resize_check type (cs ! j) \<noteq> 0) (rev [0..<i + 1]) of
          None \<Rightarrow> Some (0, cs)
        | Some j \<Rightarrow>
            if i + 1 < length cs then
              let sz = min (layout_resize_check type (cs ! j)) (uadd_int 0 (- needed)) in
              map_option (\<lambda>cs. (int_of_u sz, cs)) (move_size type (i + 1) j sz cs)
            else Some (0, cs)
      else None)"

text \<open>The while loop of layout_resize_pane; each turn moves at least one row or column, so
  that the change bounds the number of turns.\<close>

primrec resize_pane_loop :: "nat \<Rightarrow> nat \<Rightarrow> layout_type \<Rightarrow> int \<Rightarrow> int \<Rightarrow> layout_cell list \<Rightarrow> layout_cell list option" where
  "resize_pane_loop 0 i type change needed cs = (if needed = 0 then Some cs else None)"
| "resize_pane_loop (Suc k) i type change needed cs =
     (if needed = 0 then Some cs
      else if change > 0 then do {
        (sz, cs) \<leftarrow> layout_resize_pane_grow i type needed cs;
        if sz = 0 then Some cs else resize_pane_loop k i type change (needed - sz) cs
      } else do {
        (sz, cs) \<leftarrow> layout_resize_pane_shrink i type needed cs;
        if sz = 0 then Some cs else resize_pane_loop k i type change (needed + sz) cs
      })"

text \<open>The nearest container of a type above a path, and the child of it that is above the path.\<close>

primrec parent_of_type :: "nat \<Rightarrow> layout_type \<Rightarrow> nat list \<Rightarrow> layout_cell \<Rightarrow> (nat list \<times> nat) option" where
  "parent_of_type 0 type p root = None"
| "parent_of_type (Suc n) type p root =
     (case cell_at (take n p) root of
        None \<Rightarrow> None
      | Some c \<Rightarrow> if lc_type c = type then Some (take n p, p ! n) else parent_of_type n type p root)"

definition layout_resize_pane :: "nat \<Rightarrow> layout_type \<Rightarrow> int \<Rightarrow> layout_window \<Rightarrow> layout_window option" where
  "layout_resize_pane wp type change w = do {
     root \<leftarrow> lw_root w;
     p \<leftarrow> pane_path wp root;
     (case parent_of_type (length p) type p root of
        None \<Rightarrow> Some w
      | Some (q, i) \<Rightarrow> do {
          lcparent \<leftarrow> cell_at q root;
          let n = length (lc_cells lcparent);
          let i = (if i + 1 = n then if i = 0 then n else i - 1 else i);
          cs \<leftarrow> resize_pane_loop (nat \<bar>change\<bar>) i type change change (lc_cells lcparent);
          root \<leftarrow> put_at q (set_cells cs lcparent) root;
          layout_fix_panes (lw_sx w) (lw_sy w) (w\<lparr>lw_root := Some (layout_fix_offsets root)\<rparr>)
        })
   }"

section \<open>Splitting a pane\<close>

text \<open>The sizes of the two halves; size is a hint, negative for the middle.\<close>

definition split_sizes :: "int \<Rightarrow> nat \<Rightarrow> nat \<times> nat" where
  "split_sizes hint sz =
     (let size2 = (if hint < 0 then usub (uadd sz 1 div 2) 1 else uadd_int 0 hint);
          size2 = (if size2 < PANE_MINIMUM then PANE_MINIMUM
                   else if size2 > usub sz 2 then usub sz 2 else size2)
      in (usub (usub sz 1) size2, size2))"

definition split_cells :: "layout_type \<Rightarrow> int \<Rightarrow> nat \<Rightarrow> layout_cell \<Rightarrow> layout_cell \<times> layout_cell" where
  "split_cells type hint wp lc =
     (let sx = lc_sx lc; sy = lc_sy lc; xoff = lc_xoff lc; yoff = lc_yoff lc;
          (size1, size2) = split_sizes hint (lc_size type lc) in
      if type = LAYOUT_LEFTRIGHT then
        (layout_make_leaf wp (layout_set_size size1 sy xoff yoff lc),
         layout_set_size size2 sy (uadd (uadd xoff size1) 1) yoff layout_create_cell)
      else
        (layout_make_leaf wp (layout_set_size sx size1 xoff yoff lc),
         layout_set_size sx size2 xoff (uadd (uadd yoff size1) 1) layout_create_cell))"

definition insert_after :: "nat \<Rightarrow> 'a \<Rightarrow> 'a list \<Rightarrow> 'a list" where
  "insert_after i x xs = take (i + 1) xs @ x # drop (i + 1) xs"

text \<open>The result is Some None where there is no room, and else the path of the new cell and
  the new tree.\<close>

definition layout_split_pane :: "nat \<Rightarrow> layout_type \<Rightarrow> int \<Rightarrow> layout_cell \<Rightarrow> (nat list \<times> layout_cell) option option" where
  "layout_split_pane wp type hint root = do {
     p \<leftarrow> pane_path wp root;
     lc \<leftarrow> cell_at p root;
     if type = LAYOUT_WINDOWPANE then None
     else if lc_size type lc < PANE_MINIMUM * 2 + 1 then Some None
     else do {
       let q = butlast p;
       let i = last p;
       let (lc1, lcnew) = split_cells type hint wp lc;
       lcparent \<leftarrow> cell_at q root;
       if p \<noteq> [] \<and> lc_type lcparent = type then do {
         cs \<leftarrow> lput i lc1 (lc_cells lcparent);
         root \<leftarrow> put_at q (set_cells (insert_after i lcnew cs) lcparent) root;
         Some (Some (q @ [i + 1], root))
       } else do {
         node \<leftarrow> layout_make_node type (layout_set_size (lc_sx lc) (lc_sy lc) (lc_xoff lc) (lc_yoff lc) layout_create_cell);
         root \<leftarrow> put_at p (set_cells [lc1, lcnew] node) root;
         Some (Some (p @ [1], root))
       }
     }
   }"

definition layout_assign_pane :: "nat list \<Rightarrow> nat \<Rightarrow> layout_window \<Rightarrow> layout_window option" where
  "layout_assign_pane p wp w = do {
     root \<leftarrow> lw_root w;
     lc \<leftarrow> cell_at p root;
     root \<leftarrow> put_at p (layout_make_leaf wp lc) root;
     layout_fix_panes (lw_sx w) (lw_sy w) (w\<lparr>lw_root := Some root\<rparr>)
   }"

section \<open>Resizing with the mouse\<close>

record mouse_event =
  m_b :: nat
  m_x :: nat
  m_y :: nat

definition MOUSE_UP :: nat where "MOUSE_UP = 3"
definition MOUSE_BUTTON :: nat where "MOUSE_BUTTON = 3"
definition MOUSE_RESIZE_PANE :: nat where "MOUSE_RESIZE_PANE = 128"

definition on_right_border :: "nat \<Rightarrow> nat \<Rightarrow> layout_pane \<Rightarrow> bool" where
  "on_right_border x y wp \<longleftrightarrow> uadd (lp_xoff wp) (lp_sx wp) = x \<and> lp_yoff wp \<le> uadd 1 y \<and> uadd (lp_yoff wp) (lp_sy wp) \<ge> y"

definition on_bottom_border :: "nat \<Rightarrow> nat \<Rightarrow> layout_pane \<Rightarrow> bool" where
  "on_bottom_border x y wp \<longleftrightarrow> uadd (lp_yoff wp) (lp_sy wp) = y \<and> lp_xoff wp \<le> uadd 1 x \<and> uadd (lp_xoff wp) (lp_sx wp) \<ge> x"

text \<open>
  A drag moves the borders under the last position; the first button press on a border starts
  one. The panes are visited in order, each as the earlier moves have left it. The result has
  the new event and whether the window is to be redrawn.
\<close>

definition mouse_drag_pane :: "mouse_event \<Rightarrow> mouse_event \<Rightarrow> nat \<Rightarrow> layout_window \<times> bool \<Rightarrow> (layout_window \<times> bool) option" where
  "mouse_drag_pane old mouse k = (\<lambda>(w, border). do {
     wp \<leftarrow> lget k (lw_panes w);
     (w, border) \<leftarrow> (if on_right_border (m_x old) (m_y old) wp
       then map_option (\<lambda>w. (w, True)) (layout_resize_pane (lp_id wp) LAYOUT_LEFTRIGHT (int_of_u (usub (m_x mouse) (m_x old))) w)
       else Some (w, border));
     wp \<leftarrow> lget k (lw_panes w);
     if on_bottom_border (m_x old) (m_y old) wp
     then map_option (\<lambda>w. (w, True)) (layout_resize_pane (lp_id wp) LAYOUT_TOPBOTTOM (int_of_u (usub (m_y mouse) (m_y old))) w)
     else Some (w, border)
   })"

definition layout_resize_pane_mouse ::
    "mouse_event \<Rightarrow> mouse_event \<Rightarrow> layout_window \<Rightarrow> (layout_window \<times> mouse_event \<times> bool) option" where
  "layout_resize_pane_mouse old mouse w = do {
     (w, border, redraw) \<leftarrow>
       (if m_b old AND MOUSE_BUTTON \<noteq> MOUSE_UP \<and> m_b old AND MOUSE_RESIZE_PANE \<noteq> 0 then
          map_option (\<lambda>(w, border). (w, border, border)) (foldM (mouse_drag_pane old mouse) [0..<length (lw_panes w)] (w, False))
        else if m_b mouse \<noteq> MOUSE_UP \<and> m_b mouse = m_b mouse AND MOUSE_BUTTON then
          Some (w, list_ex (\<lambda>wp. on_right_border (m_x mouse) (m_y mouse) wp \<or> on_bottom_border (m_x mouse) (m_y mouse) wp) (lw_panes w), False)
        else Some (w, False, False));
     Some (w, if border then mouse\<lparr>m_b := m_b mouse OR MOUSE_RESIZE_PANE\<rparr> else mouse, redraw)
   }"

end
