(* ===== verification/Layout_Facts.thy ===== *)
theory Layout_Facts
  imports Layout
begin

text \<open>
  Resizing cells. A layout tree is well formed (\<open>lay_ok\<close>) if the children of every container
  fill it: their sizes and the borders between them add up to its size in its direction, and
  are its size in the other. \<open>resize_adjust_ok\<close> is the contract of layout_resize_adjust: within
  what layout_resize_check allows it returns, and changes the size by exactly what it is asked.
\<close>

section \<open>Well-formed trees\<close>

definition cross :: "layout_type \<Rightarrow> layout_type" where
  "cross t = (if t = LAYOUT_LEFTRIGHT then LAYOUT_TOPBOTTOM else LAYOUT_LEFTRIGHT)"

lemma cross_simps [simp]: "cross LAYOUT_LEFTRIGHT = LAYOUT_TOPBOTTOM" "cross LAYOUT_TOPBOTTOM = LAYOUT_LEFTRIGHT"
  by (simp_all add: cross_def)

lemma lc_size_Cell [simp]: "lc_size t (Cell u sx sy x y wp cs) = (if t = LAYOUT_LEFTRIGHT then sx else sy)"
  by (simp add: lc_size_def)

definition fills :: "layout_type \<Rightarrow> layout_cell list \<Rightarrow> nat" where
  "fills t cs = sum_list (map (\<lambda>c. lc_size t c + 1) cs)"

lemma fills_simps [simp]: "fills t [] = 0" "fills t (c # cs) = lc_size t c + 1 + fills t cs"
  "fills t (as @ bs) = fills t as + fills t bs"
  by (simp_all add: fills_def)

fun lay_ok :: "layout_cell \<Rightarrow> bool" where
  "lay_ok (Cell t sx sy xoff yoff wp cs) =
     (if t = LAYOUT_WINDOWPANE then cs = []
      else wp = None \<and> 2 \<le> length cs \<and>
        fills t cs = (if t = LAYOUT_LEFTRIGHT then sx else sy) + 1 \<and>
        (\<forall>c\<in>set cs. lc_size (cross t) c = (if t = LAYOUT_LEFTRIGHT then sy else sx) \<and> lay_ok c))"

text \<open>A tree without its sizes and offsets.\<close>

fun shape :: "layout_cell \<Rightarrow> layout_cell" where
  "shape (Cell t sx sy xoff yoff wp cs) = Cell t 0 0 0 0 wp (map shape cs)"

lemma shape_type: "shape c = shape d \<Longrightarrow> lc_type c = lc_type d"
  by (cases c; cases d) simp

lemma height_shape [simp]: "lc_height (shape c) = lc_height c"
  by (induction c rule: shape.induct) (auto simp: comp_def cong: map_cong)

lemma height_shape_eq: "shape c = shape d \<Longrightarrow> lc_height c = lc_height d"
  by (metis height_shape)

lemma height_child: "c \<in> set (lc_cells d) \<Longrightarrow> lc_height c < lc_height d"
proof (cases d)
  case (Cell t sx sy x y wp cs)
  have "lc_height c \<le> foldr max (map lc_height ds) 0" if "c \<in> set ds" for ds
    using that by (induction ds) auto
  then show "c \<in> set (lc_cells d) \<Longrightarrow> lc_height c < lc_height d" using Cell by (simp add: less_Suc_eq_le)
qed

section \<open>What can be removed\<close>

lemma foldl_uadd_sum:
  "n + sum_list (map f cs) < UINT_MOD \<Longrightarrow> foldl (\<lambda>a c. uadd a (f c)) n cs = n + sum_list (map f cs)"
proof (induction cs arbitrary: n)
  case (Cons c cs)
  then have "uadd n (f c) = n + f c" by (intro uadd_eq) simp
  then show ?case using Cons by (simp add: add.assoc)
qed simp

lemma foldl_least:
  "foldl (\<lambda>m c. let a = f c in if a < m then a else m) (M::nat) cs = fold (\<lambda>c m. min (f c) m) cs M"
proof (induction cs arbitrary: M)
  case (Cons c cs)
  have "(let a = f c in if a < M then a else M) = min (f c) M" by (auto simp: Let_def min_def)
  then show ?case by (simp only: foldl.simps fold_simps Cons.IH)
qed simp

lemma fold_min_Min:
  assumes "cs \<noteq> []" "\<forall>c\<in>set cs. f c \<le> (M::nat)"
  shows "fold (\<lambda>c m. min (f c) m) cs M = Min (f ` set cs)"
proof -
  have "fold (\<lambda>c m. min (f c) m) cs M = Min (insert M (f ` set cs))"
  proof (induction cs arbitrary: M)
    case (Cons c cs)
    then show ?case by (cases "cs = []") (simp_all add: ac_simps)
  qed simp
  also have "\<dots> = Min (f ` set cs)"
  proof -
    have "Min (f ` set cs) \<le> f (hd cs)" "f (hd cs) \<le> M" using assms by simp_all
    then have "Min (f ` set cs) \<le> M" by (rule order_trans)
    then show ?thesis using assms(1) by (simp add: min_absorb2)
  qed
  finally show ?thesis .
qed

lemma fills_bounds:
  assumes "c \<in> set cs"
  shows "lc_size t c < fills t cs"
  using assms by (induction cs) auto

lemma sum_list_le_fills: "\<forall>c\<in>set cs. f c \<le> lc_size t c \<Longrightarrow> sum_list (map f cs) \<le> fills t cs - length cs \<and> length cs \<le> fills t cs"
  by (induction cs) fastforce+

abbreviation SIZE_LIMIT :: nat where "SIZE_LIMIT \<equiv> 2147483648"

lemma check_le:
  "lay_ok c \<Longrightarrow> lc_size type c < SIZE_LIMIT \<Longrightarrow> type \<noteq> LAYOUT_WINDOWPANE \<Longrightarrow> layout_resize_check type c \<le> lc_size type c"
proof (induction c)
  case (Cell t sx sy x y wp cs)
  show ?case
  proof (cases "t = LAYOUT_WINDOWPANE")
    case True
    then show ?thesis by (simp add: Let_def)
  next
    case False
    show ?thesis
    proof (cases "t = type")
      case True
      have "layout_resize_check type c \<le> lc_size type c" if "c \<in> set cs" for c
        using Cell.prems False True that fills_bounds [OF that, of type] by (intro Cell.IH) (auto simp: split: if_splits)
      then have "sum_list (map (layout_resize_check type) cs) \<le> fills type cs - length cs" "length cs \<le> fills type cs"
        using sum_list_le_fills [of cs "layout_resize_check type" type] by auto
      then show ?thesis using Cell.prems False True
        by (auto simp: foldl_uadd_sum split: if_splits)
    next
      case other: False
      then have t: "type = cross t" using False Cell.prems(3) by (cases t; cases type) simp_all
      have le: "layout_resize_check type c \<le> lc_size type (Cell t sx sy x y wp cs)" if "c \<in> set cs" for c
        using Cell.prems False that t Cell.IH [OF that] by (cases t) auto
      moreover have "cs \<noteq> []" using Cell.prems False by auto
      moreover have "layout_resize_check type (Cell t sx sy x y wp cs) = Min (layout_resize_check type ` set cs)"
        using False other fold_min_Min [OF \<open>cs \<noteq> []\<close>, of "layout_resize_check type" UINT_MAX] le Cell.prems(2)
        by (fastforce simp: foldl_least)
      ultimately show ?thesis by (metis Min_le List.finite_set finite_imageI imageI hd_in_set order_trans)
    qed
  qed
qed

text \<open>What can be removed from a container, for a tree whose sizes are in range.\<close>

lemma check_same:
  assumes "lay_ok c" "lc_type c = type" "type \<noteq> LAYOUT_WINDOWPANE" "lc_size type c < SIZE_LIMIT"
  shows "layout_resize_check type c = sum_list (map (layout_resize_check type) (lc_cells c))"
proof (cases c)
  case (Cell t sx sy x y wp cs)
  have "layout_resize_check type d \<le> lc_size type d" if "d \<in> set cs" for d
    using assms Cell that fills_bounds [OF that, of type] by (intro check_le) (auto split: if_splits)
  then have "sum_list (map (layout_resize_check type) cs) \<le> fills type cs"
    using sum_list_le_fills [of cs "layout_resize_check type" type] by auto
  then show ?thesis using assms Cell by (auto simp: foldl_uadd_sum split: if_splits)
qed

lemma cross_of: "t \<noteq> LAYOUT_WINDOWPANE \<Longrightarrow> type \<noteq> LAYOUT_WINDOWPANE \<Longrightarrow> t \<noteq> type \<Longrightarrow> type = cross t \<and> t = cross type"
  by (cases t; cases type) simp_all

lemma check_cross:
  assumes "lay_ok c" "lc_type c = cross type" "type \<noteq> LAYOUT_WINDOWPANE" "lc_size type c < SIZE_LIMIT"
  shows "layout_resize_check type c = Min (layout_resize_check type ` set (lc_cells c))" "lc_cells c \<noteq> []"
proof -
  obtain t sx sy x y wp cs where c: "c = Cell t sx sy x y wp cs" by (cases c)
  have ne: "t \<noteq> LAYOUT_WINDOWPANE" "t \<noteq> type" "cs \<noteq> []" using assms c by (cases type; auto)+
  have le: "layout_resize_check type d \<le> UINT_MAX" if "d \<in> set cs" for d
    using check_le [of d type] assms c that ne by (cases type) auto
  show "layout_resize_check type c = Min (layout_resize_check type ` set (lc_cells c))"
    using c ne fold_min_Min [OF ne(3), of "layout_resize_check type" UINT_MAX] le by (simp add: foldl_least)
  show "lc_cells c \<noteq> []" using c ne by simp
qed

section \<open>layout_resize_adjust\<close>

definition reshaped :: "layout_type \<Rightarrow> layout_cell \<Rightarrow> layout_cell \<Rightarrow> bool" where
  "reshaped type c c' \<longleftrightarrow> lay_ok c' \<and> shape c' = shape c \<and> lc_size (cross type) c' = lc_size (cross type) c \<and>
     lc_xoff c' = lc_xoff c \<and> lc_yoff c' = lc_yoff c"

definition adjusted :: "layout_type \<Rightarrow> int \<Rightarrow> layout_cell \<Rightarrow> layout_cell \<Rightarrow> bool" where
  "adjusted type k c c' \<longleftrightarrow> reshaped type c c' \<and> int (lc_size type c') = int (lc_size type c) + k \<and>
     (k < 0 \<longrightarrow> int (layout_resize_check type c') = int (layout_resize_check type c) + k)"

definition can_adjust :: "layout_type \<Rightarrow> int \<Rightarrow> layout_cell \<Rightarrow> bool" where
  "can_adjust type k c \<longleftrightarrow> lay_ok c \<and> int (lc_size type c) + max 0 k < int SIZE_LIMIT \<and>
     (k < 0 \<longrightarrow> - k \<le> int (layout_resize_check type c))"

definition adjuster :: "nat \<Rightarrow> layout_type \<Rightarrow> (int \<Rightarrow> layout_cell \<Rightarrow> layout_cell option) \<Rightarrow> bool" where
  "adjuster d type f \<longleftrightarrow> (\<forall>k c. can_adjust type k c \<longrightarrow> lc_height c \<le> d \<longrightarrow> runs (f k c) (adjusted type k c))"

lemma adjusterD: "adjuster d type f \<Longrightarrow> can_adjust type k c \<Longrightarrow> lc_height c \<le> d \<Longrightarrow> runs (f k c) (adjusted type k c)"
  by (simp add: adjuster_def)

lemma reshaped_refl: "lay_ok c \<Longrightarrow> reshaped type c c"
  by (simp add: reshaped_def)

lemma reshaped_trans: "reshaped type a b \<Longrightarrow> reshaped type b c \<Longrightarrow> reshaped type a c"
  by (simp add: reshaped_def)

lemma list_reshaped_trans:
  "list_all2 (reshaped type) as bs \<Longrightarrow> list_all2 (reshaped type) bs cs \<Longrightarrow> list_all2 (reshaped type) as cs"
  using list_all2_trans [of "reshaped type" "reshaped type" "reshaped type"] reshaped_trans by blast

lemma list_reshaped_height:
  "list_all2 (reshaped type) as bs \<Longrightarrow> \<forall>c\<in>set as. lc_height c \<le> d \<Longrightarrow> \<forall>c\<in>set bs. lc_height c \<le> d"
  by (induction rule: list_all2_induct) (auto simp: reshaped_def dest: height_shape_eq)

text \<open>One round over the children of a container.\<close>

abbreviation checks :: "layout_type \<Rightarrow> layout_cell list \<Rightarrow> nat" where
  "checks type cs \<equiv> sum_list (map (layout_resize_check type) cs)"

definition round_spec :: "layout_type \<Rightarrow> layout_cell list \<Rightarrow> int \<Rightarrow> layout_cell list \<times> int \<Rightarrow> bool" where
  "round_spec type cs change = (\<lambda>(cs', change').
     list_all2 (reshaped type) cs cs' \<and> int (fills type cs') = int (fills type cs) + (change - change') \<and>
     (change \<le> 0 \<longrightarrow> int (checks type cs') = int (checks type cs) + (change - change')) \<and>
     min 0 change \<le> change' \<and> change' \<le> max 0 change \<and>
     (change < 0 \<and> 0 < checks type cs \<longrightarrow> change < change') \<and> (0 < change \<and> cs \<noteq> [] \<longrightarrow> change' < change))"

lemma adjust_round_spec:
  assumes "adjuster d type f" "\<forall>c\<in>set cs. lay_ok c \<and> lc_height c \<le> d"
    "int (fills type cs) + max 0 change \<le> int SIZE_LIMIT"
  shows "runs (adjust_round f type change cs) (round_spec type cs change)"
  using assms(2,3)
proof (induction cs arbitrary: change)
  case Nil
  then show ?case by (simp add: round_spec_def)
next
  case (Cons c cs)
  have ok: "lay_ok c" "lc_height c \<le> d" "\<forall>c\<in>set cs. lay_ok c \<and> lc_height c \<le> d" using Cons.prems by auto
  consider (zero) "change = 0" | (grow) "0 < change" | (take) "change < 0" "0 < layout_resize_check type c"
    | (skip) "change < 0" "layout_resize_check type c = 0" by linarith
  then show ?case
  proof cases
    case zero
    then show ?thesis using Cons.prems
      by (auto simp: round_spec_def reshaped_refl list_all2_same)
  next
    case grow
    have "can_adjust type 1 c" using ok grow Cons.prems by (simp add: can_adjust_def)
    then have "runs (f 1 c) (adjusted type 1 c)" by (rule adjusterD [OF assms(1) _ ok(2)])
    moreover have "runs (adjust_round f type (change - 1) cs) (round_spec type cs (change - 1))"
      using grow Cons.prems by (intro Cons.IH ok(3)) simp
    ultimately show ?thesis using grow
      by (auto simp: runs_iff round_spec_def adjusted_def)
  next
    case take
    have "can_adjust type (-1) c" using ok take Cons.prems by (simp add: can_adjust_def)
    then have "runs (f (-1) c) (adjusted type (-1) c)" by (rule adjusterD [OF assms(1) _ ok(2)])
    moreover have "runs (adjust_round f type (change + 1) cs) (round_spec type cs (change + 1))"
      using take Cons.prems by (intro Cons.IH ok(3)) simp
    ultimately show ?thesis using take
      by (auto simp: runs_iff round_spec_def adjusted_def)
  next
    case skip
    have "runs (adjust_round f type change cs) (round_spec type cs change)"
      using skip Cons.prems by (intro Cons.IH ok(3)) simp
    then show ?thesis using skip ok
      by (auto simp: runs_iff round_spec_def reshaped_refl)
  qed
qed

definition loop_spec :: "layout_type \<Rightarrow> layout_cell list \<Rightarrow> int \<Rightarrow> layout_cell list \<Rightarrow> bool" where
  "loop_spec type cs change cs' \<longleftrightarrow> list_all2 (reshaped type) cs cs' \<and> int (fills type cs') = int (fills type cs) + change \<and>
     (change \<le> 0 \<longrightarrow> int (checks type cs') = int (checks type cs) + change)"

lemma adjust_loop_spec:
  assumes "adjuster d type f" "\<forall>c\<in>set cs. lay_ok c \<and> lc_height c \<le> d" "cs \<noteq> []"
    "int (fills type cs) + max 0 change \<le> int SIZE_LIMIT" "change < 0 \<longrightarrow> - change \<le> int (checks type cs)"
  shows "runs (adjust_loop f type change cs) (loop_spec type cs change)"
  using assms(2-)
proof (induction "nat \<bar>change\<bar>" arbitrary: change cs rule: less_induct)
  case less
  show ?case
  proof (cases "change = 0")
    case True
    then show ?thesis using less.prems by (simp add: adjust_loop.simps loop_spec_def list_all2_same reshaped_refl)
  next
    case False
    obtain cs' change' where r: "adjust_round f type change cs = Some (cs', change')" "round_spec type cs change (cs', change')"
      using adjust_round_spec [OF assms(1) less.prems(1,3)] by (auto simp: runs_iff)
    have progress: "change' \<noteq> change" using r(2) False less.prems by (auto simp: round_spec_def)
    then have smaller: "nat \<bar>change'\<bar> < nat \<bar>change\<bar>" using r(2) by (auto simp: round_spec_def)
    have rs: "list_all2 (reshaped type) cs cs'" using r(2) by (simp add: round_spec_def)
    have "\<forall>c\<in>set cs'. lay_ok c" using rs by (auto simp: list_all2_conv_all_nth in_set_conv_nth reshaped_def)
    then have ok': "\<forall>c\<in>set cs'. lay_ok c \<and> lc_height c \<le> d"
      using less.prems(1) list_reshaped_height [OF rs, of d] by blast
    have nums: "cs' \<noteq> []" "int (fills type cs') + max 0 change' \<le> int SIZE_LIMIT"
      "change' < 0 \<longrightarrow> - change' \<le> int (checks type cs')"
      using r(2) less.prems(2-4) by (auto simp: round_spec_def)
    obtain x where x: "adjust_loop f type change' cs' = Some x" "loop_spec type cs' change' x"
      using less.hyps [OF smaller ok' nums] by (auto simp: runs_iff)
    have "adjust_loop f type change cs = Some x"
      using r(1) x(1) progress False by (subst adjust_loop.simps) simp
    moreover have "loop_spec type cs change x"
    proof -
      have "list_all2 (reshaped type) cs x" using x(2) by (intro list_reshaped_trans [OF rs]) (simp add: loop_spec_def)
      moreover have "change' \<le> 0" if "change \<le> 0" using r(2) that by (simp add: round_spec_def)
      ultimately show ?thesis using x(2) r(2) by (simp add: loop_spec_def round_spec_def)
    qed
    ultimately show ?thesis by simp
  qed
qed

lemma uadd_int_eq: "0 \<le> int n + k \<Longrightarrow> int n + k < 4294967296 \<Longrightarrow> int (uadd_int n k) = int n + k"
  by (simp add: uadd_int_def)

lemma resized_by_size:
  assumes "type \<noteq> LAYOUT_WINDOWPANE" "0 \<le> int (lc_size type c) + k" "int (lc_size type c) + k < 4294967296"
  shows "int (lc_size type (resized_by type k c)) = int (lc_size type c) + k"
    "lc_size (cross type) (resized_by type k c) = lc_size (cross type) c"
  using assms by (cases c; cases type; simp add: uadd_int_eq)+

lemma resized_by_sel [simp]:
  "lc_type (resized_by type k c) = lc_type c" "lc_wp (resized_by type k c) = lc_wp c"
  "lc_cells (resized_by type k c) = lc_cells c" "lc_xoff (resized_by type k c) = lc_xoff c" "lc_yoff (resized_by type k c) = lc_yoff c"
  by (cases c; simp)+

lemma set_cells_sel [simp]:
  "lc_type (set_cells cs c) = lc_type c" "lc_wp (set_cells cs c) = lc_wp c" "lc_cells (set_cells cs c) = cs"
  "lc_xoff (set_cells cs c) = lc_xoff c" "lc_yoff (set_cells cs c) = lc_yoff c" "lc_size t (set_cells cs c) = lc_size t c"
  by (cases c; simp)+

text \<open>Well-formedness by selectors.\<close>

lemma lay_ok_leaf: "lc_type c = LAYOUT_WINDOWPANE \<Longrightarrow> lay_ok c \<longleftrightarrow> lc_cells c = []"
  by (cases c) simp

lemma lay_ok_node:
  "lc_type c \<noteq> LAYOUT_WINDOWPANE \<Longrightarrow> lay_ok c \<longleftrightarrow> lc_wp c = None \<and> 2 \<le> length (lc_cells c) \<and>
     fills (lc_type c) (lc_cells c) = lc_size (lc_type c) c + 1 \<and>
     (\<forall>d\<in>set (lc_cells c). lc_size (cross (lc_type c)) d = lc_size (cross (lc_type c)) c \<and> lay_ok d)"
  by (cases c; cases "lc_type c") auto

lemma shape_eq:
  "shape c = shape d \<longleftrightarrow> lc_type c = lc_type d \<and> lc_wp c = lc_wp d \<and> map shape (lc_cells c) = map shape (lc_cells d)"
  by (cases c; cases d) simp

lemma list_reshaped_shapes: "list_all2 (reshaped type) cs ds \<Longrightarrow> map shape cs = map shape ds"
  by (induction rule: list_all2_induct) (auto simp: reshaped_def)

lemma list_reshaped_ok:
  assumes "list_all2 (reshaped type) cs ds" "\<forall>c\<in>set cs. lc_size (cross type) c = n"
  shows "\<forall>c\<in>set ds. lc_size (cross type) c = n \<and> lay_ok c"
  using assms by (induction rule: list_all2_induct) (auto simp: reshaped_def)

lemma runs_mapM:
  "\<forall>x\<in>set xs. runs (f x) (P x) \<Longrightarrow> runs (mapM f xs) (list_all2 P xs)"
  by (induction xs) (auto simp: runs_iff)

lemma fills_other:
  assumes "list_all2 (adjusted type k) cs ds" "\<forall>c\<in>set cs. lc_size type c = n"
  shows "fills (cross type) ds = fills (cross type) cs" "\<forall>c\<in>set ds. int (lc_size type c) = int n + k \<and> lay_ok c"
    "map shape ds = map shape cs"
  using assms by (induction rule: list_all2_induct) (auto simp: adjusted_def reshaped_def)

lemma check_leaf: "lc_type c = LAYOUT_WINDOWPANE \<Longrightarrow> type \<noteq> LAYOUT_WINDOWPANE \<Longrightarrow> layout_resize_check type c = lc_size type c - PANE_MINIMUM"
  by (cases c) (simp add: Let_def)

text \<open>A tree one level down.\<close>

lemma reshapedI:
  assumes "lay_ok (set_cells ds (resized_by type k c))" "map shape ds = map shape (lc_cells c)"
    "lc_size (cross type) (resized_by type k c) = lc_size (cross type) c"
  shows "reshaped type c (set_cells ds (resized_by type k c))"
  using assms by (simp add: reshaped_def shape_eq)

lemma Min_shift:
  assumes "xs \<noteq> []" "list_all2 (\<lambda>x y. int y = int x + k) xs ys"
  shows "int (Min (set ys)) = int (Min (set xs)) + k"
proof -
  have "ys \<noteq> []" using assms by auto
  have both: "(\<forall>y\<in>set ys. \<exists>x\<in>set xs. int y = int x + k) \<and> (\<forall>x\<in>set xs. \<exists>y\<in>set ys. int y = int x + k)"
    using assms(2) by (induction rule: list_all2_induct) auto
  then have ge: "\<And>y. y \<in> set ys \<Longrightarrow> \<exists>x\<in>set xs. int y = int x + k"
    and le: "\<And>x. x \<in> set xs \<Longrightarrow> \<exists>y\<in>set ys. int y = int x + k" by blast+
  obtain y where "y \<in> set ys" "int y = int (Min (set xs)) + k" using le [of "Min (set xs)"] assms(1) by auto
  then have "int (Min (set ys)) \<le> int (Min (set xs)) + k" by (metis List.finite_set Min_le of_nat_le_iff)
  moreover obtain x where "x \<in> set xs" "int (Min (set ys)) = int x + k" using ge [of "Min (set ys)"] \<open>ys \<noteq> []\<close> by auto
  then have "int (Min (set xs)) + k \<le> int (Min (set ys))" by (metis List.finite_set Min_le of_nat_le_iff add_le_cancel_right)
  ultimately show ?thesis by simp
qed

text \<open>
  layout_resize_adjust within its contract: it returns, the tree stays well formed and keeps
  its shape, and the size changes by exactly the given amount.
\<close>

lemma adjust_leaf:
  assumes "type \<noteq> LAYOUT_WINDOWPANE" "can_adjust type k c" "lc_type c = LAYOUT_WINDOWPANE"
  shows "adjusted type k c (resized_by type k c)"
proof -
  have b: "0 \<le> int (lc_size type c) + k" "int (lc_size type c) + k < 4294967296"
    using assms by (auto simp: can_adjust_def check_leaf)
  note sz = resized_by_size [OF assms(1) b]
  have "int (layout_resize_check type (resized_by type k c)) = int (layout_resize_check type c) + k" if "k < 0"
    using that assms sz(1) by (auto simp: can_adjust_def check_leaf)
  then show ?thesis using assms sz by (auto simp: adjusted_def reshaped_def shape_eq lay_ok_leaf can_adjust_def)
qed

lemma adjust_at_ok:
  assumes "type \<noteq> LAYOUT_WINDOWPANE"
  shows "adjuster d type (resize_adjust_at d type)"
proof (induction d)
  case 0
  have "lc_height c \<noteq> 0" for c by (cases c) simp
  then show ?case by (simp add: adjuster_def)
next
  case (Suc d)
  show ?case unfolding adjuster_def
  proof (intro allI impI)
    fix k c
    assume can: "can_adjust type k c" and h: "lc_height c \<le> Suc d"
    let ?c = "resized_by type k c"
    have ok: "lay_ok c" "lc_size type c < SIZE_LIMIT" using can by (auto simp: can_adjust_def)
    have b: "0 \<le> int (lc_size type c) + k" "int (lc_size type c) + k < 4294967296"
      using can check_le [OF ok assms] by (auto simp: can_adjust_def)
    note sz = resized_by_size [OF assms b]
    have hs: "\<forall>e\<in>set (lc_cells c). lc_height e \<le> d" using height_child [of _ c] h by fastforce
    show "runs (resize_adjust_at (Suc d) type k c) (adjusted type k c)"
    proof (cases "lc_type c = LAYOUT_WINDOWPANE")
      case True
      then have "lc_cells c = []" using ok by (simp add: lay_ok_leaf)
      moreover have "set_cells [] ?c = ?c" using calculation by (cases c) simp
      ultimately show ?thesis using True assms adjust_leaf [OF assms can True] by auto
    next
      case node: False
      note ok' = ok(1) [unfolded lay_ok_node [OF node]]
      show ?thesis
      proof (cases "lc_type c = type")
        case True
        have "runs (adjust_loop (resize_adjust_at d type) type k (lc_cells c)) (loop_spec type (lc_cells c) k)"
          using ok' can True hs check_same [OF ok(1) True assms ok(2)]
          by (intro adjust_loop_spec [OF Suc.IH]) (auto simp: can_adjust_def)
        then obtain ds where ds: "adjust_loop (resize_adjust_at d type) type k (lc_cells c) = Some ds"
          "loop_spec type (lc_cells c) k ds" by (auto simp: runs_iff)
        let ?d = "set_cells ds ?c"
        have rs: "list_all2 (reshaped type) (lc_cells c) ds" using ds(2) by (simp add: loop_spec_def)
        have fl: "int (fills type ds) = int (fills type (lc_cells c)) + k" using ds(2) by (simp add: loop_spec_def)
        have "\<forall>e\<in>set (lc_cells c). lc_size (cross type) e = lc_size (cross type) c" using ok' True by simp
        from list_reshaped_ok [OF rs this] have "lay_ok ?d"
          using ok' True node sz fl list_all2_lengthD [OF rs] by (subst lay_ok_node) simp_all
        then have re: "reshaped type c ?d" using sz list_reshaped_shapes [OF rs] by (intro reshapedI) auto
        moreover have "int (layout_resize_check type ?d) = int (layout_resize_check type c) + k" if "k < 0"
        proof -
          have "lc_type ?d = type" "lc_size type ?d < SIZE_LIMIT" using True sz(1) ok(2) that by simp_all
          then show ?thesis using ds(2) that check_same [OF ok(1) True assms ok(2)]
              check_same [OF \<open>lay_ok ?d\<close> _ assms] by (simp add: loop_spec_def)
        qed
        ultimately show ?thesis using ds True assms sz by (simp add: adjusted_def Let_def)
      next
        case False
        then have cr: "lc_type c = cross type" "cross (cross type) = type"
          using node assms by (cases type; cases "lc_type c"; simp)+
        note mn = check_cross [OF ok(1) cr(1) assms ok(2)]
        have ce: "can_adjust type k e" if "e \<in> set (lc_cells c)" for e
        proof -
          have "\<forall>d\<in>set (lc_cells c). lc_size type d = lc_size type c \<and> lay_ok d" using ok' [unfolded cr] by blast
          moreover have "layout_resize_check type c \<le> layout_resize_check type e" using mn(1) that by simp
          ultimately show ?thesis using can that by (auto simp: can_adjust_def)
        qed
        have "runs (mapM (resize_adjust_at d type k) (lc_cells c)) (list_all2 (adjusted type k) (lc_cells c))"
          by (rule runs_mapM) (use ce hs adjusterD [OF Suc.IH] in blast)
        then obtain ds where ds: "mapM (resize_adjust_at d type k) (lc_cells c) = Some ds"
          "list_all2 (adjusted type k) (lc_cells c) ds" by (auto simp: runs_iff)
        let ?d = "set_cells ds ?c"
        have eqs: "\<forall>e\<in>set (lc_cells c). lc_size type e = lc_size type c" using ok' [unfolded cr] by blast
        note fo = fills_other [OF ds(2) eqs]
        have "fills (cross type) (lc_cells c) = lc_size (cross type) c + 1" using ok' [unfolded cr] by blast
        moreover have "\<forall>e\<in>set ds. lc_size type e = lc_size type ?c" using fo(2) sz(1) by (metis of_nat_eq_iff)
        ultimately have "lay_ok ?d" using ok' node cr sz fo list_all2_lengthD [OF ds(2)]
          by (subst lay_ok_node) simp_all
        then have re: "reshaped type c ?d" using sz fo by (intro reshapedI) auto
        moreover have "int (layout_resize_check type ?d) = int (layout_resize_check type c) + k" if "k < 0"
        proof -
          have "list_all2 (\<lambda>x y. int y = int x + k) (map (layout_resize_check type) (lc_cells c)) (map (layout_resize_check type) ds)"
            using ds(2) that by (simp add: list_all2_conv_all_nth adjusted_def)
          then have "int (Min (set (map (layout_resize_check type) ds))) = int (Min (set (map (layout_resize_check type) (lc_cells c)))) + k"
            using mn(2) by (intro Min_shift) auto
          moreover have "lc_size type ?d < SIZE_LIMIT" using sz that ok(2) by auto
          ultimately show ?thesis using mn check_cross [OF \<open>lay_ok ?d\<close> _ assms] cr by simp
        qed
        ultimately show ?thesis using ds False assms sz by (simp add: adjusted_def Let_def)
      qed
    qed
  qed
qed

lemma resize_adjust_ok:
  assumes "type \<noteq> LAYOUT_WINDOWPANE" "can_adjust type k c"
  shows "runs (layout_resize_adjust type k c) (adjusted type k c)"
  unfolding layout_resize_adjust_def using adjusterD [OF adjust_at_ok [OF assms(1)] assms(2) order_refl] .

end
