(* ===== verification/Layout_Ops.thy ===== *)
theory Layout_Ops
  imports Layout_Facts
begin

text \<open>
  The operations on a layout: splitting and closing a pane, resizing a pane and the window.
  Each leaves a well-formed tree, with the cells placed where their sizes put them.
\<close>

section \<open>Placed trees\<close>

fun placed :: "layout_cell \<Rightarrow> bool"
  and placed_in :: "bool \<Rightarrow> nat \<Rightarrow> nat \<Rightarrow> layout_cell list \<Rightarrow> bool" where
  "placed (Cell t sx sy xoff yoff wp cs) = placed_in (t = LAYOUT_LEFTRIGHT) xoff yoff cs"
| "placed_in horiz xoff yoff [] = True"
| "placed_in horiz xoff yoff (c # cs) = (lc_xoff c = xoff \<and> lc_yoff c = yoff \<and> placed c \<and>
     (if horiz then placed_in horiz (xoff + lc_sx c + 1) yoff cs else placed_in horiz xoff (yoff + lc_sy c + 1) cs))"

text \<open>The panes of a tree, from left to right and top to bottom, and its leaves.\<close>

fun cell_panes :: "layout_cell \<Rightarrow> nat option list" where
  "cell_panes (Cell t sx sy xoff yoff wp cs) = (if t = LAYOUT_WINDOWPANE then [wp] else concat (map cell_panes cs))"

fun leaves :: "layout_cell \<Rightarrow> layout_cell list" where
  "leaves (Cell t sx sy xoff yoff wp cs) =
     (if t = LAYOUT_WINDOWPANE then [Cell t sx sy xoff yoff wp cs] else concat (map leaves cs))"

lemma cell_panes_shape [simp]: "cell_panes (shape c) = cell_panes c"
proof (induction c)
  case (Cell t sx sy x y wp cs)
  then have "map (cell_panes \<circ> shape) cs = map cell_panes cs" by simp
  from arg_cong [where f = concat, OF this] show ?case by simp
qed

lemma cell_panes_shape_eq: "shape c = shape d \<Longrightarrow> cell_panes c = cell_panes d"
  by (metis cell_panes_shape)

lemma cell_panes_leaves: "cell_panes c = map lc_wp (leaves c)"
proof (induction c)
  case (Cell t sx sy x y wp cs)
  then have "map cell_panes cs = map (map lc_wp \<circ> leaves) cs" by simp
  from arg_cong [where f = concat, OF this] show ?case by (simp add: map_concat)
qed

lemma map_shape_panes: "map shape as = map shape bs \<Longrightarrow> concat (map cell_panes as) = concat (map cell_panes bs)"
  by (metis cell_panes_shape list.map_comp comp_apply list.map_cong)

section \<open>Paths\<close>

lemma cell_at_append: "cell_at (p @ q) c = Option.bind (cell_at p c) (cell_at q)"
  by (induction p arbitrary: c) (auto split: bind_splits)

lemma sum_list_update:
  fixes f :: "'a \<Rightarrow> nat"
  shows "i < length xs \<Longrightarrow> sum_list (map f (xs[i := x])) + f (xs ! i) = sum_list (map f xs) + f x"
  by (induction xs arbitrary: i) (auto split: nat.split)

lemma fills_update: "i < length cs \<Longrightarrow> fills t (cs[i := c]) + lc_size t (cs ! i) = fills t cs + lc_size t c"
  using sum_list_update [of i cs "\<lambda>c. lc_size t c + 1" c] by (simp add: fills_def)

text \<open>A cell that takes the place of another: as large, and where it is.\<close>

definition fits :: "layout_cell \<Rightarrow> layout_cell \<Rightarrow> bool" where
  "fits c d \<longleftrightarrow> lc_sx d = lc_sx c \<and> lc_sy d = lc_sy c"

definition same_place :: "layout_cell \<Rightarrow> layout_cell \<Rightarrow> bool" where
  "same_place c d \<longleftrightarrow> lc_xoff d = lc_xoff c \<and> lc_yoff d = lc_yoff c"

lemma fits_size: "fits c d \<Longrightarrow> lc_size t d = lc_size t c"
  by (simp add: fits_def lc_size_def)

lemma fits_of_sizes: "t \<noteq> LAYOUT_WINDOWPANE \<Longrightarrow> lc_size t d = lc_size t c \<Longrightarrow> lc_size (cross t) d = lc_size (cross t) c \<Longrightarrow> fits c d"
  by (cases t) (simp_all add: fits_def lc_size_def)

lemma lay_ok_update:
  assumes "lay_ok c" "i < length (lc_cells c)" "lay_ok d" "fits (lc_cells c ! i) d"
  shows "lay_ok (set_cells ((lc_cells c)[i := d]) c)"
proof -
  have node: "lc_type c \<noteq> LAYOUT_WINDOWPANE" using assms lay_ok_leaf by fastforce
  note ok = assms(1) [unfolded lay_ok_node [OF node]]
  have "fills (lc_type c) ((lc_cells c)[i := d]) = fills (lc_type c) (lc_cells c)"
    using fills_update [OF assms(2), of "lc_type c" d] fits_size [OF assms(4)] by simp
  moreover have "\<forall>e\<in>set ((lc_cells c)[i := d]). lc_size (cross (lc_type c)) e = lc_size (cross (lc_type c)) c \<and> lay_ok e"
    using ok assms fits_size [OF assms(4)] by (auto dest!: set_update_subset_insert [THEN subsetD])
  ultimately show ?thesis using ok node by (subst lay_ok_node) simp_all
qed

lemma placed_in_update:
  assumes "placed_in h x y cs" "i < length cs" "placed d" "fits (cs ! i) d" "same_place (cs ! i) d"
  shows "placed_in h x y (cs[i := d])"
  using assms by (induction cs arbitrary: x y i) (auto simp: fits_def same_place_def split: nat.splits)

lemma placed_sel: "placed c \<longleftrightarrow> placed_in (lc_type c = LAYOUT_LEFTRIGHT) (lc_xoff c) (lc_yoff c) (lc_cells c)"
  by (cases c) simp

lemma set_cells_sizes [simp]: "lc_sx (set_cells cs c) = lc_sx c" "lc_sy (set_cells cs c) = lc_sy c"
  by (cases c; simp)+

text \<open>Replacing the cell at a path.\<close>

lemma put_at_ok:
  assumes "lay_ok c" "cell_at p c = Some d" "lay_ok d'" "fits d d'"
  shows "runs (put_at p d' c) (\<lambda>c'. lay_ok c' \<and> fits c c' \<and>
    (p \<noteq> [] \<or> same_place d d' \<longrightarrow> same_place c c') \<and> (placed c \<and> placed d' \<and> same_place d d' \<longrightarrow> placed c') \<and>
    cell_at p c' = Some d')"
  using assms(1,2)
proof (induction p arbitrary: c)
  case Nil
  then show ?case using assms(3,4) by (auto simp: same_place_def)
next
  case (Cons i p)
  obtain e where e: "lget i (lc_cells c) = Some e" "cell_at p e = Some d" using Cons.prems(2) by (auto simp: bind_eq_Some_conv)
  have i: "i < length (lc_cells c)" "lc_cells c ! i = e" using e(1) by (auto simp: lget_def split: if_splits)
  have node: "lc_type c \<noteq> LAYOUT_WINDOWPANE" using Cons.prems(1) i lay_ok_leaf by fastforce
  have "lay_ok e" using Cons.prems(1) [unfolded lay_ok_node [OF node]] i nth_mem by blast
  then obtain e' where e': "put_at p d' e = Some e'" "lay_ok e'" "fits e e'" "cell_at p e' = Some d'"
    "p \<noteq> [] \<or> same_place d d' \<longrightarrow> same_place e e'" "placed e \<and> placed d' \<and> same_place d d' \<longrightarrow> placed e'"
    using Cons.IH [of e] e(2) by (auto simp: runs_iff)
  let ?c = "set_cells ((lc_cells c)[i := e']) c"
  have "put_at (i # p) d' c = Some ?c" using e e' i by (simp add: lput_def)
  moreover have "lay_ok ?c" using lay_ok_update [of c i e'] Cons.prems(1) i e' by simp
  moreover have "placed ?c" if "placed c" "placed d'" "same_place d d'"
  proof -
    have "placed e" using \<open>placed c\<close> i
    proof -
      have "placed_in h x y cs \<Longrightarrow> k < length cs \<Longrightarrow> placed (cs ! k)" for h x y k cs
        by (induction cs arbitrary: k x y) (auto simp: nth_Cons split: nat.splits if_splits)
      then show ?thesis using \<open>placed c\<close> i placed_sel by blast
    qed
    then show ?thesis using that e' i placed_in_update by (auto simp: placed_sel [of c] placed_sel [of ?c])
  qed
  moreover have "fits c ?c" "same_place c ?c" by (simp_all add: fits_def same_place_def)
  moreover have "cell_at (i # p) ?c = Some d'" using i e' by (simp add: lget_def)
  ultimately show ?case by simp
qed

section \<open>Fixing the offsets\<close>

text \<open>Room for a tree at its place: no offset wraps.\<close>

definition in_range :: "layout_cell \<Rightarrow> bool" where
  "in_range c \<longleftrightarrow> lc_xoff c + lc_sx c + 1 < UINT_MOD \<and> lc_yoff c + lc_sy c + 1 < UINT_MOD"

definition fixed :: "layout_cell \<Rightarrow> layout_cell \<Rightarrow> bool" where
  "fixed c d \<longleftrightarrow> lay_ok d \<and> shape d = shape c \<and> fits c d"

lemma set_offsets_sel [simp]:
  "lc_type (set_offsets x y c) = lc_type c" "lc_wp (set_offsets x y c) = lc_wp c" "lc_cells (set_offsets x y c) = lc_cells c"
  "lc_xoff (set_offsets x y c) = x" "lc_yoff (set_offsets x y c) = y" "lc_size t (set_offsets x y c) = lc_size t c"
  "lc_sx (set_offsets x y c) = lc_sx c" "lc_sy (set_offsets x y c) = lc_sy c"
  "shape (set_offsets x y c) = shape c" "lay_ok (set_offsets x y c) = lay_ok c"
  by (cases c; simp)+

lemma fix_children_Cons:
  assumes "lay_ok c"
  shows "fix_children h x y (c # cs) = layout_fix_offsets (set_offsets x y c) #
    (if h then fix_children h (uadd x (uadd (lc_sx c) 1)) y cs else fix_children h x (uadd y (uadd (lc_sy c) 1)) cs)"
  using assms by (cases c) auto

lemma fix_offsets_sel [simp]:
  "lc_type (layout_fix_offsets c) = lc_type c" "lc_wp (layout_fix_offsets c) = lc_wp c"
  "lc_xoff (layout_fix_offsets c) = lc_xoff c" "lc_yoff (layout_fix_offsets c) = lc_yoff c" "lc_size t (layout_fix_offsets c) = lc_size t c"
  "lc_sx (layout_fix_offsets c) = lc_sx c" "lc_sy (layout_fix_offsets c) = lc_sy c"
  "lc_cells (layout_fix_offsets c) = fix_children (lc_type c = LAYOUT_LEFTRIGHT) (lc_xoff c) (lc_yoff c) (lc_cells c)"
  by (cases c; simp)+

definition range_in :: "bool \<Rightarrow> nat \<Rightarrow> nat \<Rightarrow> layout_cell list \<Rightarrow> bool" where
  "range_in h x y cs \<longleftrightarrow>
     (if h then x + fills LAYOUT_LEFTRIGHT cs < UINT_MOD \<and> (\<forall>c\<in>set cs. y + lc_sy c + 1 < UINT_MOD)
      else y + fills LAYOUT_TOPBOTTOM cs < UINT_MOD \<and> (\<forall>c\<in>set cs. x + lc_sx c + 1 < UINT_MOD))"

lemma range_in_node:
  assumes "lay_ok c" "in_range c" "lc_type c \<noteq> LAYOUT_WINDOWPANE"
  shows "range_in (lc_type c = LAYOUT_LEFTRIGHT) (lc_xoff c) (lc_yoff c) (lc_cells c)"
  using assms(1) [unfolded lay_ok_node [OF assms(3)]] assms(2,3)
  by (cases "lc_type c") (auto simp: in_range_def range_in_def lc_size_def)

lemma range_in_Cons:
  assumes "range_in h x y (c # cs)"
  shows "in_range (set_offsets x y c)" "h \<Longrightarrow> uadd x (uadd (lc_sx c) 1) = x + lc_sx c + 1"
    "\<not> h \<Longrightarrow> uadd y (uadd (lc_sy c) 1) = y + lc_sy c + 1"
    "h \<Longrightarrow> range_in h (x + lc_sx c + 1) y cs" "\<not> h \<Longrightarrow> range_in h x (y + lc_sy c + 1) cs"
  using assms by (auto simp: range_in_def in_range_def uadd_eq lc_size_def split: if_splits)

lemma fix_children_ok:
  assumes "\<And>c x y. c \<in> set cs \<Longrightarrow> lay_ok c \<Longrightarrow> in_range (set_offsets x y c) \<Longrightarrow>
      placed (layout_fix_offsets (set_offsets x y c)) \<and> fixed c (layout_fix_offsets (set_offsets x y c))"
    and "\<forall>c\<in>set cs. lay_ok c" "range_in h x y cs"
  shows "placed_in h x y (fix_children h x y cs) \<and> list_all2 fixed cs (fix_children h x y cs)"
  using assms
proof (induction cs arbitrary: x y)
  case Nil
  then show ?case by simp
next
  case (Cons c cs)
  note r = range_in_Cons [OF Cons.prems(3)]
  have "placed (layout_fix_offsets (set_offsets x y c)) \<and> fixed c (layout_fix_offsets (set_offsets x y c))"
    using Cons.prems(1) [of c x y] Cons.prems(2) r(1) by simp
  moreover have "placed_in h x' y' (fix_children h x' y' cs) \<and> list_all2 fixed cs (fix_children h x' y' cs)"
    if "range_in h x' y' cs" for x' y'
    using that Cons.prems(2) by (intro Cons.IH Cons.prems(1)) auto
  ultimately show ?case using Cons.prems(2) r(2-) by (cases h) (simp_all add: fix_children_Cons)
qed

lemma fixed_list:
  assumes "list_all2 fixed cs ds"
  shows "fills t ds = fills t cs" "\<forall>c\<in>set cs. lc_size u c = n \<Longrightarrow> \<forall>d\<in>set ds. lc_size u d = n \<and> lay_ok d"
    "map shape ds = map shape cs" "length ds = length cs"
  using assms by (induction rule: list_all2_induct) (auto simp: fixed_def fits_size)

lemma fix_offsets_ok:
  "lay_ok c \<Longrightarrow> in_range c \<Longrightarrow> placed (layout_fix_offsets c) \<and> fixed c (layout_fix_offsets c)"
proof (induction "lc_height c" arbitrary: c rule: less_induct)
  case less
  show ?case
  proof (cases "lc_type c = LAYOUT_WINDOWPANE")
    case True
    then have "lc_cells c = []" using less.prems lay_ok_leaf by blast
    then have "layout_fix_offsets c = c" by (cases c) simp
    then show ?thesis using less.prems \<open>lc_cells c = []\<close> by (simp add: fixed_def fits_def placed_sel)
  next
    case False
    note ok = less.prems(1) [unfolded lay_ok_node [OF False]]
    let ?ds = "fix_children (lc_type c = LAYOUT_LEFTRIGHT) (lc_xoff c) (lc_yoff c) (lc_cells c)"
    have "placed_in (lc_type c = LAYOUT_LEFTRIGHT) (lc_xoff c) (lc_yoff c) ?ds \<and> list_all2 fixed (lc_cells c) ?ds"
    proof (rule fix_children_ok)
      show "placed (layout_fix_offsets (set_offsets x y d)) \<and> fixed d (layout_fix_offsets (set_offsets x y d))"
        if "d \<in> set (lc_cells c)" "lay_ok d" "in_range (set_offsets x y d)" for d x y
      proof -
        have "lc_height (set_offsets x y d) < lc_height c"
          using height_child [OF that(1)] height_shape_eq [of "set_offsets x y d" d] by simp
        then show ?thesis using less.hyps [of "set_offsets x y d"] that by (simp add: fixed_def fits_def)
      qed
    qed (use ok range_in_node [OF less.prems False] in auto)
    then have pl: "placed (layout_fix_offsets c)" and l: "list_all2 fixed (lc_cells c) ?ds"
      by (simp_all add: placed_sel [of "layout_fix_offsets c"])
    have "lay_ok (layout_fix_offsets c)"
    proof (subst lay_ok_node)
      have "\<forall>d\<in>set ?ds. lc_size (cross (lc_type c)) d = lc_size (cross (lc_type c)) c \<and> lay_ok d"
        using ok by (intro fixed_list(2) [OF l]) blast
      then show "lc_wp (layout_fix_offsets c) = None \<and> 2 \<le> length (lc_cells (layout_fix_offsets c)) \<and>
        fills (lc_type (layout_fix_offsets c)) (lc_cells (layout_fix_offsets c)) = lc_size (lc_type (layout_fix_offsets c)) (layout_fix_offsets c) + 1 \<and>
        (\<forall>d\<in>set (lc_cells (layout_fix_offsets c)). lc_size (cross (lc_type (layout_fix_offsets c))) d =
           lc_size (cross (lc_type (layout_fix_offsets c))) (layout_fix_offsets c) \<and> lay_ok d)"
        using ok fixed_list(1,4) [OF l] by simp
    qed (simp add: False)
    then show ?thesis using pl fixed_list(3) [OF l] by (simp add: fixed_def fits_def shape_eq)
  qed
qed

section \<open>The panes tile the window\<close>

text \<open>A position is covered by a cell if it is in it, or on the border to its right or below it.\<close>

definition covered :: "nat \<Rightarrow> nat \<Rightarrow> layout_cell \<Rightarrow> bool" where
  "covered px py c \<longleftrightarrow> lc_xoff c \<le> px \<and> px \<le> lc_xoff c + lc_sx c \<and> lc_yoff c \<le> py \<and> py \<le> lc_yoff c + lc_sy c"

definition cover_count :: "nat \<Rightarrow> nat \<Rightarrow> layout_cell \<Rightarrow> nat" where
  "cover_count px py c = length (filter (covered px py) (leaves c))"

lemma cover_count_leaf: "lc_type c = LAYOUT_WINDOWPANE \<Longrightarrow> cover_count px py c = (if covered px py c then 1 else 0)"
  by (cases c) (simp add: cover_count_def)

lemma cover_count_node: "lc_type c \<noteq> LAYOUT_WINDOWPANE \<Longrightarrow> cover_count px py c = sum_list (map (cover_count px py) (lc_cells c))"
proof (cases c)
  case (Cell t sx sy x y wp cs)
  have "length (filter f (concat (map leaves cs))) = sum_list (map (\<lambda>c. length (filter f (leaves c))) cs)" for f
    by (induction cs) simp_all
  then show "lc_type c \<noteq> LAYOUT_WINDOWPANE \<Longrightarrow> ?thesis" using Cell by (simp add: cover_count_def [abs_def])
qed

lemma cover_row:
  assumes "placed_in True x y cs" "\<forall>c\<in>set cs. lc_sy c = n" "\<forall>c\<in>set cs. cover_count px py c = (if covered px py c then 1 else 0)"
  shows "sum_list (map (cover_count px py) cs) = (if x \<le> px \<and> px < x + fills LAYOUT_LEFTRIGHT cs \<and> y \<le> py \<and> py \<le> y + n then 1 else 0)"
  using assms
proof (induction cs arbitrary: x)
  case (Cons c cs)
  then show ?case using Cons.IH [of "x + lc_sx c + 1"] by (auto simp: covered_def lc_size_def simp del: sum_list_eq_0_iff)
qed simp

lemma cover_column:
  assumes "placed_in False x y cs" "\<forall>c\<in>set cs. lc_sx c = n" "\<forall>c\<in>set cs. cover_count px py c = (if covered px py c then 1 else 0)"
  shows "sum_list (map (cover_count px py) cs) = (if y \<le> py \<and> py < y + fills LAYOUT_TOPBOTTOM cs \<and> x \<le> px \<and> px \<le> x + n then 1 else 0)"
  using assms
proof (induction cs arbitrary: y)
  case (Cons c cs)
  then show ?case using Cons.IH [of "y + lc_sy c + 1"] by (auto simp: covered_def lc_size_def simp del: sum_list_eq_0_iff)
qed simp

lemma placed_in_each: "placed_in h x y cs \<Longrightarrow> c \<in> set cs \<Longrightarrow> placed c"
  by (induction cs arbitrary: x y) (auto split: if_splits)

lemma tiles_exactly: "lay_ok c \<Longrightarrow> placed c \<Longrightarrow> cover_count px py c = (if covered px py c then 1 else 0)"
proof (induction "lc_height c" arbitrary: c rule: less_induct)
  case less
  show ?case
  proof (cases "lc_type c = LAYOUT_WINDOWPANE")
    case True
    then show ?thesis by (rule cover_count_leaf)
  next
    case False
    note ok = less.prems(1) [unfolded lay_ok_node [OF False]]
    have pl: "placed_in (lc_type c = LAYOUT_LEFTRIGHT) (lc_xoff c) (lc_yoff c) (lc_cells c)"
      using less.prems(2) by (simp add: placed_sel)
    have each: "\<forall>d\<in>set (lc_cells c). cover_count px py d = (if covered px py d then 1 else 0)"
      using less.hyps height_child [of _ c] ok placed_in_each [OF pl] by blast
    show ?thesis
    proof (cases "lc_type c = LAYOUT_LEFTRIGHT")
      case True
      have "\<forall>d\<in>set (lc_cells c). lc_sy d = lc_sy c" using ok True by (simp add: lc_size_def)
      from cover_row [OF _ this each] show ?thesis
        using pl ok True cover_count_node [OF False] by (auto simp: covered_def lc_size_def)
    next
      case tb: False
      then have t: "lc_type c = LAYOUT_TOPBOTTOM" using False by (cases "lc_type c") auto
      have "\<forall>d\<in>set (lc_cells c). lc_sx d = lc_sx c" using ok t by (simp add: lc_size_def)
      from cover_column [OF _ this each] show ?thesis
        using pl ok t cover_count_node [OF False] by (auto simp: covered_def lc_size_def)
    qed
  qed
qed

section \<open>Cells and panes at a path\<close>

lemma lget_SomeD: "lget i xs = Some x \<Longrightarrow> i < length xs \<and> xs ! i = x"
  by (simp add: lget_def split: if_splits)

lemma lay_ok_child:
  assumes "lay_ok c" "d \<in> set (lc_cells c)"
  shows "lay_ok d" "lc_sx d \<le> lc_sx c" "lc_sy d \<le> lc_sy c" "lc_type c \<noteq> LAYOUT_WINDOWPANE"
proof -
  show node: "lc_type c \<noteq> LAYOUT_WINDOWPANE" using assms lay_ok_leaf by fastforce
  note ok = assms(1) [unfolded lay_ok_node [OF node]]
  show "lay_ok d" using ok assms(2) by blast
  have "lc_size (lc_type c) d \<le> lc_size (lc_type c) c" using fills_bounds [OF assms(2), of "lc_type c"] ok by simp
  moreover have "lc_size (cross (lc_type c)) d = lc_size (cross (lc_type c)) c" using ok assms(2) by blast
  ultimately show "lc_sx d \<le> lc_sx c" "lc_sy d \<le> lc_sy c" using node by (cases "lc_type c"; simp add: lc_size_def)+
qed

lemma cell_at_ok:
  "lay_ok c \<Longrightarrow> cell_at p c = Some d \<Longrightarrow> lay_ok d \<and> lc_sx d \<le> lc_sx c \<and> lc_sy d \<le> lc_sy c"
proof (induction p arbitrary: c)
  case (Cons i p)
  then obtain e where e: "lget i (lc_cells c) = Some e" "cell_at p e = Some d" by (auto simp: bind_eq_Some_conv)
  have "e \<in> set (lc_cells c)" using lget_SomeD [OF e(1)] nth_mem by blast
  then show ?case using Cons.IH [OF _ e(2)] lay_ok_child [OF Cons.prems(1)] by (meson order_trans)
qed simp

lemma concat_at: "i < length xs \<Longrightarrow> concat (map f xs) = concat (map f (take i xs)) @ f (xs ! i) @ concat (map f (drop (Suc i) xs))"
  by (metis append.assoc concat.simps(2) concat_append id_take_nth_drop list.simps(9) map_append)

lemma concat_update:
  "i < length xs \<Longrightarrow> concat (map f (xs[i := y])) = concat (map f (take i xs)) @ f y @ concat (map f (drop (Suc i) xs))"
  by (simp add: upd_conv_take_nth_drop)

lemma cell_panes_sel: "cell_panes c = (if lc_type c = LAYOUT_WINDOWPANE then [lc_wp c] else concat (map cell_panes (lc_cells c)))"
  by (cases c) simp

lemma panes_at:
  "lay_ok c \<Longrightarrow> cell_at p c = Some d \<Longrightarrow> \<exists>as bs. cell_panes c = as @ cell_panes d @ bs \<and>
     (\<forall>d' c'. put_at p d' c = Some c' \<longrightarrow> cell_panes c' = as @ cell_panes d' @ bs)"
proof (induction p arbitrary: c)
  case Nil
  then show ?case by (intro exI [of _ "[]"]) simp
next
  case (Cons i p)
  then obtain e where e: "lget i (lc_cells c) = Some e" "cell_at p e = Some d" by (auto simp: bind_eq_Some_conv)
  note i = lget_SomeD [OF e(1)]
  have mem: "e \<in> set (lc_cells c)" using i nth_mem by blast
  obtain as bs where ab: "cell_panes e = as @ cell_panes d @ bs"
    "\<And>d' e'. put_at p d' e = Some e' \<Longrightarrow> cell_panes e' = as @ cell_panes d' @ bs"
    using Cons.IH [OF lay_ok_child(1) [OF Cons.prems(1) mem] e(2)] by blast
  let ?as = "concat (map cell_panes (take i (lc_cells c))) @ as" and ?bs = "bs @ concat (map cell_panes (drop (Suc i) (lc_cells c)))"
  have node: "lc_type c \<noteq> LAYOUT_WINDOWPANE" using lay_ok_child(4) [OF Cons.prems(1) mem] .
  have "cell_panes c = ?as @ cell_panes d @ ?bs"
    using node i ab(1) concat_at [of i "lc_cells c" cell_panes] by (simp add: cell_panes_sel [of c])
  moreover have "cell_panes c' = ?as @ cell_panes d' @ ?bs" if put: "put_at (i # p) d' c = Some c'" for d' c'
  proof -
    obtain e' where e': "put_at p d' e = Some e'" "c' = set_cells ((lc_cells c)[i := e']) c"
      using put e(1) i by (auto simp: bind_eq_Some_conv lput_def split: if_splits)
    show ?thesis using node i ab(2) [OF e'(1)] concat_update [of i "lc_cells c" cell_panes e'] e'(2)
      by (simp add: cell_panes_sel [of "set_cells ((lc_cells c)[i := e']) c"])
  qed
  ultimately show ?case by blast
qed

lemma pane_path_at:
  "pane_path wp c = Some p \<Longrightarrow> lay_ok c \<Longrightarrow> \<exists>d. cell_at p c = Some d \<and> lc_wp d = Some wp \<and> lc_type d = LAYOUT_WINDOWPANE"
  "pane_path_in wp i cs = Some p \<Longrightarrow> \<forall>c\<in>set cs. lay_ok c \<Longrightarrow>
     \<exists>j q. p = (i + j) # q \<and> j < length cs \<and> (\<exists>d. cell_at q (cs ! j) = Some d \<and> lc_wp d = Some wp \<and> lc_type d = LAYOUT_WINDOWPANE)"
proof (induction wp c and wp i cs arbitrary: p and p rule: pane_path_pane_path_in.induct)
  case (1 wp t sx sy x y w cs)
  show ?case
  proof (cases "w = Some wp")
    case True
    then show ?thesis using "1.prems" by (auto split: if_splits)
  next
    case False
    then have p: "pane_path_in wp 0 cs = Some p" using "1.prems"(1) by simp
    then have "cs \<noteq> []" by auto
    then have "\<forall>c\<in>set cs. lay_ok c" using "1.prems"(2) by (auto split: if_splits)
    then show ?thesis using "1.IH" [OF False p] by (auto simp: lget_def)
  qed
next
  case (2 wp i)
  then show ?case by simp
next
  case (3 wp i c cs)
  show ?case
  proof (cases "pane_path wp c")
    case None
    then have p: "pane_path_in wp (i + 1) cs = Some p" using "3.prems"(1) by simp
    from "3.IH"(2) [OF None p] "3.prems"(2) obtain j q d where
      "p = (i + 1 + j) # q" "j < length cs" "cell_at q (cs ! j) = Some d" "lc_wp d = Some wp" "lc_type d = LAYOUT_WINDOWPANE" by auto
    then show ?thesis by (intro exI [of _ "Suc j"] exI [of _ q]) auto
  next
    case (Some q)
    then show ?thesis using "3.IH"(1) [OF Some] "3.prems" by (intro exI [of _ 0] exI [of _ q]) auto
  qed
qed

lemma pane_path_exists:
  "Some wp \<in> set (cell_panes c) \<Longrightarrow> pane_path wp c \<noteq> None"
  "\<exists>c\<in>set cs. Some wp \<in> set (cell_panes c) \<Longrightarrow> pane_path_in wp i cs \<noteq> None"
proof (induction wp c and wp i cs rule: pane_path_pane_path_in.induct)
  case (3 wp i c cs)
  then show ?case by (cases "pane_path wp c") auto
qed (auto split: if_splits)

end
