(* ===== verification/Layout_Window.thy ===== *)
theory Layout_Window
  imports Layout_Ops
begin

text \<open>
  The layout of a window through its operations: each keeps the tree well formed and placed,
  and its leaves the panes of the window. The properties at the end are about every layout
  that splitting, closing and resizing can reach.
\<close>

section \<open>Destroying a cell\<close>

lemma fills_two:
  assumes "i < length cs" "j < length cs" "i \<noteq> j"
  shows "lc_size t (cs ! i) + lc_size t (cs ! j) + 2 \<le> fills t cs"
  using assms
proof (induction cs arbitrary: i j)
  case (Cons c cs)
  then show ?case using fills_bounds [of _ cs t]
    by (cases i; cases j) (fastforce simp: nth_mem Suc_le_eq)+
qed simp

lemma remove_nth_facts:
  assumes "i < length xs"
  shows "length (remove_nth i xs) = length xs - 1" "set (remove_nth i xs) \<subseteq> set xs"
    "sum_list (map (f :: 'a \<Rightarrow> nat) (remove_nth i xs)) + f (xs ! i) = sum_list (map f xs)"
    "concat (map g xs) = concat (map g (take i xs)) @ g (xs ! i) @ concat (map g (drop (Suc i) xs))"
    "concat (map g (remove_nth i xs)) = concat (map g (take i xs)) @ concat (map g (drop (Suc i) xs))"
proof -
  show "set (remove_nth i xs) \<subseteq> set xs" using set_take_subset set_drop_subset by (fastforce simp: remove_nth_def)
  have "xs = take i xs @ xs ! i # drop (Suc i) xs" using assms by (simp add: id_take_nth_drop)
  then have "sum_list (map f xs) = sum_list (map f (take i xs @ xs ! i # drop (Suc i) xs))" by simp
  then show "sum_list (map f (remove_nth i xs)) + f (xs ! i) = sum_list (map f xs)" by (simp add: remove_nth_def)
qed (use assms in \<open>simp_all add: remove_nth_def concat_at\<close>)

lemma fills_remove: "i < length cs \<Longrightarrow> fills t (remove_nth i cs) + (lc_size t (cs ! i) + 1) = fills t cs"
  unfolding fills_def by (rule remove_nth_facts(3))

text \<open>The children of a container after one has given its space to a neighbour.\<close>

lemma close_children:
  assumes "lay_ok c" "lc_type c = t" "t \<noteq> LAYOUT_WINDOWPANE" "lc_size t c < SIZE_LIMIT"
    and "i < length (lc_cells c)" "j < length (lc_cells c)" "i \<noteq> j"
    and "k = int (lc_size t (lc_cells c ! i)) + 1"
  shows "runs (layout_resize_adjust t k (lc_cells c ! j)) (\<lambda>d.
    let cs = remove_nth i ((lc_cells c)[j := d]) in
      length cs = length (lc_cells c) - 1 \<and> fills t cs = lc_size t c + 1 \<and>
      (\<forall>e\<in>set cs. lc_size (cross t) e = lc_size (cross t) c \<and> lay_ok e) \<and>
      concat (map cell_panes cs) = concat (map cell_panes (take i (lc_cells c))) @ concat (map cell_panes (drop (Suc i) (lc_cells c))))"
proof -
  have node: "lc_type c \<noteq> LAYOUT_WINDOWPANE" using assms by simp
  note ok = assms(1) [unfolded lay_ok_node [OF node] assms(2)]
  let ?o = "lc_cells c ! j"
  have o: "lay_ok ?o" "lc_size (cross t) ?o = lc_size (cross t) c" using ok assms(6) nth_mem by blast+
  have "can_adjust t k ?o" using fills_two [OF assms(5,6,7), of t] ok o assms(4,8) by (simp add: can_adjust_def)
  then have "runs (layout_resize_adjust t k ?o) (adjusted t k ?o)" by (rule resize_adjust_ok [OF assms(3)])
  then show ?thesis
  proof (rule runs_mono)
    fix d assume "adjusted t k ?o d"
    then have d: "lay_ok d" "shape d = shape ?o" "lc_size (cross t) d = lc_size (cross t) ?o" "lc_size t d = lc_size t ?o + lc_size t (lc_cells c ! i) + 1"
      using assms(8) by (auto simp: adjusted_def reshaped_def)
    let ?ds = "(lc_cells c)[j := d]"
    have i: "i < length ?ds" "?ds ! i = lc_cells c ! i" using assms by simp_all
    have "fills t ?ds = fills t (lc_cells c) + lc_size t (lc_cells c ! i) + 1"
      using fills_update [OF assms(6), of t d] d(4) by simp
    then have "fills t (remove_nth i ?ds) = lc_size t c + 1" using fills_remove [OF i(1), of t] i(2) ok by simp
    moreover have "\<forall>e\<in>set (remove_nth i ?ds). lc_size (cross t) e = lc_size (cross t) c \<and> lay_ok e"
    proof
      fix e assume "e \<in> set (remove_nth i ?ds)"
      then have "e \<in> set ?ds" using remove_nth_facts(2) [OF i(1)] by (rule rev_subsetD)
      then have "e = d \<or> e \<in> set (lc_cells c)" using set_update_subset_insert [of "lc_cells c" j d] by auto
      then show "lc_size (cross t) e = lc_size (cross t) c \<and> lay_ok e" using ok d o by auto
    qed
    moreover have "map cell_panes ?ds = map cell_panes (lc_cells c)"
      using cell_panes_shape_eq [OF d(2)] assms(6) by (metis map_update nth_map list_update_id)
    then have "concat (map cell_panes (remove_nth i ?ds)) = concat (map cell_panes (take i (lc_cells c))) @ concat (map cell_panes (drop (Suc i) (lc_cells c)))"
      using remove_nth_facts(5) [OF i(1), of cell_panes] by (simp add: take_map [symmetric] drop_map [symmetric])
    ultimately show "let cs = remove_nth i ?ds in length cs = length (lc_cells c) - 1 \<and> fills t cs = lc_size t c + 1 \<and>
      (\<forall>e\<in>set cs. lc_size (cross t) e = lc_size (cross t) c \<and> lay_ok e) \<and>
      concat (map cell_panes cs) = concat (map cell_panes (take i (lc_cells c))) @ concat (map cell_panes (drop (Suc i) (lc_cells c)))"
      using remove_nth_facts(1) [OF i(1)] by (simp add: Let_def)
  qed
qed

lemma at_origin: "lc_xoff c = 0 \<and> lc_yoff c = 0 \<longleftrightarrow> set_offsets 0 0 c = c"
  by (cases c) auto

lemma int_of_u_small: "n < SIZE_LIMIT \<Longrightarrow> int_of_u n = int n"
  by (simp add: int_of_u_def)

lemma lc_size_limit: "lc_sx c < n \<Longrightarrow> lc_sy c < n \<Longrightarrow> lc_size t c < n"
  by (simp add: lc_size_def)

lemma destroy_ok:
  assumes "lay_ok root" "lc_sx root < SIZE_LIMIT" "lc_sy root < SIZE_LIMIT" "cell_at p root = Some lc" "p \<noteq> []"
  shows "runs (layout_destroy_cell p root) (\<lambda>r. \<exists>c as bs. r = Some c \<and> lay_ok c \<and> fits root c \<and>
    (lc_xoff root = 0 \<and> lc_yoff root = 0 \<longrightarrow> lc_xoff c = 0 \<and> lc_yoff c = 0) \<and>
    cell_panes root = as @ cell_panes lc @ bs \<and> cell_panes c = as @ bs)"
proof -
  define q where "q = butlast p"
  define i where "i = last p"
  have p: "p = q @ [i]" using assms(5) by (simp add: q_def i_def)
  obtain par where par: "cell_at q root = Some par" "lget i (lc_cells par) = Some lc"
    using assms(4) unfolding p by (auto simp: cell_at_append bind_eq_Some_conv)
  note i = lget_SomeD [OF par(2)]
  note parok = cell_at_ok [OF assms(1) par(1)]
  define t where "t = lc_type par"
  have mem: "lc \<in> set (lc_cells par)" using i nth_mem by blast
  have node: "t \<noteq> LAYOUT_WINDOWPANE" using lay_ok_child(4) [of par lc] parok mem by (simp add: t_def)
  note ok = parok [THEN conjunct1, unfolded lay_ok_node [OF node [unfolded t_def]], folded t_def]
  define j where "j = (if i = 0 then 1 else i - 1)"
  have j: "j < length (lc_cells par)" "i \<noteq> j" using i ok by (auto simp: j_def)
  have lim: "lc_size t par < SIZE_LIMIT" using parok assms(2,3) by (intro lc_size_limit) auto
  have room: "(if t = LAYOUT_LEFTRIGHT then lc_sx lc else lc_sy lc) = lc_size t lc" by (simp add: lc_size_def)
  have "lc_size t lc < lc_size t par" using fills_two [OF _ j(1,2), of t] i ok by simp
  then have k: "int_of_u (uadd (lc_size t lc) 1) = int (lc_size t (lc_cells par ! i)) + 1"
    using lim i by (simp add: uadd_eq int_of_u_small)
  obtain d where d: "layout_resize_adjust t (int_of_u (uadd (lc_size t lc) 1)) (lc_cells par ! j) = Some d"
    "length (remove_nth i ((lc_cells par)[j := d])) = length (lc_cells par) - 1"
    "fills t (remove_nth i ((lc_cells par)[j := d])) = lc_size t par + 1"
    "\<forall>e\<in>set (remove_nth i ((lc_cells par)[j := d])). lc_size (cross t) e = lc_size (cross t) par \<and> lay_ok e"
    "concat (map cell_panes (remove_nth i ((lc_cells par)[j := d]))) =
       concat (map cell_panes (take i (lc_cells par))) @ concat (map cell_panes (drop (Suc i) (lc_cells par)))"
    using close_children [of par t i j, OF _ _ node lim _ j] parok i k by (auto simp: t_def Let_def runs_iff)
  define cs where "cs = remove_nth i ((lc_cells par)[j := d])"
  note d = d [folded cs_def]
  define new where "new = (case cs of [e] \<Rightarrow> e | _ \<Rightarrow> set_cells cs par)"
  have new: "lay_ok new \<and> fits par new \<and> cell_panes new = concat (map cell_panes cs)"
  proof (cases "\<exists>e. cs = [e]")
    case True
    then obtain e where e: "cs = [e]" by blast
    have "fits par e" using d(3,4) node by (intro fits_of_sizes [of t]) (auto simp: e)
    then show ?thesis using d(4) by (simp add: new_def e)
  next
    case False
    have "length cs \<noteq> 1" using False by (auto simp: length_Suc_conv)
    then have two: "2 \<le> length cs" using d(2) ok by linarith
    have n: "new = set_cells cs par" using False by (auto simp: new_def split: list.split)
    have "lay_ok new" unfolding n using d(3,4) ok two node
      by (subst lay_ok_node) (simp_all add: t_def)
    then show ?thesis using node by (simp add: n fits_def cell_panes_sel [of "set_cells cs par"] t_def)
  qed
  obtain as bs where ab: "cell_panes root = as @ cell_panes par @ bs"
    "\<And>d' c'. put_at q d' root = Some c' \<Longrightarrow> cell_panes c' = as @ cell_panes d' @ bs"
    using panes_at [OF assms(1) par(1)] by blast
  let ?as = "as @ concat (map cell_panes (take i (lc_cells par)))" and ?bs = "concat (map cell_panes (drop (Suc i) (lc_cells par))) @ bs"
  have lc: "cell_panes root = ?as @ cell_panes lc @ ?bs"
    using ab(1) node i concat_at [of i "lc_cells par" cell_panes] by (simp add: cell_panes_sel [of par] t_def)
  obtain c where c: "put_at q new root = Some c" "lay_ok c" "fits root c" "q \<noteq> [] \<Longrightarrow> same_place root c"
    using put_at_ok [OF assms(1) par(1), of new] new by (auto simp: runs_iff)
  have panes: "cell_panes c = ?as @ ?bs" using ab(2) [OF c(1)] new d(5) by simp
  have step: "layout_destroy_cell p root = (case cs of
      [e] \<Rightarrow> if q = [] then Some (Some (set_offsets 0 0 e)) else map_option Some (put_at q e root)
    | _ \<Rightarrow> map_option Some (put_at q (set_cells cs par) root))"
    using assms(5) par d(1) i j
    by (cases "i = 0") (simp_all add: layout_destroy_cell_def q_def [symmetric] i_def [symmetric] t_def [symmetric] j_def room cs_def lget_def Let_def cong del: list.case_cong_weak)
  have final: ?thesis if "layout_destroy_cell p root = Some (Some c')" "lay_ok c'" "fits root c'"
    "lc_xoff root = 0 \<and> lc_yoff root = 0 \<longrightarrow> lc_xoff c' = 0 \<and> lc_yoff c' = 0" "cell_panes c' = ?as @ ?bs" for c'
    unfolding that(1) runs_Some
    by (rule exI [of _ c'], rule exI [of _ ?as], rule exI [of _ ?bs]) (use that lc in simp)
  show ?thesis
  proof (cases "q = [] \<and> (\<exists>e. cs = [e])")
    case True
    then obtain e where e: "cs = [e]" "c = e" using c(1) by (auto simp: new_def)
    have "layout_destroy_cell p root = Some (Some (set_offsets 0 0 c))" using step True e by simp
    moreover have "cell_panes (set_offsets 0 0 c) = cell_panes c" by (rule cell_panes_shape_eq) simp
    ultimately show ?thesis using c(2,3) panes by (intro final) (simp_all add: fits_def)
  next
    case False
    then have "layout_destroy_cell p root = Some (Some c)" using step c(1) by (auto simp: new_def split: list.splits)
    moreover have "same_place root c"
    proof (cases "q = []")
      case True
      then have "c = set_cells cs root" using False c(1) par(1) by (auto simp: new_def split: list.splits)
      then show ?thesis by (simp add: same_place_def)
    qed (rule c(4))
    ultimately show ?thesis using c(2,3) panes by (intro final) (simp_all add: same_place_def)
  qed
qed

section \<open>Resizing a pane\<close>

definition siblings :: "layout_type \<Rightarrow> nat \<Rightarrow> layout_cell list \<Rightarrow> bool" where
  "siblings t n cs \<longleftrightarrow> (\<forall>c\<in>set cs. lay_ok c \<and> lc_size (cross t) c = n) \<and> fills t cs \<le> SIZE_LIMIT"

definition shared_out :: "layout_type \<Rightarrow> layout_cell list \<Rightarrow> layout_cell list \<Rightarrow> bool" where
  "shared_out t cs ds \<longleftrightarrow> list_all2 (reshaped t) cs ds \<and> fills t ds = fills t cs"

lemma shared_out_refl: "siblings t n cs \<Longrightarrow> shared_out t cs cs"
  by (auto simp: siblings_def shared_out_def list_all2_same reshaped_refl)

lemma shared_out_trans: "shared_out t as bs \<Longrightarrow> shared_out t bs cs \<Longrightarrow> shared_out t as cs"
  using list_reshaped_trans by (auto simp: shared_out_def)

lemma shared_out_siblings: "siblings t n cs \<Longrightarrow> shared_out t cs ds \<Longrightarrow> siblings t n ds \<and> length ds = length cs"
  using list_reshaped_ok [of t cs ds n] list_all2_lengthD [of "reshaped t" cs ds]
  by (auto simp: siblings_def shared_out_def)

lemma reshaped_update:
  assumes "siblings t n cs" "i < length cs" "reshaped t (cs ! i) d"
  shows "list_all2 (reshaped t) cs (cs[i := d])"
  using assms by (auto simp: list_all2_conv_all_nth nth_list_update siblings_def reshaped_refl)

lemma move_size_ok:
  assumes "siblings t n cs" "t \<noteq> LAYOUT_WINDOWPANE" "a < length cs" "r < length cs" "a \<noteq> r"
    and "sz \<le> layout_resize_check t (cs ! r)"
  shows "runs (move_size t a r sz cs) (shared_out t cs)"
proof -
  have ok: "lay_ok (cs ! a)" "lay_ok (cs ! r)" using assms(1,3,4) nth_mem by (auto simp: siblings_def)
  have two: "lc_size t (cs ! a) + lc_size t (cs ! r) + 2 \<le> SIZE_LIMIT"
    using fills_two [OF assms(3,4,5), of t] assms(1) by (simp add: siblings_def)
  have ck: "sz \<le> lc_size t (cs ! r)" using check_le [OF ok(2), of t] two assms(2,6) by simp
  then have io: "int_of_u sz = int sz" using two by (intro int_of_u_small) simp
  have "can_adjust t (int sz) (cs ! a)" using ok two ck by (simp add: can_adjust_def)
  then obtain d where d: "layout_resize_adjust t (int sz) (cs ! a) = Some d" "adjusted t (int sz) (cs ! a) d"
    using resize_adjust_ok [OF assms(2)] by (auto simp: runs_iff)
  have "can_adjust t (- int sz) (cs ! r)" using ok two assms(6) by (auto simp: can_adjust_def)
  then obtain e where e: "layout_resize_adjust t (- int sz) (cs ! r) = Some e" "adjusted t (- int sz) (cs ! r) e"
    using resize_adjust_ok [OF assms(2)] by (auto simp: runs_iff)
  have mv: "move_size t a r sz cs = Some (cs[a := d, r := e])"
    using assms(3-5) d(1) e(1) by (simp add: move_size_def io lget_def lput_def)
  have one: "list_all2 (reshaped t) cs (cs[a := d])"
    by (rule reshaped_update [OF assms(1,3)]) (use d in \<open>simp add: adjusted_def\<close>)
  have "fills t (cs[a := d]) = fills t cs + sz" using fills_update [OF assms(3), of t d] d(2) by (simp add: adjusted_def)
  moreover have "fills t (cs[a := d, r := e]) + sz = fills t (cs[a := d])"
    using fills_update [of r "cs[a := d]" t e] assms(4,5) e(2) by (simp add: adjusted_def)
  moreover have "list_all2 (reshaped t) (cs[a := d]) (cs[a := d, r := e])"
  proof -
    have "\<forall>c\<in>set (cs[a := d]). lay_ok c" using one by (auto simp: list_all2_conv_all_nth in_set_conv_nth reshaped_def)
    then show ?thesis using assms(4,5) e(2)
      by (auto simp: list_all2_conv_all_nth nth_list_update adjusted_def reshaped_refl)
  qed
  ultimately show ?thesis using list_reshaped_trans [OF one] by (simp add: mv shared_out_def)
qed

definition moved_out :: "layout_type \<Rightarrow> int \<Rightarrow> layout_cell list \<Rightarrow> int \<times> layout_cell list \<Rightarrow> bool" where
  "moved_out t needed cs = (\<lambda>(sz, ds). 0 \<le> sz \<and> sz \<le> \<bar>needed\<bar> \<and> shared_out t cs ds)"

lemma moved_part:
  assumes "siblings t n cs" "t \<noteq> LAYOUT_WINDOWPANE" "a < length cs" "r < length cs" "a \<noteq> r" "0 < m" "m < int SIZE_LIMIT"
    "sz = min (layout_resize_check t (cs ! r)) (uadd_int 0 m)" "\<bar>needed\<bar> = m"
  shows "runs (map_option (\<lambda>cs. (int_of_u sz, cs)) (move_size t a r sz cs)) (moved_out t needed cs)"
proof -
  have "uadd_int 0 m = nat m" using assms(6,7) by (simp add: uadd_int_def)
  then have sz: "int sz \<le> m" "sz \<le> layout_resize_check t (cs ! r)" using assms(6,8) by auto
  then have "int_of_u sz = int sz" using assms(7) by (intro int_of_u_small) simp
  moreover have "runs (move_size t a r sz cs) (shared_out t cs)" by (rule move_size_ok [OF assms(1-5) sz(2)])
  ultimately show ?thesis using sz(1) assms(9) by (auto simp: runs_iff moved_out_def)
qed

lemma grow_ok:
  assumes "siblings t n cs" "t \<noteq> LAYOUT_WINDOWPANE" "i < length cs" "0 < needed" "needed < int SIZE_LIMIT"
  shows "runs (layout_resize_pane_grow i t needed cs) (moved_out t needed cs)"
proof (cases "find (\<lambda>j. layout_resize_check t (cs ! j) > 0) ([i + 1..<length cs] @ rev [0..<i])")
  case None
  then show ?thesis using assms by (simp add: layout_resize_pane_grow_def moved_out_def shared_out_refl)
next
  case (Some j)
  then have "j \<in> set ([i + 1..<length cs] @ rev [0..<i])" by (metis find_Some_iff nth_mem)
  then have "j < length cs" "i \<noteq> j" using assms(3) by auto
  then show ?thesis using moved_part [OF assms(1-3) _ _ assms(4,5) refl] Some assms(3,4)
    by (simp add: layout_resize_pane_grow_def Let_def del: runs_map_option)
qed

lemma shrink_ok:
  assumes "siblings t n cs" "t \<noteq> LAYOUT_WINDOWPANE" "i < length cs" "needed < 0" "- needed < int SIZE_LIMIT"
  shows "runs (layout_resize_pane_shrink i t needed cs) (moved_out t needed cs)"
proof (cases "find (\<lambda>j. layout_resize_check t (cs ! j) \<noteq> 0) (rev [0..<i + 1])")
  case None
  then show ?thesis using assms unfolding layout_resize_pane_shrink_def by (simp only: if_True option.case) (simp add: moved_out_def shared_out_refl)
next
  case (Some j)
  then have "j \<in> set (rev [0..<i + 1])" by (metis find_Some_iff nth_mem)
  then have j: "j < length cs" "i + 1 \<noteq> j" using assms(3) by auto
  show ?thesis
  proof (cases "i + 1 < length cs")
    case True
    show ?thesis using moved_part [OF assms(1,2) True j _ assms(5) refl, of needed] Some assms(3,4) True
      unfolding layout_resize_pane_shrink_def Let_def by simp
  next
    case False
    then show ?thesis using Some assms unfolding layout_resize_pane_shrink_def
      by (simp only: if_True if_False option.case) (simp add: moved_out_def shared_out_refl)
  qed
qed

lemma resize_pane_loop_ok:
  assumes "siblings t n cs" "t \<noteq> LAYOUT_WINDOWPANE" "i < length cs" "\<bar>needed\<bar> < int SIZE_LIMIT"
    "\<bar>needed\<bar> \<le> int k" "needed \<noteq> 0 \<longrightarrow> (0 < change \<longleftrightarrow> 0 < needed)"
  shows "runs (resize_pane_loop k i t change needed cs) (shared_out t cs)"
  using assms(1,3-)
proof (induction k arbitrary: needed cs)
  case 0
  then show ?case by (simp add: shared_out_refl)
next
  case (Suc k)
  have rest: "runs (resize_pane_loop k i t change m ds) (shared_out t cs)"
    if "shared_out t cs ds" "\<bar>m\<bar> < \<bar>needed\<bar>" "m \<noteq> 0 \<longrightarrow> (0 < change \<longleftrightarrow> 0 < m)" for m ds
  proof -
    have "runs (resize_pane_loop k i t change m ds) (shared_out t ds)"
      using that Suc.prems shared_out_siblings [OF Suc.prems(1) that(1)] by (intro Suc.IH) auto
    then show ?thesis by (rule runs_mono) (rule shared_out_trans [OF that(1)])
  qed
  consider "needed = 0" | "0 < needed" "0 < change" | "needed < 0" "\<not> 0 < change" using Suc.prems(5) by linarith
  then show ?case
  proof cases
    case 1
    then show ?thesis using Suc.prems(1) by (simp add: shared_out_refl)
  next
    case 2
    obtain sz ds where g: "layout_resize_pane_grow i t needed cs = Some (sz, ds)" "moved_out t needed cs (sz, ds)"
      using grow_ok [OF Suc.prems(1) assms(2) Suc.prems(2) 2(1)] Suc.prems(3) 2(1) by (auto simp: runs_iff)
    then show ?thesis using 2 rest [of ds "needed - sz"] by (auto simp: moved_out_def)
  next
    case 3
    obtain sz ds where g: "layout_resize_pane_shrink i t needed cs = Some (sz, ds)" "moved_out t needed cs (sz, ds)"
      using shrink_ok [OF Suc.prems(1) assms(2) Suc.prems(2) 3(1)] Suc.prems(3) 3(1) by (auto simp: runs_iff)
    then show ?thesis using 3 rest [of ds "needed + sz"] by (auto simp: moved_out_def)
  qed
qed

end
