(* ===== verification/Layout_Reach.thy ===== *)
theory Layout_Reach
  imports Layout_Window
begin

text \<open>
  The layouts that a window can reach from its first pane by splitting and closing panes and by
  resizing panes and the window, and what holds of all of them.
\<close>

section \<open>The invariant\<close>

definition tree_ok :: "layout_cell \<Rightarrow> bool" where
  "tree_ok c \<longleftrightarrow> lay_ok c \<and> lc_xoff c = 0 \<and> lc_yoff c = 0 \<and> lc_sx c < SIZE_LIMIT \<and> lc_sy c < SIZE_LIMIT"

definition ids :: "layout_window \<Rightarrow> nat list" where
  "ids w = map lp_id (lw_panes w)"

text \<open>A pane is where its cell is, and as large, up to the edge of the window.\<close>

definition pane_shows :: "nat \<Rightarrow> nat \<Rightarrow> layout_cell \<Rightarrow> layout_pane \<Rightarrow> bool" where
  "pane_shows wsx wsy lc wp \<longleftrightarrow> lp_xoff wp = lc_xoff lc \<and> lp_yoff wp = lc_yoff lc \<and>
     lp_sx wp = crop_pane 1 (lc_xoff lc) (lc_sx lc) wsx \<and> lp_sy wp = crop_pane 2 (lc_yoff lc) (lc_sy lc) wsy"

definition panes_ok :: "layout_cell \<Rightarrow> nat list \<Rightarrow> bool" where
  "panes_ok root ps \<longleftrightarrow> distinct ps \<and> distinct (cell_panes root) \<and> set (cell_panes root) = Some ` set ps"

definition window_ok :: "layout_window \<Rightarrow> bool" where
  "window_ok w \<longleftrightarrow> (\<exists>root. lw_root w = Some root \<and> tree_ok root \<and> placed root \<and> panes_ok root (ids w)) \<and>
     (\<forall>wp\<in>set (lw_panes w). \<exists>lc. Option.bind (lw_root w) (\<lambda>root. pane_cell root (lp_id wp)) = Some lc \<and> pane_shows (lw_sx w) (lw_sy w) lc wp) \<and>
     lw_sx w < SIZE_LIMIT \<and> lw_sy w < SIZE_LIMIT"

lemma tree_okD:
  assumes "tree_ok c"
  shows "lay_ok c" "lc_xoff c = 0" "lc_yoff c = 0" "lc_sx c < SIZE_LIMIT" "lc_sy c < SIZE_LIMIT" "in_range c"
  using assms by (auto simp: tree_ok_def in_range_def)

lemma tree_fixed:
  assumes "tree_ok c"
  shows "tree_ok (layout_fix_offsets c)" "placed (layout_fix_offsets c)" "cell_panes (layout_fix_offsets c) = cell_panes c"
proof -
  have f: "placed (layout_fix_offsets c)" "lay_ok (layout_fix_offsets c)" "shape (layout_fix_offsets c) = shape c"
    using fix_offsets_ok [OF tree_okD(1,6) [OF assms]] by (simp_all add: fixed_def)
  show "tree_ok (layout_fix_offsets c)" using f(2) assms by (simp add: tree_ok_def)
  show "placed (layout_fix_offsets c)" by (rule f(1))
  show "cell_panes (layout_fix_offsets c) = cell_panes c" by (rule cell_panes_shape_eq [OF f(3)])
qed

section \<open>Fixing the panes\<close>

lemma mapM_Some: "mapM f xs = Some ys \<Longrightarrow> list_all2 (\<lambda>x y. f x = Some y) xs ys"
  by (induction xs arbitrary: ys) (auto simp: bind_eq_Some_conv)

lemma fix_pane_shows: "fix_pane wsx wsy lc wp = Some wp' \<Longrightarrow> lp_id wp' = lp_id wp \<and> pane_shows wsx wsy lc wp'"
  by (auto simp: fix_pane_def window_pane_resize_def pane_shows_def split: if_splits)

lemma pane_cell_exists:
  assumes "panes_ok root ps" "wp \<in> set ps"
  shows "\<exists>lc. pane_path wp root = Some lc" 
proof -
  have "Some wp \<in> set (cell_panes root)" using assms by (simp add: panes_ok_def)
  then show ?thesis using pane_path_exists(1) by blast
qed

lemma pane_cell_leaf:
  assumes "lay_ok root" "panes_ok root ps" "wp \<in> set ps"
  shows "\<exists>lc. pane_cell root wp = Some lc \<and> lc_wp lc = Some wp \<and> lc_type lc = LAYOUT_WINDOWPANE"
  using pane_cell_exists [OF assms(2,3)] pane_path_at(1) [OF _ assms(1)] by (auto simp: pane_cell_def)

definition shown :: "nat \<Rightarrow> nat \<Rightarrow> layout_cell \<Rightarrow> layout_pane \<Rightarrow> bool" where
  "shown wsx wsy root wp \<longleftrightarrow> (\<exists>lc. pane_cell root (lp_id wp) = Some lc \<and> pane_shows wsx wsy lc wp)"

lemma fix_panes_each:
  assumes "layout_fix_panes wsx wsy w = Some w'" "lw_root w = Some root" "lay_ok root"
  shows "\<exists>ps. w' = w\<lparr>lw_panes := ps\<rparr> \<and> map lp_id ps = ids w \<and>
    (\<forall>wp\<in>set ps. Some (lp_id wp) \<in> set (cell_panes root) \<longrightarrow> shown wsx wsy root wp)"
proof -
  let ?f = "\<lambda>wp. case pane_cell root (lp_id wp) of None \<Rightarrow> Some wp | Some lc \<Rightarrow> fix_pane wsx wsy lc wp"
  obtain ps where ps: "mapM ?f (lw_panes w) = Some ps" "w' = w\<lparr>lw_panes := ps\<rparr>"
    using assms(1,2) by (auto simp: layout_fix_panes_def)
  have each: "lp_id wp' = lp_id wp \<and> (Some (lp_id wp') \<in> set (cell_panes root) \<longrightarrow> shown wsx wsy root wp')"
    if "?f wp = Some wp'" for wp wp'
  proof (cases "pane_cell root (lp_id wp)")
    case None
    have "pane_cell root i \<noteq> None" if "Some i \<in> set (cell_panes root)" for i
    proof -
      have "pane_path i root \<noteq> None" by (rule pane_path_exists(1)) (rule that)
      then obtain p where "pane_path i root = Some p" by blast
      then show ?thesis using pane_path_at(1) [of i root p] assms(3) by (auto simp: pane_cell_def)
    qed
    from this [of "lp_id wp"] show ?thesis using that None by auto
  next
    case (Some lc)
    then show ?thesis using that fix_pane_shows by (auto simp: shown_def)
  qed
  have "map lp_id ps = map lp_id (lw_panes w) \<and> (\<forall>wp\<in>set ps. Some (lp_id wp) \<in> set (cell_panes root) \<longrightarrow> shown wsx wsy root wp)"
    using mapM_Some [OF ps(1)]
  proof (induction rule: list_all2_induct)
    case (Cons x xs y ys)
    then show ?case using each [OF Cons.hyps(1)] by auto
  qed simp
  then show ?thesis using ps(2) by (auto simp: ids_def)
qed

lemma window_ok_iff:
  "window_ok w \<longleftrightarrow> (\<exists>root. lw_root w = Some root \<and> tree_ok root \<and> placed root \<and> panes_ok root (ids w) \<and>
     (\<forall>wp\<in>set (lw_panes w). shown (lw_sx w) (lw_sy w) root wp)) \<and> lw_sx w < SIZE_LIMIT \<and> lw_sy w < SIZE_LIMIT"
  by (auto simp: window_ok_def shown_def)

lemma fix_panes_ok:
  assumes "layout_fix_panes wsx wsy w = Some w'" "lw_root w = Some root" "tree_ok root" "placed root" "panes_ok root (ids w)"
    "wsx < SIZE_LIMIT" "wsy < SIZE_LIMIT"
  shows "window_ok (w'\<lparr>lw_sx := wsx, lw_sy := wsy\<rparr>)"
proof -
  obtain ps where ps: "w' = w\<lparr>lw_panes := ps\<rparr>" "map lp_id ps = ids w"
    "\<forall>wp\<in>set ps. Some (lp_id wp) \<in> set (cell_panes root) \<longrightarrow> shown wsx wsy root wp"
    using fix_panes_each [OF assms(1,2) tree_okD(1) [OF assms(3)]] by blast
  have "Some (lp_id wp) \<in> set (cell_panes root)" if "wp \<in> set ps" for wp
  proof -
    have "lp_id wp \<in> set (ids w)" using that by (simp flip: ps(2))
    then show ?thesis using assms(5) by (simp add: panes_ok_def)
  qed
  then have "\<forall>wp\<in>set ps. shown wsx wsy root wp" using ps(3) by blast
  moreover have "panes_ok root (map lp_id ps)" using assms(5) ps(2) by simp
  ultimately show ?thesis using assms(2-4,6,7) by (simp add: window_ok_iff ids_def ps(1))
qed

text \<open>The screens can be resized as long as there is room for the history.\<close>

definition screens_ok :: "layout_window \<Rightarrow> bool" where
  "screens_ok w \<longleftrightarrow> (\<forall>wp\<in>set (lw_panes w). screen_wf (lp_base wp) \<and> screen_hsize (lp_base wp) < SIZE_LIMIT)"

lemma crop_le: "sz < SIZE_LIMIT \<Longrightarrow> wsz < SIZE_LIMIT \<Longrightarrow> crop_pane l off sz wsz < SIZE_LIMIT"
  by (auto simp: crop_pane_def usub_eq)

lemma fix_panes_runs:
  assumes "screens_ok w" "lw_root w = Some root" "tree_ok root" "wsx < SIZE_LIMIT" "wsy < SIZE_LIMIT"
  shows "layout_fix_panes wsx wsy w \<noteq> None"
proof -
  have "runs (case pane_cell root (lp_id wp) of None \<Rightarrow> Some wp | Some lc \<Rightarrow> fix_pane wsx wsy lc wp) (\<lambda>_. True)"
    if "wp \<in> set (lw_panes w)" for wp
  proof (cases "pane_cell root (lp_id wp)")
    case (Some lc)
    then have "lc_sx lc < SIZE_LIMIT" "lc_sy lc < SIZE_LIMIT"
      using cell_at_ok [OF tree_okD(1) [OF assms(3)]] tree_okD(4,5) [OF assms(3)] by (fastforce simp: pane_cell_def bind_eq_Some_conv)+
    then have sz: "crop_pane 1 (lc_xoff lc) (lc_sx lc) wsx < SIZE_LIMIT" "crop_pane 2 (lc_yoff lc) (lc_sy lc) wsy < SIZE_LIMIT"
      using crop_le assms(4,5) by blast+
    have "screen_wf (lp_base wp)" "screen_hsize (lp_base wp) < SIZE_LIMIT" using assms(1) that by (auto simp: screens_ok_def)
    then have "runs (screen_resize (crop_pane 1 (lc_xoff lc) (lc_sx lc) wsx) (crop_pane 2 (lc_yoff lc) (lc_sy lc) wsy) (lp_base wp)) (\<lambda>_. True)"
      using sz by (intro runs_mono [OF screen_resize_runs]) auto
    then show ?thesis using Some by (auto simp: fix_pane_def window_pane_resize_def runs_iff)
  qed simp
  then have "runs (mapM (\<lambda>wp. case pane_cell root (lp_id wp) of None \<Rightarrow> Some wp | Some lc \<Rightarrow> fix_pane wsx wsy lc wp) (lw_panes w))
      (list_all2 (\<lambda>_ _. True) (lw_panes w))"
    by (intro runs_mapM) blast
  then show ?thesis using assms(2) by (auto simp: layout_fix_panes_def runs_iff)
qed

section \<open>The operations\<close>

text \<open>After an operation on the tree: fix the offsets, then the panes.\<close>

lemma refit:
  assumes "layout_fix_panes wsx wsy (w\<lparr>lw_root := Some (layout_fix_offsets root)\<rparr>) = Some w'" "tree_ok root"
    "panes_ok root (ids w)" "wsx < SIZE_LIMIT" "wsy < SIZE_LIMIT"
  shows "window_ok (w'\<lparr>lw_sx := wsx, lw_sy := wsy\<rparr>)"
  using tree_fixed [OF assms(2)] assms(3)
  by (intro fix_panes_ok [OF assms(1), of "layout_fix_offsets root"] assms) (simp_all add: panes_ok_def ids_def)

lemma fits_tree_ok: "tree_ok c \<Longrightarrow> lay_ok d \<Longrightarrow> fits c d \<Longrightarrow> lc_xoff d = 0 \<and> lc_yoff d = 0 \<Longrightarrow> tree_ok d"
  by (auto simp: tree_ok_def fits_def)

lemma window_okD:
  assumes "window_ok w"
  obtains root where "lw_root w = Some root" "tree_ok root" "placed root" "panes_ok root (ids w)" "lw_sx w < SIZE_LIMIT" "lw_sy w < SIZE_LIMIT"
    "\<forall>wp\<in>set (lw_panes w). shown (lw_sx w) (lw_sy w) root wp"
  using assms by (auto simp: window_ok_iff)

lemma fix_panes_sel:
  "layout_fix_panes wsx wsy w = Some w' \<Longrightarrow> lw_root w' = lw_root w \<and> lw_sx w' = lw_sx w \<and> lw_sy w' = lw_sy w"
  by (auto simp: layout_fix_panes_def)

lemma same_size_self [simp]: "w\<lparr>lw_sx := lw_sx w, lw_sy := lw_sy w\<rparr> = w"
  by simp

lemma leaf_panes: "lc_type c = LAYOUT_WINDOWPANE \<Longrightarrow> cell_panes c = [lc_wp c]"
  by (cases c) simp

text \<open>Closing a pane; the caller removes it from the window afterwards.\<close>

definition remove_pane :: "nat \<Rightarrow> layout_window \<Rightarrow> layout_window" where
  "remove_pane wp w = w\<lparr>lw_panes := filter (\<lambda>p. lp_id p \<noteq> wp) (lw_panes w)\<rparr>"

lemma close_tree:
  assumes "tree_ok root" "panes_ok root ps" "wp \<in> set ps" "pane_path wp root = Some p"
  shows "runs (layout_destroy_cell p root) (\<lambda>r. (p = [] \<longrightarrow> r = None) \<and> (p \<noteq> [] \<longrightarrow>
    (\<exists>c. r = Some c \<and> tree_ok c \<and> fits root c \<and> panes_ok c (filter (\<lambda>i. i \<noteq> wp) ps))))"
proof (cases "p = []")
  case True
  then show ?thesis by (simp add: layout_destroy_cell_def)
next
  case False
  note t = tree_okD [OF assms(1)]
  obtain lc where lc: "cell_at p root = Some lc" "lc_wp lc = Some wp" "lc_type lc = LAYOUT_WINDOWPANE"
    using pane_path_at(1) [OF assms(4) t(1)] by auto
  obtain c as bs where c: "layout_destroy_cell p root = Some (Some c)" "lay_ok c" "fits root c" "lc_xoff c = 0 \<and> lc_yoff c = 0"
    "cell_panes root = as @ [Some wp] @ bs" "cell_panes c = as @ bs"
    using destroy_ok [OF t(1,4,5) lc(1) False] t(2,3) leaf_panes [OF lc(3)] lc(2) by (auto simp: runs_iff)
  have "panes_ok c (filter (\<lambda>i. i \<noteq> wp) ps)" using assms(2) c(5,6) by (auto simp: panes_ok_def)
  then show ?thesis using c False fits_tree_ok [OF assms(1) c(2-4)] by simp
qed

lemma close_step:
  assumes "window_ok w" "layout_close_pane wp w = Some w'" "lw_root w' \<noteq> None"
  shows "window_ok (remove_pane wp w')"
proof -
  obtain root where root: "lw_root w = Some root" "tree_ok root" "placed root" "panes_ok root (ids w)" "lw_sx w < SIZE_LIMIT" "lw_sy w < SIZE_LIMIT"
    using window_okD [OF assms(1)] by blast
  obtain p r where p: "pane_path wp root = Some p" "layout_destroy_cell p root = Some r"
    using assms(2) root(1) by (auto simp: layout_close_pane_def bind_eq_Some_conv)
  have "r \<noteq> None" using assms(2,3) root(1) p by (auto simp: layout_close_pane_def split: option.splits)
  then obtain c where c: "r = Some c" by blast
  have "wp \<in> set (ids w)"
  proof -
    obtain lc where "cell_at p root = Some lc" "lc_wp lc = Some wp" "lc_type lc = LAYOUT_WINDOWPANE"
      using pane_path_at(1) [OF p(1) tree_okD(1) [OF root(2)]] by auto
    then have "Some wp \<in> set (cell_panes root)" using panes_at [OF tree_okD(1) [OF root(2)], of p lc] leaf_panes by fastforce
    then show ?thesis using root(4) by (auto simp: panes_ok_def)
  qed
  then have c': "tree_ok c" "panes_ok c (filter (\<lambda>i. i \<noteq> wp) (ids w))"
    using close_tree [OF root(2,4) _ p(1)] p(2) c by (auto simp: runs_iff)
  have fp: "layout_fix_panes (lw_sx w) (lw_sy w) (w\<lparr>lw_root := Some (layout_fix_offsets c)\<rparr>) = Some w'"
    using assms(2) root(1) p c by (simp add: layout_close_pane_def)
  note tf = tree_fixed [OF c'(1)]
  obtain ps where ps: "w' = w\<lparr>lw_root := Some (layout_fix_offsets c), lw_panes := ps\<rparr>" "map lp_id ps = ids w"
    "\<forall>wp\<in>set ps. Some (lp_id wp) \<in> set (cell_panes (layout_fix_offsets c)) \<longrightarrow> shown (lw_sx w) (lw_sy w) (layout_fix_offsets c) wp"
    using fix_panes_each [OF fp _ tree_okD(1) [OF tf(1)]] by (auto simp: ids_def)
  have idsr: "ids (remove_pane wp w') = filter (\<lambda>i. i \<noteq> wp) (ids w)"
    by (simp add: ids_def remove_pane_def ps(1) filter_map comp_def flip: ps(2) [unfolded ids_def])
  have "Some (lp_id x) \<in> set (cell_panes c)" if "x \<in> set ps" "lp_id x \<noteq> wp" for x
    using c'(2) that by (auto simp: panes_ok_def simp flip: ps(2))
  then have "\<forall>x\<in>set (lw_panes (remove_pane wp w')). shown (lw_sx w) (lw_sy w) (layout_fix_offsets c) x"
    using ps(3) tf(3) by (auto simp: remove_pane_def ps(1))
  then show ?thesis using root(5,6) tf c'(2) idsr
    by (auto simp: window_ok_iff remove_pane_def ps(1) panes_ok_def)
qed

text \<open>Resizing a pane: the sizes in one container change, and nothing else does.\<close>

lemma parent_of_type_Some:
  "parent_of_type n type p root = Some (q, i) \<Longrightarrow> \<exists>k<n. q = take k p \<and> i = p ! k \<and> (\<exists>c. cell_at q root = Some c \<and> lc_type c = type)"
  by (induction n) (auto split: option.splits if_splits intro: less_SucI)

lemma cell_at_prefix:
  assumes "cell_at p c = Some d" "k < length p"
  shows "\<exists>e. cell_at (take k p) c = Some e \<and> p ! k < length (lc_cells e)"
proof -
  have "p = take k p @ p ! k # drop (Suc k) p" using assms(2) by (simp add: id_take_nth_drop)
  then have "cell_at (take k p @ p ! k # drop (Suc k) p) c = Some d" using assms(1) by simp
  then show ?thesis by (auto simp: cell_at_append bind_eq_Some_conv lget_def split: if_splits)
qed

lemma reshaped_children:
  assumes "lay_ok c" "lc_type c \<noteq> LAYOUT_WINDOWPANE" "lc_size (lc_type c) c < SIZE_LIMIT"
    "shared_out (lc_type c) (lc_cells c) cs"
  shows "lay_ok (set_cells cs c)" "fits c (set_cells cs c)" "shape (set_cells cs c) = shape c"
proof -
  note ok = assms(1) [unfolded lay_ok_node [OF assms(2)]]
  have l: "list_all2 (reshaped (lc_type c)) (lc_cells c) cs" "fills (lc_type c) cs = fills (lc_type c) (lc_cells c)"
    using assms(4) by (simp_all add: shared_out_def)
  have "\<forall>e\<in>set cs. lc_size (cross (lc_type c)) e = lc_size (cross (lc_type c)) c \<and> lay_ok e"
    using list_reshaped_ok [OF l(1)] ok by blast
  then show "lay_ok (set_cells cs c)" using ok l assms(2) list_all2_lengthD [OF l(1)] by (subst lay_ok_node) simp_all
  show "fits c (set_cells cs c)" by (simp add: fits_def)
  show "shape (set_cells cs c) = shape c" using list_reshaped_shapes [OF l(1)] by (simp add: shape_eq)
qed

lemma resize_pane_tree:
  assumes "tree_ok root" "cell_at q root = Some par" "lc_type par \<noteq> LAYOUT_WINDOWPANE" "\<bar>change\<bar> < int SIZE_LIMIT"
    "i < length (lc_cells par)"
  shows "runs (resize_pane_loop (nat \<bar>change\<bar>) i (lc_type par) change change (lc_cells par)) (\<lambda>cs.
    runs (put_at q (set_cells cs par) root) (\<lambda>r. tree_ok r \<and> fits root r \<and> cell_panes r = cell_panes root))"
proof -
  note t = tree_okD [OF assms(1)]
  have par: "lay_ok par" "lc_sx par < SIZE_LIMIT" "lc_sy par < SIZE_LIMIT" using cell_at_ok [OF t(1) assms(2)] t(4,5) by auto
  note ok = par(1) [unfolded lay_ok_node [OF assms(3)]]
  have lim: "lc_size (lc_type par) par < SIZE_LIMIT" using par by (intro lc_size_limit)
  have sib: "siblings (lc_type par) (lc_size (cross (lc_type par)) par) (lc_cells par)"
    using ok lim by (simp add: siblings_def)
  have "runs (resize_pane_loop (nat \<bar>change\<bar>) i (lc_type par) change change (lc_cells par)) (shared_out (lc_type par) (lc_cells par))"
    using assms(4) by (intro resize_pane_loop_ok [OF sib assms(3,5)]) auto
  then show ?thesis
  proof (rule runs_mono)
    fix cs assume "shared_out (lc_type par) (lc_cells par) cs"
    note r = reshaped_children [OF par(1) assms(3) lim this]
    have "same_place par (set_cells cs par)" by (simp add: same_place_def)
    then obtain c where c: "put_at q (set_cells cs par) root = Some c" "lay_ok c" "fits root c" "same_place root c"
      using put_at_ok [OF t(1) assms(2) r(1,2)] by (auto simp: runs_iff)
    have "cell_panes c = cell_panes root"
      using panes_at [OF t(1) assms(2)] c(1) cell_panes_shape_eq [OF r(3)] by auto
    then show "runs (put_at q (set_cells cs par) root) (\<lambda>r. tree_ok r \<and> fits root r \<and> cell_panes r = cell_panes root)"
      using c t(2,3) fits_tree_ok [OF assms(1) c(2,3)] by (simp add: same_place_def)
  qed
qed

lemma resize_pane_ok:
  assumes "window_ok w" "wp \<in> set (ids w)" "\<bar>change\<bar> < int SIZE_LIMIT" "lw_root w = Some root"
  shows "layout_resize_pane wp type change w = Some w \<or>
    (\<exists>r. tree_ok r \<and> fits root r \<and> cell_panes r = cell_panes root \<and>
      layout_resize_pane wp type change w = layout_fix_panes (lw_sx w) (lw_sy w) (w\<lparr>lw_root := Some (layout_fix_offsets r)\<rparr>))"
proof -
  have root: "tree_ok root" "panes_ok root (ids w)" using window_okD [OF assms(1)] assms(4) by auto
  note t = tree_okD [OF root(1)]
  obtain p where p: "pane_path wp root = Some p" using pane_cell_exists [OF root(2) assms(2)] by blast
  obtain lc where lc: "cell_at p root = Some lc" using pane_path_at(1) [OF p t(1)] by blast
  show ?thesis
  proof (cases "parent_of_type (length p) type p root")
    case None
    then show ?thesis using assms(4) p by (simp add: layout_resize_pane_def)
  next
    case (Some qi)
    obtain q i where qi: "qi = (q, i)" by (cases qi)
    obtain k par where k: "k < length p" "q = take k p" "i = p ! k" "cell_at q root = Some par" "lc_type par = type"
      using parent_of_type_Some [OF Some [unfolded qi]] by auto
    have i: "i < length (lc_cells par)" using cell_at_prefix [OF lc k(1)] k(2-4) by auto
    have "lay_ok par" using cell_at_ok [OF t(1) k(4)] by blast
    then have node: "lc_type par \<noteq> LAYOUT_WINDOWPANE" using i lay_ok_leaf [of par] by auto
    have two: "2 \<le> length (lc_cells par)" using \<open>lay_ok par\<close> unfolding lay_ok_node [OF node] by blast
    let ?i = "if i + 1 = length (lc_cells par) then if i = 0 then length (lc_cells par) else i - 1 else i"
    have i': "?i < length (lc_cells par)" using i two by auto
    obtain cs r where r: "resize_pane_loop (nat \<bar>change\<bar>) ?i type change change (lc_cells par) = Some cs"
      "put_at q (set_cells cs par) root = Some r" "tree_ok r" "fits root r" "cell_panes r = cell_panes root"
      using resize_pane_tree [OF root(1) k(4) node assms(3) i'] k(5) by (auto simp only: runs_iff)
    have "layout_resize_pane wp type change w = layout_fix_panes (lw_sx w) (lw_sy w) (w\<lparr>lw_root := Some (layout_fix_offsets r)\<rparr>)"
      using assms(4) p Some qi k(4) r(1,2) unfolding layout_resize_pane_def by (simp add: Let_def)
    then show ?thesis using r(3-5) by blast
  qed
qed

lemma panes_ok_cong: "cell_panes c = cell_panes d \<Longrightarrow> panes_ok c ps \<longleftrightarrow> panes_ok d ps"
  by (simp add: panes_ok_def)

lemma resize_pane_step:
  assumes "window_ok w" "wp \<in> set (ids w)" "\<bar>change\<bar> < int SIZE_LIMIT" "layout_resize_pane wp type change w = Some w'"
  shows "window_ok w'"
proof -
  obtain root where root: "lw_root w = Some root" "panes_ok root (ids w)" "lw_sx w < SIZE_LIMIT" "lw_sy w < SIZE_LIMIT"
    using window_okD [OF assms(1)] by blast
  consider "w' = w" | r where "tree_ok r" "fits root r" "cell_panes r = cell_panes root"
      "layout_fix_panes (lw_sx w) (lw_sy w) (w\<lparr>lw_root := Some (layout_fix_offsets r)\<rparr>) = Some w'"
    using resize_pane_ok [OF assms(1-3) root(1), of type] assms(4) by auto
  then show ?thesis
  proof cases
    case 2
    have "window_ok (w'\<lparr>lw_sx := lw_sx w, lw_sy := lw_sy w\<rparr>)"
      by (rule refit [OF 2(4,1) _ root(3,4)]) (use root(2) panes_ok_cong [OF 2(3)] in blast)
    moreover have "lw_sx w' = lw_sx w" "lw_sy w' = lw_sy w" using fix_panes_sel [OF 2(4)] by simp_all
    then have "w'\<lparr>lw_sx := lw_sx w, lw_sy := lw_sy w\<rparr> = w'" by (metis same_size_self)
    ultimately show ?thesis by simp
  qed (use assms(1) in simp)
qed

text \<open>Resizing the window.\<close>

lemma resize_direction_ok:
  assumes "lay_ok c" "type \<noteq> LAYOUT_WINDOWPANE" "lc_size type c + new < SIZE_LIMIT" "old < SIZE_LIMIT"
  shows "runs (resize_direction type new old c) (\<lambda>d. reshaped type c d \<and> lc_size type d < SIZE_LIMIT)"
proof -
  let ?k = "resize_change new old (layout_resize_check type c) (lc_size type c)"
  have ck: "layout_resize_check type c \<le> lc_size type c" using assms by (intro check_le) simp_all
  have u: "int_of_u (usub a b) = int a - int b" if "a < SIZE_LIMIT" "b < SIZE_LIMIT" for a b
    using that by (cases "b \<le> a") (simp_all add: usub_eq usub_wrap int_of_u_def)
  have k: "?k \<le> int new" "- ?k \<le> int (layout_resize_check type c)"
    using assms ck by (auto simp: resize_change_def Let_def u int_of_u_small)
  show ?thesis
  proof (cases "?k = 0")
    case True
    then show ?thesis using assms by (simp add: resize_direction_def Let_def reshaped_refl)
  next
    case False
    have "can_adjust type ?k c" using assms(1,3) k by (auto simp: can_adjust_def)
    from resize_adjust_ok [OF assms(2) this] show ?thesis using False k(1) assms(3)
      by (auto simp: resize_direction_def Let_def runs_iff adjusted_def)
  qed
qed

definition window_resize :: "nat \<Rightarrow> nat \<Rightarrow> layout_window \<Rightarrow> layout_window" where
  "window_resize sx sy w = w\<lparr>lw_sx := sx, lw_sy := sy\<rparr>"

lemma resize_tree:
  assumes "tree_ok root" "lc_sx root + sx < SIZE_LIMIT" "lc_sy root + sy < SIZE_LIMIT" "ox < SIZE_LIMIT" "oy < SIZE_LIMIT"
  shows "runs (Option.bind (resize_direction LAYOUT_LEFTRIGHT sx ox root) (resize_direction LAYOUT_TOPBOTTOM sy oy))
    (\<lambda>c. tree_ok c \<and> cell_panes c = cell_panes root)"
proof -
  note t = tree_okD [OF assms(1)]
  obtain c where c: "resize_direction LAYOUT_LEFTRIGHT sx ox root = Some c" "reshaped LAYOUT_LEFTRIGHT root c" "lc_sx c < SIZE_LIMIT"
    using resize_direction_ok [of root LAYOUT_LEFTRIGHT sx ox] t(1) assms(2,4) by (auto simp: runs_iff lc_size_def)
  have "lc_sy c = lc_sy root" using c(2) by (simp add: reshaped_def lc_size_def)
  then obtain d where d: "resize_direction LAYOUT_TOPBOTTOM sy oy c = Some d" "reshaped LAYOUT_TOPBOTTOM c d" "lc_sy d < SIZE_LIMIT"
    using resize_direction_ok [of c LAYOUT_TOPBOTTOM sy oy] c(2) assms(3,5) by (auto simp: runs_iff lc_size_def reshaped_def)
  have "tree_ok d" using c d t(2,3) by (simp add: tree_ok_def reshaped_def lc_size_def)
  moreover have "shape d = shape root" using c(2) d(2) by (simp add: reshaped_def)
  then have "cell_panes d = cell_panes root" by (rule cell_panes_shape_eq)
  ultimately show ?thesis using c(1) d(1) by simp
qed

lemma resize_step:
  assumes "window_ok w" "lw_root w = Some root" "lc_sx root + sx < SIZE_LIMIT" "lc_sy root + sy < SIZE_LIMIT"
    "layout_resize sx sy w = Some w'"
  shows "window_ok (window_resize sx sy w')"
proof -
  have root: "tree_ok root" "panes_ok root (ids w)" "lw_sx w < SIZE_LIMIT" "lw_sy w < SIZE_LIMIT"
    using window_okD [OF assms(1)] assms(2) by auto
  obtain c where c: "Option.bind (resize_direction LAYOUT_LEFTRIGHT sx (lw_sx w) root) (resize_direction LAYOUT_TOPBOTTOM sy (lw_sy w)) = Some c"
    "tree_ok c" "cell_panes c = cell_panes root"
    using resize_tree [OF root(1) assms(3,4) root(3,4)] by (auto simp only: runs_iff)
  have "layout_fix_panes sx sy (w\<lparr>lw_root := Some (layout_fix_offsets c)\<rparr>) = Some w'"
    using assms(2,5) c(1) by (auto simp: layout_resize_def bind_eq_Some_conv)
  from refit [OF this c(2)] show ?thesis using root(2) panes_ok_cong [OF c(3)] assms(3,4) by (simp add: window_resize_def)
qed

section \<open>Splitting a pane\<close>

lemma split_sizes_ok:
  assumes "5 \<le> sz" "sz < SIZE_LIMIT"
  shows "fst (split_sizes hint sz) + snd (split_sizes hint sz) + 1 = sz" "1 \<le> fst (split_sizes hint sz)" "2 \<le> snd (split_sizes hint sz)"
  using assms by (auto simp: split_sizes_def Let_def PANE_MINIMUM_def uadd_eq usub_eq)

lemma make_leaf_sel [simp]:
  "lc_type (layout_make_leaf wp c) = LAYOUT_WINDOWPANE" "lc_wp (layout_make_leaf wp c) = Some wp" "lc_cells (layout_make_leaf wp c) = []"
  "lc_xoff (layout_make_leaf wp c) = lc_xoff c" "lc_yoff (layout_make_leaf wp c) = lc_yoff c"
  "lc_sx (layout_make_leaf wp c) = lc_sx c" "lc_sy (layout_make_leaf wp c) = lc_sy c"
  by (cases c; simp)+

lemma set_size_sel [simp]:
  "lc_type (layout_set_size sx sy x y c) = lc_type c" "lc_wp (layout_set_size sx sy x y c) = lc_wp c" "lc_cells (layout_set_size sx sy x y c) = lc_cells c"
  "lc_xoff (layout_set_size sx sy x y c) = x" "lc_yoff (layout_set_size sx sy x y c) = y"
  "lc_sx (layout_set_size sx sy x y c) = sx" "lc_sy (layout_set_size sx sy x y c) = sy"
  by (cases c; simp)+

lemma leaf_ok: "lc_type c = LAYOUT_WINDOWPANE \<Longrightarrow> lc_cells c = [] \<Longrightarrow> lay_ok c \<and> placed c"
  by (cases c) simp

text \<open>The two halves of a cell: they fill it, and are placed in it.\<close>

definition halves :: "layout_type \<Rightarrow> nat \<Rightarrow> layout_cell \<Rightarrow> layout_cell \<times> layout_cell \<Rightarrow> bool" where
  "halves t wp c = (\<lambda>(a, b). lc_type a = LAYOUT_WINDOWPANE \<and> lc_wp a = Some wp \<and> lc_cells a = [] \<and>
     lc_type b = LAYOUT_WINDOWPANE \<and> lc_wp b = None \<and> lc_cells b = [] \<and>
     lc_size t a + lc_size t b + 1 = lc_size t c \<and> lc_size (cross t) a = lc_size (cross t) c \<and> lc_size (cross t) b = lc_size (cross t) c \<and>
     same_place c a \<and>
     (if t = LAYOUT_LEFTRIGHT then lc_xoff b = lc_xoff c + lc_sx a + 1 \<and> lc_yoff b = lc_yoff c
      else lc_xoff b = lc_xoff c \<and> lc_yoff b = lc_yoff c + lc_sy a + 1))"

lemma split_cells_ok:
  assumes "t \<noteq> LAYOUT_WINDOWPANE" "5 \<le> lc_size t c" "lc_size t c < SIZE_LIMIT" "in_range c"
  shows "halves t wp c (split_cells t hint wp c)"
proof -
  obtain s1 s2 where s: "split_sizes hint (lc_size t c) = (s1, s2)" by (cases "split_sizes hint (lc_size t c)")
  note ss = split_sizes_ok [OF assms(2,3), of hint, unfolded s fst_conv snd_conv]
  have "lc_size t c = lc_sx c" if "t = LAYOUT_LEFTRIGHT" using that by (simp add: lc_size_def)
  moreover have "lc_size t c = lc_sy c" if "t \<noteq> LAYOUT_LEFTRIGHT" using that by (simp add: lc_size_def)
  ultimately show ?thesis using s ss assms(1,4)
    by (cases t) (auto simp: halves_def split_cells_def Let_def lc_size_def same_place_def layout_create_cell_def uadd_eq in_range_def)
qed

lemma insert_after_facts:
  assumes "i < length xs"
  shows "length (insert_after i x xs) = length xs + 1" "set (insert_after i x xs) = insert x (set xs)"
    "sum_list (map (f :: 'a \<Rightarrow> nat) (insert_after i x xs)) = sum_list (map f xs) + f x"
    "insert_after i x xs ! (i + 1) = x"
    "concat (map g (insert_after i x xs)) = concat (map g (take (i + 1) xs)) @ g x @ concat (map g (drop (i + 1) xs))"
proof -
  have "set xs = set (take (i + 1) xs) \<union> set (drop (i + 1) xs)" by (metis append_take_drop_id set_append)
  then show "set (insert_after i x xs) = insert x (set xs)" by (auto simp: insert_after_def)
  have "sum_list (map f xs) = sum_list (map f (take (i + 1) xs)) + sum_list (map f (drop (i + 1) xs))"
    by (metis append_take_drop_id map_append sum_list_append)
  then show "sum_list (map f (insert_after i x xs)) = sum_list (map f xs) + f x" by (simp add: insert_after_def)
qed (use assms in \<open>simp_all add: insert_after_def nth_append\<close>)

lemma placed_in_split:
  assumes "placed_in (t = LAYOUT_LEFTRIGHT) x y cs" "i < length cs" "halves t wp (cs ! i) (a, b)" "t \<noteq> LAYOUT_WINDOWPANE"
  shows "placed_in (t = LAYOUT_LEFTRIGHT) x y (insert_after i b (cs[i := a]))"
proof -
  have ab: "placed a" "placed b" using assms(3) leaf_ok by (auto simp: halves_def)
  show ?thesis using assms(1,2,3)
  proof (induction cs arbitrary: x y i)
    case (Cons c cs)
    show ?case
    proof (cases i)
      case 0
      then show ?thesis using Cons.prems ab assms(4)
        by (cases t) (auto simp: insert_after_def halves_def same_place_def lc_size_def ac_simps)
    next
      case (Suc k)
      then show ?thesis using Cons.prems Cons.IH [of _ _ k] by (auto simp: insert_after_def)
    qed
  qed simp
qed

text \<open>A cell in which the pane has been split, the new cell being the child k.\<close>

definition split_in :: "nat \<Rightarrow> layout_cell \<Rightarrow> nat \<Rightarrow> layout_cell \<Rightarrow> bool" where
  "split_in wp c k d \<longleftrightarrow> lay_ok d \<and> fits c d \<and> same_place c d \<and> placed d \<and>
     (\<exists>b. lget k (lc_cells d) = Some b \<and> lc_type b = LAYOUT_WINDOWPANE \<and> lc_wp b = None \<and> lc_cells b = []) \<and>
     (\<exists>as bs. cell_panes c = as @ [Some wp] @ bs \<and> cell_panes d = as @ [Some wp, None] @ bs)"

lemma split_alone:
  assumes "halves t wp c (a, b)" "t \<noteq> LAYOUT_WINDOWPANE" "lc_type c = LAYOUT_WINDOWPANE" "lc_wp c = Some wp"
  shows "split_in wp c 1 (Cell t (lc_sx c) (lc_sy c) (lc_xoff c) (lc_yoff c) None [a, b])"
proof -
  have ab: "lay_ok a" "placed a" "lay_ok b" "placed b" using assms(1) leaf_ok by (auto simp: halves_def)
  let ?d = "Cell t (lc_sx c) (lc_sy c) (lc_xoff c) (lc_yoff c) None [a, b]"
  have "lay_ok ?d" using assms(1,2) ab by (cases t) (simp_all add: halves_def lc_size_def)
  moreover have "placed ?d" using assms(1,2) ab by (cases t) (auto simp: halves_def same_place_def)
  moreover have "cell_panes ?d = [Some wp, None]" using assms(1,2) by (simp add: halves_def leaf_panes)
  ultimately show ?thesis unfolding split_in_def using assms leaf_panes [OF assms(3)]
    by (simp add: fits_def same_place_def lget_def halves_def del: lay_ok.simps placed.simps cell_panes.simps)
      (intro exI [of _ "[]"], simp)
qed

lemma split_among:
  assumes "lay_ok c" "placed c" "lc_type c = t" "t \<noteq> LAYOUT_WINDOWPANE" "i < length (lc_cells c)" "halves t wp (lc_cells c ! i) (a, b)"
    "lc_type (lc_cells c ! i) = LAYOUT_WINDOWPANE" "lc_wp (lc_cells c ! i) = Some wp"
  shows "split_in wp c (i + 1) (set_cells (insert_after i b ((lc_cells c)[i := a])) c)"
proof -
  let ?cs = "(lc_cells c)[i := a]" and ?l = "lc_cells c ! i"
  let ?ds = "insert_after i b ?cs"
  have node: "lc_type c \<noteq> LAYOUT_WINDOWPANE" using assms(3,4) by simp
  note ok = assms(1) [unfolded lay_ok_node [OF node] assms(3)]
  have i: "i < length ?cs" using assms(5) by simp
  have h: "lc_size t a + lc_size t b + 1 = lc_size t ?l" "lc_size (cross t) a = lc_size (cross t) ?l" "lc_size (cross t) b = lc_size (cross t) ?l"
    "lc_type b = LAYOUT_WINDOWPANE" "lc_wp b = None" "lc_cells b = []" "lc_type a = LAYOUT_WINDOWPANE" "lc_wp a = Some wp" "lc_cells a = []"
    using assms(6) by (auto simp: halves_def)
  have "fills t ?ds = fills t ?cs + lc_size t b + 1" using insert_after_facts(3) [OF i, of "\<lambda>c. lc_size t c + 1" b] by (simp add: fills_def)
  then have fl: "fills t ?ds = fills t (lc_cells c)" using fills_update [OF assms(5), of t a] h(1) by simp
  have l: "?l \<in> set (lc_cells c)" using assms(5) by simp
  have "\<forall>e\<in>set ?ds. lc_size (cross t) e = lc_size (cross t) c \<and> lay_ok e"
  proof
    fix e assume "e \<in> set ?ds"
    then have "e = b \<or> e = a \<or> e \<in> set (lc_cells c)"
      using insert_after_facts(2) [OF i, of b] set_update_subset_insert [of "lc_cells c" i a] by auto
    then show "lc_size (cross t) e = lc_size (cross t) c \<and> lay_ok e" using ok l h leaf_ok [of a] leaf_ok [of b] by auto
  qed
  then have "lay_ok (set_cells ?ds c)" using ok fl node insert_after_facts(1) [OF i] assms(3) by (subst lay_ok_node) simp_all
  moreover have "placed (set_cells ?ds c)"
    using placed_in_split [OF _ assms(5,6,4)] assms(2,3) by (simp add: placed_sel)
  moreover have "lget (i + 1) ?ds = Some b" using insert_after_facts(1,4) [OF i, of b] assms(5) by (simp add: lget_def)
  moreover have "cell_panes c = concat (map cell_panes (take i (lc_cells c))) @ [Some wp] @ concat (map cell_panes (drop (Suc i) (lc_cells c)))"
    using node concat_at [OF assms(5), of cell_panes] leaf_panes [OF assms(7)] assms(8) by (simp add: cell_panes_sel [of c])
  moreover have "cell_panes (set_cells ?ds c) =
      concat (map cell_panes (take i (lc_cells c))) @ [Some wp, None] @ concat (map cell_panes (drop (Suc i) (lc_cells c)))"
    using node insert_after_facts(5) [OF i, of cell_panes b] h assms(5)
    by (simp add: cell_panes_sel [of "set_cells ?ds c"] leaf_panes take_Suc_conv_app_nth)
  ultimately show ?thesis using h by (simp add: split_in_def fits_def same_place_def) blast
qed

lemma placed_in_range: "placed_in h x y cs \<Longrightarrow> range_in h x y cs \<Longrightarrow> e \<in> set cs \<Longrightarrow> in_range e"
proof (induction cs arbitrary: x y)
  case (Cons c cs)
  note r = range_in_Cons [OF Cons.prems(2)]
  have "in_range c" using r(1) Cons.prems(1) by (auto simp: in_range_def)
  moreover have "in_range e" if "e \<in> set cs" using that Cons.prems(1) r(4,5) Cons.IH by (auto split: if_splits)
  ultimately show ?case using Cons.prems(3) by auto
qed simp

lemma cell_at_placed: "lay_ok c \<Longrightarrow> placed c \<Longrightarrow> in_range c \<Longrightarrow> cell_at p c = Some d \<Longrightarrow> placed d \<and> in_range d"
proof (induction p arbitrary: c)
  case (Cons i p)
  obtain e where e: "lget i (lc_cells c) = Some e" "cell_at p e = Some d" using Cons.prems(4) by (auto simp: bind_eq_Some_conv)
  have mem: "e \<in> set (lc_cells c)" using lget_SomeD [OF e(1)] nth_mem by blast
  note ch = lay_ok_child [OF Cons.prems(1) mem]
  have pl: "placed_in (lc_type c = LAYOUT_LEFTRIGHT) (lc_xoff c) (lc_yoff c) (lc_cells c)" using Cons.prems(2) by (simp add: placed_sel)
  have "in_range e" by (rule placed_in_range [OF pl range_in_node [OF Cons.prems(1,3) ch(4)] mem])
  then show ?case using Cons.IH [OF ch(1) placed_in_each [OF pl mem] _ e(2)] by blast
qed simp

text \<open>A tree in which the pane wp has been split, the new cell being at the path np.\<close>

definition split_tree :: "nat \<Rightarrow> layout_cell \<Rightarrow> nat list \<Rightarrow> layout_cell \<Rightarrow> bool" where
  "split_tree wp root np r \<longleftrightarrow> tree_ok r \<and> placed r \<and> fits root r \<and>
     (\<exists>b. cell_at np r = Some b \<and> lc_type b = LAYOUT_WINDOWPANE \<and> lc_wp b = None \<and> lc_cells b = []) \<and>
     (\<exists>as bs. cell_panes root = as @ [Some wp] @ bs \<and> cell_panes r = as @ [Some wp, None] @ bs)"

lemma split_put:
  assumes "tree_ok root" "placed root" "cell_at q root = Some c" "split_in wp c k d"
  shows "runs (put_at q d root) (split_tree wp root (q @ [k]))"
proof -
  note t = tree_okD [OF assms(1)]
  have d: "lay_ok d" "fits c d" "same_place c d" "placed d" using assms(4) by (simp_all add: split_in_def)
  obtain r where r: "put_at q d root = Some r" "lay_ok r" "fits root r" "same_place root r" "placed r" "cell_at q r = Some d"
    using put_at_ok [OF t(1) assms(3) d(1,2)] d assms(2) by (auto simp: runs_iff)
  obtain as bs where ab: "cell_panes c = as @ [Some wp] @ bs" "cell_panes d = as @ [Some wp, None] @ bs"
    using assms(4) by (auto simp: split_in_def)
  obtain as' bs' where "cell_panes root = as' @ cell_panes c @ bs'" "cell_panes r = as' @ cell_panes d @ bs'"
    using panes_at [OF t(1) assms(3)] r(1) by blast
  then have "cell_panes root = (as' @ as) @ [Some wp] @ bs @ bs'" "cell_panes r = (as' @ as) @ [Some wp, None] @ bs @ bs'" using ab by simp_all
  moreover have "tree_ok r" using fits_tree_ok [OF assms(1) r(2,3)] r(4) t(2,3) by (simp add: same_place_def)
  moreover have "\<exists>b. cell_at (q @ [k]) r = Some b \<and> lc_type b = LAYOUT_WINDOWPANE \<and> lc_wp b = None \<and> lc_cells b = []"
    using assms(4) r(6) by (auto simp: split_in_def cell_at_append)
  ultimately show ?thesis using r by (simp add: split_tree_def) (intro exI [of _ "as' @ as"] exI [of _ "bs @ bs'"], simp)
qed

lemma split_pane_ok:
  assumes "tree_ok root" "placed root" "pane_path wp root = Some p" "t \<noteq> LAYOUT_WINDOWPANE"
  shows "runs (layout_split_pane wp t hint root) (\<lambda>r. case r of
      None \<Rightarrow> \<exists>c. pane_cell root wp = Some c \<and> lc_size t c < 5
    | Some (np, root') \<Rightarrow> split_tree wp root np root')"
proof -
  note ok = tree_okD [OF assms(1)]
  obtain c where c: "cell_at p root = Some c" "lc_wp c = Some wp" "lc_type c = LAYOUT_WINDOWPANE"
    using pane_path_at(1) [OF assms(3) ok(1)] by blast
  have cell: "pane_cell root wp = Some c" using assms(3) c(1) by (simp add: pane_cell_def)
  show ?thesis
  proof (cases "lc_size t c < 5")
    case True
    then show ?thesis using assms(3,4) c(1) cell by (simp add: layout_split_pane_def PANE_MINIMUM_def)
  next
    case False
    have "lc_size t c < SIZE_LIMIT" using cell_at_ok [OF ok(1) c(1)] ok(4,5) by (intro lc_size_limit) auto
    then have h: "halves t wp c (split_cells t hint wp c)"
      using False cell_at_placed [OF ok(1) assms(2) ok(6) c(1)] by (intro split_cells_ok assms(4)) auto
    obtain a b where ab: "split_cells t hint wp c = (a, b)" by (cases "split_cells t hint wp c")
    define q where "q = butlast p"
    define i where "i = last p"
    obtain par where par: "cell_at q root = Some par"
    proof (cases "p = []")
      case False
      then have "p = q @ [i]" by (simp add: q_def i_def)
      then show thesis using c(1) that by (auto simp: cell_at_append bind_eq_Some_conv)
    qed (use that in \<open>simp add: q_def\<close>)
    have unf: "layout_split_pane wp t hint root =
      (if p \<noteq> [] \<and> lc_type par = t then do {
         cs \<leftarrow> lput i a (lc_cells par);
         root \<leftarrow> put_at q (set_cells (insert_after i b cs) par) root;
         Some (Some (q @ [i + 1], root))
       } else do {
         root \<leftarrow> put_at p (Cell t (lc_sx c) (lc_sy c) (lc_xoff c) (lc_yoff c) None [a, b]) root;
         Some (Some (p @ [1], root))
       })"
      using assms(3,4) c(1) False par ab
      by (simp add: layout_split_pane_def PANE_MINIMUM_def q_def [symmetric] i_def [symmetric] layout_create_cell_def Let_def cong: if_cong)
    show ?thesis
    proof (cases "p \<noteq> [] \<and> lc_type par = t")
      case True
      then have p: "p = q @ [i]" by (simp add: q_def i_def)
      have "lget i (lc_cells par) = Some c" using c(1) par unfolding p by (auto simp: cell_at_append bind_eq_Some_conv)
      note i = lget_SomeD [OF this]
      have pr: "lay_ok par" "placed par" using cell_at_ok [OF ok(1) par] cell_at_placed [OF ok(1) assms(2) ok(6) par] by auto
      have "split_in wp par (i + 1) (set_cells (insert_after i b ((lc_cells par)[i := a])) par)"
        using split_among [OF pr _ assms(4), of i wp a b] True i h ab c(2,3) by simp
      from split_put [OF assms(1,2) par this] show ?thesis using True i by (auto simp: unf lput_def runs_iff)
    next
      case other: False
      have "split_in wp c 1 (Cell t (lc_sx c) (lc_sy c) (lc_xoff c) (lc_yoff c) None [a, b])"
        by (rule split_alone [OF _ assms(4) c(3,2)]) (use h ab in simp)
      from split_put [OF assms(1,2) c(1) this] show ?thesis using other by (auto simp: unf runs_iff)
    qed
  qed
qed

text \<open>A new pane anywhere in the list of panes, assigned to the new cell.\<close>

definition insert_pane :: "nat \<Rightarrow> layout_pane \<Rightarrow> layout_window \<Rightarrow> layout_window" where
  "insert_pane k wp w = w\<lparr>lw_panes := take k (lw_panes w) @ wp # drop k (lw_panes w)\<rparr>"

lemma ids_insert: "set (ids (insert_pane k wp w)) = insert (lp_id wp) (set (ids w)) \<and>
    (distinct (ids w) \<and> lp_id wp \<notin> set (ids w) \<longrightarrow> distinct (ids (insert_pane k wp w)))"
proof -
  define as bs where "as = take k (lw_panes w)" and "bs = drop k (lw_panes w)"
  have "lw_panes w = as @ bs" by (simp add: as_def bs_def)
  moreover have "ids (insert_pane k wp w) = map lp_id as @ lp_id wp # map lp_id bs" by (simp add: ids_def insert_pane_def as_def bs_def)
  ultimately show ?thesis by (auto simp: ids_def)
qed

lemma panes_ok_assign:
  assumes "panes_ok root ps" "cell_panes root = as @ [Some wp] @ bs" "as @ [Some wp, None] @ bs = cs @ [None] @ ds"
    "cell_panes r = cs @ [Some new] @ ds" "new \<notin> set ps" "set qs = insert new (set ps)" "distinct qs"
  shows "panes_ok r qs"
proof -
  have none: "None \<notin> set (as @ bs)" "Some new \<notin> set (as @ [Some wp] @ bs)" using assms(1,2,5) by (auto simp: panes_ok_def)
  have d: "distinct (as @ [Some wp, None] @ bs)" using assms(1,2) none(1) by (auto simp: panes_ok_def)
  then have "distinct (cs @ [None] @ ds)" by (simp only: assms(3))
  moreover have "set (as @ [Some wp, None] @ bs) = set (cs @ [None] @ ds)" by (simp only: assms(3))
  moreover have "set (as @ [Some wp] @ bs) = set (as @ [Some wp, None] @ bs) - {None}" using none(1) by auto
  moreover have "distinct (cs @ [None] @ ds) \<Longrightarrow> set (cs @ ds) = set (cs @ [None] @ ds) - {None}" by auto
  ultimately have "set (cs @ ds) = set (as @ [Some wp] @ bs)" "distinct (cs @ ds)" by (metis, simp)
  then show ?thesis using assms(1,2,4,6,7) none(2) by (auto simp: panes_ok_def)
qed

lemma split_step:
  assumes "window_ok w" "lw_root w = Some root" "wp \<in> set (ids w)" "t \<noteq> LAYOUT_WINDOWPANE" "lp_id new \<notin> set (ids w)"
    "layout_split_pane wp t hint root = Some (Some (np, r))"
    "layout_assign_pane np (lp_id new) (insert_pane k new (w\<lparr>lw_root := Some r\<rparr>)) = Some w'"
  shows "window_ok w'"
proof -
  have root: "tree_ok root" "placed root" "panes_ok root (ids w)" "lw_sx w < SIZE_LIMIT" "lw_sy w < SIZE_LIMIT"
    using window_okD [OF assms(1)] assms(2) by auto
  obtain p where p: "pane_path wp root = Some p" using pane_cell_exists [OF root(3) assms(3)] by blast
  have st: "split_tree wp root np r" using split_pane_ok [OF root(1,2) p assms(4), of hint] assms(6) by simp
  then have r: "tree_ok r" "placed r" by (simp_all add: split_tree_def)
  note tr = tree_okD [OF r(1)]
  obtain as bs b where ab: "cell_panes root = as @ [Some wp] @ bs" "cell_panes r = as @ [Some wp, None] @ bs"
    "cell_at np r = Some b" "lc_type b = LAYOUT_WINDOWPANE" "lc_wp b = None"
    using st by (auto simp: split_tree_def)
  let ?b = "layout_make_leaf (lp_id new) b"
  have lb: "lay_ok ?b" "placed ?b" "fits b ?b" "same_place b ?b" using leaf_ok [of ?b] by (simp_all add: fits_def same_place_def)
  obtain r' where r': "put_at np ?b r = Some r'" "lay_ok r'" "fits r r'" "same_place r r'" "placed r'"
    using put_at_ok [OF tr(1) ab(3) lb(1,3)] lb r(2) by (auto simp: runs_iff)
  have tr': "tree_ok r'" using fits_tree_ok [OF r(1) r'(2,3)] r'(4) tr(2,3) by (simp add: same_place_def)
  obtain cs ds where cd: "cell_panes r = cs @ [None] @ ds" "cell_panes r' = cs @ [Some (lp_id new)] @ ds"
    using panes_at [OF tr(1) ab(3)] r'(1) leaf_panes [OF ab(4)] ab(5) by (auto simp: leaf_panes)
  let ?w = "(insert_pane k new w)\<lparr>lw_root := Some r'\<rparr>"
  have ids: "set (ids ?w) = insert (lp_id new) (set (ids w))" "distinct (ids ?w)"
    using ids_insert [of k new w] root(3) assms(5) by (auto simp: ids_def panes_ok_def)
  have po: "panes_ok r' (ids ?w)"
    by (rule panes_ok_assign [OF root(3) ab(1) _ cd(2) assms(5) ids]) (use ab(2) cd(1) in simp)
  have "layout_fix_panes (lw_sx w) (lw_sy w) ?w = Some w'"
    using assms(7) ab(3) r'(1) by (simp add: layout_assign_pane_def insert_pane_def)
  note fp = this
  have "window_ok (w'\<lparr>lw_sx := lw_sx w, lw_sy := lw_sy w\<rparr>)"
    by (rule fix_panes_ok [OF fp _ tr' r'(5) po root(4,5)]) (simp add: insert_pane_def)
  moreover have "lw_sx w' = lw_sx w" "lw_sy w' = lw_sy w" using fix_panes_sel [OF fp] by (simp_all add: insert_pane_def)
  then have "w'\<lparr>lw_sx := lw_sx w, lw_sy := lw_sy w\<rparr> = w'" by (metis same_size_self)
  ultimately show ?thesis by simp
qed

end
