(* ===== verification/Layout_Custom.thy ===== *)
theory Layout_Custom
  imports Layout_Reach
begin

text \<open>
  layout-custom.c and layout-string.c: finding a cell by name, printing a layout as a string and
  reading it back. A cell found is named by its path. The functions that read return None
  where the source returns NULL; layout_parse returns None where it would read out of bounds
  or follow a null pointer, and Some (False, w) where it returns -1.
\<close>

section \<open>layout-string.c\<close>

text \<open>The first and the last of the child cells; None is the null pointer.\<close>

definition first_cell :: "layout_cell \<Rightarrow> nat list option" where
  "first_cell c = (if lc_cells c = [] then None else Some [0])"

definition last_cell :: "layout_cell \<Rightarrow> nat list option" where
  "last_cell c = (if lc_cells c = [] then None else Some [length (lc_cells c) - 1])"

definition layout_find_top :: "layout_cell \<Rightarrow> nat list option" where
  "layout_find_top lc = (if lc_type lc = LAYOUT_WINDOWPANE then Some []
     else if lc_type lc = LAYOUT_TOPBOTTOM then first_cell lc else None)"

definition layout_find_bottom :: "layout_cell \<Rightarrow> nat list option" where
  "layout_find_bottom lc = (if lc_type lc = LAYOUT_WINDOWPANE then Some []
     else if lc_type lc = LAYOUT_TOPBOTTOM then last_cell lc else None)"

definition layout_find_left :: "layout_cell \<Rightarrow> nat list option" where
  "layout_find_left lc = (if lc_type lc = LAYOUT_WINDOWPANE then Some []
     else if lc_type lc = LAYOUT_LEFTRIGHT then first_cell lc else None)"

definition layout_find_right :: "layout_cell \<Rightarrow> nat list option" where
  "layout_find_right lc = (if lc_type lc = LAYOUT_WINDOWPANE then Some []
     else if lc_type lc = LAYOUT_LEFTRIGHT then last_cell lc else None)"

text \<open>
  The corners follow first or last cells down to a pane; the result is None where they would
  reach an empty container and follow a null pointer. \<open>corner\<close> is the common recursion: the
  choice says for each container whether to take the last cell.
\<close>

lemma size_ends: "cs \<noteq> [] \<Longrightarrow> size (last cs) < Suc (size_list size cs)" "cs \<noteq> [] \<Longrightarrow> size (hd cs) < Suc (size_list size cs)"
  by (cases cs rule: rev_cases; simp add: size_list_append) (cases cs; simp)

function corner :: "(layout_type \<Rightarrow> bool) \<Rightarrow> layout_cell \<Rightarrow> nat list option" where
  "corner f (Cell t sx sy xoff yoff wp cs) =
     (if t = LAYOUT_WINDOWPANE then Some []
      else if cs = [] then None
      else if f t then map_option (Cons (length cs - 1)) (corner f (last cs))
      else map_option (Cons 0) (corner f (hd cs)))"
  by pat_completeness auto
termination
  by (relation "measure (\<lambda>(f, c). size c)") (auto simp: size_ends)

definition layout_find_topleft :: "layout_cell \<Rightarrow> nat list option" where
  "layout_find_topleft = corner (\<lambda>t. False)"

definition layout_find_topright :: "layout_cell \<Rightarrow> nat list option" where
  "layout_find_topright = corner (\<lambda>t. t = LAYOUT_LEFTRIGHT)"

definition layout_find_bottomleft :: "layout_cell \<Rightarrow> nat list option" where
  "layout_find_bottomleft = corner (\<lambda>t. t \<noteq> LAYOUT_LEFTRIGHT)"

definition layout_find_bottomright :: "layout_cell \<Rightarrow> nat list option" where
  "layout_find_bottomright = corner (\<lambda>t. True)"

text \<open>The result: None for a null pointer followed, Some None where the name or the cell found is no pane.\<close>

definition layout_find_string :: "layout_cell \<Rightarrow> string \<Rightarrow> nat list option option" where
  "layout_find_string root s = do {
     r \<leftarrow> (if strcaseeq s ''top'' then Some (layout_find_top root)
       else if strcaseeq s ''bottom'' then Some (layout_find_bottom root)
       else if strcaseeq s ''left'' then Some (layout_find_left root)
       else if strcaseeq s ''right'' then Some (layout_find_right root)
       else if strcaseeq s ''top-left'' then map_option Some (layout_find_topleft root)
       else if strcaseeq s ''top-right'' then map_option Some (layout_find_topright root)
       else if strcaseeq s ''bottom-left'' then map_option Some (layout_find_bottomleft root)
       else if strcaseeq s ''bottom-right'' then map_option Some (layout_find_bottomright root)
       else Some None);
     (case r of
        None \<Rightarrow> Some None
      | Some p \<Rightarrow> map_option (\<lambda>lc. if lc_type lc = LAYOUT_WINDOWPANE then Some p else None) (cell_at p root))
   }"

section \<open>Printing\<close>

definition layout_checksum :: "string \<Rightarrow> 16 word" where
  "layout_checksum layout = fold (\<lambda>c csum.
     (drop_bit 1 csum + push_bit 15 (csum AND 1)) + scast (word_of_nat (char_code c) :: 8 word)) layout 0"

lemma foldM_cong [fundef_cong]:
  "xs = ys \<Longrightarrow> s = t \<Longrightarrow> (\<And>x r. x \<in> set ys \<Longrightarrow> f x r = g x r) \<Longrightarrow> foldM f xs s = foldM g ys t"
  by (induction ys arbitrary: xs s t) (auto cong: Option.bind_cong)

definition cell_text :: "nat \<Rightarrow> nat \<Rightarrow> nat \<Rightarrow> nat \<Rightarrow> string" where
  "cell_text sx sy xoff yoff = print_unsigned sx @ ''x'' @ print_unsigned sy @ '','' @ print_unsigned xoff @ '','' @ print_unsigned yoff"

text \<open>strlcat into a buffer of the given size, and the test that follows it.\<close>

definition cat_fits :: "nat \<Rightarrow> string \<Rightarrow> string \<Rightarrow> string option" where
  "cat_fits len buf s = (if length buf + length s \<ge> len then None else Some (strlcat buf s len))"

fun layout_append :: "nat \<Rightarrow> layout_cell \<Rightarrow> string \<Rightarrow> string option" where
  "layout_append len (Cell t sx sy xoff yoff wp cs) buf =
     (if len = 0 then None
      else if length (cell_text sx sy xoff yoff) > 63 then None
      else Option.bind (cat_fits len buf (cell_text sx sy xoff yoff)) (\<lambda>buf.
        if t = LAYOUT_WINDOWPANE then Some buf
        else let (close, open) = (if t = LAYOUT_LEFTRIGHT then (CHR ''}'', CHR ''{'') else (CHR '']'', CHR ''['')) in
          Option.bind (cat_fits len buf [open]) (\<lambda>buf.
            map_option (\<lambda>buf. butlast buf @ [close])
              (foldM (\<lambda>c buf. Option.bind (layout_append len c buf) (\<lambda>buf. cat_fits len buf '','')) cs buf))))"

text \<open>Printing in hexadecimal, as %x does, padded on the left as %4x does.\<close>

definition hex_char :: "nat \<Rightarrow> char" where
  "hex_char d = (if d < 10 then digit_char d else char_of (87 + d))"

fun print_hex :: "nat \<Rightarrow> string" where
  "print_hex n = (if n < 16 then [hex_char n] else print_hex (n div 16) @ [hex_char (n mod 16)])"

declare print_hex.simps [simp del]

definition pad4 :: "string \<Rightarrow> string" where
  "pad4 s = replicate (4 - length s) (CHR '' '') @ s"

definition layout_dump :: "layout_cell \<Rightarrow> string option" where
  "layout_dump root = map_option (\<lambda>layout. pad4 (print_hex (unat (layout_checksum layout))) @ '','' @ layout)
     (layout_append BUFSIZ root [])"

section \<open>Reading\<close>

text \<open>
  A decimal number as sscanf reads it with %u on a 64-bit system: strtoul, which stops at
  ULONG_MAX, cut to 32 bits.
\<close>

definition scan_value :: "string \<Rightarrow> nat" where
  "scan_value ds = (if digits_value 0 ds < 18446744073709551616 then digits_value 0 ds mod UINT_MOD else UINT_MAX)"

text \<open>
  The four numbers of a cell. The calls of sscanf and isdigit together accept exactly four
  nonempty runs of digits with the separators between them, for sscanf alone would skip
  white space or a sign, which the scan that follows it does not.
\<close>

definition scan_number :: "string \<Rightarrow> (nat \<times> string) option" where
  "scan_number s = (if takeWhile is_digit s = [] then None else Some (scan_value (takeWhile is_digit s), dropWhile is_digit s))"

definition scan_char :: "char \<Rightarrow> string \<Rightarrow> string option" where
  "scan_char c s = (case s of [] \<Rightarrow> None | d # r \<Rightarrow> if d = c then Some r else None)"

definition scan_cell :: "string \<Rightarrow> (layout_cell \<times> string) option" where
  "scan_cell s = do {
     (sx, s) \<leftarrow> scan_number s;
     s \<leftarrow> scan_char (CHR ''x'') s;
     (sy, s) \<leftarrow> scan_number s;
     s \<leftarrow> scan_char (CHR '','') s;
     (xoff, s) \<leftarrow> scan_number s;
     s \<leftarrow> scan_char (CHR '','') s;
     (yoff, s) \<leftarrow> scan_number s;
     Some (Cell LAYOUT_WINDOWPANE sx sy xoff yoff None [], s)
   }"

definition set_type :: "layout_type \<Rightarrow> layout_cell \<Rightarrow> layout_cell" where
  "set_type t lc = Cell t (lc_sx lc) (lc_sy lc) (lc_xoff lc) (lc_yoff lc) (lc_wp lc) (lc_cells lc)"

text \<open>
  layout_construct. The recursion is counted; every call reads at least one character, so that
  the length of the string is enough.
\<close>

fun construct_at :: "nat \<Rightarrow> string \<Rightarrow> (layout_cell \<times> string) option"
  and construct_cells :: "nat \<Rightarrow> string \<Rightarrow> (layout_cell list \<times> string) option" where
  "construct_at 0 s = None"
| "construct_at (Suc k) s = (case scan_cell s of
     None \<Rightarrow> None
   | Some (lc, []) \<Rightarrow> Some (lc, [])
   | Some (lc, c # s) \<Rightarrow>
       if c = CHR '','' \<or> c = CHR ''}'' \<or> c = CHR '']'' then Some (lc, c # s)
       else if c = CHR ''{'' then do {
         (cs, s) \<leftarrow> construct_cells k s;
         s \<leftarrow> scan_char (CHR ''}'') s;
         Some (set_cells cs (set_type LAYOUT_LEFTRIGHT lc), s)
       }
       else if c = CHR ''['' then do {
         (cs, s) \<leftarrow> construct_cells k s;
         s \<leftarrow> scan_char (CHR '']'') s;
         Some (set_cells cs (set_type LAYOUT_TOPBOTTOM lc), s)
       }
       else None)"
| "construct_cells 0 s = None"
| "construct_cells (Suc k) s = (case construct_at k s of
     None \<Rightarrow> None
   | Some (c, s) \<Rightarrow>
       (case scan_char (CHR '','') s of
          None \<Rightarrow> Some ([c], s)
        | Some s \<Rightarrow> map_option (\<lambda>(cs, s). (c # cs, s)) (construct_cells k s)))"

definition layout_construct :: "string \<Rightarrow> (layout_cell \<times> string) option" where
  "layout_construct s = construct_at (2 * length s + 1) s"

text \<open>
  The checksum as sscanf reads it with %hx: white space, a sign and 0x are skipped; the value is
  that of strtoul, cut to 16 bits.
\<close>

definition hex_value :: "string \<Rightarrow> nat" where
  "hex_value ds = foldl (\<lambda>n c. n * 16 + xdigit_value c) 0 ds"

definition scan_hex :: "string \<Rightarrow> 16 word option" where
  "scan_hex s =
     (let s = dropWhile is_space s;
          neg = (s \<noteq> [] \<and> hd s = CHR ''-'');
          s = (if s \<noteq> [] \<and> (hd s = CHR ''-'' \<or> hd s = CHR ''+'') then tl s else s);
          s = (if length s \<ge> 2 \<and> hd s = CHR ''0'' \<and> tolower (hd (tl s)) = CHR ''x'' then drop 2 s else s);
          ds = takeWhile is_xdigit s;
          v = (if hex_value ds < 18446744073709551616 then hex_value ds else 18446744073709551615)
      in if ds = [] then None
         else Some (if neg \<and> hex_value ds < 18446744073709551616 then - word_of_nat v else word_of_nat v))"

text \<open>Closing the bottom right cell while there are fewer panes than cells.\<close>

function close_extra :: "nat \<Rightarrow> nat \<Rightarrow> layout_cell \<Rightarrow> (bool \<times> layout_cell) option" where
  "close_extra k npanes lc =
     (let ncells = layout_count_cells lc in
      if npanes > ncells then Some (False, lc)
      else if npanes = ncells then Some (True, lc)
      else if k = 0 then None
      else do {
        p \<leftarrow> layout_find_bottomright lc;
        r \<leftarrow> layout_destroy_cell p lc;
        lc \<leftarrow> r;
        close_extra (k - 1) npanes lc
      })"
  by auto
termination
  by (relation "measure (\<lambda>(k, npanes, lc). k)") auto

declare close_extra.simps [simp del]

fun layout_assign :: "nat list \<Rightarrow> layout_cell \<Rightarrow> (nat list \<times> layout_cell) option"
  and assign_cells :: "nat list \<Rightarrow> layout_cell list \<Rightarrow> (nat list \<times> layout_cell list) option" where
  "layout_assign ps (Cell t sx sy xoff yoff wp cs) =
     (if t = LAYOUT_WINDOWPANE then
        (case ps of [] \<Rightarrow> None | p # ps \<Rightarrow> Some (ps, layout_make_leaf p (Cell t sx sy xoff yoff wp cs)))
      else map_option (\<lambda>(ps, cs). (ps, Cell t sx sy xoff yoff wp cs)) (assign_cells ps cs))"
| "assign_cells ps [] = Some (ps, [])"
| "assign_cells ps (c # cs) = do {
     (ps, c) \<leftarrow> layout_assign ps c;
     (ps, cs) \<leftarrow> assign_cells ps cs;
     Some (ps, c # cs)
   }"

text \<open>
  layout_parse. The string after the checksum and its comma is taken five characters on, which
  is beyond the end of a shorter string.
\<close>

definition layout_parse :: "string \<Rightarrow> layout_window \<Rightarrow> (bool \<times> layout_window) option" where
  "layout_parse layout w =
     (case scan_hex layout of
        None \<Rightarrow> Some (False, w)
      | Some csum \<Rightarrow>
          if length layout < 5 then None
          else if csum \<noteq> layout_checksum (drop 5 layout) then Some (False, w)
          else (case layout_construct (drop 5 layout) of
             None \<Rightarrow> Some (False, w)
           | Some (lc, rest) \<Rightarrow>
               if rest \<noteq> [] then Some (False, w)
               else do {
                 (ok, lc) \<leftarrow> close_extra (layout_count_cells lc) (length (lw_panes w)) lc;
                 if \<not> ok then Some (False, w)
                 else do {
                   let sx = lw_sx w;
                   let sy = lw_sy w;
                   (_, lc) \<leftarrow> layout_assign (ids w) lc;
                   w \<leftarrow> layout_fix_panes (lc_sx lc) (lc_sy lc) ((window_resize (lc_sx lc) (lc_sy lc) w)\<lparr>lw_root := Some (layout_fix_offsets lc)\<rparr>);
                   w \<leftarrow> layout_resize sx sy w;
                   Some (True, window_resize sx sy w)
                 }
               }))"

end
