(* ===== verification/Layout_Props.thy ===== *)
theory Layout_Props
  imports Layout_Reach
begin

text \<open>
  The properties of the layout: the windows that the operations can reach, what holds of all
  of them, and that the operations return.
\<close>

section \<open>Reachable windows\<close>

text \<open>
  From the first pane of a window by splitting a pane and assigning the new one, closing a pane
  that is not the last and removing it from the window, resizing a pane or the window, and
  dragging borders with the mouse. Sizes and changes are below 2 ^ 31, as those of a terminal.
\<close>

inductive reachable :: "layout_window \<Rightarrow> bool" where
  init: "lw_panes w = [wp] \<Longrightarrow> lw_sx w < SIZE_LIMIT \<Longrightarrow> lw_sy w < SIZE_LIMIT \<Longrightarrow> layout_init w = Some w' \<Longrightarrow> reachable w'"
| split: "reachable w \<Longrightarrow> lw_root w = Some root \<Longrightarrow> wp \<in> set (ids w) \<Longrightarrow> t \<noteq> LAYOUT_WINDOWPANE \<Longrightarrow> lp_id new \<notin> set (ids w) \<Longrightarrow>
    layout_split_pane wp t hint root = Some (Some (np, r)) \<Longrightarrow>
    layout_assign_pane np (lp_id new) (insert_pane k new (w\<lparr>lw_root := Some r\<rparr>)) = Some w' \<Longrightarrow> reachable w'"
| close: "reachable w \<Longrightarrow> layout_close_pane wp w = Some w' \<Longrightarrow> lw_root w' \<noteq> None \<Longrightarrow> reachable (remove_pane wp w')"
| resize_pane: "reachable w \<Longrightarrow> wp \<in> set (ids w) \<Longrightarrow> \<bar>change\<bar> < int SIZE_LIMIT \<Longrightarrow> layout_resize_pane wp t change w = Some w' \<Longrightarrow> reachable w'"
| resize: "reachable w \<Longrightarrow> lw_root w = Some root \<Longrightarrow> lc_sx root + sx < SIZE_LIMIT \<Longrightarrow> lc_sy root + sy < SIZE_LIMIT \<Longrightarrow>
    layout_resize sx sy w = Some w' \<Longrightarrow> reachable (window_resize sx sy w')"
| mouse: "reachable w \<Longrightarrow> m_x old < SIZE_LIMIT \<Longrightarrow> m_y old < SIZE_LIMIT \<Longrightarrow> m_x new < SIZE_LIMIT \<Longrightarrow> m_y new < SIZE_LIMIT \<Longrightarrow>
    layout_resize_pane_mouse old new w = Some (w', m, redraw) \<Longrightarrow> reachable w'"

lemma init_step:
  assumes "lw_panes w = [wp]" "lw_sx w < SIZE_LIMIT" "lw_sy w < SIZE_LIMIT" "layout_init w = Some w'"
  shows "window_ok w'"
proof -
  let ?c = "layout_make_leaf (lp_id wp) (layout_set_size (lw_sx w) (lw_sy w) 0 0 layout_create_cell)"
  have fp: "layout_fix_panes (lw_sx w) (lw_sy w) (w\<lparr>lw_root := Some ?c\<rparr>) = Some w'"
    using assms(1,4) by (simp add: layout_init_def lget_def)
  have c: "tree_ok ?c" "placed ?c" using leaf_ok [of ?c] assms(2,3) by (simp_all add: tree_ok_def)
  have "window_ok (w'\<lparr>lw_sx := lw_sx w, lw_sy := lw_sy w\<rparr>)"
    by (rule fix_panes_ok [OF fp _ c _ assms(2,3)]) (simp_all add: panes_ok_def ids_def assms(1) leaf_panes)
  moreover have "lw_sx w' = lw_sx w" "lw_sy w' = lw_sy w" using fix_panes_sel [OF fp] by simp_all
  then have "w'\<lparr>lw_sx := lw_sx w, lw_sy := lw_sy w\<rparr> = w'" by (metis same_size_self)
  ultimately show ?thesis by simp
qed

lemma foldM_invariant:
  assumes "foldM f xs s = Some s'" "I s" "\<And>x s t. f x s = Some t \<Longrightarrow> I s \<Longrightarrow> I t"
  shows "I s'"
  using assms(1,2) by (induction xs arbitrary: s) (auto simp: bind_eq_Some_conv dest: assms(3))

lemma resize_pane_ids:
  assumes "window_ok w" "wp \<in> set (ids w)" "\<bar>change\<bar> < int SIZE_LIMIT" "layout_resize_pane wp type change w = Some w'"
  shows "window_ok w' \<and> ids w' = ids w"
proof -
  obtain root where root: "lw_root w = Some root" using window_okD [OF assms(1)] by blast
  have "ids w' = ids w"
    using resize_pane_ok [OF assms(1-3) root, of type]
  proof (elim disjE exE conjE)
    fix r assume r: "tree_ok r" "layout_resize_pane wp type change w = layout_fix_panes (lw_sx w) (lw_sy w) (w\<lparr>lw_root := Some (layout_fix_offsets r)\<rparr>)"
    have "lay_ok (layout_fix_offsets r)" using tree_fixed(1) [OF r(1)] tree_okD(1) by blast
    then show ?thesis using fix_panes_each [of "lw_sx w" "lw_sy w" "w\<lparr>lw_root := Some (layout_fix_offsets r)\<rparr>" w'] r(2) assms(4)
      by (auto simp: ids_def)
  qed (use assms(4) in simp)
  then show ?thesis using resize_pane_step [OF assms] by blast
qed

lemma mouse_change: "a < SIZE_LIMIT \<Longrightarrow> b < SIZE_LIMIT \<Longrightarrow> \<bar>int_of_u (usub a b)\<bar> < int SIZE_LIMIT"
  by (cases "b \<le> a") (simp_all add: usub_eq usub_wrap int_of_u_def)

lemma drag_step:
  assumes "mouse_drag_pane old new k (w, b) = Some (w', b')" "window_ok w"
    "m_x old < SIZE_LIMIT" "m_y old < SIZE_LIMIT" "m_x new < SIZE_LIMIT" "m_y new < SIZE_LIMIT"
  shows "window_ok w'"
proof -
  note ch = mouse_change [OF assms(5,3)] mouse_change [OF assms(6,4)]
  have member: "lp_id wp \<in> set (ids v)" if "lget k (lw_panes v) = Some wp" for v wp
    using lget_SomeD [OF that] nth_mem by (auto simp: ids_def)
  obtain wp v c where v: "lget k (lw_panes w) = Some wp"
    "(if on_right_border (m_x old) (m_y old) wp
      then map_option (\<lambda>w. (w, True)) (layout_resize_pane (lp_id wp) LAYOUT_LEFTRIGHT (int_of_u (usub (m_x new) (m_x old))) w)
      else Some (w, b)) = Some (v, c)"
    and rest: "Option.bind (lget k (lw_panes v)) (\<lambda>wp. if on_bottom_border (m_x old) (m_y old) wp
      then map_option (\<lambda>w. (w, True)) (layout_resize_pane (lp_id wp) LAYOUT_TOPBOTTOM (int_of_u (usub (m_y new) (m_y old))) v)
      else Some (v, c)) = Some (w', b')"
    using assms(1) by (auto simp: mouse_drag_pane_def bind_eq_Some_conv)
  have ok: "window_ok v" using v(2) resize_pane_step [OF assms(2) member [OF v(1)] ch(1)] assms(2) by (auto split: if_splits)
  obtain wq where "lget k (lw_panes v) = Some wq" using rest by (auto simp: bind_eq_Some_conv)
  then show ?thesis using rest resize_pane_step [OF ok member ch(2)] ok by (auto split: if_splits)
qed

lemma mouse_step:
  assumes "layout_resize_pane_mouse old new w = Some (w', m, redraw)" "window_ok w"
    "m_x old < SIZE_LIMIT" "m_y old < SIZE_LIMIT" "m_x new < SIZE_LIMIT" "m_y new < SIZE_LIMIT"
  shows "window_ok w'"
proof (cases "m_b old AND MOUSE_BUTTON \<noteq> MOUSE_UP \<and> m_b old AND MOUSE_RESIZE_PANE \<noteq> 0")
  case True
  then obtain b where "foldM (mouse_drag_pane old new) [0..<length (lw_panes w)] (w, False) = Some (w', b)"
    using assms(1) by (auto simp: layout_resize_pane_mouse_def bind_eq_Some_conv)
  then have "window_ok (fst (w', b))"
  proof (rule foldM_invariant)
    fix k s t
    assume "mouse_drag_pane old new k s = Some t" "window_ok (fst s)"
    then have "mouse_drag_pane old new k (fst s, snd s) = Some (fst t, snd t)" by simp
    then show "window_ok (fst t)" by (rule drag_step [OF _ \<open>window_ok (fst s)\<close> assms(3-6)])
  qed (simp add: assms(2))
  then show ?thesis by simp
next
  case False
  then show ?thesis using assms(1,2) by (auto simp: layout_resize_pane_mouse_def split: if_splits)
qed

lemma reachable_ok: "reachable w \<Longrightarrow> window_ok w"
proof (induction rule: reachable.induct)
  case (init w wp w')
  show ?case by (rule init_step [OF init.hyps])
next
  case (split w root wp t new hint np r k w')
  show ?case by (rule split_step [OF split.IH split.hyps(2-)])
next
  case (close w wp w')
  show ?case by (rule close_step [OF close.IH close.hyps(2-)])
next
  case (resize_pane w wp change t w')
  show ?case by (rule resize_pane_step [OF resize_pane.IH resize_pane.hyps(2-)])
next
  case (resize w root sx sy w')
  show ?case by (rule resize_step [OF resize.IH resize.hyps(2-)])
next
  case (mouse w old new w' m redraw)
  show ?case by (rule mouse_step [OF mouse.hyps(6) mouse.IH mouse.hyps(2-5)])
qed

lemmas window_invariant = reachable_ok [THEN window_okD]

section \<open>Properties\<close>

text \<open>
  C2: the panes of a window tile its layout. In every window that can be reached, each
  position of the layout is in exactly one pane or on its right or bottom border, positions
  outside it are in none, each pane of the window has exactly one cell, and it is where the
  cell is.
\<close>

theorem layout_panes_tile:
  assumes "reachable w"
  shows "\<exists>root. lw_root w = Some root \<and>
    (\<forall>px py. cover_count px py root = (if px \<le> lc_sx root \<and> py \<le> lc_sy root then 1 else 0)) \<and>
    distinct (cell_panes root) \<and> set (cell_panes root) = Some ` set (ids w) \<and>
    (\<forall>wp\<in>set (lw_panes w). \<exists>lc. pane_cell root (lp_id wp) = Some lc \<and> lc_wp lc = Some (lp_id wp) \<and> pane_shows (lw_sx w) (lw_sy w) lc wp)"
proof -
  obtain root where root: "lw_root w = Some root" "tree_ok root" "placed root" "panes_ok root (ids w)"
    "\<forall>wp\<in>set (lw_panes w). shown (lw_sx w) (lw_sy w) root wp"
    using window_invariant [OF assms] by blast
  note t = tree_okD [OF root(2)]
  have "cover_count px py root = (if px \<le> lc_sx root \<and> py \<le> lc_sy root then 1 else 0)" for px py
    using tiles_exactly [OF t(1) root(3)] t(2,3) by (simp add: covered_def)
  moreover have "\<exists>lc. pane_cell root (lp_id wp) = Some lc \<and> lc_wp lc = Some (lp_id wp) \<and> pane_shows (lw_sx w) (lw_sy w) lc wp"
    if "wp \<in> set (lw_panes w)" for wp
    using root(5) pane_cell_leaf [OF t(1) root(4), of "lp_id wp"] that by (fastforce simp: shown_def ids_def)
  ultimately show ?thesis using root(1,4) by (auto simp: panes_ok_def)
qed

definition sample_pane :: "nat \<Rightarrow> layout_pane" where
  "sample_pane i = \<lparr>lp_id = i, lp_xoff = 0, lp_yoff = 0, lp_sx = 9, lp_sy = 9, lp_base = sample_screen\<rparr>"

definition sample_layout :: layout_window where
  "sample_layout = \<lparr>lw_sx = 9, lw_sy = 9, lw_panes = [sample_pane 0],
     lw_root = Some (Cell LAYOUT_WINDOWPANE 9 9 0 0 (Some 0) []), lw_lastlayout = -1\<rparr>"

definition sample_split :: layout_cell where
  "sample_split = Cell LAYOUT_LEFTRIGHT 9 9 0 0 None
     [Cell LAYOUT_WINDOWPANE 4 9 0 0 (Some 0) [], Cell LAYOUT_WINDOWPANE 4 9 5 0 None []]"

lemma sample_reachable: "reachable sample_layout"
proof (rule reachable.init)
  show "layout_init (sample_layout\<lparr>lw_root := None\<rparr>) = Some sample_layout"
    by (simp add: layout_init_def sample_layout_def sample_pane_def lget_def layout_create_cell_def layout_fix_panes_def
        pane_cell_def fix_pane_def crop_pane_def window_pane_resize_def usub_eq uadd_eq)
qed (simp_all add: sample_layout_def)

lemma sample_split_reachable: "\<exists>w. reachable w \<and> lw_root w = Some (set_cells [Cell LAYOUT_WINDOWPANE 4 9 0 0 (Some 0) [],
    Cell LAYOUT_WINDOWPANE 4 9 5 0 (Some 1) []] sample_split) \<and> ids w = [0, 1] \<and> lw_sx w = 9 \<and> lw_sy w = 9"
proof -
  let ?r = "set_cells [Cell LAYOUT_WINDOWPANE 4 9 0 0 (Some 0) [], Cell LAYOUT_WINDOWPANE 4 9 5 0 (Some 1) []] sample_split"
  have s: "layout_split_pane 0 LAYOUT_LEFTRIGHT (-1) (Cell LAYOUT_WINDOWPANE 9 9 0 0 (Some 0) []) = Some (Some ([1], sample_split))"
    by (simp add: layout_split_pane_def PANE_MINIMUM_def split_cells_def split_sizes_def layout_create_cell_def uadd_eq usub_eq sample_split_def)
  let ?w = "(insert_pane 1 (sample_pane 1) (sample_layout\<lparr>lw_root := Some sample_split\<rparr>))\<lparr>lw_root := Some ?r\<rparr>"
  have "tree_ok ?r" by (simp add: tree_ok_def sample_split_def)
  moreover have "screens_ok ?w" using screen_wf_sample
    by (simp add: screens_ok_def insert_pane_def sample_layout_def sample_pane_def sample_screen_def sample_grid_def)
  ultimately have "layout_fix_panes 9 9 ?w \<noteq> None" by (intro fix_panes_runs [of _ ?r]) simp_all
  then obtain w' where w': "layout_fix_panes 9 9 ?w = Some w'" by blast
  then have "layout_assign_pane [1] (lp_id (sample_pane 1)) (insert_pane 1 (sample_pane 1) (sample_layout\<lparr>lw_root := Some sample_split\<rparr>)) = Some w'"
    by (simp add: layout_assign_pane_def sample_split_def lget_def lput_def insert_pane_def sample_layout_def sample_pane_def)
  then have "reachable w'"
    by (intro reachable.split [OF sample_reachable, of "Cell LAYOUT_WINDOWPANE 9 9 0 0 (Some 0) []" 0 LAYOUT_LEFTRIGHT
        "sample_pane 1" "-1" "[1]" sample_split 1 w'] s) (simp_all add: sample_layout_def ids_def sample_pane_def)
  moreover have "lay_ok ?r" by (simp add: sample_split_def)
  then have "lw_root w' = Some ?r \<and> ids w' = [0, 1] \<and> lw_sx w' = 9 \<and> lw_sy w' = 9" using fix_panes_each [OF w', of ?r]
    by (auto simp: ids_def insert_pane_def sample_layout_def sample_pane_def)
  ultimately show ?thesis by blast
qed

theorem layout_panes_tile_witness:
  "\<exists>w root. reachable w \<and> ids w = [0, 1] \<and> lw_root w = Some root \<and> cover_count 4 9 root = 1 \<and> cover_count 10 0 root = 0"
proof -
  obtain w where w: "reachable w" "ids w = [0, 1]" "lw_root w = Some (set_cells [Cell LAYOUT_WINDOWPANE 4 9 0 0 (Some 0) [],
    Cell LAYOUT_WINDOWPANE 4 9 5 0 (Some 1) []] sample_split)"
    using sample_split_reachable by blast
  show ?thesis using layout_panes_tile [OF w(1)] w by (auto simp: sample_split_def)
qed

text \<open>What the recursion does beyond what can be removed.\<close>

lemma adjust_loop_stuck:
  assumes "adjuster d type f" "\<forall>c\<in>set cs. lay_ok c \<and> lc_height c \<le> d" "int (fills type cs) \<le> int SIZE_LIMIT"
    "change < 0" "int (checks type cs) < - change"
  shows "adjust_loop f type change cs = None"
  using assms(2-)
proof (induction "nat \<bar>change\<bar>" arbitrary: change cs rule: less_induct)
  case less
  have "int (fills type cs) + max 0 change \<le> int SIZE_LIMIT" using less.prems by simp
  from adjust_round_spec [OF assms(1) less.prems(1) this]
  obtain cs' change' where r: "adjust_round f type change cs = Some (cs', change')" "round_spec type cs change (cs', change')"
    by (auto simp: runs_iff)
  show ?case
  proof (cases "change' = change")
    case True
    then show ?thesis using r(1) less.prems(3) by (simp add: adjust_loop.simps)
  next
    case False
    have rs: "list_all2 (reshaped type) cs cs'" using r(2) by (simp add: round_spec_def)
    have "\<forall>c\<in>set cs'. lay_ok c" using rs by (auto simp: list_all2_conv_all_nth in_set_conv_nth reshaped_def)
    then have ok: "\<forall>c\<in>set cs'. lay_ok c \<and> lc_height c \<le> d" using less.prems(1) list_reshaped_height [OF rs, of d] by blast
    have n: "int (fills type cs') \<le> int SIZE_LIMIT" "int (checks type cs') < - change'" "change' \<le> 0" "change \<le> change'"
      using r(2) less.prems(2-4) by (auto simp: round_spec_def)
    have "change' < 0" using n by linarith
    moreover have "nat \<bar>change'\<bar> < nat \<bar>change\<bar>" using n(4) False \<open>change' < 0\<close> less.prems(3) by linarith
    ultimately have "adjust_loop f type change' cs' = None" by (intro less.hyps ok n)
    then show ?thesis using r(1) False less.prems(3) by (subst adjust_loop.simps) simp
  qed
qed

text \<open>
  C22: layout_resize_adjust. In a well-formed tree, growing, or shrinking by no more than
  layout_resize_check allows, returns a well-formed tree of the same shape whose size is changed
  by exactly the given amount, in that direction only, and what can still be removed is less by
  as much. The bound is sharp: asked to remove more from a container of its direction, the
  while loop never ends.
\<close>

theorem layout_resize_adjust_exact:
  assumes "type \<noteq> LAYOUT_WINDOWPANE" "lay_ok c" "int (lc_size type c) + max 0 k < int SIZE_LIMIT"
  shows "((k < 0 \<longrightarrow> - k \<le> int (layout_resize_check type c)) \<longrightarrow>
      (\<exists>c'. layout_resize_adjust type k c = Some c' \<and> lay_ok c' \<and> shape c' = shape c \<and>
        int (lc_size type c') = int (lc_size type c) + k \<and> lc_size (cross type) c' = lc_size (cross type) c \<and>
        (k < 0 \<longrightarrow> int (layout_resize_check type c') = int (layout_resize_check type c) + k))) \<and>
    (lc_type c = type \<and> int (layout_resize_check type c) < - k \<longrightarrow> layout_resize_adjust type k c = None)"
proof (intro conjI)
  show "(k < 0 \<longrightarrow> - k \<le> int (layout_resize_check type c)) \<longrightarrow>
      (\<exists>c'. layout_resize_adjust type k c = Some c' \<and> lay_ok c' \<and> shape c' = shape c \<and>
        int (lc_size type c') = int (lc_size type c) + k \<and> lc_size (cross type) c' = lc_size (cross type) c \<and>
        (k < 0 \<longrightarrow> int (layout_resize_check type c') = int (layout_resize_check type c) + k))"
  proof
    assume "k < 0 \<longrightarrow> - k \<le> int (layout_resize_check type c)"
    then have "can_adjust type k c" using assms(2,3) by (simp add: can_adjust_def)
    from resize_adjust_ok [OF assms(1) this] show "\<exists>c'. layout_resize_adjust type k c = Some c' \<and> lay_ok c' \<and> shape c' = shape c \<and>
        int (lc_size type c') = int (lc_size type c) + k \<and> lc_size (cross type) c' = lc_size (cross type) c \<and>
        (k < 0 \<longrightarrow> int (layout_resize_check type c') = int (layout_resize_check type c) + k)"
      by (auto simp: runs_iff adjusted_def reshaped_def)
  qed
  show "lc_type c = type \<and> int (layout_resize_check type c) < - k \<longrightarrow> layout_resize_adjust type k c = None"
  proof (intro impI, elim conjE)
  assume same: "lc_type c = type" and less: "int (layout_resize_check type c) < - k"
  have node: "lc_type c \<noteq> LAYOUT_WINDOWPANE" using same assms(1) by simp
  note ok = assms(2) [unfolded lay_ok_node [OF node]]
  have lim: "lc_size type c < SIZE_LIMIT" using assms(3) by simp
  obtain d where d: "lc_height c = Suc d" by (cases c) simp
  have h: "\<forall>e\<in>set (lc_cells c). lay_ok e \<and> lc_height e \<le> d" using ok height_child [of _ c] d by fastforce
  have "adjust_loop (resize_adjust_at d type) type k (lc_cells c) = None"
    using less check_same [OF assms(2) same assms(1) lim] ok same lim
    by (intro adjust_loop_stuck [OF adjust_at_ok [OF assms(1)] h]) simp_all
  then show "layout_resize_adjust type k c = None"
    using same assms(1) by (simp add: layout_resize_adjust_def d Let_def)
  qed
qed

theorem layout_resize_adjust_exact_witness:
  "(\<exists>c'. layout_resize_adjust LAYOUT_LEFTRIGHT (-4) sample_split = Some c' \<and> lc_sx c' = 5) \<and>
   layout_resize_adjust LAYOUT_LEFTRIGHT (-5) sample_split = None"
proof -
  have ck: "layout_resize_check LAYOUT_LEFTRIGHT sample_split = 4" by (simp add: sample_split_def Let_def PANE_MINIMUM_def uadd_eq)
  have ok: "lay_ok sample_split" "lc_size LAYOUT_LEFTRIGHT sample_split = 9" "lc_type sample_split = LAYOUT_LEFTRIGHT" by (simp_all add: sample_split_def)
  show ?thesis
    using layout_resize_adjust_exact [of LAYOUT_LEFTRIGHT sample_split "-4"] layout_resize_adjust_exact [of LAYOUT_LEFTRIGHT sample_split "-5"] ck ok
    by (auto simp: lc_size_def)
qed

text \<open>
  C30: the operations return. In a window that can be reached, resizing and closing a pane and
  resizing the window neither loop for ever nor fail, and resizing a pane leaves the size of
  the layout as it was.
\<close>

theorem layout_operations_return:
  assumes "reachable w" "screens_ok w" "wp \<in> set (ids w)" "\<bar>change\<bar> < int SIZE_LIMIT" "lw_root w = Some root"
    "lc_sx root + sx < SIZE_LIMIT" "lc_sy root + sy < SIZE_LIMIT"
  shows "(\<exists>w' root'. layout_resize_pane wp t change w = Some w' \<and> lw_root w' = Some root' \<and> fits root root') \<and>
    layout_close_pane wp w \<noteq> None \<and> layout_resize sx sy w \<noteq> None"
proof -
  have r: "tree_ok root" "panes_ok root (ids w)" "lw_sx w < SIZE_LIMIT" "lw_sy w < SIZE_LIMIT"
    using window_invariant [OF assms(1)] assms(5) by auto
  have fixes': "layout_fix_panes wsx wsy (w\<lparr>lw_root := Some (layout_fix_offsets c)\<rparr>) \<noteq> None"
    if "tree_ok c" "wsx < SIZE_LIMIT" "wsy < SIZE_LIMIT" for c wsx wsy
    using fix_panes_runs [of "w\<lparr>lw_root := Some (layout_fix_offsets c)\<rparr>" "layout_fix_offsets c" wsx wsy] that tree_fixed(1) [OF that(1)] assms(2)
    by (simp add: screens_ok_def)
  have one: "\<exists>w' root'. layout_resize_pane wp t change w = Some w' \<and> lw_root w' = Some root' \<and> fits root root'"
    using resize_pane_ok [OF reachable_ok [OF assms(1)] assms(3-5), of t]
  proof (elim disjE exE conjE)
    fix c assume c: "tree_ok c" "fits root c"
      "layout_resize_pane wp t change w = layout_fix_panes (lw_sx w) (lw_sy w) (w\<lparr>lw_root := Some (layout_fix_offsets c)\<rparr>)"
    then obtain w' where w': "layout_fix_panes (lw_sx w) (lw_sy w) (w\<lparr>lw_root := Some (layout_fix_offsets c)\<rparr>) = Some w'" using fixes' r(3,4) by blast
    moreover have "lw_root w' = Some (layout_fix_offsets c)" using fix_panes_sel [OF w'] by simp
    moreover have "fits root (layout_fix_offsets c)" using c(2) by (simp add: fits_def)
    ultimately show ?thesis using c(3) by simp
  qed (use assms(5) in \<open>auto simp: fits_def\<close>)
  obtain p where p: "pane_path wp root = Some p" using pane_cell_exists [OF r(2) assms(3)] by blast
  have "layout_close_pane wp w \<noteq> None"
    using close_tree [OF r(1,2) assms(3) p] fixes' [OF _ r(3,4)] assms(5) p
    by (cases "p = []") (auto simp: layout_close_pane_def runs_iff)
  moreover have "layout_resize sx sy w \<noteq> None"
  proof -
    obtain c where "Option.bind (resize_direction LAYOUT_LEFTRIGHT sx (lw_sx w) root) (resize_direction LAYOUT_TOPBOTTOM sy (lw_sy w)) = Some c" "tree_ok c"
      using resize_tree [OF r(1) assms(6,7) r(3,4)] by (auto simp only: runs_iff)
    then show ?thesis using fixes' [of c sx sy] assms(5-7) by (auto simp: layout_resize_def bind_eq_Some_conv)
  qed
  ultimately show ?thesis using one by blast
qed

lemma sample_screens: "screens_ok sample_layout"
  using screen_wf_sample by (simp add: screens_ok_def sample_layout_def sample_pane_def sample_screen_def sample_grid_def)

theorem layout_operations_return_witness:
  "layout_resize_pane 0 LAYOUT_LEFTRIGHT 3 sample_layout \<noteq> None \<and> layout_resize 20 20 sample_layout \<noteq> None"
  using layout_operations_return [OF sample_reachable sample_screens, of 0 3 _ 20 20 LAYOUT_LEFTRIGHT]
  by (auto simp: sample_layout_def ids_def sample_pane_def)

text \<open>
  C31: the sizes of a split. The two halves and the border fill the cell; without a size the
  halves differ by at most one; the new pane is never smaller than PANE_MINIMUM. But a size
  that is nearly that of the cell leaves the old pane one row or column, below PANE_MINIMUM.
\<close>

theorem layout_split_sizes:
  assumes "PANE_MINIMUM * 2 + 1 \<le> sz" "sz < SIZE_LIMIT" "split_sizes hint sz = (s1, s2)"
  shows "s1 + s2 + 1 = sz \<and> PANE_MINIMUM \<le> s2 \<and> (hint < 0 \<longrightarrow> s1 = s2 \<or> s1 = s2 + 1) \<and>
    (int sz - 2 \<le> hint \<and> hint < 2147483648 \<longrightarrow> s1 = 1 \<and> s1 < PANE_MINIMUM)"
proof -
  define m where "m = (if hint < 0 then (sz + 1) div 2 - 1 else uadd_int 0 hint)"
  define n where "n = (if m < 2 then 2 else if m > sz - 2 then sz - 2 else m)"
  have sz: "5 \<le> sz" using assms(1) by (simp add: PANE_MINIMUM_def)
  have u: "uadd sz 1 = sz + 1" "usub (Suc sz div 2) 1 = Suc sz div 2 - 1" "usub sz 2 = sz - 2" "usub sz 1 = sz - 1"
    using sz assms(2) by (simp_all add: uadd_eq usub_eq)
  have n: "2 \<le> n" "n \<le> sz - 2" using sz by (auto simp: n_def)
  have "split_sizes hint sz = (usub (sz - 1) n, n)"
    using u by (simp add: split_sizes_def PANE_MINIMUM_def Let_def n_def m_def)
  then have s: "s1 = sz - 1 - n" "s2 = n" using assms(3) n sz assms(2) by (simp_all add: usub_eq)
  have "n = sz - 2" if "int sz - 2 \<le> hint" "hint < 2147483648"
    using that sz by (auto simp: n_def m_def uadd_int_def)
  moreover have "n = (sz + 1) div 2 - 1" if "hint < 0" using that sz by (auto simp: n_def m_def)
  moreover have "sz - 1 - h = h \<or> sz - 1 - h = h + 1" if "h = (sz + 1) div 2 - 1" for h
    using that sz by (cases "even sz") (auto elim!: evenE oddE)
  ultimately show ?thesis using s n sz by (auto simp: PANE_MINIMUM_def)
qed

theorem layout_split_sizes_witness: "split_sizes 22 24 = (1, 22)"
proof (cases "split_sizes 22 24")
  case (Pair a b)
  then show ?thesis using layout_split_sizes [of 24 22 a b] by (simp add: PANE_MINIMUM_def)
qed

end
