(* ===== verification/Layout_Print.thy ===== *)
theory Layout_Print
  imports Layout_Custom
begin

text \<open>
  Printing a layout and reading it back. The printed tree is the specification \<open>layout_text\<close>;
  layout_append writes it as long as the buffer holds it, and layout_construct reads it back up
  to the panes, which are not printed. layout_parse puts a printed layout back into any window
  with as many panes.
\<close>

section \<open>The text of a tree\<close>

definition open_of :: "layout_type \<Rightarrow> char" where
  "open_of t = (if t = LAYOUT_LEFTRIGHT then CHR ''{'' else CHR ''['')"

definition close_of :: "layout_type \<Rightarrow> char" where
  "close_of t = (if t = LAYOUT_LEFTRIGHT then CHR ''}'' else CHR '']'')"

fun commas :: "string list \<Rightarrow> string" where
  "commas [] = []"
| "commas [s] = s"
| "commas (s # t # ss) = s @ '','' @ commas (t # ss)"

fun layout_text :: "layout_cell \<Rightarrow> string" where
  "layout_text (Cell t sx sy xoff yoff wp cs) = cell_text sx sy xoff yoff @
     (if t = LAYOUT_WINDOWPANE then [] else open_of t # commas (map layout_text cs) @ [close_of t])"

text \<open>What a text can say of a tree: numbers of 32 bits, panes without children, containers with some.\<close>

fun text_ok :: "layout_cell \<Rightarrow> bool" where
  "text_ok (Cell t sx sy xoff yoff wp cs) = (sx < UINT_MOD \<and> sy < UINT_MOD \<and> xoff < UINT_MOD \<and> yoff < UINT_MOD \<and>
     (if t = LAYOUT_WINDOWPANE then cs = [] else cs \<noteq> [] \<and> (\<forall>c\<in>set cs. text_ok c)))"

fun unassigned :: "layout_cell \<Rightarrow> layout_cell" where
  "unassigned (Cell t sx sy xoff yoff wp cs) = Cell t sx sy xoff yoff None (map unassigned cs)"

section \<open>layout_append\<close>

lemma cat_fits_Some: "cat_fits len buf s = Some r \<longleftrightarrow> length buf + length s < len \<and> r = buf @ s"
  by (auto simp: cat_fits_def strlcat_def)

lemma foldM_append_text:
  assumes "foldM (\<lambda>c buf. Option.bind (f c buf) (\<lambda>buf. cat_fits len buf '','')) cs buf = Some r"
    "\<And>c b b'. c \<in> set cs \<Longrightarrow> f c b = Some b' \<Longrightarrow> b' = b @ g c"
  shows "r = buf @ concat (map (\<lambda>c. g c @ '','') cs)"
  using assms
proof (induction cs arbitrary: buf)
  case (Cons c cs)
  obtain b where b: "f c buf = Some b" "foldM (\<lambda>c buf. Option.bind (f c buf) (\<lambda>buf. cat_fits len buf '','')) cs (b @ '','') = Some r"
    using Cons.prems(1) by (auto simp: bind_eq_Some_conv cat_fits_Some)
  have "r = (b @ '','') @ concat (map (\<lambda>c. g c @ '','') cs)" by (rule Cons.IH [OF b(2)]) (simp add: Cons.prems(2))
  moreover have "b = buf @ g c" using Cons.prems(2) b(1) by simp
  ultimately show ?case by simp
qed simp

lemma butlast_commas: "ss \<noteq> [] \<Longrightarrow> concat (map (\<lambda>s. s @ '','') ss) = commas ss @ '',''"
  by (induction ss rule: commas.induct) auto

lemma append_text:
  "layout_append len c buf = Some r \<Longrightarrow> text_ok c \<Longrightarrow> r = buf @ layout_text c"
proof (induction len c buf arbitrary: r rule: layout_append.induct)
  case (1 len t sx sy xoff yoff wp cs buf)
  show ?case
  proof (cases "t = LAYOUT_WINDOWPANE")
    case True
    then show ?thesis using "1.prems" by (auto simp: cat_fits_Some bind_eq_Some_conv split: if_splits)
  next
    case False
    let ?b = "(buf @ cell_text sx sy xoff yoff) @ [open_of t]"
    obtain s where s: "foldM (\<lambda>c buf. Option.bind (layout_append len c buf) (\<lambda>buf. cat_fits len buf '','')) cs ?b = Some s"
      "r = butlast s @ [close_of t]" and len: "len \<noteq> 0" "length (cell_text sx sy xoff yoff) \<le> 63"
      "cat_fits len buf (cell_text sx sy xoff yoff) = Some (buf @ cell_text sx sy xoff yoff)"
      "cat_fits len (buf @ cell_text sx sy xoff yoff) [open_of t] = Some ?b"
      using "1.prems"(1) False by (auto simp: cat_fits_Some bind_eq_Some_conv open_of_def close_of_def split: if_splits)
    have cs: "cs \<noteq> []" "\<forall>c\<in>set cs. text_ok c" using "1.prems"(2) False by auto
    have "s = ?b @ concat (map (\<lambda>c. layout_text c @ '','') cs)"
    proof (rule foldM_append_text [OF s(1)])
      fix c b b' assume c: "c \<in> set cs" "layout_append len c b = Some b'"
      show "b' = b @ layout_text c"
        using "1.IH" [OF len(1) _ len(3) False refl _ _ c(1,2)] len cs(2) c(1)
        by (cases "t = LAYOUT_LEFTRIGHT") (simp_all add: open_of_def cat_fits_Some)
    qed
    also have "concat (map (\<lambda>c. layout_text c @ '','') cs) = commas (map layout_text cs) @ '',''"
      using butlast_commas [of "map layout_text cs"] cs(1) by (simp add: comp_def)
    finally show ?thesis using s(2) False by (simp add: butlast_append)
  qed
qed

section \<open>layout_construct\<close>

lemma scan_print_unsigned:
  assumes "n < UINT_MOD" "s = [] \<or> \<not> is_digit (hd s)"
  shows "scan_number (print_unsigned n @ s) = Some (n, s)"
proof -
  have p: "print_unsigned n \<noteq> []" "\<forall>c\<in>set (print_unsigned n). is_digit c" "digits_value 0 (print_unsigned n) = n"
    using print_unsigned_digits [of n] by (simp_all add: list_all_iff)
  have "takeWhile is_digit s = [] \<and> dropWhile is_digit s = s" using assms(2) by (cases s) auto
  then have "takeWhile is_digit (print_unsigned n @ s) = print_unsigned n" "dropWhile is_digit (print_unsigned n @ s) = s"
    using p(2) by simp_all
  then show ?thesis using p assms(1) by (simp add: scan_number_def scan_value_def)
qed

lemma not_digit [simp]: "\<not> is_digit (CHR '','')" "\<not> is_digit (CHR ''x'')" "\<not> is_digit (CHR ''{'')" "\<not> is_digit (CHR ''}'')"
  "\<not> is_digit (CHR ''['')" "\<not> is_digit (CHR '']'')"
  by (simp_all add: is_digit_def char_code_def)

lemma scan_cell_text:
  assumes "sx < UINT_MOD" "sy < UINT_MOD" "xoff < UINT_MOD" "yoff < UINT_MOD" "s = [] \<or> \<not> is_digit (hd s)"
  shows "scan_cell (cell_text sx sy xoff yoff @ s) = Some (Cell LAYOUT_WINDOWPANE sx sy xoff yoff None [], s)"
  using assms by (simp add: scan_cell_def cell_text_def scan_print_unsigned scan_char_def)

text \<open>What may follow a cell: the end, a comma or a bracket that closes.\<close>

definition ends_cell :: "string \<Rightarrow> bool" where
  "ends_cell s \<longleftrightarrow> s = [] \<or> hd s \<in> {CHR '','', CHR ''}'', CHR '']''}"

lemma ends_cell_no_digit: "ends_cell s \<Longrightarrow> s = [] \<or> \<not> is_digit (hd s)"
  by (auto simp: ends_cell_def)

lemma length_cell_text: "7 \<le> length (cell_text sx sy xoff yoff)"
proof -
  have "1 \<le> length (print_unsigned n)" for n using print_unsigned_digits [of n] by (cases "print_unsigned n") auto
  from this [of sx] this [of sy] this [of xoff] this [of yoff] show ?thesis by (simp add: cell_text_def)
qed

lemma length_layout_text: "7 \<le> length (layout_text c)"
proof (cases c)
  case (Cell t sx sy xoff yoff wp cs)
  have "length (cell_text sx sy xoff yoff) \<le> length (layout_text c)" by (simp add: Cell)
  then show ?thesis using length_cell_text [of sx sy xoff yoff] by linarith
qed

lemma construct_cells_text:
  assumes "cs \<noteq> []" "\<forall>c\<in>set cs. text_ok c" "ends_cell s" "s \<noteq> []" "hd s \<noteq> CHR '',''"
    "\<And>c k s. c \<in> set cs \<Longrightarrow> ends_cell s \<Longrightarrow> 2 * length (layout_text c) \<le> k \<Longrightarrow> construct_at k (layout_text c @ s) = Some (unassigned c, s)"
    "2 * length (commas (map layout_text cs)) < k"
  shows "construct_cells k (commas (map layout_text cs) @ s) = Some (map unassigned cs, s)"
  using assms
proof (induction cs arbitrary: k)
  case (Cons c cs)
  obtain j where k: "k = Suc j" using Cons.prems(7) by (cases k) auto
  show ?case
  proof (cases cs)
    case Nil
    have "construct_at j (layout_text c @ s) = Some (unassigned c, s)"
      by (rule Cons.prems(6)) (use Cons.prems(3,7) k Nil in auto)
    moreover have "scan_char (CHR '','') s = None" using Cons.prems(4,5) by (cases s) (auto simp: scan_char_def)
    ultimately show ?thesis using k Nil by simp
  next
    case (Cons d ds)
    let ?s = "commas (map layout_text cs) @ s"
    have t: "commas (map layout_text (c # cs)) @ s = layout_text c @ CHR '','' # ?s" using Cons by simp
    have len: "2 * length (layout_text c) \<le> j" "2 * length (commas (map layout_text cs)) < j"
      using Cons.prems(7) k Cons by auto
    have "construct_at j (layout_text c @ CHR '','' # ?s) = Some (unassigned c, CHR '','' # ?s)"
      by (rule Cons.prems(6)) (use len in \<open>auto simp: ends_cell_def\<close>)
    moreover have "construct_cells j ?s = Some (map unassigned cs, s)"
      by (rule Cons.IH) (use Cons Cons.prems(2-6) len in auto)
    ultimately show ?thesis unfolding t using k by (simp add: scan_char_def)
  qed
qed simp

lemma construct_text:
  "text_ok c \<Longrightarrow> ends_cell s \<Longrightarrow> 2 * length (layout_text c) \<le> k \<Longrightarrow> construct_at k (layout_text c @ s) = Some (unassigned c, s)"
proof (induction c arbitrary: k s)
  case (Cell t sx sy xoff yoff wp cs)
  have n: "sx < UINT_MOD" "sy < UINT_MOD" "xoff < UINT_MOD" "yoff < UINT_MOD" using Cell.prems(1) by simp_all
  obtain j where k: "k = Suc j" using Cell.prems(3) length_layout_text [of "Cell t sx sy xoff yoff wp cs"] by (cases k) auto
  show ?case
  proof (cases "t = LAYOUT_WINDOWPANE")
    case True
    have "scan_cell (cell_text sx sy xoff yoff @ s) = Some (Cell LAYOUT_WINDOWPANE sx sy xoff yoff None [], s)"
      by (rule scan_cell_text [OF n ends_cell_no_digit [OF Cell.prems(2)]])
    then show ?thesis using True k Cell.prems(1,2) by (auto simp: ends_cell_def split: list.splits)
  next
    case False
    let ?s = "commas (map layout_text cs) @ close_of t # s"
    have t: "layout_text (Cell t sx sy xoff yoff wp cs) @ s = cell_text sx sy xoff yoff @ open_of t # ?s" using False by simp
    have sc: "scan_cell (cell_text sx sy xoff yoff @ open_of t # ?s) = Some (Cell LAYOUT_WINDOWPANE sx sy xoff yoff None [], open_of t # ?s)"
      by (rule scan_cell_text [OF n]) (simp add: open_of_def)
    have "construct_cells j ?s = Some (map unassigned cs, close_of t # s)"
    proof (rule construct_cells_text)
      show "2 * length (commas (map layout_text cs)) < j" using Cell.prems(3) False k by simp
    qed (use Cell False in \<open>auto simp: ends_cell_def close_of_def\<close>)
    then show ?thesis unfolding t using sc k False
      by (cases t) (simp_all add: open_of_def close_of_def scan_char_def set_type_def)
  qed
qed

lemma layout_construct_text: "text_ok c \<Longrightarrow> layout_construct (layout_text c) = Some (unassigned c, [])"
  using construct_text [of c "[]" "2 * length (layout_text c) + 1"] unfolding layout_construct_def ends_cell_def by simp

text \<open>The fuel is enough for any string: every call reads at least one character.\<close>

lemma scan_number_length: "scan_number s = Some (n, r) \<Longrightarrow> length r < length s"
  by (cases s) (auto simp: scan_number_def le_imp_less_Suc length_dropWhile_le split: if_splits)

lemma scan_char_length: "scan_char c s = Some r \<Longrightarrow> length r < length s"
  by (auto simp: scan_char_def split: list.splits if_splits)

lemma scan_cell_length: "scan_cell s = Some (lc, r) \<Longrightarrow> length r < length s"
  by (auto simp: scan_cell_def bind_eq_Some_conv dest!: scan_number_length scan_char_length)

lemma construct_length:
  "construct_at k s = Some (c, r) \<Longrightarrow> length r < length s"
  "construct_cells k s = Some (cs, r) \<Longrightarrow> length r < length s"
proof (induction k s and k s arbitrary: c r and cs r rule: construct_at_construct_cells.induct)
  case (2 k s)
  obtain lc s1 where s1: "scan_cell s = Some (lc, s1)" using "2.prems" by (auto split: option.splits)
  then have l: "length s1 < length s" by (rule scan_cell_length)
  show ?case
  proof (cases s1)
    case Nil
    then show ?thesis using "2.prems" s1 l by simp
  next
    case (Cons d s2)
    consider "r = d # s2" | cs s3 e where "construct_cells k s2 = Some (cs, s3)" "scan_char e s3 = Some r" "d = CHR ''{'' \<or> d = CHR ''[''"
      using "2.prems" s1 Cons by (auto simp: bind_eq_Some_conv split: if_splits)
    then show ?thesis
    proof cases
      case 1
      then show ?thesis using l Cons by simp
    next
      case 2
      have "length s3 < length s2" using "2.IH" [OF s1 refl Cons] 2 by auto
      then show ?thesis using scan_char_length [OF 2(2)] l Cons by simp
    qed
  qed
next
  case (4 k s)
  obtain c s1 where s1: "construct_at k s = Some (c, s1)" using "4.prems" by (auto split: option.splits)
  have l: "length s1 < length s" by (rule "4.IH"(1) [OF s1])
  show ?case
  proof (cases "scan_char (CHR '','') s1")
    case None
    then show ?thesis using "4.prems" s1 l by simp
  next
    case (Some s2)
    obtain ds where ds: "construct_cells k s2 = Some (ds, r)" using "4.prems" s1 Some by auto
    have "length r < length s2" by (rule "4.IH"(2) [OF s1 refl Some ds])
    then show ?thesis using l scan_char_length [OF Some] by simp
  qed
qed simp_all

lemma construct_fuel:
  "2 * length s < k \<Longrightarrow> 2 * length s < j \<Longrightarrow> construct_at k s = construct_at j s"
  "2 * length s + 1 < k \<Longrightarrow> 2 * length s + 1 < j \<Longrightarrow> construct_cells k s = construct_cells j s"
proof (induction k s and k s arbitrary: j and j rule: construct_at_construct_cells.induct)
  case (2 k s)
  obtain i where j: "j = Suc i" using "2.prems"(2) by (cases j) auto
  show ?case
  proof (cases "scan_cell s")
    case (Some a)
    obtain lc r where a: "a = (lc, r)" by (cases a)
    show ?thesis
    proof (cases r)
      case (Cons c r')
      have "length r < length s" using scan_cell_length Some a by blast
      then have len: "2 * length r' + 1 < k" "2 * length r' + 1 < i" using "2.prems" j Cons by auto
      have "construct_cells k r' = construct_cells i r'" if "c = CHR ''{'' \<or> c = CHR ''[''"
        using that "2.IH"(1) [OF Some [unfolded a] refl Cons _ _ len] "2.IH"(2) [OF Some [unfolded a] refl Cons _ _ _ len]
        by (cases "c = CHR ''{''") simp_all
      then show ?thesis using j Some a Cons by simp
    qed (use j Some a in simp)
  qed (use j in simp)
next
  case (4 k s)
  obtain i where j: "j = Suc i" using "4.prems"(2) by (cases j) auto
  have one: "construct_at k s = construct_at i s" by (rule "4.IH"(1)) (use "4.prems" j in simp_all)
  show ?case
  proof (cases "construct_at k s")
    case (Some a)
    obtain c r where a: "a = (c, r)" by (cases a)
    have eq: "construct_at k s = Some (c, r)" "construct_at i s = Some (c, r)" using Some one by (simp_all add: a)
    show ?thesis
    proof (cases "scan_char (CHR '','') r")
      case s: (Some r')
      have "length r' < length s" using construct_length(1) Some a scan_char_length [OF s] by fastforce
      then have "construct_cells k r' = construct_cells i r'"
        by (intro "4.IH"(2) [OF Some [unfolded a] refl s]) (use "4.prems" j in simp_all)
      then show ?thesis using eq s unfolding j construct_cells.simps by simp
    qed (use eq in \<open>unfold j construct_cells.simps, simp\<close>)
  qed (use one in \<open>unfold j construct_cells.simps, simp\<close>)
qed simp_all

end
