(* ===== verification/Layout_Restore.thy ===== *)
theory Layout_Restore
  imports Layout_Props Layout_Print
begin

text \<open>
  Restoring a saved layout: a layout printed from one window and parsed into another with as
  many panes is the same tree again, with the panes of the second window in their order.
\<close>

section \<open>Printed trees\<close>

lemma placed_children_range:
  assumes "placed_in h x y cs" "range_in h x y cs" "c \<in> set cs"
  shows "in_range c \<and> placed c"
  using assms
proof (induction cs arbitrary: x y)
  case (Cons d cs)
  have "set_offsets x y d = d" using Cons.prems(1) by (cases d) simp
  then have "in_range d" using range_in_Cons(1) [OF Cons.prems(2)] by simp
  then show ?case using Cons.prems range_in_Cons(4,5) [OF Cons.prems(2)] Cons.IH by (auto split: if_splits)
qed simp

lemma placed_child:
  assumes "lay_ok c" "in_range c" "placed c" "d \<in> set (lc_cells c)"
  shows "lay_ok d" "in_range d" "placed d" "lc_height d < lc_height c"
  using lay_ok_child(1,4) [OF assms(1,4)] placed_children_range [OF _ range_in_node [OF assms(1,2)] assms(4)] height_child [OF assms(4)] assms(3)
  by (simp_all add: placed_sel [of c])

lemma placed_text_ok: "lay_ok c \<Longrightarrow> in_range c \<Longrightarrow> placed c \<Longrightarrow> text_ok c"
proof (induction "lc_height c" arbitrary: c rule: less_induct)
  case less
  have "\<forall>d\<in>set (lc_cells c). text_ok d" using placed_child [OF less.prems] less.hyps by blast
  then show ?case using less.prems by (cases c) (auto simp: in_range_def)
qed

lemma fix_children_placed:
  assumes "placed_in h x y cs" "range_in h x y cs" "\<And>c. c \<in> set cs \<Longrightarrow> lay_ok c \<and> layout_fix_offsets c = c"
  shows "fix_children h x y cs = cs"
  using assms
proof (induction cs arbitrary: x y)
  case (Cons c cs)
  have "set_offsets x y c = c" using Cons.prems(1) by (cases c) simp
  moreover have "layout_fix_offsets c = c" "lay_ok c" using Cons.prems(3) by simp_all
  ultimately show ?case using Cons.prems(1,3) range_in_Cons(2-5) [OF Cons.prems(2)] Cons.IH by (cases h) (simp_all add: fix_children_Cons)
qed simp

lemma fix_offsets_placed: "lay_ok c \<Longrightarrow> in_range c \<Longrightarrow> placed c \<Longrightarrow> layout_fix_offsets c = c"
proof (induction "lc_height c" arbitrary: c rule: less_induct)
  case less
  have "fix_children (lc_type c = LAYOUT_LEFTRIGHT) (lc_xoff c) (lc_yoff c) (lc_cells c) = lc_cells c"
  proof (cases "lc_type c = LAYOUT_WINDOWPANE")
    case True
    then show ?thesis using less.prems(1) lay_ok_leaf by fastforce
  next
    case False
    show ?thesis
      by (rule fix_children_placed [OF _ range_in_node [OF less.prems(1,2) False]])
        (use less.prems placed_child [OF less.prems] less.hyps in \<open>auto simp: placed_sel\<close>)
  qed
  then show ?case by (cases c) simp
qed

section \<open>Assigning the panes\<close>

text \<open>Containers without a pane; then the panes and the tree without panes say all.\<close>

fun bare :: "layout_cell \<Rightarrow> bool" where
  "bare (Cell t sx sy xoff yoff wp cs) = ((t = LAYOUT_WINDOWPANE \<longrightarrow> cs = []) \<and> (t \<noteq> LAYOUT_WINDOWPANE \<longrightarrow> wp = None) \<and> (\<forall>c\<in>set cs. bare c))"

lemma unassigned_sel [simp]:
  "lc_type (unassigned c) = lc_type c" "lc_sx (unassigned c) = lc_sx c" "lc_sy (unassigned c) = lc_sy c"
  "lc_xoff (unassigned c) = lc_xoff c" "lc_yoff (unassigned c) = lc_yoff c" "lc_size t (unassigned c) = lc_size t c"
  "lc_cells (unassigned c) = map unassigned (lc_cells c)"
  by (cases c; simp)+

lemma length_cell_panes_unassigned [simp]: "length (cell_panes (unassigned c)) = length (cell_panes c)"
  by (induction c) (auto simp: length_concat comp_def intro: arg_cong [where f = sum_list])

lemma fills_unassigned: "fills t (map unassigned cs) = fills t cs"
  by (induction cs) simp_all

lemma placed_in_unassigned: "(\<And>c. c \<in> set cs \<Longrightarrow> placed (unassigned c) = placed c) \<Longrightarrow>
    placed_in h x y (map unassigned cs) = placed_in h x y cs"
proof (induction cs arbitrary: x y)
  case (Cons c cs)
  have "placed_in h x' y' (map unassigned cs) = placed_in h x' y' cs" for x' y' using Cons.prems by (intro Cons.IH) simp
  then show ?case using Cons.prems [of c] by (cases h) simp_all
qed simp

lemma placed_unassigned: "placed (unassigned c) = placed c"
  by (induction c) (simp add: placed_in_unassigned)

lemma text_ok_unassigned: "text_ok (unassigned c) = text_ok c"
  by (induction c) auto

lemma unassigned_idem [simp]: "unassigned (unassigned c) = unassigned c"
  by (induction c) simp

lemma bare_unassigned: "bare c \<Longrightarrow> bare (unassigned c)"
  by (induction c) auto

lemma lay_ok_bare: "lay_ok c \<longleftrightarrow> lay_ok (unassigned c) \<and> bare c"
  by (induction c) (auto simp: fills_unassigned)

lemma assign_ok:
  "length ps = length (cell_panes c) \<Longrightarrow> text_ok c \<Longrightarrow> bare c \<Longrightarrow>
   \<exists>d. layout_assign (ps @ qs) c = Some (qs, d) \<and> unassigned d = unassigned c \<and> cell_panes d = map Some ps \<and> bare d"
  "length ps = length (concat (map cell_panes cs)) \<Longrightarrow> (\<forall>c\<in>set cs. text_ok c) \<Longrightarrow> (\<forall>c\<in>set cs. bare c) \<Longrightarrow>
   \<exists>ds. assign_cells (ps @ qs) cs = Some (qs, ds) \<and> map unassigned ds = map unassigned cs \<and>
     concat (map cell_panes ds) = map Some ps \<and> (\<forall>d\<in>set ds. bare d)"
proof (induction "ps @ qs" c and "ps @ qs" cs arbitrary: ps qs and ps qs rule: layout_assign_assign_cells.induct)
  case (1 t sx sy xoff yoff wp cs)
  show ?case
  proof (cases "t = LAYOUT_WINDOWPANE")
    case True
    then obtain p where "ps = [p]" using "1.prems"(1) by (cases ps) auto
    then show ?thesis using True "1.prems"(2) by simp
  next
    case False
    then have "\<exists>ds. assign_cells (ps @ qs) cs = Some (qs, ds) \<and> map unassigned ds = map unassigned cs \<and>
      concat (map cell_panes ds) = map Some ps \<and> (\<forall>d\<in>set ds. bare d)"
      using "1.prems" by (intro "1.hyps") auto
    then show ?thesis using False "1.prems" by auto
  qed
next
  case (3 c cs)
  define p1 where "p1 = take (length (cell_panes c)) ps"
  define p2 where "p2 = drop (length (cell_panes c)) ps"
  have ps: "ps = p1 @ p2" "length p1 = length (cell_panes c)" "length p2 = length (concat (map cell_panes cs))"
    using "3.prems"(1) by (simp_all add: p1_def p2_def)
  have "\<exists>d. layout_assign (p1 @ p2 @ qs) c = Some (p2 @ qs, d) \<and> unassigned d = unassigned c \<and> cell_panes d = map Some p1 \<and> bare d"
    by (rule "3.hyps"(1)) (use ps "3.prems"(2,3) in auto)
  then obtain d where d: "layout_assign (p1 @ p2 @ qs) c = Some (p2 @ qs, d)" "unassigned d = unassigned c" "cell_panes d = map Some p1" "bare d"
    by blast
  have "\<exists>ds. assign_cells (p2 @ qs) cs = Some (qs, ds) \<and> map unassigned ds = map unassigned cs \<and>
      concat (map cell_panes ds) = map Some p2 \<and> (\<forall>d\<in>set ds. bare d)"
    by (rule "3.hyps"(2)) (use ps d(1) "3.prems"(2,3) in auto)
  then show ?case using d ps(1) by auto
qed simp

section \<open>Counting the cells\<close>

lemma count_cells:
  "length (cell_panes c) < UINT_MOD \<Longrightarrow> layout_count_cells c = length (cell_panes c)"
proof (induction c)
  case (Cell t sx sy xoff yoff wp cs)
  show ?case
  proof (cases "t = LAYOUT_WINDOWPANE")
    case False
    have len: "sum_list (map (\<lambda>c. length (cell_panes c)) cs) < UINT_MOD"
      using Cell.prems False by (simp add: length_concat comp_def)
    have "layout_count_cells c = length (cell_panes c)" if "c \<in> set cs" for c
      using Cell.IH [OF that] len member_le_sum_list [of "length (cell_panes c)" "map (\<lambda>c. length (cell_panes c)) cs"] that by simp
    then have "sum_list (map layout_count_cells cs) = sum_list (map (\<lambda>c. length (cell_panes c)) cs)"
      by (intro arg_cong [where f = sum_list]) simp
    then have "foldl (\<lambda>n c. uadd n (layout_count_cells c)) 0 cs = sum_list (map (\<lambda>c. length (cell_panes c)) cs)"
      using foldl_uadd_sum [of 0 layout_count_cells cs] len by simp
    then show ?thesis using False by (simp add: length_concat comp_def)
  qed simp
qed

section \<open>The checksum\<close>

lemma hex_char_ok: "d < 16 \<Longrightarrow> is_xdigit (hex_char d) \<and> xdigit_value (hex_char d) = d \<and> tolower (hex_char d) \<noteq> CHR ''x'' \<and>
    \<not> is_space (hex_char d) \<and> hex_char d \<notin> {CHR ''-'', CHR ''+''}"
  by (simp add: less_Suc_eq numeral_eq_Suc) (elim disjE; simp add: hex_char_def digit_char_def is_xdigit_def is_digit_def
      xdigit_value_def tolower_def char_code_def is_space_def char_of_def bit_0)

lemma print_hex_ok:
  "print_hex n \<noteq> [] \<and> set (print_hex n) \<subseteq> hex_char ` {..<16} \<and> hex_value (print_hex n) = n"
proof (induction n rule: print_hex.induct)
  case (1 n)
  show ?case
  proof (cases "n < 16")
    case True
    then show ?thesis using hex_char_ok [of n] by (subst (1 2 3) print_hex.simps) (simp add: hex_value_def)
  next
    case False
    then show ?thesis using 1 hex_char_ok [of "n mod 16"]
      by (subst (1 2 3) print_hex.simps) (auto simp: hex_value_def)
  qed
qed

lemma length_print_hex: "0 < k \<Longrightarrow> n < 16 ^ k \<Longrightarrow> length (print_hex n) \<le> k"
proof (induction k arbitrary: n)
  case (Suc k)
  show ?case
  proof (cases "n < 16")
    case False
    then have "k \<noteq> 0" using Suc.prems by (cases k) auto
    moreover have "n div 16 < 16 ^ k" using Suc.prems by (simp add: less_mult_imp_div_less mult.commute)
    ultimately have "length (print_hex (n div 16)) \<le> k" using Suc.IH by simp
    then show ?thesis using False by (subst print_hex.simps) simp
  qed (subst print_hex.simps, simp)
qed simp

lemma scan_printed_hex:
  fixes csum :: "16 word"
  shows "scan_hex (pad4 (print_hex (unat csum)) @ '','' @ s) = Some csum \<and> length (pad4 (print_hex (unat csum))) = 4"
proof -
  let ?p = "print_hex (unat csum)"
  have lt: "unat csum < 65536" using unsigned_less [of csum] by simp
  have p: "?p \<noteq> []" "set ?p \<subseteq> hex_char ` {..<16}" "hex_value ?p = unat csum" using print_hex_ok by blast+
  have each: "is_xdigit c \<and> tolower c \<noteq> CHR ''x'' \<and> \<not> is_space c \<and> c \<notin> {CHR ''-'', CHR ''+''}" if "c \<in> set ?p" for c
    using p(2) that hex_char_ok by fastforce
  obtain c cs where c: "?p = c # cs" using p(1) by (cases ?p) auto
  have "dropWhile is_space (replicate k (CHR '' '') @ ?p @ '','' @ s) = ?p @ '','' @ s" for k
    using each [of c] by (induction k) (simp_all add: c, simp add: is_space_def char_code_def)
  then have d: "dropWhile is_space (pad4 ?p @ '','' @ s) = ?p @ '','' @ s" by (simp add: pad4_def)
  have no: "tolower (hd (tl (?p @ '','' @ s))) \<noteq> CHR ''x''"
    using each [of "hd cs"] by (cases cs) (simp_all add: c tolower_def char_code_def)
  have t: "takeWhile is_xdigit (?p @ '','' @ s) = ?p"
    using each by (subst takeWhile_append2) (auto simp: is_xdigit_def is_digit_def char_code_def)
  have h: "hd (?p @ '','' @ s) \<noteq> CHR ''-''" "hd (?p @ '','' @ s) \<noteq> CHR ''+''" using each [of c] by (simp_all add: c)
  have "length ?p \<le> 4" using lt by (intro length_print_hex) simp_all
  moreover have "word_of_nat (unat csum) = csum" by simp
  ultimately show ?thesis using h no t p(1,3) lt unfolding scan_hex_def Let_def d by (simp add: pad4_def)
qed

lemma dump_parts:
  assumes "layout_dump root = Some s" "text_ok root"
  shows "scan_hex s = Some (layout_checksum (layout_text root)) \<and> 5 \<le> length s \<and> drop 5 s = layout_text root"
proof -
  obtain r where r: "layout_append BUFSIZ root [] = Some r" "s = pad4 (print_hex (unat (layout_checksum r))) @ '','' @ r"
    using assms(1) by (auto simp: layout_dump_def)
  have "r = layout_text root" using append_text [OF r(1) assms(2)] by simp
  then show ?thesis using scan_printed_hex [of "layout_checksum r" r] r(2) by auto
qed

section \<open>The number of panes\<close>

lemma length_commas: "sum_list (map length ss) \<le> length (commas ss)"
  by (induction ss rule: commas.induct) auto

lemma panes_le_text: "length (cell_panes c) \<le> length (layout_text c)"
proof (induction c)
  case (Cell t sx sy xoff yoff wp cs)
  show ?case
  proof (cases "t = LAYOUT_WINDOWPANE")
    case True
    then show ?thesis using length_cell_text [of sx sy xoff yoff] by simp
  next
    case False
    have "sum_list (map (\<lambda>c. length (cell_panes c)) cs) \<le> sum_list (map (\<lambda>c. length (layout_text c)) cs)"
      using Cell.IH by (intro sum_list_mono)
    also have "\<dots> \<le> length (commas (map layout_text cs))" using length_commas [of "map layout_text cs"] by (simp add: comp_def)
    finally show ?thesis using False by (simp add: length_concat comp_def)
  qed
qed

lemma foldM_append_length:
  "foldM (\<lambda>c buf. Option.bind (f c buf) (\<lambda>buf. cat_fits len buf '','')) cs buf = Some r \<Longrightarrow> length buf < len \<Longrightarrow> length r < len"
  by (induction cs arbitrary: buf) (auto simp: bind_eq_Some_conv cat_fits_Some)

lemma append_length: "layout_append len c buf = Some r \<Longrightarrow> length r < len"
proof (cases c)
  case (Cell t sx sy xoff yoff wp cs)
  assume a: "layout_append len c buf = Some r"
  show ?thesis
  proof (cases "t = LAYOUT_WINDOWPANE")
    case True
    then show ?thesis using a Cell by (auto simp: bind_eq_Some_conv cat_fits_Some split: if_splits)
  next
    case False
    let ?b = "(buf @ cell_text sx sy xoff yoff) @ [open_of t]"
    obtain s where s: "foldM (\<lambda>c buf. Option.bind (layout_append len c buf) (\<lambda>buf. cat_fits len buf '','')) cs ?b = Some s"
      "r = butlast s @ [close_of t]" "length ?b < len"
      using a Cell False by (auto simp: cat_fits_Some bind_eq_Some_conv open_of_def close_of_def split: if_splits)
    have "length s < len" by (rule foldM_append_length [OF s(1,3)])
    then show ?thesis using s(2,3) by simp
  qed
qed

lemma dump_panes:
  assumes "layout_dump root = Some s" "text_ok root"
  shows "length (cell_panes root) < UINT_MOD"
proof -
  obtain r where r: "layout_append BUFSIZ root [] = Some r" using assms(1) by (auto simp: layout_dump_def)
  have "length (layout_text root) < BUFSIZ" using append_length [OF r] append_text [OF r assms(2)] by simp
  then show ?thesis using panes_le_text [of root] by (simp add: BUFSIZ_def)
qed

lemma panes_ok_length: "panes_ok root ps \<Longrightarrow> length (cell_panes root) = length ps"
proof -
  assume p: "panes_ok root ps"
  then have "card (set (cell_panes root)) = card (set ps)" by (simp add: panes_ok_def card_image)
  moreover have "card (set (cell_panes root)) = length (cell_panes root)" "card (set ps) = length ps"
    using p unfolding panes_ok_def by (blast intro: distinct_card)+
  ultimately show ?thesis by simp
qed

section \<open>Nothing left to do\<close>

lemma fix_pane_same: "pane_shows wsx wsy lc wp \<Longrightarrow> fix_pane wsx wsy lc wp = Some wp"
  by (cases wp) (simp add: fix_pane_def pane_shows_def window_pane_resize_def)

lemma mapM_same: "(\<And>x. x \<in> set xs \<Longrightarrow> f x = Some x) \<Longrightarrow> mapM f xs = Some xs"
  by (induction xs) simp_all

lemma fix_panes_same:
  assumes "lw_root w = Some root" "\<forall>wp\<in>set (lw_panes w). shown wsx wsy root wp"
  shows "layout_fix_panes wsx wsy w = Some w"
proof -
  have "(case pane_cell root (lp_id wp) of None \<Rightarrow> Some wp | Some lc \<Rightarrow> fix_pane wsx wsy lc wp) = Some wp" if "wp \<in> set (lw_panes w)" for wp
    using assms(2) that by (auto simp: shown_def fix_pane_same)
  then show ?thesis using assms(1) by (simp add: layout_fix_panes_def mapM_same)
qed

lemma resize_change_same: "n < SIZE_LIMIT \<Longrightarrow> resize_change n n lim n = 0"
  by (simp add: resize_change_def Let_def usub_eq int_of_u_def)

lemma resize_same:
  assumes "lw_root w = Some root" "lc_sx root = lw_sx w" "lc_sy root = lw_sy w" "tree_ok root" "placed root"
    "\<forall>wp\<in>set (lw_panes w). shown (lw_sx w) (lw_sy w) root wp"
  shows "layout_resize (lw_sx w) (lw_sy w) w = Some w"
proof -
  have "layout_fix_offsets root = root" using fix_offsets_placed tree_okD(1,6) [OF assms(4)] assms(5) by blast
  then have "w\<lparr>lw_root := Some (layout_fix_offsets root)\<rparr> = w" using assms(1) by simp
  moreover have "resize_direction LAYOUT_LEFTRIGHT (lw_sx w) (lw_sx w) root = Some root"
    "resize_direction LAYOUT_TOPBOTTOM (lw_sy w) (lw_sy w) root = Some root"
    using resize_change_same tree_okD(4,5) [OF assms(4)] assms(2,3) by (simp_all add: resize_direction_def lc_size_def)
  ultimately show ?thesis using fix_panes_same [OF assms(1,6)] assms(1) by (simp add: layout_resize_def)
qed

lemma bare_eq:
  "bare c \<Longrightarrow> bare d \<Longrightarrow> unassigned c = unassigned d \<Longrightarrow> cell_panes c = cell_panes d \<Longrightarrow> c = d"
proof (induction c arbitrary: d)
  case (Cell t sx sy xoff yoff wp cs)
  obtain wp' ds where d: "d = Cell t sx sy xoff yoff wp' ds" "map unassigned cs = map unassigned ds"
    using Cell.prems(3) by (cases d) simp
  show ?case
  proof (cases "t = LAYOUT_WINDOWPANE")
    case False
    have "concat (map cell_panes cs) = concat (map cell_panes ds)" using Cell.prems(4) d(1) False by simp
    moreover have "\<forall>e\<in>set cs. bare e" "\<forall>e\<in>set ds. bare e" using Cell.prems(1,2) d(1) by simp_all
    ultimately have "cs = ds" using d(2) Cell.IH
    proof (induction cs arbitrary: ds)
      case (Cons c cs)
      obtain e es where ds: "ds = e # es" "unassigned c = unassigned e" "map unassigned cs = map unassigned es"
        using Cons.prems(4) by (cases ds) auto
      have "length (cell_panes c) = length (cell_panes e)" using ds(2) length_cell_panes_unassigned by metis
      then have "cell_panes c = cell_panes e" "concat (map cell_panes cs) = concat (map cell_panes es)"
        using Cons.prems(1) ds(1) by simp_all
      have "c = e" by (rule Cons.prems(5)) (use Cons.prems(2,3) ds \<open>cell_panes c = cell_panes e\<close> in auto)
      moreover have "cs = es"
        by (rule Cons.IH [OF \<open>concat (map cell_panes cs) = concat (map cell_panes es)\<close> _ _ ds(3)])
          (use Cons.prems(2,3) ds(1) in \<open>auto intro: Cons.prems(5)\<close>)
      ultimately show ?case using ds(1) by blast
    qed simp
    then show ?thesis using False Cell.prems(1,2) d(1) by simp
  qed (use Cell.prems d in simp)
qed

section \<open>The property\<close>

text \<open>
  C6: restoring a layout. The layout of a window that can be reached, printed by layout_dump and
  given to layout_parse for any window of its size with as many panes, is put back: the tree
  has the same cells, with the panes of the window in their order, and they are moved and
  resized to their cells. In the window it came from, with its panes still in the order of the
  cells, it is the same tree.
\<close>

theorem layout_restore:
  assumes "reachable saved" "lw_root saved = Some root" "layout_dump root = Some s"
    "reachable w" "screens_ok w" "length (ids w) = length (ids saved)" "lc_sx root = lw_sx w" "lc_sy root = lw_sy w"
  shows "\<exists>w' root'. layout_parse s w = Some (True, w') \<and> lw_root w' = Some root' \<and> window_ok w' \<and> ids w' = ids w \<and>
    unassigned root' = unassigned root \<and> cell_panes root' = map Some (ids w) \<and>
    (cell_panes root = map Some (ids w) \<longrightarrow> root' = root)"
proof -
  have r: "tree_ok root" "placed root" "panes_ok root (ids saved)"
    using window_invariant [OF assms(1)] assms(2) by auto
  note t = tree_okD [OF r(1)]
  have ps: "panes_ok p (ids w)" if "cell_panes p = map Some (ids w)" for p
    using window_invariant [OF assms(4)] that by (auto simp: panes_ok_def distinct_map)
  have lim: "lw_sx w < SIZE_LIMIT" "lw_sy w < SIZE_LIMIT" using window_invariant [OF assms(4)] by auto
  have tx: "text_ok root" by (rule placed_text_ok [OF t(1,6) r(2)])
  have b: "bare root" using t(1) lay_ok_bare by blast
  have len: "length (ids w) = length (cell_panes root)" using panes_ok_length [OF r(3)] assms(6) by simp
  have "\<exists>d. layout_assign (ids w @ []) (unassigned root) = Some ([], d) \<and> unassigned d = unassigned (unassigned root) \<and>
      cell_panes d = map Some (ids w) \<and> bare d"
    by (rule assign_ok(1)) (simp_all add: len text_ok_unassigned tx bare_unassigned b)
  then obtain d where d: "layout_assign (ids w) (unassigned root) = Some ([], d)" "unassigned d = unassigned root"
    "cell_panes d = map Some (ids w)" "bare d" by auto
  have sel: "lc_sx d = lw_sx w" "lc_sy d = lw_sy w" "lc_xoff d = 0" "lc_yoff d = 0"
    using arg_cong [OF d(2), of lc_sx] arg_cong [OF d(2), of lc_sy] arg_cong [OF d(2), of lc_xoff] arg_cong [OF d(2), of lc_yoff]
      assms(7,8) t(2,3) by simp_all
  have "lay_ok d" "placed d"
    using d(2,4) t(1) r(2) lay_ok_bare placed_unassigned by metis+
  then have dt: "tree_ok d" using sel lim by (simp add: tree_ok_def)
  have fo: "layout_fix_offsets d = d" by (rule fix_offsets_placed [OF tree_okD(1,6) [OF dt] \<open>placed d\<close>])
  let ?w = "(window_resize (lw_sx w) (lw_sy w) w)\<lparr>lw_root := Some d\<rparr>"
  have idw: "ids ?w = ids w" by (simp add: ids_def window_resize_def)
  have "layout_fix_panes (lw_sx w) (lw_sy w) ?w \<noteq> None"
    using assms(5) lim by (intro fix_panes_runs [OF _ _ dt]) (simp_all add: screens_ok_def window_resize_def)
  then obtain v where v: "layout_fix_panes (lw_sx w) (lw_sy w) ?w = Some v" by blast
  have vsel: "lw_root v = Some d" "lw_sx v = lw_sx w" "lw_sy v = lw_sy w"
    using fix_panes_sel [OF v] by (simp_all add: window_resize_def)
  have "window_ok (v\<lparr>lw_sx := lw_sx w, lw_sy := lw_sy w\<rparr>)"
    by (rule fix_panes_ok [OF v _ dt \<open>placed d\<close> _ lim]) (use ps [OF d(3)] idw in simp_all)
  then have ok: "window_ok v" using vsel(2,3) same_size_self [of v] by metis
  have vids: "ids v = ids w" using fix_panes_each [OF v _ tree_okD(1) [OF dt]] idw by (auto simp: ids_def window_resize_def)
  have rs: "layout_resize (lw_sx w) (lw_sy w) v = Some v"
  proof -
    have "\<forall>wp\<in>set (lw_panes v). shown (lw_sx v) (lw_sy v) d wp" using ok vsel(1) by (auto simp: window_ok_iff)
    then show ?thesis using resize_same [OF vsel(1) _ _ dt \<open>placed d\<close>] unfolding vsel(2,3) sel by blast
  qed
  have n: "layout_count_cells (unassigned root) = length (lw_panes w)"
    using count_cells [of "unassigned root"] dump_panes [OF assms(3) tx] len by (simp add: ids_def)
  have ce: "close_extra (layout_count_cells (unassigned root)) (length (lw_panes w)) (unassigned root) = Some (True, unassigned root)"
    using n by (simp add: close_extra.simps Let_def)
  have "layout_parse s w = Some (True, window_resize (lw_sx w) (lw_sy w) v)"
    using dump_parts [OF assms(3) tx] layout_construct_text [OF tx] ce d(1) fo sel v rs
    by (simp add: layout_parse_def Let_def not_less [symmetric])
  moreover have "window_resize (lw_sx w) (lw_sy w) v = v" using vsel(2,3) same_size_self [of v] unfolding window_resize_def by metis
  moreover have "cell_panes root = map Some (ids w) \<longrightarrow> d = root" using bare_eq [OF d(4) b d(2)] d(3) by simp
  ultimately show ?thesis using vsel(1) ok vids d(2,3) by auto
qed

lemma sample_dump: "layout_dump (Cell LAYOUT_WINDOWPANE 9 9 0 0 (Some 0) []) \<noteq> None"
  by (simp add: layout_dump_def cat_fits_def cell_text_def print_unsigned.simps BUFSIZ_def)

theorem layout_restore_witness:
  "\<exists>s w'. layout_dump (Cell LAYOUT_WINDOWPANE 9 9 0 0 (Some 0) []) = Some s \<and>
     layout_parse s sample_layout = Some (True, w') \<and> lw_root w' = lw_root sample_layout \<and> ids w' = [0]"
proof -
  obtain s where s: "layout_dump (Cell LAYOUT_WINDOWPANE 9 9 0 0 (Some 0) []) = Some s" using sample_dump by blast
  show ?thesis
    using layout_restore [OF sample_reachable _ s sample_reachable sample_screens] s by (auto simp: sample_layout_def sample_pane_def ids_def)
qed

text \<open>A tree that can be printed and read, but with a container that holds one cell.\<close>

definition lonely_cell :: layout_cell where
  "lonely_cell = Cell LAYOUT_TOPBOTTOM 9 9 0 0 None
     [Cell LAYOUT_LEFTRIGHT 9 4 0 0 None [Cell LAYOUT_WINDOWPANE 4 4 0 0 None [], Cell LAYOUT_WINDOWPANE 4 4 5 0 None []],
      Cell LAYOUT_LEFTRIGHT 9 4 0 5 None [Cell LAYOUT_WINDOWPANE 9 4 0 5 None []]]"

text \<open>
  C32: layout_parse trusts its string. A layout with a container of one cell passes the checks;
  in a window with fewer panes than cells, closing the bottom right cell then follows a null
  pointer: the cell has no sibling to give its space to. With the right number of panes the
  same string is accepted up to the assignment of the panes.
\<close>

theorem layout_parse_lonely_cell:
  assumes "layout_dump lonely_cell = Some s" "length (lw_panes w) < 3"
  shows "layout_construct (drop 5 s) = Some (lonely_cell, []) \<and> layout_parse s w = None"
proof -
  have tx: "text_ok lonely_cell" and un: "unassigned lonely_cell = lonely_cell" by (simp_all add: lonely_cell_def)
  have n: "layout_count_cells lonely_cell = 3" using count_cells [of lonely_cell] by (simp add: lonely_cell_def)
  have br: "layout_find_bottomright lonely_cell = Some [1, 0]" by (simp add: layout_find_bottomright_def lonely_cell_def)
  have "layout_destroy_cell [1, 0] lonely_cell = None"
    by (simp add: layout_destroy_cell_def lonely_cell_def lget_def)
  then have "close_extra 3 (length (lw_panes w)) lonely_cell = None"
    using n br assms(2) by (simp add: close_extra.simps Let_def)
  then show ?thesis
    using dump_parts [OF assms(1) tx] layout_construct_text [OF tx] n un by (simp add: layout_parse_def Let_def not_less [symmetric])
qed

theorem layout_parse_lonely_cell_witness:
  "\<exists>s. layout_dump lonely_cell = Some s \<and> layout_parse s sample_layout = None"
proof -
  have "layout_dump lonely_cell \<noteq> None"
    by (simp add: layout_dump_def lonely_cell_def cat_fits_def strlcat_def cell_text_def print_unsigned.simps BUFSIZ_def Let_def)
  then obtain s where s: "layout_dump lonely_cell = Some s" by blast
  show ?thesis using layout_parse_lonely_cell [OF s, of sample_layout] s by (simp add: sample_layout_def)
qed

end
