(* ===== verification/Session.thy ===== *)
theory Session
  imports C_Library "HOL-Library.List_Lexorder" "HOL-Library.Char_ord"
begin

text \<open>
  session.c, the winlinks of window.c, and the operations of server-fn.c, cmd-new-session.c and
  cmd-swap-window.c that change which windows are linked to which sessions. A tree of
  compat/tree.h is the list of its elements in order. A winlink is named by its index, which is
  its key in the tree of its session; a session and a window are named by numbers, which stand
  for their addresses. None is a call of fatal or a null pointer that is followed.
\<close>

section \<open>State\<close>

record winlink =
  wl_idx :: int
  wl_window :: "nat option"
  wl_flags :: "32 word"

definition WINLINK_ALERTFLAGS :: "32 word" where "WINLINK_ALERTFLAGS = 0xf"

abbreviation IDX_MAX :: int where "IDX_MAX \<equiv> 2147483647"

record session =
  s_name :: string
  s_curw :: "int option"
  s_lastw :: "int list"
  s_windows :: "winlink list"

text \<open>
  The sessions that exist, those of the tree of sessions in the order of their names, the
  groups, and the windows with their reference counts.
\<close>

record server =
  sv_session :: "nat \<Rightarrow> session option"
  sv_sessions :: "nat list"
  sv_groups :: "nat list list"
  sv_refs :: "nat \<Rightarrow> nat option"
  sv_next_session :: nat

section \<open>Winlinks\<close>

definition winlink_find_by_window :: "winlink list \<Rightarrow> nat \<Rightarrow> winlink option" where
  "winlink_find_by_window wwl w = find (\<lambda>wl. wl_window wl = Some w) wwl"

text \<open>RB_FIND, and the function, which calls fatalx for a negative index.\<close>

definition rb_find :: "winlink list \<Rightarrow> int \<Rightarrow> winlink option" where
  "rb_find wwl idx = find (\<lambda>wl. wl_idx wl = idx) wwl"

definition winlink_find_by_index :: "winlink list \<Rightarrow> int \<Rightarrow> winlink option option" where
  "winlink_find_by_index wwl idx = (if idx < 0 then None else Some (rb_find wwl idx))"

function next_index_loop :: "winlink list \<Rightarrow> int \<Rightarrow> int \<Rightarrow> int option" where
  "next_index_loop wwl idx i =
     (if i < 0 \<or> IDX_MAX < i \<or> idx < 0 \<or> IDX_MAX < idx then None
      else if rb_find wwl i = None then Some i
      else let i' = (if i = IDX_MAX then 0 else i + 1) in
        if i' = idx then Some (-1) else next_index_loop wwl idx i')"
  by auto
termination
  by (relation "measure (\<lambda>(wwl, idx, i). nat (if i < idx then idx - i else idx - i + 2147483648))") (auto split: if_splits)

declare next_index_loop.simps [simp del]

definition winlink_next_index :: "winlink list \<Rightarrow> int \<Rightarrow> int option" where
  "winlink_next_index wwl idx = next_index_loop wwl idx idx"

definition winlink_count :: "winlink list \<Rightarrow> nat" where
  "winlink_count wwl = length wwl"

text \<open>The tree with the new winlink, and its index; Some None is the null pointer.\<close>

definition winlink_add :: "winlink list \<Rightarrow> int \<Rightarrow> (winlink list \<times> int) option option" where
  "winlink_add wwl idx =
     (let new = (\<lambda>idx. (insort_key wl_idx \<lparr>wl_idx = idx, wl_window = None, wl_flags = 0\<rparr> wwl, idx)) in
      if idx < 0 then
        map_option (\<lambda>idx. if idx = -1 then None else Some (new idx)) (winlink_next_index wwl (- idx - 1))
      else map_option (\<lambda>wl. if wl \<noteq> None then None else Some (new idx)) (winlink_find_by_index wwl idx))"

definition update_winlink :: "int \<Rightarrow> (winlink \<Rightarrow> winlink) \<Rightarrow> winlink list \<Rightarrow> winlink list" where
  "update_winlink idx f wwl = map (\<lambda>wl. if wl_idx wl = idx then f wl else wl) wwl"

definition winlink_set_window :: "int \<Rightarrow> nat \<Rightarrow> winlink list \<times> (nat \<Rightarrow> nat option) \<Rightarrow> (winlink list \<times> (nat \<Rightarrow> nat option)) option" where
  "winlink_set_window idx w = (\<lambda>(wwl, refs). do {
     n \<leftarrow> refs w;
     Some (update_winlink idx (\<lambda>wl. wl\<lparr>wl_window := Some w\<rparr>) wwl, refs(w \<mapsto> n + 1))
   })"

text \<open>The window goes with its last winlink.\<close>

definition winlink_remove :: "int \<Rightarrow> winlink list \<times> (nat \<Rightarrow> nat option) \<Rightarrow> (winlink list \<times> (nat \<Rightarrow> nat option)) option" where
  "winlink_remove idx = (\<lambda>(wwl, refs). do {
     wl \<leftarrow> rb_find wwl idx;
     let wwl = filter (\<lambda>wl. wl_idx wl \<noteq> idx) wwl;
     (case wl_window wl of
        None \<Rightarrow> Some (wwl, refs)
      | Some w \<Rightarrow> do {
          n \<leftarrow> refs w;
          if n = 0 then None
          else if n = 1 then Some (wwl, refs(w := None))
          else Some (wwl, refs(w \<mapsto> n - 1))
        })
   })"

text \<open>RB_NEXT and RB_PREV, which follow the pointers of a winlink in the tree.\<close>

definition winlink_next :: "winlink list \<Rightarrow> int \<Rightarrow> winlink option option" where
  "winlink_next wwl idx = (if rb_find wwl idx = None then None else Some (find (\<lambda>wl. idx < wl_idx wl) wwl))"

definition winlink_previous :: "winlink list \<Rightarrow> int \<Rightarrow> winlink option option" where
  "winlink_previous wwl idx = (if rb_find wwl idx = None then None else Some (find (\<lambda>wl. wl_idx wl < idx) (rev wwl)))"

definition rb_min :: "winlink list \<Rightarrow> winlink option" where
  "rb_min wwl = (if wwl = [] then None else Some (hd wwl))"

definition rb_max :: "winlink list \<Rightarrow> winlink option" where
  "rb_max wwl = (if wwl = [] then None else Some (last wwl))"

primrec winlink_next_by_number :: "nat \<Rightarrow> winlink list \<Rightarrow> int \<Rightarrow> int option" where
  "winlink_next_by_number 0 wwl idx = Some idx"
| "winlink_next_by_number (Suc n) wwl idx = do {
     r \<leftarrow> winlink_next wwl idx;
     wl \<leftarrow> (if r = None then rb_min wwl else r);
     winlink_next_by_number n wwl (wl_idx wl)
   }"

primrec winlink_previous_by_number :: "nat \<Rightarrow> winlink list \<Rightarrow> int \<Rightarrow> int option" where
  "winlink_previous_by_number 0 wwl idx = Some idx"
| "winlink_previous_by_number (Suc n) wwl idx = do {
     r \<leftarrow> winlink_previous wwl idx;
     wl \<leftarrow> (if r = None then rb_max wwl else r);
     winlink_previous_by_number n wwl (wl_idx wl)
   }"

definition winlink_stack_remove :: "int option \<Rightarrow> int list \<Rightarrow> int list" where
  "winlink_stack_remove wl stack = (case wl of None \<Rightarrow> stack | Some i \<Rightarrow> remove1 i stack)"

definition winlink_stack_push :: "int option \<Rightarrow> int list \<Rightarrow> int list" where
  "winlink_stack_push wl stack = (case wl of None \<Rightarrow> stack | Some i \<Rightarrow> i # winlink_stack_remove wl stack)"

section \<open>Moving between the windows of a session\<close>

definition clear_alerts :: "winlink \<Rightarrow> winlink" where
  "clear_alerts wl = wl\<lparr>wl_flags := wl_flags wl AND NOT WINLINK_ALERTFLAGS\<rparr>"

text \<open>What the four functions that move have in common at their end.\<close>

definition move_to :: "winlink \<Rightarrow> session \<Rightarrow> int \<times> session" where
  "move_to wl s =
     (if s_curw s = Some (wl_idx wl) then (1, s)
      else (0, s\<lparr>s_lastw := winlink_stack_push (s_curw s) (winlink_stack_remove (Some (wl_idx wl)) (s_lastw s)),
        s_curw := Some (wl_idx wl), s_windows := update_winlink (wl_idx wl) clear_alerts (s_windows s)\<rparr>))"

definition has_alert :: "winlink \<Rightarrow> bool" where
  "has_alert wl \<longleftrightarrow> wl_flags wl AND WINLINK_ALERTFLAGS \<noteq> 0"

text \<open>From a winlink on, the first with an alert.\<close>

definition session_next_alert :: "winlink list \<Rightarrow> winlink option \<Rightarrow> winlink option" where
  "session_next_alert wwl wl = (case wl of None \<Rightarrow> None | Some wl \<Rightarrow> find has_alert (dropWhile (\<lambda>x. wl_idx x < wl_idx wl) wwl))"

definition session_previous_alert :: "winlink list \<Rightarrow> winlink option \<Rightarrow> winlink option" where
  "session_previous_alert wwl wl = (case wl of None \<Rightarrow> None | Some wl \<Rightarrow> find has_alert (dropWhile (\<lambda>x. wl_idx wl < wl_idx x) (rev wwl)))"

definition session_next :: "session \<Rightarrow> bool \<Rightarrow> (int \<times> session) option" where
  "session_next s alert =
     (case s_curw s of
        None \<Rightarrow> Some (-1, s)
      | Some c \<Rightarrow> do {
          r \<leftarrow> winlink_next (s_windows s) c;
          let r = (if alert then session_next_alert (s_windows s) r else r);
          let wl = (if r \<noteq> None then r
            else if alert then session_next_alert (s_windows s) (rb_min (s_windows s)) else rb_min (s_windows s));
          (case wl of
             None \<Rightarrow> if alert then Some (-1, s) else None
           | Some wl \<Rightarrow> Some (move_to wl s))
        })"

definition session_previous :: "session \<Rightarrow> bool \<Rightarrow> (int \<times> session) option" where
  "session_previous s alert =
     (case s_curw s of
        None \<Rightarrow> Some (-1, s)
      | Some c \<Rightarrow> do {
          r \<leftarrow> winlink_previous (s_windows s) c;
          let r = (if alert then session_previous_alert (s_windows s) r else r);
          let wl = (if r \<noteq> None then r
            else if alert then session_previous_alert (s_windows s) (rb_max (s_windows s)) else rb_max (s_windows s));
          (case wl of
             None \<Rightarrow> if alert then Some (-1, s) else None
           | Some wl \<Rightarrow> Some (move_to wl s))
        })"

definition session_select :: "session \<Rightarrow> int \<Rightarrow> (int \<times> session) option" where
  "session_select s idx = map_option (\<lambda>r. case r of None \<Rightarrow> (-1, s) | Some wl \<Rightarrow> move_to wl s) (winlink_find_by_index (s_windows s) idx)"

definition session_last :: "session \<Rightarrow> (int \<times> session) option" where
  "session_last s =
     (case s_lastw s of
        [] \<Rightarrow> Some (-1, s)
      | i # _ \<Rightarrow> map_option (\<lambda>wl. move_to wl s) (rb_find (s_windows s) i))"

definition session_has :: "session \<Rightarrow> nat \<Rightarrow> winlink option" where
  "session_has s w = find (\<lambda>wl. wl_window wl = Some w) (s_windows s)"

text \<open>Leaving the current window: to the last one, or the previous, or the next.\<close>

definition leave_current :: "session \<Rightarrow> session option" where
  "leave_current s = do {
     (r, s) \<leftarrow> session_last s;
     if r = 0 then Some s
     else do {
       (r, s) \<leftarrow> session_previous s False;
       if r = 0 then Some s else map_option snd (session_next s False)
     }
   }"

section \<open>Sessions\<close>

definition session_alive :: "nat \<Rightarrow> server \<Rightarrow> bool" where
  "session_alive s sv \<longleftrightarrow> s \<in> set (sv_sessions sv)"

definition name_of :: "server \<Rightarrow> nat \<Rightarrow> string" where
  "name_of sv s = (case sv_session sv s of None \<Rightarrow> [] | Some x \<Rightarrow> s_name x)"

definition session_find :: "string \<Rightarrow> server \<Rightarrow> nat option" where
  "session_find name sv = find (\<lambda>s. name_of sv s = name) (sv_sessions sv)"

definition session_check_name :: "string \<Rightarrow> bool" where
  "session_check_name name \<longleftrightarrow> name \<noteq> [] \<and> CHR '':'' \<notin> set name"

definition session_next_session :: "nat \<Rightarrow> server \<Rightarrow> nat option" where
  "session_next_session s sv =
     (if sv_sessions sv = [] \<or> \<not> session_alive s sv then None
      else let s2 = (case find (\<lambda>x. name_of sv s < name_of sv x) (sv_sessions sv) of None \<Rightarrow> hd (sv_sessions sv) | Some x \<Rightarrow> x) in
        if s2 = s then None else Some s2)"

definition session_previous_session :: "nat \<Rightarrow> server \<Rightarrow> nat option" where
  "session_previous_session s sv =
     (if sv_sessions sv = [] \<or> \<not> session_alive s sv then None
      else let s2 = (case find (\<lambda>x. name_of sv x < name_of sv s) (rev (sv_sessions sv)) of None \<Rightarrow> last (sv_sessions sv) | Some x \<Rightarrow> x) in
        if s2 = s then None else Some s2)"

text \<open>RB_INSERT, which leaves the tree as it is if the name is there already.\<close>

definition insert_session :: "nat \<Rightarrow> server \<Rightarrow> server" where
  "insert_session s sv =
     (if session_find (name_of sv s) sv \<noteq> None then sv
      else sv\<lparr>sv_sessions := insort_key (name_of sv) s (sv_sessions sv)\<rparr>)"

definition set_session :: "nat \<Rightarrow> session \<Rightarrow> server \<Rightarrow> server" where
  "set_session s x sv = sv\<lparr>sv_session := (sv_session sv)(s \<mapsto> x)\<rparr>"

section \<open>Groups\<close>

definition session_group_find :: "nat \<Rightarrow> server \<Rightarrow> nat list option" where
  "session_group_find target sv = find (\<lambda>sg. target \<in> set sg) (sv_groups sv)"

fun group_index :: "nat list list \<Rightarrow> nat list \<Rightarrow> nat \<Rightarrow> nat option" where
  "group_index [] sg i = None"
| "group_index (g # gs) sg i = (if g = sg then Some i else group_index gs sg (i + 1))"

definition session_group_index :: "nat list \<Rightarrow> server \<Rightarrow> nat option" where
  "session_group_index sg sv = group_index (sv_groups sv) sg 0"

fun change_first :: "('a \<Rightarrow> bool) \<Rightarrow> ('a \<Rightarrow> 'a list) \<Rightarrow> 'a list \<Rightarrow> 'a list" where
  "change_first P f [] = []"
| "change_first P f (x # xs) = (if P x then f x @ xs else x # change_first P f xs)"

definition session_group_add :: "nat \<Rightarrow> nat \<Rightarrow> server \<Rightarrow> server" where
  "session_group_add target s sv =
     (if session_group_find target sv = None then sv\<lparr>sv_groups := sv_groups sv @ [[target, s]]\<rparr>
      else sv\<lparr>sv_groups := change_first (\<lambda>sg. target \<in> set sg) (\<lambda>sg. [sg @ [s]]) (sv_groups sv)\<rparr>)"

text \<open>A group of one session is dissolved; the head of an empty group is a null pointer.\<close>

definition session_group_remove :: "nat \<Rightarrow> server \<Rightarrow> server option" where
  "session_group_remove s sv =
     (case session_group_find s sv of
        None \<Rightarrow> Some sv
      | Some sg \<Rightarrow>
          if remove1 s sg = [] then None
          else Some (sv\<lparr>sv_groups := change_first (\<lambda>sg. s \<in> set sg)
            (\<lambda>sg. if length (remove1 s sg) \<le> 1 then [] else [remove1 s sg]) (sv_groups sv)\<rparr>))"

text \<open>
  Synchronizing one session with another. The new winlinks are made before the old ones are
  removed, so that no window goes in between.
\<close>

definition relink :: "winlink \<Rightarrow> winlink list \<times> (nat \<Rightarrow> nat option) \<Rightarrow> (winlink list \<times> (nat \<Rightarrow> nat option)) option" where
  "relink wl = (\<lambda>(ws, refs). do {
     r \<leftarrow> winlink_add ws (wl_idx wl);
     (ws, i) \<leftarrow> r;
     w \<leftarrow> wl_window wl;
     (ws, refs) \<leftarrow> winlink_set_window i w (ws, refs);
     Some (update_winlink i (\<lambda>wl2. wl2\<lparr>wl_flags := wl_flags wl2 OR (wl_flags wl AND WINLINK_ALERTFLAGS)\<rparr>) ws, refs)
   })"

definition session_group_synchronize1 ::
    "session \<Rightarrow> session \<times> (nat \<Rightarrow> nat option) \<Rightarrow> (session \<times> (nat \<Rightarrow> nat option)) option" where
  "session_group_synchronize1 target = (\<lambda>(s, refs).
     (let ww = s_windows target in
      if ww = [] then Some (s, refs)
      else do {
        vanished \<leftarrow> (case s_curw s of None \<Rightarrow> Some False | Some c \<Rightarrow> map_option (\<lambda>wl. wl = None) (winlink_find_by_index ww c));
        s \<leftarrow> (if vanished then leave_current s else Some s);
        let old_windows = s_windows s;
        (ws, refs) \<leftarrow> foldM relink ww ([], refs);
        c \<leftarrow> (case s_curw s of Some c \<Rightarrow> Some c | None \<Rightarrow> s_curw target);
        cur \<leftarrow> winlink_find_by_index ws c;
        lastw \<leftarrow> foldM (\<lambda>i out. map_option (\<lambda>wl2. if wl2 = None then out else out @ [i]) (winlink_find_by_index ws i)) (s_lastw s) [];
        (_, refs) \<leftarrow> foldM (\<lambda>wl. winlink_remove (wl_idx wl)) old_windows (old_windows, refs);
        Some (s\<lparr>s_curw := map_option wl_idx cur, s_lastw := lastw, s_windows := ws\<rparr>, refs)
      }))"

definition synchronize :: "nat \<Rightarrow> nat \<Rightarrow> server \<Rightarrow> server option" where
  "synchronize target s sv = do {
     t \<leftarrow> sv_session sv target;
     x \<leftarrow> sv_session sv s;
     (x, refs) \<leftarrow> session_group_synchronize1 t (x, sv_refs sv);
     Some ((set_session s x sv)\<lparr>sv_refs := refs\<rparr>)
   }"

definition session_group_synchronize_to :: "nat \<Rightarrow> server \<Rightarrow> server option" where
  "session_group_synchronize_to s sv =
     (case session_group_find s sv of
        None \<Rightarrow> Some sv
      | Some sg \<Rightarrow> Option.bind (find (\<lambda>t. t \<noteq> s) sg) (\<lambda>target. synchronize target s sv))"

definition session_group_synchronize_from :: "nat \<Rightarrow> server \<Rightarrow> server option" where
  "session_group_synchronize_from target sv =
     (case session_group_find target sv of
        None \<Rightarrow> Some sv
      | Some sg \<Rightarrow> foldM (\<lambda>s sv. if s \<noteq> target then synchronize target s sv else Some sv) sg sv)"

section \<open>Creating and destroying\<close>

text \<open>
  A window that is created is a parameter: the number of the new window, which no window has,
  or None where its program cannot be started.
\<close>

definition session_destroy :: "nat \<Rightarrow> server \<Rightarrow> server option" where
  "session_destroy s sv = do {
     x \<leftarrow> sv_session sv s;
     if \<not> session_alive s sv then None
     else do {
       sv \<leftarrow> session_group_remove s (sv\<lparr>sv_sessions := remove1 s (sv_sessions sv)\<rparr>);
       (_, refs) \<leftarrow> foldM (\<lambda>wl. winlink_remove (wl_idx wl)) (s_windows x) (s_windows x, sv_refs sv);
       Some (sv\<lparr>sv_session := (sv_session sv)(s := None), sv_refs := refs\<rparr>)
     }
   }"

definition session_new :: "nat \<Rightarrow> int \<Rightarrow> nat option \<Rightarrow> server \<Rightarrow> (int option \<times> server) option" where
  "session_new s idx created sv = do {
     x \<leftarrow> sv_session sv s;
     r \<leftarrow> winlink_add (s_windows x) idx;
     (case r of
        None \<Rightarrow> Some (None, sv)
      | Some (ws, i) \<Rightarrow>
          (case created of
             None \<Rightarrow> do {
               (ws, refs) \<leftarrow> winlink_remove i (ws, sv_refs sv);
               Some (None, (set_session s (x\<lparr>s_windows := ws\<rparr>) sv)\<lparr>sv_refs := refs\<rparr>)
             }
           | Some w \<Rightarrow> do {
               (ws, refs) \<leftarrow> winlink_set_window i w (ws, (sv_refs sv)(w \<mapsto> 0));
               sv \<leftarrow> session_group_synchronize_from s ((set_session s (x\<lparr>s_windows := ws\<rparr>) sv)\<lparr>sv_refs := refs\<rparr>);
               Some (Some i, sv)
             }))
   }"

definition select_in :: "nat \<Rightarrow> int \<Rightarrow> server \<Rightarrow> server option" where
  "select_in s idx sv = do {
     x \<leftarrow> sv_session sv s;
     (_, x) \<leftarrow> session_select x idx;
     Some (set_session s x sv)
   }"

definition session_create :: "string option \<Rightarrow> nat option option \<Rightarrow> int \<Rightarrow> server \<Rightarrow> (nat option \<times> server) option" where
  "session_create name cmd idx sv =
     (let s = sv_next_session sv;
          x = \<lparr>s_name = (case name of Some n \<Rightarrow> n | None \<Rightarrow> print_unsigned s), s_curw = None, s_lastw = [], s_windows = []\<rparr>;
          sv = insert_session s ((set_session s x sv)\<lparr>sv_next_session := uadd s 1\<rparr>) in
      (case cmd of
         None \<Rightarrow> Some (Some s, sv)
       | Some created \<Rightarrow> do {
           (r, sv) \<leftarrow> session_new s idx created sv;
           (case r of
              None \<Rightarrow> map_option (Pair None) (session_destroy s sv)
            | Some _ \<Rightarrow> do {
                x \<leftarrow> sv_session sv s;
                root \<leftarrow> rb_min (s_windows x);
                map_option (Pair (Some s)) (select_in s (wl_idx root) sv)
              })
         }))"

text \<open>new-session -t: the root of the tree of windows, which is selected, is a parameter.\<close>

definition new_grouped_session :: "string option \<Rightarrow> nat \<Rightarrow> int \<Rightarrow> int \<Rightarrow> server \<Rightarrow> server option" where
  "new_grouped_session name groupwith idx root sv = do {
     (r, sv) \<leftarrow> session_create name None idx sv;
     s \<leftarrow> r;
     sv \<leftarrow> session_group_synchronize_to s (session_group_add groupwith s sv);
     select_in s root sv
   }"

section \<open>Linking and unlinking\<close>

definition session_attach :: "nat \<Rightarrow> nat \<Rightarrow> int \<Rightarrow> server \<Rightarrow> (int option \<times> server) option" where
  "session_attach s w idx sv = do {
     x \<leftarrow> sv_session sv s;
     r \<leftarrow> winlink_add (s_windows x) idx;
     (case r of
        None \<Rightarrow> Some (None, sv)
      | Some (ws, i) \<Rightarrow> do {
          (ws, refs) \<leftarrow> winlink_set_window i w (ws, sv_refs sv);
          sv \<leftarrow> session_group_synchronize_from s ((set_session s (x\<lparr>s_windows := ws\<rparr>) sv)\<lparr>sv_refs := refs\<rparr>);
          Some (Some i, sv)
        })
   }"

text \<open>The result says whether the session has been destroyed.\<close>

definition session_detach :: "nat \<Rightarrow> int \<Rightarrow> server \<Rightarrow> (bool \<times> server) option" where
  "session_detach s wl sv = do {
     x \<leftarrow> sv_session sv s;
     x \<leftarrow> (if s_curw x = Some wl then leave_current x else Some x);
     (ws, refs) \<leftarrow> winlink_remove wl (update_winlink wl clear_alerts (s_windows x), sv_refs sv);
     sv \<leftarrow> session_group_synchronize_from s
       ((set_session s (x\<lparr>s_lastw := winlink_stack_remove (Some wl) (s_lastw x), s_windows := ws\<rparr>) sv)\<lparr>sv_refs := refs\<rparr>);
     if ws = [] then map_option (Pair True) (session_destroy s sv) else Some (False, sv)
   }"

text \<open>
  Killing the window at an index to make room: session_detach would destroy a session that
  this makes empty. The result says whether it was the current window.
\<close>

definition make_room :: "nat \<Rightarrow> int \<Rightarrow> server \<Rightarrow> (bool \<times> server) option" where
  "make_room s wl sv = do {
     x \<leftarrow> sv_session sv s;
     (ws, refs) \<leftarrow> winlink_remove wl (update_winlink wl clear_alerts (s_windows x), sv_refs sv);
     let current = (s_curw x = Some wl);
     let x = x\<lparr>s_lastw := winlink_stack_remove (Some wl) (s_lastw x), s_windows := ws,
       s_curw := (if current then None else s_curw x)\<rparr>;
     Some (current, (set_session s x sv)\<lparr>sv_refs := refs\<rparr>)
   }"

text \<open>The result is False where the source returns -1.\<close>

definition server_link_window :: "nat \<Rightarrow> int \<Rightarrow> nat \<Rightarrow> int \<Rightarrow> bool \<Rightarrow> bool \<Rightarrow> nat \<Rightarrow> server \<Rightarrow> (bool \<times> server) option" where
  "server_link_window src srcwl dst dstidx killflag selectflag base_index sv =
     (let srcsg = session_group_find src sv; dstsg = session_group_find dst sv in
      if src \<noteq> dst \<and> srcsg \<noteq> None \<and> dstsg \<noteq> None \<and> srcsg = dstsg then Some (False, sv)
      else do {
        x \<leftarrow> sv_session sv dst;
        y \<leftarrow> sv_session sv src;
        wl \<leftarrow> rb_find (s_windows y) srcwl;
        dstwl \<leftarrow> (if dstidx \<noteq> -1 then winlink_find_by_index (s_windows x) dstidx else Some None);
        if (case dstwl of None \<Rightarrow> False | Some d \<Rightarrow> wl_window d = wl_window wl) then Some (False, sv)
        else do {
          (current, sv) \<leftarrow> (if dstwl \<noteq> None \<and> killflag then make_room dst dstidx sv else Some (False, sv));
          let dstidx = (if dstidx = -1 then -1 - int base_index else dstidx);
          w \<leftarrow> wl_window wl;
          (r, sv) \<leftarrow> session_attach dst w dstidx sv;
          (case r of
             None \<Rightarrow> Some (False, sv)
           | Some i \<Rightarrow> map_option (Pair True) (if selectflag \<or> current then select_in dst i sv else Some sv))
        }
      })"

definition server_unlink_window :: "nat \<Rightarrow> int \<Rightarrow> server \<Rightarrow> server option" where
  "server_unlink_window s wl sv = map_option snd (session_detach s wl sv)"

text \<open>new-window without -a; None as the window for a program that cannot be started.\<close>

definition new_window :: "nat \<Rightarrow> int \<Rightarrow> bool \<Rightarrow> bool \<Rightarrow> nat \<Rightarrow> nat option \<Rightarrow> server \<Rightarrow> (bool \<times> server) option" where
  "new_window s idx killflag detached base_index created sv = do {
     x \<leftarrow> sv_session sv s;
     wl \<leftarrow> (if idx \<noteq> -1 then winlink_find_by_index (s_windows x) idx else Some None);
     (current, sv) \<leftarrow> (if wl \<noteq> None \<and> killflag then make_room s idx sv else Some (False, sv));
     let idx = (if idx = -1 then -1 - int base_index else idx);
     (r, sv) \<leftarrow> session_new s idx created sv;
     (case r of
        None \<Rightarrow> Some (False, sv)
      | Some i \<Rightarrow> map_option (Pair True) (if current \<or> \<not> detached then select_in s i sv else Some sv))
   }"

text \<open>
  server_kill_window. A turn of the inner loop takes a winlink from the session, so that their
  number is enough.
\<close>

primrec kill_in_session :: "nat \<Rightarrow> nat \<Rightarrow> nat \<Rightarrow> server \<Rightarrow> server option" where
  "kill_in_session 0 w s sv = None"
| "kill_in_session (Suc k) w s sv = do {
     x \<leftarrow> sv_session sv s;
     (case winlink_find_by_window (s_windows x) w of
        None \<Rightarrow> Some sv
      | Some wl \<Rightarrow> do {
          (destroyed, sv) \<leftarrow> session_detach s (wl_idx wl) sv;
          if destroyed then Some sv else kill_in_session k w s sv
        })
   }"

definition server_kill_window :: "nat \<Rightarrow> server \<Rightarrow> server option" where
  "server_kill_window w sv = foldM (\<lambda>s sv. do {
       x \<leftarrow> sv_session sv s;
       if session_has x w = None then Some sv else kill_in_session (length (s_windows x) + 1) w s sv
     }) (sv_sessions sv) sv"

definition set_window_at :: "nat \<Rightarrow> int \<Rightarrow> nat option \<Rightarrow> server \<Rightarrow> server option" where
  "set_window_at s i w sv = do {
     x \<leftarrow> sv_session sv s;
     Some (set_session s (x\<lparr>s_windows := update_winlink i (\<lambda>wl. wl\<lparr>wl_window := w\<rparr>) (s_windows x)\<rparr>) sv)
   }"

definition swap_window :: "nat \<Rightarrow> int \<Rightarrow> nat \<Rightarrow> int \<Rightarrow> bool \<Rightarrow> server \<Rightarrow> (bool \<times> server) option" where
  "swap_window src wl_src dst wl_dst dflag sv =
     (let sg_src = session_group_find src sv; sg_dst = session_group_find dst sv in
      if src \<noteq> dst \<and> sg_src \<noteq> None \<and> sg_dst \<noteq> None \<and> sg_src = sg_dst then Some (False, sv)
      else do {
        x \<leftarrow> sv_session sv src;
        a \<leftarrow> rb_find (s_windows x) wl_src;
        y \<leftarrow> sv_session sv dst;
        b \<leftarrow> rb_find (s_windows y) wl_dst;
        if wl_window a = wl_window b then Some (True, sv)
        else do {
          sv \<leftarrow> set_window_at dst wl_dst (wl_window a) sv;
          sv \<leftarrow> set_window_at src wl_src (wl_window b) sv;
          sv \<leftarrow> (if dflag then Some sv else do {
            sv \<leftarrow> select_in dst wl_dst sv;
            if src \<noteq> dst then select_in src wl_src sv else Some sv
          });
          sv \<leftarrow> session_group_synchronize_from src sv;
          sv \<leftarrow> (if src \<noteq> dst then session_group_synchronize_from dst sv else Some sv);
          Some (True, sv)
        }
      })"

text \<open>unlink-window: without -k, not if the sessions of the group hold the only winlinks.\<close>

definition unlink_window :: "nat \<Rightarrow> int \<Rightarrow> bool \<Rightarrow> server \<Rightarrow> (bool \<times> server) option" where
  "unlink_window s i kflag sv = do {
     x \<leftarrow> sv_session sv s;
     wl \<leftarrow> rb_find (s_windows x) i;
     w \<leftarrow> wl_window wl;
     let references = (case session_group_find s sv of None \<Rightarrow> 1 | Some sg \<Rightarrow> length sg);
     n \<leftarrow> sv_refs sv w;
     if \<not> kflag \<and> n = references then Some (False, sv) else map_option (Pair True) (server_unlink_window s i sv)
   }"

text \<open>next-window, previous-window, last-window and select-window.\<close>

datatype selection = Next_Window bool | Previous_Window bool | Last_Window | This_Window int

definition select_window :: "nat \<Rightarrow> selection \<Rightarrow> server \<Rightarrow> (bool \<times> server) option" where
  "select_window s sel sv = do {
     x \<leftarrow> sv_session sv s;
     (r, x) \<leftarrow> (case sel of
        Next_Window activity \<Rightarrow> session_next x activity
      | Previous_Window activity \<Rightarrow> session_previous x activity
      | Last_Window \<Rightarrow> session_last x
      | This_Window i \<Rightarrow> map_option (\<lambda>(r, x). (0, x)) (session_select x i));
     Some (r = 0, set_session s x sv)
   }"

definition rename_session :: "nat \<Rightarrow> string \<Rightarrow> server \<Rightarrow> (bool \<times> server) option" where
  "rename_session s newname sv =
     (if \<not> session_check_name newname then Some (False, sv)
      else if session_find newname sv \<noteq> None then Some (False, sv)
      else do {
        x \<leftarrow> sv_session sv s;
        let sv = sv\<lparr>sv_sessions := remove1 s (sv_sessions sv)\<rparr>;
        Some (True, insert_session s (set_session s (x\<lparr>s_name := newname\<rparr>) sv))
      })"

end
