(* ===== verification/Session_Facts.thy ===== *)
theory Session_Facts
  imports Session
begin

text \<open>
  Sessions and their windows: what holds of the winlinks of a session, the reference counts of
  the windows, and the groups, and that synchronizing a group restores it.
\<close>

section \<open>Winlinks\<close>

abbreviation idxs :: "winlink list \<Rightarrow> int set" where "idxs ws \<equiv> wl_idx ` set ws"

definition windows_ok :: "winlink list \<Rightarrow> bool" where
  "windows_ok ws \<longleftrightarrow> sorted_wrt (<) (map wl_idx ws) \<and> (\<forall>wl\<in>set ws. 0 \<le> wl_idx wl \<and> wl_idx wl \<le> IDX_MAX \<and> wl_window wl \<noteq> None)"

definition links :: "winlink list \<Rightarrow> (int \<times> nat option) list" where
  "links ws = map (\<lambda>wl. (wl_idx wl, wl_window wl)) ws"

definition wcount :: "winlink list \<Rightarrow> nat \<Rightarrow> nat" where
  "wcount ws w = length (filter (\<lambda>wl. wl_window wl = Some w) ws)"

lemma wcount_simps [simp]: "wcount [] w = 0"
  "wcount (wl # ws) w = (if wl_window wl = Some w then 1 else 0) + wcount ws w" "wcount (as @ bs) w = wcount as w + wcount bs w"
  by (simp_all add: wcount_def)

lemma wcount_links: "wcount ws w = length (filter (\<lambda>p. snd p = Some w) (links ws))"
  by (simp add: wcount_def links_def filter_map comp_def)

lemma links_wcount: "links as = links bs \<Longrightarrow> wcount as = wcount bs"
  by (rule ext) (simp add: wcount_links)

lemma links_idx: "links as = links bs \<Longrightarrow> map wl_idx as = map wl_idx bs"
proof -
  assume "links as = links bs"
  then have "map fst (links as) = map fst (links bs)" by simp
  then show ?thesis by (simp add: links_def comp_def)
qed

lemma idxs_map: "idxs ws = set (map wl_idx ws)"
  by simp

lemma links_idxs: "links as = links bs \<Longrightarrow> idxs as = idxs bs"
  using links_idx idxs_map by metis

lemma links_set: "links ws = links ws' \<Longrightarrow> wl \<in> set ws \<Longrightarrow> \<exists>wl'\<in>set ws'. wl_idx wl' = wl_idx wl \<and> wl_window wl' = wl_window wl"
proof -
  assume l: "links ws = links ws'" "wl \<in> set ws"
  have "(wl_idx wl, wl_window wl) \<in> set (links ws)" using l(2) by (auto simp: links_def)
  then have "(wl_idx wl, wl_window wl) \<in> set (links ws')" using l(1) by simp
  then show ?thesis by (auto simp: links_def)
qed

lemma windows_ok_links: "links as = links bs \<Longrightarrow> windows_ok as \<Longrightarrow> windows_ok bs"
proof -
  assume l: "links as = links bs" and ok: "windows_ok as"
  have "0 \<le> wl_idx wl \<and> wl_idx wl \<le> IDX_MAX \<and> wl_window wl \<noteq> None" if wl: "wl \<in> set bs" for wl
  proof -
    obtain wl' where "wl' \<in> set as" "wl_idx wl' = wl_idx wl" "wl_window wl' = wl_window wl" using links_set [OF l [symmetric] wl] by blast
    then show ?thesis using ok unfolding windows_ok_def by metis
  qed
  then show "windows_ok bs" using ok links_idx [OF l] by (simp add: windows_ok_def)
qed

lemma windows_ok_distinct: "windows_ok ws \<Longrightarrow> distinct (map wl_idx ws)"
  by (simp add: windows_ok_def strict_sorted_iff)

lemma windows_okD: "windows_ok ws \<Longrightarrow> wl \<in> set ws \<Longrightarrow> 0 \<le> wl_idx wl \<and> wl_idx wl \<le> IDX_MAX \<and> (\<exists>w. wl_window wl = Some w)"
  by (auto simp: windows_ok_def)

lemma links_update [simp]:
  assumes "\<And>wl. wl_idx (f wl) = wl_idx wl \<and> wl_window (f wl) = wl_window wl"
  shows "links (update_winlink i f ws) = links ws"
  using assms by (simp add: links_def update_winlink_def)

lemma links_clear [simp]: "links (update_winlink i clear_alerts ws) = links ws"
  by (rule links_update) (simp add: clear_alerts_def)

lemma rb_find_Some: "rb_find ws i = Some wl \<Longrightarrow> wl \<in> set ws \<and> wl_idx wl = i"
  by (auto simp: rb_find_def find_Some_iff)

lemma rb_find_iff [simp]: "rb_find ws i = None \<longleftrightarrow> i \<notin> idxs ws"
  by (auto simp: rb_find_def find_None_iff)

lemma rb_find_in: "i \<in> idxs ws \<Longrightarrow> \<exists>wl. rb_find ws i = Some wl \<and> wl \<in> set ws \<and> wl_idx wl = i"
  using rb_find_Some rb_find_iff by (metis option.exhaust)

lemma rb_find_member: "windows_ok ws \<Longrightarrow> wl \<in> set ws \<Longrightarrow> rb_find ws (wl_idx wl) = Some wl"
  unfolding rb_find_def
  using windows_ok_distinct [of ws] by (intro find_unique) (auto simp: distinct_map inj_on_def)

text \<open>The next free index: the first from the given one on, beginning again at zero.\<close>

lemma next_index_free:
  "next_index_loop ws idx i = Some r \<Longrightarrow> r \<noteq> -1 \<Longrightarrow> r \<notin> idxs ws \<and> 0 \<le> r \<and> r \<le> IDX_MAX"
proof (induction ws idx i rule: next_index_loop.induct)
  case (1 ws idx i)
  let ?i = "if i = IDX_MAX then 0 else i + 1"
  have g: "0 \<le> i" "i \<le> IDX_MAX" "0 \<le> idx" "idx \<le> IDX_MAX"
    using "1.prems"(1) by (auto simp: next_index_loop.simps [of ws idx i] split: if_splits)
  show ?case
  proof (cases "rb_find ws i = None")
    case True
    then show ?thesis using "1.prems"(1) g by (simp add: next_index_loop.simps [of ws idx i])
  next
    case False
    then have "?i \<noteq> idx" "next_index_loop ws idx ?i = Some r"
      using "1.prems" g by (auto simp: next_index_loop.simps [of ws idx i] Let_def split: if_splits)
    then show ?thesis using g by (intro "1.IH" [OF _ False refl] "1.prems"(2)) auto
  qed
qed

lemma next_index_runs: "0 \<le> i \<Longrightarrow> i \<le> IDX_MAX \<Longrightarrow> 0 \<le> idx \<Longrightarrow> idx \<le> IDX_MAX \<Longrightarrow> next_index_loop ws idx i \<noteq> None"
proof (induction ws idx i rule: next_index_loop.induct)
  case (1 ws idx i)
  show ?case
  proof (cases "rb_find ws i = None")
    case False
    have "next_index_loop ws idx (if i = IDX_MAX then 0 else i + 1) \<noteq> None" if "(if i = IDX_MAX then 0 else i + 1) \<noteq> idx"
      by (rule "1.IH" [OF _ False refl that]) (use "1.prems" in auto)
    then show ?thesis using "1.prems" False by (subst next_index_loop.simps) (simp add: Let_def)
  qed (use "1.prems" in \<open>subst next_index_loop.simps, simp\<close>)
qed

lemma set_insort_idx: "set (insort_key wl_idx x ws) = insert x (set ws)"
  by (simp add: set_insort_key)

lemma sorted_wl: "sorted_wrt (<) (map wl_idx ws) \<longleftrightarrow> sorted (map wl_idx ws) \<and> distinct (map wl_idx ws)"
  by (simp add: strict_sorted_iff)

lemma distinct_insort_idx: "wl_idx x \<notin> idxs ws \<Longrightarrow> distinct (map wl_idx (insort_key wl_idx x ws)) = distinct (map wl_idx ws)"
  by (induction ws) (auto simp: set_insort_key)

lemma wcount_insort [simp]: "wcount (insort_key wl_idx x ws) w = wcount (x # ws) w"
  by (induction ws) auto

definition valid_index :: "int \<Rightarrow> bool" where
  "valid_index idx \<longleftrightarrow> - IDX_MAX - 1 \<le> idx \<and> idx \<le> IDX_MAX"

lemma winlink_add_runs:
  assumes "valid_index idx"
  shows "runs (winlink_add ws idx) (\<lambda>r. case r of None \<Rightarrow> True | Some (ws', i) \<Rightarrow>
    ws' = insort_key wl_idx \<lparr>wl_idx = i, wl_window = None, wl_flags = 0\<rparr> ws \<and> i \<notin> idxs ws \<and> 0 \<le> i \<and> i \<le> IDX_MAX \<and> (0 \<le> idx \<longrightarrow> i = idx))"
proof (cases "idx < 0")
  case True
  then have "next_index_loop ws (- idx - 1) (- idx - 1) \<noteq> None" using assms by (intro next_index_runs) (auto simp: valid_index_def)
  then obtain i where i: "next_index_loop ws (- idx - 1) (- idx - 1) = Some i" by blast
  show ?thesis using True i next_index_free [OF i] by (auto simp: winlink_add_def winlink_next_index_def)
next
  case False
  then show ?thesis using assms by (auto simp: winlink_add_def winlink_find_by_index_def valid_index_def split: if_splits)
qed

lemma winlink_add_new:
  assumes "0 \<le> i" "i \<notin> idxs ws"
  shows "winlink_add ws i = Some (Some (insort_key wl_idx \<lparr>wl_idx = i, wl_window = None, wl_flags = 0\<rparr> ws, i))"
proof -
  have "rb_find ws i = None" using assms(2) by simp
  then show ?thesis using assms(1) by (simp add: winlink_add_def winlink_find_by_index_def del: rb_find_iff)
qed

text \<open>The new winlink with its window.\<close>

lemma update_other: "i \<notin> idxs ws \<Longrightarrow> update_winlink i f ws = ws"
  by (auto simp: update_winlink_def image_iff intro!: map_idI)

lemma update_Cons: "update_winlink i f (x # ws) = (if wl_idx x = i then f x else x) # update_winlink i f ws"
  by (simp add: update_winlink_def)

lemma update_insort:
  assumes "i \<notin> idxs ws" "wl_idx x = i" "\<And>wl. wl_idx (f wl) = wl_idx wl"
  shows "update_winlink i f (insort_key wl_idx x ws) = insort_key wl_idx (f x) ws"
  using assms by (induction ws)
    (simp add: update_winlink_def, auto simp: update_Cons update_other)

lemma windows_ok_insort:
  assumes "windows_ok ws" "wl_idx x \<notin> idxs ws" "0 \<le> wl_idx x" "wl_idx x \<le> IDX_MAX" "wl_window x \<noteq> None"
  shows "windows_ok (insort_key wl_idx x ws)"
  using assms by (auto simp: windows_ok_def sorted_wl distinct_insort_idx sorted_insort_key set_insort_key)

section \<open>Reference counts\<close>

text \<open>A window that is linked has its count, and one that is not does not exist.\<close>

definition refs_ok :: "(nat \<Rightarrow> nat) \<Rightarrow> (nat \<Rightarrow> nat option) \<Rightarrow> bool" where
  "refs_ok f refs \<longleftrightarrow> (\<forall>w. refs w = (if f w = 0 then None else Some (f w)))"

lemma refs_ok_live: "refs_ok f refs \<Longrightarrow> refs w = Some n \<Longrightarrow> n = f w \<and> 0 < f w"
  by (auto simp: refs_ok_def split: if_splits)

lemma refs_ok_link: "refs_ok f refs \<Longrightarrow> 0 < f w \<Longrightarrow> refs_ok (f(w := f w + 1)) (refs(w \<mapsto> f w + 1))"
  by (auto simp: refs_ok_def)

lemma refs_ok_cong: "refs_ok f refs \<Longrightarrow> (\<And>w. f w = g w) \<Longrightarrow> refs_ok g refs"
  by (simp add: refs_ok_def)

lemma filter_idx: "distinct (map wl_idx (wl # ws)) \<Longrightarrow> filter (\<lambda>x. wl_idx x \<noteq> wl_idx wl) (wl # ws) = ws"
  by (auto simp: image_iff intro!: filter_True)

lemma wcount_remove:
  assumes "distinct (map wl_idx ws)" "wl \<in> set ws" "wl_window wl = Some v"
  shows "wcount ws w = wcount (filter (\<lambda>x. wl_idx x \<noteq> wl_idx wl) ws) w + (if w = v then 1 else 0)"
  using assms
proof (induction ws)
  case (Cons x ws)
  show ?case
  proof (cases "wl = x")
    case True
    then show ?thesis using filter_idx [OF Cons.prems(1)] Cons.prems(3) by simp
  next
    case False
    then have "wl_idx x \<noteq> wl_idx wl" using Cons.prems(1,2) by auto
    then show ?thesis using Cons False by auto
  qed
qed simp

lemma winlink_remove_ok:
  assumes "windows_ok ws" "i \<in> idxs ws" "refs_ok (\<lambda>w. g w + wcount ws w) refs"
  shows "runs (winlink_remove i (ws, refs)) (\<lambda>(ws', refs'). ws' = filter (\<lambda>x. wl_idx x \<noteq> i) ws \<and> refs_ok (\<lambda>w. g w + wcount ws' w) refs')"
proof -
  obtain wl where wl: "rb_find ws i = Some wl" "wl \<in> set ws" "wl_idx wl = i" using rb_find_in [OF assms(2)] by blast
  obtain v where v: "wl_window wl = Some v" using windows_okD [OF assms(1) wl(2)] by blast
  note c = wcount_remove [OF windows_ok_distinct [OF assms(1)] wl(2) v, unfolded wl(3)]
  let ?ws = "filter (\<lambda>x. wl_idx x \<noteq> i) ws"
  have n: "refs v = Some (g v + wcount ?ws v + 1)" using assms(3) c [of v] by (auto simp: refs_ok_def)
  show ?thesis using assms(3) c [of v] c
    by (simp add: winlink_remove_def wl(1) v n Let_def refs_ok_def)
qed

lemma remove_all:
  assumes "windows_ok ws" "refs_ok (\<lambda>w. g w + wcount ws w) refs"
  shows "runs (foldM (\<lambda>wl. winlink_remove (wl_idx wl)) ws (ws, refs)) (\<lambda>(ws', refs'). ws' = [] \<and> refs_ok g refs')"
  using assms
proof (induction ws arbitrary: refs)
  case Nil
  then show ?case by (simp add: refs_ok_def)
next
  case (Cons wl ws)
  have f: "filter (\<lambda>x. wl_idx x \<noteq> wl_idx wl) (wl # ws) = ws" using filter_idx windows_ok_distinct [OF Cons.prems(1)] by blast
  obtain refs' where r: "winlink_remove (wl_idx wl) (wl # ws, refs) = Some (ws, refs')" "refs_ok (\<lambda>w. g w + wcount ws w) refs'"
    using winlink_remove_ok [OF Cons.prems(1) _ Cons.prems(2), of "wl_idx wl"] f by (auto simp: runs_iff)
  have "windows_ok ws" using Cons.prems(1) by (simp add: windows_ok_def)
  then show ?case using Cons.IH [OF _ r(2)] r(1) by simp
qed

lemma insort_last: "\<forall>y\<in>set ws. wl_idx y < wl_idx x \<Longrightarrow> insort_key wl_idx x ws = ws @ [x]"
  by (induction ws) auto

definition alerts_of :: "winlink \<Rightarrow> winlink" where
  "alerts_of wl = wl\<lparr>wl_flags := wl_flags wl AND WINLINK_ALERTFLAGS\<rparr>"

lemma alerts_of_sel [simp]: "wl_idx (alerts_of wl) = wl_idx wl" "wl_window (alerts_of wl) = wl_window wl"
  by (simp_all add: alerts_of_def)

lemma links_alerts [simp]: "links (map alerts_of ws) = links ws"
  by (simp add: links_def)

lemma relink_one:
  assumes "\<forall>y\<in>set ws. wl_idx y < wl_idx wl" "0 \<le> wl_idx wl" "wl_window wl = Some w" "refs w = Some n"
  shows "relink wl (ws, refs) = Some (ws @ [alerts_of wl], refs(w \<mapsto> n + 1))"
proof -
  have ni: "wl_idx wl \<notin> idxs ws" using assms(1) by force
  have "update_winlink (wl_idx wl) f (ws @ [x]) = ws @ [f x]" if "wl_idx x = wl_idx wl" for f x
  proof -
    have "update_winlink (wl_idx wl) f (ws @ [x]) = update_winlink (wl_idx wl) f ws @ [f x]" using that by (simp add: update_winlink_def)
    then show ?thesis using update_other [OF ni] by simp
  qed
  then show ?thesis
    using assms ni by (simp add: relink_def winlink_add_new insort_last winlink_set_window_def alerts_of_def)
qed

lemma relink_all:
  assumes "windows_ok (ps @ ws)" "map wl_idx as = map wl_idx ps" "refs_ok f refs" "\<forall>w. 0 < wcount ws w \<longrightarrow> 0 < f w"
  shows "\<exists>refs'. foldM relink ws (as, refs) = Some (as @ map alerts_of ws, refs') \<and> refs_ok (\<lambda>w. f w + wcount ws w) refs'"
  using assms
proof (induction ws arbitrary: ps as f refs)
  case (Cons wl ws)
  obtain w where w: "wl_window wl = Some w" using windows_okD [OF Cons.prems(1), of wl] by auto
  have live: "0 < f w" using Cons.prems(4) w by simp
  then have rw: "refs w = Some (f w)" using Cons.prems(3) by (simp add: refs_ok_def)
  have "\<forall>i\<in>set (map wl_idx ps). i < wl_idx wl" using Cons.prems(1) by (auto simp: windows_ok_def sorted_wrt_append)
  then have lt: "\<forall>y\<in>set as. wl_idx y < wl_idx wl" using Cons.prems(2) by (metis image_eqI list.set_map)
  have one: "relink wl (as, refs) = Some (as @ [alerts_of wl], refs(w \<mapsto> f w + 1))"
    by (rule relink_one [where n = "f w"]) (use lt w rw windows_okD [OF Cons.prems(1), of wl] in auto)
  have "\<exists>refs'. foldM relink ws (as @ [alerts_of wl], refs(w \<mapsto> f w + 1)) = Some ((as @ [alerts_of wl]) @ map alerts_of ws, refs') \<and>
    refs_ok (\<lambda>v. (f(w := f w + 1)) v + wcount ws v) refs'"
  proof (rule Cons.IH [of "ps @ [wl]"])
    show "refs_ok (f(w := f w + 1)) (refs(w \<mapsto> f w + 1))" by (rule refs_ok_link [OF Cons.prems(3) live])
  qed (use Cons.prems in auto)
  then obtain refs' where r: "foldM relink ws (as @ [alerts_of wl], refs(w \<mapsto> f w + 1)) = Some ((as @ [alerts_of wl]) @ map alerts_of ws, refs')"
    "refs_ok (\<lambda>v. (f(w := f w + 1)) v + wcount ws v) refs'" by blast
  have "refs_ok (\<lambda>v. f v + wcount (wl # ws) v) refs'" by (rule refs_ok_cong [OF r(2)]) (simp add: w)
  then show ?case using one r(1) by simp
qed simp

section \<open>Sessions\<close>

text \<open>
  A session with windows; it may have no current window while one is replaced. The current
  window is not among the last ones.
\<close>

definition near_ok :: "session \<Rightarrow> bool" where
  "near_ok s \<longleftrightarrow> windows_ok (s_windows s) \<and> distinct (s_lastw s) \<and> set (s_lastw s) \<subseteq> idxs (s_windows s) \<and>
     (\<forall>c. s_curw s = Some c \<longrightarrow> c \<in> idxs (s_windows s) \<and> c \<notin> set (s_lastw s))"

definition sess_ok :: "session \<Rightarrow> bool" where
  "sess_ok s \<longleftrightarrow> near_ok s \<and> s_curw s \<noteq> None"

lemma sess_okD:
  assumes "sess_ok s"
  obtains c where "s_curw s = Some c" "c \<in> idxs (s_windows s)" "c \<notin> set (s_lastw s)" "s_windows s \<noteq> []"
  using assms by (fastforce simp: sess_ok_def near_ok_def)

text \<open>What a move leaves: the links and the name.\<close>

definition moves :: "session \<Rightarrow> session \<Rightarrow> bool" where
  "moves s t \<longleftrightarrow> links (s_windows t) = links (s_windows s) \<and> s_name t = s_name s"

lemma moves_refl [simp]: "moves s s"
  by (simp add: moves_def)

lemma moves_trans: "moves s t \<Longrightarrow> moves t u \<Longrightarrow> moves s u"
  by (simp add: moves_def)

lemma idxs_clear [simp]: "idxs (update_winlink i clear_alerts ws) = idxs ws"
  using links_idxs [OF links_clear] .

lemma move_to_ok:
  assumes "near_ok s" "wl \<in> set (s_windows s)"
  shows "sess_ok (snd (move_to wl s)) \<and> moves s (snd (move_to wl s)) \<and> s_curw (snd (move_to wl s)) = Some (wl_idx wl)"
proof (cases "s_curw s = Some (wl_idx wl)")
  case False
  have "windows_ok (update_winlink (wl_idx wl) clear_alerts (s_windows s))"
    using assms(1) windows_ok_links [OF links_clear [symmetric]] by (simp add: near_ok_def)
  then show ?thesis using assms False
    by (cases "s_curw s") (auto simp: move_to_def sess_ok_def near_ok_def moves_def winlink_stack_remove_def winlink_stack_push_def
        remove1_idem dest: notin_set_remove1)
qed (use assms in \<open>simp add: move_to_def sess_ok_def\<close>)

lemma move_to_result: "fst (move_to wl s) = (if s_curw s = Some (wl_idx wl) then 1 else 0)"
  by (simp add: move_to_def)

text \<open>Each move, when it returns, leaves a good session.\<close>

definition index_moved :: "session \<Rightarrow> int \<times> session \<Rightarrow> bool" where
  "index_moved s r \<longleftrightarrow> near_ok (snd r) \<and> moves s (snd r) \<and> (sess_ok s \<longrightarrow> sess_ok (snd r)) \<and> (fst r = 0 \<longrightarrow> sess_ok (snd r) \<and> s_curw (snd r) \<noteq> s_curw s) \<and>
     (fst r \<noteq> 0 \<longrightarrow> snd r = s)"

lemma moved_to: "near_ok s \<Longrightarrow> wl \<in> set (s_windows s) \<Longrightarrow> index_moved s (move_to wl s)"
  using move_to_ok [of s wl] by (auto simp: index_moved_def sess_ok_def move_to_def split: if_splits)

lemma moved_stay: "near_ok s \<Longrightarrow> index_moved s (-1, s)"
  by (simp add: index_moved_def)

lemma session_select_moved:
  assumes "near_ok s" "0 \<le> i"
  shows "runs (session_select s i) (\<lambda>r. index_moved s r \<and> (i \<in> idxs (s_windows s) \<longrightarrow> sess_ok (snd r) \<and> s_curw (snd r) = Some i))"
proof (cases "rb_find (s_windows s) i")
  case None
  then show ?thesis using assms moved_stay by (simp add: session_select_def winlink_find_by_index_def del: rb_find_iff) (simp)
next
  case (Some wl)
  then show ?thesis using assms rb_find_Some [OF Some] moved_to [OF assms(1)] move_to_ok [OF assms(1)]
    by (auto simp: session_select_def winlink_find_by_index_def)
qed

lemma session_last_moved:
  assumes "near_ok s"
  shows "runs (session_last s) (index_moved s)"
proof (cases "s_lastw s")
  case Nil
  then show ?thesis using assms moved_stay by (simp add: session_last_def)
next
  case (Cons i js)
  then have "i \<in> idxs (s_windows s)" using assms by (auto simp: near_ok_def)
  then obtain wl where wl: "rb_find (s_windows s) i = Some wl" "wl \<in> set (s_windows s)" using rb_find_in by blast
  then show ?thesis using Cons moved_to [OF assms wl(2)] by (simp add: session_last_def)
qed

lemma find_set: "find P xs = Some x \<Longrightarrow> x \<in> set xs"
  by (auto simp: find_Some_iff)

lemma alert_set:
  "session_next_alert ws wl = Some x \<Longrightarrow> x \<in> set ws" "session_previous_alert ws wl = Some x \<Longrightarrow> x \<in> set ws"
  by (auto simp: session_next_alert_def session_previous_alert_def dest!: find_set set_dropWhileD split: option.splits)

lemma end_set: "rb_min ws = Some x \<Longrightarrow> x \<in> set ws" "rb_max ws = Some x \<Longrightarrow> x \<in> set ws"
  by (auto simp: rb_min_def rb_max_def split: if_splits)

lemma end_exists: "ws \<noteq> [] \<Longrightarrow> rb_min ws \<noteq> None" "ws \<noteq> [] \<Longrightarrow> rb_max ws \<noteq> None"
  by (simp_all add: rb_min_def rb_max_def)

lemma session_next_moved:
  assumes "near_ok s"
  shows "runs (session_next s alert) (index_moved s)"
proof (cases "s_curw s")
  case None
  then show ?thesis using assms moved_stay by (simp add: session_next_def)
next
  case (Some c)
  then have c: "c \<in> idxs (s_windows s)" "s_windows s \<noteq> []" using assms by (auto simp: near_ok_def)
  then obtain r where r: "winlink_next (s_windows s) c = Some r" "\<forall>x. r = Some x \<longrightarrow> x \<in> set (s_windows s)"
    by (auto simp: winlink_next_def dest: find_set)
  define wl where "wl = (let r = (if alert then session_next_alert (s_windows s) r else r) in
    if r \<noteq> None then r else if alert then session_next_alert (s_windows s) (rb_min (s_windows s)) else rb_min (s_windows s))"
  have "\<forall>x. wl = Some x \<longrightarrow> x \<in> set (s_windows s)" using r(2) alert_set end_set by (auto simp: wl_def Let_def split: if_splits)
  moreover have "\<not> alert \<Longrightarrow> wl \<noteq> None" using end_exists(1) [OF c(2)] by (auto simp: wl_def Let_def)
  moreover have "session_next s alert = (case wl of None \<Rightarrow> if alert then Some (-1, s) else None | Some wl \<Rightarrow> Some (move_to wl s))"
    using Some r(1) by (simp add: session_next_def wl_def Let_def)
  ultimately show ?thesis using moved_to [OF assms] moved_stay [OF assms] by (cases wl) auto
qed

lemma session_previous_moved:
  assumes "near_ok s"
  shows "runs (session_previous s alert) (index_moved s)"
proof (cases "s_curw s")
  case None
  then show ?thesis using assms moved_stay by (simp add: session_previous_def)
next
  case (Some c)
  then have c: "c \<in> idxs (s_windows s)" "s_windows s \<noteq> []" using assms by (auto simp: near_ok_def)
  then obtain r where r: "winlink_previous (s_windows s) c = Some r" "\<forall>x. r = Some x \<longrightarrow> x \<in> set (s_windows s)"
    by (fastforce simp: winlink_previous_def dest: find_set)
  define wl where "wl = (let r = (if alert then session_previous_alert (s_windows s) r else r) in
    if r \<noteq> None then r else if alert then session_previous_alert (s_windows s) (rb_max (s_windows s)) else rb_max (s_windows s))"
  have "\<forall>x. wl = Some x \<longrightarrow> x \<in> set (s_windows s)" using r(2) alert_set end_set by (auto simp: wl_def Let_def split: if_splits)
  moreover have "\<not> alert \<Longrightarrow> wl \<noteq> None" using end_exists(2) [OF c(2)] by (auto simp: wl_def Let_def)
  moreover have "session_previous s alert = (case wl of None \<Rightarrow> if alert then Some (-1, s) else None | Some wl \<Rightarrow> Some (move_to wl s))"
    using Some r(1) by (simp add: session_previous_def wl_def Let_def)
  ultimately show ?thesis using moved_to [OF assms] moved_stay [OF assms] by (cases wl) auto
qed

text \<open>With another window, leaving the current one succeeds.\<close>

lemma previous_other:
  assumes "near_ok s" "s_curw s = Some c" "i \<in> idxs (s_windows s)" "i \<noteq> c"
  shows "runs (session_previous s False) (\<lambda>r. fst r = 0)"
proof -
  have c: "c \<in> idxs (s_windows s)" "s_windows s \<noteq> []" and w: "windows_ok (s_windows s)" using assms(1,2) by (auto simp: near_ok_def)
  obtain wl where wl: "(if find (\<lambda>x. wl_idx x < c) (rev (s_windows s)) = None then rb_max (s_windows s)
      else find (\<lambda>x. wl_idx x < c) (rev (s_windows s))) = Some wl"
    using end_exists(2) [OF c(2)] by (cases "find (\<lambda>x. wl_idx x < c) (rev (s_windows s))") auto
  have "wl_idx wl \<noteq> c"
  proof (cases "find (\<lambda>x. wl_idx x < c) (rev (s_windows s))")
    case None
    then have "c < i" using assms(3,4) by (force simp: find_None_iff)
    moreover have "x \<le> wl_idx (last (s_windows s))" if "x \<in> idxs (s_windows s)" for x
      using w c(2) that by (cases "s_windows s" rule: rev_cases) (auto simp: windows_ok_def sorted_wrt_append)
    ultimately show ?thesis using wl None c(2) assms(3) by (fastforce simp: rb_max_def)
  next
    case (Some x)
    then have "wl = x" using wl by simp
    moreover have "wl_idx x < c" using Some by (auto simp: find_Some_iff)
    ultimately show ?thesis by simp
  qed
  moreover have "session_previous s False = Some (move_to wl s)"
    using assms(2) c wl by (cases "find (\<lambda>x. wl_idx x < c) (rev (s_windows s))")
      (simp_all add: session_previous_def winlink_previous_def Let_def)
  ultimately show ?thesis using assms(2) by (simp add: move_to_result)
qed

lemma leave_current_ok:
  assumes "sess_ok s"
  shows "runs (leave_current s) (\<lambda>t. sess_ok t \<and> moves s t \<and>
    (\<forall>c i. s_curw s = Some c \<and> i \<in> idxs (s_windows s) \<and> i \<noteq> c \<longrightarrow> s_curw t \<noteq> Some c))"
proof -
  have n: "near_ok s" using assms by (simp add: sess_ok_def)
  obtain r1 where r1: "session_last s = Some r1" "index_moved s r1" using session_last_moved [OF n] by (rule runsE)
  obtain r2 where r2: "session_previous s False = Some r2" "index_moved s r2" using session_previous_moved [OF n] by (rule runsE)
  obtain r3 where r3: "session_next s False = Some r3" "index_moved s r3" using session_next_moved [OF n] by (rule runsE)
  have away: "sess_ok (snd r) \<and> moves s (snd r) \<and> (\<forall>c. s_curw s = Some c \<longrightarrow> s_curw (snd r) \<noteq> Some c)" if "index_moved s r" "fst r = 0" for r
    using that by (auto simp: index_moved_def)
  have stay: "snd r = s" if "index_moved s r" "fst r \<noteq> 0" for r using that by (simp add: index_moved_def)
  have step: "leave_current s = (if fst r1 = 0 then Some (snd r1) else Option.bind (session_previous (snd r1) False)
      (\<lambda>r. if fst r = 0 then Some (snd r) else map_option snd (session_next (snd r) False)))"
    by (simp add: leave_current_def r1(1) case_prod_unfold)
  consider "fst r1 = 0" | "fst r1 \<noteq> 0" "fst r2 = 0" | "fst r1 \<noteq> 0" "fst r2 \<noteq> 0" by blast
  then show ?thesis
  proof cases
    case 1
    then show ?thesis using away [OF r1(2) 1] step by simp
  next
    case 2
    then show ?thesis using away [OF r2(2) 2(2)] step stay [OF r1(2) 2(1)] r2(1) by simp
  next
    case 3
    have "leave_current s = Some (snd r3)" using step 3 stay [OF r1(2) 3(1)] stay [OF r2(2) 3(2)] r2(1) r3(1) by simp
    moreover have "\<not> (s_curw s = Some c \<and> i \<in> idxs (s_windows s) \<and> i \<noteq> c)" for c i
      using previous_other [OF n, of c i] r2(1) 3(2) by auto
    ultimately show ?thesis using r3(2) assms by (simp add: index_moved_def) blast
  qed
qed

section \<open>Synchronizing two sessions\<close>

text \<open>The target has lost at most one of the windows, and not all.\<close>

definition can_sync :: "winlink list \<Rightarrow> winlink list \<Rightarrow> bool" where
  "can_sync ww ws \<longleftrightarrow> idxs ws \<inter> idxs ww \<noteq> {} \<and> (\<exists>v. idxs ws \<subseteq> insert v (idxs ww))"

lemma keep_last:
  assumes "\<forall>i\<in>set xs. 0 \<le> i"
  shows "foldM (\<lambda>i out. map_option (\<lambda>wl2. if wl2 = None then out else out @ [i]) (winlink_find_by_index ws i)) xs out =
    Some (out @ filter (\<lambda>i. i \<in> idxs ws) xs)"
  using assms by (induction xs arbitrary: out) (simp_all add: winlink_find_by_index_def)

lemma vanished_moves:
  assumes "sess_ok s" "can_sync ww (s_windows s)" "windows_ok ww"
  shows "\<exists>c v t. s_curw s = Some c \<and> winlink_find_by_index ww c = Some v \<and>
    (if v = None then leave_current s else Some s) = Some t \<and> sess_ok t \<and> moves s t \<and> (\<exists>c. s_curw t = Some c \<and> c \<in> idxs ww)"
proof -
  obtain c where c: "s_curw s = Some c" "c \<in> idxs (s_windows s)" using sess_okD [OF assms(1)] by metis
  have c0: "0 \<le> c" using c(2) assms(1) by (auto simp: sess_ok_def near_ok_def dest: windows_okD)
  show ?thesis
  proof (cases "c \<in> idxs ww")
    case True
    then obtain wl where "rb_find ww c = Some wl" using rb_find_in by blast
    then show ?thesis using c c0 True assms(1) by (auto simp: winlink_find_by_index_def)
  next
    case False
    then have f: "rb_find ww c = None" by simp
    obtain t where t: "leave_current s = Some t" "sess_ok t" "moves s t"
      "\<And>i. i \<in> idxs (s_windows s) \<Longrightarrow> i \<noteq> c \<Longrightarrow> s_curw t \<noteq> Some c"
      using leave_current_ok [OF assms(1)] c(1) by (auto simp: runs_iff)
    obtain i where i: "i \<in> idxs (s_windows s)" "i \<in> idxs ww" using assms(2) by (auto simp: can_sync_def)
    obtain d where d: "s_curw t = Some d" "d \<in> idxs (s_windows t)" using sess_okD [OF t(2)] by metis
    have "d \<in> idxs (s_windows s)" using d(2) links_idxs [of "s_windows t" "s_windows s"] t(3) by (auto simp: moves_def)
    moreover have "d \<noteq> c" using t(4) [OF i(1)] i(2) False d(1) by auto
    ultimately have "d \<in> idxs ww" using assms(2) c(2) False unfolding can_sync_def by blast
    then show ?thesis using c c0 f t(1-3) d(1) by (auto simp: winlink_find_by_index_def simp del: rb_find_iff)
  qed
qed

lemma synchronize1_ok:
  assumes "windows_ok (s_windows t)" "s_windows t \<noteq> []"
    "sess_ok s \<and> can_sync (s_windows t) (s_windows s) \<or>
     s_curw s = None \<and> s_windows s = [] \<and> s_lastw s = [] \<and> (\<exists>c. s_curw t = Some c \<and> c \<in> idxs (s_windows t))"
    "refs_ok (\<lambda>w. h w + wcount (s_windows s) w) refs" "\<forall>w. 0 < wcount (s_windows t) w \<longrightarrow> 0 < h w"
  shows "runs (session_group_synchronize1 t (s, refs)) (\<lambda>(s', refs'). sess_ok s' \<and> links (s_windows s') = links (s_windows t) \<and>
    s_name s' = s_name s \<and> refs_ok (\<lambda>w. h w + wcount (s_windows t) w) refs')"
proof -
  let ?ww = "s_windows t"
  let ?ws = "map alerts_of ?ww"
  have start: "\<exists>v u c. (case s_curw s of None \<Rightarrow> Some False | Some c \<Rightarrow> map_option (\<lambda>wl. wl = None) (winlink_find_by_index ?ww c)) = Some v \<and>
    (if v then leave_current s else Some s) = Some u \<and> near_ok u \<and> moves s u \<and>
    (case s_curw u of Some c \<Rightarrow> Some c | None \<Rightarrow> s_curw t) = Some c \<and> c \<in> idxs ?ww \<and> c \<notin> set (s_lastw u)"
  proof (cases "s_curw s")
    case None
    then have "s_windows s = []" "s_lastw s = []" "\<exists>c. s_curw t = Some c \<and> c \<in> idxs ?ww" using assms(3) by (auto simp: sess_ok_def)
    then show ?thesis using None by (auto simp: near_ok_def windows_ok_def)
  next
    case (Some d)
    then have s: "sess_ok s" "can_sync ?ww (s_windows s)" using assms(3) by auto
    obtain w t' c where w: "winlink_find_by_index ?ww d = Some w" "(if w = None then leave_current s else Some s) = Some t'"
      "sess_ok t'" "moves s t'" "s_curw t' = Some c" "c \<in> idxs ?ww"
      using vanished_moves [OF s assms(1)] Some by auto
    have "near_ok t'" "c \<notin> set (s_lastw t')" using w(3,5) by (auto simp: sess_ok_def near_ok_def)
    then show ?thesis using Some w by (intro exI [of _ "w = None"] exI [of _ t'] exI [of _ c]) simp
  qed
  obtain v u c where v: "(case s_curw s of None \<Rightarrow> Some False | Some c \<Rightarrow> map_option (\<lambda>wl. wl = None) (winlink_find_by_index ?ww c)) = Some v"
    "(if v then leave_current s else Some s) = Some u" and u: "near_ok u" "moves s u"
    and c: "(case s_curw u of Some c \<Rightarrow> Some c | None \<Rightarrow> s_curw t) = Some c" "c \<in> idxs ?ww" "c \<notin> set (s_lastw u)"
    using start by blast
  have wc: "wcount (s_windows u) = wcount (s_windows s)" using u(2) by (intro links_wcount) (simp add: moves_def)
  obtain refs1 where r1: "foldM relink ?ww ([], refs) = Some (?ws, refs1)"
    "refs_ok (\<lambda>w. (h w + wcount (s_windows s) w) + wcount ?ww w) refs1"
    using relink_all [of "[]" ?ww "[]" _ refs, OF _ _ assms(4)] assms(1,5) by fastforce
  have "refs_ok (\<lambda>w. (h w + wcount ?ww w) + wcount (s_windows u) w) refs1" by (rule refs_ok_cong [OF r1(2)]) (simp add: wc)
  then obtain refs2 where r2: "foldM (\<lambda>wl. winlink_remove (wl_idx wl)) (s_windows u) (s_windows u, refs1) = Some ([], refs2)"
    "refs_ok (\<lambda>w. h w + wcount ?ww w) refs2"
    using remove_all [of "s_windows u" "\<lambda>w. h w + wcount ?ww w" refs1] u(1) by (auto simp: near_ok_def runs_iff)
  have ix: "idxs ?ws = idxs ?ww" by (simp add: image_image)
  have c0: "0 \<le> c" using windows_okD [OF assms(1)] c(2) by auto
  have cur: "\<exists>cur. winlink_find_by_index ?ws c = Some (Some cur) \<and> wl_idx cur = c"
    using rb_find_in [of c ?ws] c(2) c0 ix by (auto simp: winlink_find_by_index_def)
  have "\<forall>i\<in>idxs (s_windows u). 0 \<le> i" using u(1) windows_okD by (auto simp: near_ok_def)
  then have "\<forall>i\<in>set (s_lastw u). 0 \<le> i" using u(1) unfolding near_ok_def by blast
  note last = keep_last [OF this, of ?ws "[]"]
  let ?s = "u\<lparr>s_curw := Some c, s_lastw := filter (\<lambda>i. i \<in> idxs ?ws) (s_lastw u), s_windows := ?ws\<rparr>"
  have "windows_ok ?ws" by (rule windows_ok_links [OF links_alerts [symmetric] assms(1)])
  then have ok: "sess_ok ?s" using u(1) c(2,3) ix by (auto simp: sess_ok_def near_ok_def)
  obtain cu where cu: "winlink_find_by_index ?ws c = Some (Some cu)" "wl_idx cu = c" using cur by blast
  have "session_group_synchronize1 t (s, refs) = Some (?s, refs2)"
    using assms(2) by (simp add: session_group_synchronize1_def v r1(1) c(1) cu r2(1) last)
  then show ?thesis using ok r2(2) u(2) by (simp add: moves_def)
qed

end
