(* ===== verification/Session_Server.thy ===== *)
theory Session_Server
  imports Session_Facts
begin

text \<open>
  What holds of the server between commands: every session has windows and a current one, the
  reference count of a window is the number of winlinks to it, and the sessions of a group have
  the same windows. Within a command it may fail for one session, the target of the next
  synchronization.
\<close>

section \<open>The invariant\<close>

definition wins :: "server \<Rightarrow> nat \<Rightarrow> winlink list" where
  "wins sv s = (case sv_session sv s of None \<Rightarrow> [] | Some x \<Rightarrow> s_windows x)"

lemma wins_Some [simp]: "sv_session sv s = Some x \<Longrightarrow> wins sv s = s_windows x"
  by (simp add: wins_def)

text \<open>The winlinks to a window in the sessions, and in all but one.\<close>

definition link_total :: "server \<Rightarrow> nat set \<Rightarrow> nat \<Rightarrow> nat" where
  "link_total sv S w = (\<Sum>s\<in>S. wcount (wins sv s) w)"

definition alive_ok :: "server \<Rightarrow> bool" where
  "alive_ok sv \<longleftrightarrow> distinct (sv_sessions sv) \<and> dom (sv_session sv) = set (sv_sessions sv) \<and>
     sorted_wrt (<) (map (name_of sv) (sv_sessions sv)) \<and> (\<forall>s\<in>set (sv_sessions sv). s < sv_next_session sv)"

definition groups_ok :: "server \<Rightarrow> bool" where
  "groups_ok sv \<longleftrightarrow> distinct (concat (sv_groups sv)) \<and> (\<forall>g\<in>set (sv_groups sv). 2 \<le> length g \<and> set g \<subseteq> set (sv_sessions sv))"

definition synced :: "server \<Rightarrow> nat list \<Rightarrow> bool" where
  "synced sv g \<longleftrightarrow> (\<forall>a\<in>set g. \<forall>b\<in>set g. links (wins sv a) = links (wins sv b))"

definition frame_ok :: "server \<Rightarrow> bool" where
  "frame_ok sv \<longleftrightarrow> alive_ok sv \<and> groups_ok sv \<and> refs_ok (link_total sv (set (sv_sessions sv))) (sv_refs sv)"

definition server_ok :: "server \<Rightarrow> bool" where
  "server_ok sv \<longleftrightarrow> frame_ok sv \<and> (\<forall>s x. sv_session sv s = Some x \<longrightarrow> sess_ok x) \<and> (\<forall>g\<in>set (sv_groups sv). synced sv g)"

text \<open>All but the session t and its group.\<close>

definition partly_ok :: "nat \<Rightarrow> server \<Rightarrow> bool" where
  "partly_ok t sv \<longleftrightarrow> frame_ok sv \<and> (\<exists>x. sv_session sv t = Some x \<and> near_ok x) \<and>
     (\<forall>s x. s \<noteq> t \<longrightarrow> sv_session sv s = Some x \<longrightarrow> sess_ok x) \<and>
     (\<forall>g\<in>set (sv_groups sv). t \<notin> set g \<longrightarrow> synced sv g) \<and>
     (\<forall>g\<in>set (sv_groups sv). t \<in> set g \<longrightarrow> (\<forall>s\<in>set g. s \<noteq> t \<longrightarrow> can_sync (wins sv t) (wins sv s)))"

lemma alive_dom: "alive_ok sv \<Longrightarrow> s \<in> set (sv_sessions sv) \<longleftrightarrow> (\<exists>x. sv_session sv s = Some x)"
  by (auto simp: alive_ok_def)

text \<open>Changing one session.\<close>

lemma set_session_sel [simp]:
  "sv_session (set_session s x sv) = (sv_session sv)(s \<mapsto> x)" "sv_sessions (set_session s x sv) = sv_sessions sv"
  "sv_groups (set_session s x sv) = sv_groups sv" "sv_refs (set_session s x sv) = sv_refs sv" "sv_next_session (set_session s x sv) = sv_next_session sv"
  by (simp_all add: set_session_def)

lemma wins_cong: "sv_session sv s = sv_session sv' s \<Longrightarrow> wins sv s = wins sv' s"
  by (simp add: wins_def)

lemma link_total_split:
  assumes "finite S" "s \<in> S"
  shows "link_total sv S w = link_total sv (S - {s}) w + wcount (wins sv s) w"
  using sum.remove [OF assms] by (simp add: link_total_def add.commute)

lemma link_total_cong: "(\<And>s. s \<in> S \<Longrightarrow> wins sv s = wins sv' s) \<Longrightarrow> link_total sv S = link_total sv' S"
  unfolding link_total_def by (intro ext sum.cong) auto

lemma link_total_ge: "finite S \<Longrightarrow> s \<in> S \<Longrightarrow> wcount (wins sv s) w \<le> link_total sv S w"
  by (simp add: link_total_split)

lemma alive_ok_change:
  assumes "alive_ok sv" "sv_session sv s = Some x" "s_name y = s_name x" "sv_session sv' = (sv_session sv)(s \<mapsto> y)"
    "sv_sessions sv' = sv_sessions sv" "sv_next_session sv' = sv_next_session sv"
  shows "alive_ok sv'"
proof -
  have "name_of sv' = name_of sv" using assms(2-4) by (auto simp: name_of_def fun_eq_iff)
  moreover have "s \<in> set (sv_sessions sv)" using assms(1,2) alive_dom by blast
  ultimately show ?thesis using assms(1,4-6) by (auto simp: alive_ok_def)
qed

lemma frame_ok_change:
  assumes "frame_ok sv" "sv_session sv s = Some x" "s_name y = s_name x" "sv_session sv' = (sv_session sv)(s \<mapsto> y)"
    "sv_sessions sv' = sv_sessions sv" "sv_next_session sv' = sv_next_session sv" "sv_groups sv' = sv_groups sv"
    "refs_ok (\<lambda>w. link_total sv (set (sv_sessions sv) - {s}) w + wcount (s_windows y) w) (sv_refs sv')"
  shows "frame_ok sv'"
proof -
  let ?S = "set (sv_sessions sv)"
  have s: "s \<in> ?S" using assms(1,2) alive_dom by (auto simp: frame_ok_def)
  have eq: "link_total sv' (?S - {s}) = link_total sv (?S - {s})" by (rule link_total_cong) (simp add: assms(4) wins_def)
  have "wins sv' s = s_windows y" by (simp add: wins_def assms(4))
  then have "link_total sv (?S - {s}) w + wcount (s_windows y) w = link_total sv' ?S w" for w
    using link_total_split [OF finite_set s, of sv' w] unfolding eq by simp
  then have "refs_ok (link_total sv' ?S) (sv_refs sv')" by (rule refs_ok_cong [OF assms(8)])
  then show ?thesis using assms(1,5,7) alive_ok_change [OF _ assms(2-6)] by (simp add: frame_ok_def groups_ok_def)
qed

lemma frame_refs:
  assumes "frame_ok sv" "sv_session sv s = Some x"
  shows "refs_ok (\<lambda>w. link_total sv (set (sv_sessions sv) - {s}) w + wcount (s_windows x) w) (sv_refs sv)" "s \<in> set (sv_sessions sv)"
proof -
  show s: "s \<in> set (sv_sessions sv)" using assms alive_dom by (auto simp: frame_ok_def)
  show "refs_ok (\<lambda>w. link_total sv (set (sv_sessions sv) - {s}) w + wcount (s_windows x) w) (sv_refs sv)"
  proof (rule refs_ok_cong)
    show "refs_ok (link_total sv (set (sv_sessions sv))) (sv_refs sv)" using assms(1) by (simp add: frame_ok_def)
  qed (use link_total_split [OF finite_set s, of sv] assms(2) in simp)
qed

lemma group_unique:
  assumes "groups_ok sv" "g \<in> set (sv_groups sv)" "h \<in> set (sv_groups sv)" "s \<in> set g" "s \<in> set h"
  shows "g = h"
  using assms unfolding groups_ok_def distinct_concat_iff by blast

lemma group_find_Some: "session_group_find s sv = Some g \<Longrightarrow> g \<in> set (sv_groups sv) \<and> s \<in> set g"
  by (auto simp: session_group_find_def find_Some_iff)

lemma group_find_None: "session_group_find s sv = None \<Longrightarrow> g \<in> set (sv_groups sv) \<Longrightarrow> s \<notin> set g"
  by (auto simp: session_group_find_def find_None_iff)

section \<open>Synchronizing a group\<close>

text \<open>What a synchronization does not change.\<close>

definition same_frame :: "server \<Rightarrow> server \<Rightarrow> bool" where
  "same_frame sv sv' \<longleftrightarrow> sv_sessions sv' = sv_sessions sv \<and> sv_groups sv' = sv_groups sv \<and> sv_next_session sv' = sv_next_session sv \<and>
     (\<forall>s. name_of sv' s = name_of sv s)"

lemma same_frame_refl [simp]: "same_frame sv sv"
  by (simp add: same_frame_def)

lemma same_frame_trans: "same_frame a b \<Longrightarrow> same_frame b c \<Longrightarrow> same_frame a c"
  by (simp add: same_frame_def)

lemma synchronize_ok:
  assumes "partly_ok t sv" "wins sv t \<noteq> []" "g \<in> set (sv_groups sv)" "t \<in> set g" "s \<in> set g" "s \<noteq> t"
  shows "runs (synchronize t s sv) (\<lambda>sv'. partly_ok t sv' \<and> same_frame sv sv' \<and> links (wins sv' s) = links (wins sv t) \<and>
    (\<forall>r. r \<noteq> s \<longrightarrow> sv_session sv' r = sv_session sv r))"
proof -
  have f: "frame_ok sv" using assms(1) by (simp add: partly_ok_def)
  obtain x where x: "sv_session sv t = Some x" "near_ok x" using assms(1) by (auto simp: partly_ok_def)
  have "s \<in> set (sv_sessions sv)" using f assms(3,5) by (auto simp: frame_ok_def groups_ok_def)
  then obtain y where y: "sv_session sv s = Some y" using f alive_dom by (auto simp: frame_ok_def)
  have yo: "sess_ok y" using assms(1,6) y by (auto simp: partly_ok_def)
  have cs: "can_sync (s_windows x) (s_windows y)" proof -
    have "can_sync (wins sv t) (wins sv s)" using assms(1,3-6) unfolding partly_ok_def by blast
    then show ?thesis using x(1) y by simp
  qed
  let ?h = "link_total sv (set (sv_sessions sv) - {s})"
  note r = frame_refs(1) [OF f y]
  have ts: "t \<in> set (sv_sessions sv) - {s}" using frame_refs(2) [OF f x(1)] assms(6) by simp
  have "wcount (s_windows x) w \<le> ?h w" for w using link_total_ge [OF _ ts, of sv w] x(1) by simp
  then have live: "\<forall>w. 0 < wcount (s_windows x) w \<longrightarrow> 0 < ?h w" using order_less_le_trans by blast
  obtain y' refs where o: "session_group_synchronize1 x (y, sv_refs sv) = Some (y', refs)" "sess_ok y'"
    "links (s_windows y') = links (s_windows x)" "s_name y' = s_name y" "refs_ok (\<lambda>w. ?h w + wcount (s_windows x) w) refs"
    using synchronize1_ok [OF _ _ _ r live] x assms(2) yo cs by (auto simp: near_ok_def runs_iff)
  let ?v = "(set_session s y' sv)\<lparr>sv_refs := refs\<rparr>"
  have "refs_ok (\<lambda>w. ?h w + wcount (s_windows y') w) refs" using o(5) by (simp only: links_wcount [OF o(3)])
  then have "frame_ok ?v"
    by (intro frame_ok_change [OF f y o(4)]) simp_all
  moreover have w: "wins ?v a = (if a = s then s_windows y' else wins sv a)" for a by (simp add: wins_def)
  have "synced ?v h" if "h \<in> set (sv_groups sv)" "t \<notin> set h" for h
  proof -
    have "groups_ok sv" using f by (simp add: frame_ok_def)
    then have "s \<notin> set h" using group_unique [OF _ that(1) assms(3) _ assms(5)] that(2) assms(4) by blast
    then have "wins ?v a = wins sv a" if "a \<in> set h" for a using that w by metis
    moreover have "synced sv h" using assms(1) that unfolding partly_ok_def by blast
    ultimately show ?thesis unfolding synced_def by metis
  qed
  moreover have "can_sync (wins ?v t) (wins ?v a)" if "h \<in> set (sv_groups sv)" "t \<in> set h" "a \<in> set h" "a \<noteq> t" for h a
  proof (cases "a = s")
    case True
    have "idxs (s_windows y') = idxs (s_windows x)" by (rule links_idxs [OF o(3)])
    then show ?thesis using True w assms(2,6) x(1) by (auto simp: can_sync_def)
  next
    case False
    then show ?thesis using that assms(1,6) w by (auto simp: partly_ok_def)
  qed
  moreover have "same_frame sv ?v" using o(4) y by (auto simp: same_frame_def name_of_def)
  ultimately have "partly_ok t ?v \<and> same_frame sv ?v" using assms(1,6) x o(2) by (auto simp: partly_ok_def)
  then show ?thesis using o(1,3) x(1) y w by (simp add: synchronize_def)
qed

lemma synchronize_all:
  assumes "partly_ok t sv" "wins sv t \<noteq> []" "g \<in> set (sv_groups sv)" "t \<in> set g" "set xs \<subseteq> set g"
  shows "runs (foldM (\<lambda>s sv. if s \<noteq> t then synchronize t s sv else Some sv) xs sv) (\<lambda>sv'. partly_ok t sv' \<and> same_frame sv sv' \<and>
    sv_session sv' t = sv_session sv t \<and> (\<forall>r\<in>set xs. links (wins sv' r) = links (wins sv t)) \<and>
    (\<forall>r. r \<notin> set xs \<longrightarrow> sv_session sv' r = sv_session sv r))"
  using assms
proof (induction xs rule: rev_induct)
  case (snoc s xs)
  obtain v where v: "foldM (\<lambda>s sv. if s \<noteq> t then synchronize t s sv else Some sv) xs sv = Some v" "partly_ok t v" "same_frame sv v"
    "sv_session v t = sv_session sv t" "\<forall>r\<in>set xs. links (wins v r) = links (wins sv t)" "\<forall>r. r \<notin> set xs \<longrightarrow> sv_session v r = sv_session sv r"
    using snoc by (auto simp: runs_iff)
  have wt: "wins v t = wins sv t" by (rule wins_cong [OF v(4)])
  show ?case
  proof (cases "s = t")
    case True
    then show ?thesis using v wt by (auto simp: foldM_append)
  next
    case False
    have g: "g \<in> set (sv_groups v)" using v(3) snoc.prems(3) by (simp add: same_frame_def)
    obtain u where u: "synchronize t s v = Some u" "partly_ok t u" "same_frame v u" "links (wins u s) = links (wins v t)"
      "\<forall>r. r \<noteq> s \<longrightarrow> sv_session u r = sv_session v r"
      using synchronize_ok [OF v(2) _ g snoc.prems(4) _ False] snoc.prems(2,5) wt by (auto simp: runs_iff)
    have "links (wins u r) = links (wins sv t)" if "r \<in> set xs" for r
    proof (cases "r = s")
      case False
      then have "wins u r = wins v r" using u(5) by (intro wins_cong) simp
      then show ?thesis using v(5) that by simp
    qed (use u(4) wt in simp)
    then show ?thesis using v u False wt same_frame_trans [OF v(3) u(3)] by (auto simp: foldM_append)
  qed
qed (simp)

text \<open>After it, the groups are in step again.\<close>

definition all_synced :: "nat \<Rightarrow> server \<Rightarrow> bool" where
  "all_synced t sv \<longleftrightarrow> frame_ok sv \<and> (\<exists>x. sv_session sv t = Some x \<and> near_ok x) \<and>
     (\<forall>s x. s \<noteq> t \<longrightarrow> sv_session sv s = Some x \<longrightarrow> sess_ok x) \<and> (\<forall>g\<in>set (sv_groups sv). synced sv g)"

lemma synchronize_from_ok:
  assumes "partly_ok t sv" "wins sv t \<noteq> []"
  shows "runs (session_group_synchronize_from t sv) (\<lambda>sv'. all_synced t sv' \<and> same_frame sv sv' \<and> sv_session sv' t = sv_session sv t \<and>
    (\<forall>r. (\<forall>g\<in>set (sv_groups sv). t \<in> set g \<longrightarrow> r \<notin> set g) \<longrightarrow> sv_session sv' r = sv_session sv r))"
proof (cases "session_group_find t sv")
  case None
  then have "all_synced t sv" using assms(1) group_find_None by (auto simp: partly_ok_def all_synced_def)
  then show ?thesis using None by (simp add: session_group_synchronize_from_def)
next
  case (Some g)
  have g: "g \<in> set (sv_groups sv)" "t \<in> set g" using group_find_Some [OF Some] by simp_all
  obtain v where v: "foldM (\<lambda>s sv. if s \<noteq> t then synchronize t s sv else Some sv) g sv = Some v" "partly_ok t v" "same_frame sv v"
    "sv_session v t = sv_session sv t" "\<forall>r\<in>set g. links (wins v r) = links (wins sv t)" "\<forall>r. r \<notin> set g \<longrightarrow> sv_session v r = sv_session sv r"
    using synchronize_all [OF assms g order_refl] by (auto simp: runs_iff)
  have "synced v h" if "h \<in> set (sv_groups v)" for h
  proof (cases "t \<in> set h")
    case True
    have "groups_ok sv" using assms(1) by (simp add: partly_ok_def frame_ok_def)
    then have "h = g" using True that g group_unique v(3) by (auto simp: same_frame_def)
    then show ?thesis using v(5) by (simp add: synced_def)
  next
    case False
    then show ?thesis using that v(2) by (simp add: partly_ok_def)
  qed
  then have "all_synced t v" using v(2) by (simp add: partly_ok_def all_synced_def)
  then show ?thesis using Some v g by (auto simp: session_group_synchronize_from_def)
qed

section \<open>Changing a session\<close>

text \<open>Everything but one session, whose windows may be any.\<close>

definition rest_ok :: "nat \<Rightarrow> server \<Rightarrow> bool" where
  "rest_ok s sv \<longleftrightarrow> frame_ok sv \<and> (\<exists>x. sv_session sv s = Some x \<and> windows_ok (s_windows x)) \<and>
     (\<forall>r x. r \<noteq> s \<longrightarrow> sv_session sv r = Some x \<longrightarrow> sess_ok x) \<and>
     (\<forall>g\<in>set (sv_groups sv). \<forall>a\<in>set g - {s}. \<forall>b\<in>set g - {s}. links (wins sv a) = links (wins sv b))"

lemma rest_okI: "server_ok sv \<Longrightarrow> sv_session sv s = Some x \<Longrightarrow> rest_ok s sv"
  by (fastforce simp: server_ok_def rest_ok_def synced_def sess_ok_def near_ok_def)

lemma change_rest:
  assumes "rest_ok s sv" "sv_session sv s = Some x" "s_name y = s_name x" "windows_ok (s_windows y)"
    "refs_ok (\<lambda>w. link_total sv (set (sv_sessions sv) - {s}) w + wcount (s_windows y) w) refs"
  shows "rest_ok s ((set_session s y sv)\<lparr>sv_refs := refs\<rparr>)"
proof -
  let ?v = "(set_session s y sv)\<lparr>sv_refs := refs\<rparr>"
  have "frame_ok sv" using assms(1) by (simp add: rest_ok_def)
  then have "frame_ok ?v" by (rule frame_ok_change [OF _ assms(2,3)]) (simp_all add: assms(5))
  moreover have w: "wins ?v a = wins sv a" if "a \<noteq> s" for a using that by (simp add: wins_def)
  have "links (wins ?v a) = links (wins ?v b)" if "g \<in> set (sv_groups ?v)" "a \<in> set g - {s}" "b \<in> set g - {s}" for g a b
  proof -
    have "g \<in> set (sv_groups sv)" using that(1) by simp
    then have "links (wins sv a) = links (wins sv b)" using assms(1) that(2,3) unfolding rest_ok_def by blast
    then show ?thesis using w [of a] w [of b] that(2,3) by simp
  qed
  moreover have "\<forall>r z. r \<noteq> s \<longrightarrow> sv_session ?v r = Some z \<longrightarrow> sess_ok z" using assms(1) by (simp add: rest_ok_def)
  moreover have "sv_session ?v s = Some y" by simp
  ultimately show ?thesis unfolding rest_ok_def using assms(4) by blast
qed

lemma partly_of_rest:
  assumes "rest_ok s sv" "sv_session sv s = Some x" "near_ok x"
    "\<And>g r. g \<in> set (sv_groups sv) \<Longrightarrow> s \<in> set g \<Longrightarrow> r \<in> set g \<Longrightarrow> r \<noteq> s \<Longrightarrow> can_sync (s_windows x) (wins sv r)"
  shows "partly_ok s sv"
proof -
  have "synced sv g" if "g \<in> set (sv_groups sv)" "s \<notin> set g" for g
  proof -
    have "set g - {s} = set g" using that(2) by blast
    then show ?thesis using assms(1) that(1) unfolding rest_ok_def synced_def by metis
  qed
  then show ?thesis using assms by (auto simp: rest_ok_def partly_ok_def)
qed

text \<open>After a synchronization, the session is given its current window.\<close>

lemma all_syncedI: "server_ok sv \<Longrightarrow> sv_session sv s = Some x \<Longrightarrow> all_synced s sv"
  by (auto simp: server_ok_def all_synced_def sess_ok_def)

lemma all_synced_done: "all_synced s sv \<Longrightarrow> sv_session sv s = Some x \<Longrightarrow> sess_ok x \<Longrightarrow> server_ok sv"
  unfolding all_synced_def server_ok_def by (metis option.sel)

lemma moved_server:
  assumes "all_synced s sv" "sv_session sv s = Some x" "moves x y" "sess_ok y"
  shows "server_ok (set_session s y sv)" "same_frame sv (set_session s y sv)"
    "\<And>r. links (wins (set_session s y sv) r) = links (wins sv r)"
proof -
  let ?v = "set_session s y sv"
  have l: "links (s_windows y) = links (s_windows x)" "s_name y = s_name x" using assms(3) by (simp_all add: moves_def)
  have f: "frame_ok sv" using assms(1) by (simp add: all_synced_def)
  have "refs_ok (\<lambda>w. link_total sv (set (sv_sessions sv) - {s}) w + wcount (s_windows y) w) (sv_refs sv)"
    using frame_refs(1) [OF f assms(2)] by (simp only: links_wcount [OF l(1)])
  then have "frame_ok ?v" by (intro frame_ok_change [OF f assms(2) l(2)]) simp_all
  moreover show w: "links (wins ?v r) = links (wins sv r)" for r using l(1) assms(2) by (simp add: wins_def)
  moreover have "synced ?v g" if "g \<in> set (sv_groups sv)" for g
  proof -
    have "synced sv g" using assms(1) that unfolding all_synced_def by blast
    then show ?thesis by (simp only: synced_def w)
  qed
  ultimately show "server_ok ?v" using assms(1,4) by (auto simp: all_synced_def server_ok_def)
  show "same_frame sv ?v" using l(2) assms(2) by (auto simp: same_frame_def name_of_def)
qed

lemma select_in_ok:
  assumes "all_synced s sv" "i \<in> idxs (wins sv s)"
  shows "runs (select_in s i sv) (\<lambda>sv'. server_ok sv' \<and> same_frame sv sv' \<and> (\<forall>r. links (wins sv' r) = links (wins sv r)))"
proof -
  obtain x where x: "sv_session sv s = Some x" "near_ok x" using assms(1) by (auto simp: all_synced_def)
  have i: "i \<in> idxs (s_windows x)" using assms(2) x(1) by simp
  then have "0 \<le> i" using x(2) windows_okD by (auto simp: near_ok_def)
  then obtain r where r: "session_select x i = Some r" "sess_ok (snd r)" "moves x (snd r)"
    using session_select_moved [OF x(2), of i] i by (auto simp: runs_iff index_moved_def)
  then show ?thesis using moved_server [OF assms(1) x(1) r(3,2)] x(1)
    by (simp add: select_in_def case_prod_unfold)
qed

section \<open>A new winlink\<close>

lemma new_link:
  assumes "rest_ok s sv" "sv_session sv s = Some x" "near_ok x" "i \<notin> idxs (s_windows x)" "0 \<le> i" "i \<le> IDX_MAX"
    "refs_ok (\<lambda>v. link_total sv (set (sv_sessions sv)) v + (if v = w then 1 else 0)) refs"
    "\<And>g r. g \<in> set (sv_groups sv) \<Longrightarrow> s \<in> set g \<Longrightarrow> r \<in> set g \<Longrightarrow> r \<noteq> s \<Longrightarrow> can_sync (insort_key wl_idx \<lparr>wl_idx = i, wl_window = Some w, wl_flags = 0\<rparr> (s_windows x)) (wins sv r)"
  shows "partly_ok s ((set_session s (x\<lparr>s_windows := insort_key wl_idx \<lparr>wl_idx = i, wl_window = Some w, wl_flags = 0\<rparr> (s_windows x)\<rparr>) sv)\<lparr>sv_refs := refs\<rparr>)"
proof -
  let ?ws = "insort_key wl_idx \<lparr>wl_idx = i, wl_window = Some w, wl_flags = 0\<rparr> (s_windows x)"
  let ?y = "x\<lparr>s_windows := ?ws\<rparr>"
  let ?v = "(set_session s ?y sv)\<lparr>sv_refs := refs\<rparr>"
  have f: "frame_ok sv" using assms(1) by (simp add: rest_ok_def)
  have ok: "windows_ok ?ws" using assms(3-6) by (intro windows_ok_insort) (simp_all add: near_ok_def)
  have "link_total sv (set (sv_sessions sv)) v + (if v = w then 1 else 0) = link_total sv (set (sv_sessions sv) - {s}) v + wcount (s_windows ?y) v" for v
    using link_total_split [OF finite_set frame_refs(2) [OF f assms(2)], of sv v] assms(2) by simp
  then have "refs_ok (\<lambda>v. link_total sv (set (sv_sessions sv) - {s}) v + wcount (s_windows ?y) v) refs" by (rule refs_ok_cong [OF assms(7)])
  then have r: "rest_ok s ?v" using ok by (intro change_rest [OF assms(1,2)]) simp_all
  have "near_ok ?y" using assms(3) ok by (auto simp: near_ok_def set_insort_key)
  then show ?thesis using assms(8) by (intro partly_of_rest [OF r]) (auto simp: wins_def)
qed

end
