(* ===== verification/Session_Ops.thy ===== *)
theory Session_Ops
  imports Session_Server
begin

text \<open>
  The commands that change which windows are linked where: each keeps the invariant of the
  server, and none of them calls fatal or follows a null pointer.
\<close>

section \<open>Linking\<close>

text \<open>
  What the other sessions of the group have, when a winlink is about to be added: no other
  windows, but for the one whose index the new winlink takes.
\<close>

definition ready_to_add :: "nat \<Rightarrow> session \<Rightarrow> int \<Rightarrow> server \<Rightarrow> bool" where
  "ready_to_add s x idx sv \<longleftrightarrow> rest_ok s sv \<and> sv_session sv s = Some x \<and> near_ok x \<and> valid_index idx \<and>
     (\<forall>g\<in>set (sv_groups sv). s \<in> set g \<longrightarrow> (\<forall>r\<in>set g. r \<noteq> s \<longrightarrow> wins sv r \<noteq> [] \<and>
        (idxs (wins sv r) \<subseteq> idxs (s_windows x) \<or> 0 \<le> idx \<and> idxs (wins sv r) \<subseteq> insert idx (idxs (s_windows x)))))"

definition added :: "nat \<Rightarrow> session \<Rightarrow> int \<Rightarrow> server \<Rightarrow> int option \<times> server \<Rightarrow> bool" where
  "added s x idx sv = (\<lambda>(r, sv'). case r of
     None \<Rightarrow> sv' = sv \<and> (0 \<le> idx \<longrightarrow> idx \<in> idxs (s_windows x))
   | Some i \<Rightarrow> all_synced s sv' \<and> same_frame sv sv' \<and> i \<in> idxs (wins sv' s) \<and> (s_curw x \<noteq> None \<longrightarrow> server_ok sv'))"

lemma idxs_insort: "idxs (insort_key wl_idx y ws) = insert (wl_idx y) (idxs ws)"
  by (simp add: set_insort_key)

lemma link_step:
  assumes "ready_to_add s x idx sv" "winlink_add (s_windows x) idx = Some (Some (ws, i))"
    "refs_ok (\<lambda>v. link_total sv (set (sv_sessions sv)) v + (if v = w then 1 else 0)) refs"
  shows "runs (session_group_synchronize_from s
      ((set_session s (x\<lparr>s_windows := update_winlink i (\<lambda>wl. wl\<lparr>wl_window := Some w\<rparr>) ws\<rparr>) sv)\<lparr>sv_refs := refs\<rparr>))
    (\<lambda>sv'. added s x idx sv (Some i, sv'))"
proof -
  have p: "rest_ok s sv" "sv_session sv s = Some x" "near_ok x" "valid_index idx" using assms(1) by (simp_all add: ready_to_add_def)
  have a: "ws = insort_key wl_idx \<lparr>wl_idx = i, wl_window = None, wl_flags = 0\<rparr> (s_windows x)" "i \<notin> idxs (s_windows x)" "0 \<le> i" "i \<le> IDX_MAX" "0 \<le> idx \<longrightarrow> i = idx"
    using winlink_add_runs [OF p(4), of "s_windows x"] assms(2) by auto
  let ?l = "\<lparr>wl_idx = i, wl_window = Some w, wl_flags = 0\<rparr>"
  let ?ws = "insort_key wl_idx ?l (s_windows x)"
  let ?v = "(set_session s (x\<lparr>s_windows := ?ws\<rparr>) sv)\<lparr>sv_refs := refs\<rparr>"
  have u: "update_winlink i (\<lambda>wl. wl\<lparr>wl_window := Some w\<rparr>) ws = ?ws"
    unfolding a(1) by (subst update_insort) (use a(2) in simp_all)
  have "can_sync ?ws (wins sv r)" if "g \<in> set (sv_groups sv)" "s \<in> set g" "r \<in> set g" "r \<noteq> s" for g r
  proof -
    have r: "wins sv r \<noteq> []" "idxs (wins sv r) \<subseteq> idxs (s_windows x) \<or> 0 \<le> idx \<and> idxs (wins sv r) \<subseteq> insert idx (idxs (s_windows x))"
      using assms(1) that unfolding ready_to_add_def by blast+
    then have "idxs (wins sv r) \<subseteq> idxs ?ws" using a(5) by (auto simp: idxs_insort)
    moreover have "idxs (wins sv r) \<noteq> {}" using r(1) by simp
    ultimately have "idxs (wins sv r) \<inter> idxs ?ws \<noteq> {}" by (simp only: Int_absorb2 not_False_eq_True)
    then show ?thesis using \<open>idxs (wins sv r) \<subseteq> idxs ?ws\<close> unfolding can_sync_def by blast
  qed
  then have po: "partly_ok s ?v" by (intro new_link [OF p(1-3) a(2-4) assms(3)])
  moreover have "wins ?v s \<noteq> []" using set_insort_key [of wl_idx ?l "s_windows x"] by (auto simp: wins_def)
  ultimately obtain sv' where sv': "session_group_synchronize_from s ?v = Some sv'" "all_synced s sv'" "same_frame ?v sv'"
    "sv_session sv' s = sv_session ?v s"
    using synchronize_from_ok [of s ?v] by (auto simp: runs_iff)
  have "same_frame sv ?v" using p(2) by (auto simp: same_frame_def name_of_def)
  then have "same_frame sv sv'" using sv'(3) same_frame_trans by blast
  moreover have "wins sv' s = ?ws" using sv'(4) by (simp add: wins_def)
  moreover have "server_ok sv'" if "s_curw x \<noteq> None"
  proof -
    obtain y where y: "sv_session sv' s = Some y" "near_ok y" using sv'(2) by (auto simp: all_synced_def)
    then have "s_curw y \<noteq> None" using sv'(4) that by auto
    then show ?thesis using all_synced_done [OF sv'(2) y(1)] y(2) by (simp add: sess_ok_def)
  qed
  ultimately show ?thesis using sv'(1,2) unfolding u by (simp add: added_def idxs_insort)
qed

lemma attach_ok:
  assumes "ready_to_add s x idx sv" "0 < link_total sv (set (sv_sessions sv)) w"
  shows "runs (session_attach s w idx sv) (added s x idx sv)"
proof -
  have p: "frame_ok sv" "sv_session sv s = Some x" "valid_index idx" using assms(1) by (simp_all add: ready_to_add_def rest_ok_def)
  let ?t = "link_total sv (set (sv_sessions sv))"
  obtain r where r: "winlink_add (s_windows x) idx = Some r" using winlink_add_runs [OF p(3), of "s_windows x"] by (auto simp: runs_iff)
  show ?thesis
  proof (cases r)
    case None
    have "0 \<le> idx \<longrightarrow> idx \<in> idxs (s_windows x)"
      using r None winlink_add_new [of idx "s_windows x"] by auto
    then show ?thesis using p(2) r None by (simp add: session_attach_def added_def)
  next
    case (Some wi)
    obtain ws i where wi: "wi = (ws, i)" by (cases wi)
    have ro: "refs_ok ?t (sv_refs sv)" using p(1) by (simp add: frame_ok_def)
    have "refs_ok (\<lambda>v. ?t v + (if v = w then 1 else 0)) ((sv_refs sv)(w \<mapsto> ?t w + 1))"
      by (rule refs_ok_cong [OF refs_ok_link [OF ro assms(2)]]) simp
    moreover have "sv_refs sv w = Some (?t w)" using ro assms(2) by (simp add: refs_ok_def)
    ultimately show ?thesis
      using link_step [OF assms(1) r [unfolded Some wi]] p(2) r Some wi
      by (simp add: session_attach_def winlink_set_window_def)
  qed
qed

lemma remove_insort: "wl_idx y \<notin> idxs ws \<Longrightarrow> filter (\<lambda>wl. wl_idx wl \<noteq> wl_idx y) (insort_key wl_idx y ws) = ws"
proof (induction ws)
  case (Cons x ws)
  have "\<forall>z\<in>set (x # ws). wl_idx z \<noteq> wl_idx y"
  proof
    fix z assume "z \<in> set (x # ws)"
    then have "wl_idx z \<in> idxs (x # ws)" by blast
    then show "wl_idx z \<noteq> wl_idx y" using Cons.prems by metis
  qed
  then have "filter (\<lambda>wl. wl_idx wl \<noteq> wl_idx y) (x # ws) = x # ws" by (intro filter_True)
  then show ?case using Cons by auto
qed simp

lemma new_ok:
  assumes "ready_to_add s x idx sv" "\<forall>w. created = Some w \<longrightarrow> sv_refs sv w = None"
  shows "runs (session_new s idx created sv) (\<lambda>r. added s x idx sv r \<or> created = None \<and> r = (None, sv))"
proof -
  have p: "frame_ok sv" "sv_session sv s = Some x" "valid_index idx" using assms(1) by (simp_all add: ready_to_add_def rest_ok_def)
  let ?t = "link_total sv (set (sv_sessions sv))"
  obtain r where r: "winlink_add (s_windows x) idx = Some r" using winlink_add_runs [OF p(3), of "s_windows x"] by (auto simp: runs_iff)
  show ?thesis
  proof (cases r)
    case None
    have "0 \<le> idx \<longrightarrow> idx \<in> idxs (s_windows x)"
      using r None winlink_add_new [of idx "s_windows x"] by auto
    then show ?thesis using p(2) r None by (simp add: session_new_def added_def)
  next
    case (Some wi)
    obtain ws i where wi: "wi = (ws, i)" by (cases wi)
    show ?thesis
    proof (cases created)
      case None
      have a: "ws = insort_key wl_idx \<lparr>wl_idx = i, wl_window = None, wl_flags = 0\<rparr> (s_windows x)" "i \<notin> idxs (s_windows x)"
        using winlink_add_runs [OF p(3), of "s_windows x"] r Some wi by auto
      let ?l = "\<lparr>wl_idx = i, wl_window = None, wl_flags = 0\<rparr>"
      have "i \<in> idxs ws" using a(1) by (simp add: idxs_insort)
      moreover have "wl_window l = None" if "rb_find ws i = Some l" for l
      proof -
        have "l \<in> set ws" "wl_idx l = i" using rb_find_Some [OF that] by simp_all
        moreover have "l \<notin> set (s_windows x)" using \<open>wl_idx l = i\<close> a(2) by blast
        ultimately have "l = ?l" unfolding a(1) set_insort_key by blast
        then show ?thesis by simp
      qed
      ultimately obtain l where l: "rb_find ws i = Some l" "wl_window l = None" using rb_find_in by blast
      have "filter (\<lambda>wl. wl_idx wl \<noteq> i) ws = s_windows x" using remove_insort [of ?l] a by simp
      then have "winlink_remove i (ws, sv_refs sv) = Some (s_windows x, sv_refs sv)" using l by (simp add: winlink_remove_def)
      moreover have "(set_session s (x\<lparr>s_windows := s_windows x\<rparr>) sv)\<lparr>sv_refs := sv_refs sv\<rparr> = sv"
        using p(2) by (simp add: set_session_def fun_upd_idem)
      ultimately show ?thesis using p(2) r Some wi None by (simp add: session_new_def)
    next
      case created: (Some w)
      then have rw: "sv_refs sv w = None" using assms(2) by simp
      have ro: "refs_ok ?t (sv_refs sv)" using p(1) by (simp add: frame_ok_def)
      then have "?t w = 0" using rw by (auto simp: refs_ok_def split: if_splits)
      then have "refs_ok (\<lambda>v. ?t v + (if v = w then 1 else 0)) ((sv_refs sv)(w \<mapsto> 1))" using ro by (auto simp: refs_ok_def)
      then show ?thesis
        using link_step [OF assms(1) r [unfolded Some wi]] p(2) r Some wi created
        by (simp add: session_new_def winlink_set_window_def)
    qed
  qed
qed

text \<open>A session of a good server is ready.\<close>

lemma server_ready:
  assumes "server_ok sv" "sv_session sv s = Some x" "valid_index idx"
  shows "ready_to_add s x idx sv"
proof -
  have "wins sv r \<noteq> [] \<and> idxs (wins sv r) \<subseteq> idxs (s_windows x)" if "g \<in> set (sv_groups sv)" "s \<in> set g" "r \<in> set g" for g r
  proof -
    have "links (wins sv r) = links (wins sv s)" using assms(1) that unfolding server_ok_def synced_def by blast
    then have e: "idxs (wins sv r) = idxs (s_windows x)" using links_idxs [of "wins sv r" "wins sv s"] assms(2) by simp
    have "sess_ok x" using assms(1,2) unfolding server_ok_def by blast
    then have "s_windows x \<noteq> []" by (rule sess_okD)
    then show ?thesis using e by auto
  qed
  then show ?thesis using rest_okI [OF assms(1,2)] assms unfolding ready_to_add_def server_ok_def sess_ok_def by blast
qed

section \<open>Destroying a session\<close>

lemma groups_removed:
  fixes s :: nat
  assumes "distinct (concat gs)" "\<forall>g\<in>set gs. 2 \<le> length g"
  defines "gs' \<equiv> change_first (\<lambda>sg. s \<in> set sg) (\<lambda>sg. if length (remove1 s sg) \<le> 1 then [] else [remove1 s sg]) gs"
  shows "distinct (concat gs') \<and> set (concat gs') \<subseteq> set (concat gs) - {s} \<and>
    (\<forall>g\<in>set gs'. 2 \<le> length g \<and> (\<exists>h\<in>set gs. set g = set h - {s}))"
  using assms(1,2) unfolding gs'_def
proof (induction gs)
  case (Cons g gs)
  have d: "distinct g" "distinct (concat gs)" "set g \<inter> set (concat gs) = {}" using Cons.prems(1) by simp_all
  show ?case
  proof (cases "s \<in> set g")
    case True
    then have "s \<notin> set (concat gs)" using d(3) by blast
    then have "\<forall>h\<in>set gs. set h = set h - {s}" by auto
    then show ?thesis using True d Cons.prems(2) \<open>s \<notin> set (concat gs)\<close> by (auto simp: set_remove1_eq)
  next
    case False
    let ?r = "change_first (\<lambda>sg. s \<in> set sg) (\<lambda>sg. if length (remove1 s sg) \<le> 1 then [] else [remove1 s sg]) gs"
    have r: "distinct (concat ?r)" "set (concat ?r) \<subseteq> set (concat gs) - {s}" "\<forall>g\<in>set ?r. 2 \<le> length g \<and> (\<exists>h\<in>set gs. set g = set h - {s})"
      using Cons.IH d(2) Cons.prems(2) by simp_all
    have "change_first (\<lambda>sg. s \<in> set sg) (\<lambda>sg. if length (remove1 s sg) \<le> 1 then [] else [remove1 s sg]) (g # gs) = g # ?r" using False by simp
    moreover have "distinct (concat (g # ?r))" using r(1,2) d(1,3) by auto
    moreover have "set (concat (g # ?r)) \<subseteq> set (concat (g # gs)) - {s}" using r(2) False by auto
    moreover have "set g = set g - {s}" using False by blast
    ultimately show ?thesis using r(3) Cons.prems(2) by auto
  qed
qed simp

lemma change_first_none: "\<forall>x\<in>set xs. \<not> P x \<Longrightarrow> change_first P f xs = xs"
  by (induction xs) auto

lemma group_remove_eq:
  assumes "groups_ok sv" "sv_groups v = sv_groups sv"
  shows "session_group_remove s v = Some (v\<lparr>sv_groups := change_first (\<lambda>sg. s \<in> set sg)
    (\<lambda>sg. if length (remove1 s sg) \<le> 1 then [] else [remove1 s sg]) (sv_groups sv)\<rparr>)"
proof (cases "session_group_find s v")
  case None
  then have "\<forall>g\<in>set (sv_groups sv). s \<notin> set g" using group_find_None assms(2) by metis
  then show ?thesis using None assms(2) change_first_none [of "sv_groups sv" "\<lambda>sg. s \<in> set sg"] by (simp add: session_group_remove_def)
next
  case (Some g)
  then have "g \<in> set (sv_groups sv)" using group_find_Some assms(2) by metis
  then have "2 \<le> length g" using assms(1) by (auto simp: groups_ok_def)
  then have "0 < length (remove1 s g)" by (auto simp: length_remove1)
  then have "remove1 s g \<noteq> []" by simp
  then show ?thesis using Some assms(2) by (simp add: session_group_remove_def)
qed

lemma sorted_remove1:
  assumes "sorted_wrt (<) (map f xs)" "distinct xs" "\<And>x. x \<in> set xs \<Longrightarrow> x \<noteq> s \<Longrightarrow> g x = f x"
  shows "sorted_wrt (<) (map g (remove1 s xs))"
proof -
  have r: "remove1 s xs = filter (\<lambda>x. x \<noteq> s) xs" using assms(2) by (simp add: distinct_remove1_removeAll removeAll_filter_not_eq) (metis)
  have "map g (filter (\<lambda>x. x \<noteq> s) xs) = map f (filter (\<lambda>x. x \<noteq> s) xs)" using assms(3) by (intro map_cong) simp_all
  moreover have "sorted_wrt (<) (map f (filter (\<lambda>x. x \<noteq> s) xs))" using assms(1) by (simp add: sorted_wrt_map sorted_wrt_filter)
  ultimately show ?thesis unfolding r by metis
qed

lemma session_destroy_ok:
  assumes "rest_ok s sv"
  shows "runs (session_destroy s sv) (\<lambda>sv'. server_ok sv' \<and> sv_sessions sv' = remove1 s (sv_sessions sv) \<and>
    sv_session sv' = (sv_session sv)(s := None))"
proof -
  let ?S = "set (sv_sessions sv)"
  obtain x where x: "sv_session sv s = Some x" "windows_ok (s_windows x)" using assms by (auto simp: rest_ok_def)
  have f: "frame_ok sv" "alive_ok sv" "groups_ok sv" using assms by (simp_all add: rest_ok_def frame_ok_def)
  note r = frame_refs [OF f(1) x(1)]
  obtain refs where refs: "foldM (\<lambda>wl. winlink_remove (wl_idx wl)) (s_windows x) (s_windows x, sv_refs sv) = Some ([], refs)"
    "refs_ok (link_total sv (?S - {s})) refs"
    using remove_all [OF x(2) r(1)] by (auto simp: runs_iff)
  define gs where "gs = change_first (\<lambda>sg. s \<in> set sg) (\<lambda>sg. if length (remove1 s sg) \<le> 1 then [] else [remove1 s sg]) (sv_groups sv)"
  let ?v = "sv\<lparr>sv_sessions := remove1 s (sv_sessions sv), sv_groups := gs, sv_session := (sv_session sv)(s := None), sv_refs := refs\<rparr>"
  have d: "session_destroy s sv = Some ?v"
    using x(1) r(2) refs(1) group_remove_eq [OF f(3), of "sv\<lparr>sv_sessions := remove1 s (sv_sessions sv)\<rparr>" s]
    by (simp add: session_destroy_def session_alive_def gs_def)
  have S: "set (remove1 s (sv_sessions sv)) = ?S - {s}" using f(2) by (simp add: alive_ok_def set_remove1_eq)
  have w: "wins ?v a = wins sv a" if "a \<noteq> s" for a using that by (simp add: wins_def)
  have "link_total ?v (?S - {s}) = link_total sv (?S - {s})" by (rule link_total_cong) (simp add: w)
  then have ro: "refs_ok (link_total ?v (set (sv_sessions ?v))) (sv_refs ?v)" using refs(2) S by simp
  have gr: "distinct (concat gs)" "set (concat gs) \<subseteq> set (concat (sv_groups sv)) - {s}" "\<forall>g\<in>set gs. 2 \<le> length g \<and> (\<exists>h\<in>set (sv_groups sv). set g = set h - {s})"
    using groups_removed [of "sv_groups sv" s, folded gs_def] f(3) unfolding groups_ok_def by blast+
  have "set g \<subseteq> ?S - {s}" if gs: "g \<in> set gs" for g
  proof -
    obtain h where h: "h \<in> set (sv_groups sv)" "set g = set h - {s}" using bspec [OF gr(3) gs] by (elim conjE bexE)
    have "set h \<subseteq> ?S" using f(3) h(1) by (simp add: groups_ok_def)
    then show ?thesis unfolding h(2) by blast
  qed
  moreover have "\<forall>g\<in>set gs. 2 \<le> length g" using gr(3) by blast
  ultimately have go: "groups_ok ?v" using gr(1) S by (simp add: groups_ok_def)
  have "sorted_wrt (<) (map (name_of ?v) (remove1 s (sv_sessions sv)))"
    using f(2) by (intro sorted_remove1 [of "name_of sv"]) (simp_all add: alive_ok_def name_of_def)
  then have "alive_ok ?v" using f(2) S by (auto simp: alive_ok_def)
  then have fr: "frame_ok ?v" using go ro by (simp add: frame_ok_def)
  have "synced ?v g" if gs: "g \<in> set gs" for g
  proof -
    obtain h where h: "h \<in> set (sv_groups sv)" "set g = set h - {s}" using bspec [OF gr(3) gs] by (elim conjE bexE)
    then have "wins ?v a = wins sv a" if "a \<in> set g" for a using that w by blast
    moreover have "\<forall>a\<in>set g. \<forall>b\<in>set g. links (wins sv a) = links (wins sv b)" using assms h unfolding rest_ok_def by blast
    ultimately show ?thesis unfolding synced_def by metis
  qed
  then have "server_ok ?v" using fr assms by (auto simp: server_ok_def rest_ok_def split: if_splits)
  then show ?thesis using d by simp
qed

section \<open>Unlinking\<close>

lemma unlink_step:
  assumes "rest_ok s sv" "sv_session sv s = Some x" "i \<in> idxs (s_windows x)"
  defines "ws \<equiv> filter (\<lambda>wl. wl_idx wl \<noteq> i) (update_winlink i clear_alerts (s_windows x))"
  shows "\<exists>refs. winlink_remove i (update_winlink i clear_alerts (s_windows x), sv_refs sv) = Some (ws, refs) \<and>
    refs_ok (\<lambda>w. link_total sv (set (sv_sessions sv) - {s}) w + wcount ws w) refs" "windows_ok ws" "idxs ws = idxs (s_windows x) - {i}"
proof -
  let ?u = "update_winlink i clear_alerts (s_windows x)"
  have ok: "windows_ok ?u" using assms(1,2) windows_ok_links [OF links_clear [symmetric]] by (auto simp: rest_ok_def)
  have "refs_ok (\<lambda>w. link_total sv (set (sv_sessions sv) - {s}) w + wcount ?u w) (sv_refs sv)"
    using frame_refs(1) [of sv s x] assms(1,2) by (simp only: links_wcount [OF links_clear] rest_ok_def)
  then show "\<exists>refs. winlink_remove i (?u, sv_refs sv) = Some (ws, refs) \<and> refs_ok (\<lambda>w. link_total sv (set (sv_sessions sv) - {s}) w + wcount ws w) refs"
    using winlink_remove_ok [OF ok, of i] assms(3) by (auto simp: ws_def runs_iff)
  show "windows_ok ws" using ok by (auto simp: windows_ok_def ws_def sorted_wrt_map sorted_wrt_filter)
  have "idxs (filter (\<lambda>wl. wl_idx wl \<noteq> i) us) = idxs us - {i}" for us by auto
  then have "idxs ws = idxs ?u - {i}" unfolding ws_def by blast
  then show "idxs ws = idxs (s_windows x) - {i}" by (simp only: idxs_clear)
qed

text \<open>The other sessions of a group, in a good server.\<close>

lemma group_idxs:
  assumes "server_ok sv" "sv_session sv s = Some x" "g \<in> set (sv_groups sv)" "s \<in> set g" "r \<in> set g"
  shows "idxs (wins sv r) = idxs (s_windows x)" "wins sv r \<noteq> []"
proof -
  have "links (wins sv r) = links (wins sv s)" using assms unfolding server_ok_def synced_def by blast
  then show e: "idxs (wins sv r) = idxs (s_windows x)" using links_idxs [of "wins sv r" "wins sv s"] assms(2) by simp
  have "sess_ok x" using assms(1,2) unfolding server_ok_def by blast
  then have "s_windows x \<noteq> []" by (rule sess_okD)
  then show "wins sv r \<noteq> []" using e by auto
qed

lemma server_session: "server_ok sv \<Longrightarrow> sv_session sv s = Some x \<Longrightarrow> sess_ok x"
  by (simp add: server_ok_def)

lemma server_frame: "server_ok sv \<Longrightarrow> frame_ok sv"
  by (simp add: server_ok_def)

lemma remove1_set: "distinct xs \<Longrightarrow> set (winlink_stack_remove (Some i) xs) = set xs - {i} \<and> distinct (winlink_stack_remove (Some i) xs)"
  by (simp add: winlink_stack_remove_def set_remove1_eq)

lemma make_room_ok:
  assumes "server_ok sv" "sv_session sv s = Some x" "i \<in> idxs (s_windows x)"
  shows "runs (make_room s i sv) (\<lambda>(current, sv'). \<exists>x'. ready_to_add s x' i sv' \<and> i \<notin> idxs (s_windows x') \<and> same_frame sv sv' \<and>
    (current \<longleftrightarrow> s_curw x = Some i) \<and> (current \<longleftrightarrow> s_curw x' = None) \<and>
    (\<forall>w. link_total sv' (set (sv_sessions sv')) w \<le> link_total sv (set (sv_sessions sv)) w) \<and>
    (\<forall>w. (\<forall>wl. rb_find (s_windows x) i = Some wl \<longrightarrow> wl_window wl \<noteq> Some w) \<longrightarrow>
       link_total sv' (set (sv_sessions sv')) w = link_total sv (set (sv_sessions sv)) w))"
proof -
  let ?S = "set (sv_sessions sv)"
  let ?ws = "filter (\<lambda>wl. wl_idx wl \<noteq> i) (update_winlink i clear_alerts (s_windows x))"
  have r: "rest_ok s sv" and so: "sess_ok x" and f: "frame_ok sv" using rest_okI server_session server_frame assms(1,2) by blast+
  have no: "near_ok x" using so by (simp add: sess_ok_def)
  note u = unlink_step [OF r assms(2,3)]
  obtain refs where refs: "winlink_remove i (update_winlink i clear_alerts (s_windows x), sv_refs sv) = Some (?ws, refs)"
    "refs_ok (\<lambda>w. link_total sv (?S - {s}) w + wcount ?ws w) refs" using u(1) by blast
  let ?x = "x\<lparr>s_lastw := winlink_stack_remove (Some i) (s_lastw x), s_windows := ?ws, s_curw := (if s_curw x = Some i then None else s_curw x)\<rparr>"
  let ?v = "(set_session s ?x sv)\<lparr>sv_refs := refs\<rparr>"
  have m: "make_room s i sv = Some (s_curw x = Some i, ?v)" using assms(2) refs(1) by (simp add: make_room_def)
  have rv: "rest_ok s ?v" by (rule change_rest [OF r assms(2)]) (simp_all add: u(2) refs(2))
  have nv: "near_ok ?x" using no u(2,3) remove1_set [of "s_lastw x" i] by (auto simp: near_ok_def)
  have vi: "valid_index i" using assms(3) no windows_okD by (fastforce simp: valid_index_def near_ok_def)
  have "wins ?v q \<noteq> [] \<and> idxs (wins ?v q) \<subseteq> insert i (idxs (s_windows ?x))" if "g \<in> set (sv_groups sv)" "s \<in> set g" "q \<in> set g" "q \<noteq> s" for g q
  proof -
    have "wins ?v q = wins sv q" using that(4) by (simp add: wins_def)
    then show ?thesis using group_idxs [OF assms(1,2) that(1-3)] u(3) by auto
  qed
  then have rd: "ready_to_add s ?x i ?v"
    using rv nv vi assms(3) no windows_okD unfolding ready_to_add_def by (auto simp: near_ok_def)
  have t: "link_total ?v ?S w = link_total sv (?S - {s}) w + wcount ?ws w" for w
  proof -
    have "link_total ?v (?S - {s}) = link_total sv (?S - {s})" by (rule link_total_cong) (simp add: wins_def)
    then show ?thesis using link_total_split [OF finite_set frame_refs(2) [OF f assms(2)], of ?v w] by simp
  qed
  have t0: "link_total sv ?S w = link_total sv (?S - {s}) w + wcount (s_windows x) w" for w
    using link_total_split [OF finite_set frame_refs(2) [OF f assms(2)], of sv w] assms(2) by simp
  obtain wl where wl: "rb_find (s_windows x) i = Some wl" "wl \<in> set (s_windows x)" "wl_idx wl = i" using rb_find_in [OF assms(3)] by blast
  obtain a where a: "wl_window wl = Some a" using no wl(2) windows_okD by (fastforce simp: near_ok_def)
  have "links ?ws = links (filter (\<lambda>wl. wl_idx wl \<noteq> i) (s_windows x))"
    by (induction "s_windows x") (auto simp: links_def update_winlink_def clear_alerts_def filter_map comp_def intro!: map_cong filter_cong)
  then have "wcount ?ws = wcount (filter (\<lambda>wl. wl_idx wl \<noteq> i) (s_windows x))" by (rule links_wcount)
  then have c: "wcount (s_windows x) w = wcount ?ws w + (if w = a then 1 else 0)" for w
    using wcount_remove [OF windows_ok_distinct wl(2) a, of w] no wl(3) by (simp add: near_ok_def)
  have "same_frame sv ?v" using assms(2) by (auto simp: same_frame_def name_of_def)
  moreover have "i \<notin> idxs (s_windows ?x)" using u(3) by simp
  moreover have "link_total ?v (set (sv_sessions ?v)) w \<le> link_total sv ?S w" for w using t [of w] t0 [of w] c [of w] by simp
  moreover have "link_total ?v (set (sv_sessions ?v)) w = link_total sv ?S w" if "\<forall>wl. rb_find (s_windows x) i = Some wl \<longrightarrow> wl_window wl \<noteq> Some w" for w
    using t [of w] t0 [of w] c [of w] that wl(1) a by simp
  moreover have "(s_curw x = Some i) = (s_curw ?x = None)" using so by (simp add: sess_ok_def)
  ultimately show ?thesis using rd unfolding m runs_Some prod.case by (intro exI [of _ ?x] conjI allI impI; blast)
qed

lemma set_session_twice: "set_session s z (set_session s y sv) = set_session s z sv"
  by (simp add: set_session_def)

lemma synchronize_empty:
  assumes "frame_ok v" "sv_session v s = Some x" "s_windows x = []"
  shows "session_group_synchronize_from s v = Some v"
proof (cases "session_group_find s v")
  case (Some g)
  then have g: "set g \<subseteq> set (sv_sessions v)" using group_find_Some assms(1) unfolding frame_ok_def groups_ok_def by blast
  have one: "synchronize s r v = Some v" if r: "r \<in> set g" for r
  proof -
    obtain y where y: "sv_session v r = Some y" using g r assms(1) alive_dom unfolding frame_ok_def by blast
    then show ?thesis using assms(2,3)
      by (simp add: synchronize_def session_group_synchronize1_def set_session_def fun_upd_idem)
  qed
  have "foldM (\<lambda>r v. if r \<noteq> s then synchronize s r v else Some v) xs v = Some v" if "set xs \<subseteq> set g" for xs
    using that by (induction xs) (auto simp: one)
  then show ?thesis using Some by (simp add: session_group_synchronize_from_def)
qed (simp add: session_group_synchronize_from_def)

text \<open>Sessions outside the group of a session.\<close>

definition apart :: "nat \<Rightarrow> server \<Rightarrow> nat \<Rightarrow> bool" where
  "apart s sv r \<longleftrightarrow> r \<noteq> s \<and> (\<forall>g\<in>set (sv_groups sv). s \<in> set g \<longrightarrow> r \<notin> set g)"

text \<open>Leaving the current window, if it is the one that goes.\<close>

lemma leave_step:
  assumes "server_ok sv" "sv_session sv s = Some x"
  shows "\<exists>y. (if s_curw x = Some i then leave_current x else Some x) = Some y \<and> sess_ok y \<and> moves x y \<and>
    (\<forall>j\<in>idxs (s_windows x). j \<noteq> i \<longrightarrow> s_curw y \<noteq> Some i)"
proof (cases "s_curw x = Some i")
  case True
  then show ?thesis using leave_current_ok [OF server_session [OF assms]] by (auto simp: runs_iff)
qed (use server_session [OF assms] in auto)

lemma links_without: "links (filter (\<lambda>wl. wl_idx wl \<noteq> i) ws) = filter (\<lambda>p. fst p \<noteq> i) (links ws)"
  by (simp add: links_def filter_map comp_def)

lemma detach_ok:
  assumes "server_ok sv" "sv_session sv s = Some x" "i \<in> idxs (s_windows x)"
  shows "runs (session_detach s i sv) (\<lambda>(destroyed, sv'). server_ok sv' \<and>
    (if destroyed then sv_sessions sv' = remove1 s (sv_sessions sv) \<and> sv_session sv' s = None \<and> idxs (s_windows x) = {i}
     else same_frame sv sv' \<and> idxs (wins sv' s) = idxs (s_windows x) - {i} \<and> length (wins sv' s) < length (s_windows x) \<and>
       links (wins sv' s) = filter (\<lambda>p. fst p \<noteq> i) (links (s_windows x))) \<and>
    (\<forall>r. apart s sv r \<longrightarrow> sv_session sv' r = sv_session sv r))"
proof -
  obtain y where y: "(if s_curw x = Some i then leave_current x else Some x) = Some y" "sess_ok y" "moves x y"
    "\<forall>j\<in>idxs (s_windows x). j \<noteq> i \<longrightarrow> s_curw y \<noteq> Some i"
    using leave_step [OF assms(1,2), of i] by blast
  let ?u = "set_session s y sv"
  have us: "sv_session ?u s = Some y" by simp
  have ix: "idxs (s_windows y) = idxs (s_windows x)" and ln: "length (s_windows y) = length (s_windows x)"
    using y(3) links_idxs [of "s_windows y" "s_windows x"] map_eq_imp_length_eq by (auto simp: moves_def links_def)
  note mv = moved_server [OF all_syncedI [OF assms(1,2)] assms(2) y(3,2)]
  have r: "rest_ok s ?u" using rest_okI [OF mv(1) us] .
  have iy: "i \<in> idxs (s_windows y)" using assms(3) by (simp only: ix)
  let ?ws = "filter (\<lambda>wl. wl_idx wl \<noteq> i) (update_winlink i clear_alerts (s_windows y))"
  note u = unlink_step [OF r us iy]
  obtain refs where refs: "winlink_remove i (update_winlink i clear_alerts (s_windows y), sv_refs sv) = Some (?ws, refs)"
    "refs_ok (\<lambda>w. link_total ?u (set (sv_sessions ?u) - {s}) w + wcount ?ws w) refs" using u(1) by auto
  let ?z = "y\<lparr>s_lastw := winlink_stack_remove (Some i) (s_lastw y), s_windows := ?ws\<rparr>"
  let ?v = "(set_session s ?z sv)\<lparr>sv_refs := refs\<rparr>"
  have v: "?v = (set_session s ?z ?u)\<lparr>sv_refs := refs\<rparr>" by (simp only: set_session_twice)
  have rv: "rest_ok s ?v" unfolding v by (rule change_rest [OF r us]) (use u(2) refs(2) in simp_all)
  have eq: "session_detach s i sv = Option.bind (session_group_synchronize_from s ?v)
      (\<lambda>sv. if ?ws = [] then map_option (Pair True) (session_destroy s sv) else Some (False, sv))"
    by (simp add: session_detach_def assms(2) y(1) refs(1))
  have sf: "same_frame sv ?v" using y(3) assms(2) by (auto simp: same_frame_def name_of_def moves_def)
  show ?thesis
  proof (cases "?ws = []")
    case True
    have "frame_ok ?v" using rv by (simp add: rest_ok_def)
    moreover have "sv_session ?v s = Some ?z" by simp
    moreover have "s_windows ?z = []" using True by simp
    ultimately have sy: "session_group_synchronize_from s ?v = Some ?v" by (rule synchronize_empty)
    have one: "idxs (s_windows x) = {i}" using u(3) ix True assms(3) by auto
    obtain sv' where sv': "session_destroy s ?v = Some sv'" "server_ok sv'" "sv_sessions sv' = remove1 s (sv_sessions sv)"
      "sv_session sv' = (sv_session ?v)(s := None)"
      using session_destroy_ok [OF rv] by (auto simp: runs_iff)
    have "session_detach s i sv = Some (True, sv')" unfolding eq sy using True sv'(1) by simp
    then show ?thesis using sv'(2-4) one by (auto simp: apart_def)
  next
    case False
    then obtain j where j: "j \<in> idxs ?ws" by (cases ?ws) auto
    then have "s_curw y \<noteq> Some i" using y(4) u(3) ix by blast
    then have nz: "sess_ok ?z" using y(2) u(2,3) remove1_set [of "s_lastw y" i] by (auto simp: sess_ok_def near_ok_def)
    have "can_sync ?ws (wins ?v q)" if "g \<in> set (sv_groups ?v)" "s \<in> set g" "q \<in> set g" "q \<noteq> s" for g q
    proof -
      have "wins ?v q = wins sv q" using that(4) by (simp add: wins_def)
      moreover have "idxs (wins sv q) = idxs (s_windows x)" using group_idxs(1) [OF assms(1,2)] that by simp
      ultimately show ?thesis using j u(3) ix by (auto simp: can_sync_def)
    qed
    then have "partly_ok s ?v" using nz by (intro partly_of_rest [OF rv]) (auto simp: sess_ok_def)
    moreover have "wins ?v s \<noteq> []" using False by (simp add: wins_def)
    ultimately obtain sv' where sv': "session_group_synchronize_from s ?v = Some sv'" "all_synced s sv'" "same_frame ?v sv'"
      "sv_session sv' s = sv_session ?v s" "\<forall>r. (\<forall>g\<in>set (sv_groups ?v). s \<in> set g \<longrightarrow> r \<notin> set g) \<longrightarrow> sv_session sv' r = sv_session ?v r"
      using synchronize_from_ok [of s ?v] by (auto simp: runs_iff)
    have "sv_session sv' s = Some ?z" using sv'(4) by simp
    then have ok: "server_ok sv'" and w: "wins sv' s = ?ws" using all_synced_done [OF sv'(2) _ nz] by simp_all
    obtain wl where wl: "wl \<in> set (update_winlink i clear_alerts (s_windows y))" "wl_idx wl = i"
      using iy idxs_clear [of i "s_windows y"] by (metis imageE)
    have "length ?ws < length (update_winlink i clear_alerts (s_windows y))"
      by (rule length_filter_less [OF wl(1)]) (simp add: wl(2))
    then have lt: "length (wins sv' s) < length (s_windows x)" unfolding w ln [symmetric] by (simp add: update_winlink_def)
    have d: "session_detach s i sv = Some (False, sv')" unfolding eq sv'(1) using False by simp
    have ap: "sv_session sv' r = sv_session sv r" if "apart s sv r" for r using sv'(5) that by (simp add: apart_def)
    have "same_frame sv sv'" using same_frame_trans [OF sf sv'(3)] .
    moreover have "idxs (wins sv' s) = idxs (s_windows x) - {i}" unfolding w using u(3) ix by simp
    moreover have "links (wins sv' s) = filter (\<lambda>p. fst p \<noteq> i) (links (s_windows x))"
      unfolding w links_without using y(3) by (simp add: moves_def)
    ultimately show ?thesis using d ok lt ap by simp
  qed
qed

end
