(* ===== verification/Session_Steps.thy ===== *)
theory Session_Steps
  imports Session_Ops
begin

text \<open>
  The commands: creating a session, alone or in a group, creating, linking, swapping and killing
  windows. The invariant of the server holds after each.
\<close>

section \<open>A new session\<close>

definition new_name :: "string option \<Rightarrow> server \<Rightarrow> string" where
  "new_name name sv = (case name of Some n \<Rightarrow> n | None \<Rightarrow> print_unsigned (sv_next_session sv))"

lemma distinct_insort_name: "distinct (insort_key f x xs) \<longleftrightarrow> distinct xs \<and> x \<notin> set xs"
  by (induction xs) (auto simp: set_insort_key)

lemma sorted_names:
  assumes "sorted_wrt (<) (map f xs)" "\<forall>y\<in>set xs. f y \<noteq> f x"
  shows "sorted_wrt (<) (map f (insort_key f (x::nat) xs))"
  using assms by (induction xs) (auto simp: set_insort_key)

text \<open>The session that has just been made.\<close>

definition fresh :: "server \<Rightarrow> string option \<Rightarrow> nat \<times> session \<times> server" where
  "fresh sv name = (let s = sv_next_session sv;
      x = \<lparr>s_name = new_name name sv, s_curw = None, s_lastw = [], s_windows = []\<rparr> in
    (s, x, insert_session s ((set_session s x sv)\<lparr>sv_next_session := uadd s 1\<rparr>)))"

lemma fresh_ok:
  assumes "server_ok sv" "session_find (new_name name sv) sv = None" "sv_next_session sv + 1 < UINT_MOD" "fresh sv name = (s, x, sv')"
  shows "rest_ok s sv'" "sv_session sv' s = Some x" "near_ok x" "s_windows x = []" "\<forall>g\<in>set (sv_groups sv'). s \<notin> set g"
    "sv_refs sv' = sv_refs sv" "sv_session sv' = (sv_session sv)(s \<mapsto> x)" "sv_groups sv' = sv_groups sv" "s = sv_next_session sv"
    "set (sv_sessions sv') = insert s (set (sv_sessions sv))"
proof -
  have f: "alive_ok sv" "groups_ok sv" "refs_ok (link_total sv (set (sv_sessions sv))) (sv_refs sv)"
    using assms(1) by (simp_all add: server_ok_def frame_ok_def)
  have s: "s = sv_next_session sv" "x = \<lparr>s_name = new_name name sv, s_curw = None, s_lastw = [], s_windows = []\<rparr>"
    using assms(4) by (simp_all add: fresh_def Let_def)
  let ?u = "(set_session s x sv)\<lparr>sv_next_session := uadd s 1\<rparr>"
  have sn: "s \<notin> set (sv_sessions sv)" using f(1) s(1) by (auto simp: alive_ok_def)
  have nm: "name_of ?u r = name_of sv r" if "r \<noteq> s" for r using that by (simp add: name_of_def)
  have ns: "name_of ?u s = new_name name sv" by (simp add: name_of_def s(2))
  have no: "\<forall>r\<in>set (sv_sessions sv). name_of sv r \<noteq> new_name name sv" using assms(2) by (auto simp: session_find_def find_None_iff)
  have "\<forall>r\<in>set (sv_sessions sv). name_of ?u r \<noteq> name_of ?u s" using no nm ns sn by metis
  then have "session_find (name_of ?u s) ?u = None" by (auto simp: session_find_def find_None_iff)
  then have v: "sv' = ?u\<lparr>sv_sessions := insort_key (name_of ?u) s (sv_sessions sv)\<rparr>"
    using assms(4) by (simp add: fresh_def Let_def insert_session_def flip: s)
  show sess: "sv_session sv' = (sv_session sv)(s \<mapsto> x)" and gr: "sv_groups sv' = sv_groups sv" and "sv_refs sv' = sv_refs sv" and "s = sv_next_session sv"
    by (simp_all add: v s(1))
  show S: "set (sv_sessions sv') = insert s (set (sv_sessions sv))" by (simp add: v set_insort_key)
  show "sv_session sv' s = Some x" by (simp add: sess)
  show "near_ok x" "s_windows x = []" by (simp_all add: s(2) near_ok_def windows_ok_def)
  have gs: "s \<notin> set g" if "g \<in> set (sv_groups sv)" for g using f(2) that sn by (auto simp: groups_ok_def)
  then show "\<forall>g\<in>set (sv_groups sv'). s \<notin> set g" by (simp add: gr)
  have nv: "name_of sv' = name_of ?u" by (simp add: name_of_def fun_eq_iff v)
  have "name_of ?u r = name_of sv r" if "r \<in> set (sv_sessions sv)" for r using that sn nm by metis
  then have "map (name_of ?u) (sv_sessions sv) = map (name_of sv) (sv_sessions sv)" by simp
  then have "sorted_wrt (<) (map (name_of ?u) (sv_sessions sv))" using f(1) unfolding alive_ok_def by metis
  then have "sorted_wrt (<) (map (name_of sv') (sv_sessions sv'))"
    unfolding nv using sorted_names [of "name_of ?u" "sv_sessions sv" s] \<open>\<forall>r\<in>set (sv_sessions sv). name_of ?u r \<noteq> name_of ?u s\<close> by (simp add: v)
  moreover have "distinct (sv_sessions sv')" using f(1) sn by (simp add: v distinct_insort_name alive_ok_def)
  moreover have "dom (sv_session sv') = set (sv_sessions sv')" using f(1) S sess by (simp add: alive_ok_def)
  moreover have "\<forall>r\<in>set (sv_sessions sv'). r < sv_next_session sv'" using f(1) S assms(3) s(1) by (auto simp: alive_ok_def v uadd_eq)
  ultimately have a: "alive_ok sv'" by (simp add: alive_ok_def)
  have w: "wins sv' r = wins sv r" if "r \<noteq> s" for r using that by (simp add: wins_def sess)
  have w0: "wins sv' s = []" "wins sv s = []" using f(1) sn s(2) by (auto simp: wins_def sess alive_ok_def split: option.splits)
  have "link_total sv' (set (sv_sessions sv')) = link_total sv' (set (sv_sessions sv))"
    unfolding S by (rule ext) (simp add: link_total_def sn w0(1))
  also have "\<dots> = link_total sv (set (sv_sessions sv))" using sn w by (intro link_total_cong) metis
  finally have "refs_ok (link_total sv' (set (sv_sessions sv'))) (sv_refs sv')" using f(3) by (simp add: v)
  moreover have "groups_ok sv'" using f(2) S gr by (auto simp: groups_ok_def)
  ultimately have fr: "frame_ok sv'" using a by (simp add: frame_ok_def)
  have "links (wins sv' a) = links (wins sv' b)" if "g \<in> set (sv_groups sv')" "a \<in> set g - {s}" "b \<in> set g - {s}" for g a b
  proof -
    have "links (wins sv a) = links (wins sv b)" using assms(1) that unfolding gr server_ok_def synced_def by blast
    then show ?thesis using w [of a] w [of b] that(2,3) by simp
  qed
  moreover have "\<forall>r y. r \<noteq> s \<longrightarrow> sv_session sv' r = Some y \<longrightarrow> sess_ok y" using server_session [OF assms(1)] by (simp add: sess)
  moreover have "windows_ok (s_windows x)" by (simp add: s(2) windows_ok_def)
  ultimately show "rest_ok s sv'" unfolding rest_ok_def using fr \<open>sv_session sv' s = Some x\<close> by blast
qed

lemma create_step:
  assumes "server_ok sv" "session_find (new_name name sv) sv = None" "sv_next_session sv + 1 < UINT_MOD" "valid_index idx"
    "\<forall>w. created = Some w \<longrightarrow> sv_refs sv w = None"
  shows "runs (session_create name (Some created) idx sv) (\<lambda>(r, sv'). server_ok sv')"
proof -
  obtain s x u where f: "fresh sv name = (s, x, u)" by (cases "fresh sv name") auto
  note k = fresh_ok [OF assms(1-3) f]
  have eq: "session_create name (Some created) idx sv = do {
      (r, v) \<leftarrow> session_new s idx created u;
      (case r of
         None \<Rightarrow> map_option (Pair None) (session_destroy s v)
       | Some _ \<Rightarrow> do {
           x \<leftarrow> sv_session v s;
           root \<leftarrow> rb_min (s_windows x);
           map_option (Pair (Some s)) (select_in s (wl_idx root) v)
         })
    }"
  proof -
    have p: "sv_next_session sv = s"
      "\<lparr>s_name = (case name of Some n \<Rightarrow> n | None \<Rightarrow> print_unsigned s), s_curw = None, s_lastw = [], s_windows = []\<rparr> = x"
      "insert_session s ((set_session s x sv)\<lparr>sv_next_session := uadd s 1\<rparr>) = u"
      using f by (auto simp: fresh_def new_name_def Let_def)
    show ?thesis unfolding session_create_def Let_def p(1) unfolding p(2) unfolding p(3) by (simp cong: option.case_cong)
  qed
  have "ready_to_add s x idx u" using k(1-3,5) assms(4) by (auto simp: ready_to_add_def)
  then obtain r v where n: "session_new s idx created u = Some (r, v)" "added s x idx u (r, v) \<or> created = None \<and> (r, v) = (None, u)"
    using new_ok [of s x idx u created] assms(5) k(6) by (auto simp: runs_iff)
  show ?thesis
  proof (cases r)
    case None
    then have "v = u" using n(2) by (auto simp: added_def)
    then obtain v' where "session_destroy s u = Some v'" "server_ok v'" using session_destroy_ok [OF k(1)] by (auto simp: runs_iff)
    then show ?thesis using eq n(1) None \<open>v = u\<close> by simp
  next
    case (Some i)
    then have a: "all_synced s v" "i \<in> idxs (wins v s)" using n(2) by (auto simp: added_def)
    obtain y where y: "sv_session v s = Some y" using a(1) by (auto simp: all_synced_def)
    have "s_windows y \<noteq> []" using a(2) y by auto
    then obtain root where root: "rb_min (s_windows y) = Some root" "root \<in> set (s_windows y)" by (auto simp: rb_min_def)
    then have "wl_idx root \<in> idxs (wins v s)" using y by simp
    then obtain v' where "select_in s (wl_idx root) v = Some v'" "server_ok v'" using select_in_ok [OF a(1)] by (fastforce simp: runs_iff)
    then show ?thesis using eq n(1) Some y root(1) by simp
  qed
qed

section \<open>A session in a group\<close>

lemma group_add_ok:
  assumes "groups_ok sv" "t \<in> set (sv_sessions sv)" "s \<in> set (sv_sessions sv)" "\<forall>g\<in>set (sv_groups sv). s \<notin> set g" "s \<noteq> t"
  shows "groups_ok (session_group_add t s sv) \<and> (\<exists>g. session_group_find s (session_group_add t s sv) = Some g \<and> t \<in> set g \<and>
    (\<forall>h\<in>set (sv_groups (session_group_add t s sv)). s \<in> set h \<longrightarrow> h = g) \<and>
    (\<forall>h\<in>set (sv_groups (session_group_add t s sv)). h = g \<or> h \<in> set (sv_groups sv)) \<and>
    (set g = {t, s} \<or> (\<exists>h\<in>set (sv_groups sv). set g = insert s (set h) \<and> t \<in> set h)))"
proof (cases "session_group_find t sv")
  case None
  then have no: "\<forall>g\<in>set (sv_groups sv). t \<notin> set g" by (auto simp: session_group_find_def find_None_iff)
  have "find (\<lambda>sg. s \<in> set sg) (sv_groups sv) = None" using assms(4) by (simp add: find_None_iff)
  then have "find (\<lambda>sg. s \<in> set sg) (sv_groups sv @ [[t, s]]) = Some [t, s]" by (simp add: find_append)
  then show ?thesis using None assms no
    by (auto simp: session_group_add_def session_group_find_def groups_ok_def)
next
  case (Some h)
  then have "\<exists>g\<in>set (sv_groups sv). t \<in> set g" using group_find_Some by blast
  then obtain as h' bs where h': "sv_groups sv = as @ h' # bs" "t \<in> set h'" "\<forall>g\<in>set as. t \<notin> set g"
    using split_list_first_prop [of "sv_groups sv" "\<lambda>g. t \<in> set g"] by blast
  have "find (\<lambda>g. t \<in> set g) as = None" using h'(3) by (simp add: find_None_iff)
  then have "h' = h" using Some unfolding session_group_find_def h'(1) by (simp add: find_append h'(2))
  note h = h' [unfolded this]
  have c: "change_first (\<lambda>sg. t \<in> set sg) (\<lambda>sg. [sg @ [s]]) (sv_groups sv) = as @ (h @ [s]) # bs"
    unfolding h(1) using h(2,3) by (induction as) auto
  then have g: "sv_groups (session_group_add t s sv) = as @ (h @ [s]) # bs" using Some by (simp add: session_group_add_def)
  have "find (\<lambda>sg. s \<in> set sg) as = None" using assms(4) h(1) by (simp add: find_None_iff)
  then have "session_group_find s (session_group_add t s sv) = Some (h @ [s])" unfolding session_group_find_def g by (simp add: find_append)
  moreover have "groups_ok (session_group_add t s sv)"
    using assms(1,3,4) h(1) g by (auto simp: groups_ok_def session_group_add_def)
  ultimately show ?thesis using g h assms(4) by auto
qed

lemma group_add_sel [simp]:
  "sv_session (session_group_add t s sv) = sv_session sv" "sv_sessions (session_group_add t s sv) = sv_sessions sv"
  "sv_refs (session_group_add t s sv) = sv_refs sv" "sv_next_session (session_group_add t s sv) = sv_next_session sv"
  "name_of (session_group_add t s sv) = name_of sv"
  by (simp_all add: session_group_add_def name_of_def fun_eq_iff)

lemma group_step:
  assumes "server_ok sv" "session_find (new_name name sv) sv = None" "sv_next_session sv + 1 < UINT_MOD"
    "t \<in> set (sv_sessions sv)" "root \<in> idxs (wins sv t)"
  shows "runs (new_grouped_session name t idx root sv) server_ok"
proof -
  obtain s x u where fr: "fresh sv name = (s, x, u)" by (cases "fresh sv name") auto
  note k = fresh_ok [OF assms(1-3) fr]
  have x: "s_curw x = None" "s_lastw x = []" using fr by (auto simp: fresh_def Let_def)
  have c: "session_create name None idx sv = Some (Some s, u)"
    using fr by (auto simp: session_create_def fresh_def Let_def new_name_def)
  let ?u = "session_group_add t s u"
  have st: "s \<noteq> t" using assms(4) k(9) assms(1) by (auto simp: server_ok_def frame_ok_def alive_ok_def)
  have fu: "frame_ok u" using k(1) by (simp add: rest_ok_def)
  have "groups_ok u" "t \<in> set (sv_sessions u)" "s \<in> set (sv_sessions u)" using fu k(10) assms(4) by (simp_all add: frame_ok_def)
  note a = group_add_ok [OF this k(5) st]
  obtain g where g: "session_group_find s ?u = Some g" "t \<in> set g" "\<forall>h\<in>set (sv_groups ?u). h = g \<or> h \<in> set (sv_groups u)"
    "set g = {t, s} \<or> (\<exists>h\<in>set (sv_groups u). set g = insert s (set h) \<and> t \<in> set h)"
    using conjunct2 [OF a] by (elim exE conjE) (rule that)
  have wu: "wins ?u r = wins u r" for r by (simp add: wins_def)
  have w: "wins u r = wins sv r" if "r \<noteq> s" for r using that k(7) by (simp add: wins_def)
  have like: "links (wins sv r) = links (wins sv t)" if "r \<in> set g" "r \<noteq> s" for r
  proof (cases "r = t")
    case False
    then have "set g \<noteq> {t, s}" using that by blast
    then obtain h where h: "h \<in> set (sv_groups u)" "set g = insert s (set h)" "t \<in> set h" using g(4) by metis
    then have "synced sv h" using assms(1) unfolding k(8) server_ok_def by blast
    moreover have "r \<in> set h" using that h(2) by blast
    ultimately show ?thesis using h(3) unfolding synced_def by blast
  qed simp
  obtain t' where t': "find (\<lambda>r. r \<noteq> s) g = Some t'" using g(2) st by (cases "find (\<lambda>r. r \<noteq> s) g") (auto simp: find_None_iff)
  then have t'g: "t' \<in> set g" "t' \<noteq> s" by (auto simp: find_Some_iff)
  have "t' \<in> set (sv_sessions ?u)" using conjunct1 [OF a] group_find_Some [OF g(1)] t'g(1) by (auto simp: groups_ok_def)
  then obtain y where y: "sv_session u t' = Some y" using fu alive_dom by (auto simp: frame_ok_def)
  then have ys: "sv_session sv t' = Some y" using k(7) t'g(2) by simp
  have yo: "sess_ok y" by (rule server_session [OF assms(1) ys])
  obtain d where d: "s_curw y = Some d" "d \<in> idxs (s_windows y)" "s_windows y \<noteq> []" using sess_okD [OF yo] by metis
  let ?S = "set (sv_sessions u)"
  have "link_total ?u ?S = link_total u ?S" by (rule link_total_cong) (simp add: wu)
  then have f2: "frame_ok ?u" using fu conjunct1 [OF a] by (simp add: frame_ok_def alive_ok_def)
  have sx: "sv_session ?u s = Some x" using k(2) by simp
  note r = frame_refs(1) [OF f2 sx]
  have "t' \<in> set (sv_sessions ?u) - {s}" using \<open>t' \<in> set (sv_sessions ?u)\<close> t'g(2) by simp
  then have "wcount (s_windows y) v \<le> link_total ?u (set (sv_sessions ?u) - {s}) v" for v using link_total_ge [of _ t' ?u v] y by (simp add: wins_def)
  then have live: "\<forall>v. 0 < wcount (s_windows y) v \<longrightarrow> 0 < link_total ?u (set (sv_sessions ?u) - {s}) v" using order_less_le_trans by blast
  obtain z refs where z: "session_group_synchronize1 y (x, sv_refs ?u) = Some (z, refs)" "sess_ok z" "links (s_windows z) = links (s_windows y)"
    "s_name z = s_name x" "refs_ok (\<lambda>v. link_total ?u (set (sv_sessions ?u) - {s}) v + wcount (s_windows y) v) refs"
    using synchronize1_ok [OF _ d(3) _ r live] yo x k(4) d(1,2) by (auto simp: sess_ok_def near_ok_def runs_iff)
  let ?v = "(set_session s z ?u)\<lparr>sv_refs := refs\<rparr>"
  have sy: "session_group_synchronize_to s ?u = Some ?v"
    using g(1) t' y k(2) z(1) by (simp add: session_group_synchronize_to_def synchronize_def)
  have "refs_ok (\<lambda>v. link_total ?u (set (sv_sessions ?u) - {s}) v + wcount (s_windows z) v) refs" using z(5) by (simp only: links_wcount [OF z(3)])
  then have fv: "frame_ok ?v" by (intro frame_ok_change [OF f2 sx z(4)]) simp_all
  have wv: "links (wins ?v r) = links (wins sv t)" if "r \<in> set g" for r
  proof (cases "r = s")
    case True
    then show ?thesis using z(3) ys like [OF t'g] by (simp add: wins_def)
  next
    case False
    then have "wins ?v r = wins sv r" using w by (simp add: wins_def)
    then show ?thesis using like [OF that False] by simp
  qed
  have "synced ?v h" if "h \<in> set (sv_groups ?v)" for h
  proof (cases "h = g")
    case True
    then show ?thesis using wv by (simp add: synced_def)
  next
    case False
    then have h: "h \<in> set (sv_groups u)" using g(3) that by auto
    then have "wins ?v r = wins sv r" if "r \<in> set h" for r
    proof -
      have "r \<noteq> s" using k(5) h that by blast
      then show ?thesis using w by (simp add: wins_def)
    qed
    moreover have "synced sv h" using assms(1) h unfolding server_ok_def k(8) by blast
    ultimately show ?thesis unfolding synced_def by metis
  qed
  moreover have "\<forall>r q. sv_session ?v r = Some q \<longrightarrow> sess_ok q" using z(2) k(7) server_session [OF assms(1)] by auto
  ultimately have ok: "server_ok ?v" using fv by (simp add: server_ok_def)
  have "root \<in> idxs (wins ?v s)" using links_idxs [OF wv [of s]] assms(5) group_find_Some [OF g(1)] by blast
  then have "runs (select_in s root ?v) server_ok"
    using select_in_ok [OF all_syncedI [OF ok, of s z]] by (auto simp: runs_iff)
  then show ?thesis by (simp add: new_grouped_session_def c sy)
qed

section \<open>Linking and creating windows\<close>

text \<open>Making room at an index, or not; then the session is ready for a winlink there.\<close>

lemma maybe_room:
  assumes "server_ok sv" "sv_session sv s = Some x" "-1 \<le> idx" "idx \<le> IDX_MAX" "base \<le> nat IDX_MAX"
    "wl = (if idx = -1 then None else rb_find (s_windows x) idx)"
  shows "runs (if wl \<noteq> None \<and> kill then make_room s idx sv else Some (False, sv)) (\<lambda>(current, sv'). \<exists>x'.
    ready_to_add s x' (if idx = -1 then -1 - int base else idx) sv' \<and> same_frame sv sv' \<and> (current \<longleftrightarrow> s_curw x' = None) \<and>
    (\<forall>w. link_total sv' (set (sv_sessions sv')) w \<le> link_total sv (set (sv_sessions sv)) w) \<and>
    (\<forall>w. (\<forall>l. wl = Some l \<longrightarrow> wl_window l \<noteq> Some w) \<longrightarrow> link_total sv' (set (sv_sessions sv')) w = link_total sv (set (sv_sessions sv)) w) \<and>
    (wl = None \<or> \<not> kill \<longrightarrow> sv' = sv) \<and> (wl \<noteq> None \<and> kill \<longrightarrow> idx \<noteq> -1 \<and> idx \<notin> idxs (s_windows x')))"
proof (cases "wl \<noteq> None \<and> kill")
  case True
  then have i: "idx \<noteq> -1" "rb_find (s_windows x) idx = wl" using assms(6) by (auto split: if_splits)
  then have "idx \<in> idxs (s_windows x)" using True rb_find_iff [of "s_windows x" idx] by metis
  note i = i this
  obtain cv where cv: "make_room s idx sv = Some cv" "case cv of (current, sv') \<Rightarrow> \<exists>x'. ready_to_add s x' idx sv' \<and> idx \<notin> idxs (s_windows x') \<and> same_frame sv sv' \<and>
    (current \<longleftrightarrow> s_curw x = Some idx) \<and> (current \<longleftrightarrow> s_curw x' = None) \<and>
    (\<forall>w. link_total sv' (set (sv_sessions sv')) w \<le> link_total sv (set (sv_sessions sv)) w) \<and>
    (\<forall>w. (\<forall>wl'. rb_find (s_windows x) idx = Some wl' \<longrightarrow> wl_window wl' \<noteq> Some w) \<longrightarrow>
       link_total sv' (set (sv_sessions sv')) w = link_total sv (set (sv_sessions sv)) w)"
    using make_room_ok [OF assms(1,2) i(3)] by (rule runsE)
  obtain cur v x' where m: "make_room s idx sv = Some (cur, v)" "ready_to_add s x' idx v" "idx \<notin> idxs (s_windows x')" "same_frame sv v"
    "cur \<longleftrightarrow> s_curw x' = None" "\<forall>w. link_total v (set (sv_sessions v)) w \<le> link_total sv (set (sv_sessions sv)) w"
    "\<forall>w. (\<forall>l. wl = Some l \<longrightarrow> wl_window l \<noteq> Some w) \<longrightarrow> link_total v (set (sv_sessions v)) w = link_total sv (set (sv_sessions sv)) w"
    using cv by (cases cv) (simp only: prod.case i(2), elim exE conjE, rule that)
  show ?thesis using True i(1) m by (simp add: m(1)) blast
next
  case False
  have x: "sess_ok x" using server_session assms(1,2) by blast
  have "valid_index (if idx = -1 then -1 - int base else idx)" using assms(3-5) by (auto simp: valid_index_def)
  then have "ready_to_add s x (if idx = -1 then -1 - int base else idx) sv" by (rule server_ready [OF assms(1,2)])
  moreover have "\<exists>c. s_curw x = Some c" using x by (simp add: sess_ok_def)
  ultimately show ?thesis using False by (cases "idx = -1") auto
qed

text \<open>After the new winlink: the window is selected where it has to be.\<close>

lemma select_after:
  assumes "added s x' idx sv (Some i, sv')" "s_curw x' = None \<longrightarrow> b"
  shows "runs (if b then select_in s i sv' else Some sv') server_ok"
proof -
  have a: "all_synced s sv'" "i \<in> idxs (wins sv' s)" "s_curw x' \<noteq> None \<longrightarrow> server_ok sv'" using assms(1) by (simp_all add: added_def)
  show ?thesis using select_in_ok [OF a(1,2)] a(3) assms(2) by (auto simp: runs_iff)
qed

lemma link_window_step:
  assumes "server_ok sv" "sv_session sv src = Some y" "srcwl \<in> idxs (s_windows y)" "dst \<in> set (sv_sessions sv)"
    "-1 \<le> idx" "idx \<le> IDX_MAX" "base \<le> nat IDX_MAX"
  shows "runs (server_link_window src srcwl dst idx kill sel base sv) (\<lambda>(r, sv'). server_ok sv')"
proof (cases "src \<noteq> dst \<and> session_group_find src sv \<noteq> None \<and> session_group_find dst sv \<noteq> None \<and> session_group_find src sv = session_group_find dst sv")
  case True
  then show ?thesis using assms(1) by (simp add: server_link_window_def)
next
  case nogroup: False
  have al: "alive_ok sv" using assms(1) by (simp add: server_ok_def frame_ok_def)
  obtain x where x: "sv_session sv dst = Some x" using alive_dom [OF al] assms(4) by blast
  have ny: "windows_ok (s_windows y)" using server_session [OF assms(1,2)] by (simp add: sess_ok_def near_ok_def)
  obtain l where l: "rb_find (s_windows y) srcwl = Some l" "l \<in> set (s_windows y)" using rb_find_in [OF assms(3)] by blast
  obtain w where w: "wl_window l = Some w" using windows_okD [OF ny l(2)] by blast
  define wl where "wl = (if idx = -1 then None else rb_find (s_windows x) idx)"
  have d: "(if idx \<noteq> -1 then winlink_find_by_index (s_windows x) idx else Some None) = Some wl"
    using assms(5) by (simp add: wl_def winlink_find_by_index_def)
  have src: "src \<in> set (sv_sessions sv)" using alive_dom [OF al] assms(2) by blast
  have "0 < wcount (wins sv src) w" using l(2) w assms(2) by (auto simp: wcount_def filter_empty_conv)
  then have live: "0 < link_total sv (set (sv_sessions sv)) w" using link_total_ge [OF finite_set src, of sv w] by simp
  let ?idx = "if idx = -1 then -1 - int base else idx"
  note core = nogroup x assms(2) l(1) d w
  show ?thesis
  proof (cases "\<exists>q. wl = Some q \<and> wl_window q = wl_window l")
    case True
    then show ?thesis using core assms(1) by (auto simp: server_link_window_def Let_def)
  next
    case False
    obtain cur v x' where v: "(if wl \<noteq> None \<and> kill then make_room dst idx sv else Some (False, sv)) = Some (cur, v)"
      "ready_to_add dst x' ?idx v" "cur \<longleftrightarrow> s_curw x' = None"
      "\<forall>w. (\<forall>l. wl = Some l \<longrightarrow> wl_window l \<noteq> Some w) \<longrightarrow> link_total v (set (sv_sessions v)) w = link_total sv (set (sv_sessions sv)) w"
      "wl = None \<or> \<not> kill \<longrightarrow> v = sv" "wl \<noteq> None \<and> kill \<longrightarrow> idx \<noteq> -1 \<and> idx \<notin> idxs (s_windows x')"
      using maybe_room [OF assms(1) x assms(5-7) wl_def, of kill] by (auto simp: runs_iff)
    have "0 < link_total v (set (sv_sessions v)) w" using v(4) live False w by auto
    then obtain r v' where r: "session_attach dst w ?idx v = Some (r, v')" "added dst x' ?idx v (r, v')"
      using attach_ok [OF v(2), of w] by (auto simp: runs_iff)
    have eq: "server_link_window src srcwl dst idx kill sel base sv = (case r of
        None \<Rightarrow> Some (False, v') | Some i \<Rightarrow> map_option (Pair True) (if sel \<or> cur then select_in dst i v' else Some v'))"
      using core False v(1) r(1) by (cases wl) (auto simp: server_link_window_def Let_def cong: option.case_cong)
    show ?thesis
    proof (cases r)
      case None
      then have n: "v' = v" "0 \<le> ?idx \<longrightarrow> ?idx \<in> idxs (s_windows x')" using r(2) by (simp_all add: added_def)
      have "v = sv"
      proof (rule ccontr)
        assume "v \<noteq> sv"
        then have "wl \<noteq> None \<and> kill" using v(5) by auto
        then have "idx \<noteq> -1" "idx \<notin> idxs (s_windows x')" using v(6) by simp_all
        then show False using n(2) assms(5) by auto
      qed
      then show ?thesis using eq None n(1) assms(1) by simp
    next
      case (Some i)
      then show ?thesis using eq select_after [of dst x' ?idx v i v' "sel \<or> cur"] r(2) v(3) by simp
    qed
  qed
qed

text \<open>new-window; if it is to replace the only window, its program has to start.\<close>

lemma new_window_step:
  assumes "server_ok sv" "s \<in> set (sv_sessions sv)" "-1 \<le> idx" "idx \<le> IDX_MAX" "base \<le> nat IDX_MAX"
    "\<forall>w. created = Some w \<longrightarrow> sv_refs sv w = None" "created = None \<longrightarrow> \<not> kill"
  shows "runs (new_window s idx kill detached base created sv) (\<lambda>(r, sv'). server_ok sv')"
proof -
  have al: "alive_ok sv" using assms(1) by (simp add: server_ok_def frame_ok_def)
  obtain x where x: "sv_session sv s = Some x" using alive_dom [OF al] assms(2) by blast
  define wl where "wl = (if idx = -1 then None else rb_find (s_windows x) idx)"
  have d: "(if idx \<noteq> -1 then winlink_find_by_index (s_windows x) idx else Some None) = Some wl"
    using assms(3) by (simp add: wl_def winlink_find_by_index_def)
  let ?idx = "if idx = -1 then -1 - int base else idx"
  obtain cur v x' where v: "(if wl \<noteq> None \<and> kill then make_room s idx sv else Some (False, sv)) = Some (cur, v)"
    "ready_to_add s x' ?idx v" "cur \<longleftrightarrow> s_curw x' = None"
    "\<forall>w. link_total v (set (sv_sessions v)) w \<le> link_total sv (set (sv_sessions sv)) w"
    "wl = None \<or> \<not> kill \<longrightarrow> v = sv" "wl \<noteq> None \<and> kill \<longrightarrow> idx \<noteq> -1 \<and> idx \<notin> idxs (s_windows x')"
    using maybe_room [OF assms(1) x assms(3-5) wl_def, of kill] by (auto simp: runs_iff)
  have "refs_ok (link_total v (set (sv_sessions v))) (sv_refs v)" using v(2) by (simp add: ready_to_add_def rest_ok_def frame_ok_def)
  moreover have "refs_ok (link_total sv (set (sv_sessions sv))) (sv_refs sv)" using assms(1) by (simp add: server_ok_def frame_ok_def)
  ultimately have fresh: "\<forall>w. created = Some w \<longrightarrow> sv_refs v w = None"
    using assms(6) v(4) unfolding refs_ok_def by (metis le_zero_eq option.distinct(1))
  obtain r v' where r: "session_new s ?idx created v = Some (r, v')" "added s x' ?idx v (r, v') \<or> created = None \<and> (r, v') = (None, v)"
    using new_ok [OF v(2) fresh] by (auto simp: runs_iff)
  have eq: "new_window s idx kill detached base created sv = (case r of
      None \<Rightarrow> Some (False, v') | Some i \<Rightarrow> map_option (Pair True) (if cur \<or> \<not> detached then select_in s i v' else Some v'))"
    using x d v(1) r(1) by (simp add: new_window_def Let_def cong: option.case_cong)
  show ?thesis
  proof (cases r)
    case None
    then have n: "v' = v" "added s x' ?idx v (r, v') \<longrightarrow> 0 \<le> ?idx \<longrightarrow> ?idx \<in> idxs (s_windows x')" using r(2) by (auto simp: added_def)
    have "v = sv"
    proof (rule ccontr)
      assume "v \<noteq> sv"
      then have "wl \<noteq> None \<and> kill" using v(5) by auto
      moreover then have "idx \<noteq> -1" "idx \<notin> idxs (s_windows x')" using v(6) by simp_all
      ultimately show False using n(2) assms(3,7) r(2) by auto
    qed
    then show ?thesis using eq None n(1) assms(1) by simp
  next
    case (Some i)
    then show ?thesis using eq select_after [of s x' ?idx v i v' "cur \<or> \<not> detached"] r(2) v(3) by auto
  qed
qed

section \<open>Killing a window\<close>

lemma apart_same_frame: "same_frame sv sv' \<Longrightarrow> apart s sv' r \<longleftrightarrow> apart s sv r"
  by (simp add: apart_def same_frame_def)

lemma find_by_window: "winlink_find_by_window ws w = None \<longleftrightarrow> wcount ws w = 0"
  by (auto simp: winlink_find_by_window_def find_None_iff wcount_def filter_empty_conv)

text \<open>What killing a window leaves of a session: nothing of it, or no winlink to the window.\<close>

lemma kill_in_session_ok:
  assumes "server_ok sv" "sv_session sv s = Some x" "length (s_windows x) < k"
  shows "runs (kill_in_session k w s sv) (\<lambda>sv'. server_ok sv' \<and> (sv_sessions sv' = sv_sessions sv \<or> sv_sessions sv' = remove1 s (sv_sessions sv)) \<and>
    wcount (wins sv' s) w = 0 \<and> (\<forall>r. apart s sv r \<longrightarrow> sv_session sv' r = sv_session sv r))"
  using assms
proof (induction k arbitrary: sv x)
  case (Suc k)
  show ?case
  proof (cases "winlink_find_by_window (s_windows x) w")
    case None
    then show ?thesis using Suc.prems(1,2) find_by_window [of "s_windows x" w] by simp
  next
    case (Some wl)
    then have "wl_idx wl \<in> idxs (s_windows x)" by (auto simp: winlink_find_by_window_def dest: find_set)
    then obtain d v where v: "session_detach s (wl_idx wl) sv = Some (d, v)" "server_ok v"
      "if d then sv_sessions v = remove1 s (sv_sessions sv) \<and> sv_session v s = None
       else same_frame sv v \<and> length (wins v s) < length (s_windows x)" "\<forall>r. apart s sv r \<longrightarrow> sv_session v r = sv_session sv r"
      using detach_ok [OF Suc.prems(1,2), of "wl_idx wl"] by (auto simp: runs_iff)
    have step: "kill_in_session (Suc k) w s sv = (if d then Some v else kill_in_session k w s v)"
      using Suc.prems(2) Some v(1) by simp
    show ?thesis
    proof (cases d)
      case True
      then show ?thesis using step v(2-4) by (simp add: wins_def)
    next
      case False
      then have sf: "same_frame sv v" "length (wins v s) < length (s_windows x)" using v(3) by simp_all
      have "alive_ok v" "s \<in> set (sv_sessions v)"
        using v(2) sf(1) frame_refs(2) [OF server_frame [OF Suc.prems(1)] Suc.prems(2)] by (simp_all add: server_ok_def frame_ok_def same_frame_def)
      then obtain y where y: "sv_session v s = Some y" using alive_dom by blast
      have "length (s_windows y) < k" using sf(2) y Suc.prems(3) by simp
      from Suc.IH [OF v(2) y this] show ?thesis
        using step False v(4) apart_same_frame [OF sf(1)] sf(1) by (auto simp: runs_iff same_frame_def)
    qed
  qed
qed simp

lemma kill_all:
  assumes "server_ok sv" "distinct (ps @ ss)" "set ss \<subseteq> set (sv_sessions sv)" "set (sv_sessions sv) \<subseteq> set (ps @ ss)"
    "\<forall>r\<in>set ps. wcount (wins sv r) w = 0"
  shows "runs (foldM (\<lambda>s sv. do {
       x \<leftarrow> sv_session sv s;
       if session_has x w = None then Some sv else kill_in_session (length (s_windows x) + 1) w s sv
     }) ss sv) (\<lambda>sv'. server_ok sv' \<and> sv_refs sv' w = None)"
  using assms
proof (induction ss arbitrary: sv ps)
  case Nil
  have "link_total sv (set (sv_sessions sv)) w = 0" unfolding link_total_def using Nil.prems(4,5) by (intro sum.neutral) auto
  then show ?case using Nil.prems(1) by (simp add: server_ok_def frame_ok_def refs_ok_def)
next
  case (Cons s ss)
  have al: "alive_ok sv" using Cons.prems(1) by (simp add: server_ok_def frame_ok_def)
  obtain x where x: "sv_session sv s = Some x" using alive_dom [OF al] Cons.prems(3) by auto
  have has: "session_has x w = None \<longleftrightarrow> wcount (wins sv s) w = 0"
    using find_by_window [of "s_windows x" w] x by (simp add: session_has_def winlink_find_by_window_def)
  show ?case
  proof (cases "session_has x w = None")
    case True
    have "runs (foldM (\<lambda>s sv. do {
       x \<leftarrow> sv_session sv s;
       if session_has x w = None then Some sv else kill_in_session (length (s_windows x) + 1) w s sv
     }) ss sv) (\<lambda>sv'. server_ok sv' \<and> sv_refs sv' w = None)"
      by (rule Cons.IH [of _ "ps @ [s]"]) (use Cons.prems has True in auto)
    then show ?thesis using x True by simp
  next
    case False
    obtain v where v: "kill_in_session (length (s_windows x) + 1) w s sv = Some v" "server_ok v"
      "sv_sessions v = sv_sessions sv \<or> sv_sessions v = remove1 s (sv_sessions sv)" "wcount (wins v s) w = 0"
      "\<forall>r. apart s sv r \<longrightarrow> sv_session v r = sv_session sv r"
      using kill_in_session_ok [OF Cons.prems(1) x, of "length (s_windows x) + 1" w] by (auto simp: runs_iff)
    have "wcount (wins v r) w = 0" if "r \<in> set ps" for r
    proof -
      have r0: "wcount (wins sv r) w = 0" using Cons.prems(5) that by blast
      have "r \<noteq> s" using Cons.prems(2) that by auto
      moreover have "r \<notin> set g" if "g \<in> set (sv_groups sv)" "s \<in> set g" for g
      proof
        assume "r \<in> set g"
        then have "links (wins sv r) = links (wins sv s)" using Cons.prems(1) that unfolding server_ok_def synced_def by blast
        then have "wcount (wins sv s) w = 0" using r0 links_wcount by metis
        then show False using False has by simp
      qed
      ultimately have "sv_session v r = sv_session sv r" using v(5) by (simp add: apart_def)
      then show ?thesis using r0 wins_cong by metis
    qed
    moreover have "set ss \<subseteq> set (sv_sessions v)" "set (sv_sessions v) \<subseteq> set ((ps @ [s]) @ ss)"
      using v(3) Cons.prems(2-4) al by (auto simp: alive_ok_def set_remove1_eq)
    ultimately have "runs (foldM (\<lambda>s sv. do {
       x \<leftarrow> sv_session sv s;
       if session_has x w = None then Some sv else kill_in_session (length (s_windows x) + 1) w s sv
     }) ss v) (\<lambda>sv'. server_ok sv' \<and> sv_refs sv' w = None)"
      using v(2,4) Cons.prems(2) by (intro Cons.IH [of _ "ps @ [s]"]) auto
    moreover obtain l where "session_has x w = Some l" using False by blast
    ultimately show ?thesis using x v(1) by (simp del: kill_in_session.simps)
  qed
qed

lemma kill_window_step:
  assumes "server_ok sv"
  shows "runs (server_kill_window w sv) (\<lambda>sv'. server_ok sv' \<and> sv_refs sv' w = None)"
  unfolding server_kill_window_def
  using assms by (intro kill_all [of _ "[]"]) (auto simp: server_ok_def frame_ok_def alive_ok_def)

section \<open>The other commands\<close>

lemma unlink_window_step:
  assumes "server_ok sv" "sv_session sv s = Some x" "i \<in> idxs (s_windows x)"
  shows "runs (server_unlink_window s i sv) server_ok"
  using detach_ok [OF assms] by (auto simp: server_unlink_window_def runs_iff)

lemma destroy_step: "server_ok sv \<Longrightarrow> s \<in> set (sv_sessions sv) \<Longrightarrow> runs (session_destroy s sv) server_ok"
proof -
  assume ok: "server_ok sv" and "s \<in> set (sv_sessions sv)"
  moreover have "alive_ok sv" using ok by (simp add: server_ok_def frame_ok_def)
  ultimately obtain x where "sv_session sv s = Some x" using alive_dom by blast
  then show ?thesis by (rule runs_mono [OF session_destroy_ok [OF rest_okI [OF ok]]]) simp
qed

text \<open>Moving to another window of a session, by any of the four functions.\<close>

lemma move_step:
  assumes "server_ok sv" "sv_session sv s = Some x" "m \<in> {session_next x alert, session_previous x alert, session_last x, session_select x idx}" "0 \<le> idx"
  shows "runs m (\<lambda>(r, y). server_ok (set_session s y sv))"
proof -
  have x: "sess_ok x" "near_ok x" using server_session [OF assms(1,2)] by (simp_all add: sess_ok_def)
  have "runs m (index_moved x)"
    using assms(3) session_next_moved [OF x(2)] session_previous_moved [OF x(2)] session_last_moved [OF x(2)]
      runs_mono [OF session_select_moved [OF x(2) assms(4)]] by auto
  then show ?thesis
    using x(1) moved_server(1) [OF all_syncedI [OF assms(1,2)] assms(2)] by (auto simp: runs_iff index_moved_def)
qed

text \<open>Swapping two windows of a session leaves every count as it is.\<close>

lemma wcount_without:
  assumes "windows_ok ws" "i \<in> idxs ws"
  shows "\<exists>l. rb_find ws i = Some l \<and> wcount ws w = wcount (filter (\<lambda>x. wl_idx x \<noteq> i) ws) w + (if wl_window l = Some w then 1 else 0)"
proof -
  obtain l where l: "rb_find ws i = Some l" "l \<in> set ws" "wl_idx l = i" using rb_find_in [OF assms(2)] by blast
  obtain v where v: "wl_window l = Some v" using windows_okD [OF assms(1) l(2)] by blast
  show ?thesis using wcount_remove [OF windows_ok_distinct [OF assms(1)] l(2) v, of w] l(1,3) v by auto
qed

lemma update_window_ok:
  assumes "windows_ok ws" "v \<noteq> None"
  shows "windows_ok (update_winlink i (\<lambda>wl. wl\<lparr>wl_window := v\<rparr>) ws)" "idxs (update_winlink i (\<lambda>wl. wl\<lparr>wl_window := v\<rparr>) ws) = idxs ws"
    "filter (\<lambda>x. wl_idx x \<noteq> i) (update_winlink i (\<lambda>wl. wl\<lparr>wl_window := v\<rparr>) ws) = filter (\<lambda>x. wl_idx x \<noteq> i) ws"
    "rb_find (update_winlink i (\<lambda>wl. wl\<lparr>wl_window := v\<rparr>) ws) j = map_option (\<lambda>wl. if j = i then wl\<lparr>wl_window := v\<rparr> else wl) (rb_find ws j)"
proof -
  let ?us = "update_winlink i (\<lambda>wl. wl\<lparr>wl_window := v\<rparr>) ws"
  have m: "map wl_idx ?us = map wl_idx ws" by (simp add: update_winlink_def)
  show "idxs ?us = idxs ws" using m idxs_map by metis
  have "\<forall>wl\<in>set ?us. 0 \<le> wl_idx wl \<and> wl_idx wl \<le> IDX_MAX \<and> wl_window wl \<noteq> None"
    using assms by (auto simp: windows_ok_def update_winlink_def)
  then show "windows_ok ?us" using assms(1) m unfolding windows_ok_def by metis
  show "filter (\<lambda>x. wl_idx x \<noteq> i) ?us = filter (\<lambda>x. wl_idx x \<noteq> i) ws" by (induction ws) (simp_all add: update_winlink_def)
  show "rb_find ?us j = map_option (\<lambda>wl. if j = i then wl\<lparr>wl_window := v\<rparr> else wl) (rb_find ws j)"
    by (induction ws) (auto simp: update_winlink_def rb_find_def)
qed

lemma update_window_count:
  assumes "windows_ok ws" "rb_find ws i = Some l" "v \<noteq> None"
  shows "wcount (update_winlink i (\<lambda>wl. wl\<lparr>wl_window := v\<rparr>) ws) w + (if wl_window l = Some w then 1 else 0) = wcount ws w + (if v = Some w then 1 else 0)"
proof -
  have i: "i \<in> idxs ws" using rb_find_Some [OF assms(2)] by auto
  note u = update_window_ok [OF assms(1,3), of i]
  have "i \<in> idxs (update_winlink i (\<lambda>wl. wl\<lparr>wl_window := v\<rparr>) ws)" using i u(2) by simp
  from wcount_without [OF u(1) this, of w] wcount_without [OF assms(1) i, of w] show ?thesis
    using assms(2) unfolding u(3,4) by auto
qed

lemma swap_step:
  assumes "server_ok sv" "sv_session sv s = Some x" "i \<in> idxs (s_windows x)" "j \<in> idxs (s_windows x)"
  shows "runs (swap_window s i s j dflag sv) (\<lambda>(r, sv'). server_ok sv')"
proof -
  let ?ws = "s_windows x"
  have so: "sess_ok x" and f: "frame_ok sv" using server_session server_frame assms(1,2) by blast+
  have w: "windows_ok ?ws" using so by (simp add: sess_ok_def near_ok_def)
  obtain a b where a: "rb_find ?ws i = Some a" "a \<in> set ?ws" and b: "rb_find ?ws j = Some b" "b \<in> set ?ws"
    using rb_find_in assms(3,4) by meson
  show ?thesis
  proof (cases "wl_window a = wl_window b")
    case True
    then show ?thesis using assms(1,2) a b by (simp add: swap_window_def Let_def)
  next
    case False
    then have ij: "i \<noteq> j" using a(1) b(1) by auto
    have v: "wl_window a \<noteq> None" "wl_window b \<noteq> None" using windows_okD [OF w a(2)] windows_okD [OF w b(2)] by auto
    let ?u = "update_winlink j (\<lambda>wl. wl\<lparr>wl_window := wl_window a\<rparr>) ?ws"
    let ?t = "update_winlink i (\<lambda>wl. wl\<lparr>wl_window := wl_window b\<rparr>) ?u"
    note u = update_window_ok [OF w v(1), of j]
    note t = update_window_ok [OF u(1) v(2), of i]
    have "rb_find ?u i = Some a" using u(4) [of i] a(1) ij by simp
    from update_window_count [OF u(1) this v(2)] update_window_count [OF w b(1) v(1)]
    have c: "wcount ?t v = wcount ?ws v" for v by (metis add_right_cancel add.commute add.left_commute add_left_cancel)
    let ?x = "x\<lparr>s_windows := ?t\<rparr>"
    have nx: "near_ok ?x" using so t(1,2) u(2) by (auto simp: sess_ok_def near_ok_def)
    have j0: "0 \<le> j" using windows_okD [OF w] assms(4) by auto
    have "\<exists>y. (if dflag then Some ?x else map_option snd (session_select ?x j)) = Some y \<and> sess_ok y \<and> moves ?x y"
    proof (cases dflag)
      case True
      then show ?thesis using so nx by (simp add: sess_ok_def)
    next
      case False
      have "j \<in> idxs (s_windows ?x)" using assms(4) t(2) u(2) by simp
      then show ?thesis using session_select_moved [OF nx j0] False by (auto simp: runs_iff index_moved_def)
    qed
    then obtain y where y: "(if dflag then Some ?x else map_option snd (session_select ?x j)) = Some y" "sess_ok y" "moves ?x y" by blast
    let ?v = "set_session s y sv"
    have l: "links (s_windows y) = links ?t" "s_name y = s_name x" using y(3) by (simp_all add: moves_def)
    have "refs_ok (\<lambda>v. link_total sv (set (sv_sessions sv) - {s}) v + wcount (s_windows y) v) (sv_refs sv)"
      using frame_refs(1) [OF f assms(2)] by (simp add: c links_wcount [OF l(1)])
    moreover have "windows_ok (s_windows y)" using y(2) by (simp add: sess_ok_def near_ok_def)
    ultimately have "rest_ok s ((set_session s y sv)\<lparr>sv_refs := sv_refs sv\<rparr>)" by (intro change_rest [OF rest_okI [OF assms(1,2)] assms(2) l(2)])
    then have r: "rest_ok s ?v" by (simp add: set_session_def)
    have iy: "idxs (s_windows y) = idxs ?ws" by (rule trans [OF links_idxs [OF l(1)] trans [OF t(2) u(2)]])
    have "can_sync (s_windows y) (wins ?v q)" if "g \<in> set (sv_groups ?v)" "s \<in> set g" "q \<in> set g" "q \<noteq> s" for g q
    proof -
      have "wins ?v q = wins sv q" using that(4) by (simp add: wins_def)
      then have "idxs (wins ?v q) = idxs (s_windows y)" using group_idxs(1) [OF assms(1,2)] that iy by simp
      then show ?thesis using iy assms(3) by (auto simp: can_sync_def)
    qed
    then have "partly_ok s ?v" using y(2) by (intro partly_of_rest [OF r, of y]) (auto simp: sess_ok_def)
    moreover have "wins ?v s \<noteq> []" using iy assms(3) by (auto simp: wins_def)
    ultimately obtain v where v: "session_group_synchronize_from s ?v = Some v" "all_synced s v" "sv_session v s = sv_session ?v s"
      using synchronize_from_ok [of s ?v] by (auto simp: runs_iff)
    then have "server_ok v" using all_synced_done [OF v(2) _ y(2)] by simp
    moreover have "swap_window s i s j dflag sv = Some (True, v)"
    proof -
      have e1: "set_window_at s j (wl_window a) sv = Some (set_session s (x\<lparr>s_windows := ?u\<rparr>) sv)"
        by (simp add: set_window_at_def assms(2))
      have e2: "set_window_at s i (wl_window b) (set_session s (x\<lparr>s_windows := ?u\<rparr>) sv) = Some (set_session s ?x sv)"
        by (simp add: set_window_at_def set_session_twice)
      show ?thesis
      proof (cases dflag)
        case True
        with y(1) v(1) have "session_group_synchronize_from s (set_session s ?x sv) = Some v" by simp
        then show ?thesis using True unfolding swap_window_def Let_def
          by (simp add: assms(2) a(1) b(1) \<open>wl_window a \<noteq> wl_window b\<close> e1 e2)
      next
        case False
        then obtain r where "session_select ?x j = Some (r, y)" using y(1) by auto
        then have "select_in s j (set_session s ?x sv) = Some ?v"
          by (simp add: select_in_def set_session_twice)
        then show ?thesis using False v(1) unfolding swap_window_def Let_def
          by (simp add: assms(2) a(1) b(1) \<open>wl_window a \<noteq> wl_window b\<close> e1 e2)
      qed
    qed
    ultimately show ?thesis by simp
  qed
qed

end
