(* ===== verification/Session_Commands.thy ===== *)
theory Session_Commands
  imports Session_Steps
begin

text \<open>
  The commands on sessions and windows as one step function, what each command needs of its
  arguments, and that the invariant of the server holds after any number of them.
\<close>

section \<open>Commands\<close>

datatype command =
    New_Session "string option" int "nat option"
  | New_Grouped "string option" nat int int
  | New_Window nat int bool bool nat "nat option"
  | Link_Window nat int nat int bool bool nat
  | Swap_Window nat int int bool
  | Unlink_Window nat int bool
  | Select_Window nat selection
  | Rename_Session nat string
  | Kill_Window nat
  | Kill_Session nat

fun run_command :: "command \<Rightarrow> server \<Rightarrow> server option" where
  "run_command (New_Session name idx created) sv = map_option snd (session_create name (Some created) idx sv)"
| "run_command (New_Grouped name t idx root) sv = new_grouped_session name t idx root sv"
| "run_command (New_Window s idx k d base created) sv = map_option snd (new_window s idx k d base created sv)"
| "run_command (Link_Window src wl dst idx k sel base) sv = map_option snd (server_link_window src wl dst idx k sel base sv)"
| "run_command (Swap_Window s i j d) sv = map_option snd (swap_window s i s j d sv)"
| "run_command (Unlink_Window s i k) sv = map_option snd (unlink_window s i k sv)"
| "run_command (Select_Window s sel) sv = map_option snd (select_window s sel sv)"
| "run_command (Rename_Session s name) sv = map_option snd (rename_session s name sv)"
| "run_command (Kill_Window w) sv = server_kill_window w sv"
| "run_command (Kill_Session s) sv = session_destroy s sv"

text \<open>
  What the arguments are found to be before a command runs: sessions that exist, indices at
  which they have a window, an index that is free or not of the range of a parsed one, a name
  that no session has, and a window that is not in use for one that is created. A window that
  is replaced needs a new one.
\<close>

definition free_window :: "nat option \<Rightarrow> server \<Rightarrow> bool" where
  "free_window created sv \<longleftrightarrow> (case created of None \<Rightarrow> True | Some w \<Rightarrow> sv_refs sv w = None)"

definition free_name :: "string option \<Rightarrow> server \<Rightarrow> bool" where
  "free_name name sv \<longleftrightarrow> session_find (new_name name sv) sv = None \<and> sv_next_session sv + 1 < UINT_MOD"

definition has_index :: "nat \<Rightarrow> int \<Rightarrow> server \<Rightarrow> bool" where
  "has_index s i sv \<longleftrightarrow> session_alive s sv \<and> rb_find (wins sv s) i \<noteq> None"

definition target_index :: "int \<Rightarrow> nat \<Rightarrow> bool" where
  "target_index idx base \<longleftrightarrow> -1 \<le> idx \<and> idx \<le> IDX_MAX \<and> base \<le> nat IDX_MAX"

fun accepts :: "server \<Rightarrow> command \<Rightarrow> bool" where
  "accepts sv (New_Session name idx created) = (free_name name sv \<and> valid_index idx \<and> free_window created sv)"
| "accepts sv (New_Grouped name t idx root) = (free_name name sv \<and> session_alive t sv \<and> rb_find (wins sv t) root \<noteq> None)"
| "accepts sv (New_Window s idx k d base created) =
     (session_alive s sv \<and> target_index idx base \<and> free_window created sv \<and> (k \<longrightarrow> created \<noteq> None))"
| "accepts sv (Link_Window src wl dst idx k sel base) = (has_index src wl sv \<and> session_alive dst sv \<and> target_index idx base)"
| "accepts sv (Swap_Window s i j d) = (has_index s i sv \<and> has_index s j sv)"
| "accepts sv (Unlink_Window s i k) = has_index s i sv"
| "accepts sv (Select_Window s sel) = (session_alive s sv \<and> (case sel of This_Window i \<Rightarrow> 0 \<le> i | _ \<Rightarrow> True))"
| "accepts sv (Rename_Session s name) = session_alive s sv"
| "accepts sv (Kill_Window w) = True"
| "accepts sv (Kill_Session s) = session_alive s sv"

definition no_sessions :: server where
  "no_sessions = \<lparr>sv_session = Map.empty, sv_sessions = [], sv_groups = [], sv_refs = Map.empty, sv_next_session = 0\<rparr>"

inductive reachable_server :: "server \<Rightarrow> bool" where
  start: "reachable_server no_sessions"
| run: "reachable_server sv \<Longrightarrow> accepts sv c \<Longrightarrow> run_command c sv = Some sv' \<Longrightarrow> reachable_server sv'"

section \<open>The invariant\<close>

lemma server_alive: "server_ok sv \<Longrightarrow> session_alive s sv \<longleftrightarrow> (\<exists>x. sv_session sv s = Some x)"
  by (auto simp: session_alive_def server_ok_def frame_ok_def alive_dom)

lemma has_indexD:
  assumes "server_ok sv" "has_index s i sv"
  obtains x where "sv_session sv s = Some x" "i \<in> idxs (s_windows x)" "s \<in> set (sv_sessions sv)"
  using assms server_alive [OF assms(1), of s] by (auto simp: has_index_def session_alive_def)

lemma server_ok_start: "server_ok no_sessions"
  by (simp add: no_sessions_def server_ok_def frame_ok_def alive_ok_def groups_ok_def refs_ok_def link_total_def)

lemma unlink_command:
  assumes "server_ok sv" "sv_session sv s = Some x" "i \<in> idxs (s_windows x)"
  shows "runs (unlink_window s i k sv) (\<lambda>(r, sv'). server_ok sv')"
proof -
  obtain wl where wl: "rb_find (s_windows x) i = Some wl" "wl \<in> set (s_windows x)" using rb_find_in [OF assms(3)] by blast
  have "windows_ok (s_windows x)" using server_session [OF assms(1,2)] by (simp add: sess_ok_def near_ok_def)
  then obtain w where w: "wl_window wl = Some w" using windows_okD wl(2) by blast
  have "0 < wcount (s_windows x) w" using wl(2) w by (auto simp: wcount_def filter_empty_conv)
  then obtain n where "sv_refs sv w = Some n" using frame_refs(1) [OF server_frame [OF assms(1)] assms(2)] by (auto simp: refs_ok_def)
  then show ?thesis using unlink_window_step [OF assms] assms(1) by (simp add: unlink_window_def assms(2) wl(1) w)
qed

lemma select_command:
  assumes "server_ok sv" "sv_session sv s = Some x" "case sel of This_Window i \<Rightarrow> 0 \<le> i | _ \<Rightarrow> True"
  shows "runs (select_window s sel sv) (\<lambda>(r, sv'). server_ok sv')"
proof (cases sel)
  case (This_Window i)
  then show ?thesis using move_step [OF assms(1,2), of "session_select x i" _ i] assms(3)
    by (auto simp: select_window_def assms(2) runs_iff)
next
  case (Next_Window a)
  then show ?thesis using move_step [OF assms(1,2), of "session_next x a" a 0] by (auto simp: select_window_def assms(2) runs_iff)
next
  case (Previous_Window a)
  then show ?thesis using move_step [OF assms(1,2), of "session_previous x a" a 0] by (auto simp: select_window_def assms(2) runs_iff)
next
  case Last_Window
  then show ?thesis using move_step [OF assms(1,2), of "session_last x" _ 0] by (auto simp: select_window_def assms(2) runs_iff)
qed

lemma rename_command:
  assumes "server_ok sv" "sv_session sv s = Some x"
  shows "runs (rename_session s n sv) (\<lambda>(r, sv'). server_ok sv')"
proof (cases "session_check_name n \<and> session_find n sv = None")
  case True
  let ?y = "x\<lparr>s_name := n\<rparr>"
  let ?u = "set_session s ?y (sv\<lparr>sv_sessions := remove1 s (sv_sessions sv)\<rparr>)"
  have f: "alive_ok sv" "groups_ok sv" "refs_ok (link_total sv (set (sv_sessions sv))) (sv_refs sv)"
    using assms(1) by (simp_all add: server_ok_def frame_ok_def)
  have d: "distinct (sv_sessions sv)" "s \<in> set (sv_sessions sv)" using f(1) assms(2) by (auto simp: alive_ok_def)
  have nm: "name_of ?u r = (if r = s then n else name_of sv r)" for r by (simp add: name_of_def)
  have "\<forall>r\<in>set (sv_sessions sv). name_of sv r \<noteq> n" using True by (auto simp: session_find_def find_None_iff)
  then have no: "\<forall>r\<in>set (remove1 s (sv_sessions sv)). name_of ?u r \<noteq> name_of ?u s" using d by (simp add: nm)
  then have fd: "session_find (name_of ?u s) ?u = None" by (auto simp: session_find_def find_None_iff)
  define v where "v = insert_session s ?u"
  have v: "v = ?u\<lparr>sv_sessions := insort_key (name_of ?u) s (remove1 s (sv_sessions sv))\<rparr>"
    using fd by (simp add: v_def insert_session_def)
  have S: "set (sv_sessions v) = set (sv_sessions sv)" using d by (auto simp: v set_insort_key)
  have nv: "name_of v = name_of ?u" by (simp add: name_of_def fun_eq_iff v)
  have w: "wins v r = wins sv r" for r by (simp add: wins_def v assms(2))
  have "sorted_wrt (<) (map (name_of ?u) (remove1 s (sv_sessions sv)))"
    using f(1) d by (intro sorted_remove1 [where f = "name_of sv"]) (auto simp: alive_ok_def nm)
  then have "sorted_wrt (<) (map (name_of v) (sv_sessions v))" unfolding nv using sorted_names no by (simp add: v)
  moreover have "distinct (sv_sessions v)" using d by (simp add: v distinct_insort_name)
  moreover have "dom (sv_session v) = set (sv_sessions v)" using f(1) S d(2) by (auto simp: alive_ok_def v)
  moreover have "\<forall>r\<in>set (sv_sessions v). r < sv_next_session v" using f(1) unfolding S by (simp add: alive_ok_def v)
  ultimately have "alive_ok v" by (simp add: alive_ok_def)
  moreover have "link_total v (set (sv_sessions v)) = link_total sv (set (sv_sessions sv))" unfolding S by (rule link_total_cong) (rule w)
  then have "refs_ok (link_total v (set (sv_sessions v))) (sv_refs v)" using f(3) by (simp add: v)
  moreover have gr: "sv_groups v = sv_groups sv" by (simp add: v)
  then have "groups_ok v" using f(2) by (simp add: groups_ok_def S)
  ultimately have "frame_ok v" by (simp add: frame_ok_def)
  moreover have "sess_ok z" if "sv_session v r = Some z" for r z
    using that server_session [OF assms(1)] server_session [OF assms] by (auto simp: v sess_ok_def near_ok_def split: if_splits)
  moreover have "synced v g = synced sv g" for g by (simp only: synced_def w)
  then have "\<forall>g\<in>set (sv_groups v). synced v g" using assms(1) by (simp only: gr server_ok_def) blast
  ultimately have "server_ok v" unfolding server_ok_def by blast
  then show ?thesis using True by (simp add: rename_session_def assms(2) v_def)
qed (use assms in \<open>auto simp: rename_session_def\<close>)

lemma runs_snd: "runs m (\<lambda>(r, y). P y) \<Longrightarrow> runs (map_option snd m) P"
  by (auto simp: runs_iff)

lemma command_step:
  assumes "server_ok sv" "accepts sv c"
  shows "runs (run_command c sv) server_ok"
proof -
  note alive = server_alive [OF assms(1)] and alive' = session_alive_def
  show ?thesis
  proof (cases c)
    case (New_Session name idx created)
    with assms(2) have "runs (session_create name (Some created) idx sv) (\<lambda>(r, sv'). server_ok sv')"
      by (intro create_step [OF assms(1)]) (auto simp: free_name_def free_window_def)
    then show ?thesis using New_Session runs_snd by fastforce
  next
    case (New_Grouped name t idx root)
    then show ?thesis using group_step [OF assms(1)] assms(2) by (simp add: free_name_def session_alive_def)
  next
    case (New_Window s idx k d base created)
    with assms(2) have "runs (new_window s idx k d base created sv) (\<lambda>(r, sv'). server_ok sv')"
      by (intro new_window_step [OF assms(1)]) (auto simp: free_window_def session_alive_def target_index_def)
    then show ?thesis using New_Window runs_snd by fastforce
  next
    case (Link_Window src wl dst idx k sel base)
    then have h: "has_index src wl sv" "dst \<in> set (sv_sessions sv)" "target_index idx base" using assms(2) by (simp_all add: session_alive_def)
    obtain y where y: "sv_session sv src = Some y" "wl \<in> idxs (s_windows y)" using has_indexD [OF assms(1) h(1)] .
    have "runs (server_link_window src wl dst idx k sel base sv) (\<lambda>(r, sv'). server_ok sv')"
      using h(3) by (intro link_window_step [OF assms(1) y h(2)]) (auto simp: target_index_def)
    then show ?thesis using Link_Window runs_snd by fastforce
  next
    case (Swap_Window s i j d)
    then have i: "has_index s i sv" and j: "has_index s j sv" using assms(2) by simp_all
    obtain x where x: "sv_session sv s = Some x" "i \<in> idxs (s_windows x)" using has_indexD [OF assms(1) i] .
    have "j \<in> idxs (s_windows x)" using j x(1) by (simp add: has_index_def)
    then have "runs (swap_window s i s j d sv) (\<lambda>(r, sv'). server_ok sv')" by (rule swap_step [OF assms(1) x])
    then show ?thesis using Swap_Window runs_snd by fastforce
  next
    case (Unlink_Window s i k)
    then have h: "has_index s i sv" using assms(2) by simp
    obtain x where "sv_session sv s = Some x" "i \<in> idxs (s_windows x)" using has_indexD [OF assms(1) h] .
    from unlink_command [OF assms(1) this, of k] show ?thesis using Unlink_Window runs_snd by fastforce
  next
    case (Select_Window s sel)
    then obtain x where "sv_session sv s = Some x" "case sel of This_Window i \<Rightarrow> 0 \<le> i | _ \<Rightarrow> True" using alive [of s] assms(2) by auto
    from select_command [OF assms(1) this] show ?thesis using Select_Window runs_snd by fastforce
  next
    case (Rename_Session s n)
    then obtain x where "sv_session sv s = Some x" using alive [of s] assms(2) by auto
    from rename_command [OF assms(1) this, of n] show ?thesis using Rename_Session runs_snd by fastforce
  next
    case (Kill_Window w)
    then show ?thesis using kill_window_step [OF assms(1), of w] by (auto simp: runs_iff)
  next
    case (Kill_Session s)
    then show ?thesis using destroy_step [OF assms(1)] assms(2) by (simp add: session_alive_def)
  qed
qed

lemma reachable_server_ok: "reachable_server sv \<Longrightarrow> server_ok sv"
proof (induction rule: reachable_server.induct)
  case (run sv c sv')
  then show ?case using command_step [of sv c] by (simp add: runs_iff)
qed (rule server_ok_start)

section \<open>Unlinking\<close>

text \<open>The session itself with those of its group.\<close>

definition group_of :: "nat \<Rightarrow> server \<Rightarrow> nat list" where
  "group_of s sv = (case session_group_find s sv of None \<Rightarrow> [s] | Some g \<Rightarrow> g)"

lemma group_of_ok:
  assumes "server_ok sv" "sv_session sv s = Some x"
  shows "distinct (group_of s sv)" "set (group_of s sv) \<subseteq> set (sv_sessions sv)" "s \<in> set (group_of s sv)"
    "r \<in> set (group_of s sv) \<Longrightarrow> wcount (wins sv r) = wcount (s_windows x)" "r \<notin> set (group_of s sv) \<Longrightarrow> apart s sv r"
proof -
  have f: "groups_ok sv" "s \<in> set (sv_sessions sv)" using frame_refs(2) [OF server_frame [OF assms(1)] assms(2)] server_frame [OF assms(1)] by (simp_all add: frame_ok_def)
  have u: "h = g" if "session_group_find s sv = Some g" "h \<in> set (sv_groups sv)" "s \<in> set h" for g h
    using f(1) that(2,3) group_find_Some [OF that(1)] unfolding groups_ok_def distinct_concat_iff by blast
  show "distinct (group_of s sv)" "set (group_of s sv) \<subseteq> set (sv_sessions sv)" "s \<in> set (group_of s sv)"
    using f group_find_Some by (auto simp: group_of_def groups_ok_def distinct_concat_iff split: option.split)
  show "wcount (wins sv r) = wcount (s_windows x)" if "r \<in> set (group_of s sv)"
  proof (cases "session_group_find s sv")
    case (Some g)
    then have g: "g \<in> set (sv_groups sv)" "s \<in> set g" "r \<in> set g" using group_find_Some [OF Some] that by (simp_all add: group_of_def)
    then have "links (wins sv r) = links (wins sv s)" using assms(1) unfolding server_ok_def synced_def by blast
    from links_wcount [OF this] show ?thesis using assms(2) by simp
  qed (use that assms(2) in \<open>simp add: group_of_def\<close>)
  show "apart s sv r" if "r \<notin> set (group_of s sv)"
  proof (cases "session_group_find s sv")
    case None
    then show ?thesis using that group_find_None by (auto simp: group_of_def apart_def)
  next
    case (Some g)
    then show ?thesis using that u [OF Some] group_find_Some [OF Some] by (auto simp: group_of_def apart_def)
  qed
qed

lemma refs_alive: "server_ok sv \<Longrightarrow> sv_refs sv w \<noteq> None \<longleftrightarrow> (\<exists>r. 0 < wcount (wins sv r) w)"
proof -
  assume a: "server_ok sv"
  then have f: "alive_ok sv" "refs_ok (link_total sv (set (sv_sessions sv))) (sv_refs sv)" by (simp_all add: server_ok_def frame_ok_def)
  have "r \<in> set (sv_sessions sv)" if "0 < wcount (wins sv r) w" for r
    using that alive_dom [OF f(1)] by (auto simp: wins_def split: option.splits)
  then show ?thesis using f(2) by (auto simp: refs_ok_def link_total_def)
qed

text \<open>A window with more winlinks than those of a group with one each is linked elsewhere.\<close>

lemma linked_elsewhere:
  assumes "server_ok sv" "sv_session sv s = Some x" "wcount (s_windows x) w = 1" "sv_refs sv w = Some n" "n \<noteq> length (group_of s sv)"
  shows "\<exists>r. apart s sv r \<and> 0 < wcount (wins sv r) w"
proof -
  let ?G = "set (group_of s sv)" and ?S = "set (sv_sessions sv)"
  note g = group_of_ok [OF assms(1,2)]
  have n: "n = link_total sv ?S w" using assms(1,4) refs_ok_live by (auto simp: server_ok_def frame_ok_def)
  have "link_total sv ?S w = link_total sv (?S - ?G) w + link_total sv ?G w"
    unfolding link_total_def by (rule sum.subset_diff [OF g(2)]) simp
  moreover have "link_total sv ?G w = card ?G" using g(4) assms(3) by (simp add: link_total_def)
  moreover have "card ?G = length (group_of s sv)" by (rule distinct_card [OF g(1)])
  ultimately have "link_total sv (?S - ?G) w \<noteq> 0" using n assms(5) by simp
  then obtain r where "r \<in> ?S - ?G" "wcount (wins sv r) w \<noteq> 0" unfolding link_total_def by (meson sum.neutral)
  then show ?thesis using g(5) by auto
qed

lemma wins_apart: "\<forall>r. apart s sv r \<longrightarrow> sv_session sv' r = sv_session sv r \<Longrightarrow> apart s sv r \<Longrightarrow> wins sv' r = wins sv r"
  by (simp add: wins_def)

lemma unlink_keeps:
  assumes "server_ok sv" "unlink_window s i False sv = Some (True, sv')" "sv_refs sv v \<noteq> None"
  shows "sv_refs sv' v \<noteq> None"
proof -
  obtain x wl w n where u: "sv_session sv s = Some x" "rb_find (s_windows x) i = Some wl" "wl_window wl = Some w" "sv_refs sv w = Some n"
    "n \<noteq> length (group_of s sv)" "server_unlink_window s i sv = Some sv'"
    using assms(2) by (auto simp: unlink_window_def group_of_def bind_eq_Some_conv split: if_splits option.splits)
  have i: "i \<in> idxs (s_windows x)" using rb_find_Some [OF u(2)] by auto
  have wo: "windows_ok (s_windows x)" using server_session [OF assms(1) u(1)] by (simp add: sess_ok_def near_ok_def)
  have one: "wcount (s_windows x) a = wcount (filter (\<lambda>y. wl_idx y \<noteq> i) (s_windows x)) a + (if a = w then 1 else 0)" for a
    using wcount_without [OF wo i, of a] u(2,3) by auto
  obtain d where dd: "session_detach s i sv = Some (d, sv')" using u(6) by (auto simp: server_unlink_window_def)
  have d: "server_ok sv'"
    "if d then sv_session sv' s = None \<and> idxs (s_windows x) = {i} else links (wins sv' s) = filter (\<lambda>p. fst p \<noteq> i) (links (s_windows x))"
    "\<forall>r. apart s sv r \<longrightarrow> sv_session sv' r = sv_session sv r"
    using detach_ok [OF assms(1) u(1) i] by (simp_all add: dd split: if_splits)
  have kept: ?thesis if "apart s sv r" "0 < wcount (wins sv r) v" for r
    using that wins_apart [OF d(3) that(1)] refs_alive [OF d(1)] by metis
  obtain r where r: "0 < wcount (wins sv r) v" using assms(3) refs_alive [OF assms(1)] by blast
  show ?thesis
  proof (cases "apart s sv r")
    case False
    then have s: "0 < wcount (s_windows x) v" using r group_of_ok(4,5) [OF assms(1) u(1), of r] by metis
    show ?thesis
    proof (cases "v = w \<and> wcount (s_windows x) w = 1")
      case True
      then show ?thesis using linked_elsewhere [OF assms(1) u(1) _ u(4,5)] kept by blast
    next
      case False
      then have more: "0 < wcount (filter (\<lambda>y. wl_idx y \<noteq> i) (s_windows x)) v" using s one [of v] by (auto split: if_splits)
      then have "filter (\<lambda>y. wl_idx y \<noteq> i) (s_windows x) \<noteq> []" by (metis less_irrefl wcount_simps(1))
      then obtain y where "y \<in> set (s_windows x)" "wl_idx y \<noteq> i" by (auto simp: filter_empty_conv)
      then have "wl_idx y \<in> idxs (s_windows x) - {i}" by simp
      then have "\<not> d" using d(2) by (metis Diff_cancel empty_iff)
      then have "links (wins sv' s) = links (filter (\<lambda>y. wl_idx y \<noteq> i) (s_windows x))" using d(2) by (simp add: links_without)
      then show ?thesis using links_wcount more refs_alive [OF d(1)] by metis
    qed
  qed (use kept r in blast)
qed

end
