(* ===== verification/Session_Props.thy ===== *)
theory Session_Props
  imports Session_Commands
begin

text \<open>
  The properties of sessions, windows and groups: the invariant of the server, that the
  commands return, what killing and unlinking a window leave, the choice of an index, going
  back to the last window, and two errors that the source does not handle.
\<close>

section \<open>Runs of commands\<close>

definition run_commands :: "command list \<Rightarrow> server option" where
  "run_commands cs = foldM (\<lambda>c sv. if accepts sv c then run_command c sv else None) cs no_sessions"

lemma run_commands_reachable: "run_commands cs = Some sv \<Longrightarrow> reachable_server sv"
proof -
  have "reachable_server sv" if "foldM (\<lambda>c sv. if accepts sv c then run_command c sv else None) cs a = Some sv" "reachable_server a" for a
    using that by (induction cs arbitrary: a) (auto simp: bind_eq_Some_conv split: if_splits intro: reachable_server.run)
  then show "run_commands cs = Some sv \<Longrightarrow> reachable_server sv" using reachable_server.start by (simp add: run_commands_def)
qed

text \<open>Two sessions in a group, a third one to which a window of theirs is linked.\<close>

definition some_commands :: "command list" where
  "some_commands = [New_Session (Some ''a'') (-1) (Some 10), New_Window 0 (-1) False False 0 (Some 11),
     New_Grouped (Some ''c'') 0 (-1) 1, New_Session (Some ''b'') (-1) (Some 12), Link_Window 0 1 2 (-1) False True 0]"

definition some_server :: server where
  "some_server = (let ws = [\<lparr>wl_idx = 0, wl_window = Some 10, wl_flags = 0\<rparr>, \<lparr>wl_idx = 1, wl_window = Some 11, wl_flags = 0\<rparr>] in
     \<lparr>sv_session = [0 \<mapsto> \<lparr>s_name = ''a'', s_curw = Some 1, s_lastw = [0], s_windows = ws\<rparr>,
        1 \<mapsto> \<lparr>s_name = ''c'', s_curw = Some 1, s_lastw = [], s_windows = ws\<rparr>,
        2 \<mapsto> \<lparr>s_name = ''b'', s_curw = Some 1, s_lastw = [0],
          s_windows = [\<lparr>wl_idx = 0, wl_window = Some 12, wl_flags = 0\<rparr>, \<lparr>wl_idx = 1, wl_window = Some 11, wl_flags = 0\<rparr>]\<rparr>],
      sv_sessions = [0, 2, 1], sv_groups = [[0, 1]], sv_refs = [10 \<mapsto> 2, 11 \<mapsto> 3, 12 \<mapsto> 1], sv_next_session = 3\<rparr>)"

lemmas session_defs = free_window_def free_name_def has_index_def target_index_def session_alive_def session_find_def name_of_def new_name_def
  session_create_def session_new_def new_window_def new_grouped_session_def server_link_window_def session_attach_def insert_session_def set_session_def
  winlink_add_def winlink_next_index_def winlink_find_by_index_def winlink_set_window_def winlink_remove_def update_winlink_def rb_find_def valid_index_def
  session_group_synchronize_from_def session_group_synchronize_to_def session_group_find_def synchronize_def session_group_synchronize1_def relink_def
  rb_min_def rb_max_def select_in_def session_select_def move_to_def winlink_stack_push_def winlink_stack_remove_def session_group_add_def no_sessions_def
  clear_alerts_def WINLINK_ALERTFLAGS_def
  leave_current_def session_last_def wins_def next_index_loop.simps uadd_eq make_room_def Let_def

lemma some_run: "run_commands some_commands = Some some_server"
  by (simp add: session_defs some_commands_def run_commands_def some_server_def) (auto simp: fun_eq_iff)

lemma some_reachable: "reachable_server some_server"
  by (rule run_commands_reachable [OF some_run])

section \<open>The next index\<close>

lemma find_upto: "i \<le> j \<Longrightarrow> find P ([i..j] @ xs) = (if P i then Some i else find P ([i + 1..j] @ xs))"
  by (simp add: upto_rec1)

lemma next_index_find:
  assumes "0 \<le> idx" "idx \<le> IDX_MAX" "0 \<le> i" "i \<le> IDX_MAX"
  shows "next_index_loop ws idx i = Some (case find (\<lambda>j. j \<notin> idxs ws) (if idx \<le> i then [i..IDX_MAX] @ [0..idx - 1] else [i..idx - 1]) of
    None \<Rightarrow> -1 | Some j \<Rightarrow> j)"
  using assms
proof (induction ws idx i rule: next_index_loop.induct)
  case (1 ws idx i)
  let ?f = "\<lambda>i. find (\<lambda>j. j \<notin> idxs ws) (if idx \<le> i then [i..IDX_MAX] @ [0..idx - 1] else [i..idx - 1])"
  let ?i = "if i = IDX_MAX then 0 else i + 1"
  show ?case
  proof (cases "i \<in> idxs ws")
    case True
    have s: "?f i = (if ?i = idx then None else ?f ?i)"
    proof (cases "idx \<le> i")
      case False
      then show ?thesis using True "1.prems" by (auto simp: upto_rec1 [of i])
    next
      case ge: True
      then have "?f i = find (\<lambda>j. j \<notin> idxs ws) ([i + 1..IDX_MAX] @ [0..idx - 1])" using True "1.prems" find_upto [of i] by simp
      then show ?thesis using ge "1.prems" by (auto simp: upto_empty)
    qed
    have "next_index_loop ws idx i = (if ?i = idx then Some (-1) else next_index_loop ws idx ?i)"
      using True "1.prems" by (subst next_index_loop.simps) (simp add: Let_def)
    then show ?thesis using "1.IH" [of ?i] True "1.prems" unfolding s by (auto simp: Let_def split: if_splits)
  next
    case False
    then have "?f i = Some i" using "1.prems" by (auto simp: upto_rec1 [of i])
    then show ?thesis using False "1.prems" by (subst next_index_loop.simps) simp
  qed
qed

section \<open>The invariant of the server\<close>





text \<open>
  C17: Killing a window takes it from every session it is linked to, in groups and out of them,
  and then it does not exist any more.
\<close>

theorem kill_window_everywhere:
  "reachable_server sv \<Longrightarrow> runs (server_kill_window w sv) (\<lambda>sv'. server_ok sv' \<and> sv_refs sv' w = None)"
  by (rule kill_window_step [OF reachable_server_ok])

theorem kill_window_everywhere_witness:
  "runs (server_kill_window 11 some_server) (\<lambda>sv'. server_ok sv' \<and> sv_refs sv' 11 = None)"
  by (rule kill_window_everywhere [OF some_reachable])

text \<open>
  C16: unlink-window without -k never destroys a window: the comparison of the reference count
  with the number of sessions of the group lets it through only if another winlink remains.
\<close>

theorem unlink_keeps_windows:
  assumes "reachable_server sv" "unlink_window s i False sv = Some (True, sv')" "sv_refs sv w \<noteq> None"
  shows "sv_refs sv' w \<noteq> None"
  by (rule unlink_keeps [OF reachable_server_ok [OF assms(1)] assms(2,3)])

lemma some_unlink: "runs (unlink_window 2 1 False some_server) (\<lambda>r. fst r \<and> sv_refs (snd r) 11 = Some 2)"
  by (simp add: session_defs some_server_def unlink_window_def server_unlink_window_def session_detach_def)

theorem unlink_keeps_windows_witness:
  "\<exists>sv'. unlink_window 2 1 False some_server = Some (True, sv') \<and> sv_refs sv' 11 \<noteq> None"
proof -
  obtain sv' where u: "unlink_window 2 1 False some_server = Some (True, sv')" using some_unlink by (auto simp: runs_iff)
  have "sv_refs some_server 11 \<noteq> None" by (simp add: some_server_def Let_def)
  from unlink_keeps_windows [OF some_reachable u this] u show ?thesis by blast
qed

text \<open>
  The next index from an index on is the first that no window has, in the order that goes
  up to INT_MAX and begins again at zero, and -1 if there is none.
\<close>

theorem next_index_first_free:
  assumes "0 \<le> idx" "idx \<le> IDX_MAX"
  shows "winlink_next_index ws idx = Some (case find (\<lambda>j. j \<notin> idxs ws) ([idx..IDX_MAX] @ [0..idx - 1]) of None \<Rightarrow> -1 | Some j \<Rightarrow> j)"
  using next_index_find [OF assms assms] by (simp add: winlink_next_index_def)

theorem next_index_first_free_witness: "winlink_next_index (wins some_server 0) 1 = Some 2"
proof -
  have "find (\<lambda>j. j \<notin> idxs (wins some_server 0)) ([1..IDX_MAX] @ [0..1 - 1]) = Some 2"
  proof -
    have u: "[1..m] = 1 # 2 # [3..m]" if "2 \<le> m" for m :: int using that by (simp add: upto_rec1 [of 1] upto_rec1 [of 2])
    have f: "find (\<lambda>j. j \<notin> idxs (wins some_server 0)) (1 # 2 # js) = Some 2" for js
      by (simp add: some_server_def Let_def wins_def)
    have "(2::int) \<le> IDX_MAX" by simp
    from u [OF this] show ?thesis by (simp only: append_Cons f)
  qed
  then have "(case find (\<lambda>j. j \<notin> idxs (wins some_server 0)) ([1..IDX_MAX] @ [0..1 - 1]) of None \<Rightarrow> -1 | Some j \<Rightarrow> j) = 2"
    by (simp only: option.case)
  moreover have "(0::int) \<le> 1" "(1::int) \<le> IDX_MAX" by simp_all
  ultimately show ?thesis using next_index_first_free by metis
qed

text \<open>
  Selecting a window and then the last one comes back to the window that was current.
\<close>

theorem last_window_goes_back:
  assumes "reachable_server sv" "sv_session sv s = Some x" "s_curw x = Some c" "i \<in> idxs (s_windows x)"
  shows "runs (do { (r, y) \<leftarrow> session_select x i; session_last y }) (\<lambda>(r, y). i \<noteq> c \<longrightarrow> r = 0 \<and> s_curw y = Some c)"
proof -
  have x: "windows_ok (s_windows x)" "c \<in> idxs (s_windows x)" "near_ok x"
    using server_session [OF reachable_server_ok [OF assms(1)] assms(2)] assms(3) by (auto simp: sess_ok_def near_ok_def)
  obtain wl where wl: "rb_find (s_windows x) i = Some wl" "wl_idx wl = i" "wl \<in> set (s_windows x)" using rb_find_in [OF assms(4)] by blast
  have i: "0 \<le> i" using windows_okD [OF x(1) wl(3)] wl(2) by simp
  show ?thesis
  proof (cases "i = c")
    case True
    then show ?thesis using session_last_moved [OF x(3)] i wl(1,2) assms(3)
      by (auto simp: session_select_def winlink_find_by_index_def move_to_def runs_iff)
  next
    case False
    let ?ws = "update_winlink i clear_alerts (s_windows x)"
    have "c \<in> idxs ?ws" using x(2) by (simp only: idxs_clear)
    then obtain wc where "rb_find ?ws c = Some wc" "wl_idx wc = c" using rb_find_in by blast
    then show ?thesis using False i wl(1,2) assms(3)
      by (simp add: session_select_def winlink_find_by_index_def move_to_def session_last_def winlink_stack_push_def)
  qed
qed

theorem last_window_goes_back_witness:
  "runs (do { (r, y) \<leftarrow> session_select (the (sv_session some_server 0)) 0; session_last y }) (\<lambda>(r, y). r = 0 \<and> s_curw y = Some 1)"
proof -
  have "runs (do { (r, y) \<leftarrow> session_select (the (sv_session some_server 0)) 0; session_last y }) (\<lambda>(r, y). 0 \<noteq> (1::int) \<longrightarrow> r = 0 \<and> s_curw y = Some 1)"
    by (rule last_window_goes_back [OF some_reachable, where s = 0]) (simp_all add: some_server_def Let_def)
  then show ?thesis by simp
qed

section \<open>Errors that are not handled\<close>

text \<open>
  C33: new-window with -k at the index of the only window of a session, where the program of the
  new window cannot be started: the command fails, and the session, which still exists, is left
  with no window and a null pointer as the current one.
\<close>

theorem new_window_failure_empties:
  assumes "reachable_server sv" "sv_session sv s = Some x" "s_windows x = [wl]"
  shows "runs (new_window s (wl_idx wl) True detached base None sv) (\<lambda>(r, sv').
    \<not> r \<and> session_alive s sv' \<and> (\<exists>y. sv_session sv' s = Some y \<and> s_windows y = [] \<and> s_curw y = None))"
proof -
  have so: "server_ok sv" by (rule reachable_server_ok [OF assms(1)])
  have i: "wl_idx wl \<in> idxs (s_windows x)" "0 \<le> wl_idx wl" "wl_idx wl \<noteq> -1" "wl_idx wl \<le> IDX_MAX" "s_curw x = Some (wl_idx wl)"
    using server_session [OF so assms(2)] assms(3) by (auto simp: sess_ok_def near_ok_def windows_ok_def)
  have s: "session_alive s sv" using server_alive [OF so] assms(2) by blast
  obtain c sv1 x1 where r: "make_room s (wl_idx wl) sv = Some (c, sv1)" "ready_to_add s x1 (wl_idx wl) sv1" "same_frame sv sv1"
    using make_room_ok [OF so assms(2) i(1)] by (auto simp: runs_iff)
  have y: "\<exists>y. sv_session sv1 s = Some y \<and> s_windows y = [] \<and> s_curw y = None"
    using r(1) assms(2,3) i(5) by (auto simp: make_room_def winlink_remove_def update_winlink_def rb_find_def bind_eq_Some_conv split: option.splits if_splits)
  then obtain y where y: "sv_session sv1 s = Some y" "s_windows y = []" "s_curw y = None" by blast
  have n: "session_new s (wl_idx wl) None sv1 = Some (None, sv1)"
    using y i(2) by (simp add: session_new_def winlink_add_def winlink_find_by_index_def rb_find_def winlink_remove_def set_session_def fun_upd_idem)
  have "session_alive s sv1" using s r(3) by (simp add: session_alive_def same_frame_def)
  then show ?thesis using r(1) y n i(2,3) assms(2,3)
    by (simp add: new_window_def winlink_find_by_index_def rb_find_def)
qed

lemma one_window: "reachable_server (the (run_commands [New_Session (Some ''1'') (-1) (Some 10)]))"
  "the (run_commands [New_Session (Some ''1'') (-1) (Some 10)]) = \<lparr>sv_session = [0 \<mapsto> \<lparr>s_name = ''1'', s_curw = Some 0, s_lastw = [],
    s_windows = [\<lparr>wl_idx = 0, wl_window = Some 10, wl_flags = 0\<rparr>]\<rparr>], sv_sessions = [0], sv_groups = [], sv_refs = [10 \<mapsto> 1], sv_next_session = 1\<rparr>"
proof -
  show e: "the (run_commands [New_Session (Some ''1'') (-1) (Some 10)]) = \<lparr>sv_session = [0 \<mapsto> \<lparr>s_name = ''1'', s_curw = Some 0, s_lastw = [],
    s_windows = [\<lparr>wl_idx = 0, wl_window = Some 10, wl_flags = 0\<rparr>]\<rparr>], sv_sessions = [0], sv_groups = [], sv_refs = [10 \<mapsto> 1], sv_next_session = 1\<rparr>"
    by (simp add: session_defs run_commands_def)
  have "run_commands [New_Session (Some ''1'') (-1) (Some 10)] \<noteq> None" by (simp add: session_defs run_commands_def)
  then show "reachable_server (the (run_commands [New_Session (Some ''1'') (-1) (Some 10)]))" using run_commands_reachable by force
qed

theorem new_window_failure_empties_witness:
  "runs (new_window 0 0 True False 0 None (the (run_commands [New_Session (Some ''1'') (-1) (Some 10)])))
    (\<lambda>(r, sv'). \<not> r \<and> session_alive 0 sv' \<and> (\<exists>y. sv_session sv' 0 = Some y \<and> s_windows y = [] \<and> s_curw y = None))"
  using new_window_failure_empties [OF one_window(1), of 0 _ "\<lparr>wl_idx = 0, wl_window = Some 10, wl_flags = 0\<rparr>" False 0] by (simp add: one_window(2))

text \<open>
  C34: A session without a name is called by its number. If a session has that name already, as
  one that was created with it, the new one is not inserted in the tree: session_create returns
  a session that does not exist.
\<close>

theorem unnamed_session_collides:
  assumes "reachable_server sv" "session_find (print_unsigned (sv_next_session sv)) sv \<noteq> None" "valid_index idx"
  shows "runs (session_create None (Some (Some w)) idx sv) (\<lambda>(r, sv'). r = Some (sv_next_session sv) \<and> \<not> session_alive (sv_next_session sv) sv')"
proof -
  let ?s = "sv_next_session sv"
  let ?x = "\<lparr>s_name = print_unsigned ?s, s_curw = None, s_lastw = [], s_windows = []\<rparr>"
  let ?u = "(set_session ?s ?x sv)\<lparr>sv_next_session := uadd ?s 1\<rparr>"
  have f: "alive_ok sv" "groups_ok sv" using reachable_server_ok [OF assms(1)] by (simp_all add: server_ok_def frame_ok_def)
  have sn: "?s \<notin> set (sv_sessions sv)" using f(1) by (auto simp: alive_ok_def)
  then have gs: "session_group_find ?s v = None" if "sv_groups v = sv_groups sv" for v
    using f(2) that by (auto simp: session_group_find_def find_None_iff groups_ok_def)
  have nm: "name_of ?u ?s = print_unsigned ?s" "\<forall>r\<in>set (sv_sessions sv). name_of ?u r = name_of sv r"
    using sn by (auto simp: name_of_def)
  then have "session_find (name_of ?u ?s) ?u \<noteq> None" using assms(2) by (auto simp: session_find_def find_None_iff)
  then have ins: "insert_session ?s ?u = ?u" by (simp add: insert_session_def)
  obtain r where r: "winlink_add [] idx = Some r" using winlink_add_runs [OF assms(3), of "[]"] by (auto simp: runs_iff)
  have "r \<noteq> None"
    using r assms(3) by (auto simp: winlink_add_def winlink_next_index_def next_index_loop.simps winlink_find_by_index_def rb_find_def valid_index_def split: if_splits)
  then obtain i where i: "winlink_add [] idx = Some (Some ([\<lparr>wl_idx = i, wl_window = None, wl_flags = 0\<rparr>], i))" "0 \<le> i"
    using r winlink_add_runs [OF assms(3), of "[]"] by auto
  show ?thesis using sn i gs ins
    by (simp add: session_create_def session_new_def winlink_set_window_def update_winlink_def session_group_synchronize_from_def
        rb_min_def select_in_def session_select_def winlink_find_by_index_def rb_find_def move_to_def session_alive_def Let_def)
qed

theorem unnamed_session_collides_witness:
  "runs (session_create None (Some (Some 20)) (-1) (the (run_commands [New_Session (Some ''1'') (-1) (Some 10)])))
    (\<lambda>(r, sv'). r = Some 1 \<and> \<not> session_alive 1 sv')"
proof -
  have "print_unsigned (Suc 0) = ''1''" by code_simp
  then show ?thesis using unnamed_session_collides [OF one_window(1), of "-1" 20]
    by (simp add: one_window(2) session_find_def name_of_def valid_index_def)
qed

end
