(* ===== verification/Environ.thy ===== *)
theory Environ
  imports C_Library "HOL-Library.List_Lexorder" "HOL-Library.Char_ord"
begin

text \<open>
  environ.c and cmd-set-environment.c: an environment is a tree of entries by name, here the
  list of its entries in order. An entry without a value is a variable that is to be removed
  from the environment of a program. It refines a map.
\<close>

section \<open>Operations\<close>

record environ_entry =
  ee_name :: string
  ee_value :: "string option"

type_synonym environ = "environ_entry list"

definition environ_find :: "environ \<Rightarrow> string \<Rightarrow> environ_entry option" where
  "environ_find env name = find (\<lambda>e. ee_name e = name) env"

definition environ_set :: "environ \<Rightarrow> string \<Rightarrow> string option \<Rightarrow> environ" where
  "environ_set env name v =
     (if environ_find env name \<noteq> None then map (\<lambda>e. if ee_name e = name then e\<lparr>ee_value := v\<rparr> else e) env
      else insort_key ee_name \<lparr>ee_name = name, ee_value = v\<rparr> env)"

definition environ_copy :: "environ \<Rightarrow> environ \<Rightarrow> environ" where
  "environ_copy srcenv dstenv = foldl (\<lambda>env e. environ_set env (ee_name e) (ee_value e)) dstenv srcenv"

definition environ_put :: "environ \<Rightarrow> string \<Rightarrow> environ" where
  "environ_put env var =
     (if CHR ''='' \<notin> set var then env
      else environ_set env (take (strcspn var ''='') var) (Some (drop (strcspn var ''='' + 1) var)))"

definition environ_unset :: "environ \<Rightarrow> string \<Rightarrow> environ" where
  "environ_unset env name = (if environ_find env name = None then env else filter (\<lambda>e. ee_name e \<noteq> name) env)"

text \<open>strsep with a space: every piece, the empty ones too.\<close>

fun strsep_all :: "string \<Rightarrow> string list" where
  "strsep_all [] = [[]]"
| "strsep_all (c # cs) =
     (if c = CHR '' '' then [] # strsep_all cs
      else (case strsep_all cs of [] \<Rightarrow> [[c]] | w # ws \<Rightarrow> (c # w) # ws))"

definition environ_update :: "string \<Rightarrow> environ \<Rightarrow> environ \<Rightarrow> environ" where
  "environ_update vars srcenv dstenv =
     foldl (\<lambda>env var. case environ_find srcenv var of
         None \<Rightarrow> environ_set env var None
       | Some e \<Rightarrow> environ_set env (ee_name e) (ee_value e))
       dstenv (strsep_all vars)"

text \<open>
  The environment of the process is a list of strings with a name, an equals sign and a value.
  unsetenv and setenv are those of the C library; they refuse a name that is empty or has an
  equals sign.
\<close>

definition bad_name :: "string \<Rightarrow> bool" where
  "bad_name name \<longleftrightarrow> name = [] \<or> CHR ''='' \<in> set name"

definition sets :: "string \<Rightarrow> string \<Rightarrow> bool" where
  "sets name v \<longleftrightarrow> take (length name + 1) v = name @ ''=''"

definition unsetenv :: "string \<Rightarrow> string list \<Rightarrow> string list" where
  "unsetenv name vs = (if bad_name name then vs else filter (\<lambda>v. \<not> sets name v) vs)"

definition setenv :: "string \<Rightarrow> string \<Rightarrow> string list \<Rightarrow> string list" where
  "setenv name v vs = (if bad_name name then vs else unsetenv name vs @ [name @ ''='' @ v])"

definition environ_push :: "environ \<Rightarrow> string list \<Rightarrow> string list" where
  "environ_push env process =
     (let varlist = map (\<lambda>v. take (strcspn v ''='') v) process;
          process = foldl (\<lambda>vs name. unsetenv name vs) process varlist in
      foldl (\<lambda>vs e. case ee_value e of None \<Rightarrow> vs | Some v \<Rightarrow> setenv (ee_name e) v vs) process env)"

text \<open>
  set-environment, on the environment that its flags choose. The second argument is looked
  for although there may be only one; then it is what lies behind the end of the vector, a
  parameter. The result is False for an error.
\<close>

definition set_environment :: "bool \<Rightarrow> bool \<Rightarrow> string list \<Rightarrow> string option \<Rightarrow> environ \<Rightarrow> bool \<times> environ" where
  "set_environment uflag rflag argv beyond env =
     (let name = hd argv; v = (if length argv < 2 then beyond else Some (argv ! 1)) in
      if name = [] then (False, env)
      else if CHR ''='' \<in> set name then (False, env)
      else if uflag then (if v \<noteq> None then (False, env) else (True, environ_unset env name))
      else if rflag then (if v \<noteq> None then (False, env) else (True, environ_set env name None))
      else (case v of None \<Rightarrow> (False, env) | Some v \<Rightarrow> (True, environ_set env name (Some v))))"

section \<open>Refinement of a map\<close>

definition environ_ok :: "environ \<Rightarrow> bool" where
  "environ_ok env \<longleftrightarrow> sorted (map ee_name env) \<and> distinct (map ee_name env)"

definition environ_map :: "environ \<Rightarrow> string \<Rightarrow> string option option" where
  "environ_map env name = map_option ee_value (environ_find env name)"

lemma environ_find_None: "environ_find env name = None \<longleftrightarrow> name \<notin> ee_name ` set env"
  by (auto simp: environ_find_def find_None_iff)

lemma environ_find_name: "environ_find env name = Some e \<Longrightarrow> ee_name e = name \<and> e \<in> set env"
  by (auto simp: environ_find_def find_Some_iff)

lemma find_map_set: "environ_map (map (\<lambda>e. if ee_name e = name then e\<lparr>ee_value := v\<rparr> else e) env) n =
    (if n = name \<and> name \<in> ee_name ` set env then Some v else environ_map env n)"
  by (induction env) (auto simp: environ_map_def environ_find_def)

lemma find_insort_entry:
  "ee_name x \<notin> ee_name ` set env \<Longrightarrow> environ_map (insort_key ee_name x env) n = (if n = ee_name x then Some (ee_value x) else environ_map env n)"
  by (induction env) (auto simp: environ_map_def environ_find_def)

lemma environ_map_set: "environ_map (environ_set env name v) = (environ_map env)(name \<mapsto> v)"
  using environ_find_None [of env name] by (auto simp: environ_set_def find_map_set find_insort_entry fun_eq_iff)

lemma map_name_set: "map ee_name (map (\<lambda>e. if ee_name e = name then e\<lparr>ee_value := v\<rparr> else e) env) = map ee_name env"
  by simp

lemma distinct_insort_entry: "ee_name x \<notin> ee_name ` set env \<Longrightarrow> distinct (map ee_name env) \<Longrightarrow> distinct (map ee_name (insort_key ee_name x env))"
  by (induction env) (auto simp: set_insort_key)

lemma environ_ok_set: "environ_ok env \<Longrightarrow> environ_ok (environ_set env name v)"
  unfolding environ_ok_def environ_set_def
  using distinct_insort_entry [of "\<lparr>ee_name = name, ee_value = v\<rparr>" env] environ_find_None [of env name]
  by (simp add: sorted_insort_key comp_def if_distrib cong: if_cong)

lemma foldl_set_ok: "environ_ok env \<Longrightarrow> (\<And>env x. environ_ok env \<Longrightarrow> environ_ok (f env x)) \<Longrightarrow> environ_ok (foldl f env xs)"
  by (induction xs arbitrary: env) auto

text \<open>The operations on an environment, and what they do to the map.\<close>

datatype environ_op =
    Set_Var string "string option"
  | Put_Var string
  | Unset_Var string
  | Copy_From environ
  | Update_From string environ

fun run_environ :: "environ_op \<Rightarrow> environ \<Rightarrow> environ" where
  "run_environ (Set_Var name v) env = environ_set env name v"
| "run_environ (Put_Var var) env = environ_put env var"
| "run_environ (Unset_Var name) env = environ_unset env name"
| "run_environ (Copy_From src) env = environ_copy src env"
| "run_environ (Update_From vars src) env = environ_update vars src env"

type_synonym var_map = "string \<Rightarrow> string option option"

fun spec_environ :: "environ_op \<Rightarrow> var_map \<Rightarrow> var_map" where
  "spec_environ (Set_Var name v) m = m(name \<mapsto> v)"
| "spec_environ (Put_Var var) m =
     (if CHR ''='' \<in> set var then m(takeWhile (\<lambda>c. c \<noteq> CHR ''='') var \<mapsto> Some (tl (dropWhile (\<lambda>c. c \<noteq> CHR ''='') var))) else m)"
| "spec_environ (Unset_Var name) m = m(name := None)"
| "spec_environ (Copy_From src) m = m ++ environ_map src"
| "spec_environ (Update_From vars src) m =
     (\<lambda>name. if name \<in> set (strsep_all vars) then Some (Option.bind (environ_map src name) id) else m name)"

lemma strcspn_split: "take (strcspn var r) var = takeWhile (\<lambda>c. c \<notin> set r) var \<and> drop (strcspn var r) var = dropWhile (\<lambda>c. c \<notin> set r) var"
  unfolding strcspn_def by (metis takeWhile_eq_take dropWhile_eq_drop)

lemma put_map: "environ_map (environ_put env var) = spec_environ (Put_Var var) (environ_map env)"
proof -
  have "drop (k + 1) var = tl (drop k var)" for k by (simp add: drop_Suc tl_drop)
  then have "drop (strcspn var ''='' + 1) var = tl (dropWhile (\<lambda>c. c \<noteq> CHR ''='') var)"
    using strcspn_split [of var "''=''"] by simp
  then show ?thesis using strcspn_split [of var "''=''"] by (simp add: environ_put_def environ_map_set)
qed

lemma unset_map: "environ_map (environ_unset env name) = (environ_map env)(name := None)"
proof -
  have "environ_map (filter (\<lambda>e. ee_name e \<noteq> name) env) = (environ_map env)(name := None)"
    by (induction env) (auto simp: environ_map_def environ_find_def fun_eq_iff)
  moreover have "(environ_map env)(name := None) = environ_map env" if "environ_find env name = None"
    using that by (simp add: environ_map_def fun_eq_iff)
  ultimately show ?thesis by (simp add: environ_unset_def)
qed

lemma copy_map:
  "distinct (map ee_name src) \<Longrightarrow> environ_map (environ_copy src dst) = environ_map dst ++ environ_map src"
proof (induction src arbitrary: dst)
  case (Cons e src)
  have "environ_map (environ_copy (e # src) dst) = (environ_map dst)(ee_name e \<mapsto> ee_value e) ++ environ_map src"
    using Cons by (simp add: environ_copy_def environ_map_set)
  also have "\<dots> = environ_map dst ++ environ_map (e # src)"
  proof
    fix n
    have "environ_map src n = None" if "n = ee_name e"
      using Cons.prems that environ_find_None [of src n] by (auto simp: environ_map_def)
    moreover have "environ_map (e # src) n = (if ee_name e = n then Some (ee_value e) else environ_map src n)"
      by (simp add: environ_map_def environ_find_def)
    ultimately show "((environ_map dst)(ee_name e \<mapsto> ee_value e) ++ environ_map src) n = (environ_map dst ++ environ_map (e # src)) n"
      by (auto simp: map_add_def split: option.split)
  qed
  finally show ?case .
qed (auto simp: environ_copy_def environ_map_def environ_find_def map_add_def)

lemma update_step:
  "environ_map (case environ_find src var of None \<Rightarrow> environ_set env var None | Some e \<Rightarrow> environ_set env (ee_name e) (ee_value e)) =
   (environ_map env)(var \<mapsto> Option.bind (environ_map src var) id)"
  using environ_find_name [of src var] by (auto simp: environ_map_set environ_map_def split: option.split)

lemma update_map: "environ_map (environ_update vars src dst) = spec_environ (Update_From vars src) (environ_map dst)"
proof -
  have "environ_map (foldl (\<lambda>env var. case environ_find src var of None \<Rightarrow> environ_set env var None | Some e \<Rightarrow> environ_set env (ee_name e) (ee_value e)) dst ws) =
    (\<lambda>name. if name \<in> set ws then Some (Option.bind (environ_map src name) id) else environ_map dst name)" for ws
    by (induction ws arbitrary: dst) (auto simp: update_step fun_eq_iff)
  then show ?thesis by (simp add: environ_update_def)
qed

lemma environ_ok_ops: "environ_ok env \<Longrightarrow> environ_ok (run_environ op env)"
proof (cases op)
  case (Unset_Var name)
  then show "environ_ok env \<Longrightarrow> ?thesis"
    by (auto simp: environ_unset_def environ_ok_def sorted_filter distinct_map_filter)
next
  case (Copy_From src)
  then show "environ_ok env \<Longrightarrow> ?thesis" by (simp add: environ_copy_def foldl_set_ok environ_ok_set)
next
  case (Update_From vars src)
  then show "environ_ok env \<Longrightarrow> ?thesis"
    by (simp add: environ_update_def) (rule foldl_set_ok, auto split: option.split simp: environ_ok_set)
qed (simp_all add: environ_put_def environ_ok_set)

definition op_ok :: "environ_op \<Rightarrow> bool" where
  "op_ok op \<longleftrightarrow> (case op of Copy_From src \<Rightarrow> environ_ok src | Update_From vars src \<Rightarrow> environ_ok src | _ \<Rightarrow> True)"

lemma environ_ops_map: "op_ok op \<Longrightarrow> environ_map (run_environ op env) = spec_environ op (environ_map env)"
proof (cases op)
  case (Put_Var var)
  then show ?thesis by (simp only: run_environ.simps put_map)
next
  case (Update_From vars src)
  then show ?thesis by (simp only: run_environ.simps update_map)
next
  case (Copy_From src)
  then show "op_ok op \<Longrightarrow> ?thesis" by (simp add: op_ok_def environ_ok_def copy_map)
qed (simp_all add: environ_map_set unset_map)

section \<open>The environment of a program\<close>

definition getenv :: "string \<Rightarrow> string list \<Rightarrow> string option" where
  "getenv name vs = map_option (drop (length name + 1)) (find (sets name) vs)"

lemma sets_split:
  assumes "sets n v"
  shows "v = n @ CHR ''='' # drop (length n + 1) v"
proof -
  have "take (length n + 1) v @ drop (length n + 1) v = v" by (rule append_take_drop_id)
  then show ?thesis using assms unfolding sets_def by (metis append.assoc append_Cons append_Nil)
qed

lemma names_differ:
  assumes "\<not> bad_name n" "\<not> bad_name m" "sets n v" "sets m v"
  shows "n = m"
proof -
  have "takeWhile (\<lambda>c. c \<noteq> CHR ''='') v = k" if "\<not> bad_name k" "sets k v" for k
  proof -
    note v = sets_split [OF that(2)]
    have "takeWhile (\<lambda>c. c \<noteq> CHR ''='') k = k" using that(1) by (auto simp: takeWhile_eq_all_conv bad_name_def)
    then show ?thesis by (subst v) (simp add: takeWhile_tail)
  qed
  then show ?thesis using assms by metis
qed

lemma getenv_unsetenv: "\<not> bad_name n \<Longrightarrow> getenv n (unsetenv m vs) = (if n = m then None else getenv n vs)"
proof -
  assume n: "\<not> bad_name n"
  have "find (sets n) (filter (\<lambda>v. \<not> sets m v) vs) = (if n = m then None else find (sets n) vs)" if "\<not> bad_name m"
    using names_differ [OF n that] by (induction vs) (auto simp: find_None_iff)
  moreover have "n \<noteq> m" if "bad_name m" using n that by auto
  ultimately show ?thesis unfolding getenv_def unsetenv_def by auto
qed

lemma find_append_none: "find P xs = None \<Longrightarrow> find P (xs @ ys) = find P ys"
  by (induction xs) (auto split: if_splits)

lemma find_append_some: "find P xs = Some x \<Longrightarrow> find P (xs @ ys) = Some x"
  by (induction xs) (auto split: if_splits)

lemma getenv_setenv: "\<not> bad_name n \<Longrightarrow> getenv n (setenv m v vs) = (if n = m then Some v else getenv n vs)"
proof -
  assume n: "\<not> bad_name n"
  show ?thesis
  proof (cases "bad_name m")
    case True
    then show ?thesis using n by (auto simp: setenv_def)
  next
    case False
    let ?e = "m @ ''='' @ v"
    have a: "getenv n (xs @ [?e]) = (case getenv n xs of None \<Rightarrow> if n = m then Some v else None | Some x \<Rightarrow> Some x)" for xs
    proof (cases "find (sets n) xs")
      case None
      have "sets m ?e" by (simp add: sets_def)
      then have "sets n ?e = (n = m)" using names_differ [OF n False] by blast
      then show ?thesis using find_append_none [OF None, of "[?e]"] None by (simp add: getenv_def)
    next
      case (Some x)
      then show ?thesis using find_append_some [OF Some, of "[?e]"] by (simp add: getenv_def)
    qed
    show ?thesis using False a [of "unsetenv m vs"] getenv_unsetenv [OF n, of m vs] by (auto simp: setenv_def split: option.splits)
  qed
qed

lemma getenv_unset_all: "\<not> bad_name n \<Longrightarrow> getenv n (foldl (\<lambda>vs name. unsetenv name vs) vs ns) = (if n \<in> set ns then None else getenv n vs)"
  by (induction ns arbitrary: vs) (auto simp: getenv_unsetenv)

lemma getenv_name:
  assumes "\<not> bad_name n" "getenv n vs = Some x"
  shows "n \<in> set (map (\<lambda>v. take (strcspn v ''='') v) vs)"
proof -
  obtain v where v: "v \<in> set vs" "sets n v" using assms(2) nth_mem by (force simp: getenv_def find_Some_iff)
  have "takeWhile (\<lambda>c. c \<noteq> CHR ''='') v = takeWhile (\<lambda>c. c \<noteq> CHR ''='') n" by (subst sets_split [OF v(2)]) (simp add: takeWhile_tail)
  also have "\<dots> = n" using assms(1) by (auto simp: takeWhile_eq_all_conv bad_name_def)
  finally have "take (strcspn v ''='') v = n" using strcspn_split [of v "''=''"] by simp
  then show ?thesis using v(1) by force
qed

lemma push_getenv:
  assumes "\<not> bad_name n" "distinct (map ee_name env)"
  shows "getenv n (environ_push env process) = Option.bind (environ_map env n) id"
proof -
  have clear: "getenv n (foldl (\<lambda>vs name. unsetenv name vs) process (map (\<lambda>v. take (strcspn v ''='') v) process)) = None"
    using getenv_unset_all [OF assms(1)] getenv_name [OF assms(1)] by (metis (no_types, lifting) not_Some_eq)
  have "getenv n (foldl (\<lambda>vs e. case ee_value e of None \<Rightarrow> vs | Some v \<Rightarrow> setenv (ee_name e) v vs) vs env) =
      (case environ_map env n of Some (Some v) \<Rightarrow> Some v | _ \<Rightarrow> getenv n vs)" for vs
    using assms(2)
  proof (induction env arbitrary: vs)
    case (Cons e env)
    have "environ_map env n = None" if "n = ee_name e" using that Cons.prems environ_find_None [of env n] by (auto simp: environ_map_def)
    moreover have "environ_map (e # env) n = (if ee_name e = n then Some (ee_value e) else environ_map env n)"
      by (simp add: environ_map_def environ_find_def)
    ultimately show ?case using Cons getenv_setenv [OF assms(1)] by (auto split: option.splits)
  qed (simp add: environ_map_def environ_find_def)
  then show ?thesis using clear by (auto simp: environ_push_def split: option.split)
qed

section \<open>Properties\<close>

text \<open>
  C19: An environment implements a map from names to values: setting, putting, unsetting,
  copying and updating do to the map what they say, whatever the order in the tree.
\<close>

theorem environ_refines_map:
  "op_ok op \<Longrightarrow> environ_map (run_environ op env) = spec_environ op (environ_map env)"
  by (rule environ_ops_map)

theorem environ_refines_map_witness:
  "environ_map (run_environ (Update_From ''HOME DISPLAY'' [\<lparr>ee_name = ''HOME'', ee_value = Some ''/root''\<rparr>]) []) ''DISPLAY'' = Some None"
proof -
  have "op_ok (Update_From ''HOME DISPLAY'' [\<lparr>ee_name = ''HOME'', ee_value = Some ''/root''\<rparr>])" by (simp add: op_ok_def environ_ok_def)
  from environ_refines_map [OF this] show ?thesis by (simp add: environ_map_def environ_find_def)
qed

text \<open>
  C35: A program is started with the variables of its environment that have a value, and with
  no others, whatever the environment of the server was.
\<close>

theorem environ_push_exactly:
  assumes "environ_ok env" "name \<noteq> []" "CHR ''='' \<notin> set name"
  shows "getenv name (environ_push env process) = Option.bind (environ_map env name) id"
  using assms push_getenv by (simp add: bad_name_def environ_ok_def)

theorem environ_push_exactly_witness:
  "getenv ''A'' (environ_push [\<lparr>ee_name = ''A'', ee_value = None\<rparr>, \<lparr>ee_name = ''B'', ee_value = Some ''1''\<rparr>] [''A=x'', ''C=y'']) = None"
proof -
  have "environ_ok [\<lparr>ee_name = ''A'', ee_value = None\<rparr>, \<lparr>ee_name = ''B'', ee_value = Some ''1''\<rparr>]" by (simp add: environ_ok_def)
  from environ_push_exactly [OF this, of "''A''"] show ?thesis by (simp add: environ_map_def environ_find_def)
qed

end
