(* ===== verification/Arguments.thy ===== *)
theory Arguments
  imports C_Library
begin

text \<open>
  arguments.c with compat/getopt.c: the flags, the values of flags and the arguments of a
  command, parsed from a vector of strings by a template and printed as text.
\<close>

section \<open>getopt\<close>

text \<open>
  The state between calls is the rest of the argument that is scanned (place) and the vector
  from optind on; optreset empties place. The result is -1 with the vector that is left, a
  letter that is not in the template or has no argument, or a letter with its argument.
\<close>

datatype getopt_result =
    Getopt_End "string list"
  | Getopt_Bad
  | Getopt_Option char "string option" string "string list"

definition after_letter :: "string \<Rightarrow> string list \<Rightarrow> string list" where
  "after_letter place argv = (if place = [] then tl argv else argv)"

definition getopt_letter :: "string \<Rightarrow> char \<Rightarrow> string \<Rightarrow> string list \<Rightarrow> getopt_result" where
  "getopt_letter ostr optopt place argv =
     (case dropWhile (\<lambda>c. c \<noteq> optopt) ostr of
        [] \<Rightarrow> if optopt = CHR ''-'' then Getopt_End argv else Getopt_Bad
      | _ # oli \<Rightarrow>
          if optopt = CHR '':'' then Getopt_Bad
          else if oli = [] \<or> hd oli \<noteq> CHR '':'' then Getopt_Option optopt None place (after_letter place argv)
          else if place \<noteq> [] then Getopt_Option optopt (Some place) [] (tl argv)
          else (case tl argv of [] \<Rightarrow> Getopt_Bad | optarg # r \<Rightarrow> Getopt_Option optopt (Some optarg) [] r))"

definition getopt :: "string \<Rightarrow> string \<Rightarrow> string list \<Rightarrow> getopt_result" where
  "getopt ostr place argv =
     (if place \<noteq> [] then getopt_letter ostr (hd place) (tl place) argv
      else (case argv of
         [] \<Rightarrow> Getopt_End argv
       | a # r \<Rightarrow>
           if a = [] \<or> hd a \<noteq> CHR ''-'' then Getopt_End argv
           else if tl a = [] then getopt_letter ostr (CHR ''-'') [] argv
           else if hd (tl a) = CHR ''-'' then Getopt_End r
           else getopt_letter ostr (hd (tl a)) (tl (tl a)) argv))"

section \<open>Argument sets\<close>

record args =
  a_flags :: "char \<Rightarrow> bool"
  a_values :: "char \<Rightarrow> string option"
  a_argv :: "string list"

abbreviation SCHAR_MAX :: nat where "SCHAR_MAX \<equiv> 127"

definition args_create :: "string list \<Rightarrow> args" where
  "args_create argv = \<lparr>a_flags = (\<lambda>_. False), a_values = (\<lambda>_. None), a_argv = argv\<rparr>"

definition args_has :: "args \<Rightarrow> char \<Rightarrow> bool" where
  "args_has args ch = a_flags args ch"

definition args_get :: "args \<Rightarrow> char \<Rightarrow> string option" where
  "args_get args ch = a_values args ch"

definition args_set :: "args \<Rightarrow> char \<Rightarrow> string option \<Rightarrow> args" where
  "args_set args ch v = args\<lparr>a_values := (a_values args)(ch := v), a_flags := (a_flags args)(ch := True)\<rparr>"

text \<open>Whether the letter has a colon after it in the template.\<close>

definition takes_value :: "string \<Rightarrow> char \<Rightarrow> bool" where
  "takes_value ostr ch = (case dropWhile (\<lambda>c. c \<noteq> ch) ostr of _ # oli \<Rightarrow> oli \<noteq> [] \<and> hd oli = CHR '':'' | [] \<Rightarrow> False)"

text \<open>The characters beyond the first 127 are negative and go by.\<close>

lemma getopt_shorter:
  "getopt ostr place argv = Getopt_Option c v place' argv' \<Longrightarrow>
    length argv' < length argv \<or> argv' = argv \<and> (argv = [] \<and> length place' < length place \<or>
      place' \<noteq> [] \<and> (place = [] \<or> length place' < length place))"
  by (cases argv) (auto simp: getopt_def getopt_letter_def after_letter_def split: if_splits list.splits)

lemma getopt_nothing:
  "getopt ostr place [] = Getopt_Option c v place' argv' \<Longrightarrow> argv' = [] \<and> length place' < length place"
  using getopt_shorter [of ostr place "[]" c v place' argv']
  by (cases place) (auto simp: getopt_def getopt_letter_def after_letter_def split: if_splits list.splits)

function args_parse_loop :: "string \<Rightarrow> string \<Rightarrow> string list \<Rightarrow> args \<Rightarrow> args option" where
  "args_parse_loop template place argv args =
     (case getopt template place argv of
        Getopt_End rest \<Rightarrow> Some (args\<lparr>a_argv := rest\<rparr>)
      | Getopt_Bad \<Rightarrow> None
      | Getopt_Option opt optarg place' argv' \<Rightarrow>
          if SCHAR_MAX \<le> char_code opt then args_parse_loop template place' argv' args
          else if opt = CHR ''?'' \<or> opt \<notin> set template then None
          else args_parse_loop template place' argv'
            (let args = args\<lparr>a_flags := (a_flags args)(opt := True)\<rparr> in
             if takes_value template opt then args\<lparr>a_values := (a_values args)(opt := optarg)\<rparr> else args))"
  by pat_completeness auto
termination
  by (relation "measures [\<lambda>(t, place, argv, a). length argv, \<lambda>(t, place, argv, a). if place = [] \<and> argv \<noteq> [] then 1 else 0, \<lambda>(t, place, argv, a). length place]")
    (auto dest: getopt_shorter getopt_nothing)

declare args_parse_loop.simps [simp del]

definition args_parse :: "string \<Rightarrow> string list \<Rightarrow> args option" where
  "args_parse template argv = args_parse_loop template [] (tl argv) (args_create [])"

section \<open>Printing\<close>

text \<open>
  A buffer of len bytes is the string in it; off is the position the source goes on from, which
  snprintf moves by the whole length of the text even if the text is cut.
\<close>

definition print_to :: "nat \<Rightarrow> string \<Rightarrow> string \<times> nat \<Rightarrow> string \<times> nat" where
  "print_to len t = (\<lambda>(buf, off). (buf @ take (len - off - 1) t, off + length t))"

definition quoted :: "string \<Rightarrow> string" where
  "quoted v = (if CHR '' '' \<in> set v then CHR ''\"'' # v @ [CHR ''\"''] else v)"

text \<open>Some of the final position, or Left of a return within the loop.\<close>

fun print_flags :: "nat \<Rightarrow> char list \<Rightarrow> string \<times> nat \<Rightarrow> (string \<times> nat) + (string \<times> nat)" where
  "print_flags len [] b = Inr b"
| "print_flags len (c # cs) (buf, off) =
     (if off = len - 1 then Inl (buf, len) else print_flags len cs (buf @ [c], off + 1))"

fun print_texts :: "nat \<Rightarrow> string list \<Rightarrow> string \<times> nat \<Rightarrow> (string \<times> nat) + (string \<times> nat)" where
  "print_texts len [] b = Inr b"
| "print_texts len (t # ts) (buf, off) =
     (if len \<le> off then Inl (buf, len)
      else print_texts len ts (print_to len ((if off \<noteq> 0 then '' '' else []) @ t) (buf, off)))"

definition flag_letters :: "args \<Rightarrow> char list" where
  "flag_letters args = filter (\<lambda>c. a_flags args c \<and> a_values args c = None) (map char_of [0..<SCHAR_MAX])"

definition value_texts :: "args \<Rightarrow> string list" where
  "value_texts args = map (\<lambda>c. [CHR ''-'', c, CHR '' ''] @ quoted (the (a_values args c)))
     (filter (\<lambda>c. a_flags args c \<and> a_values args c \<noteq> None) (map char_of [0..<SCHAR_MAX]))"

definition args_print :: "args \<Rightarrow> nat \<Rightarrow> string \<times> nat" where
  "args_print args len =
     (if len = 0 then ([], 0)
      else (case print_flags len (flag_letters args) ([CHR ''-''], 1) of
          Inl r \<Rightarrow> r
        | Inr (buf, off) \<Rightarrow>
            (case print_texts len (value_texts args) (if off = 1 then ([], 0) else (buf, off)) of
               Inl r \<Rightarrow> r
             | Inr b \<Rightarrow> (case print_texts len (map quoted (a_argv args)) b of Inl r \<Rightarrow> r | Inr b \<Rightarrow> b))))"

text \<open>Some None is an error with a cause; None is a null pointer given to strtonum.\<close>

definition args_strtonum :: "args \<Rightarrow> char \<Rightarrow> int \<Rightarrow> int \<Rightarrow> int option option" where
  "args_strtonum args ch minval maxval =
     (if \<not> args_has args ch then Some None
      else map_option (\<lambda>v. strtonum v minval maxval) (args_get args ch))"

end
