(* ===== verification/Cmd_Table.thy ===== *)
theory Cmd_Table
  imports Arguments
begin

text \<open>
  The table of commands of cmd.c with the entries of the cmd-*.c files: names, aliases,
  templates of flags, and how many arguments a command takes (-1 is no limit). The usage texts
  are left out, and the functions of an entry but its check of the arguments.
\<close>

datatype cmd_check = No_Check | Bind_Key_Check | New_Session_Check | Unbind_Key_Check

record cmd_entry =
  ce_name :: string
  ce_alias :: "string option"
  ce_template :: string
  ce_lower :: int
  ce_upper :: int
  ce_flags :: nat
  ce_check :: cmd_check

definition cmd_bind_key_check :: "args \<Rightarrow> bool" where
  "cmd_bind_key_check args \<longleftrightarrow> (if args_has args (CHR ''t'') then length (a_argv args) = 2 else 2 \<le> length (a_argv args))"

definition cmd_new_session_check :: "args \<Rightarrow> bool" where
  "cmd_new_session_check args \<longleftrightarrow> \<not> (args_has args (CHR ''t'') \<and> (a_argv args \<noteq> [] \<or> args_has args (CHR ''n'')))"

definition cmd_unbind_key_check :: "args \<Rightarrow> bool" where
  "cmd_unbind_key_check args \<longleftrightarrow> 
     \<not> (args_has args (CHR ''a'') \<and> (a_argv args \<noteq> [] \<or> args_has args (CHR ''t''))) \<and>
     (args_has args (CHR ''a'') \<or> length (a_argv args) = 1)"

definition entry_check :: "cmd_check \<Rightarrow> args \<Rightarrow> bool" where
  "entry_check check args = (case check of No_Check \<Rightarrow> True | Bind_Key_Check \<Rightarrow> cmd_bind_key_check args
     | New_Session_Check \<Rightarrow> cmd_new_session_check args | Unbind_Key_Check \<Rightarrow> cmd_unbind_key_check args)"

section \<open>Entries\<close>

definition cmd_attach_session_entry :: cmd_entry where
  "cmd_attach_session_entry = \<lparr>ce_name = ''attach-session'', ce_alias = Some ''attach'', ce_template = ''drt:'',
     ce_lower = 0, ce_upper = 0, ce_flags = 7, ce_check = No_Check\<rparr>"

definition cmd_bind_key_entry :: cmd_entry where
  "cmd_bind_key_entry = \<lparr>ce_name = ''bind-key'', ce_alias = Some ''bind'', ce_template = ''cnrt:'',
     ce_lower = 1, ce_upper = -1, ce_flags = 0, ce_check = Bind_Key_Check\<rparr>"

definition cmd_break_pane_entry :: cmd_entry where
  "cmd_break_pane_entry = \<lparr>ce_name = ''break-pane'', ce_alias = Some ''breakp'', ce_template = ''dt:'',
     ce_lower = 0, ce_upper = 0, ce_flags = 0, ce_check = No_Check\<rparr>"

definition cmd_capture_pane_entry :: cmd_entry where
  "cmd_capture_pane_entry = \<lparr>ce_name = ''capture-pane'', ce_alias = Some ''capturep'', ce_template = ''b:E:S:t:'',
     ce_lower = 0, ce_upper = 0, ce_flags = 0, ce_check = No_Check\<rparr>"

definition cmd_choose_buffer_entry :: cmd_entry where
  "cmd_choose_buffer_entry = \<lparr>ce_name = ''choose-buffer'', ce_alias = None, ce_template = ''t:'',
     ce_lower = 0, ce_upper = 1, ce_flags = 0, ce_check = No_Check\<rparr>"

definition cmd_choose_client_entry :: cmd_entry where
  "cmd_choose_client_entry = \<lparr>ce_name = ''choose-client'', ce_alias = None, ce_template = ''t:'',
     ce_lower = 0, ce_upper = 1, ce_flags = 0, ce_check = No_Check\<rparr>"

definition cmd_choose_session_entry :: cmd_entry where
  "cmd_choose_session_entry = \<lparr>ce_name = ''choose-session'', ce_alias = None, ce_template = ''t:'',
     ce_lower = 0, ce_upper = 1, ce_flags = 0, ce_check = No_Check\<rparr>"

definition cmd_choose_window_entry :: cmd_entry where
  "cmd_choose_window_entry = \<lparr>ce_name = ''choose-window'', ce_alias = None, ce_template = ''t:'',
     ce_lower = 0, ce_upper = 1, ce_flags = 0, ce_check = No_Check\<rparr>"

definition cmd_clear_history_entry :: cmd_entry where
  "cmd_clear_history_entry = \<lparr>ce_name = ''clear-history'', ce_alias = Some ''clearhist'', ce_template = ''t:'',
     ce_lower = 0, ce_upper = 0, ce_flags = 0, ce_check = No_Check\<rparr>"

definition cmd_clock_mode_entry :: cmd_entry where
  "cmd_clock_mode_entry = \<lparr>ce_name = ''clock-mode'', ce_alias = None, ce_template = ''t:'',
     ce_lower = 0, ce_upper = 0, ce_flags = 0, ce_check = No_Check\<rparr>"

definition cmd_command_prompt_entry :: cmd_entry where
  "cmd_command_prompt_entry = \<lparr>ce_name = ''command-prompt'', ce_alias = None, ce_template = ''p:t:'',
     ce_lower = 0, ce_upper = 1, ce_flags = 0, ce_check = No_Check\<rparr>"

definition cmd_confirm_before_entry :: cmd_entry where
  "cmd_confirm_before_entry = \<lparr>ce_name = ''confirm-before'', ce_alias = Some ''confirm'', ce_template = ''t:'',
     ce_lower = 1, ce_upper = 1, ce_flags = 0, ce_check = No_Check\<rparr>"

definition cmd_copy_mode_entry :: cmd_entry where
  "cmd_copy_mode_entry = \<lparr>ce_name = ''copy-mode'', ce_alias = None, ce_template = ''t:u'',
     ce_lower = 0, ce_upper = 0, ce_flags = 0, ce_check = No_Check\<rparr>"

definition cmd_delete_buffer_entry :: cmd_entry where
  "cmd_delete_buffer_entry = \<lparr>ce_name = ''delete-buffer'', ce_alias = Some ''deleteb'', ce_template = ''b:'',
     ce_lower = 0, ce_upper = 0, ce_flags = 0, ce_check = No_Check\<rparr>"

definition cmd_detach_client_entry :: cmd_entry where
  "cmd_detach_client_entry = \<lparr>ce_name = ''detach-client'', ce_alias = Some ''detach'', ce_template = ''s:t:P'',
     ce_lower = 0, ce_upper = 0, ce_flags = 8, ce_check = No_Check\<rparr>"

definition cmd_display_message_entry :: cmd_entry where
  "cmd_display_message_entry = \<lparr>ce_name = ''display-message'', ce_alias = Some ''display'', ce_template = ''c:pt:'',
     ce_lower = 0, ce_upper = 1, ce_flags = 0, ce_check = No_Check\<rparr>"

definition cmd_display_panes_entry :: cmd_entry where
  "cmd_display_panes_entry = \<lparr>ce_name = ''display-panes'', ce_alias = Some ''displayp'', ce_template = ''t:'',
     ce_lower = 0, ce_upper = 0, ce_flags = 0, ce_check = No_Check\<rparr>"

definition cmd_find_window_entry :: cmd_entry where
  "cmd_find_window_entry = \<lparr>ce_name = ''find-window'', ce_alias = Some ''findw'', ce_template = ''t:'',
     ce_lower = 1, ce_upper = 1, ce_flags = 0, ce_check = No_Check\<rparr>"

definition cmd_has_session_entry :: cmd_entry where
  "cmd_has_session_entry = \<lparr>ce_name = ''has-session'', ce_alias = Some ''has'', ce_template = ''t:'',
     ce_lower = 0, ce_upper = 0, ce_flags = 0, ce_check = No_Check\<rparr>"

definition cmd_if_shell_entry :: cmd_entry where
  "cmd_if_shell_entry = \<lparr>ce_name = ''if-shell'', ce_alias = Some ''if'', ce_template = '''',
     ce_lower = 2, ce_upper = 2, ce_flags = 0, ce_check = No_Check\<rparr>"

definition cmd_join_pane_entry :: cmd_entry where
  "cmd_join_pane_entry = \<lparr>ce_name = ''join-pane'', ce_alias = Some ''joinp'', ce_template = ''dhvp:l:s:t:'',
     ce_lower = 0, ce_upper = 0, ce_flags = 0, ce_check = No_Check\<rparr>"

definition cmd_kill_pane_entry :: cmd_entry where
  "cmd_kill_pane_entry = \<lparr>ce_name = ''kill-pane'', ce_alias = Some ''killp'', ce_template = ''at:'',
     ce_lower = 0, ce_upper = 0, ce_flags = 0, ce_check = No_Check\<rparr>"

definition cmd_kill_server_entry :: cmd_entry where
  "cmd_kill_server_entry = \<lparr>ce_name = ''kill-server'', ce_alias = None, ce_template = '''',
     ce_lower = 0, ce_upper = 0, ce_flags = 0, ce_check = No_Check\<rparr>"

definition cmd_kill_session_entry :: cmd_entry where
  "cmd_kill_session_entry = \<lparr>ce_name = ''kill-session'', ce_alias = None, ce_template = ''t:'',
     ce_lower = 0, ce_upper = 0, ce_flags = 0, ce_check = No_Check\<rparr>"

definition cmd_kill_window_entry :: cmd_entry where
  "cmd_kill_window_entry = \<lparr>ce_name = ''kill-window'', ce_alias = Some ''killw'', ce_template = ''t:'',
     ce_lower = 0, ce_upper = 0, ce_flags = 0, ce_check = No_Check\<rparr>"

definition cmd_last_pane_entry :: cmd_entry where
  "cmd_last_pane_entry = \<lparr>ce_name = ''last-pane'', ce_alias = Some ''lastp'', ce_template = ''t:'',
     ce_lower = 0, ce_upper = 0, ce_flags = 0, ce_check = No_Check\<rparr>"

definition cmd_last_window_entry :: cmd_entry where
  "cmd_last_window_entry = \<lparr>ce_name = ''last-window'', ce_alias = Some ''last'', ce_template = ''t:'',
     ce_lower = 0, ce_upper = 0, ce_flags = 0, ce_check = No_Check\<rparr>"

definition cmd_link_window_entry :: cmd_entry where
  "cmd_link_window_entry = \<lparr>ce_name = ''link-window'', ce_alias = Some ''linkw'', ce_template = ''dks:t:'',
     ce_lower = 0, ce_upper = 0, ce_flags = 0, ce_check = No_Check\<rparr>"

definition cmd_list_buffers_entry :: cmd_entry where
  "cmd_list_buffers_entry = \<lparr>ce_name = ''list-buffers'', ce_alias = Some ''lsb'', ce_template = '''',
     ce_lower = 0, ce_upper = 0, ce_flags = 0, ce_check = No_Check\<rparr>"

definition cmd_list_clients_entry :: cmd_entry where
  "cmd_list_clients_entry = \<lparr>ce_name = ''list-clients'', ce_alias = Some ''lsc'', ce_template = ''t:'',
     ce_lower = 0, ce_upper = 0, ce_flags = 0, ce_check = No_Check\<rparr>"

definition cmd_list_commands_entry :: cmd_entry where
  "cmd_list_commands_entry = \<lparr>ce_name = ''list-commands'', ce_alias = Some ''lscm'', ce_template = '''',
     ce_lower = 0, ce_upper = 0, ce_flags = 0, ce_check = No_Check\<rparr>"

definition cmd_list_keys_entry :: cmd_entry where
  "cmd_list_keys_entry = \<lparr>ce_name = ''list-keys'', ce_alias = Some ''lsk'', ce_template = ''t:'',
     ce_lower = 0, ce_upper = 0, ce_flags = 0, ce_check = No_Check\<rparr>"

definition cmd_list_panes_entry :: cmd_entry where
  "cmd_list_panes_entry = \<lparr>ce_name = ''list-panes'', ce_alias = Some ''lsp'', ce_template = ''ast:'',
     ce_lower = 0, ce_upper = 0, ce_flags = 0, ce_check = No_Check\<rparr>"

definition cmd_list_sessions_entry :: cmd_entry where
  "cmd_list_sessions_entry = \<lparr>ce_name = ''list-sessions'', ce_alias = Some ''ls'', ce_template = '''',
     ce_lower = 0, ce_upper = 0, ce_flags = 0, ce_check = No_Check\<rparr>"

definition cmd_list_windows_entry :: cmd_entry where
  "cmd_list_windows_entry = \<lparr>ce_name = ''list-windows'', ce_alias = Some ''lsw'', ce_template = ''at:'',
     ce_lower = 0, ce_upper = 0, ce_flags = 0, ce_check = No_Check\<rparr>"

definition cmd_load_buffer_entry :: cmd_entry where
  "cmd_load_buffer_entry = \<lparr>ce_name = ''load-buffer'', ce_alias = Some ''loadb'', ce_template = ''b:'',
     ce_lower = 1, ce_upper = 1, ce_flags = 0, ce_check = No_Check\<rparr>"

definition cmd_lock_client_entry :: cmd_entry where
  "cmd_lock_client_entry = \<lparr>ce_name = ''lock-client'', ce_alias = Some ''lockc'', ce_template = ''t:'',
     ce_lower = 0, ce_upper = 0, ce_flags = 0, ce_check = No_Check\<rparr>"

definition cmd_lock_server_entry :: cmd_entry where
  "cmd_lock_server_entry = \<lparr>ce_name = ''lock-server'', ce_alias = Some ''lock'', ce_template = '''',
     ce_lower = 0, ce_upper = 0, ce_flags = 0, ce_check = No_Check\<rparr>"

definition cmd_lock_session_entry :: cmd_entry where
  "cmd_lock_session_entry = \<lparr>ce_name = ''lock-session'', ce_alias = Some ''locks'', ce_template = ''t:'',
     ce_lower = 0, ce_upper = 0, ce_flags = 0, ce_check = No_Check\<rparr>"

definition cmd_move_window_entry :: cmd_entry where
  "cmd_move_window_entry = \<lparr>ce_name = ''move-window'', ce_alias = Some ''movew'', ce_template = ''dks:t:'',
     ce_lower = 0, ce_upper = 0, ce_flags = 0, ce_check = No_Check\<rparr>"

definition cmd_new_session_entry :: cmd_entry where
  "cmd_new_session_entry = \<lparr>ce_name = ''new-session'', ce_alias = Some ''new'', ce_template = ''dn:s:t:x:y:'',
     ce_lower = 0, ce_upper = 1, ce_flags = 7, ce_check = New_Session_Check\<rparr>"

definition cmd_new_window_entry :: cmd_entry where
  "cmd_new_window_entry = \<lparr>ce_name = ''new-window'', ce_alias = Some ''neww'', ce_template = ''adkn:Pt:'',
     ce_lower = 0, ce_upper = 1, ce_flags = 0, ce_check = No_Check\<rparr>"

definition cmd_next_layout_entry :: cmd_entry where
  "cmd_next_layout_entry = \<lparr>ce_name = ''next-layout'', ce_alias = Some ''nextl'', ce_template = ''t:'',
     ce_lower = 0, ce_upper = 0, ce_flags = 0, ce_check = No_Check\<rparr>"

definition cmd_next_window_entry :: cmd_entry where
  "cmd_next_window_entry = \<lparr>ce_name = ''next-window'', ce_alias = Some ''next'', ce_template = ''at:'',
     ce_lower = 0, ce_upper = 0, ce_flags = 0, ce_check = No_Check\<rparr>"

definition cmd_paste_buffer_entry :: cmd_entry where
  "cmd_paste_buffer_entry = \<lparr>ce_name = ''paste-buffer'', ce_alias = Some ''pasteb'', ce_template = ''db:rs:t:'',
     ce_lower = 0, ce_upper = 0, ce_flags = 0, ce_check = No_Check\<rparr>"

definition cmd_pipe_pane_entry :: cmd_entry where
  "cmd_pipe_pane_entry = \<lparr>ce_name = ''pipe-pane'', ce_alias = Some ''pipep'', ce_template = ''ot:'',
     ce_lower = 0, ce_upper = 1, ce_flags = 0, ce_check = No_Check\<rparr>"

definition cmd_previous_layout_entry :: cmd_entry where
  "cmd_previous_layout_entry = \<lparr>ce_name = ''previous-layout'', ce_alias = Some ''prevl'', ce_template = ''t:'',
     ce_lower = 0, ce_upper = 0, ce_flags = 0, ce_check = No_Check\<rparr>"

definition cmd_previous_window_entry :: cmd_entry where
  "cmd_previous_window_entry = \<lparr>ce_name = ''previous-window'', ce_alias = Some ''prev'', ce_template = ''at:'',
     ce_lower = 0, ce_upper = 0, ce_flags = 0, ce_check = No_Check\<rparr>"

definition cmd_refresh_client_entry :: cmd_entry where
  "cmd_refresh_client_entry = \<lparr>ce_name = ''refresh-client'', ce_alias = Some ''refresh'', ce_template = ''t:'',
     ce_lower = 0, ce_upper = 0, ce_flags = 0, ce_check = No_Check\<rparr>"

definition cmd_rename_session_entry :: cmd_entry where
  "cmd_rename_session_entry = \<lparr>ce_name = ''rename-session'', ce_alias = Some ''rename'', ce_template = ''t:'',
     ce_lower = 1, ce_upper = 1, ce_flags = 0, ce_check = No_Check\<rparr>"

definition cmd_rename_window_entry :: cmd_entry where
  "cmd_rename_window_entry = \<lparr>ce_name = ''rename-window'', ce_alias = Some ''renamew'', ce_template = ''t:'',
     ce_lower = 1, ce_upper = 1, ce_flags = 0, ce_check = No_Check\<rparr>"

definition cmd_resize_pane_entry :: cmd_entry where
  "cmd_resize_pane_entry = \<lparr>ce_name = ''resize-pane'', ce_alias = Some ''resizep'', ce_template = ''DLRt:U'',
     ce_lower = 0, ce_upper = 1, ce_flags = 0, ce_check = No_Check\<rparr>"

definition cmd_respawn_window_entry :: cmd_entry where
  "cmd_respawn_window_entry = \<lparr>ce_name = ''respawn-window'', ce_alias = Some ''respawnw'', ce_template = ''kt:'',
     ce_lower = 0, ce_upper = 1, ce_flags = 0, ce_check = No_Check\<rparr>"

definition cmd_rotate_window_entry :: cmd_entry where
  "cmd_rotate_window_entry = \<lparr>ce_name = ''rotate-window'', ce_alias = Some ''rotatew'', ce_template = ''Dt:U'',
     ce_lower = 0, ce_upper = 0, ce_flags = 0, ce_check = No_Check\<rparr>"

definition cmd_run_shell_entry :: cmd_entry where
  "cmd_run_shell_entry = \<lparr>ce_name = ''run-shell'', ce_alias = Some ''run'', ce_template = '''',
     ce_lower = 1, ce_upper = 1, ce_flags = 0, ce_check = No_Check\<rparr>"

definition cmd_save_buffer_entry :: cmd_entry where
  "cmd_save_buffer_entry = \<lparr>ce_name = ''save-buffer'', ce_alias = Some ''saveb'', ce_template = ''ab:'',
     ce_lower = 1, ce_upper = 1, ce_flags = 0, ce_check = No_Check\<rparr>"

definition cmd_select_layout_entry :: cmd_entry where
  "cmd_select_layout_entry = \<lparr>ce_name = ''select-layout'', ce_alias = Some ''selectl'', ce_template = ''npt:'',
     ce_lower = 0, ce_upper = 1, ce_flags = 0, ce_check = No_Check\<rparr>"

definition cmd_select_pane_entry :: cmd_entry where
  "cmd_select_pane_entry = \<lparr>ce_name = ''select-pane'', ce_alias = Some ''selectp'', ce_template = ''lDLRt:U'',
     ce_lower = 0, ce_upper = 0, ce_flags = 0, ce_check = No_Check\<rparr>"

definition cmd_select_window_entry :: cmd_entry where
  "cmd_select_window_entry = \<lparr>ce_name = ''select-window'', ce_alias = Some ''selectw'', ce_template = ''lnpt:'',
     ce_lower = 0, ce_upper = 0, ce_flags = 0, ce_check = No_Check\<rparr>"

definition cmd_send_keys_entry :: cmd_entry where
  "cmd_send_keys_entry = \<lparr>ce_name = ''send-keys'', ce_alias = Some ''send'', ce_template = ''t:'',
     ce_lower = 0, ce_upper = -1, ce_flags = 0, ce_check = No_Check\<rparr>"

definition cmd_send_prefix_entry :: cmd_entry where
  "cmd_send_prefix_entry = \<lparr>ce_name = ''send-prefix'', ce_alias = None, ce_template = ''t:'',
     ce_lower = 0, ce_upper = 0, ce_flags = 0, ce_check = No_Check\<rparr>"

definition cmd_server_info_entry :: cmd_entry where
  "cmd_server_info_entry = \<lparr>ce_name = ''server-info'', ce_alias = Some ''info'', ce_template = '''',
     ce_lower = 0, ce_upper = 0, ce_flags = 0, ce_check = No_Check\<rparr>"

definition cmd_set_buffer_entry :: cmd_entry where
  "cmd_set_buffer_entry = \<lparr>ce_name = ''set-buffer'', ce_alias = Some ''setb'', ce_template = ''b:'',
     ce_lower = 1, ce_upper = 1, ce_flags = 0, ce_check = No_Check\<rparr>"

definition cmd_set_environment_entry :: cmd_entry where
  "cmd_set_environment_entry = \<lparr>ce_name = ''set-environment'', ce_alias = Some ''setenv'', ce_template = ''grt:u'',
     ce_lower = 1, ce_upper = 2, ce_flags = 0, ce_check = No_Check\<rparr>"

definition cmd_set_option_entry :: cmd_entry where
  "cmd_set_option_entry = \<lparr>ce_name = ''set-option'', ce_alias = Some ''set'', ce_template = ''agst:uw'',
     ce_lower = 1, ce_upper = 2, ce_flags = 0, ce_check = No_Check\<rparr>"

definition cmd_set_window_option_entry :: cmd_entry where
  "cmd_set_window_option_entry = \<lparr>ce_name = ''set-window-option'', ce_alias = Some ''setw'', ce_template = ''agt:u'',
     ce_lower = 1, ce_upper = 2, ce_flags = 0, ce_check = No_Check\<rparr>"

definition cmd_show_buffer_entry :: cmd_entry where
  "cmd_show_buffer_entry = \<lparr>ce_name = ''show-buffer'', ce_alias = Some ''showb'', ce_template = ''b:'',
     ce_lower = 0, ce_upper = 0, ce_flags = 0, ce_check = No_Check\<rparr>"

definition cmd_show_environment_entry :: cmd_entry where
  "cmd_show_environment_entry = \<lparr>ce_name = ''show-environment'', ce_alias = Some ''showenv'', ce_template = ''gt:'',
     ce_lower = 0, ce_upper = 0, ce_flags = 0, ce_check = No_Check\<rparr>"

definition cmd_show_messages_entry :: cmd_entry where
  "cmd_show_messages_entry = \<lparr>ce_name = ''show-messages'', ce_alias = Some ''showmsgs'', ce_template = ''t:'',
     ce_lower = 0, ce_upper = 0, ce_flags = 0, ce_check = No_Check\<rparr>"

definition cmd_show_options_entry :: cmd_entry where
  "cmd_show_options_entry = \<lparr>ce_name = ''show-options'', ce_alias = Some ''show'', ce_template = ''gst:w'',
     ce_lower = 0, ce_upper = 0, ce_flags = 0, ce_check = No_Check\<rparr>"

definition cmd_show_window_options_entry :: cmd_entry where
  "cmd_show_window_options_entry = \<lparr>ce_name = ''show-window-options'', ce_alias = Some ''showw'', ce_template = ''gt:'',
     ce_lower = 0, ce_upper = 0, ce_flags = 0, ce_check = No_Check\<rparr>"

definition cmd_source_file_entry :: cmd_entry where
  "cmd_source_file_entry = \<lparr>ce_name = ''source-file'', ce_alias = Some ''source'', ce_template = '''',
     ce_lower = 1, ce_upper = 1, ce_flags = 0, ce_check = No_Check\<rparr>"

definition cmd_split_window_entry :: cmd_entry where
  "cmd_split_window_entry = \<lparr>ce_name = ''split-window'', ce_alias = Some ''splitw'', ce_template = ''dl:hp:Pt:v'',
     ce_lower = 0, ce_upper = 1, ce_flags = 0, ce_check = No_Check\<rparr>"

definition cmd_start_server_entry :: cmd_entry where
  "cmd_start_server_entry = \<lparr>ce_name = ''start-server'', ce_alias = Some ''start'', ce_template = '''',
     ce_lower = 0, ce_upper = 0, ce_flags = 1, ce_check = No_Check\<rparr>"

definition cmd_suspend_client_entry :: cmd_entry where
  "cmd_suspend_client_entry = \<lparr>ce_name = ''suspend-client'', ce_alias = Some ''suspendc'', ce_template = ''t:'',
     ce_lower = 0, ce_upper = 0, ce_flags = 0, ce_check = No_Check\<rparr>"

definition cmd_swap_pane_entry :: cmd_entry where
  "cmd_swap_pane_entry = \<lparr>ce_name = ''swap-pane'', ce_alias = Some ''swapp'', ce_template = ''dDs:t:U'',
     ce_lower = 0, ce_upper = 0, ce_flags = 0, ce_check = No_Check\<rparr>"

definition cmd_swap_window_entry :: cmd_entry where
  "cmd_swap_window_entry = \<lparr>ce_name = ''swap-window'', ce_alias = Some ''swapw'', ce_template = ''ds:t:'',
     ce_lower = 0, ce_upper = 0, ce_flags = 0, ce_check = No_Check\<rparr>"

definition cmd_switch_client_entry :: cmd_entry where
  "cmd_switch_client_entry = \<lparr>ce_name = ''switch-client'', ce_alias = Some ''switchc'', ce_template = ''lc:npt:'',
     ce_lower = 0, ce_upper = 0, ce_flags = 0, ce_check = No_Check\<rparr>"

definition cmd_unbind_key_entry :: cmd_entry where
  "cmd_unbind_key_entry = \<lparr>ce_name = ''unbind-key'', ce_alias = Some ''unbind'', ce_template = ''acnt:'',
     ce_lower = 0, ce_upper = 1, ce_flags = 0, ce_check = Unbind_Key_Check\<rparr>"

definition cmd_unlink_window_entry :: cmd_entry where
  "cmd_unlink_window_entry = \<lparr>ce_name = ''unlink-window'', ce_alias = Some ''unlinkw'', ce_template = ''kt:'',
     ce_lower = 0, ce_upper = 0, ce_flags = 0, ce_check = No_Check\<rparr>"

section \<open>The table\<close>

definition cmd_table :: "cmd_entry list" where
  "cmd_table = [cmd_attach_session_entry, cmd_bind_key_entry, cmd_break_pane_entry, cmd_capture_pane_entry,
     cmd_choose_buffer_entry, cmd_choose_client_entry, cmd_choose_session_entry, cmd_choose_window_entry,
     cmd_clear_history_entry, cmd_clock_mode_entry, cmd_command_prompt_entry, cmd_confirm_before_entry,
     cmd_copy_mode_entry, cmd_delete_buffer_entry, cmd_detach_client_entry, cmd_display_message_entry,
     cmd_display_panes_entry, cmd_find_window_entry, cmd_has_session_entry, cmd_if_shell_entry,
     cmd_join_pane_entry, cmd_kill_pane_entry, cmd_kill_server_entry, cmd_kill_session_entry,
     cmd_kill_window_entry, cmd_last_pane_entry, cmd_last_window_entry, cmd_link_window_entry,
     cmd_list_buffers_entry, cmd_list_clients_entry, cmd_list_commands_entry, cmd_list_keys_entry,
     cmd_list_panes_entry, cmd_list_sessions_entry, cmd_list_windows_entry, cmd_load_buffer_entry,
     cmd_lock_client_entry, cmd_lock_server_entry, cmd_lock_session_entry, cmd_move_window_entry,
     cmd_new_session_entry, cmd_new_window_entry, cmd_next_layout_entry, cmd_next_window_entry,
     cmd_paste_buffer_entry, cmd_pipe_pane_entry, cmd_previous_layout_entry, cmd_previous_window_entry,
     cmd_refresh_client_entry, cmd_rename_session_entry, cmd_rename_window_entry, cmd_resize_pane_entry,
     cmd_respawn_window_entry, cmd_rotate_window_entry, cmd_run_shell_entry, cmd_save_buffer_entry,
     cmd_select_layout_entry, cmd_select_pane_entry, cmd_select_window_entry, cmd_send_keys_entry,
     cmd_send_prefix_entry, cmd_server_info_entry, cmd_set_buffer_entry, cmd_set_environment_entry,
     cmd_set_option_entry, cmd_set_window_option_entry, cmd_show_buffer_entry,
     cmd_show_environment_entry, cmd_show_messages_entry, cmd_show_options_entry,
     cmd_show_window_options_entry, cmd_source_file_entry, cmd_split_window_entry,
     cmd_start_server_entry, cmd_suspend_client_entry, cmd_swap_pane_entry, cmd_swap_window_entry,
     cmd_switch_client_entry, cmd_unbind_key_entry, cmd_unlink_window_entry]"

lemmas cmd_entries = cmd_attach_session_entry_def cmd_bind_key_entry_def cmd_break_pane_entry_def cmd_capture_pane_entry_def
  cmd_choose_buffer_entry_def cmd_choose_client_entry_def cmd_choose_session_entry_def
  cmd_choose_window_entry_def cmd_clear_history_entry_def cmd_clock_mode_entry_def cmd_command_prompt_entry_def
  cmd_confirm_before_entry_def cmd_copy_mode_entry_def cmd_delete_buffer_entry_def cmd_detach_client_entry_def
  cmd_display_message_entry_def cmd_display_panes_entry_def cmd_find_window_entry_def cmd_has_session_entry_def
  cmd_if_shell_entry_def cmd_join_pane_entry_def cmd_kill_pane_entry_def cmd_kill_server_entry_def
  cmd_kill_session_entry_def cmd_kill_window_entry_def cmd_last_pane_entry_def cmd_last_window_entry_def
  cmd_link_window_entry_def cmd_list_buffers_entry_def cmd_list_clients_entry_def cmd_list_commands_entry_def
  cmd_list_keys_entry_def cmd_list_panes_entry_def cmd_list_sessions_entry_def cmd_list_windows_entry_def
  cmd_load_buffer_entry_def cmd_lock_client_entry_def cmd_lock_server_entry_def cmd_lock_session_entry_def
  cmd_move_window_entry_def cmd_new_session_entry_def cmd_new_window_entry_def cmd_next_layout_entry_def
  cmd_next_window_entry_def cmd_paste_buffer_entry_def cmd_pipe_pane_entry_def cmd_previous_layout_entry_def
  cmd_previous_window_entry_def cmd_refresh_client_entry_def cmd_rename_session_entry_def
  cmd_rename_window_entry_def cmd_resize_pane_entry_def cmd_respawn_window_entry_def cmd_rotate_window_entry_def
  cmd_run_shell_entry_def cmd_save_buffer_entry_def cmd_select_layout_entry_def cmd_select_pane_entry_def
  cmd_select_window_entry_def cmd_send_keys_entry_def cmd_send_prefix_entry_def cmd_server_info_entry_def
  cmd_set_buffer_entry_def cmd_set_environment_entry_def cmd_set_option_entry_def
  cmd_set_window_option_entry_def cmd_show_buffer_entry_def cmd_show_environment_entry_def
  cmd_show_messages_entry_def cmd_show_options_entry_def cmd_show_window_options_entry_def
  cmd_source_file_entry_def cmd_split_window_entry_def cmd_start_server_entry_def cmd_suspend_client_entry_def
  cmd_swap_pane_entry_def cmd_swap_window_entry_def cmd_switch_client_entry_def cmd_unbind_key_entry_def
  cmd_unlink_window_entry_def

end
