(* ===== verification/Commands.thy ===== *)
theory Commands
  imports Cmd_Table Environ
begin

text \<open>
  Commands as text: cmd_parse of cmd.c, cmd-list.c and cmd-string.c. A command is an entry of
  the table with its arguments; a list of commands is read from a vector of strings, and the
  vector from a line of text with quotes, variables and home directories.
\<close>

section \<open>One command\<close>

record cmd =
  c_entry :: cmd_entry
  c_args :: args

datatype parse_error =
    No_Command
  | Unknown_Command string
  | Ambiguous_Command string string
  | Usage string
  | Invalid_Command
  | Empty_Command

text \<open>The entry that is found, and whether there is more than one.\<close>

fun find_entry :: "string \<Rightarrow> cmd_entry list \<Rightarrow> cmd_entry option \<times> bool \<Rightarrow> cmd_entry option \<times> bool" where
  "find_entry name [] r = r"
| "find_entry name (e # es) (entry, ambiguous) =
     (if ce_alias e = Some name then (Some e, False)
      else if take (length name) (ce_name e) \<noteq> name then find_entry name es (entry, ambiguous)
      else if ce_name e = name then (Some e, ambiguous \<or> entry \<noteq> None)
      else find_entry name es (Some e, ambiguous \<or> entry \<noteq> None))"

fun ambiguous_names :: "string \<Rightarrow> cmd_entry list \<Rightarrow> string \<Rightarrow> string" where
  "ambiguous_names name [] s = s"
| "ambiguous_names name (e # es) s =
     (if take (length name) (ce_name e) \<noteq> name then ambiguous_names name es s
      else let s1 = strlcat s (ce_name e) BUFSIZ; s2 = strlcat s1 '', '' BUFSIZ in
        if BUFSIZ \<le> length s + length (ce_name e) then s1
        else if BUFSIZ \<le> length s1 + 2 then s2 else ambiguous_names name es s2)"

definition cmd_parse :: "string list \<Rightarrow> parse_error + cmd" where
  "cmd_parse argv =
     (case argv of
        [] \<Rightarrow> Inl No_Command
      | name # _ \<Rightarrow>
          (case find_entry name cmd_table (None, False) of
             (entry, ambiguous) \<Rightarrow>
               if ambiguous then
                 (let s = ambiguous_names name cmd_table [] in Inl (Ambiguous_Command name (take (length s - 2) s)))
               else (case entry of
                   None \<Rightarrow> Inl (Unknown_Command name)
                 | Some entry \<Rightarrow>
                     (case args_parse (ce_template entry) argv of
                        None \<Rightarrow> Inl (Usage (ce_name entry))
                      | Some args \<Rightarrow>
                          if ce_lower entry \<noteq> -1 \<and> int (length (a_argv args)) < ce_lower entry then Inl (Usage (ce_name entry))
                          else if ce_upper entry \<noteq> -1 \<and> int (length (a_argv args)) > ce_upper entry then Inl (Usage (ce_name entry))
                          else if \<not> entry_check (ce_check entry) args then Inl (Usage (ce_name entry))
                          else Inr \<lparr>c_entry = entry, c_args = args\<rparr>))))"

text \<open>
  Printing, into a buffer of len bytes. The string ends at the first NUL. None is a NUL written
  behind the end of the buffer.
\<close>

definition cmd_print :: "cmd \<Rightarrow> nat \<Rightarrow> (string \<times> nat) option" where
  "cmd_print cmd len =
     (let name = ce_name (c_entry cmd); off = length name + 1; buf = take (len - 1) (name @ '' '') in
      if off < len then
        (case args_print (c_args cmd) (len - off) of
           (t, used) \<Rightarrow>
             if used = 0 then Some (name @ [char_of (0::nat)], off)
             else if off + used < len then Some (buf @ t, off + used)
             else None)
      else Some (buf, off))"

section \<open>Lists of commands\<close>

text \<open>
  The arguments up to one that ends with a semicolon are a command; an escaped semicolon at the
  end of an argument is an ordinary one.
\<close>

fun list_parse_loop :: "string list \<Rightarrow> string list \<Rightarrow> cmd list \<Rightarrow> parse_error + cmd list" where
  "list_parse_loop [] cur cmds =
     (if cur = [] then Inr cmds
      else (case cmd_parse cur of Inl e \<Rightarrow> Inl e | Inr cmd \<Rightarrow> Inr (cmds @ [cmd])))"
| "list_parse_loop (a # as) cur cmds =
     (if a = [] \<or> last a \<noteq> CHR '';'' then list_parse_loop as (cur @ [a]) cmds
      else if length a > 1 \<and> last (butlast a) = CHR 0x5C then
        list_parse_loop as (cur @ [butlast (butlast a) @ '';'']) cmds
      else (case cmd_parse (if length a \<noteq> 1 then cur @ [butlast a] else cur) of
          Inl e \<Rightarrow> Inl e
        | Inr cmd \<Rightarrow> list_parse_loop as [] (cmds @ [cmd])))"

definition cmd_list_parse :: "string list \<Rightarrow> parse_error + cmd list" where
  "cmd_list_parse argv = list_parse_loop argv [] []"

fun list_print_loop :: "nat \<Rightarrow> cmd list \<Rightarrow> string \<times> nat \<Rightarrow> (string \<times> nat) option" where
  "list_print_loop len [] b = Some b"
| "list_print_loop len (cmd # cmds) (buf, off) =
     (if len \<le> off then Some (buf, off)
      else (case cmd_print cmd (len - off) of
          None \<Rightarrow> None
        | Some (t, used) \<Rightarrow>
            if len \<le> off + used then Some (buf @ t, off + used)
            else list_print_loop len cmds (if cmds \<noteq> [] then print_to len '' ; '' (buf @ t, off + used) else (buf @ t, off + used))))"

text \<open>The string in the buffer after cmd_list_print.\<close>

definition cmd_list_print :: "cmd list \<Rightarrow> nat \<Rightarrow> string option" where
  "cmd_list_print cmdlist len =
     map_option (\<lambda>(buf, off). takeWhile (\<lambda>c. c \<noteq> char_of (0::nat)) buf) (list_print_loop len cmdlist ([], 0))"

section \<open>Lines of text\<close>

definition cmd_string_getc :: "string \<Rightarrow> nat \<Rightarrow> char option \<times> nat" where
  "cmd_string_getc s p = (if p < length s then (Some (s ! p), p + 1) else (None, p))"

definition cmd_string_ungetc :: "nat \<Rightarrow> nat" where
  "cmd_string_ungetc p = p - 1"

definition cmd_string_first :: "char \<Rightarrow> bool" where
  "cmd_string_first ch \<longleftrightarrow> ch = CHR ''_'' \<or> (97 \<le> char_code ch \<and> char_code ch \<le> 122) \<or> (65 \<le> char_code ch \<and> char_code ch \<le> 90)"

definition cmd_string_other :: "char \<Rightarrow> bool" where
  "cmd_string_other ch \<longleftrightarrow> cmd_string_first ch \<or> is_digit ch"

text \<open>
  A string with the position after it. Some None is the null pointer that is returned for an
  error, None one that is followed: an entry of the environment may have no value.
\<close>

definition cmd_string_variable :: "environ \<Rightarrow> string \<Rightarrow> nat \<Rightarrow> (string \<times> nat) option option" where
  "cmd_string_variable env s p =
     (case cmd_string_getc s p of
        (None, p) \<Rightarrow> Some None
      | (Some ch, p) \<Rightarrow>
          let brace = (ch = CHR ''{'') in
          (case (if brace then cmd_string_getc s p else (Some ch, p)) of
             (None, p) \<Rightarrow> Some None
           | (Some ch, p) \<Rightarrow>
               if \<not> cmd_string_first ch then if brace then Some None else Some (Some ([CHR ''$'', ch], p))
               else
                 let others = takeWhile cmd_string_other (drop p s); buf = ch # others in
                 (case cmd_string_getc s (p + length others) of
                    (ch, p) \<Rightarrow>
                      if brace \<and> ch \<noteq> Some (CHR ''}'') then Some None
                      else
                        let p = (if ch \<noteq> None \<and> \<not> brace then cmd_string_ungetc p else p) in
                        (case environ_find env buf of
                           None \<Rightarrow> Some (Some ([], p))
                         | Some envent \<Rightarrow> map_option (\<lambda>v. Some (v, p)) (ee_value envent)))))"

definition unescaped :: "char \<Rightarrow> char" where
  "unescaped ch = (if ch = CHR ''e'' then char_of (27::nat) else if ch = CHR ''r'' then char_of (13::nat)
     else if ch = CHR ''n'' then char_of (10::nat) else if ch = CHR ''t'' then char_of (9::nat) else ch)"

lemma variable_moves: "cmd_string_variable env s p = Some (Some (t, q)) \<Longrightarrow> p < q \<and> q \<le> length s"
proof -
  have k: "p < length s \<Longrightarrow> Suc (p + length (takeWhile cmd_string_other (drop (Suc p) s))) \<le> length s" for p
    using length_takeWhile_le [of cmd_string_other "drop (Suc p) s"] by simp
  show "cmd_string_variable env s p = Some (Some (t, q)) \<Longrightarrow> p < q \<and> q \<le> length s"
    using k [of p] k [of "Suc p"]
    by (auto simp: cmd_string_variable_def cmd_string_getc_def cmd_string_ungetc_def Let_def split: if_splits option.splits)
qed

function cmd_string_string :: "environ \<Rightarrow> string \<Rightarrow> nat \<Rightarrow> char \<Rightarrow> bool \<Rightarrow> string \<Rightarrow> (string \<times> nat) option option" where
  "cmd_string_string env s p endch esc buf =
     (case cmd_string_getc s p of
        (None, p') \<Rightarrow> Some None
      | (Some ch, p') \<Rightarrow>
          if ch = endch then Some (Some (buf, p'))
          else if ch = CHR 0x5C \<and> esc then
            (case cmd_string_getc s p' of
               (None, p2) \<Rightarrow> Some None
             | (Some ch, p2) \<Rightarrow> cmd_string_string env s p2 endch esc (buf @ [unescaped ch]))
          else if ch = CHR ''$'' \<and> esc then
            (case cmd_string_variable env s p' of
               None \<Rightarrow> None
             | Some None \<Rightarrow> Some None
             | Some (Some (t, p2)) \<Rightarrow> cmd_string_string env s p2 endch esc (buf @ t))
          else cmd_string_string env s p' endch esc (buf @ [ch]))"
  by pat_completeness auto
termination
  by (relation "measure (\<lambda>(env, s, p, _). length s - p)")
    (auto simp: cmd_string_getc_def split: if_splits dest: variable_moves)

declare cmd_string_string.simps [simp del]

text \<open>
  The home directories are parameters: that of the user the server runs as (getpwuid), and that
  of a user by name (getpwnam).
\<close>

record homes =
  own_home :: "string option"
  home_of :: "string \<Rightarrow> string option"

definition cmd_string_expand_tilde :: "homes \<Rightarrow> environ \<Rightarrow> string \<Rightarrow> nat \<Rightarrow> (string \<times> nat) option option" where
  "cmd_string_expand_tilde pw env s p =
     (let path = (\<lambda>home p. map_option (\<lambda>home. (home @ ''/'', p)) home) in
      case cmd_string_getc s p of
        (ch, q) \<Rightarrow>
          if ch = Some (CHR ''/'') then
            (case environ_find env ''HOME'' of
               None \<Rightarrow> Some (path (own_home pw) q)
             | Some envent \<Rightarrow> map_option (\<lambda>v. path (if v \<noteq> [] then Some v else own_home pw) q) (ee_value envent))
          else
            map_option (\<lambda>r. case r of None \<Rightarrow> None | Some (username, q) \<Rightarrow> path (home_of pw username) q)
              (cmd_string_string env s (cmd_string_ungetc q) (CHR ''/'') False []))"

lemma string_moves: "cmd_string_string env s p endch esc buf = Some (Some (t, q)) \<Longrightarrow> p < q \<and> q \<le> length s"
proof (induction "length s - p" arbitrary: p buf rule: less_induct)
  case less
  have IH: "p < q \<and> q \<le> length s" if "cmd_string_string env s p2 endch esc b = Some (Some (t, q))" "p < p2" "p < length s" for p2 b
    using less.hyps [of p2 b] that diff_less_mono2 [of p p2 "length s"] by simp
  have v: "p < q \<and> q \<le> length s" if "cmd_string_variable env s (Suc p) = Some (Some (u, p2))" "cmd_string_string env s p2 endch esc (buf @ u) = Some (Some (t, q))" for u p2
    using variable_moves [OF that(1)] IH [OF that(2)] by simp
  have l: "p < length s" using less.prems by (subst (asm) cmd_string_string.simps) (simp add: cmd_string_getc_def split: if_splits)
  show ?case
    using less.prems l IH v by (subst (asm) cmd_string_string.simps) (simp add: cmd_string_getc_def split: if_splits option.splits prod.splits)
qed

lemma tilde_moves: "cmd_string_expand_tilde pw env s p = Some (Some (t, q)) \<Longrightarrow> p \<le> q \<and> q \<le> length s"
proof -
  have "p \<le> q \<and> q \<le> length s" if "cmd_string_string env s (p - d) (CHR ''/'') False [] = Some (Some (u, q))" "d \<le> 1" for u d
    using string_moves [OF that(1)] that(2) by arith
  from this [where d = 0] this [where d = 1] show "cmd_string_expand_tilde pw env s p = Some (Some (t, q)) \<Longrightarrow> p \<le> q \<and> q \<le> length s"
    by (auto simp: cmd_string_expand_tilde_def cmd_string_getc_def cmd_string_ungetc_def split: if_splits option.splits)
qed

text \<open>
  The loop of cmd_string_parse: Inr is the vector at the end of the text, Inl an error. The
  buffer is None until a character or a quoted string has been read.
\<close>

definition add_text :: "string option \<Rightarrow> string \<Rightarrow> string option" where
  "add_text buf t = Some ((case buf of None \<Rightarrow> [] | Some b \<Rightarrow> b) @ t)"

definition end_argument :: "string list \<Rightarrow> string option \<Rightarrow> string list" where
  "end_argument argv buf = (case buf of None \<Rightarrow> argv | Some b \<Rightarrow> argv @ [b])"

function string_parse_loop :: "homes \<Rightarrow> environ \<Rightarrow> string \<Rightarrow> nat \<Rightarrow> string list \<Rightarrow> string option \<Rightarrow> (unit + string list) option" where
  "string_parse_loop pw env s p argv buf =
     (case cmd_string_getc s p of
        (None, p') \<Rightarrow> Some (Inr (end_argument argv buf))
      | (Some ch, p') \<Rightarrow>
          let part = (if ch = CHR 0x27 then Some (cmd_string_string env s p' (CHR 0x27) False [])
              else if ch = CHR ''\"'' then Some (cmd_string_string env s p' (CHR ''\"'') True [])
              else if ch = CHR ''$'' then Some (cmd_string_variable env s p')
              else if ch = CHR ''~'' \<and> buf = None then Some (cmd_string_expand_tilde pw env s p')
              else None) in
          (case part of
             Some None \<Rightarrow> None
           | Some (Some None) \<Rightarrow> Some (Inl ())
           | Some (Some (Some (t, p2))) \<Rightarrow> string_parse_loop pw env s p2 argv (add_text buf t)
           | None \<Rightarrow>
               if ch = CHR ''#'' then Some (Inr (end_argument argv buf))
               else if ch = CHR '' '' \<or> char_code ch = 9 then string_parse_loop pw env s p' (end_argument argv buf) None
               else string_parse_loop pw env s p' argv (add_text buf [ch])))"
  by pat_completeness auto
termination
  by (relation "measure (\<lambda>(pw, env, s, p, _). length s - p)")
    (auto simp: cmd_string_getc_def split: if_splits dest!: string_moves [OF sym] variable_moves [OF sym] tilde_moves [OF sym])

declare string_parse_loop.simps [simp del]

definition is_assignment :: "string \<Rightarrow> bool" where
  "is_assignment a \<longleftrightarrow> CHR ''='' \<in> set a \<and> strcspn a ''='' \<le> strcspn a [CHR '' '', char_of (9::nat)]"

text \<open>The assignments at the start go to the global environment.\<close>

definition cmd_string_parse :: "homes \<Rightarrow> environ \<Rightarrow> string \<Rightarrow> ((parse_error + cmd list) \<times> environ) option" where
  "cmd_string_parse pw env s =
     (case string_parse_loop pw env s 0 [] None of
        None \<Rightarrow> None
      | Some (Inl _) \<Rightarrow> Some (Inl Invalid_Command, env)
      | Some (Inr argv) \<Rightarrow>
          let env = foldl environ_put env (takeWhile is_assignment argv); argv = dropWhile is_assignment argv in
          Some (if argv = [] then Inl Empty_Command else cmd_list_parse argv, env))"

end
