(* ===== verification/Cmd_Facts.thy ===== *)
theory Cmd_Facts
  imports Commands
begin

text \<open>
  Printing commands and reading them again: the words of a command, the text that is printed
  where it fits, and what the parsers make of such a text.
\<close>

section \<open>Texts without special characters\<close>

definition plain :: "char \<Rightarrow> bool" where
  "plain c \<longleftrightarrow> c \<notin> {CHR 0x27, CHR ''\"'', CHR ''$'', CHR ''#'', CHR ''~'', CHR 0x5C, CHR 0x09, CHR 0x00}"

definition good_word :: "string \<Rightarrow> bool" where
  "good_word w \<longleftrightarrow> w \<noteq> [] \<and> list_all plain w"

fun spaced :: "string list \<Rightarrow> string" where
  "spaced [] = []"
| "spaced [w] = w"
| "spaced (w # v # ws) = w @ '' '' @ spaced (v # ws)"

lemma spaced_append: "xs \<noteq> [] \<Longrightarrow> ys \<noteq> [] \<Longrightarrow> spaced (xs @ ys) = spaced xs @ '' '' @ spaced ys"
proof (induction xs rule: spaced.induct)
  case (2 w)
  then show ?case by (cases ys) simp_all
qed simp_all

section \<open>The line parser on words\<close>

lemma getc_drop: "cmd_string_getc s p = (case drop p s of [] \<Rightarrow> (None, p) | c # _ \<Rightarrow> (Some c, p + 1))"
  by (auto simp: cmd_string_getc_def Cons_nth_drop_Suc [symmetric] split: list.split)

lemma drop_Suc_Cons: "drop p s = c # r \<Longrightarrow> drop (p + 1) s = r"
  by (metis add.commute drop_drop drop0 drop_Suc_Cons plus_1_eq_Suc)

lemma drop_add: "drop p s = t @ r \<Longrightarrow> drop (p + length t) s = r"
  by (metis add.commute append_eq_conv_conj drop_drop)

lemma plain_not: "plain c \<Longrightarrow> c \<noteq> CHR 0x27 \<and> c \<noteq> CHR ''\"'' \<and> c \<noteq> CHR ''$'' \<and> c \<noteq> CHR ''#'' \<and> c \<noteq> CHR ''~'' \<and> c \<noteq> CHR 0x5C \<and> char_code c \<noteq> 9"
proof -
  have "char_of (9::nat) = CHR 0x09" by code_simp
  then have "c = CHR 0x09" if "char_code c = 9" using that char_of_char [where ?'a = nat, of c] by (simp add: char_code_def)
  then show "plain c \<Longrightarrow> ?thesis" by (auto simp: plain_def)
qed

text \<open>Within double quotes.\<close>

lemma string_plain:
  "list_all plain w \<Longrightarrow> drop p s = w @ CHR ''\"'' # r \<Longrightarrow>
   cmd_string_string env s p (CHR ''\"'') True buf = Some (Some (buf @ w, p + length w + 1))"
proof (induction w arbitrary: p buf)
  case Nil
  then show ?case by (subst cmd_string_string.simps) (simp add: getc_drop)
next
  case (Cons c w)
  have "plain c" using Cons.prems(1) by simp
  moreover have "cmd_string_string env s (p + 1) (CHR ''\"'') True (buf @ [c]) = Some (Some ((buf @ [c]) @ w, p + 1 + length w + 1))"
    using Cons.prems drop_Suc_Cons [of p s c "w @ CHR ''\"'' # r"] by (intro Cons.IH) simp_all
  ultimately show ?case using Cons.prems(2) plain_not [of c] by (subst cmd_string_string.simps) (simp add: getc_drop)
qed

text \<open>Outside of quotes.\<close>

lemma loop_plain:
  "list_all plain w \<Longrightarrow> CHR '' '' \<notin> set w \<Longrightarrow> drop p s = w @ r \<Longrightarrow>
   string_parse_loop pw env s p argv buf = string_parse_loop pw env s (p + length w) argv (if w = [] then buf else add_text buf w)"
proof (induction w arbitrary: p buf)
  case (Cons c w)
  have c: "plain c" "c \<noteq> CHR '' ''" using Cons.prems by auto
  have "string_parse_loop pw env s p argv buf = string_parse_loop pw env s (p + 1) argv (add_text buf [c])"
    using Cons.prems(3) plain_not [OF c(1)] c(2) by (subst string_parse_loop.simps) (simp add: getc_drop)
  also have "\<dots> = string_parse_loop pw env s (p + 1 + length w) argv (if w = [] then add_text buf [c] else add_text (add_text buf [c]) w)"
    using Cons.prems drop_Suc_Cons [of p s c "w @ r"] by (intro Cons.IH) simp_all
  finally show ?case by (simp add: add_text_def split: if_splits)
qed simp

lemma loop_word:
  assumes "good_word w" "drop p s = quoted w @ r"
  shows "string_parse_loop pw env s p argv None = string_parse_loop pw env s (p + length (quoted w)) argv (Some w)"
proof (cases "CHR '' '' \<in> set w")
  case True
  then have d: "drop p s = CHR ''\"'' # w @ CHR ''\"'' # r" using assms(2) by (simp add: quoted_def)
  have "cmd_string_string env s (p + 1) (CHR ''\"'') True [] = Some (Some ([] @ w, p + 1 + length w + 1))"
    using assms(1) drop_Suc_Cons [OF d] by (intro string_plain) (auto simp: good_word_def)
  then show ?thesis using True d by (subst string_parse_loop.simps) (simp add: getc_drop quoted_def add_text_def)
next
  case False
  then show ?thesis using assms loop_plain [of w p s r pw env argv None] by (auto simp: good_word_def quoted_def add_text_def)
qed

lemma loop_words:
  "(\<forall>w\<in>set ws. good_word w) \<Longrightarrow> ws \<noteq> [] \<Longrightarrow> drop p s = spaced (map quoted ws) \<Longrightarrow>
   string_parse_loop pw env s p argv None = Some (Inr (argv @ ws))"
proof (induction ws arbitrary: p argv rule: spaced.induct)
  case (2 w)
  then have "string_parse_loop pw env s p argv None = string_parse_loop pw env s (p + length (quoted w)) argv (Some w)"
    by (intro loop_word [where r = "[]"]) simp_all
  moreover have "drop (p + length (quoted w)) s = []" using "2.prems"(3) drop_add [of p s "quoted w" "[]"] by simp
  ultimately show ?case by (subst (asm) (2) string_parse_loop.simps) (simp add: getc_drop end_argument_def)
next
  case (3 w v ws)
  let ?r = "spaced (map quoted (v # ws))"
  have d: "drop p s = quoted w @ CHR '' '' # ?r" using "3.prems"(3) by simp
  then have "string_parse_loop pw env s p argv None = string_parse_loop pw env s (p + length (quoted w)) argv (Some w)"
    using "3.prems"(1) by (intro loop_word) simp_all
  also have "\<dots> = string_parse_loop pw env s (p + length (quoted w) + 1) (argv @ [w]) None"
    using drop_add [OF d] by (subst string_parse_loop.simps) (simp add: getc_drop end_argument_def)
  also have "\<dots> = Some (Inr ((argv @ [w]) @ v # ws))"
    using "3.prems"(1) drop_Suc_Cons [OF drop_add [OF d]] by (intro "3.IH") simp_all
  finally show ?case by simp
qed simp

section \<open>The words of a command\<close>

definition value_letters :: "args \<Rightarrow> char list" where
  "value_letters args = filter (\<lambda>c. a_flags args c \<and> a_values args c \<noteq> None) (map char_of [0..<SCHAR_MAX])"

definition value_words :: "args \<Rightarrow> string list" where
  "value_words args = concat (map (\<lambda>c. [[CHR ''-'', c], the (a_values args c)]) (value_letters args))"

definition flag_words :: "args \<Rightarrow> string list" where
  "flag_words args = (if flag_letters args = [] then [] else [CHR ''-'' # flag_letters args])"

definition args_words :: "args \<Rightarrow> string list" where
  "args_words args = flag_words args @ value_words args @ a_argv args"

text \<open>Arguments that fit the template, so that its letters are found again.\<close>

definition letter_ok :: "string \<Rightarrow> char \<Rightarrow> bool" where
  "letter_ok template c \<longleftrightarrow> char_code c < SCHAR_MAX \<and> c \<in> set template \<and> c \<notin> {CHR '':'', CHR ''?'', CHR ''-'', CHR '' ''}"

definition args_ok :: "string \<Rightarrow> args \<Rightarrow> bool" where
  "args_ok template args \<longleftrightarrow>
     (\<forall>c. a_flags args c \<longrightarrow> letter_ok template c \<and> (a_values args c \<noteq> None \<longleftrightarrow> takes_value template c)) \<and>
     (\<forall>c. \<not> a_flags args c \<longrightarrow> a_values args c = None) \<and>
     (case a_argv args of [] \<Rightarrow> True | a # _ \<Rightarrow> a = [] \<or> hd a \<noteq> CHR ''-'')"

lemma all_letters: "c \<in> set (map char_of [0..<SCHAR_MAX]) \<longleftrightarrow> char_code c < SCHAR_MAX"
proof
  assume "char_code c < SCHAR_MAX"
  moreover have "c = char_of (char_code c)" by (simp add: char_code_def)
  ultimately show "c \<in> set (map char_of [0..<SCHAR_MAX])" by (metis atLeastLessThan_iff imageI list.set_map set_upt zero_le)
next
  assume "c \<in> set (map char_of [0..<SCHAR_MAX])"
  then obtain n where "n < SCHAR_MAX" "c = char_of n" by auto
  then show "char_code c < SCHAR_MAX" by (simp add: char_code_def of_char_of)
qed

lemma set_letters:
  "args_ok template args \<Longrightarrow> set (flag_letters args) = {c. a_flags args c \<and> \<not> takes_value template c}"
  "args_ok template args \<Longrightarrow> set (value_letters args) = {c. a_flags args c \<and> takes_value template c}"
  using all_letters by (auto simp: args_ok_def letter_ok_def flag_letters_def value_letters_def simp del: set_map)

section \<open>getopt on the words\<close>

lemma template_split:
  assumes "letter_ok template c"
  obtains oli where "dropWhile (\<lambda>x. x \<noteq> c) template = c # oli" "takes_value template c \<longleftrightarrow> oli \<noteq> [] \<and> hd oli = CHR '':''"
proof -
  have "dropWhile (\<lambda>x. x \<noteq> c) template \<noteq> []" using assms by (auto simp: letter_ok_def dropWhile_eq_Nil_conv)
  then obtain d oli where d: "dropWhile (\<lambda>x. x \<noteq> c) template = d # oli" by (cases "dropWhile (\<lambda>x. x \<noteq> c) template") auto
  then have "d = c" using hd_dropWhile [of "\<lambda>x. x \<noteq> c" template] by simp
  then show thesis using that d by (simp add: takes_value_def)
qed

definition with_flags :: "char list \<Rightarrow> args \<Rightarrow> args" where
  "with_flags cs a = a\<lparr>a_flags := \<lambda>c. a_flags a c \<or> c \<in> set cs\<rparr>"

definition with_values :: "char list \<Rightarrow> (char \<Rightarrow> string option) \<Rightarrow> args \<Rightarrow> args" where
  "with_values cs vals a = a\<lparr>a_flags := \<lambda>c. a_flags a c \<or> c \<in> set cs, a_values := \<lambda>c. if c \<in> set cs then vals c else a_values a c\<rparr>"

lemma with_flags_Cons: "with_flags cs (a\<lparr>a_flags := (a_flags a)(c := True)\<rparr>) = with_flags (c # cs) a"
  by (rule args.equality) (auto simp: with_flags_def fun_eq_iff)

lemma with_flags_Nil: "with_flags [] a = a"
  by (simp add: with_flags_def)

lemma parse_flag:
  assumes "letter_ok template c" "\<not> takes_value template c"
  shows "args_parse_loop template (c # place) argv a = args_parse_loop template place (after_letter place argv) (a\<lparr>a_flags := (a_flags a)(c := True)\<rparr>)"
proof -
  obtain oli where "dropWhile (\<lambda>x. x \<noteq> c) template = c # oli" "takes_value template c \<longleftrightarrow> oli \<noteq> [] \<and> hd oli = CHR '':''"
    using template_split [OF assms(1)] .
  then have "getopt template (c # place) argv = Getopt_Option c None place (after_letter place argv)"
    using assms by (auto simp: getopt_def getopt_letter_def letter_ok_def)
  then show ?thesis using assms by (subst args_parse_loop.simps) (auto simp: letter_ok_def)
qed

lemma parse_flags:
  "\<forall>c\<in>set cs. letter_ok template c \<and> \<not> takes_value template c \<Longrightarrow> cs \<noteq> [] \<Longrightarrow>
   args_parse_loop template cs (w # r) a = args_parse_loop template [] r (with_flags cs a)"
proof (induction cs arbitrary: a)
  case (Cons c cs)
  have "args_parse_loop template (c # cs) (w # r) a = args_parse_loop template cs (after_letter cs (w # r)) (a\<lparr>a_flags := (a_flags a)(c := True)\<rparr>)"
    using Cons.prems by (intro parse_flag) simp_all
  then show ?case using Cons
    by (cases "cs = []") (simp_all add: after_letter_def flip: with_flags_Cons, simp add: with_flags_Nil)
qed simp

lemma parse_flag_word:
  assumes "\<forall>c\<in>set cs. letter_ok template c \<and> \<not> takes_value template c" "cs \<noteq> []"
  shows "args_parse_loop template [] ((CHR ''-'' # cs) # r) a = args_parse_loop template [] r (with_flags cs a)"
proof -
  have "hd cs \<noteq> CHR ''-''" using assms by (cases cs) (auto simp: letter_ok_def)
  then have "getopt template [] ((CHR ''-'' # cs) # r) = getopt template cs ((CHR ''-'' # cs) # r)"
    using assms(2) by (simp add: getopt_def)
  then have "args_parse_loop template [] ((CHR ''-'' # cs) # r) a = args_parse_loop template cs ((CHR ''-'' # cs) # r) a"
    by (simp add: args_parse_loop.simps)
  then show ?thesis using parse_flags [OF assms] by simp
qed

lemma parse_value:
  assumes "letter_ok template c" "takes_value template c"
  shows "args_parse_loop template [] ([CHR ''-'', c] # v # r) a =
    args_parse_loop template [] r (a\<lparr>a_flags := (a_flags a)(c := True), a_values := (a_values a)(c \<mapsto> v)\<rparr>)"
proof -
  obtain oli where "dropWhile (\<lambda>x. x \<noteq> c) template = c # oli" "takes_value template c \<longleftrightarrow> oli \<noteq> [] \<and> hd oli = CHR '':''"
    using template_split [OF assms(1)] .
  then have "getopt template [] ([CHR ''-'', c] # v # r) = Getopt_Option c (Some v) [] r"
    using assms by (auto simp: getopt_def getopt_letter_def letter_ok_def)
  then show ?thesis using assms by (subst args_parse_loop.simps) (auto simp: letter_ok_def)
qed

lemma parse_values:
  "\<forall>c\<in>set cs. letter_ok template c \<and> takes_value template c \<and> vals c \<noteq> None \<Longrightarrow> distinct cs \<Longrightarrow>
   args_parse_loop template [] (concat (map (\<lambda>c. [[CHR ''-'', c], the (vals c)]) cs) @ r) a = args_parse_loop template [] r (with_values cs vals a)"
proof (induction cs arbitrary: a)
  case (Cons c cs)
  then have "args_parse_loop template [] (concat (map (\<lambda>c. [[CHR ''-'', c], the (vals c)]) (c # cs)) @ r) a =
    args_parse_loop template [] r (with_values cs vals (a\<lparr>a_flags := (a_flags a)(c := True), a_values := (a_values a)(c := vals c)\<rparr>))"
    by (auto simp: parse_value)
  moreover have "with_values cs vals (a\<lparr>a_flags := (a_flags a)(c := True), a_values := (a_values a)(c := vals c)\<rparr>) = with_values (c # cs) vals a"
    using Cons.prems(2) by (auto simp: with_values_def fun_eq_iff)
  ultimately show ?case by simp
qed (simp add: with_values_def)

lemma inj_on_letters: "inj_on (char_of :: nat \<Rightarrow> char) {0..<SCHAR_MAX}"
proof (rule inj_onI)
  fix m n :: nat assume mn: "m \<in> {0..<SCHAR_MAX}" "n \<in> {0..<SCHAR_MAX}" and "char_of m = (char_of n :: char)"
  then have "of_char (char_of m) = (of_char (char_of n) :: nat)" by simp
  then have "m mod 256 = n mod 256" by (simp only: of_char_of)
  moreover have "m mod 256 = m" "n mod 256 = n" using mn by simp_all
  ultimately show "m = n" by simp
qed

lemma distinct_letters: "distinct (value_letters args)"
proof -
  have "inj_on (char_of :: nat \<Rightarrow> char) (set [0..<SCHAR_MAX])" using inj_on_letters by simp
  then show ?thesis unfolding value_letters_def by (intro distinct_filter) (simp add: distinct_map)
qed

lemma args_parse_words:
  assumes "args_ok template args"
  shows "args_parse template (name # args_words args) = Some args"
proof -
  note s = set_letters [OF assms]
  have ok: "letter_ok template c \<and> (a_values args c \<noteq> None \<longleftrightarrow> takes_value template c)" if "a_flags args c" for c
    using assms that by (simp add: args_ok_def)
  have f: "args_parse_loop template [] (flag_words args @ r) a = args_parse_loop template [] r (with_flags (flag_letters args) a)" for r a
  proof (cases "flag_letters args = []")
    case False
    have "\<forall>c\<in>set (flag_letters args). letter_ok template c \<and> \<not> takes_value template c" using ok s(1) by auto
    from parse_flag_word [OF this False] show ?thesis using False by (simp add: flag_words_def)
  qed (simp add: flag_words_def with_flags_Nil)
  have v: "args_parse_loop template [] (value_words args @ r) a = args_parse_loop template [] r (with_values (value_letters args) (a_values args) a)" for r a
    unfolding value_words_def using ok s(2) by (intro parse_values distinct_letters) auto
  have "getopt template [] (a_argv args) = Getopt_End (a_argv args)" using assms by (auto simp: args_ok_def getopt_def split: list.splits)
  then have e: "args_parse_loop template [] (a_argv args) a = Some (a\<lparr>a_argv := a_argv args\<rparr>)" for a
    by (subst args_parse_loop.simps) simp
  have "a_values args c = None" if "\<not> (a_flags args c \<and> takes_value template c)" for c using assms that by (auto simp: args_ok_def)
  then have "(with_values (value_letters args) (a_values args) (with_flags (flag_letters args) (args_create [])))\<lparr>a_argv := a_argv args\<rparr> = args"
    using s by (cases args) (auto simp: with_values_def with_flags_def args_create_def fun_eq_iff)
  then show ?thesis by (simp add: args_parse_def args_words_def f v e)
qed

end
