(* ===== verification/Cmd_Lookup.thy ===== *)
theory Cmd_Lookup
  imports Cmd_Facts
begin

text \<open>The lookup of every name and alias in the table of commands, by evaluation.\<close>

definition finds :: "cmd_entry \<Rightarrow> bool" where
  "finds e \<longleftrightarrow> find_entry (ce_name e) cmd_table (None, False) = (Some e, False)"

lemma table_finds: "list_all finds cmd_table"
  by code_simp

lemma table_aliases: "list_all (\<lambda>e. case ce_alias e of None \<Rightarrow> True | Some a \<Rightarrow> find_entry a cmd_table (None, False) = (Some e, False)) cmd_table"
  by code_simp

lemma table_names: "list_all (\<lambda>e. good_word (ce_name e) \<and> list_all (\<lambda>c. c \<notin> set '' =;'') (ce_name e)) cmd_table"
  by code_simp

end
