(* ===== verification/Cmd_Print.thy ===== *)
theory Cmd_Print
  imports Cmd_Lookup
begin

text \<open>The text of a list of commands, as it is printed where it fits, and as its words.\<close>

section \<open>Printing arguments\<close>

fun glued :: "nat \<Rightarrow> string list \<Rightarrow> string" where
  "glued off [] = []"
| "glued off (t # ts) = (let u = (if off \<noteq> 0 then '' '' else []) @ t in u @ glued (off + length u) ts)"

lemma concat_spaced: "concat (map ((#) (CHR '' '')) ts) = (if ts = [] then [] else CHR '' '' # spaced ts)"
  by (induction ts rule: spaced.induct) auto

lemma glued_spaced:
  "\<forall>t\<in>set ts. t \<noteq> [] \<Longrightarrow> glued off ts = (if off = 0 then spaced ts else concat (map ((#) (CHR '' '')) ts))"
proof (induction ts arbitrary: off)
  case (Cons t ts)
  have ih: "glued k ts = (if ts = [] then [] else CHR '' '' # spaced ts)" if "0 < k" for k
    using Cons that by (simp only: concat_spaced) simp
  let ?u = "(if off \<noteq> 0 then '' '' else []) @ t"
  have "0 < off + length ?u" using Cons.prems by simp
  from ih [OF this] have "glued off (t # ts) = ?u @ (if ts = [] then [] else CHR '' '' # spaced ts)"
    by (simp only: glued.simps Let_def)
  then show ?case unfolding concat_spaced by (cases ts) (simp_all del: glued.simps)
qed simp

lemma spaced_glued:
  assumes "\<forall>t\<in>set ts. t \<noteq> []" "\<forall>t\<in>set xs. t \<noteq> []"
  shows "spaced xs @ glued (length (spaced xs)) ts = spaced (xs @ ts)"
proof (cases "xs = []")
  case False
  then have "spaced xs \<noteq> []" using assms(2) by (cases xs rule: spaced.cases) auto
  then show ?thesis using assms(1) False spaced_append [of xs ts] by (simp add: glued_spaced concat_spaced)
qed (use assms(1) glued_spaced in simp)

lemma spaced_glued_length:
  assumes "\<forall>t\<in>set ts. t \<noteq> []" "\<forall>t\<in>set xs. t \<noteq> []"
  shows "length (spaced xs) + length (glued (length (spaced xs)) ts) = length (spaced (xs @ ts))"
  by (simp only: spaced_glued [OF assms] flip: length_append)

lemma print_texts_fits:
  "off + length (glued off ts) < len \<Longrightarrow> print_texts len ts (buf, off) = Inr (buf @ glued off ts, off + length (glued off ts))"
proof (induction ts arbitrary: buf off)
  case (Cons t ts)
  let ?u = "(if off \<noteq> 0 then '' '' else []) @ t"
  have l: "off + length ?u + length (glued (off + length ?u) ts) < len" using Cons.prems by (simp add: Let_def)
  then have "print_to len ?u (buf, off) = (buf @ ?u, off + length ?u)" by (auto simp: print_to_def)
  then show ?case using Cons.IH [of "off + length ?u" "buf @ ?u"] l by (simp add: Let_def)
qed simp

lemma print_flags_fits: "off + length cs < len \<Longrightarrow> print_flags len cs (buf, off) = Inr (buf @ cs, off + length cs)"
  by (induction cs arbitrary: buf off) simp_all

definition args_texts :: "args \<Rightarrow> string list" where
  "args_texts args = flag_words args @ value_texts args @ map quoted (a_argv args)"

definition words_ok :: "args \<Rightarrow> bool" where
  "words_ok args \<longleftrightarrow> (\<forall>w\<in>set (args_words args). good_word w)"

lemma quoted_nonempty: "quoted w = [] \<longleftrightarrow> w = []"
  by (auto simp: quoted_def)

lemma value_texts_nonempty: "t \<in> set (value_texts args) \<Longrightarrow> t \<noteq> []"
  by (auto simp: value_texts_def)

lemma print_args:
  assumes "words_ok args" "length (spaced (args_texts args)) < len" "0 < len" "flag_letters args \<noteq> [] \<or> 1 < len"
  shows "args_print args len = (spaced (args_texts args), length (spaced (args_texts args)))"
proof -
  let ?vs = "value_texts args" and ?as = "map quoted (a_argv args)"
  have ne: "\<forall>t\<in>set ?vs. t \<noteq> []" "\<forall>t\<in>set ?as. t \<noteq> []"
    using assms(1) value_texts_nonempty by (auto simp: words_ok_def args_words_def good_word_def quoted_nonempty)
  let ?f = "spaced (flag_words args)"
  have f: "(case print_flags len (flag_letters args) ([CHR ''-''], 1) of Inl r \<Rightarrow> Inl r | Inr (buf, off) \<Rightarrow> Inr (if off = 1 then ([], 0) else (buf, off))) = Inr (?f, length ?f)"
    "\<forall>t\<in>set (flag_words args). t \<noteq> []" "length ?f < len"
  proof -
    show "length ?f < len"
    proof (cases "?vs @ ?as = []")
      case False
      then show ?thesis using assms(2,3) spaced_append [of "flag_words args" "?vs @ ?as"] by (cases "flag_words args = []") (simp_all add: args_texts_def)
    qed (use assms(2) in \<open>simp add: args_texts_def\<close>)
    then have "1 + length (flag_letters args) < len" using assms(4) by (cases "flag_letters args = []") (simp_all add: flag_words_def)
    from print_flags_fits [OF this] show "(case print_flags len (flag_letters args) ([CHR ''-''], 1) of Inl r \<Rightarrow> Inl r | Inr (buf, off) \<Rightarrow> Inr (if off = 1 then ([], 0) else (buf, off))) = Inr (?f, length ?f)"
      by (simp add: flag_words_def)
  qed (simp add: flag_words_def)
  have ne1: "\<forall>t\<in>set (flag_words args @ ?vs). t \<noteq> []" using f(2) ne(1) by auto
  note g1 = spaced_glued [OF ne(1) f(2)] spaced_glued_length [OF ne(1) f(2)]
  note g2 = spaced_glued [OF ne(2) ne1] spaced_glued_length [OF ne(2) ne1]
  have l2: "length (spaced (flag_words args @ ?vs)) + length (glued (length (spaced (flag_words args @ ?vs))) ?as) < len"
    unfolding g2 using assms(2) by (simp add: args_texts_def)
  then have "length ?f + length (glued (length ?f) ?vs) < len" unfolding g1 by simp
  from print_texts_fits [OF this, of ?f] have p1: "print_texts len ?vs (?f, length ?f) = Inr (spaced (flag_words args @ ?vs), length (spaced (flag_words args @ ?vs)))"
    unfolding g1 .
  from print_texts_fits [OF l2, of "spaced (flag_words args @ ?vs)"] have p2: "print_texts len ?as (spaced (flag_words args @ ?vs), length (spaced (flag_words args @ ?vs))) = Inr (spaced (args_texts args), length (spaced (args_texts args)))"
    unfolding g2 args_texts_def append_assoc .
  show ?thesis
  proof (cases "print_flags len (flag_letters args) ([CHR ''-''], 1)")
    case (Inr b)
    then have "(if snd b = 1 then ([], 0) else b) = (?f, length ?f)" using f(1) by (cases b) (auto split: if_splits)
    then show ?thesis using Inr p1 p2 assms(3) by (cases b) (auto simp: args_print_def)
  qed (use f(1) in simp)
qed

end
