(* ===== verification/Cmd_Props.thy ===== *)
theory Cmd_Props
  imports Cmd_Print
begin

text \<open>
  The properties of commands as text: every name and alias finds its command, a list of
  commands that is printed is read again, and what printing and reading do wrong.
\<close>

section \<open>Words\<close>

lemma spaced_concat: "\<forall>xs\<in>set xss. xs \<noteq> [] \<Longrightarrow> spaced (map spaced xss) = spaced (concat xss)"
proof (induction xss rule: induct_list012)
  case (3 xs ys xss)
  then have "concat (ys # xss) \<noteq> []" by (cases ys) auto
  then show ?case using 3 spaced_append [of xs "concat (ys # xss)"] by simp
qed simp_all

lemma args_texts_words:
  assumes "args_ok template args"
  shows "spaced (args_texts args) = spaced (map quoted (args_words args))"
proof -
  let ?l = "map (\<lambda>w. [quoted w])" and ?v = "\<lambda>c. [[CHR ''-'', c], quoted (the (a_values args c))]"
  let ?xss = "?l (flag_words args) @ map ?v (value_letters args) @ ?l (a_argv args)"
  have ns: "c \<noteq> CHR '' ''" if "a_flags args c" for c using assms that by (auto simp: args_ok_def letter_ok_def)
  then have f: "flag_words args = map quoted (flag_words args)"
    by (auto simp: flag_words_def quoted_def flag_letters_def)
  have v: "value_texts args = map (\<lambda>c. spaced (?v c)) (value_letters args)" by (simp add: value_texts_def value_letters_def)
  have "map spaced ?xss = map quoted (flag_words args) @ map (\<lambda>c. spaced (?v c)) (value_letters args) @ map quoted (a_argv args)" by simp
  then have t: "args_texts args = map spaced ?xss" unfolding args_texts_def v using f by simp
  have qv: "quoted [CHR ''-'', c] = [CHR ''-'', c]" if "c \<in> set (value_letters args)" for c
  proof -
    have "a_flags args c" using that set_letters(2) [OF assms] by blast
    then show ?thesis using ns by (auto simp: quoted_def)
  qed
  have "concat ?xss = map quoted (args_words args)"
    by (simp add: args_words_def value_words_def map_concat comp_def qv cong: map_cong)
  then show ?thesis unfolding t by (subst spaced_concat) auto
qed

definition cmd_words :: "cmd \<Rightarrow> string list" where
  "cmd_words cmd = ce_name (c_entry cmd) # args_words (c_args cmd)"

definition cmd_text :: "cmd \<Rightarrow> string" where
  "cmd_text cmd = spaced (map quoted (cmd_words cmd))"

text \<open>
  Commands that can be read again: an entry of the table with arguments that fit its template
  and pass its checks, no word of which is empty, has a special character, or ends with a
  semicolon.
\<close>

definition printable :: "cmd \<Rightarrow> bool" where
  "printable cmd \<longleftrightarrow>
     (let e = c_entry cmd; args = c_args cmd; n = int (length (a_argv args)) in
      e \<in> set cmd_table \<and> args_ok (ce_template e) args \<and>
      (\<forall>w\<in>set (args_words args). good_word w \<and> last w \<noteq> CHR '';'') \<and>
      (ce_lower e = -1 \<or> ce_lower e \<le> n) \<and> (ce_upper e = -1 \<or> n \<le> ce_upper e) \<and> entry_check (ce_check e) args)"

lemma printableD:
  assumes "printable cmd"
  shows "c_entry cmd \<in> set cmd_table" "args_ok (ce_template (c_entry cmd)) (c_args cmd)" "words_ok (c_args cmd)"
    "\<forall>w\<in>set (cmd_words cmd). good_word w \<and> last w \<noteq> CHR '';''" "CHR '' '' \<notin> set (ce_name (c_entry cmd))" "CHR ''='' \<notin> set (ce_name (c_entry cmd))"
proof -
  let ?n = "ce_name (c_entry cmd)"
  show e: "c_entry cmd \<in> set cmd_table" using assms by (simp add: printable_def Let_def)
  then have n: "good_word ?n" "\<forall>c\<in>set ?n. c \<notin> set '' =;''" using table_names unfolding list_all_iff by blast+
  have "last ?n \<in> set ?n" using n(1) by (simp add: good_word_def)
  then have "last ?n \<noteq> CHR '';''" using n(2) by auto
  then show "\<forall>w\<in>set (cmd_words cmd). good_word w \<and> last w \<noteq> CHR '';''"
    using assms n(1) by (auto simp: cmd_words_def printable_def Let_def)
  show "CHR '' '' \<notin> set ?n" "CHR ''='' \<notin> set ?n" using n(2) by auto
qed (use assms in \<open>auto simp: printable_def Let_def words_ok_def\<close>)

lemma parse_words:
  assumes "printable cmd"
  shows "cmd_parse (cmd_words cmd) = Inr cmd"
proof -
  let ?e = "c_entry cmd"
  have "find_entry (ce_name ?e) cmd_table (None, False) = (Some ?e, False)"
    using printableD(1) [OF assms] table_finds by (auto simp: list_all_iff finds_def)
  moreover have "args_parse (ce_template ?e) (cmd_words cmd) = Some (c_args cmd)"
    unfolding cmd_words_def using printableD(2) [OF assms] by (rule args_parse_words)
  ultimately show ?thesis using assms by (cases cmd) (auto simp: cmd_parse_def cmd_words_def printable_def Let_def)
qed

section \<open>Printing\<close>

lemma print_cmd:
  assumes "printable cmd" "length (cmd_text cmd) + 1 < len"
  shows "cmd_print cmd len = Some (if args_words (c_args cmd) = [] then (cmd_text cmd @ [char_of (0::nat)], length (cmd_text cmd) + 1)
    else (cmd_text cmd, length (cmd_text cmd)))"
proof -
  let ?n = "ce_name (c_entry cmd)" and ?ws = "args_words (c_args cmd)"
  let ?t = "spaced (args_texts (c_args cmd))"
  have q: "quoted ?n = ?n" using printableD(5) [OF assms(1)] by (simp add: quoted_def)
  have t: "?t = spaced (map quoted ?ws)" using args_texts_words printableD(2) [OF assms(1)] .
  show ?thesis
  proof (cases "?ws = []")
    case True
    then have "cmd_text cmd = ?n" by (simp add: cmd_text_def cmd_words_def q)
    moreover have "args_print (c_args cmd) (len - (length ?n + 1)) = ([], 0)"
      using True print_args [OF printableD(3) [OF assms(1)], of "len - (length ?n + 1)"] assms(2) calculation
      by (cases "1 < len - (length ?n + 1)") (auto simp: args_print_def args_words_def flag_words_def value_words_def t spaced.simps(1) value_texts_def value_letters_def split: if_splits)
    ultimately show ?thesis using True assms(2) by (simp add: cmd_print_def Let_def)
  next
    case False
    have c: "cmd_text cmd = ?n @ '' '' @ ?t" using False by (cases ?ws) (simp_all add: cmd_text_def cmd_words_def q t)
    have "?t \<noteq> []"
    proof -
      obtain w ws where w: "?ws = w # ws" using False by (cases ?ws) auto
      then have "w \<noteq> []" using printableD(3) [OF assms(1)] by (auto simp: words_ok_def good_word_def)
      then show ?thesis using w quoted_nonempty [of w] unfolding t by (cases ws) simp_all
    qed
    then have "0 < length ?t" by simp
    then have "args_print (c_args cmd) (len - (length ?n + 1)) = (?t, length ?t)"
      using assms(2) c by (intro print_args printableD(3) [OF assms(1)]) auto
    then show ?thesis using False assms(2) \<open>0 < length ?t\<close> c by (simp add: cmd_print_def Let_def)
  qed
qed

section \<open>Lists\<close>

fun list_words :: "cmd list \<Rightarrow> string list" where
  "list_words [] = []"
| "list_words [c] = cmd_words c"
| "list_words (c # d # cs) = cmd_words c @ '';'' # list_words (d # cs)"

definition list_text :: "cmd list \<Rightarrow> string" where
  "list_text cmds = spaced (map quoted (list_words cmds))"

lemma list_words_nonempty: "cmds \<noteq> [] \<Longrightarrow> list_words cmds \<noteq> []"
  by (cases cmds rule: list_words.cases) (simp_all add: cmd_words_def)

lemma list_text_Cons: "list_text (c # d # cs) = cmd_text c @ '' ; '' @ list_text (d # cs)"
proof -
  have "map quoted (list_words (d # cs)) \<noteq> []" using list_words_nonempty [of "d # cs"] by simp
  then have "spaced ('';'' # map quoted (list_words (d # cs))) = ''; '' @ list_text (d # cs)"
    using spaced_append [of "['';'']" "map quoted (list_words (d # cs))"] by (simp add: list_text_def)
  moreover have "map quoted (cmd_words c) \<noteq> []" by (simp add: cmd_words_def)
  moreover have "quoted '';'' = '';''" by (simp add: quoted_def)
  ultimately show ?thesis
    using spaced_append [of "map quoted (cmd_words c)" "'';'' # map quoted (list_words (d # cs))"]
    by (simp add: list_text_def cmd_text_def)
qed

lemma list_parse_words:
  "\<forall>w\<in>set ws. good_word w \<and> last w \<noteq> CHR '';'' \<Longrightarrow> list_parse_loop (ws @ r) cur cmds = list_parse_loop r (cur @ ws) cmds"
  by (induction ws arbitrary: cur) (auto simp: good_word_def)

lemma parse_list:
  "cmds \<noteq> [] \<Longrightarrow> \<forall>c\<in>set cmds. printable c \<Longrightarrow> list_parse_loop (list_words cmds) [] acc = Inr (acc @ cmds)"
proof (induction cmds arbitrary: acc rule: list_words.induct)
  case (2 c)
  then have "list_parse_loop (cmd_words c) [] acc = list_parse_loop [] (cmd_words c) acc"
    using list_parse_words [of "cmd_words c" "[]"] printableD(4) [of c] by simp
  moreover have "cmd_words c \<noteq> []" by (simp add: cmd_words_def)
  ultimately show ?case using parse_words [of c] 2 by simp
next
  case (3 c d cs)
  have "list_parse_loop (list_words (c # d # cs)) [] acc = list_parse_loop ('';'' # list_words (d # cs)) (cmd_words c) acc"
    using list_parse_words [of "cmd_words c" "'';'' # list_words (d # cs)"] printableD(4) [of c] 3 by simp
  also have "\<dots> = list_parse_loop (list_words (d # cs)) [] (acc @ [c])" using parse_words [of c] 3 by simp
  finally show ?case using 3 by simp
qed simp

lemma good_words: "\<forall>c\<in>set cmds. printable c \<Longrightarrow> w \<in> set (list_words cmds) \<Longrightarrow> good_word w"
proof (induction cmds rule: list_words.induct)
  case (3 c d cs)
  then show ?case using printableD(4) [of c] by (auto simp: good_word_def plain_def)
qed (use printableD(4) in auto)

lemma text_no_nul: "\<forall>w\<in>set ws. good_word w \<Longrightarrow> char_of (0::nat) \<notin> set (spaced (map quoted ws))"
proof (induction ws rule: spaced.induct)
  have z: "char_of (0::nat) = CHR 0x00" by code_simp
  have q: "char_of (0::nat) \<notin> set (quoted w)" if "good_word w" for w
    using that by (auto simp: z good_word_def plain_def quoted_def list_all_iff)
  case (3 w v ws)
  then show ?case using q [of w] z by (auto simp: z)
next
  case (2 w)
  have z: "char_of (0::nat) = CHR 0x00" by code_simp
  show ?case using 2 by (auto simp: z good_word_def plain_def quoted_def list_all_iff)
qed simp

definition has_args :: "cmd \<Rightarrow> bool" where
  "has_args cmd \<longleftrightarrow> args_words (c_args cmd) \<noteq> []"

lemma print_list:
  "cmds \<noteq> [] \<Longrightarrow> \<forall>c\<in>set cmds. printable c \<Longrightarrow> \<forall>c\<in>set (butlast cmds). has_args c \<Longrightarrow> off + length (list_text cmds) + 1 < len \<Longrightarrow>
   \<exists>t off'. list_print_loop len cmds (buf, off) = Some (buf @ list_text cmds @ t, off') \<and> t \<in> {[], [char_of (0::nat)]}"
proof (induction cmds arbitrary: buf off rule: list_words.induct)
  case (2 c)
  then have l: "length (cmd_text c) + 1 < len - off" by (simp add: list_text_def cmd_text_def)
  have t: "list_text [c] = cmd_text c" by (simp add: list_text_def cmd_text_def)
  show ?case using print_cmd [of c "len - off"] l 2 by (auto simp: t)
next
  case (3 c d cs)
  have l: "off + length (cmd_text c) + 3 + length (list_text (d # cs)) + 1 < len" using "3.prems"(4) by (simp add: list_text_Cons)
  have "cmd_print c (len - off) = Some (cmd_text c, length (cmd_text c))"
    using print_cmd [of c "len - off"] l "3.prems"(2,3) by (auto simp: has_args_def)
  moreover have "print_to len '' ; '' (buf @ cmd_text c, off + length (cmd_text c)) = (buf @ cmd_text c @ '' ; '', off + length (cmd_text c) + 3)"
    using l by (simp add: print_to_def)
  ultimately have "list_print_loop len (c # d # cs) (buf, off) = list_print_loop len (d # cs) (buf @ cmd_text c @ '' ; '', off + length (cmd_text c) + 3)"
    using l by simp
  moreover have "\<exists>t off'. list_print_loop len (d # cs) (buf @ cmd_text c @ '' ; '', off + length (cmd_text c) + 3) =
      Some ((buf @ cmd_text c @ '' ; '') @ list_text (d # cs) @ t, off') \<and> t \<in> {[], [char_of (0::nat)]}"
    using "3.prems" l by (intro "3.IH") simp_all
  ultimately show ?case by (simp add: list_text_Cons)
qed simp

section \<open>Properties\<close>


text \<open>No user has a home directory.\<close>

definition no_homes :: homes where
  "no_homes = \<lparr>own_home = None, home_of = (\<lambda>_. None)\<rparr>"

definition sample_cmd :: cmd where
  "sample_cmd = \<lparr>c_entry = cmd_new_window_entry,
     c_args = \<lparr>a_flags = (\<lambda>c. c = CHR ''d'' \<or> c = CHR ''n''), a_values = (\<lambda>c. if c = CHR ''n'' then Some ''my shell'' else None), a_argv = [''top -d 1'']\<rparr>\<rparr>"

definition sample_bare :: cmd where
  "sample_bare = \<lparr>c_entry = cmd_list_keys_entry, c_args = args_create []\<rparr>"

lemma filter_single: "distinct xs \<Longrightarrow> c \<in> set xs \<Longrightarrow> (\<And>x. P x \<longleftrightarrow> x = c) \<Longrightarrow> filter P xs = [c]"
  by (induction xs) (auto simp: filter_empty_conv)

lemma sample_letters: "flag_letters (c_args sample_cmd) = [CHR ''d'']" "value_letters (c_args sample_cmd) = [CHR ''n'']"
proof -
  have d: "distinct (map char_of [0..<SCHAR_MAX])" using inj_on_letters by (simp add: distinct_map)
  have "CHR ''d'' \<in> set (map char_of [0..<SCHAR_MAX])" "CHR ''n'' \<in> set (map char_of [0..<SCHAR_MAX])"
    unfolding all_letters by (simp_all add: char_code_def)
  from filter_single [OF d this(1)] filter_single [OF d this(2)]
  show "flag_letters (c_args sample_cmd) = [CHR ''d'']" "value_letters (c_args sample_cmd) = [CHR ''n'']"
    unfolding flag_letters_def value_letters_def by (simp_all add: sample_cmd_def)
qed

lemma sample_words: "args_words (c_args sample_cmd) = [''-d'', ''-n'', ''my shell'', ''top -d 1'']" "args_words (c_args sample_bare) = []"
  by (simp_all add: args_words_def flag_words_def value_words_def sample_letters)
    (simp_all add: sample_cmd_def sample_bare_def args_create_def flag_letters_def value_letters_def)

lemma sample_text: "cmd_text sample_cmd = ''new-window -d -n '' @ [CHR ''\"''] @ ''my shell'' @ [CHR ''\"'', CHR '' '', CHR ''\"''] @ ''top -d 1'' @ [CHR ''\"'']"
  "cmd_text sample_bare = ''list-keys''"
  by (simp_all add: cmd_text_def cmd_words_def sample_words quoted_def)
    (simp_all add: sample_cmd_def sample_bare_def cmd_new_window_entry_def cmd_list_keys_entry_def)

lemma sample_printable: "printable sample_cmd" "printable sample_bare"
proof -
  have "cmd_new_window_entry \<in> set cmd_table" "cmd_list_keys_entry \<in> set cmd_table" by (simp_all add: cmd_table_def)
  then show "printable sample_cmd" "printable sample_bare"
    using sample_words
    by (simp_all add: printable_def Let_def sample_cmd_def sample_bare_def cmd_new_window_entry_def cmd_list_keys_entry_def args_ok_def letter_ok_def
        takes_value_def good_word_def plain_def entry_check_def args_create_def char_code_def)
qed


text \<open>
  C36: Every name and every alias in the table of commands finds its own entry, although the
  table is searched for prefixes and many names begin like others: no name is ambiguous.
\<close>

theorem command_names_found:
  assumes "e \<in> set cmd_table" "name = ce_name e \<or> ce_alias e = Some name"
  shows "find_entry name cmd_table (None, False) = (Some e, False)"
  using assms table_finds table_aliases by (auto simp: list_all_iff finds_def)

theorem command_names_found_witness: "find_entry ''set'' cmd_table (None, False) = (Some cmd_set_option_entry, False)"
proof (rule command_names_found)
  show "cmd_set_option_entry \<in> set cmd_table" by (simp add: cmd_table_def)
qed (simp add: cmd_set_option_entry_def)

lemma list_print_extends: "list_print_loop len cmds (buf, off) = Some (b, off') \<Longrightarrow> \<exists>t. b = buf @ t"
proof (induction cmds arbitrary: buf off)
  case (Cons c cmds)
  then show ?case by (auto simp: print_to_def split: if_splits option.splits) (metis append.assoc)+
qed simp

text \<open>
  C37: A list that begins with a command without flags and arguments is printed as the name of
  this command only: cmd_print ends the string before the position from which cmd_list_print
  goes on, so that the rest of the list is behind the end of the string.
\<close>

theorem cmd_list_print_stops:
  assumes "printable cmd" "args_words (c_args cmd) = []" "length (ce_name (c_entry cmd)) + 1 < len" "cmd_list_print (cmd # cmds) len = Some t"
  shows "t = ce_name (c_entry cmd)"
proof -
  let ?n = "ce_name (c_entry cmd)"
  have n: "cmd_text cmd = ?n" using assms(2) printableD(5) [OF assms(1)] by (simp add: cmd_text_def cmd_words_def quoted_def)
  have c: "cmd_print cmd len = Some (?n @ [char_of (0::nat)], length ?n + 1)"
    using print_cmd [OF assms(1), of len] assms(2,3) by (simp add: n)
  obtain b off where b: "list_print_loop len (cmd # cmds) ([], 0) = Some (b, off)" "t = takeWhile (\<lambda>c. c \<noteq> char_of (0::nat)) b"
    using assms(4) by (auto simp: cmd_list_print_def)
  have "\<exists>r. b = (?n @ [char_of (0::nat)]) @ r"
    using b(1) c assms(3) by (auto simp: print_to_def split: if_splits dest!: list_print_extends)
  then obtain r where r: "b = (?n @ [char_of (0::nat)]) @ r" by blast
  have "char_of (0::nat) \<notin> set ?n" using text_no_nul [of "[?n]"] printableD(4,5) [OF assms(1)] by (simp add: cmd_words_def quoted_def)
  then have "takeWhile (\<lambda>c. c \<noteq> char_of (0::nat)) ((?n @ [char_of (0::nat)]) @ r) = ?n" by (subst append_assoc) (subst takeWhile_append2; auto)
  then show ?thesis using b(2) r by simp
qed

theorem cmd_list_print_stops_witness:
  "cmd_list_print [sample_bare, sample_cmd] 100 = Some ''list-keys''"
proof -
  have n: "ce_name (c_entry sample_bare) = ''list-keys''" by (simp add: sample_bare_def cmd_list_keys_entry_def)
  have "cmd_print sample_bare 100 \<noteq> None" "cmd_print sample_bare 100 = Some (cmd_text sample_bare @ [char_of (0::nat)], length (cmd_text sample_bare) + 1)"
    using print_cmd [OF sample_printable(2), of 100] by (simp_all add: sample_words sample_text)
  moreover have "cmd_print sample_cmd 87 = Some (cmd_text sample_cmd, length (cmd_text sample_cmd))"
    using print_cmd [OF sample_printable(1), of 87] by (simp add: sample_words sample_text)
  ultimately have "cmd_list_print [sample_bare, sample_cmd] 100 \<noteq> None" by (simp add: cmd_list_print_def print_to_def sample_text)
  then obtain t where t: "cmd_list_print [sample_bare, sample_cmd] 100 = Some t" by blast
  have "t = ce_name (c_entry sample_bare)"
    by (rule cmd_list_print_stops [OF sample_printable(2) sample_words(2) _ t]) (simp add: n)
  then show ?thesis using t n by simp
qed

text \<open>Texts that do not fit: the position is moved to the end of the buffer or behind it.\<close>

definition reached :: "(string \<times> nat) + (string \<times> nat) \<Rightarrow> nat" where
  "reached r = (case r of Inl (b, off) \<Rightarrow> off | Inr (b, off) \<Rightarrow> off)"

lemma print_texts_over: "len \<le> off + length (glued off ts) \<Longrightarrow> len \<le> reached (print_texts len ts (buf, off))"
proof (induction ts arbitrary: buf off)
  case (Cons t ts)
  then show ?case using Cons.IH [of "off + length ((if off \<noteq> 0 then '' '' else []) @ t)"]
    by (simp add: reached_def print_to_def Let_def)
qed (simp add: reached_def)

lemma print_flags_over: "len \<le> off + length cs \<Longrightarrow> off < len \<Longrightarrow> \<exists>b. print_flags len cs (buf, off) = Inl (b, len)"
  by (induction cs arbitrary: buf off) auto

lemma print_args_over:
  assumes "words_ok args" "len \<le> length (spaced (args_texts args))" "1 < len"
  shows "len \<le> snd (args_print args len)"
proof (cases "1 + length (flag_letters args) < len")
  case False
  then obtain b where "print_flags len (flag_letters args) ([CHR ''-''], 1) = Inl (b, len)"
    using print_flags_over [of len 1 "flag_letters args" "[CHR ''-'']"] assms(3) by auto
  then show ?thesis by (simp add: args_print_def)
next
  case True
  let ?f = "spaced (flag_words args)" and ?vs = "value_texts args" and ?as = "map quoted (a_argv args)"
  have ne: "\<forall>t\<in>set ?vs. t \<noteq> []" "\<forall>t\<in>set ?as. t \<noteq> []" "\<forall>t\<in>set (flag_words args). t \<noteq> []"
    using assms(1) value_texts_nonempty by (auto simp: words_ok_def args_words_def good_word_def quoted_nonempty)
  then have ne1: "\<forall>t\<in>set (flag_words args @ ?vs). t \<noteq> []" by auto
  note g1 = spaced_glued_length [OF ne(1,3)] and g2 = spaced_glued_length [OF ne(2) ne1]
  have f: "args_print args len = (case print_texts len ?vs (?f, length ?f) of Inl r \<Rightarrow> r | Inr b \<Rightarrow> (case print_texts len ?as b of Inl r \<Rightarrow> r | Inr b \<Rightarrow> b))"
    using True print_flags_fits [OF True, of "[CHR ''-'']"] by (auto simp: args_print_def flag_words_def)
  show ?thesis
  proof (cases "print_texts len ?vs (?f, length ?f)")
    case (Inl r)
    have "len \<le> length ?f + length (glued (length ?f) ?vs)"
    proof (rule ccontr)
      assume "\<not> ?thesis"
      then show False using print_texts_fits [of "length ?f" ?vs len ?f] Inl by simp
    qed
    then show ?thesis using print_texts_over [of len "length ?f" ?vs ?f] Inl by (cases r) (simp add: f reached_def)
  next
    case (Inr b)
    have "len \<le> snd b + length (glued (snd b) ?as)"
    proof (cases "len \<le> length ?f + length (glued (length ?f) ?vs)")
      case True
      then show ?thesis using print_texts_over [of len "length ?f" ?vs ?f] Inr by (cases b) (simp add: reached_def)
    next
      case False
      then have "snd b = length (spaced (flag_words args @ ?vs))" using print_texts_fits [of "length ?f" ?vs len ?f] Inr g1 by auto
      then show ?thesis using assms(2) g2 by (simp add: args_texts_def)
    qed
    then have "len \<le> reached (print_texts len ?as b)" using print_texts_over [of len "snd b" ?as "fst b"] by simp
    then show ?thesis by (auto simp: f Inr reached_def split: sum.splits prod.splits)
  qed
qed

text \<open>
  cmd_print of a command whose arguments do not fit into the buffer writes behind its end:
  args_print returns the length that the text would have, and the NUL is put there.
\<close>

theorem cmd_print_overflows:
  assumes "printable cmd" "args_words (c_args cmd) \<noteq> []" "length (ce_name (c_entry cmd)) + 2 < len" "len \<le> length (cmd_text cmd)"
  shows "cmd_print cmd len = None"
proof -
  let ?n = "ce_name (c_entry cmd)" and ?ws = "args_words (c_args cmd)" and ?t = "spaced (args_texts (c_args cmd))"
  have q: "quoted ?n = ?n" using printableD(5) [OF assms(1)] by (simp add: quoted_def)
  have t: "?t = spaced (map quoted ?ws)" using args_texts_words printableD(2) [OF assms(1)] .
  have "cmd_text cmd = ?n @ '' '' @ ?t" using assms(2) by (cases ?ws) (simp_all add: cmd_text_def cmd_words_def q t)
  then have "len - (length ?n + 1) \<le> snd (args_print (c_args cmd) (len - (length ?n + 1)))"
    using assms(3,4) by (intro print_args_over printableD(3) [OF assms(1)]) auto
  then show ?thesis using assms(3) by (cases "args_print (c_args cmd) (len - (length ?n + 1))") (auto simp: cmd_print_def Let_def)
qed

theorem cmd_print_overflows_witness: "cmd_print sample_cmd 30 = None"
  by (rule cmd_print_overflows [OF sample_printable(1)]) (simp_all add: sample_words sample_text, simp add: sample_cmd_def cmd_new_window_entry_def)

text \<open>
  C38: A line with a variable that set-environment -r has marked for removal: the entry is found
  in the global environment and its value, a null pointer, is copied.
\<close>

theorem removed_variable_faults:
  assumes "environ_find env (c # cs) = Some e" "ee_value e = None" "cmd_string_first c" "list_all cmd_string_other cs"
  shows "cmd_string_parse pw env (CHR ''$'' # c # cs) = None"
proof -
  have t: "takeWhile cmd_string_other cs = cs" using assms(4) by (simp add: takeWhile_eq_all_conv list_all_iff)
  have "c \<noteq> CHR ''{''" using assms(3) by (auto simp: cmd_string_first_def char_code_def)
  then have "cmd_string_variable env (CHR ''$'' # c # cs) 1 = None"
    using assms(1-3) by (simp add: cmd_string_variable_def getc_drop Let_def t split: list.split)
  then show ?thesis by (simp add: cmd_string_parse_def) (subst string_parse_loop.simps, simp add: getc_drop)
qed

theorem removed_variable_faults_witness:
  "cmd_string_parse no_homes (snd (set_environment False True [''TERM''] None [])) ''$TERM'' = None"
  by (rule removed_variable_faults [where e = "\<lparr>ee_name = ''TERM'', ee_value = None\<rparr>"])
    (simp_all add: set_environment_def environ_set_def environ_find_def cmd_string_first_def cmd_string_other_def is_digit_def char_code_def)

end
