(* ===== verification/Window_Panes.thy ===== *)
theory Window_Panes
  imports Layout
begin

text \<open>
  The panes of a window in window.c: which is active and which was, finding panes by number, by
  position and by direction. A pane is named by its number in the list of the window.
\<close>

record window = layout_window +
  w_active :: "nat option"
  w_last :: "nat option"

definition find_pane :: "nat \<Rightarrow> ('a layout_window_scheme) \<Rightarrow> layout_pane option" where
  "find_pane wp w = find (\<lambda>p. lp_id p = wp) (lw_panes w)"

definition window_pane_visible :: "'a layout_window_scheme \<Rightarrow> layout_pane \<Rightarrow> bool" where
  "window_pane_visible w wp \<longleftrightarrow>
     \<not> (lp_xoff wp \<ge> lw_sx w \<or> lp_yoff wp \<ge> lw_sy w) \<and>
     \<not> (uadd (lp_xoff wp) (lp_sx wp) > lw_sx w \<or> uadd (lp_yoff wp) (lp_sy wp) > lw_sy w)"

definition window_pane_at_index :: "'a layout_window_scheme \<Rightarrow> nat \<Rightarrow> layout_pane option" where
  "window_pane_at_index w idx = (if idx < length (lw_panes w) then Some (lw_panes w ! idx) else None)"

definition window_pane_index :: "'a layout_window_scheme \<Rightarrow> nat \<Rightarrow> nat" where
  "window_pane_index w wp = length (takeWhile (\<lambda>p. lp_id p \<noteq> wp) (lw_panes w))"

definition window_count_panes :: "'a layout_window_scheme \<Rightarrow> nat" where
  "window_count_panes w = length (lw_panes w)"

text \<open>The pane after or before one, going around; TAILQ_NEXT and TAILQ_PREV of the queue.\<close>

definition tailq_next :: "'a layout_window_scheme \<Rightarrow> nat \<Rightarrow> nat option" where
  "tailq_next w wp = map_option lp_id (window_pane_at_index w (window_pane_index w wp + 1))"

definition tailq_prev :: "'a layout_window_scheme \<Rightarrow> nat \<Rightarrow> nat option" where
  "tailq_prev w wp = (case window_pane_index w wp of 0 \<Rightarrow> None | Suc k \<Rightarrow> map_option lp_id (window_pane_at_index w k))"

definition next_pane :: "'a layout_window_scheme \<Rightarrow> nat \<Rightarrow> nat" where
  "next_pane w wp = (case tailq_next w wp of None \<Rightarrow> lp_id (hd (lw_panes w)) | Some p \<Rightarrow> p)"

definition previous_pane :: "'a layout_window_scheme \<Rightarrow> nat \<Rightarrow> nat" where
  "previous_pane w wp = (case tailq_prev w wp of None \<Rightarrow> lp_id (last (lw_panes w)) | Some p \<Rightarrow> p)"

definition window_pane_next_by_number :: "'a layout_window_scheme \<Rightarrow> nat \<Rightarrow> nat \<Rightarrow> nat" where
  "window_pane_next_by_number w wp n = (next_pane w ^^ n) wp"

definition window_pane_previous_by_number :: "'a layout_window_scheme \<Rightarrow> nat \<Rightarrow> nat \<Rightarrow> nat" where
  "window_pane_previous_by_number w wp n = (previous_pane w ^^ n) wp"

text \<open>
  Making a pane active: if it is not visible, the one before it that is. The search comes
  around to the pane after as many turns as there are panes.
\<close>

definition shows_pane :: "'a layout_window_scheme \<Rightarrow> nat \<Rightarrow> bool" where
  "shows_pane w wp \<longleftrightarrow> (case find_pane wp w of None \<Rightarrow> False | Some p \<Rightarrow> window_pane_visible w p)"

fun visible_from :: "nat \<Rightarrow> 'a layout_window_scheme \<Rightarrow> nat \<Rightarrow> nat \<Rightarrow> nat option" where
  "visible_from 0 w wp a = None"
| "visible_from (Suc k) w wp a =
     (if shows_pane w a then Some a
      else let a = previous_pane w a in if a = wp then Some a else visible_from k w wp a)"

definition window_set_active_pane :: "nat \<Rightarrow> window \<Rightarrow> window option" where
  "window_set_active_pane wp w =
     (if w_active w = Some wp then Some w
      else map_option (\<lambda>a. w\<lparr>w_last := w_active w, w_active := Some a\<rparr>) (visible_from (length (lw_panes w)) w wp wp))"

definition inside_pane :: "layout_pane \<Rightarrow> nat \<Rightarrow> nat \<Rightarrow> bool" where
  "inside_pane wp px py \<longleftrightarrow> lp_xoff wp \<le> px \<and> px < uadd (lp_xoff wp) (lp_sx wp) \<and>
     lp_yoff wp \<le> py \<and> py < uadd (lp_yoff wp) (lp_sy wp)"

definition window_set_active_at :: "nat \<Rightarrow> nat \<Rightarrow> window \<Rightarrow> window option" where
  "window_set_active_at x y w =
     (case find (\<lambda>wp. w_active w \<noteq> Some (lp_id wp) \<and> window_pane_visible w wp \<and> inside_pane wp x y) (lw_panes w) of
        None \<Rightarrow> Some w
      | Some wp \<Rightarrow> window_set_active_pane (lp_id wp) w)"

text \<open>Adding a pane after the active one, and removing a pane.\<close>

definition window_add_pane :: "layout_pane \<Rightarrow> window \<Rightarrow> window option" where
  "window_add_pane wp w =
     (if lw_panes w = [] then Some (w\<lparr>lw_panes := [wp]\<rparr>)
      else do {
        a \<leftarrow> w_active w;
        Some (w\<lparr>lw_panes := take (window_pane_index w a + 1) (lw_panes w) @ wp # drop (window_pane_index w a + 1) (lw_panes w)\<rparr>)
      })"

definition window_remove_pane :: "nat \<Rightarrow> window \<Rightarrow> window" where
  "window_remove_pane wp w =
     (let w1 = (if w_active w = Some wp then
            w\<lparr>w_active := (case w_last w of Some a \<Rightarrow> Some a
                | None \<Rightarrow> (case tailq_prev w wp of Some a \<Rightarrow> Some a | None \<Rightarrow> tailq_next w wp)), w_last := None\<rparr>
          else if w_last w = Some wp then w\<lparr>w_last := None\<rparr> else w) in
      w1\<lparr>lw_panes := filter (\<lambda>p. lp_id p \<noteq> wp) (lw_panes w1)\<rparr>)"

section \<open>Neighbours\<close>

definition window_pane_find_up :: "'a layout_window_scheme \<Rightarrow> layout_pane \<Rightarrow> layout_pane option" where
  "window_pane_find_up w wp =
     (if \<not> window_pane_visible w wp then None
      else let top = (if lp_yoff wp = 0 then uadd (lw_sy w) 1 else lp_yoff wp); left = lp_xoff wp in
        find (\<lambda>wp2. window_pane_visible w wp2 \<and> uadd (uadd (lp_yoff wp2) (lp_sy wp2)) 1 = top \<and>
          lp_xoff wp2 \<le> left \<and> left \<le> uadd (lp_xoff wp2) (lp_sx wp2)) (lw_panes w))"

definition window_pane_find_down :: "'a layout_window_scheme \<Rightarrow> layout_pane \<Rightarrow> layout_pane option" where
  "window_pane_find_down w wp =
     (if \<not> window_pane_visible w wp then None
      else let b = uadd (uadd (lp_yoff wp) (lp_sy wp)) 1; bottom = (if b \<ge> lw_sy w then 0 else b); left = lp_xoff wp in
        find (\<lambda>wp2. window_pane_visible w wp2 \<and> lp_yoff wp2 = bottom \<and>
          lp_xoff wp2 \<le> left \<and> left \<le> uadd (lp_xoff wp2) (lp_sx wp2)) (lw_panes w))"

definition window_pane_find_left :: "'a layout_window_scheme \<Rightarrow> layout_pane \<Rightarrow> layout_pane option" where
  "window_pane_find_left w wp =
     (if \<not> window_pane_visible w wp then None
      else let left = (if lp_xoff wp = 0 then uadd (lw_sx w) 1 else lp_xoff wp); top = lp_yoff wp in
        find (\<lambda>wp2. window_pane_visible w wp2 \<and> uadd (uadd (lp_xoff wp2) (lp_sx wp2)) 1 = left \<and>
          lp_yoff wp2 \<le> top \<and> top \<le> uadd (lp_yoff wp2) (lp_sy wp2)) (lw_panes w))"

definition window_pane_find_right :: "'a layout_window_scheme \<Rightarrow> layout_pane \<Rightarrow> layout_pane option" where
  "window_pane_find_right w wp =
     (if \<not> window_pane_visible w wp then None
      else let r = uadd (uadd (lp_xoff wp) (lp_sx wp)) 1; right = (if r \<ge> lw_sx w then 0 else r); top = lp_yoff wp in
        find (\<lambda>wp2. window_pane_visible w wp2 \<and> lp_xoff wp2 = right \<and>
          lp_yoff wp2 \<le> top \<and> top \<le> uadd (lp_yoff wp2) (lp_sy wp2)) (lw_panes w))"

end
