(* ===== verification/Redraw.thy ===== *)
theory Redraw
  imports Window_Panes Colour "HOL-Library.Monad_Syntax"
begin

text \<open>
  screen-redraw.c: which character each position of the terminal shows on the borders of the
  panes, and what redrawing writes to the terminal, as a list of operations on it. No pane is in
  a mode; the options and the status line are parameters.
\<close>

section \<open>Borders\<close>

datatype cell_type =
    CELL_INSIDE | CELL_LEFTRIGHT | CELL_TOPBOTTOM | CELL_TOPLEFT | CELL_TOPRIGHT | CELL_BOTTOMLEFT | CELL_BOTTOMRIGHT
  | CELL_TOPJOIN | CELL_BOTTOMJOIN | CELL_LEFTJOIN | CELL_RIGHTJOIN | CELL_JOIN | CELL_OUTSIDE

definition CELL_BORDERS :: "cell_type \<Rightarrow> char" where
  "CELL_BORDERS t = (case t of
       CELL_INSIDE \<Rightarrow> CHR '' '' | CELL_LEFTRIGHT \<Rightarrow> CHR ''x'' | CELL_TOPBOTTOM \<Rightarrow> CHR ''q'' | CELL_TOPLEFT \<Rightarrow> CHR ''l''
     | CELL_TOPRIGHT \<Rightarrow> CHR ''k'' | CELL_BOTTOMLEFT \<Rightarrow> CHR ''m'' | CELL_BOTTOMRIGHT \<Rightarrow> CHR ''j'' | CELL_TOPJOIN \<Rightarrow> CHR ''w''
     | CELL_BOTTOMJOIN \<Rightarrow> CHR ''v'' | CELL_LEFTJOIN \<Rightarrow> CHR ''t'' | CELL_RIGHTJOIN \<Rightarrow> CHR ''u'' | CELL_JOIN \<Rightarrow> CHR ''n''
     | CELL_OUTSIDE \<Rightarrow> CHR ''~'')"

text \<open>0 is inside the pane, 1 its border, -1 outside.\<close>

definition screen_redraw_cell_border1 :: "layout_pane \<Rightarrow> nat \<Rightarrow> nat \<Rightarrow> int" where
  "screen_redraw_cell_border1 wp px py =
     (let x = lp_xoff wp; y = lp_yoff wp; right = uadd x (lp_sx wp); bottom = uadd y (lp_sy wp) in
      if x \<le> px \<and> px < right \<and> y \<le> py \<and> py < bottom then 0
      else if (y = 0 \<or> usub y 1 \<le> py) \<and> py \<le> bottom \<and> (x \<noteq> 0 \<and> px = usub x 1 \<or> px = right) then 1
      else if (x = 0 \<or> usub x 1 \<le> px) \<and> px \<le> right \<and> (y \<noteq> 0 \<and> py = usub y 1 \<or> py = bottom) then 1
      else -1)"

fun cell_border_loop :: "'a layout_window_scheme \<Rightarrow> layout_pane list \<Rightarrow> nat \<Rightarrow> nat \<Rightarrow> int" where
  "cell_border_loop w [] px py = 0"
| "cell_border_loop w (wp # wps) px py =
     (if \<not> window_pane_visible w wp then cell_border_loop w wps px py
      else if screen_redraw_cell_border1 wp px py \<noteq> -1 then screen_redraw_cell_border1 wp px py
      else cell_border_loop w wps px py)"

definition screen_redraw_cell_border :: "'a layout_window_scheme \<Rightarrow> nat \<Rightarrow> nat \<Rightarrow> int" where
  "screen_redraw_cell_border w px py = cell_border_loop w (lw_panes w) px py"

definition cell_borders :: "'a layout_window_scheme \<Rightarrow> nat \<Rightarrow> nat \<Rightarrow> nat" where
  "cell_borders w px py =
     (if px = 0 \<or> screen_redraw_cell_border w (usub px 1) py \<noteq> 0 then 8 else 0) +
     (if px \<le> lw_sx w \<and> screen_redraw_cell_border w (uadd px 1) py \<noteq> 0 then 4 else 0) +
     (if py = 0 \<or> screen_redraw_cell_border w px (usub py 1) \<noteq> 0 then 2 else 0) +
     (if py \<le> lw_sy w \<and> screen_redraw_cell_border w px (uadd py 1) \<noteq> 0 then 1 else 0)"

definition border_type :: "nat \<Rightarrow> cell_type option" where
  "border_type borders =
     (if borders = 15 then Some CELL_JOIN else if borders = 14 then Some CELL_BOTTOMJOIN
      else if borders = 13 then Some CELL_TOPJOIN else if borders = 12 then Some CELL_TOPBOTTOM
      else if borders = 11 then Some CELL_RIGHTJOIN else if borders = 10 then Some CELL_BOTTOMRIGHT
      else if borders = 9 then Some CELL_TOPRIGHT else if borders = 7 then Some CELL_LEFTJOIN
      else if borders = 6 then Some CELL_BOTTOMLEFT else if borders = 5 then Some CELL_TOPLEFT
      else if borders = 3 then Some CELL_LEFTRIGHT else None)"

definition far_from_pane :: "layout_pane \<Rightarrow> nat \<Rightarrow> nat \<Rightarrow> bool" where
  "far_from_pane wp px py \<longleftrightarrow>
     lp_xoff wp \<noteq> 0 \<and> px < usub (lp_xoff wp) 1 \<or> px > uadd (lp_xoff wp) (lp_sx wp) \<or>
     lp_yoff wp \<noteq> 0 \<and> py < usub (lp_yoff wp) 1 \<or> py > uadd (lp_yoff wp) (lp_sy wp)"

fun check_cell_loop :: "'a layout_window_scheme \<Rightarrow> layout_pane list \<Rightarrow> nat \<Rightarrow> nat \<Rightarrow> cell_type" where
  "check_cell_loop w [] px py = CELL_OUTSIDE"
| "check_cell_loop w (wp # wps) px py =
     (if \<not> window_pane_visible w wp \<or> far_from_pane wp px py then check_cell_loop w wps px py
      else if screen_redraw_cell_border w px py = 0 then CELL_INSIDE
      else (case border_type (cell_borders w px py) of Some t \<Rightarrow> t | None \<Rightarrow> check_cell_loop w wps px py))"

definition screen_redraw_check_cell :: "'a layout_window_scheme \<Rightarrow> nat \<Rightarrow> nat \<Rightarrow> cell_type" where
  "screen_redraw_check_cell w px py =
     (if px > lw_sx w \<or> py > lw_sy w then CELL_OUTSIDE else check_cell_loop w (lw_panes w) px py)"

section \<open>Drawing\<close>

datatype tty_op =
    Attributes grid_cell
  | Cursor nat nat
  | Putc char
  | Puts string
  | Draw_Line screen nat nat nat
  | Draw_Status nat
  | Reset

definition border_cell :: "int \<Rightarrow> int \<Rightarrow> grid_cell" where
  "border_cell fg bg = colour_set_bg (colour_set_fg (grid_default_cell\<lparr>gc_data := 0x78, gc_attr := GRID_ATTR_CHARSET\<rparr>) fg) bg"

text \<open>The options pane-border-fg and so on, and the status line if there is one.\<close>

record redraw_options =
  ro_status :: bool
  ro_fg :: int
  ro_bg :: int
  ro_active_fg :: int
  ro_active_bg :: int
  ro_panes_colour :: int
  ro_active_colour :: int

text \<open>A border position; the active pane must exist.\<close>

definition draw_border :: "window \<Rightarrow> redraw_options \<Rightarrow> nat \<Rightarrow> nat \<Rightarrow> tty_op list option" where
  "draw_border w ro i j =
     (let type = screen_redraw_check_cell w i j in
      if type = CELL_INSIDE then Some []
      else do {
        a \<leftarrow> w_active w;
        wp \<leftarrow> find_pane a w;
        Some [Attributes (if screen_redraw_cell_border1 wp i j = 1 then border_cell (ro_active_fg ro) (ro_active_bg ro)
            else border_cell (ro_fg ro) (ro_bg ro)),
          Cursor i j, Putc (CELL_BORDERS type)]
      })"

fun draw_borders :: "window \<Rightarrow> redraw_options \<Rightarrow> (nat \<times> nat) list \<Rightarrow> tty_op list option" where
  "draw_borders w ro [] = Some []"
| "draw_borders w ro ((i, j) # ps) = do { ops \<leftarrow> draw_border w ro i j; rest \<leftarrow> draw_borders w ro ps; Some (ops @ rest) }"

definition screen_redraw_pane :: "layout_pane \<Rightarrow> tty_op list" where
  "screen_redraw_pane wp = map (\<lambda>i. Draw_Line (lp_base wp) i (lp_xoff wp) (lp_yoff wp)) [0..<lp_sy wp] @ [Reset]"

definition clock_table :: "nat list list list" where
  "clock_table = [[[1,1,1,1,1], [1,0,0,0,1], [1,0,0,0,1], [1,0,0,0,1], [1,1,1,1,1]],
     [[0,0,0,0,1], [0,0,0,0,1], [0,0,0,0,1], [0,0,0,0,1], [0,0,0,0,1]],
     [[1,1,1,1,1], [0,0,0,0,1], [1,1,1,1,1], [1,0,0,0,0], [1,1,1,1,1]],
     [[1,1,1,1,1], [0,0,0,0,1], [1,1,1,1,1], [0,0,0,0,1], [1,1,1,1,1]],
     [[1,0,0,0,1], [1,0,0,0,1], [1,1,1,1,1], [0,0,0,0,1], [0,0,0,0,1]],
     [[1,1,1,1,1], [1,0,0,0,0], [1,1,1,1,1], [0,0,0,0,1], [1,1,1,1,1]],
     [[1,1,1,1,1], [1,0,0,0,0], [1,1,1,1,1], [1,0,0,0,1], [1,1,1,1,1]],
     [[1,1,1,1,1], [0,0,0,0,1], [0,0,0,0,1], [0,0,0,0,1], [0,0,0,0,1]],
     [[1,1,1,1,1], [1,0,0,0,1], [1,1,1,1,1], [1,0,0,0,1], [1,1,1,1,1]],
     [[1,1,1,1,1], [1,0,0,0,1], [1,1,1,1,1], [0,0,0,0,1], [1,1,1,1,1]],
     [[0,0,0,0,0], [0,0,1,0,0], [0,0,0,0,0], [0,0,1,0,0], [0,0,0,0,0]],
     [[1,1,1,1,1], [1,0,0,0,1], [1,1,1,1,1], [1,0,0,0,1], [1,0,0,0,1]],
     [[1,1,1,1,1], [1,0,0,0,1], [1,1,1,1,1], [1,0,0,0,0], [1,0,0,0,0]],
     [[1,0,0,0,1], [1,1,0,1,1], [1,0,1,0,1], [1,0,0,0,1], [1,0,0,0,1]]]"

text \<open>A digit at column px of the pane; the next is six columns to the right.\<close>

definition draw_digit :: "nat \<Rightarrow> nat \<Rightarrow> nat \<Rightarrow> nat \<Rightarrow> nat \<Rightarrow> tty_op list" where
  "draw_digit xoff yoff px py idx =
     concat (map (\<lambda>j. concat (map (\<lambda>i. Cursor (uadd xoff i) (uadd yoff (uadd py j)) #
       (if clock_table ! idx ! j ! (i - px) \<noteq> 0 then [Putc (CHR '' '')] else [])) [px..<px + 5])) [0..<5])"

fun draw_digits :: "nat \<Rightarrow> nat \<Rightarrow> nat \<Rightarrow> nat \<Rightarrow> string \<Rightarrow> tty_op list" where
  "draw_digits xoff yoff px py [] = []"
| "draw_digits xoff yoff px py (c # cs) =
     (if \<not> is_digit c then draw_digits xoff yoff px py cs
      else draw_digit xoff yoff px py (digit_value c) @ draw_digits xoff yoff (uadd px 6) py cs)"

definition screen_redraw_draw_number :: "window \<Rightarrow> redraw_options \<Rightarrow> layout_pane \<Rightarrow> tty_op list" where
  "screen_redraw_draw_number w ro wp =
     (let buf = print_unsigned (window_pane_index w (lp_id wp)); len = length buf;
          colour = (if w_active w = Some (lp_id wp) then ro_active_colour ro else ro_panes_colour ro);
          gc = grid_default_cell\<lparr>gc_data := 0x5f\<rparr>; px = lp_sx wp div 2; py = lp_sy wp div 2 in
      if lp_sx wp < len then []
      else if lp_sx wp < len * 6 \<or> lp_sy wp < 5 then
        [Cursor (usub (uadd (lp_xoff wp) px) (len div 2)) (uadd (lp_yoff wp) py), Attributes (colour_set_fg gc colour), Puts buf]
      else Attributes (colour_set_bg gc colour) # draw_digits (lp_xoff wp) (lp_yoff wp) (usub px (len * 3)) (usub py 2) buf)"

definition screen_redraw_screen :: "window \<Rightarrow> redraw_options \<Rightarrow> bool \<Rightarrow> nat \<Rightarrow> nat \<Rightarrow> bool \<Rightarrow> bool \<Rightarrow> tty_op list option" where
  "screen_redraw_screen w ro identify tsx tsy status_only borders_only =
     (let rows = usub tsy (if ro_status ro then 1 else 0) in
      if status_only \<and> ro_status ro then Some [Draw_Status (usub tsy 1), Reset]
      else do {
        borders \<leftarrow> draw_borders w ro (concat (map (\<lambda>j. if status_only \<and> j \<noteq> usub tsy 1 then [] else map (\<lambda>i. (i, j)) [0..<tsx]) [0..<rows]));
        if borders_only then Some borders
        else Some (borders @
          concat (map (\<lambda>wp.
             if \<not> window_pane_visible w wp then []
             else concat (map (\<lambda>i. if status_only \<and> uadd (lp_yoff wp) i \<noteq> usub tsy 1 then []
                 else [Draw_Line (lp_base wp) i (lp_xoff wp) (lp_yoff wp)]) [0..<lp_sy wp]) @
               (if identify then screen_redraw_draw_number w ro wp else [])) (lw_panes w)) @
          (if ro_status ro then [Draw_Status (usub tsy 1)] else []) @ [Reset])
      })"

end
