(* ===== verification/Redraw_Props.thy ===== *)
theory Redraw_Props
  imports Redraw Layout_Props
begin

text \<open>
  What is drawn on the borders of a window whose layout fills it: the tiling of the layout by
  the panes decides which positions are inside a pane, and every other one is drawn as a border.
\<close>

section \<open>The panes as a tiling\<close>

definition near :: "layout_pane \<Rightarrow> nat \<Rightarrow> nat \<Rightarrow> bool" where
  "near wp px py \<longleftrightarrow> lp_xoff wp \<le> px + 1 \<and> px \<le> lp_xoff wp + lp_sx wp \<and> lp_yoff wp \<le> py + 1 \<and> py \<le> lp_yoff wp + lp_sy wp"

definition pane_covers :: "layout_pane \<Rightarrow> nat \<Rightarrow> nat \<Rightarrow> bool" where
  "pane_covers wp px py \<longleftrightarrow> lp_xoff wp \<le> px \<and> px \<le> lp_xoff wp + lp_sx wp \<and> lp_yoff wp \<le> py \<and> py \<le> lp_yoff wp + lp_sy wp"

definition rect :: "layout_pane \<Rightarrow> nat \<times> nat \<times> nat \<times> nat" where
  "rect wp = (lp_xoff wp, lp_yoff wp, lp_sx wp, lp_sy wp)"

definition tiled :: "layout_window \<Rightarrow> bool" where
  "tiled w \<longleftrightarrow> lw_sx w < SIZE_LIMIT \<and> lw_sy w < SIZE_LIMIT \<and>
     (\<forall>wp\<in>set (lw_panes w). lp_xoff wp + lp_sx wp \<le> lw_sx w \<and> lp_yoff wp + lp_sy wp \<le> lw_sy w) \<and>
     (\<forall>px py. px \<le> lw_sx w \<and> py \<le> lw_sy w \<longrightarrow> (\<exists>wp\<in>set (lw_panes w). pane_covers wp px py)) \<and>
     (\<forall>px py. \<forall>wp\<in>set (lw_panes w). \<forall>wq\<in>set (lw_panes w). pane_covers wp px py \<and> pane_covers wq px py \<longrightarrow> rect wp = rect wq)"

lemma cell_at_leaf: "cell_at p c = Some d \<Longrightarrow> lc_type d = LAYOUT_WINDOWPANE \<Longrightarrow> lay_ok c \<Longrightarrow> d \<in> set (leaves c)"
proof (induction p arbitrary: c)
  case (Cons i p)
  obtain t sx sy xoff yoff o' cs where c: "c = Cell t sx sy xoff yoff o' cs" by (cases c)
  obtain e where e: "lget i cs = Some e" "cell_at p e = Some d" using Cons.prems(1) c by (auto simp: bind_eq_Some_conv)
  have m: "e \<in> set cs" using lget_SomeD [OF e(1)] nth_mem by blast
  have t: "t \<noteq> LAYOUT_WINDOWPANE" "lay_ok e" using Cons.prems(3) m unfolding c lay_ok.simps by (auto split: if_splits)
  have "d \<in> set (leaves e)" by (rule Cons.IH [OF e(2) Cons.prems(2) t(2)])
  then show ?case using m t(1) c by auto
next
  case Nil
  then show ?case by (cases c) auto
qed

lemma crop_whole: "off + sz \<le> wsz \<Longrightarrow> wsz < SIZE_LIMIT \<Longrightarrow> crop_pane least off sz wsz = sz"
  by (auto simp: crop_pane_def uadd_eq usub_eq)

lemma filter_single_eq: "length (filter P xs) \<le> 1 \<Longrightarrow> a \<in> set xs \<Longrightarrow> b \<in> set xs \<Longrightarrow> P a \<Longrightarrow> P b \<Longrightarrow> a = b"
proof -
  assume a: "length (filter P xs) \<le> 1" "a \<in> set xs" "b \<in> set xs" "P a" "P b"
  then have "a \<in> set (filter P xs)" "b \<in> set (filter P xs)" by simp_all
  then show ?thesis using a(1) by (cases "filter P xs") auto
qed

lemma window_tiled:
  assumes "reachable w" "lw_root w = Some rt" "lc_sx rt = lw_sx w" "lc_sy rt = lw_sy w"
  shows "tiled w"
proof -
  have ok: "window_ok w" by (rule reachable_ok [OF assms(1)])
  then have rt: "tree_ok rt" "placed rt" "panes_ok rt (ids w)" "lw_sx w < SIZE_LIMIT" "lw_sy w < SIZE_LIMIT"
    using assms(2) by (auto simp: window_ok_def)
  note t = tree_okD [OF rt(1)]
  have count: "cover_count px py rt = (if px \<le> lw_sx w \<and> py \<le> lw_sy w then 1 else 0)" for px py
    using tiles_exactly [OF t(1) rt(2)] t(2,3) assms(3,4) by (simp add: covered_def)
  have inside: "lc_xoff c + lc_sx c \<le> lw_sx w \<and> lc_yoff c + lc_sy c \<le> lw_sy w" if "c \<in> set (leaves rt)" for c
  proof -
    let ?x = "lc_xoff c + lc_sx c" and ?y = "lc_yoff c + lc_sy c"
    have "c \<in> set (filter (covered ?x ?y) (leaves rt))" using that by (simp add: covered_def)
    then have "0 < cover_count ?x ?y rt" unfolding cover_count_def by (rule length_pos_if_in_set)
    then show ?thesis using count [of ?x ?y] by (simp split: if_splits)
  qed
  have unique: "a = b" if "a \<in> set (leaves rt)" "b \<in> set (leaves rt)" "covered px py a" "covered px py b" for a b px py
    using filter_single_eq [of "covered px py" "leaves rt"] count [of px py] that by (auto simp: cover_count_def split: if_splits)
  have leaf: "\<exists>c\<in>set (leaves rt). lc_wp c = Some (lp_id wp) \<and> rect wp = (lc_xoff c, lc_yoff c, lc_sx c, lc_sy c)"
    if wp: "wp \<in> set (lw_panes w)" for wp
  proof -
    obtain c where c: "pane_cell rt (lp_id wp) = Some c" "pane_shows (lw_sx w) (lw_sy w) c wp"
      using ok wp assms(2) by (auto simp: window_ok_def)
    have k: "lc_wp c = Some (lp_id wp)" "lc_type c = LAYOUT_WINDOWPANE"
      using pane_cell_leaf [OF t(1) rt(3), of "lp_id wp"] c(1) wp by (auto simp: ids_def)
    have "c \<in> set (leaves rt)" using c(1) cell_at_leaf [OF _ k(2) t(1)] by (auto simp: pane_cell_def bind_eq_Some_conv)
    then show ?thesis using c(2) k(1) inside [of c] rt(4,5) by (auto simp: pane_shows_def rect_def crop_whole)
  qed
  have pane: "\<exists>wp\<in>set (lw_panes w). rect wp = (lc_xoff c, lc_yoff c, lc_sx c, lc_sy c)" if c: "c \<in> set (leaves rt)" for c
  proof -
    have d: "distinct (map lc_wp (leaves rt))" "lc_wp c \<in> Some ` set (ids w)"
      using rt(3) c by (auto simp: panes_ok_def cell_panes_leaves)
    then obtain wp where wp: "wp \<in> set (lw_panes w)" "lc_wp c = Some (lp_id wp)" by (auto simp: ids_def)
    obtain e where e: "e \<in> set (leaves rt)" "lc_wp e = Some (lp_id wp)" "rect wp = (lc_xoff e, lc_yoff e, lc_sx e, lc_sy e)"
      using leaf [OF wp(1)] by blast
    then have "e = c" using d(1) c wp(2) by (metis distinct_map inj_on_eq_iff)
    then show ?thesis using e(3) wp(1) by blast
  qed
  have all: "\<exists>wp\<in>set (lw_panes w). pane_covers wp px py" if "px \<le> lw_sx w" "py \<le> lw_sy w" for px py
  proof -
    have "length (filter (covered px py) (leaves rt)) = 1" using count [of px py] that by (simp add: cover_count_def)
    then have "filter (covered px py) (leaves rt) \<noteq> []" by auto
    then obtain c where c: "c \<in> set (leaves rt)" "covered px py c" by (auto simp: filter_empty_conv)
    obtain wp where "wp \<in> set (lw_panes w)" "rect wp = (lc_xoff c, lc_yoff c, lc_sx c, lc_sy c)" using pane [OF c(1)] by blast
    then show ?thesis using c(2) by (intro bexI) (auto simp: pane_covers_def covered_def rect_def)
  qed
  have same: "rect wp = rect wq" if h: "wp \<in> set (lw_panes w)" "wq \<in> set (lw_panes w)" "pane_covers wp px py" "pane_covers wq px py" for wp wq px py
  proof -
    obtain c where c: "c \<in> set (leaves rt)" "rect wp = (lc_xoff c, lc_yoff c, lc_sx c, lc_sy c)" using leaf [OF h(1)] by blast
    obtain d where d: "d \<in> set (leaves rt)" "rect wq = (lc_xoff d, lc_yoff d, lc_sx d, lc_sy d)" using leaf [OF h(2)] by blast
    have "c = d" using c d h(3,4) by (intro unique [of c d px py]) (auto simp: pane_covers_def covered_def rect_def)
    then show ?thesis using c(2) d(2) by simp
  qed
  have within: "lp_xoff wp + lp_sx wp \<le> lw_sx w \<and> lp_yoff wp + lp_sy wp \<le> lw_sy w" if wp: "wp \<in> set (lw_panes w)" for wp
    using leaf [OF wp] inside by (auto simp: rect_def)
  show ?thesis unfolding tiled_def using rt(4,5) all same within by blast
qed

section \<open>Inside a pane and on its border\<close>

definition inner :: "layout_pane \<Rightarrow> nat \<Rightarrow> nat \<Rightarrow> bool" where
  "inner wp px py \<longleftrightarrow> lp_xoff wp \<le> px \<and> px < lp_xoff wp + lp_sx wp \<and> lp_yoff wp \<le> py \<and> py < lp_yoff wp + lp_sy wp"

lemma tiledD:
  assumes "tiled w" "wp \<in> set (lw_panes w)"
  shows "lp_xoff wp + lp_sx wp < SIZE_LIMIT" "lp_yoff wp + lp_sy wp < SIZE_LIMIT"
  using assms by (auto simp: tiled_def dest: bspec)

lemma inside_inner: "tiled w \<Longrightarrow> wp \<in> set (lw_panes w) \<Longrightarrow> inside_pane wp px py \<longleftrightarrow> inner wp px py"
  using tiledD [of w wp] by (simp add: inside_pane_def inner_def uadd_eq)

lemma before_edge:
  assumes "x < SIZE_LIMIT"
  shows "x = 0 \<or> usub x 1 \<le> px \<longleftrightarrow> x \<le> px + 1" "x \<noteq> 0 \<and> px = usub x 1 \<longleftrightarrow> px + 1 = x" "x \<noteq> 0 \<and> px < usub x 1 \<longleftrightarrow> px + 1 < x"
  using assms by (cases x; auto simp: usub_eq)+

lemma border1_cases:
  assumes "tiled w" "wp \<in> set (lw_panes w)"
  shows "screen_redraw_cell_border1 wp px py = (if inner wp px py then 0 else if near wp px py then 1 else -1)"
proof -
  have x: "lp_xoff wp < SIZE_LIMIT" "lp_yoff wp < SIZE_LIMIT" using tiledD [OF assms] by simp_all
  have a: "uadd (lp_xoff wp) (lp_sx wp) = lp_xoff wp + lp_sx wp" "uadd (lp_yoff wp) (lp_sy wp) = lp_yoff wp + lp_sy wp"
    using tiledD [OF assms] by (simp_all add: uadd_eq)
  show ?thesis unfolding screen_redraw_cell_border1_def Let_def inner_def near_def a before_edge [OF x(1)] before_edge [OF x(2)]
    by auto
qed

lemma far_near:
  assumes "tiled w" "wp \<in> set (lw_panes w)"
  shows "far_from_pane wp px py \<longleftrightarrow> \<not> near wp px py"
proof -
  have x: "lp_xoff wp < SIZE_LIMIT" "lp_yoff wp < SIZE_LIMIT" using tiledD [OF assms] by simp_all
  have a: "uadd (lp_xoff wp) (lp_sx wp) = lp_xoff wp + lp_sx wp" "uadd (lp_yoff wp) (lp_sy wp) = lp_yoff wp + lp_sy wp"
    using tiledD [OF assms] by (simp_all add: uadd_eq)
  show ?thesis unfolding far_from_pane_def near_def a conj_assoc [symmetric] disj_assoc [symmetric] using before_edge(3) [OF x(1), of px] before_edge(3) [OF x(2), of py]
    by linarith
qed

lemma tiled_visible:
  assumes "tiled w" "wp \<in> set (lw_panes w)" "lp_xoff wp < lw_sx w" "lp_yoff wp < lw_sy w"
  shows "window_pane_visible w wp"
  using assms tiledD [OF assms(1,2)] by (auto simp: window_pane_visible_def uadd_eq tiled_def dest: bspec)

lemma inner_same:
  assumes "tiled w" "wp \<in> set (lw_panes w)" "wq \<in> set (lw_panes w)" "inner wq px py" "pane_covers wp qx qy"
    "px \<le> qx" "qx \<le> px + 1" "py \<le> qy" "qy \<le> py + 1"
  shows "inner wp px py"
proof -
  have "pane_covers wq qx qy" using assms(4,6-) by (auto simp: pane_covers_def inner_def)
  then have "rect wp = rect wq" using assms(1-3,5) unfolding tiled_def by blast
  then show ?thesis using assms(4) by (simp add: rect_def inner_def)
qed

lemma inner_near:
  assumes "tiled w" "wp \<in> set (lw_panes w)" "wq \<in> set (lw_panes w)" "inner wq px py" "near wp px py"
  shows "inner wp px py"
  using inner_same [OF assms(1-4), of "max px (lp_xoff wp)" "max py (lp_yoff wp)"] assms(5)
  by (auto simp: pane_covers_def near_def max_def split: if_splits)

section \<open>What a position shows\<close>

lemma inner_is_near: "inner wp px py \<Longrightarrow> near wp px py"
  by (simp add: inner_def near_def)

lemma border_zero:
  assumes "tiled w" "set wps \<subseteq> set (lw_panes w)" "\<exists>wp\<in>set wps. window_pane_visible w wp \<and> near wp px py"
  shows "cell_border_loop w wps px py = 0 \<longleftrightarrow> (\<exists>wp\<in>set (lw_panes w). inner wp px py)"
  using assms(2,3)
proof (induction wps)
  case (Cons wp wps)
  have wp: "wp \<in> set (lw_panes w)" using Cons.prems(1) by simp
  have rest: "cell_border_loop w wps px py = 0 \<longleftrightarrow> (\<exists>wp\<in>set (lw_panes w). inner wp px py)"
    if "\<not> window_pane_visible w wp \<or> \<not> near wp px py" using Cons.IH Cons.prems that by auto
  show ?case
  proof (cases "window_pane_visible w wp \<and> near wp px py")
    case True
    then show ?thesis using border1_cases [OF assms(1) wp, of px py] inner_near [OF assms(1) wp] wp by auto
  next
    case False
    then show ?thesis using rest border1_cases [OF assms(1) wp, of px py] inner_is_near by auto
  qed
qed simp

text \<open>Next to a position that a pane covers, as far as the pane is near.\<close>

lemma near_border:
  assumes "tiled w" "wp \<in> set (lw_panes w)" "window_pane_visible w wp" "near wp px py" "\<forall>wq\<in>set (lw_panes w). \<not> inner wq px py"
  shows "screen_redraw_cell_border w px py \<noteq> 0"
  using border_zero [OF assms(1), of "lw_panes w" px py] assms(2-5) by (auto simp: screen_redraw_cell_border_def)

lemma side_bits:
  assumes "tiled w" "wp \<in> set (lw_panes w)" "pane_covers wp px py" "px < lw_sx w" "py < lw_sy w"
  shows "px = lp_xoff wp + lp_sx wp \<Longrightarrow> py = 0 \<or> screen_redraw_cell_border w px (usub py 1) \<noteq> 0"
    "px = lp_xoff wp + lp_sx wp \<Longrightarrow> py < lp_yoff wp + lp_sy wp \<Longrightarrow> screen_redraw_cell_border w px (uadd py 1) \<noteq> 0"
    "py = lp_yoff wp + lp_sy wp \<Longrightarrow> px = 0 \<or> screen_redraw_cell_border w (usub px 1) py \<noteq> 0"
    "py = lp_yoff wp + lp_sy wp \<Longrightarrow> px < lp_xoff wp + lp_sx wp \<Longrightarrow> screen_redraw_cell_border w (uadd px 1) py \<noteq> 0"
proof -
  have lim: "px < SIZE_LIMIT" "py < SIZE_LIMIT" using assms(1,4,5) by (auto simp: tiled_def)
  then have u: "uadd px 1 = px + 1" "uadd py 1 = py + 1" "px \<noteq> 0 \<Longrightarrow> usub px 1 = px - 1" "py \<noteq> 0 \<Longrightarrow> usub py 1 = py - 1"
    by (simp_all add: uadd_eq usub_eq)
  have vis: "window_pane_visible w wp" using assms(3-5) by (intro tiled_visible [OF assms(1,2)]) (auto simp: pane_covers_def)
  note border = near_border [OF assms(1,2) vis]
  have same: "inner wp qx qy" if "wq \<in> set (lw_panes w)" "inner wq qx qy" "near wp qx qy" for wq qx qy
    by (rule inner_near [OF assms(1,2) that])
  show "py = 0 \<or> screen_redraw_cell_border w px (usub py 1) \<noteq> 0" if "px = lp_xoff wp + lp_sx wp"
  proof (cases "py = 0")
    case False
    have "near wp px (py - 1)" using assms(3) False by (auto simp: near_def pane_covers_def)
    then show ?thesis using border [of px "py - 1"] same [of _ px "py - 1"] u(4) [OF False] that by (auto simp: inner_def)
  qed simp
  show "px = 0 \<or> screen_redraw_cell_border w (usub px 1) py \<noteq> 0" if "py = lp_yoff wp + lp_sy wp"
  proof (cases "px = 0")
    case False
    have "near wp (px - 1) py" using assms(3) False by (auto simp: near_def pane_covers_def)
    then show ?thesis using border [of "px - 1" py] same [of _ "px - 1" py] u(3) [OF False] that by (auto simp: inner_def)
  qed simp
  show "screen_redraw_cell_border w px (uadd py 1) \<noteq> 0" if "px = lp_xoff wp + lp_sx wp" "py < lp_yoff wp + lp_sy wp"
  proof -
    have "near wp px (py + 1)" using assms(3) that by (auto simp: near_def pane_covers_def)
    then show ?thesis using border [of px "py + 1"] same [of _ px "py + 1"] u that by (auto simp: inner_def)
  qed
  show "screen_redraw_cell_border w (uadd px 1) py \<noteq> 0" if "py = lp_yoff wp + lp_sy wp" "px < lp_xoff wp + lp_sx wp"
  proof -
    have "near wp (px + 1) py" using assms(3) that by (auto simp: near_def pane_covers_def)
    then show ?thesis using border [of "px + 1" py] same [of _ "px + 1" py] u that by (auto simp: inner_def)
  qed
qed

definition vertical :: "cell_type \<Rightarrow> bool" where
  "vertical t \<longleftrightarrow> t \<in> {CELL_LEFTRIGHT, CELL_LEFTJOIN, CELL_RIGHTJOIN, CELL_JOIN}"

definition horizontal :: "cell_type \<Rightarrow> bool" where
  "horizontal t \<longleftrightarrow> t \<in> {CELL_TOPBOTTOM, CELL_TOPJOIN, CELL_BOTTOMJOIN, CELL_JOIN}"

lemma border_types:
  assumes "tiled w" "wp \<in> set (lw_panes w)" "pane_covers wp px py" "px < lw_sx w" "py < lw_sy w" "\<not> inner wp px py"
  shows "\<exists>t. border_type (cell_borders w px py) = Some t \<and> t \<noteq> CELL_INSIDE \<and> t \<noteq> CELL_OUTSIDE \<and>
    (py < lp_yoff wp + lp_sy wp \<longrightarrow> vertical t) \<and> (px < lp_xoff wp + lp_sx wp \<longrightarrow> horizontal t)"
proof -
  note bits = side_bits [OF assms(1-5)]
  have edge: "px = lp_xoff wp + lp_sx wp \<or> py = lp_yoff wp + lp_sy wp" "px \<le> lp_xoff wp + lp_sx wp" "py \<le> lp_yoff wp + lp_sy wp"
    using assms(3,6) by (auto simp: pane_covers_def inner_def)
  have sz: "px \<le> lw_sx w" "py \<le> lw_sy w" using assms(4,5) by simp_all
  consider "px = lp_xoff wp + lp_sx wp" "py = lp_yoff wp + lp_sy wp" | "px = lp_xoff wp + lp_sx wp" "py < lp_yoff wp + lp_sy wp"
    | "px < lp_xoff wp + lp_sx wp" "py = lp_yoff wp + lp_sy wp" using edge by linarith
  then show ?thesis
  proof cases
    case 1
    then show ?thesis using bits(1,3) unfolding cell_borders_def by (auto simp: border_type_def)
  next
    case 2
    then show ?thesis using bits(1,2) sz unfolding cell_borders_def by (auto simp: border_type_def vertical_def)
  next
    case 3
    then show ?thesis using bits(3,4) sz unfolding cell_borders_def by (auto simp: border_type_def horizontal_def)
  qed
qed

lemma check_loop:
  assumes "tiled w" "set wps \<subseteq> set (lw_panes w)" "\<exists>wp\<in>set wps. window_pane_visible w wp \<and> near wp px py"
    "screen_redraw_cell_border w px py = 0 \<or> border_type (cell_borders w px py) = Some t"
  shows "check_cell_loop w wps px py = (if screen_redraw_cell_border w px py = 0 then CELL_INSIDE else t)"
  using assms(2,3)
proof (induction wps)
  case (Cons wp wps)
  have far: "far_from_pane wp px py \<longleftrightarrow> \<not> near wp px py" using Cons.prems(1) by (intro far_near [OF assms(1)]) simp
  show ?case
  proof (cases "window_pane_visible w wp \<and> near wp px py")
    case True
    then show ?thesis using far assms(4) by auto
  next
    case False
    then have "\<exists>wp\<in>set wps. window_pane_visible w wp \<and> near wp px py" "set wps \<subseteq> set (lw_panes w)" using Cons.prems by auto
    then show ?thesis using Cons.IH False far by simp
  qed
qed simp

text \<open>
  C9: the borders of a window whose layout fills it. However the panes were split, closed and
  resized, every position of the window is drawn inside a pane exactly if a pane is there, and
  every other one as a border, never as outside the window; right of a pane the border is drawn with a
  vertical line, and below it with a horizontal one, so that it has no holes.
\<close>

theorem redraw_cells_panes:
  assumes "reachable w" "lw_root w = Some rt" "lc_sx rt = lw_sx w" "lc_sy rt = lw_sy w" "px < lw_sx w" "py < lw_sy w"
  shows "(screen_redraw_check_cell w px py = CELL_INSIDE \<longleftrightarrow> (\<exists>wp\<in>set (lw_panes w). inside_pane wp px py)) \<and>
    screen_redraw_check_cell w px py \<noteq> CELL_OUTSIDE \<and>
    (\<forall>wp\<in>set (lw_panes w). px = lp_xoff wp + lp_sx wp \<and> lp_yoff wp \<le> py \<and> py < lp_yoff wp + lp_sy wp \<longrightarrow>
      vertical (screen_redraw_check_cell w px py)) \<and>
    (\<forall>wp\<in>set (lw_panes w). py = lp_yoff wp + lp_sy wp \<and> lp_xoff wp \<le> px \<and> px < lp_xoff wp + lp_sx wp \<longrightarrow>
      horizontal (screen_redraw_check_cell w px py))"
proof -
  have t: "tiled w" by (rule window_tiled [OF assms(1-4)])
  then obtain wp where wp: "wp \<in> set (lw_panes w)" "pane_covers wp px py" using assms(5,6) unfolding tiled_def by (meson less_imp_le)
  have near: "\<exists>wp\<in>set (lw_panes w). window_pane_visible w wp \<and> near wp px py"
    using wp assms(5,6) by (intro bexI [of _ wp] conjI tiled_visible [OF t]) (auto simp: pane_covers_def near_def)
  have zero: "screen_redraw_cell_border w px py = 0 \<longleftrightarrow> (\<exists>wp\<in>set (lw_panes w). inner wp px py)"
    using border_zero [OF t order_refl near] by (simp add: screen_redraw_cell_border_def)
  have check: "screen_redraw_check_cell w px py = check_cell_loop w (lw_panes w) px py" using assms(5,6) by (simp add: screen_redraw_check_cell_def)
  have ins: "inside_pane wq px py \<longleftrightarrow> inner wq px py" if "wq \<in> set (lw_panes w)" for wq by (rule inside_inner [OF t that])
  have within: "\<not> inner wr px py" if "wq \<in> set (lw_panes w)" "wr \<in> set (lw_panes w)" "pane_covers wq px py" "\<not> inner wq px py" for wq wr
    using inner_same [OF t that(1,2) _ that(3)] that(4) by auto
  show ?thesis
  proof (cases "\<exists>wp\<in>set (lw_panes w). inner wp px py")
    case True
    then have "screen_redraw_check_cell w px py = CELL_INSIDE" using check_loop [OF t order_refl near] zero check by simp
    then show ?thesis using True ins within by (fastforce simp: pane_covers_def inner_def)
  next
    case False
    have types: "\<exists>t. border_type (cell_borders w px py) = Some t \<and> t \<noteq> CELL_INSIDE \<and> t \<noteq> CELL_OUTSIDE \<and>
      (py < lp_yoff wq + lp_sy wq \<longrightarrow> vertical t) \<and> (px < lp_xoff wq + lp_sx wq \<longrightarrow> horizontal t)"
      if "wq \<in> set (lw_panes w)" "pane_covers wq px py" for wq
      using border_types [OF t that assms(5,6)] False that(1) by blast
    obtain ty where ty: "border_type (cell_borders w px py) = Some ty" using types [OF wp] by blast
    then have "screen_redraw_check_cell w px py = ty" using check_loop [OF t order_refl near, of ty] zero check False by simp
    then show ?thesis using False ins types [OF wp] types ty by (auto simp: pane_covers_def)
  qed
qed

theorem redraw_cells_panes_witness:
  "\<exists>w. reachable w \<and> length (lw_panes w) = 2 \<and> vertical (screen_redraw_check_cell w 4 3) \<and> screen_redraw_check_cell w 8 8 = CELL_INSIDE"
proof -
  obtain w where w: "reachable w" "ids w = [0, 1]" "lw_root w = Some (set_cells [Cell LAYOUT_WINDOWPANE 4 9 0 0 (Some 0) [],
      Cell LAYOUT_WINDOWPANE 4 9 5 0 (Some 1) []] sample_split)" "lw_sx w = 9" "lw_sy w = 9"
    using sample_split_reachable by blast
  have sz: "lc_sx (set_cells cs sample_split) = 9" "lc_sy (set_cells cs sample_split) = 9" for cs by (simp_all add: sample_split_def)
  obtain a b where ab: "lw_panes w = [a, b]" "lp_id a = 0" "lp_id b = 1" using w(2) by (auto simp: ids_def map_eq_Cons_conv)
  have "window_ok w" by (rule reachable_ok [OF w(1)])
  then have "\<forall>wp\<in>set (lw_panes w). \<exists>c. pane_cell (set_cells [Cell LAYOUT_WINDOWPANE 4 9 0 0 (Some 0) [],
      Cell LAYOUT_WINDOWPANE 4 9 5 0 (Some 1) []] sample_split) (lp_id wp) = Some c \<and> pane_shows (lw_sx w) (lw_sy w) c wp"
    using w(3) by (auto simp: window_ok_def)
  then have p: "lp_xoff a = 0 \<and> lp_yoff a = 0 \<and> lp_sx a = 4 \<and> lp_sy a = 9 \<and> lp_xoff b = 5 \<and> lp_yoff b = 0 \<and> lp_sx b = 4 \<and> lp_sy b = 9"
    using w(4,5) by (auto simp: ab pane_cell_def pane_shows_def lget_def sample_split_def crop_whole)
  have i: "inside_pane b 8 8" using p by (simp add: inside_pane_def uadd_eq)
  show ?thesis using redraw_cells_panes [OF w(1,3), of 4 3] redraw_cells_panes [OF w(1,3), of 8 8] w(1,4,5) sz p i
    by (auto simp: ab)
qed

end
