(* ===== verification/Keys.thy ===== *)
theory Keys
  imports C_Library
begin

text \<open>
  Key codes, their names (key-string.c) and the escape sequences that xterm sends for keys with
  modifiers (xterm-keys.c). A key is an int of a code below or above KEYC_BASE and bits for
  the modifiers.
\<close>

unbundle bit_operations_syntax

section \<open>Key codes\<close>

definition KEYC_NONE :: int where "KEYC_NONE = 0xfff"
definition KEYC_BASE :: int where "KEYC_BASE = 0x1000"
definition KEYC_ESCAPE :: int where "KEYC_ESCAPE = 0x2000"
definition KEYC_CTRL :: int where "KEYC_CTRL = 0x4000"
definition KEYC_SHIFT :: int where "KEYC_SHIFT = 0x8000"
definition KEYC_PREFIX :: int where "KEYC_PREFIX = 0x10000"
definition KEYC_MOUSE :: int where "KEYC_MOUSE = 0x1000"
definition KEYC_BSPACE :: int where "KEYC_BSPACE = 0x1001"
definition KEYC_F1 :: int where "KEYC_F1 = 0x1002"
definition KEYC_F2 :: int where "KEYC_F2 = 0x1003"
definition KEYC_F3 :: int where "KEYC_F3 = 0x1004"
definition KEYC_F4 :: int where "KEYC_F4 = 0x1005"
definition KEYC_F5 :: int where "KEYC_F5 = 0x1006"
definition KEYC_F6 :: int where "KEYC_F6 = 0x1007"
definition KEYC_F7 :: int where "KEYC_F7 = 0x1008"
definition KEYC_F8 :: int where "KEYC_F8 = 0x1009"
definition KEYC_F9 :: int where "KEYC_F9 = 0x100a"
definition KEYC_F10 :: int where "KEYC_F10 = 0x100b"
definition KEYC_F11 :: int where "KEYC_F11 = 0x100c"
definition KEYC_F12 :: int where "KEYC_F12 = 0x100d"
definition KEYC_F13 :: int where "KEYC_F13 = 0x100e"
definition KEYC_F14 :: int where "KEYC_F14 = 0x100f"
definition KEYC_F15 :: int where "KEYC_F15 = 0x1010"
definition KEYC_F16 :: int where "KEYC_F16 = 0x1011"
definition KEYC_F17 :: int where "KEYC_F17 = 0x1012"
definition KEYC_F18 :: int where "KEYC_F18 = 0x1013"
definition KEYC_F19 :: int where "KEYC_F19 = 0x1014"
definition KEYC_F20 :: int where "KEYC_F20 = 0x1015"
definition KEYC_IC :: int where "KEYC_IC = 0x1016"
definition KEYC_DC :: int where "KEYC_DC = 0x1017"
definition KEYC_HOME :: int where "KEYC_HOME = 0x1018"
definition KEYC_END :: int where "KEYC_END = 0x1019"
definition KEYC_NPAGE :: int where "KEYC_NPAGE = 0x101a"
definition KEYC_PPAGE :: int where "KEYC_PPAGE = 0x101b"
definition KEYC_BTAB :: int where "KEYC_BTAB = 0x101c"
definition KEYC_UP :: int where "KEYC_UP = 0x101d"
definition KEYC_DOWN :: int where "KEYC_DOWN = 0x101e"
definition KEYC_LEFT :: int where "KEYC_LEFT = 0x101f"
definition KEYC_RIGHT :: int where "KEYC_RIGHT = 0x1020"
definition KEYC_KP_SLASH :: int where "KEYC_KP_SLASH = 0x1021"
definition KEYC_KP_STAR :: int where "KEYC_KP_STAR = 0x1022"
definition KEYC_KP_MINUS :: int where "KEYC_KP_MINUS = 0x1023"
definition KEYC_KP_SEVEN :: int where "KEYC_KP_SEVEN = 0x1024"
definition KEYC_KP_EIGHT :: int where "KEYC_KP_EIGHT = 0x1025"
definition KEYC_KP_NINE :: int where "KEYC_KP_NINE = 0x1026"
definition KEYC_KP_PLUS :: int where "KEYC_KP_PLUS = 0x1027"
definition KEYC_KP_FOUR :: int where "KEYC_KP_FOUR = 0x1028"
definition KEYC_KP_FIVE :: int where "KEYC_KP_FIVE = 0x1029"
definition KEYC_KP_SIX :: int where "KEYC_KP_SIX = 0x102a"
definition KEYC_KP_ONE :: int where "KEYC_KP_ONE = 0x102b"
definition KEYC_KP_TWO :: int where "KEYC_KP_TWO = 0x102c"
definition KEYC_KP_THREE :: int where "KEYC_KP_THREE = 0x102d"
definition KEYC_KP_ENTER :: int where "KEYC_KP_ENTER = 0x102e"
definition KEYC_KP_ZERO :: int where "KEYC_KP_ZERO = 0x102f"
definition KEYC_KP_PERIOD :: int where "KEYC_KP_PERIOD = 0x1030"

definition KEYC_MASK_MOD :: int where "KEYC_MASK_MOD = KEYC_ESCAPE OR KEYC_CTRL OR KEYC_SHIFT OR KEYC_PREFIX"
definition KEYC_MASK_KEY :: int where "KEYC_MASK_KEY = NOT KEYC_MASK_MOD"

text \<open>A char is signed.\<close>

definition schar :: "char \<Rightarrow> int" where
  "schar c = (if char_code c < 128 then int (char_code c) else int (char_code c) - 256)"

section \<open>The names of keys\<close>

definition key_string_table :: "(string \<times> int) list" where
  "key_string_table =
    [(''F1'', KEYC_F1), (''F2'', KEYC_F2), (''F3'', KEYC_F3), (''F4'', KEYC_F4), (''F5'', KEYC_F5), (''F6'', KEYC_F6),
     (''F7'', KEYC_F7), (''F8'', KEYC_F8), (''F9'', KEYC_F9), (''F10'', KEYC_F10), (''F11'', KEYC_F11), (''F12'', KEYC_F12),
     (''F13'', KEYC_F13), (''F14'', KEYC_F14), (''F15'', KEYC_F15), (''F16'', KEYC_F16), (''F17'', KEYC_F17), (''F18'', KEYC_F18),
     (''F19'', KEYC_F19), (''F20'', KEYC_F20), (''IC'', KEYC_IC), (''DC'', KEYC_DC), (''Home'', KEYC_HOME), (''End'', KEYC_END),
     (''NPage'', KEYC_NPAGE), (''PPage'', KEYC_PPAGE), (''Tab'', 9), (''BTab'', KEYC_BTAB), (''Space'', 32), (''BSpace'', KEYC_BSPACE),
     (''Enter'', 13), (''Escape'', 27), (''Up'', KEYC_UP), (''Down'', KEYC_DOWN), (''Left'', KEYC_LEFT), (''Right'', KEYC_RIGHT),
     (''KP/'', KEYC_KP_SLASH), (''KP*'', KEYC_KP_STAR), (''KP-'', KEYC_KP_MINUS), (''KP7'', KEYC_KP_SEVEN), (''KP8'', KEYC_KP_EIGHT), (''KP9'', KEYC_KP_NINE),
     (''KP+'', KEYC_KP_PLUS), (''KP4'', KEYC_KP_FOUR), (''KP5'', KEYC_KP_FIVE), (''KP6'', KEYC_KP_SIX), (''KP1'', KEYC_KP_ONE), (''KP2'', KEYC_KP_TWO),
     (''KP3'', KEYC_KP_THREE), (''KPEnter'', KEYC_KP_ENTER), (''KP0'', KEYC_KP_ZERO), (''KP.'', KEYC_KP_PERIOD)]"

definition key_string_search_table :: "string \<Rightarrow> int" where
  "key_string_search_table s = (case find (\<lambda>e. strcaseeq s (fst e)) key_string_table of Some e \<Rightarrow> snd e | None \<Rightarrow> KEYC_NONE)"

definition modifier_bit :: "char \<Rightarrow> int" where
  "modifier_bit c = (if c = CHR ''C'' \<or> c = CHR ''c'' then KEYC_CTRL else if c = CHR ''M'' \<or> c = CHR ''m'' then KEYC_ESCAPE
     else if c = CHR ''S'' \<or> c = CHR ''s'' then KEYC_SHIFT else 0)"

text \<open>The modifiers and the rest of the string; any letter before a hyphen is skipped.\<close>

fun key_string_get_modifiers :: "string \<Rightarrow> int \<Rightarrow> int \<times> string" where
  "key_string_get_modifiers (c # d # s) modifiers =
     (if d = CHR ''-'' then key_string_get_modifiers s (modifiers OR modifier_bit c) else (modifiers, c # d # s))"
| "key_string_get_modifiers s modifiers = (modifiers, s)"

text \<open>The control key of a standard key, without its modifier.\<close>

definition control_key :: "int \<Rightarrow> int option" where
  "control_key key =
     (if 97 \<le> key \<and> key \<le> 122 then Some (key - 96)
      else if 64 \<le> key \<and> key \<le> 95 then Some (key - 64)
      else if key = 32 then Some 0
      else if key = 63 then Some KEYC_BSPACE
      else None)"

definition key_string_lookup_string :: "string \<Rightarrow> int" where
  "key_string_lookup_string s =
     (let (m1, s1) = (case s of c # d # r \<Rightarrow> if c = CHR ''^'' then (KEYC_CTRL, d # r) else (0, s) | _ \<Rightarrow> (0, s));
          (m2, s2) = key_string_get_modifiers s1 0; modifiers = m1 OR m2;
          key = (case s2 of
              [] \<Rightarrow> KEYC_NONE
            | [c] \<Rightarrow> if char_code c < 32 \<or> char_code c = 127 \<or> char_code c > 255 then KEYC_NONE else int (char_code c)
            | _ \<Rightarrow> key_string_search_table s2) in
      if key = KEYC_NONE then KEYC_NONE
      else if key < KEYC_BASE \<and> modifiers AND KEYC_CTRL \<noteq> 0 then
        (case control_key key of
           None \<Rightarrow> KEYC_NONE
         | Some k \<Rightarrow> k OR (modifiers AND NOT KEYC_CTRL))
      else key OR modifiers)"

text \<open>%o of printf.\<close>

fun print_octal :: "nat \<Rightarrow> string" where
  "print_octal n = (if n < 8 then [digit_char n] else print_octal (n div 8) @ [digit_char (n mod 8)])"

declare print_octal.simps [simp del]

text \<open>
  The name of a key; None for a null pointer. A negative key would leave tmp unset: the outer
  option is None for that.
\<close>

definition modifiers_text :: "int \<Rightarrow> string" where
  "modifiers_text key =
     (let out = (if key AND KEYC_CTRL \<noteq> 0 then strlcat [] ''C-'' 24 else []);
          out = (if key AND KEYC_ESCAPE \<noteq> 0 then strlcat out ''M-'' 24 else out) in
      if key AND KEYC_SHIFT \<noteq> 0 then strlcat out ''S-'' 24 else out)"

definition key_string_lookup_key :: "int \<Rightarrow> string option option" where
  "key_string_lookup_key key =
     (let key = (if key AND KEYC_MASK_KEY = 0 then 32 OR KEYC_CTRL OR (key AND KEYC_MASK_MOD) else key);
          out = modifiers_text key; key = key AND KEYC_MASK_KEY in
      case find (\<lambda>e. key = snd e) key_string_table of
        Some e \<Rightarrow> Some (Some (strlcat out (fst e) 24))
      | None \<Rightarrow>
         if key = 127 \<or> key > 255 then Some None
         else if 0 \<le> key \<and> key \<le> 32 then
           Some (Some (strlcat out (''C-'' @ [char_of (if key = 0 \<or> key > 26 then 64 + key else 96 + key)]) 24))
         else if 32 \<le> key \<and> key \<le> 126 then Some (Some (strlcat out [char_of key] 24))
         else if key \<ge> 128 then Some (Some (strlcat out (CHR 0x5c # print_octal (nat key)) 24))
         else None)"

section \<open>Keys with modifiers in xterm\<close>

abbreviation esc :: "string \<Rightarrow> string" where "esc s \<equiv> CHR 0x1b # s"

definition xterm_keys_table :: "(int \<times> string) list" where
  "xterm_keys_table =
    [(KEYC_F1, esc ''[1;_P''), (KEYC_F1, esc ''O_P''), (KEYC_F2, esc ''[1;_Q''), (KEYC_F2, esc ''O_Q''), (KEYC_F3, esc ''[1;_R''),
     (KEYC_F3, esc ''O_R''), (KEYC_F4, esc ''[1;_S''), (KEYC_F4, esc ''O_S''), (KEYC_F5, esc ''[15;_~''), (KEYC_F6, esc ''[17;_~''),
     (KEYC_F7, esc ''[18;_~''), (KEYC_F8, esc ''[19;_~''), (KEYC_F9, esc ''[20;_~''), (KEYC_F10, esc ''[21;_~''), (KEYC_F11, esc ''[23;_~''),
     (KEYC_F12, esc ''[24;_~''), (KEYC_F13, esc ''[25;_~''), (KEYC_F14, esc ''[26;_~''), (KEYC_F15, esc ''[28;_~''), (KEYC_F16, esc ''[29;_~''),
     (KEYC_F17, esc ''[31;_~''), (KEYC_F18, esc ''[32;_~''), (KEYC_F19, esc ''[33;_~''), (KEYC_F20, esc ''[34;_~''), (KEYC_UP, esc ''[1;_A''),
     (KEYC_DOWN, esc ''[1;_B''), (KEYC_RIGHT, esc ''[1;_C''), (KEYC_LEFT, esc ''[1;_D''), (KEYC_HOME, esc ''[1;_H''), (KEYC_END, esc ''[1;_F''),
     (KEYC_PPAGE, esc ''[5;_~''), (KEYC_NPAGE, esc ''[6;_~''), (KEYC_IC, esc ''[2;_~''), (KEYC_DC, esc ''[3;_~'')]"

text \<open>
  The buffer is the memory from its start, which may be longer than len; reading behind it is a
  fault. The result is -1, 0 or 1.
\<close>

fun keys_match_loop :: "string \<Rightarrow> string \<Rightarrow> nat \<Rightarrow> nat \<Rightarrow> int option" where
  "keys_match_loop [] buf len pos = Some 0"
| "keys_match_loop (t # ts) buf len pos =
     (let next = (if pos = len then Some 1 else if ts = [] then Some 0 else keys_match_loop ts buf len (pos + 1)) in
      if t = CHR ''_'' then next
      else case lget pos buf of None \<Rightarrow> None | Some b \<Rightarrow> if b \<noteq> t then Some (-1) else next)"

definition xterm_keys_match :: "string \<Rightarrow> string \<Rightarrow> nat \<Rightarrow> int option" where
  "xterm_keys_match template buf len = (if len = 0 then Some 0 else keys_match_loop template buf len 0)"

definition xterm_keys_modifiers :: "string \<Rightarrow> string \<Rightarrow> nat \<Rightarrow> int option" where
  "xterm_keys_modifiers template buf len =
     (let idx = strcspn template ''_'' in
      if idx \<ge> len then Some 0
      else map_option (\<lambda>b. let param = schar b - 49 in
        (if param AND 1 \<noteq> 0 then KEYC_SHIFT else 0) OR (if param AND 2 \<noteq> 0 then KEYC_ESCAPE else 0) OR
        (if param AND 4 \<noteq> 0 then KEYC_CTRL else 0) OR (if param AND 8 \<noteq> 0 then KEYC_ESCAPE else 0)) (lget idx buf))"

text \<open>What was found with its size and key, or -1 or 1.\<close>

datatype xterm_found = Found nat int | Not_Found | Partial

fun keys_find_loop :: "(int \<times> string) list \<Rightarrow> string \<Rightarrow> nat \<Rightarrow> xterm_found option" where
  "keys_find_loop [] buf len = Some Not_Found"
| "keys_find_loop ((key, template) # es) buf len = do {
     r \<leftarrow> xterm_keys_match template buf len;
     if r = 0 then map_option (\<lambda>m. Found (length template) (key OR m)) (xterm_keys_modifiers template buf len)
     else if r = 1 then Some Partial
     else keys_find_loop es buf len
   }"

definition xterm_keys_find :: "string \<Rightarrow> nat \<Rightarrow> xterm_found option" where
  "xterm_keys_find = keys_find_loop xterm_keys_table"

definition xterm_keys_lookup :: "int \<Rightarrow> string option" where
  "xterm_keys_lookup key =
     (let modifiers = 1 + (if key AND KEYC_SHIFT \<noteq> 0 then 1 else 0) + (if key AND KEYC_ESCAPE \<noteq> 0 then 2 else 0) +
            (if key AND KEYC_CTRL \<noteq> 0 then 4 else 0);
          key = key AND NOT (KEYC_SHIFT OR KEYC_ESCAPE OR KEYC_CTRL) in
      if modifiers = 1 then None
      else map_option (\<lambda>(k, template). template[strcspn template ''_'' := char_of (48 + modifiers :: nat)])
        (find (\<lambda>(k, template). key = k) xterm_keys_table))"

end
