(* ===== verification/Key_Props.thy ===== *)
theory Key_Props
  imports Keys
begin

text \<open>
  The properties of the names of keys and of the sequences of xterm: both tables are read back
  as they are written.
\<close>

section \<open>Keys and modifiers\<close>

definition modifier_sets :: "int list" where
  "modifier_sets = [0, 0x2000, 0x4000, 0x6000, 0x8000, 0xa000, 0xc000, 0xe000]"

lemma and_bit: "(key :: int) AND 2 ^ n = (if bit key n then 2 ^ n else 0)"
  by (rule bit_eqI) (auto simp: bit_simps)

lemma modifiers_cases: "(key :: int) AND 0xe000 \<in> set modifier_sets"
proof -
  have p: "(0x2000 :: int) = 2 ^ 13" "(0x4000 :: int) = 2 ^ 14" "(0x8000 :: int) = 2 ^ 15" by simp_all
  have "key AND 0xe000 = (key AND 0x2000) OR (key AND 0x4000) OR (key AND 0x8000)"
    by (simp flip: bit.conj_disj_distrib)
  also have "\<dots> \<in> set modifier_sets" unfolding p and_bit by (simp add: modifier_sets_def)
  finally show ?thesis .
qed

lemma key_split: "(key :: int) = (key AND NOT m) OR (key AND m)"
  by (rule bit_eqI) (auto simp: bit_simps)

lemma code_key_bits:
  fixes k :: int
  assumes "0 \<le> k" "k < 0x2000" "m AND 0x1fff = 0"
  shows "k AND m = 0"
proof -
  have "take_bit 13 k = k" using assms(1,2) by (intro take_bit_int_eq_self) simp_all
  then have "k = k AND 0x1fff" by (simp add: take_bit_eq_mask mask_eq_exp_minus_1)
  then show ?thesis using assms(3) by (metis and.assoc and.commute and_zero_eq)
qed

section \<open>Names\<close>

lemmas keyc_defs = KEYC_NONE_def KEYC_BASE_def KEYC_ESCAPE_def KEYC_CTRL_def KEYC_SHIFT_def KEYC_PREFIX_def KEYC_MASK_MOD_def KEYC_MASK_KEY_def

definition key_prefix :: "int \<Rightarrow> string" where
  "key_prefix m = (if m AND 0x4000 \<noteq> 0 then ''C-'' else []) @ (if m AND 0x2000 \<noteq> 0 then ''M-'' else []) @ (if m AND 0x8000 \<noteq> 0 then ''S-'' else [])"

lemma with_modifiers:
  assumes "0 \<le> k" "k < 0x2000" "m \<in> set modifier_sets"
  shows "(k OR m) AND KEYC_MASK_KEY = k" "modifiers_text (k OR m) = key_prefix m" "(k OR m) AND KEYC_CTRL = m AND KEYC_CTRL"
proof -
  have z: "k AND 0x4000 = 0" "k AND 0x2000 = 0" "k AND 0x8000 = 0" "k AND 0x1e000 = 0" using code_key_bits [OF assms(1,2)] by simp_all
  have "k AND NOT 0x1e000 = k" using key_split [of k "0x1e000"] z(4) by simp
  moreover have "m AND NOT 0x1e000 = 0" using assms(3) by (auto simp: modifier_sets_def)
  ultimately show "(k OR m) AND KEYC_MASK_KEY = k" by (simp add: keyc_defs bit.conj_disj_distrib2)
  show "modifiers_text (k OR m) = key_prefix m"
    using z by (simp add: modifiers_text_def keyc_defs bit.conj_disj_distrib2 key_prefix_def strlcat_def)
  show "(k OR m) AND KEYC_CTRL = m AND KEYC_CTRL" using z by (simp add: keyc_defs bit.conj_disj_distrib2)
qed

lemma read_modifiers:
  assumes "m \<in> set modifier_sets" "case s of c # d # r \<Rightarrow> d \<noteq> CHR ''-'' | _ \<Rightarrow> True"
  shows "key_string_get_modifiers (key_prefix m @ s) 0 = (m, s)"
proof -
  have "key_string_get_modifiers s n = (n, s)" for n using assms(2) by (cases s; cases "tl s") auto
  then show ?thesis using assms(1) by (auto simp: modifier_sets_def key_prefix_def modifier_bit_def keyc_defs)
qed

lemmas key_codes = KEYC_MOUSE_def KEYC_BSPACE_def KEYC_F1_def KEYC_F2_def KEYC_F3_def KEYC_F4_def KEYC_F5_def KEYC_F6_def
    KEYC_F7_def KEYC_F8_def KEYC_F9_def KEYC_F10_def KEYC_F11_def KEYC_F12_def KEYC_F13_def KEYC_F14_def KEYC_F15_def KEYC_F16_def
    KEYC_F17_def KEYC_F18_def KEYC_F19_def KEYC_F20_def KEYC_IC_def KEYC_DC_def KEYC_HOME_def KEYC_END_def KEYC_NPAGE_def
    KEYC_PPAGE_def KEYC_BTAB_def KEYC_UP_def KEYC_DOWN_def KEYC_LEFT_def KEYC_RIGHT_def KEYC_KP_SLASH_def KEYC_KP_STAR_def
    KEYC_KP_MINUS_def KEYC_KP_SEVEN_def KEYC_KP_EIGHT_def KEYC_KP_NINE_def KEYC_KP_PLUS_def KEYC_KP_FOUR_def KEYC_KP_FIVE_def
    KEYC_KP_SIX_def KEYC_KP_ONE_def KEYC_KP_TWO_def KEYC_KP_THREE_def KEYC_KP_ENTER_def KEYC_KP_ZERO_def KEYC_KP_PERIOD_def

text \<open>The table has neither a key nor a name twice.\<close>

lemma table_keys: "e \<in> set key_string_table \<Longrightarrow> snd e \<in> {9, 13, 27, 32} \<or> 0x1001 \<le> snd e \<and> snd e < 0x2000"
  by (auto simp: key_string_table_def key_codes)

lemma table_distinct: "distinct (map snd key_string_table)"
  by (simp add: key_string_table_def key_codes)

lemma names_distinct: "distinct (map (map tolower \<circ> fst) key_string_table)"
  by code_simp

lemma name_shape: "e \<in> set key_string_table \<Longrightarrow>
  length (fst e) \<le> 7 \<and> (case fst e of c # d # r \<Rightarrow> c \<noteq> CHR ''^'' \<and> d \<noteq> CHR ''-'' | _ \<Rightarrow> False)"
  by (auto simp: key_string_table_def)

lemma find_key: "e \<in> set key_string_table \<Longrightarrow> find (\<lambda>x. snd e = snd x) key_string_table = Some e"
  using table_distinct by (intro find_unique) (auto simp: distinct_map inj_on_def)

lemma find_name: "e \<in> set key_string_table \<Longrightarrow> key_string_search_table (fst e) = snd e"
proof -
  assume e: "e \<in> set key_string_table"
  have "find (\<lambda>x. strcaseeq (fst e) (fst x)) key_string_table = Some e"
    using names_distinct e by (intro find_unique) (auto simp: strcaseeq_def distinct_map inj_on_def)
  then show ?thesis by (simp add: key_string_search_table_def)
qed

lemma no_caret: "m \<in> set modifier_sets \<Longrightarrow> (case s of c # d # r \<Rightarrow> c \<noteq> CHR ''^'' | _ \<Rightarrow> True) \<Longrightarrow>
  (case key_prefix m @ s of c # d # r \<Rightarrow> if c = CHR ''^'' then (KEYC_CTRL, d # r) else (0, key_prefix m @ s) | _ \<Rightarrow> (0, key_prefix m @ s)) = (0, key_prefix m @ s)"
  by (auto simp: modifier_sets_def key_prefix_def split: list.splits)

lemma prefix_fits: "m \<in> set modifier_sets \<Longrightarrow> length s \<le> 7 \<Longrightarrow> strlcat (key_prefix m) s 24 = key_prefix m @ s"
  by (auto simp: modifier_sets_def key_prefix_def strlcat_def)

definition name_ok :: "int \<Rightarrow> bool" where
  "name_ok key \<longleftrightarrow> (\<exists>s. key_string_lookup_key key = Some (Some s) \<and> key_string_lookup_string s = key)"

lemma table_name_ok:
  assumes "e \<in> set key_string_table" "m \<in> set modifier_sets" "KEYC_BASE \<le> snd e \<or> m AND KEYC_CTRL = 0"
  shows "name_ok (snd e OR m)"
proof -
  have k: "0 \<le> snd e" "snd e < 0x2000" "snd e \<noteq> 0" "snd e \<noteq> KEYC_NONE" using table_keys [OF assms(1)] by (auto simp: keyc_defs)
  note w = with_modifiers [OF k(1,2) assms(2)]
  have "key_string_lookup_key (snd e OR m) = Some (Some (key_prefix m @ fst e))"
    using k(3) w find_key [OF assms(1)] prefix_fits [OF assms(2)] name_shape [OF assms(1)] by (simp add: key_string_lookup_key_def Let_def)
  moreover have "key_string_lookup_string (key_prefix m @ fst e) = snd e OR m"
  proof -
    obtain c d r where n: "fst e = c # d # r" "c \<noteq> CHR ''^''" "d \<noteq> CHR ''-''" using name_shape [OF assms(1)] by (auto split: list.splits)
    have "key_string_get_modifiers (key_prefix m @ fst e) 0 = (m, fst e)" using n by (intro read_modifiers [OF assms(2)]) simp
    then show ?thesis using no_caret [OF assms(2), of "fst e"] n find_name [OF assms(1)] k(4) assms(3)
      unfolding key_string_lookup_string_def by auto
  qed
  ultimately show ?thesis by (auto simp: name_ok_def)
qed

lemma no_table_key: "k \<notin> {9, 13, 27, 32} \<Longrightarrow> k < 0x1001 \<Longrightarrow> find (\<lambda>x. k = snd x) key_string_table = None"
  by (auto simp: find_None_iff dest!: table_keys)

lemma one_char:
  assumes "m \<in> set modifier_sets" "0 \<le> k" "k < 256"
  shows "key_string_get_modifiers (key_prefix m @ [char_of k]) 0 = (m, [char_of k])"
    "key_string_get_modifiers (key_prefix m @ ''C-'' @ [char_of k]) 0 = (m OR 0x4000, [char_of k])"
    "int (char_code (char_of k)) = k"
proof -
  show "key_string_get_modifiers (key_prefix m @ [char_of k]) 0 = (m, [char_of k])" by (rule read_modifiers [OF assms(1)]) simp
  show "key_string_get_modifiers (key_prefix m @ ''C-'' @ [char_of k]) 0 = (m OR 0x4000, [char_of k])"
    using assms(1) by (auto simp: modifier_sets_def key_prefix_def modifier_bit_def keyc_defs)
  show "int (char_code (char_of k)) = k" using assms(2,3) by (simp add: char_code_def of_nat_of_char)
qed

lemma plain_name_ok:
  assumes "33 \<le> k" "k \<le> 126" "m \<in> set modifier_sets" "m AND KEYC_CTRL = 0"
  shows "name_ok (k OR m)"
proof -
  note w = with_modifiers [of k m] one_char [OF assms(3), of k]
  have "key_string_lookup_key (k OR m) = Some (Some (key_prefix m @ [char_of k]))"
    using w assms no_table_key [of k] prefix_fits [OF assms(3)] by (simp add: key_string_lookup_key_def Let_def)
  moreover have "key_string_lookup_string (key_prefix m @ [char_of k]) = k OR m"
    using w assms no_caret [OF assms(3), of "[char_of k]"] unfolding key_string_lookup_string_def
    by (auto simp: keyc_defs)
  ultimately show ?thesis by (auto simp: name_ok_def)
qed

lemma control_name_ok:
  assumes "1 \<le> k" "k \<le> 31" "k \<notin> {9, 13, 27}" "m \<in> set modifier_sets" "m AND KEYC_CTRL = 0"
  shows "name_ok (k OR m)"
proof -
  let ?c = "if k > 26 then 64 + k else 96 + k"
  note w = with_modifiers [of k m] one_char [OF assms(4), of ?c]
  have "key_string_lookup_key (k OR m) = Some (Some (key_prefix m @ ''C-'' @ [char_of ?c]))"
    using w assms no_table_key [of k] prefix_fits [OF assms(4)] by (simp add: key_string_lookup_key_def Let_def)
  moreover have "control_key ?c = Some k" using assms(1-3) by (auto simp: control_key_def)
  moreover have "(m OR 0x4000) AND NOT 0x4000 = m" "(m OR 0x4000) AND 0x4000 \<noteq> 0"
    using assms(4,5) by (auto simp: modifier_sets_def keyc_defs)
  ultimately have "key_string_lookup_string (key_prefix m @ ''C-'' @ [char_of ?c]) = k OR m"
    using w assms no_caret [OF assms(4), of "''C-'' @ [char_of ?c]"] unfolding key_string_lookup_string_def
    by (auto simp: keyc_defs)
  then show ?thesis using \<open>key_string_lookup_key (k OR m) = _\<close> by (auto simp: name_ok_def)
qed

lemma space_key: "key_string_search_table ''Space'' = 32"
  using find_name [of "(''Space'', 32)"] by (simp add: key_string_table_def)

lemma zero_name_ok:
  assumes "m \<in> set modifier_sets" "m AND KEYC_CTRL = 0"
  shows "name_ok (0 OR m)"
proof -
  have m: "m \<in> {0, 0x2000, 0x8000, 0xa000}" using assms by (auto simp: modifier_sets_def keyc_defs)
  have e: "(''Space'', 32) \<in> set key_string_table" by (simp add: key_string_table_def)
  have k: "m OR 0x4000 \<in> set modifier_sets" using m by (auto simp: modifier_sets_def)
  note w = with_modifiers [of 32 "m OR 0x4000", OF _ _ k]
  have z: "m AND KEYC_MASK_KEY = 0" "32 OR KEYC_CTRL OR (m AND KEYC_MASK_MOD) = 32 OR (m OR 0x4000)"
    using m by (auto simp: keyc_defs)
  have "key_string_lookup_key (0 OR m) = Some (Some (key_prefix (m OR 0x4000) @ ''Space''))"
    using z w find_key [OF e] prefix_fits [OF k, of "''Space''"] by (simp add: key_string_lookup_key_def Let_def)
  moreover have "key_string_lookup_string (key_prefix (m OR 0x4000) @ ''Space'') = 0 OR m"
    using read_modifiers [OF k, of "''Space''"] no_caret [OF k, of "''Space''"] space_key m unfolding key_string_lookup_string_def
    by (auto simp: keyc_defs control_key_def)
  ultimately show ?thesis by (auto simp: name_ok_def)
qed



section \<open>Sequences of xterm\<close>

lemma match_extends:
  "keys_match_loop ts s (length s) pos = Some r \<Longrightarrow> r \<noteq> 1 \<Longrightarrow> pos \<le> length s \<Longrightarrow> length s \<le> len \<Longrightarrow>
   keys_match_loop ts (s @ rest) len pos = Some r"
proof (induction ts arbitrary: pos)
  case (Cons t ts)
  have "pos < length s"
  proof (rule ccontr)
    assume "\<not> pos < length s"
    then have "pos = length s" using Cons.prems(3) by simp
    then show False using Cons.prems(1,2) by (auto simp: lget_def Let_def split: if_splits)
  qed
  then show ?case using Cons.prems Cons.IH [of "pos + 1"]
    by (auto simp: Let_def lget_def nth_append split: if_splits option.splits)
qed simp

lemma match_length: "keys_match_loop ts s (length s) pos = Some 0 \<Longrightarrow> pos \<le> length s \<Longrightarrow> pos + length ts \<le> length s"
proof (induction ts arbitrary: pos)
  case (Cons t ts)
  have "pos < length s"
  proof (rule ccontr)
    assume "\<not> pos < length s"
    then have "pos = length s" using Cons.prems(2) by simp
    then show False using Cons.prems(1) by (auto simp: lget_def Let_def split: if_splits)
  qed
  then show ?case using Cons.prems Cons.IH [of "pos + 1"]
    by (auto simp: Let_def lget_def split: if_splits option.splits)
qed simp

lemma before_mark: "c \<in> set t \<Longrightarrow> strcspn t [c] < length t"
  by (induction t) (auto simp: strcspn_def)

lemma find_extends:
  assumes "s \<noteq> []" "length s \<le> len" "\<forall>e\<in>set es. CHR ''_'' \<in> set (snd e)"
  shows "keys_find_loop es s (length s) = Some (Found n k) \<Longrightarrow> keys_find_loop es (s @ rest) len = Some (Found n k)"
  using assms(3)
proof (induction es)
  case (Cons e es)
  obtain key t where e: "e = (key, t)" by (cases e)
  have len: "length s \<noteq> 0" "len \<noteq> 0" using assms(1,2) by (cases s; simp)+
  obtain r where r: "keys_match_loop t s (length s) 0 = Some r" "r \<noteq> 1"
    using Cons.prems(1) len by (auto simp: e xterm_keys_match_def bind_eq_Some_conv split: if_splits)
  have x: "keys_match_loop t (s @ rest) len 0 = Some r" by (rule match_extends [OF r _ assms(2)]) simp
  show ?case
  proof (cases "r = 0")
    case True
    have "strcspn t ''_'' < length t" using Cons.prems(2) by (intro before_mark) (simp add: e)
    then have "strcspn t ''_'' < length s" using match_length [of t s 0] r(1) True by simp
    then show ?thesis using Cons.prems(1) r x True len assms(2) by (auto simp: e xterm_keys_match_def xterm_keys_modifiers_def lget_def nth_append)
  next
    case False
    then show ?thesis using Cons r x len by (simp add: e xterm_keys_match_def)
  qed
qed simp

text \<open>The comparison on what is left of the buffer, with which the tables are checked.\<close>

fun match_rest :: "string \<Rightarrow> string \<Rightarrow> nat \<Rightarrow> int option" where
  "match_rest [] bs n = Some 0"
| "match_rest (t # ts) bs n =
     (let goes_on = (if n = 0 then Some 1 else if ts = [] then Some 0 else match_rest ts (tl bs) (n - 1)) in
      if t = CHR ''_'' then goes_on else case bs of [] \<Rightarrow> None | b # _ \<Rightarrow> if b \<noteq> t then Some (-1) else goes_on)"

lemma match_loop_rest: "pos \<le> len \<Longrightarrow> keys_match_loop ts buf len pos = match_rest ts (drop pos buf) (len - pos)"
proof (induction ts arbitrary: pos)
  case (Cons t ts)
  have "tl (drop pos buf) = drop (pos + 1) buf" by (simp add: drop_Suc tl_drop)
  moreover have "lget pos buf = (case drop pos buf of [] \<Rightarrow> None | b # _ \<Rightarrow> Some b)"
    by (cases "pos < length buf") (simp_all add: lget_def Cons_nth_drop_Suc [symmetric])
  ultimately show ?case using Cons.IH [of "pos + 1"] Cons.prems by (auto simp: Let_def split: list.splits)
qed simp

lemma xterm_keys_match_rest [code]: "xterm_keys_match template buf len = (if len = 0 then Some 0 else match_rest template buf len)"
  using match_loop_rest [of 0 len template buf] by (simp add: xterm_keys_match_def)

definition sequence_ok :: "int \<Rightarrow> bool" where
  "sequence_ok key = (case xterm_keys_lookup key of None \<Rightarrow> False
     | Some s \<Rightarrow> s \<noteq> [] \<and> xterm_keys_find s (length s) = Some (Found (length s) key))"

lemma sequences_checked: "list_all (\<lambda>e. list_all (\<lambda>m. sequence_ok (fst e OR m)) (tl modifier_sets)) xterm_keys_table"
  by code_simp

lemma key_modifiers:
  fixes key :: int
  shows "(key AND 0x8000 \<noteq> 0) = ((key AND 0xe000) AND 0x8000 \<noteq> 0)" "(key AND 0x2000 \<noteq> 0) = ((key AND 0xe000) AND 0x2000 \<noteq> 0)"
    "(key AND 0x4000 \<noteq> 0) = ((key AND 0xe000) AND 0x4000 \<noteq> 0)"
  by (simp_all add: and.assoc)

text \<open>
  Sequences of keys with modifiers: what xterm_keys_lookup writes for a key, xterm_keys_find
  reads as the same key, whatever bytes follow in the buffer.
\<close>

lemma xterm_keys_found:
  assumes "xterm_keys_lookup key = Some s" "length s \<le> len"
  shows "xterm_keys_find (s @ rest) len = Some (Found (length s) key)"
proof -
  let ?m = "key AND 0xe000" and ?k = "key AND NOT 0xe000"
  have mask: "KEYC_SHIFT OR KEYC_ESCAPE OR KEYC_CTRL = 0xe000" by (simp add: keyc_defs)
  have "find (\<lambda>(k, template). ?k = k) xterm_keys_table \<noteq> None"
    using assms(1) by (auto simp: xterm_keys_lookup_def mask Let_def split: if_splits)
  then obtain e where e: "e \<in> set xterm_keys_table" "fst e = ?k" by (auto simp: find_None_iff)
  have "?m \<noteq> 0" using assms(1) key_modifiers [of key]
    by (cases "?m = 0") (auto simp: xterm_keys_lookup_def keyc_defs)
  then have "?m \<in> set (tl modifier_sets)" using modifiers_cases [of key] by (auto simp: modifier_sets_def)
  then have "sequence_ok (?k OR ?m)" using sequences_checked e by (auto simp: list_all_iff)
  then have ok: "s \<noteq> []" "xterm_keys_find s (length s) = Some (Found (length s) key)"
    using assms(1) key_split [of key "0xe000"] by (auto simp: sequence_ok_def)
  have "\<forall>e\<in>set xterm_keys_table. CHR ''_'' \<in> set (snd e)" by (simp add: xterm_keys_table_def)
  from find_extends [OF ok(1) assms(2) this ok(2) [unfolded xterm_keys_find_def]] show ?thesis by (simp add: xterm_keys_find_def)
qed

definition is_partial :: "string \<Rightarrow> nat \<Rightarrow> bool" where
  "is_partial t n \<longleftrightarrow> xterm_keys_find (take n t @ [char_of (0::nat)]) n = Some (if n = strcspn t ''_'' then Partial else Not_Found)"

lemma partial_checked: "list_all (\<lambda>e. list_all (is_partial (snd e)) [1..<length (snd e)]) xterm_keys_table"
  by code_simp

text \<open>
  C40: incomplete sequences. The comment says that a sequence whose rest has not arrived yet is
  reported as partial; but the comparison goes on to the byte behind the buffer, so that an
  incomplete sequence with a zero byte behind it is not found, unless it ends just before the
  modifier.
\<close>

theorem xterm_keys_partial:
  assumes "e \<in> set xterm_keys_table" "0 < n" "n < length (snd e)"
  shows "xterm_keys_find (take n (snd e) @ [char_of (0::nat)]) n = Some (if n = strcspn (snd e) ''_'' then Partial else Not_Found)"
  using partial_checked assms by (auto simp: list_all_iff is_partial_def)

theorem xterm_keys_partial_witness: "xterm_keys_find (esc ''[1'' @ [char_of (0::nat)]) 3 = Some Not_Found"
proof -
  have "(KEYC_UP, esc ''[1;_A'') \<in> set xterm_keys_table" by (simp add: xterm_keys_table_def)
  from xterm_keys_partial [OF this, of 3] show ?thesis by (simp add: strcspn_def)
qed

end
