(* ===== verification/Input_Keys.thy ===== *)
theory Input_Keys
  imports Keys Screen Utf8 Layout
begin

text \<open>
  input-keys.c: the bytes that a key or the mouse sends to the program in a pane. The screen of
  the pane and the options are arguments.
\<close>

definition INPUTKEY_KEYPAD :: nat where "INPUTKEY_KEYPAD = 1"
definition INPUTKEY_CURSOR :: nat where "INPUTKEY_CURSOR = 2"

definition input_keys :: "(int \<times> string \<times> nat) list" where
  "input_keys =
    [(KEYC_BSPACE, [CHR 0x7f], 0), (KEYC_F1, esc ''OP'', 0), (KEYC_F2, esc ''OQ'', 0), (KEYC_F3, esc ''OR'', 0),
     (KEYC_F4, esc ''OS'', 0), (KEYC_F5, esc ''[15~'', 0), (KEYC_F6, esc ''[17~'', 0), (KEYC_F7, esc ''[18~'', 0),
     (KEYC_F8, esc ''[19~'', 0), (KEYC_F9, esc ''[20~'', 0), (KEYC_F10, esc ''[21~'', 0), (KEYC_F11, esc ''[23~'', 0),
     (KEYC_F12, esc ''[24~'', 0), (KEYC_F13, esc ''[25~'', 0), (KEYC_F14, esc ''[26~'', 0), (KEYC_F15, esc ''[28~'', 0),
     (KEYC_F16, esc ''[29~'', 0), (KEYC_F17, esc ''[31~'', 0), (KEYC_F18, esc ''[32~'', 0), (KEYC_F19, esc ''[33~'', 0),
     (KEYC_F20, esc ''[34~'', 0), (KEYC_IC, esc ''[2~'', 0), (KEYC_DC, esc ''[3~'', 0), (KEYC_HOME, esc ''[1~'', 0),
     (KEYC_END, esc ''[4~'', 0), (KEYC_NPAGE, esc ''[6~'', 0), (KEYC_PPAGE, esc ''[5~'', 0), (KEYC_BTAB, esc ''[Z'', 0),
     ((KEYC_UP OR KEYC_CTRL), esc ''[A'', INPUTKEY_CURSOR), ((KEYC_DOWN OR KEYC_CTRL), esc ''[B'', INPUTKEY_CURSOR), ((KEYC_RIGHT OR KEYC_CTRL), esc ''[C'', INPUTKEY_CURSOR), ((KEYC_LEFT OR KEYC_CTRL), esc ''[D'', INPUTKEY_CURSOR),
     (KEYC_UP, esc ''OA'', INPUTKEY_CURSOR), (KEYC_DOWN, esc ''OB'', INPUTKEY_CURSOR), (KEYC_RIGHT, esc ''OC'', INPUTKEY_CURSOR), (KEYC_LEFT, esc ''OD'', INPUTKEY_CURSOR),
     ((KEYC_UP OR KEYC_CTRL), esc ''OA'', 0), ((KEYC_DOWN OR KEYC_CTRL), esc ''OB'', 0), ((KEYC_RIGHT OR KEYC_CTRL), esc ''OC'', 0), ((KEYC_LEFT OR KEYC_CTRL), esc ''OD'', 0),
     (KEYC_UP, esc ''[A'', 0), (KEYC_DOWN, esc ''[B'', 0), (KEYC_RIGHT, esc ''[C'', 0), (KEYC_LEFT, esc ''[D'', 0),
     (KEYC_KP_SLASH, esc ''Oo'', INPUTKEY_KEYPAD), (KEYC_KP_STAR, esc ''Oj'', INPUTKEY_KEYPAD), (KEYC_KP_MINUS, esc ''Om'', INPUTKEY_KEYPAD), (KEYC_KP_SEVEN, esc ''Ow'', INPUTKEY_KEYPAD),
     (KEYC_KP_EIGHT, esc ''Ox'', INPUTKEY_KEYPAD), (KEYC_KP_NINE, esc ''Oy'', INPUTKEY_KEYPAD), (KEYC_KP_PLUS, esc ''Ok'', INPUTKEY_KEYPAD), (KEYC_KP_FOUR, esc ''Ot'', INPUTKEY_KEYPAD),
     (KEYC_KP_FIVE, esc ''Ou'', INPUTKEY_KEYPAD), (KEYC_KP_SIX, esc ''Ov'', INPUTKEY_KEYPAD), (KEYC_KP_ONE, esc ''Oq'', INPUTKEY_KEYPAD), (KEYC_KP_TWO, esc ''Or'', INPUTKEY_KEYPAD),
     (KEYC_KP_THREE, esc ''Os'', INPUTKEY_KEYPAD), (KEYC_KP_ENTER, esc ''OM'', INPUTKEY_KEYPAD), (KEYC_KP_ZERO, esc ''Op'', INPUTKEY_KEYPAD), (KEYC_KP_PERIOD, esc ''On'', INPUTKEY_KEYPAD),
     (KEYC_KP_SLASH, ''/'', 0), (KEYC_KP_STAR, ''*'', 0), (KEYC_KP_MINUS, ''-'', 0), (KEYC_KP_SEVEN, ''7'', 0),
     (KEYC_KP_EIGHT, ''8'', 0), (KEYC_KP_NINE, ''9'', 0), (KEYC_KP_PLUS, ''+'', 0), (KEYC_KP_FOUR, ''4'', 0),
     (KEYC_KP_FIVE, ''5'', 0), (KEYC_KP_SIX, ''6'', 0), (KEYC_KP_ONE, ''1'', 0), (KEYC_KP_TWO, ''2'', 0),
     (KEYC_KP_THREE, ''3'', 0), (KEYC_KP_ENTER, [CHR 0x0a], 0), (KEYC_KP_ZERO, ''0'', 0), (KEYC_KP_PERIOD, ''.'', 0)]"

text \<open>What an entry needs of the screen, and the key of the entry with or without escape.\<close>

definition key_enabled :: "screen \<Rightarrow> nat \<Rightarrow> bool" where
  "key_enabled s flags \<longleftrightarrow>
     \<not> (flags AND INPUTKEY_KEYPAD \<noteq> 0 \<and> \<not> flag_set (s_mode s) MODE_KKEYPAD) \<and>
     \<not> (flags AND INPUTKEY_CURSOR \<noteq> 0 \<and> \<not> flag_set (s_mode s) MODE_KCURSOR)"

definition key_is :: "int \<Rightarrow> int \<Rightarrow> bool" where
  "key_is key k \<longleftrightarrow> key AND KEYC_ESCAPE \<noteq> 0 \<and> k OR KEYC_ESCAPE = key \<or> k = key"

definition input_key :: "bool \<Rightarrow> screen \<Rightarrow> int \<Rightarrow> string" where
  "input_key xterm_keys s key =
     (let prefix = (if key AND KEYC_ESCAPE \<noteq> 0 then [CHR 0x1b] else []); ch = key AND NOT KEYC_ESCAPE in
      if key \<noteq> KEYC_NONE \<and> ch < 0x100 then prefix @ [char_of ch]
      else case (if xterm_keys then xterm_keys_lookup key else None) of
        Some out \<Rightarrow> out
      | None \<Rightarrow>
         (case find (\<lambda>(k, data, flags). key_enabled s flags \<and> key_is key k) input_keys of
            None \<Rightarrow> []
          | Some (k, data, flags) \<Rightarrow> prefix @ data))"

text \<open>The mouse: bytes for the program, or copy mode, which then gets the event.\<close>

datatype mouse_result = Bytes "byte list" | Ignored | Copy_Mode

definition input_mouse :: "bool \<Rightarrow> screen \<Rightarrow> mouse_event \<Rightarrow> mouse_result" where
  "input_mouse mode_mouse s m =
     (if flag_set (s_mode s) ALL_MOUSE_MODES then
        if flag_set (s_mode s) MODE_MOUSE_UTF8 then
          Bytes ([0x1b, 0x5b, 0x4d] @ utf8_split2 (uadd (m_b m) 32) @ utf8_split2 (uadd (m_x m) 33) @ utf8_split2 (uadd (m_y m) 33))
        else if m_b m > 223 \<or> m_x m \<ge> 222 \<or> m_y m > 222 then Ignored
        else Bytes [0x1b, 0x5b, 0x4d, word_of_nat (m_b m + 32), word_of_nat (m_x m + 33), word_of_nat (m_y m + 33)]
      else if m_b m AND MOUSE_BUTTON \<noteq> 1 \<and> mode_mouse then Copy_Mode
      else Ignored)"

end
