(* ===== verification/Tty_Keys.thy ===== *)
theory Tty_Keys
  imports Input_Keys
begin

text \<open>
  tty-keys.c: reading keys from the terminal of a client. The known sequences are in a ternary
  tree; what has arrived is a buffer, and the bytes behind it in memory are part of the state,
  because some functions look at them. None is a read behind those too, or a call of fatalx. What
  terminfo says of the terminal is an argument.
\<close>

section \<open>The keys of a terminal\<close>

text \<open>The capabilities of terminfo that are keys, by their codes.\<close>

definition TTYC_KF1 :: nat where "TTYC_KF1 = 67"
definition TTYC_KF2 :: nat where "TTYC_KF2 = 78"
definition TTYC_KF3 :: nat where "TTYC_KF3 = 80"
definition TTYC_KF4 :: nat where "TTYC_KF4 = 81"
definition TTYC_KF5 :: nat where "TTYC_KF5 = 82"
definition TTYC_KF6 :: nat where "TTYC_KF6 = 83"
definition TTYC_KF7 :: nat where "TTYC_KF7 = 84"
definition TTYC_KF8 :: nat where "TTYC_KF8 = 85"
definition TTYC_KF9 :: nat where "TTYC_KF9 = 86"
definition TTYC_KF10 :: nat where "TTYC_KF10 = 68"
definition TTYC_KF11 :: nat where "TTYC_KF11 = 69"
definition TTYC_KF12 :: nat where "TTYC_KF12 = 70"
definition TTYC_KF13 :: nat where "TTYC_KF13 = 71"
definition TTYC_KF14 :: nat where "TTYC_KF14 = 72"
definition TTYC_KF15 :: nat where "TTYC_KF15 = 73"
definition TTYC_KF16 :: nat where "TTYC_KF16 = 74"
definition TTYC_KF17 :: nat where "TTYC_KF17 = 75"
definition TTYC_KF18 :: nat where "TTYC_KF18 = 76"
definition TTYC_KF19 :: nat where "TTYC_KF19 = 77"
definition TTYC_KF20 :: nat where "TTYC_KF20 = 79"
definition TTYC_KICH1 :: nat where "TTYC_KICH1 = 100"
definition TTYC_KDCH1 :: nat where "TTYC_KDCH1 = 53"
definition TTYC_KHOME :: nat where "TTYC_KHOME = 93"
definition TTYC_KEND :: nat where "TTYC_KEND = 60"
definition TTYC_KNP :: nat where "TTYC_KNP = 108"
definition TTYC_KPP :: nat where "TTYC_KPP = 115"
definition TTYC_KCBT :: nat where "TTYC_KCBT = 42"
definition TTYC_KCUU1 :: nat where "TTYC_KCUU1 = 46"
definition TTYC_KCUD1 :: nat where "TTYC_KCUD1 = 44"
definition TTYC_KCUB1 :: nat where "TTYC_KCUB1 = 43"
definition TTYC_KCUF1 :: nat where "TTYC_KCUF1 = 45"
definition TTYC_KDC2 :: nat where "TTYC_KDC2 = 47"
definition TTYC_KDC3 :: nat where "TTYC_KDC3 = 48"
definition TTYC_KDC4 :: nat where "TTYC_KDC4 = 49"
definition TTYC_KDC5 :: nat where "TTYC_KDC5 = 50"
definition TTYC_KDC6 :: nat where "TTYC_KDC6 = 51"
definition TTYC_KDC7 :: nat where "TTYC_KDC7 = 52"
definition TTYC_KDN2 :: nat where "TTYC_KDN2 = 54"
definition TTYC_KDN3 :: nat where "TTYC_KDN3 = 55"
definition TTYC_KDN4 :: nat where "TTYC_KDN4 = 56"
definition TTYC_KDN5 :: nat where "TTYC_KDN5 = 57"
definition TTYC_KDN6 :: nat where "TTYC_KDN6 = 58"
definition TTYC_KDN7 :: nat where "TTYC_KDN7 = 59"
definition TTYC_KEND2 :: nat where "TTYC_KEND2 = 61"
definition TTYC_KEND3 :: nat where "TTYC_KEND3 = 62"
definition TTYC_KEND4 :: nat where "TTYC_KEND4 = 63"
definition TTYC_KEND5 :: nat where "TTYC_KEND5 = 64"
definition TTYC_KEND6 :: nat where "TTYC_KEND6 = 65"
definition TTYC_KEND7 :: nat where "TTYC_KEND7 = 66"
definition TTYC_KHOM2 :: nat where "TTYC_KHOM2 = 87"
definition TTYC_KHOM3 :: nat where "TTYC_KHOM3 = 88"
definition TTYC_KHOM4 :: nat where "TTYC_KHOM4 = 89"
definition TTYC_KHOM5 :: nat where "TTYC_KHOM5 = 90"
definition TTYC_KHOM6 :: nat where "TTYC_KHOM6 = 91"
definition TTYC_KHOM7 :: nat where "TTYC_KHOM7 = 92"
definition TTYC_KIC2 :: nat where "TTYC_KIC2 = 94"
definition TTYC_KIC3 :: nat where "TTYC_KIC3 = 95"
definition TTYC_KIC4 :: nat where "TTYC_KIC4 = 96"
definition TTYC_KIC5 :: nat where "TTYC_KIC5 = 97"
definition TTYC_KIC6 :: nat where "TTYC_KIC6 = 98"
definition TTYC_KIC7 :: nat where "TTYC_KIC7 = 99"
definition TTYC_KLFT2 :: nat where "TTYC_KLFT2 = 101"
definition TTYC_KLFT3 :: nat where "TTYC_KLFT3 = 102"
definition TTYC_KLFT4 :: nat where "TTYC_KLFT4 = 103"
definition TTYC_KLFT5 :: nat where "TTYC_KLFT5 = 104"
definition TTYC_KLFT6 :: nat where "TTYC_KLFT6 = 105"
definition TTYC_KLFT7 :: nat where "TTYC_KLFT7 = 106"
definition TTYC_KNXT2 :: nat where "TTYC_KNXT2 = 109"
definition TTYC_KNXT3 :: nat where "TTYC_KNXT3 = 110"
definition TTYC_KNXT4 :: nat where "TTYC_KNXT4 = 111"
definition TTYC_KNXT5 :: nat where "TTYC_KNXT5 = 112"
definition TTYC_KNXT6 :: nat where "TTYC_KNXT6 = 113"
definition TTYC_KNXT7 :: nat where "TTYC_KNXT7 = 114"
definition TTYC_KPRV2 :: nat where "TTYC_KPRV2 = 116"
definition TTYC_KPRV3 :: nat where "TTYC_KPRV3 = 117"
definition TTYC_KPRV4 :: nat where "TTYC_KPRV4 = 118"
definition TTYC_KPRV5 :: nat where "TTYC_KPRV5 = 119"
definition TTYC_KPRV6 :: nat where "TTYC_KPRV6 = 120"
definition TTYC_KPRV7 :: nat where "TTYC_KPRV7 = 121"
definition TTYC_KRIT2 :: nat where "TTYC_KRIT2 = 122"
definition TTYC_KRIT3 :: nat where "TTYC_KRIT3 = 123"
definition TTYC_KRIT4 :: nat where "TTYC_KRIT4 = 124"
definition TTYC_KRIT5 :: nat where "TTYC_KRIT5 = 125"
definition TTYC_KRIT6 :: nat where "TTYC_KRIT6 = 126"
definition TTYC_KRIT7 :: nat where "TTYC_KRIT7 = 127"
definition TTYC_KUP2 :: nat where "TTYC_KUP2 = 128"
definition TTYC_KUP3 :: nat where "TTYC_KUP3 = 129"
definition TTYC_KUP4 :: nat where "TTYC_KUP4 = 130"
definition TTYC_KUP5 :: nat where "TTYC_KUP5 = 131"
definition TTYC_KUP6 :: nat where "TTYC_KUP6 = 132"
definition TTYC_KUP7 :: nat where "TTYC_KUP7 = 133"

datatype key_source = Raw string | Terminfo nat

definition tty_keys :: "(key_source \<times> int) list" where
  "tty_keys =
    [(Raw (esc ''Oo''), KEYC_KP_SLASH), (Raw (esc ''Oj''), KEYC_KP_STAR), (Raw (esc ''Om''), KEYC_KP_MINUS), (Raw (esc ''Ow''), KEYC_KP_SEVEN),
     (Raw (esc ''Ox''), KEYC_KP_EIGHT), (Raw (esc ''Oy''), KEYC_KP_NINE), (Raw (esc ''Ok''), KEYC_KP_PLUS), (Raw (esc ''Ot''), KEYC_KP_FOUR),
     (Raw (esc ''Ou''), KEYC_KP_FIVE), (Raw (esc ''Ov''), KEYC_KP_SIX), (Raw (esc ''Oq''), KEYC_KP_ONE), (Raw (esc ''Or''), KEYC_KP_TWO),
     (Raw (esc ''Os''), KEYC_KP_THREE), (Raw (esc ''OM''), KEYC_KP_ENTER), (Raw (esc ''Op''), KEYC_KP_ZERO), (Raw (esc ''On''), KEYC_KP_PERIOD),
     (Raw (esc ''OA''), KEYC_UP), (Raw (esc ''OB''), KEYC_DOWN), (Raw (esc ''OC''), KEYC_RIGHT), (Raw (esc ''OD''), KEYC_LEFT),
     (Raw (esc ''[A''), KEYC_UP), (Raw (esc ''[B''), KEYC_DOWN), (Raw (esc ''[C''), KEYC_RIGHT), (Raw (esc ''[D''), KEYC_LEFT),
     (Raw (esc ''Oa''), (KEYC_UP OR KEYC_CTRL)), (Raw (esc ''Ob''), (KEYC_DOWN OR KEYC_CTRL)), (Raw (esc ''Oc''), (KEYC_RIGHT OR KEYC_CTRL)), (Raw (esc ''Od''), (KEYC_LEFT OR KEYC_CTRL)),
     (Raw (esc ''[a''), (KEYC_UP OR KEYC_SHIFT)), (Raw (esc ''[b''), (KEYC_DOWN OR KEYC_SHIFT)), (Raw (esc ''[c''), (KEYC_RIGHT OR KEYC_SHIFT)), (Raw (esc ''[d''), (KEYC_LEFT OR KEYC_SHIFT)),
     (Raw (esc ''[11^''), (KEYC_F1 OR KEYC_CTRL)), (Raw (esc ''[12^''), (KEYC_F2 OR KEYC_CTRL)), (Raw (esc ''[13^''), (KEYC_F3 OR KEYC_CTRL)), (Raw (esc ''[14^''), (KEYC_F4 OR KEYC_CTRL)),
     (Raw (esc ''[15^''), (KEYC_F5 OR KEYC_CTRL)), (Raw (esc ''[17^''), (KEYC_F6 OR KEYC_CTRL)), (Raw (esc ''[18^''), (KEYC_F7 OR KEYC_CTRL)), (Raw (esc ''[19^''), (KEYC_F8 OR KEYC_CTRL)),
     (Raw (esc ''[20^''), (KEYC_F9 OR KEYC_CTRL)), (Raw (esc ''[21^''), (KEYC_F10 OR KEYC_CTRL)), (Raw (esc ''[23^''), (KEYC_F11 OR KEYC_CTRL)), (Raw (esc ''[24^''), (KEYC_F12 OR KEYC_CTRL)),
     (Raw (esc ''[25^''), (KEYC_F13 OR KEYC_CTRL)), (Raw (esc ''[26^''), (KEYC_F14 OR KEYC_CTRL)), (Raw (esc ''[28^''), (KEYC_F15 OR KEYC_CTRL)), (Raw (esc ''[29^''), (KEYC_F16 OR KEYC_CTRL)),
     (Raw (esc ''[31^''), (KEYC_F17 OR KEYC_CTRL)), (Raw (esc ''[32^''), (KEYC_F18 OR KEYC_CTRL)), (Raw (esc ''[33^''), (KEYC_F19 OR KEYC_CTRL)), (Raw (esc ''[34^''), (KEYC_F20 OR KEYC_CTRL)),
     (Raw (esc ''[2^''), (KEYC_IC OR KEYC_CTRL)), (Raw (esc ''[3^''), (KEYC_DC OR KEYC_CTRL)), (Raw (esc ''[7^''), (KEYC_HOME OR KEYC_CTRL)), (Raw (esc ''[8^''), (KEYC_END OR KEYC_CTRL)),
     (Raw (esc ''[6^''), (KEYC_NPAGE OR KEYC_CTRL)), (Raw (esc ''[5^''), (KEYC_PPAGE OR KEYC_CTRL)), (Raw (esc ''[11$''), (KEYC_F1 OR KEYC_SHIFT)), (Raw (esc ''[12$''), (KEYC_F2 OR KEYC_SHIFT)),
     (Raw (esc ''[13$''), (KEYC_F3 OR KEYC_SHIFT)), (Raw (esc ''[14$''), (KEYC_F4 OR KEYC_SHIFT)), (Raw (esc ''[15$''), (KEYC_F5 OR KEYC_SHIFT)), (Raw (esc ''[17$''), (KEYC_F6 OR KEYC_SHIFT)),
     (Raw (esc ''[18$''), (KEYC_F7 OR KEYC_SHIFT)), (Raw (esc ''[19$''), (KEYC_F8 OR KEYC_SHIFT)), (Raw (esc ''[20$''), (KEYC_F9 OR KEYC_SHIFT)), (Raw (esc ''[21$''), (KEYC_F10 OR KEYC_SHIFT)),
     (Raw (esc ''[23$''), (KEYC_F11 OR KEYC_SHIFT)), (Raw (esc ''[24$''), (KEYC_F12 OR KEYC_SHIFT)), (Raw (esc ''[25$''), (KEYC_F13 OR KEYC_SHIFT)), (Raw (esc ''[26$''), (KEYC_F14 OR KEYC_SHIFT)),
     (Raw (esc ''[28$''), (KEYC_F15 OR KEYC_SHIFT)), (Raw (esc ''[29$''), (KEYC_F16 OR KEYC_SHIFT)), (Raw (esc ''[31$''), (KEYC_F17 OR KEYC_SHIFT)), (Raw (esc ''[32$''), (KEYC_F18 OR KEYC_SHIFT)),
     (Raw (esc ''[33$''), (KEYC_F19 OR KEYC_SHIFT)), (Raw (esc ''[34$''), (KEYC_F20 OR KEYC_SHIFT)), (Raw (esc ''[2$''), (KEYC_IC OR KEYC_SHIFT)), (Raw (esc ''[3$''), (KEYC_DC OR KEYC_SHIFT)),
     (Raw (esc ''[7$''), (KEYC_HOME OR KEYC_SHIFT)), (Raw (esc ''[8$''), (KEYC_END OR KEYC_SHIFT)), (Raw (esc ''[6$''), (KEYC_NPAGE OR KEYC_SHIFT)), (Raw (esc ''[5$''), (KEYC_PPAGE OR KEYC_SHIFT)),
     (Raw (esc ''[11@''), (KEYC_F1 OR KEYC_CTRL OR KEYC_SHIFT)), (Raw (esc ''[12@''), (KEYC_F2 OR KEYC_CTRL OR KEYC_SHIFT)), (Raw (esc ''[13@''), (KEYC_F3 OR KEYC_CTRL OR KEYC_SHIFT)), (Raw (esc ''[14@''), (KEYC_F4 OR KEYC_CTRL OR KEYC_SHIFT)),
     (Raw (esc ''[15@''), (KEYC_F5 OR KEYC_CTRL OR KEYC_SHIFT)), (Raw (esc ''[17@''), (KEYC_F6 OR KEYC_CTRL OR KEYC_SHIFT)), (Raw (esc ''[18@''), (KEYC_F7 OR KEYC_CTRL OR KEYC_SHIFT)), (Raw (esc ''[19@''), (KEYC_F8 OR KEYC_CTRL OR KEYC_SHIFT)),
     (Raw (esc ''[20@''), (KEYC_F9 OR KEYC_CTRL OR KEYC_SHIFT)), (Raw (esc ''[21@''), (KEYC_F10 OR KEYC_CTRL OR KEYC_SHIFT)), (Raw (esc ''[23@''), (KEYC_F11 OR KEYC_CTRL OR KEYC_SHIFT)), (Raw (esc ''[24@''), (KEYC_F12 OR KEYC_CTRL OR KEYC_SHIFT)),
     (Raw (esc ''[25@''), (KEYC_F13 OR KEYC_CTRL OR KEYC_SHIFT)), (Raw (esc ''[26@''), (KEYC_F14 OR KEYC_CTRL OR KEYC_SHIFT)), (Raw (esc ''[28@''), (KEYC_F15 OR KEYC_CTRL OR KEYC_SHIFT)), (Raw (esc ''[29@''), (KEYC_F16 OR KEYC_CTRL OR KEYC_SHIFT)),
     (Raw (esc ''[31@''), (KEYC_F17 OR KEYC_CTRL OR KEYC_SHIFT)), (Raw (esc ''[32@''), (KEYC_F18 OR KEYC_CTRL OR KEYC_SHIFT)), (Raw (esc ''[33@''), (KEYC_F19 OR KEYC_CTRL OR KEYC_SHIFT)), (Raw (esc ''[34@''), (KEYC_F20 OR KEYC_CTRL OR KEYC_SHIFT)),
     (Raw (esc ''[2@''), (KEYC_IC OR KEYC_CTRL OR KEYC_SHIFT)), (Raw (esc ''[3@''), (KEYC_DC OR KEYC_CTRL OR KEYC_SHIFT)), (Raw (esc ''[7@''), (KEYC_HOME OR KEYC_CTRL OR KEYC_SHIFT)), (Raw (esc ''[8@''), (KEYC_END OR KEYC_CTRL OR KEYC_SHIFT)),
     (Raw (esc ''[6@''), (KEYC_NPAGE OR KEYC_CTRL OR KEYC_SHIFT)), (Raw (esc ''[5@''), (KEYC_PPAGE OR KEYC_CTRL OR KEYC_SHIFT)), (Terminfo TTYC_KF1, KEYC_F1), (Terminfo TTYC_KF2, KEYC_F2),
     (Terminfo TTYC_KF3, KEYC_F3), (Terminfo TTYC_KF4, KEYC_F4), (Terminfo TTYC_KF5, KEYC_F5), (Terminfo TTYC_KF6, KEYC_F6),
     (Terminfo TTYC_KF7, KEYC_F7), (Terminfo TTYC_KF8, KEYC_F8), (Terminfo TTYC_KF9, KEYC_F9), (Terminfo TTYC_KF10, KEYC_F10),
     (Terminfo TTYC_KF11, KEYC_F11), (Terminfo TTYC_KF12, KEYC_F12), (Terminfo TTYC_KF13, KEYC_F13), (Terminfo TTYC_KF14, KEYC_F14),
     (Terminfo TTYC_KF15, KEYC_F15), (Terminfo TTYC_KF16, KEYC_F16), (Terminfo TTYC_KF17, KEYC_F17), (Terminfo TTYC_KF18, KEYC_F18),
     (Terminfo TTYC_KF19, KEYC_F19), (Terminfo TTYC_KF20, KEYC_F20), (Terminfo TTYC_KICH1, KEYC_IC), (Terminfo TTYC_KDCH1, KEYC_DC),
     (Terminfo TTYC_KHOME, KEYC_HOME), (Terminfo TTYC_KEND, KEYC_END), (Terminfo TTYC_KNP, KEYC_NPAGE), (Terminfo TTYC_KPP, KEYC_PPAGE),
     (Terminfo TTYC_KCBT, KEYC_BTAB), (Terminfo TTYC_KCUU1, KEYC_UP), (Terminfo TTYC_KCUD1, KEYC_DOWN), (Terminfo TTYC_KCUB1, KEYC_LEFT),
     (Terminfo TTYC_KCUF1, KEYC_RIGHT), (Terminfo TTYC_KDC2, (KEYC_DC OR KEYC_SHIFT)), (Terminfo TTYC_KDC3, (KEYC_DC OR KEYC_ESCAPE)), (Terminfo TTYC_KDC4, (KEYC_DC OR KEYC_SHIFT OR KEYC_ESCAPE)),
     (Terminfo TTYC_KDC5, (KEYC_DC OR KEYC_CTRL)), (Terminfo TTYC_KDC6, (KEYC_DC OR KEYC_SHIFT OR KEYC_CTRL)), (Terminfo TTYC_KDC7, (KEYC_DC OR KEYC_ESCAPE OR KEYC_CTRL)), (Terminfo TTYC_KDN2, (KEYC_DOWN OR KEYC_SHIFT)),
     (Terminfo TTYC_KDN3, (KEYC_DOWN OR KEYC_ESCAPE)), (Terminfo TTYC_KDN4, (KEYC_DOWN OR KEYC_SHIFT OR KEYC_ESCAPE)), (Terminfo TTYC_KDN5, (KEYC_DOWN OR KEYC_CTRL)), (Terminfo TTYC_KDN6, (KEYC_DOWN OR KEYC_SHIFT OR KEYC_CTRL)),
     (Terminfo TTYC_KDN7, (KEYC_DOWN OR KEYC_ESCAPE OR KEYC_CTRL)), (Terminfo TTYC_KEND2, (KEYC_END OR KEYC_SHIFT)), (Terminfo TTYC_KEND3, (KEYC_END OR KEYC_ESCAPE)), (Terminfo TTYC_KEND4, (KEYC_END OR KEYC_SHIFT OR KEYC_ESCAPE)),
     (Terminfo TTYC_KEND5, (KEYC_END OR KEYC_CTRL)), (Terminfo TTYC_KEND6, (KEYC_END OR KEYC_SHIFT OR KEYC_CTRL)), (Terminfo TTYC_KEND7, (KEYC_END OR KEYC_ESCAPE OR KEYC_CTRL)), (Terminfo TTYC_KHOM2, (KEYC_HOME OR KEYC_SHIFT)),
     (Terminfo TTYC_KHOM3, (KEYC_HOME OR KEYC_ESCAPE)), (Terminfo TTYC_KHOM4, (KEYC_HOME OR KEYC_SHIFT OR KEYC_ESCAPE)), (Terminfo TTYC_KHOM5, (KEYC_HOME OR KEYC_CTRL)), (Terminfo TTYC_KHOM6, (KEYC_HOME OR KEYC_SHIFT OR KEYC_CTRL)),
     (Terminfo TTYC_KHOM7, (KEYC_HOME OR KEYC_ESCAPE OR KEYC_CTRL)), (Terminfo TTYC_KIC2, (KEYC_IC OR KEYC_SHIFT)), (Terminfo TTYC_KIC3, (KEYC_IC OR KEYC_ESCAPE)), (Terminfo TTYC_KIC4, (KEYC_IC OR KEYC_SHIFT OR KEYC_ESCAPE)),
     (Terminfo TTYC_KIC5, (KEYC_IC OR KEYC_CTRL)), (Terminfo TTYC_KIC6, (KEYC_IC OR KEYC_SHIFT OR KEYC_CTRL)), (Terminfo TTYC_KIC7, (KEYC_IC OR KEYC_ESCAPE OR KEYC_CTRL)), (Terminfo TTYC_KLFT2, (KEYC_LEFT OR KEYC_SHIFT)),
     (Terminfo TTYC_KLFT3, (KEYC_LEFT OR KEYC_ESCAPE)), (Terminfo TTYC_KLFT4, (KEYC_LEFT OR KEYC_SHIFT OR KEYC_ESCAPE)), (Terminfo TTYC_KLFT5, (KEYC_LEFT OR KEYC_CTRL)), (Terminfo TTYC_KLFT6, (KEYC_LEFT OR KEYC_SHIFT OR KEYC_CTRL)),
     (Terminfo TTYC_KLFT7, (KEYC_LEFT OR KEYC_ESCAPE OR KEYC_CTRL)), (Terminfo TTYC_KNXT2, (KEYC_NPAGE OR KEYC_SHIFT)), (Terminfo TTYC_KNXT3, (KEYC_NPAGE OR KEYC_ESCAPE)), (Terminfo TTYC_KNXT4, (KEYC_NPAGE OR KEYC_SHIFT OR KEYC_ESCAPE)),
     (Terminfo TTYC_KNXT5, (KEYC_NPAGE OR KEYC_CTRL)), (Terminfo TTYC_KNXT6, (KEYC_NPAGE OR KEYC_SHIFT OR KEYC_CTRL)), (Terminfo TTYC_KNXT7, (KEYC_NPAGE OR KEYC_ESCAPE OR KEYC_CTRL)), (Terminfo TTYC_KPRV2, (KEYC_PPAGE OR KEYC_SHIFT)),
     (Terminfo TTYC_KPRV3, (KEYC_PPAGE OR KEYC_ESCAPE)), (Terminfo TTYC_KPRV4, (KEYC_PPAGE OR KEYC_SHIFT OR KEYC_ESCAPE)), (Terminfo TTYC_KPRV5, (KEYC_PPAGE OR KEYC_CTRL)), (Terminfo TTYC_KPRV6, (KEYC_PPAGE OR KEYC_SHIFT OR KEYC_CTRL)),
     (Terminfo TTYC_KPRV7, (KEYC_PPAGE OR KEYC_ESCAPE OR KEYC_CTRL)), (Terminfo TTYC_KRIT2, (KEYC_RIGHT OR KEYC_SHIFT)), (Terminfo TTYC_KRIT3, (KEYC_RIGHT OR KEYC_ESCAPE)), (Terminfo TTYC_KRIT4, (KEYC_RIGHT OR KEYC_SHIFT OR KEYC_ESCAPE)),
     (Terminfo TTYC_KRIT5, (KEYC_RIGHT OR KEYC_CTRL)), (Terminfo TTYC_KRIT6, (KEYC_RIGHT OR KEYC_SHIFT OR KEYC_CTRL)), (Terminfo TTYC_KRIT7, (KEYC_RIGHT OR KEYC_ESCAPE OR KEYC_CTRL)), (Terminfo TTYC_KUP2, (KEYC_UP OR KEYC_SHIFT)),
     (Terminfo TTYC_KUP3, (KEYC_UP OR KEYC_ESCAPE)), (Terminfo TTYC_KUP4, (KEYC_UP OR KEYC_SHIFT OR KEYC_ESCAPE)), (Terminfo TTYC_KUP5, (KEYC_UP OR KEYC_CTRL)), (Terminfo TTYC_KUP6, (KEYC_UP OR KEYC_SHIFT OR KEYC_CTRL)),
     (Terminfo TTYC_KUP7, (KEYC_UP OR KEYC_ESCAPE OR KEYC_CTRL))]"

section \<open>The tree of keys\<close>

datatype tty_key = No_Node | Key_Node (tk_ch: char) (tk_key: int) (tk_left: tty_key) (tk_right: tty_key) (tk_next: tty_key)

text \<open>Adding a string, which is not empty; a new node has its first character and no key yet.\<close>

fun tty_keys_add1 :: "tty_key \<Rightarrow> string \<Rightarrow> int \<Rightarrow> tty_key" where
  "tty_keys_add1 tk [] key = tk"
| "tty_keys_add1 No_Node (c # s) key =
     (if s = [] then Key_Node c key No_Node No_Node No_Node
      else Key_Node c KEYC_NONE No_Node No_Node (tty_keys_add1 No_Node s key))"
| "tty_keys_add1 (Key_Node ch k lt rt nx) (c # s) key =
     (if c = ch then
        if s = [] then Key_Node ch key lt rt nx
        else Key_Node ch k lt rt (tty_keys_add1 nx s key)
      else if schar c < schar ch then Key_Node ch k (tty_keys_add1 lt (c # s) key) rt nx
      else Key_Node ch k lt (tty_keys_add1 rt (c # s) key) nx)"

text \<open>The node where a search ends and how much of the buffer it has read; len is a size_t.\<close>

fun tty_keys_find1 :: "tty_key \<Rightarrow> string \<Rightarrow> nat \<Rightarrow> nat \<Rightarrow> (tty_key \<times> nat) option option" where
  "tty_keys_find1 No_Node buf len sz = Some None"
| "tty_keys_find1 (Key_Node ch k lt rt nx) [] len sz = None"
| "tty_keys_find1 (Key_Node ch k lt rt nx) (b # buf) len sz =
     (if ch = b then
        let len = (if len = 0 then 18446744073709551615 else len - 1); sz = sz + 1 in
        if len = 0 \<or> nx = No_Node \<and> k \<noteq> KEYC_NONE then Some (Some (Key_Node ch k lt rt nx, sz))
        else tty_keys_find1 nx buf len sz
      else if schar b < schar ch then tty_keys_find1 lt (b # buf) len sz
      else tty_keys_find1 rt (b # buf) len sz)"

definition tty_keys_find :: "tty_key \<Rightarrow> string \<Rightarrow> nat \<Rightarrow> (tty_key \<times> nat) option option" where
  "tty_keys_find tk buf len = tty_keys_find1 tk buf len 0"

text \<open>The tree after the key of the node that the search finds has been set.\<close>

fun set_found :: "tty_key \<Rightarrow> string \<Rightarrow> nat \<Rightarrow> int \<Rightarrow> tty_key" where
  "set_found No_Node buf len key = No_Node"
| "set_found (Key_Node ch k lt rt nx) [] len key = Key_Node ch k lt rt nx"
| "set_found (Key_Node ch k lt rt nx) (b # buf) len key =
     (if ch = b then
        if len - 1 = 0 \<or> nx = No_Node \<and> k \<noteq> KEYC_NONE then Key_Node ch key lt rt nx
        else Key_Node ch k lt rt (set_found nx buf (len - 1) key)
      else if schar b < schar ch then Key_Node ch k (set_found lt (b # buf) len key) rt nx
      else Key_Node ch k lt (set_found rt (b # buf) len key) nx)"

definition tty_keys_add :: "tty_key \<Rightarrow> string \<Rightarrow> int \<Rightarrow> tty_key" where
  "tty_keys_add tk s key =
     (case tty_keys_find tk s (length s) of
        Some (Some _) \<Rightarrow> set_found tk s (length s) key
      | _ \<Rightarrow> tty_keys_add1 tk s key)"

definition tty_keys_init :: "(nat \<Rightarrow> string option) \<Rightarrow> tty_key" where
  "tty_keys_init terminfo =
     foldl (\<lambda>tk (source, key).
       case (case source of Raw s \<Rightarrow> Some s | Terminfo code \<Rightarrow> terminfo code) of
         Some (c # d # s) \<Rightarrow> if c = CHR 0x1b then tty_keys_add tk (d # s) key else tk
       | _ \<Rightarrow> tk) No_Node tty_keys"

section \<open>The mouse\<close>

datatype mouse_key = Mouse nat mouse_event | No_Mouse | Partial_Mouse

definition uchar :: "char \<Rightarrow> byte" where "uchar c = word_of_nat (char_code c)"

text \<open>One of the three values at a position, with the position behind it.\<close>

definition mouse_value :: "bool \<Rightarrow> string \<Rightarrow> nat \<Rightarrow> nat \<Rightarrow> (mouse_key + nat \<times> nat) option" where
  "mouse_value utf8 buf len pos = do {
     c \<leftarrow> lget pos buf;
     if \<not> utf8 then Some (Inr (char_code c, pos + 1))
     else do {
       (d, more) \<leftarrow> utf8_open (uchar c);
       if \<not> more then Some (Inr (char_code c, pos + 1))
       else if u8_size d \<noteq> 2 then Some (Inl No_Mouse)
       else if len < pos + 1 then Some (Inl Partial_Mouse)
       else do {
         b \<leftarrow> lget (pos + 1) buf;
         (d, _) \<leftarrow> utf8_append d (uchar b);
         Some (Inr (unat (utf8_combine d), pos + 2))
       }
     }
   }"

fun mouse_values :: "nat \<Rightarrow> bool \<Rightarrow> string \<Rightarrow> nat \<Rightarrow> nat \<Rightarrow> (mouse_key + nat list \<times> nat) option" where
  "mouse_values 0 utf8 buf len pos = Some (Inr ([], pos))"
| "mouse_values (Suc i) utf8 buf len pos =
     (if len < pos then Some (Inl Partial_Mouse)
      else case mouse_value utf8 buf len pos of
        None \<Rightarrow> None
      | Some (Inl r) \<Rightarrow> Some (Inl r)
      | Some (Inr (v, pos)) \<Rightarrow>
         map_option (\<lambda>r. case r of Inl r \<Rightarrow> Inl r | Inr (vs, pos) \<Rightarrow> Inr (v # vs, pos)) (mouse_values i utf8 buf len pos))"

definition tty_keys_mouse :: "32 word \<Rightarrow> string \<Rightarrow> nat \<Rightarrow> mouse_key option" where
  "tty_keys_mouse mode buf len = do {
     b0 \<leftarrow> lget 0 buf;
     if b0 \<noteq> CHR 0x1b then Some No_Mouse
     else if len = 1 then Some Partial_Mouse
     else do {
       b1 \<leftarrow> lget 1 buf;
       if b1 \<noteq> CHR ''['' then Some No_Mouse
       else if len = 2 then Some Partial_Mouse
       else do {
         b2 \<leftarrow> lget 2 buf;
         if b2 \<noteq> CHR ''M'' then Some No_Mouse
         else if len = 3 then Some Partial_Mouse
         else do {
           r \<leftarrow> mouse_values 3 (flag_set mode MODE_MOUSE_UTF8) buf len 3;
           Some (case r of
               Inr ([b, x, y], sz) \<Rightarrow> if b < 32 \<or> x < 33 \<or> y < 33 then No_Mouse else Mouse sz \<lparr>m_b = b - 32, m_x = x - 33, m_y = y - 33\<rparr>
             | Inr _ \<Rightarrow> No_Mouse
             | Inl r \<Rightarrow> r)
         }
       }
     }
   }"

section \<open>Reading keys\<close>

record tty_input =
  ti_tree :: tty_key
  ti_mode :: "32 word"
  ti_buf :: string
  ti_behind :: string
  ti_escape :: bool
  ti_bspace :: "char option"

text \<open>What a step does: nothing to read, waiting with the timer, or a key for the client.\<close>

datatype key_step = Nothing | Waiting | Key int "mouse_event option"

definition drain :: "nat \<Rightarrow> tty_input \<Rightarrow> tty_input" where
  "drain n ti = ti\<lparr>ti_buf := drop n (ti_buf ti)\<rparr>"

definition handle_key :: "int \<Rightarrow> mouse_event option \<Rightarrow> tty_input \<Rightarrow> key_step \<times> tty_input" where
  "handle_key key m ti = (Key key m, ti\<lparr>ti_escape := False\<rparr>)"

definition start_timer :: "tty_input \<Rightarrow> key_step \<times> tty_input" where
  "start_timer ti = (Waiting, ti\<lparr>ti_escape := True\<rparr>)"

definition partial_key :: "tty_input \<Rightarrow> key_step \<times> tty_input" where
  "partial_key ti = (if ti_escape ti then handle_key 27 None (drain 1 ti) else start_timer ti)"

definition found_key :: "tty_key \<Rightarrow> int \<Rightarrow> nat \<Rightarrow> tty_input \<Rightarrow> key_step \<times> tty_input" where
  "found_key tk key sz ti =
     (if tk_next tk \<noteq> No_Node \<and> \<not> ti_escape ti then start_timer ti
      else if tk_next tk \<noteq> No_Node \<and> tk_key tk = KEYC_NONE then partial_key ti
      else handle_key key None (drain (sz + 1) ti))"

text \<open>After the escape: a normal key, or a sequence of its own with another escape before it.\<close>

definition escaped_key :: "tty_input \<Rightarrow> (key_step \<times> tty_input) option" where
  "escaped_key ti =
     (case tl (ti_buf ti) of
        [] \<Rightarrow> Some (partial_key ti)
      | c # rest \<Rightarrow>
         if c \<noteq> CHR 0x1b then Some (handle_key (schar c OR KEYC_ESCAPE) None (drain 2 ti))
         else if rest = [] then Some (partial_key ti)
         else map_option (\<lambda>f. case f of
             Some (tk, sz) \<Rightarrow> found_key tk (tk_key tk OR KEYC_ESCAPE) (sz + 1) ti
           | None \<Rightarrow> partial_key ti) (tty_keys_find (ti_tree ti) (rest @ ti_behind ti) (length rest)))"

definition tty_keys_next :: "tty_input \<Rightarrow> (key_step \<times> tty_input) option" where
  "tty_keys_next ti =
     (let mem = ti_buf ti @ ti_behind ti; len = length (ti_buf ti) in
      case ti_buf ti of
        [] \<Rightarrow> Some (Nothing, ti)
      | c # rest \<Rightarrow>
         if c \<noteq> CHR 0x1b then
           Some (handle_key (if ti_bspace ti = Some c then KEYC_BSPACE else int (char_code c)) None (drain 1 ti))
         else do {
           m \<leftarrow> tty_keys_mouse (ti_mode ti) mem len;
           (case m of
              Mouse sz ev \<Rightarrow> Some (handle_key KEYC_MOUSE (Some ev) (drain sz ti))
            | Partial_Mouse \<Rightarrow> Some (partial_key ti)
            | No_Mouse \<Rightarrow> do {
                x \<leftarrow> xterm_keys_find mem len;
                (case x of
                   Found sz key \<Rightarrow> Some (handle_key key None (drain sz ti))
                 | Partial \<Rightarrow> Some (partial_key ti)
                 | Not_Found \<Rightarrow> do {
                     f \<leftarrow> tty_keys_find (ti_tree ti) (tl mem) (len - 1);
                     (case f of
                        Some (tk, sz) \<Rightarrow> Some (found_key tk (tk_key tk) sz ti)
                      | None \<Rightarrow> escaped_key ti)
                   })
              })
         })"

text \<open>The keys that are read when the timer has expired, with the loop of the callback.\<close>

partial_function (option) keys_loop :: "tty_input \<Rightarrow> (int \<times> mouse_event option) list \<Rightarrow> ((int \<times> mouse_event option) list \<times> tty_input) option" where
  "keys_loop ti keys = do {
     (step, ti) \<leftarrow> tty_keys_next ti;
     (case step of
        Key key m \<Rightarrow> keys_loop ti (keys @ [(key, m)])
      | _ \<Rightarrow> Some (keys, ti))
   }"

definition tty_keys_callback :: "tty_input \<Rightarrow> ((int \<times> mouse_event option) list \<times> tty_input) option" where
  "tty_keys_callback ti = (if \<not> ti_escape ti then Some ([], ti) else keys_loop ti [])"

end
