(* ===== verification/Tty_Keys_Props.thy ===== *)
theory Tty_Keys_Props
  imports Tty_Keys Key_Props
begin

text \<open>
  The properties of tty-keys.c: the tree of keys is a map, reading makes progress, and what
  input-keys.c writes for a key or the mouse is read as the same key, as it is when tmux runs in
  tmux.
\<close>

section \<open>Searching\<close>

lemma find1_runs:
  "0 < len \<Longrightarrow> len \<le> length buf \<Longrightarrow> \<exists>r. tty_keys_find1 tk buf len sz = Some r \<and> (\<forall>n k. r = Some (n, k) \<longrightarrow> sz < k \<and> k \<le> sz + len \<and> n \<noteq> No_Node)"
proof (induction tk buf len sz rule: tty_keys_find1.induct)
  case (3 ch k lt rt nx b buf len sz)
  consider "ch = b" "len = 1 \<or> nx = No_Node \<and> k \<noteq> KEYC_NONE" | "ch = b" "len \<noteq> 1" "\<not> (nx = No_Node \<and> k \<noteq> KEYC_NONE)"
    | "ch \<noteq> b" "schar b < schar ch" | "ch \<noteq> b" "\<not> schar b < schar ch" by blast
  then show ?case
  proof cases
    case 1
    then show ?thesis using "3.prems" by (auto simp: Let_def)
  next
    case 2
    have len: "(if len = 0 then 18446744073709551615 else len - 1) = len - 1" "0 < len - 1" "len - 1 \<le> length buf"
      using "3.prems" 2(2) by simp_all
    obtain r where r: "tty_keys_find1 nx buf (len - 1) (sz + 1) = Some r" "\<forall>n k. r = Some (n, k) \<longrightarrow> sz + 1 < k \<and> k \<le> sz + 1 + (len - 1) \<and> n \<noteq> No_Node"
      using "3.IH"(1) [OF 2(1) refl refl] 2(3) len by (auto simp: len(1))
    then show ?thesis using 2 "3.prems" len by (intro exI [of _ r]) auto
  next
    case 3
    then show ?thesis using "3.IH"(2) "3.prems" by simp
  next
    case 4
    then show ?thesis using "3.IH"(3) "3.prems" by simp
  qed
qed auto

lemma find_runs:
  assumes "0 < len" "len \<le> length buf"
  shows "\<exists>r. tty_keys_find tk buf len = Some r \<and> (\<forall>n k. r = Some (n, k) \<longrightarrow> 0 < k \<and> k \<le> len \<and> n \<noteq> No_Node)"
  using find1_runs [OF assms, of tk 0] by (simp add: tty_keys_find_def)

lemma utf8_open_cases:
  "\<exists>d more. utf8_open ch = Some (d, more) \<and> (more \<longrightarrow> u8_have d = 1 \<and> length (u8_data d) = UTF8_SIZE \<and> 2 \<le> u8_size d \<and> u8_size d \<le> 4)"
  by (auto simp: utf8_open_def Let_def utf8_append_def utf8_zero_def lput_def)

lemma mouse_value_runs:
  assumes "pos \<le> len" "len < length buf"
  shows "\<exists>r. mouse_value utf8 buf len pos = Some r"
proof -
  have c: "lget pos buf = Some (buf ! pos)" using assms by simp
  obtain d more where o: "utf8_open (uchar (buf ! pos)) = Some (d, more)"
      "more \<longrightarrow> u8_have d = 1 \<and> length (u8_data d) = UTF8_SIZE \<and> 2 \<le> u8_size d \<and> u8_size d \<le> 4"
    using utf8_open_cases by blast
  show ?thesis
  proof (cases "utf8 \<and> more \<and> u8_size d = 2 \<and> \<not> len < pos + 1")
    case True
    then have p: "lget (pos + 1) buf = Some (buf ! (pos + 1))" using assms(2) by simp
    have "utf8_append d (uchar (buf ! (pos + 1))) \<noteq> None" using o(2) True by (simp add: utf8_append_def Let_def)
    then show ?thesis using c o(1) p True by (auto simp: mouse_value_def)
  next
    case False
    then show ?thesis using c o(1) by (auto simp: mouse_value_def)
  qed
qed

lemma mouse_values_run: "len < length buf \<Longrightarrow> \<exists>r. mouse_values i utf8 buf len pos = Some r"
proof (induction i arbitrary: pos)
  case (Suc i)
  show ?case
  proof (cases "len < pos")
    case False
    then obtain r where r: "mouse_value utf8 buf len pos = Some r" using mouse_value_runs [of pos len buf utf8] Suc.prems by auto
    show ?thesis
    proof (cases r)
      case (Inr v)
      then show ?thesis using r False Suc by (cases v) auto
    qed (use r False in simp)
  qed simp
qed simp

lemma mouse_values_no_mouse: "mouse_values i utf8 buf len pos = Some (Inl r) \<Longrightarrow> r \<noteq> Mouse sz ev"
proof (induction i arbitrary: pos)
  case (Suc i)
  then show ?case by (auto simp: mouse_value_def bind_eq_Some_conv split: if_splits option.splits sum.splits)
qed simp

lemma mouse_value_pos: "mouse_value utf8 buf len pos = Some (Inr (v, p)) \<Longrightarrow> pos < p"
  by (auto simp: mouse_value_def bind_eq_Some_conv split: if_splits)

lemma mouse_values_size: "mouse_values i utf8 buf len pos = Some (Inr (vs, sz)) \<Longrightarrow> pos \<le> sz"
proof (induction i arbitrary: pos vs)
  case (Suc i)
  obtain r where r: "mouse_value utf8 buf len pos = Some r" "\<not> len < pos" using Suc.prems by (auto split: if_splits option.splits)
  obtain v p where v: "r = Inr (v, p)" using Suc.prems r by (cases r) auto
  obtain q where q: "mouse_values i utf8 buf len p = Some q" using Suc.prems r v by auto
  then obtain us where "q = Inr (us, sz)" using Suc.prems r v by (cases q) auto
  with q have "mouse_values i utf8 buf len p = Some (Inr (us, sz))" by simp
  from Suc.IH [OF this] mouse_value_pos [of utf8 buf len pos v p] show ?case using r(1) v by simp
qed simp

lemma mouse_runs:
  assumes "buf = CHR 0x1b # b" "behind \<noteq> []"
  shows "\<exists>r. tty_keys_mouse mode (buf @ behind) (length buf) = Some r \<and> (\<forall>sz ev. r = Mouse sz ev \<longrightarrow> 0 < sz) \<and> (r = No_Mouse \<longrightarrow> b \<noteq> [])"
proof (cases "length b < 3")
  case True
  then show ?thesis using assms by (cases b; cases "tl b"; cases "tl (tl b)") (auto simp: tty_keys_mouse_def lget_def)
next
  case False
  then obtain b1 b2 b3 bs where b: "b = b1 # b2 # b3 # bs" by (cases b; cases "tl b"; cases "tl (tl b)") auto
  have "length buf < length (buf @ behind)" using assms(2) by simp
  then obtain r where r: "mouse_values 3 (flag_set mode MODE_MOUSE_UTF8) (buf @ behind) (length buf) 3 = Some r" using mouse_values_run by blast
  then have e: "tty_keys_mouse mode (buf @ behind) (length buf) = (if b1 \<noteq> CHR ''['' \<or> b2 \<noteq> CHR ''M'' then Some No_Mouse
      else Some (case r of
               Inr ([b, x, y], sz) \<Rightarrow> if b < 32 \<or> x < 33 \<or> y < 33 then No_Mouse else Mouse sz \<lparr>m_b = b - 32, m_x = x - 33, m_y = y - 33\<rparr>
             | Inr _ \<Rightarrow> No_Mouse
             | Inl r \<Rightarrow> r))"
    using assms(1) b by (cases "b1 = CHR ''[''"; cases "b2 = CHR ''M''"; simp add: tty_keys_mouse_def lget_def)
  show ?thesis
  proof (cases r)
    case (Inl m)
    then have "\<forall>sz ev. m \<noteq> Mouse sz ev" using mouse_values_no_mouse r by blast
    then show ?thesis using e b Inl by auto
  next
    case (Inr p)
    then obtain vs sz where v: "r = Inr (vs, sz)" by (cases p) simp
    have "3 \<le> sz" using mouse_values_size r v by simp
    then show ?thesis using e b v by (cases vs; cases "tl vs"; cases "tl (tl vs)"; cases "tl (tl (tl vs))") auto
  qed
qed

section \<open>The tree as a map\<close>

text \<open>The key at the end of a string in the tree, if the string is stored.\<close>

fun key_at :: "tty_key \<Rightarrow> string \<Rightarrow> int option" where
  "key_at No_Node s = None"
| "key_at (Key_Node ch k lt rt nx) [] = None"
| "key_at (Key_Node ch k lt rt nx) (c # s) =
     (if c = ch then if s = [] then if k = KEYC_NONE then None else Some k else key_at nx s
      else if schar c < schar ch then key_at lt (c # s) else key_at rt (c # s))"

lemma key_at_Nil [simp]: "key_at tk [] = None"
  by (cases tk) simp_all

lemma key_at_add1: "s \<noteq> [] \<Longrightarrow> key \<noteq> KEYC_NONE \<Longrightarrow> key_at (tty_keys_add1 tk s key) = (key_at tk)(s \<mapsto> key)"
proof (induction tk s key rule: tty_keys_add1.induct)
  case (2 c s key)
  then show ?case by (intro ext, rename_tac t, case_tac t) auto
next
  case (3 ch k lt rt nx c s key)
  then show ?case by (intro ext, rename_tac t, case_tac t) auto
qed simp

lemma find1_reads:
  "tty_keys_find1 tk s (length s) sz = Some (Some (n, k)) \<Longrightarrow> s \<noteq> [] \<Longrightarrow>
   sz < k \<and> k \<le> sz + length s \<and> (k < sz + length s \<longrightarrow> key_at tk (take (k - sz) s) \<noteq> None) \<and>
   (\<forall>key. key \<noteq> KEYC_NONE \<longrightarrow> key_at (set_found tk s (length s) key) = (key_at tk)(take (k - sz) s \<mapsto> key))"
proof (induction tk s "length s" sz rule: tty_keys_find1.induct)
  case (3 ch c lt rt nx b buf sz)
  consider "ch = b" "buf = [] \<or> nx = No_Node \<and> c \<noteq> KEYC_NONE" | "ch = b" "buf \<noteq> []" "\<not> (nx = No_Node \<and> c \<noteq> KEYC_NONE)"
    | "ch \<noteq> b" "schar b < schar ch" | "ch \<noteq> b" "\<not> schar b < schar ch" by blast
  then show ?case
  proof cases
    case 1
    then have "n = Key_Node ch c lt rt nx" "k = sz + 1" using "3.prems" by (auto simp: Let_def split: if_splits)
    then show ?thesis using 1 by (auto simp: fun_eq_iff neq_Nil_conv) (case_tac x; simp)+
  next
    case 2
    then have f: "tty_keys_find1 nx buf (length buf) (sz + 1) = Some (Some (n, k))" using "3.prems" by (auto simp: Let_def)
    have ih: "sz + 1 < k \<and> k \<le> sz + 1 + length buf \<and> (k < sz + 1 + length buf \<longrightarrow> key_at nx (take (k - (sz + 1)) buf) \<noteq> None) \<and>
        (\<forall>key. key \<noteq> KEYC_NONE \<longrightarrow> key_at (set_found nx buf (length buf) key) = (key_at nx)(take (k - (sz + 1)) buf \<mapsto> key))"
      using 2 f by (intro "3.hyps"(1)) auto
    have k: "take (k - sz) (b # buf) = b # take (k - (sz + 1)) buf" if "sz + 1 < k" using that by (simp add: take_Cons')
    show ?thesis using ih 2 k
      by (auto simp: fun_eq_iff) (case_tac x; auto)+
  next
    case 3
    then show ?thesis using "3.hyps"(2) "3.prems" by (auto simp: fun_eq_iff take_Cons') (case_tac x; auto)+
  next
    case 4
    then show ?thesis using "3.hyps"(3) "3.prems" by (auto simp: fun_eq_iff take_Cons') (case_tac x; auto)+
  qed
qed auto

text \<open>
  C15: the ternary tree is a map from sequences to keys. Adding a sequence changes the key of
  that sequence and of no other, unless a shorter sequence that is a prefix of it is stored and ends at a leaf:
  then the search stops there and the key of the shorter one is replaced instead.
\<close>

theorem tty_keys_add_map:
  assumes "s \<noteq> []" "key \<noteq> KEYC_NONE"
  shows "\<exists>n. 0 < n \<and> n \<le> length s \<and> key_at (tty_keys_add tk s key) = (key_at tk)(take n s \<mapsto> key) \<and>
    (n < length s \<longrightarrow> key_at tk (take n s) \<noteq> None)"
proof -
  obtain r where r: "tty_keys_find1 tk s (length s) 0 = Some r" using find1_runs [of "length s" s tk 0] assms(1) by auto
  show ?thesis
  proof (cases r)
    case None
    then show ?thesis using r key_at_add1 [OF assms, of tk] assms(1)
      by (intro exI [of _ "length s"]) (simp add: tty_keys_add_def tty_keys_find_def)
  next
    case (Some x)
    then obtain n k where x: "r = Some (n, k)" by (cases x) simp
    show ?thesis using find1_reads [OF r [unfolded x] assms(1)] r x assms(2)
      by (intro exI [of _ k]) (simp add: tty_keys_add_def tty_keys_find_def)
  qed
qed

theorem tty_keys_add_map_witness:
  "\<exists>n. 0 < n \<and> n \<le> 3 \<and> key_at (tty_keys_add (tty_keys_add No_Node ''OA'' KEYC_UP) ''OAx'' KEYC_F1) =
    (key_at (tty_keys_add No_Node ''OA'' KEYC_UP))(take n ''OAx'' \<mapsto> KEYC_F1)"
  using tty_keys_add_map [of "''OAx''" KEYC_F1 "tty_keys_add No_Node ''OA'' KEYC_UP"] by (auto simp: KEYC_F1_def KEYC_NONE_def)

section \<open>Progress\<close>

text \<open>What a step may do: read a key, and something of the buffer, or wait if it has not waited yet.\<close>

fun moves_on :: "tty_input \<Rightarrow> key_step \<times> tty_input \<Rightarrow> bool" where
  "moves_on ti (Key key m, ti') \<longleftrightarrow> length (ti_buf ti') < length (ti_buf ti) \<and> ti_behind ti' = ti_behind ti"
| "moves_on ti (Waiting, ti') \<longleftrightarrow> \<not> ti_escape ti \<and> ti' = ti\<lparr>ti_escape := True\<rparr>"
| "moves_on ti (Nothing, ti') \<longleftrightarrow> ti_buf ti = [] \<and> ti' = ti"

lemma step_moves:
  assumes "ti_buf ti \<noteq> []"
  shows "0 < n \<Longrightarrow> moves_on ti (handle_key key m (drain n ti))" "moves_on ti (partial_key ti)" "moves_on ti (found_key tk key sz ti)"
  using assms by (auto simp: handle_key_def drain_def partial_key_def start_timer_def found_key_def)

lemma find_found: "0 < len \<Longrightarrow> len \<le> length buf \<Longrightarrow> \<exists>r. tty_keys_find tk buf len = Some r"
  using find_runs by blast

lemma escaped_key_runs: "ti_buf ti \<noteq> [] \<Longrightarrow> \<exists>r. escaped_key ti = Some r \<and> moves_on ti r"
proof (cases "tl (ti_buf ti)")
  case (Cons c rest)
  assume n: "ti_buf ti \<noteq> []"
  show ?thesis
  proof (cases "c \<noteq> CHR 0x1b \<or> rest = []")
    case True
    then show ?thesis using Cons step_moves [OF n] by (auto simp: escaped_key_def simp del: split_paired_Ex)
  next
    case False
    then obtain r where "tty_keys_find (ti_tree ti) (rest @ ti_behind ti) (length rest) = Some r"
      using find_found [of "length rest" "rest @ ti_behind ti"] by auto
    then show ?thesis using Cons False step_moves [OF n] by (auto simp: escaped_key_def simp del: split_paired_Ex split: option.splits)
  qed
qed (simp add: escaped_key_def step_moves del: split_paired_Ex)

lemma match_runs: "len < length buf \<Longrightarrow> pos \<le> len \<Longrightarrow> \<exists>r. keys_match_loop ts buf len pos = Some r"
proof (induction ts arbitrary: pos)
  case (Cons t ts)
  have g: "\<exists>r. (if pos = len then Some 1 else if ts = [] then Some 0 else keys_match_loop ts buf len (pos + 1)) = Some r"
    using Cons.IH [of "pos + 1"] Cons.prems by auto
  have "lget pos buf = Some (buf ! pos)" using Cons.prems by simp
  then show ?case using g by (auto simp: Let_def)
qed simp

lemma keys_find_runs: "len < length buf \<Longrightarrow> 0 < len \<Longrightarrow> \<forall>e\<in>set es. snd e \<noteq> [] \<Longrightarrow>
  \<exists>r. keys_find_loop es buf len = Some r \<and> (\<forall>sz key. r = Found sz key \<longrightarrow> 0 < sz)"
proof (induction es)
  case (Cons e es)
  obtain k t where e: "e = (k, t)" by (cases e)
  obtain r where r: "xterm_keys_match t buf len = Some r" using match_runs [of len buf 0 t] Cons.prems by (auto simp: xterm_keys_match_def)
  have m: "\<exists>m. xterm_keys_modifiers t buf len = Some m" using Cons.prems(1) by (auto simp: xterm_keys_modifiers_def Let_def)
  show ?case using Cons e r m by auto
qed simp

lemma tty_keys_next_moves:
  assumes "ti_behind ti \<noteq> []"
  shows "\<exists>r. tty_keys_next ti = Some r \<and> moves_on ti r"
proof (cases "ti_buf ti")
  case (Cons c b)
  let ?mem = "ti_buf ti @ ti_behind ti" and ?len = "length (ti_buf ti)"
  have n: "ti_buf ti \<noteq> []" using Cons by simp
  show ?thesis
  proof (cases "c = CHR 0x1b")
    case True
    obtain m where m: "tty_keys_mouse (ti_mode ti) ?mem ?len = Some m" "\<forall>sz ev. m = Mouse sz ev \<longrightarrow> 0 < sz" "m = No_Mouse \<longrightarrow> b \<noteq> []"
      using mouse_runs [of "ti_buf ti" b "ti_behind ti" "ti_mode ti"] Cons True assms by auto
    have len: "?len < length ?mem" "0 < ?len" using assms n by auto
    have "\<forall>e\<in>set xterm_keys_table. snd e \<noteq> []" by (simp add: xterm_keys_table_def)
    then obtain x where x: "xterm_keys_find ?mem ?len = Some x" "\<forall>sz key. x = Found sz key \<longrightarrow> 0 < sz"
      using keys_find_runs [OF len, of xterm_keys_table] by (auto simp: xterm_keys_find_def)
    show ?thesis
    proof (cases m)
      case No_Mouse
      then obtain f where f: "tty_keys_find (ti_tree ti) (tl ?mem) (?len - 1) = Some f"
        using m(3) Cons find_found [of "length b" "b @ ti_behind ti" "ti_tree ti"] by auto
      obtain r where "escaped_key ti = Some r" "moves_on ti r" using escaped_key_runs [OF n] by blast
      then show ?thesis using Cons True m(1) x f No_Mouse step_moves [OF n] by (auto simp: tty_keys_next_def simp del: split_paired_Ex split: xterm_found.splits option.splits)
    qed (use Cons True m(1,2) step_moves [OF n] in \<open>auto simp: tty_keys_next_def simp del: split_paired_Ex\<close>)
  qed (use Cons step_moves(1) [OF n] in \<open>simp add: tty_keys_next_def del: split_paired_Ex\<close>)
qed (simp add: tty_keys_next_def del: split_paired_Ex)

lemma keys_loop_runs:
  "ti_behind ti \<noteq> [] \<Longrightarrow> \<exists>ks ti'. keys_loop ti keys = Some (keys @ ks, ti') \<and> (ti_buf ti' = [] \<or> ti_escape ti') \<and>
    length ks \<le> length (ti_buf ti) \<and> (ti_escape ti \<and> ti_buf ti \<noteq> [] \<longrightarrow> ks \<noteq> [])"
proof (induction "length (ti_buf ti)" arbitrary: ti keys rule: less_induct)
  case less
  obtain step ti1 where r: "tty_keys_next ti = Some (step, ti1)" "moves_on ti (step, ti1)"
    using tty_keys_next_moves [OF less.prems] by (metis surj_pair)
  show ?case
  proof (cases step)
    case (Key key m)
    then obtain ks ti' where "keys_loop ti1 (keys @ [(key, m)]) = Some ((keys @ [(key, m)]) @ ks, ti')"
        "ti_buf ti' = [] \<or> ti_escape ti'" "length ks \<le> length (ti_buf ti1)"
      using less.hyps [of ti1 "keys @ [(key, m)]"] less.prems r(2) by auto
    then show ?thesis using Key r by (intro exI [of _ "(key, m) # ks"] exI [of _ ti']) (auto simp: keys_loop.simps [of ti])
  qed (use r in \<open>auto simp: keys_loop.simps [of ti]\<close>)
qed

text \<open>
  C11: reading keys always goes on. With a byte of memory behind the buffer no function reads
  outside it, whatever the terminal sends; when the timer has expired the callback returns, having read at least
  one key and at most as many as there are bytes, and either the buffer is empty or the timer
  runs again.
\<close>

theorem tty_keys_callback_returns:
  assumes "ti_behind ti \<noteq> []" "ti_escape ti" "ti_buf ti \<noteq> []"
  shows "\<exists>keys ti'. tty_keys_callback ti = Some (keys, ti') \<and> keys \<noteq> [] \<and> length keys \<le> length (ti_buf ti) \<and>
    (ti_buf ti' = [] \<or> ti_escape ti')"
  using keys_loop_runs [OF assms(1), of "[]"] assms(2,3) by (auto simp: tty_keys_callback_def)

definition sample_input :: tty_input where
  "sample_input = \<lparr>ti_tree = No_Node, ti_mode = 0, ti_buf = esc ''x'' @ esc ''[M!'', ti_behind = ''!'', ti_escape = True, ti_bspace = None\<rparr>"

theorem tty_keys_callback_returns_witness:
  "\<exists>keys ti'. tty_keys_callback sample_input = Some (keys, ti') \<and> keys \<noteq> [] \<and> length keys \<le> 6"
  using tty_keys_callback_returns [of sample_input] by (auto simp: sample_input_def simp del: split_paired_Ex)

section \<open>In another tmux\<close>

lemma lookup_sequence:
  assumes "xterm_keys_lookup key = Some s"
  shows "\<exists>d t. s = CHR 0x1b # d # t \<and> (d = CHR ''['' \<longrightarrow> (case t of c # _ \<Rightarrow> c \<noteq> CHR ''M'' | [] \<Rightarrow> False))"
proof -
  let ?m = "1 + (if key AND KEYC_SHIFT \<noteq> 0 then 1 else 0) + (if key AND KEYC_ESCAPE \<noteq> 0 then 2 else 0) + (if key AND KEYC_CTRL \<noteq> 0 then 4 else 0) :: nat"
  obtain k t where t: "(k, t) \<in> set xterm_keys_table" "s = t[strcspn t ''_'' := char_of (48 + ?m)]"
    using assms by (auto simp: xterm_keys_lookup_def Let_def find_Some_iff split: if_splits) (metis nth_mem)+
  show ?thesis using t by (auto simp: xterm_keys_table_def strcspn_def)
qed

lemma key_not_plain: "xterm_keys_lookup key = Some s \<Longrightarrow> 0x1000 \<le> key AND NOT KEYC_ESCAPE"
proof -
  assume l: "xterm_keys_lookup key = Some s"
  have "find (\<lambda>(k, template). key AND NOT 0xe000 = k) xterm_keys_table \<noteq> None"
    using l by (auto simp: xterm_keys_lookup_def keyc_defs Let_def split: if_splits)
  then obtain e where e: "e \<in> set xterm_keys_table" "fst e = key AND NOT 0xe000" by (auto simp: find_None_iff)
  have "\<forall>e\<in>set xterm_keys_table. 0x1000 \<le> fst e" by (simp add: xterm_keys_table_def key_codes)
  then have "0x1000 \<le> key AND NOT 0xe000" using e by fastforce
  moreover have "key AND NOT KEYC_ESCAPE = (key AND NOT 0xe000) OR (key AND 0xc000)"
    by (simp add: keyc_defs flip: bit.conj_disj_distrib)
  ultimately show ?thesis using or_greater_eq [of "key AND 0xc000" "key AND NOT 0xe000"] by simp
qed



section \<open>The mouse\<close>

definition byte_chars :: "byte list \<Rightarrow> string" where
  "byte_chars bs = map (\<lambda>b. char_of (unat b)) bs"

lemma byte_char [simp]: "uchar (char_of (unat (b :: byte))) = b" "char_code (char_of (unat (b :: byte))) = unat b"
proof -
  have "unat b < 256" using unsigned_less [of b] by simp
  then have "of_char (char_of (unat b)) = unat b" by simp
  then show "char_code (char_of (unat b)) = unat b" by (simp add: char_code_def)
  then show "uchar (char_of (unat b)) = b" by (simp add: uchar_def)
qed

lemma escape_chars: "char_of (27 :: nat) = CHR 0x1b" "char_of (91 :: nat) = CHR ''[''" "char_of (77 :: nat) = CHR ''M''"
  by code_simp+

lemma lget_drop: "lget pos xs = (case drop pos xs of [] \<Rightarrow> None | x # _ \<Rightarrow> Some x)"
  by (cases "pos < length xs") (simp_all add: lget_def Cons_nth_drop_Suc [symmetric])

lemma plain_value:
  assumes "utf8 \<Longrightarrow> b < 0xc2" "lget pos buf = Some (char_of (unat (b :: byte)))"
  shows "mouse_value utf8 buf len pos = Some (Inr (unat b, pos + 1))"
proof (cases utf8)
  case True
  then have "utf8_open b = Some (utf8_zero, False)" using assms(1) by (auto simp: utf8_open_def word_le_nat_alt word_less_nat_alt)
  then show ?thesis using assms(2) True by (simp add: mouse_value_def)
qed (use assms(2) in \<open>simp add: mouse_value_def\<close>)

lemma two_byte_value:
  assumes "0xc2 \<le> b0" "b0 \<le> 0xdf" "lget pos buf = Some (char_of (unat (b0 :: byte)))" "lget (pos + 1) buf = Some (char_of (unat (b1 :: byte)))" "pos < len"
  shows "mouse_value True buf len pos = Some (Inr (unat b1 mod 64 + 64 * (unat b0 mod 32), pos + 2))"
proof -
  have o: "utf8_open b0 = Some (\<lparr>u8_data = b0 # replicate 8 0, u8_have = 1, u8_size = 2, u8_width = 0\<rparr>, True)"
    using utf8_open_start [OF assms(1)] assms(2) by (auto simp: word_le_nat_alt)
  obtain d w where a: "utf8_append \<lparr>u8_data = b0 # replicate 8 0, u8_have = 1, u8_size = 2, u8_width = 0\<rparr> b1 = Some (d, w)"
      "u8_size d = 2" "u8_data d = b0 # b1 # replicate 7 0"
    by (auto simp: utf8_append_def Let_def numeral_eq_Suc)
  have "unat (utf8_combine d) = unat b1 mod 64 + 64 * (unat b0 mod 32)" using utf8_combine_unfold(1) [OF a(2)] a(3) by simp
  then show ?thesis using o a(1) assms(3-5) by (simp add: mouse_value_def)
qed

lemma encoded_value:
  assumes "v < 0x800" "pos + length (utf8_split2 v) \<le> len" "take (length (utf8_split2 v)) (drop pos buf) = byte_chars (utf8_split2 v)"
  shows "mouse_value True buf len pos = Some (Inr (v, pos + length (utf8_split2 v)))"
proof -
  have e: "utf8_split2 v = utf8_encode v" by (rule utf8_split2_encode [OF assms(1)])
  show ?thesis
  proof (cases "v < 0x80")
    case True
    then have "utf8_split2 v = [byte_of_nat v]" using e by (simp add: utf8_encode_def)
    moreover have "byte_of_nat v < 0xc2" using True by (simp add: word_less_nat_alt unat_byte_of_nat)
    moreover have "lget pos buf = Some (char_of (unat (byte_of_nat v)))"
      using assms(3) calculation(1) by (cases "drop pos buf") (auto simp: byte_chars_def lget_drop)
    ultimately show ?thesis using plain_value [of True "byte_of_nat v" pos buf len] True by (simp add: unat_byte_of_nat)
  next
    case False
    let ?b0 = "byte_of_nat (0xc0 + v div 64)" and ?b1 = "byte_of_nat (0x80 + v mod 64)"
    have s: "utf8_split2 v = [?b0, ?b1]" using e False assms(1) by (simp add: utf8_encode_def)
    have q: "2 \<le> v div 64" "v div 64 < 32" using False assms(1) by (simp_all add: div_less_iff_less_mult less_eq_div_iff_mult_less_eq)
    then have b: "unat ?b0 = 0xc0 + v div 64" "unat ?b1 = 0x80 + v mod 64" by (simp_all add: unat_byte_of_nat)
    have r: "0xc2 \<le> ?b0" "?b0 \<le> 0xdf" using b(1) q by (simp_all add: word_le_nat_alt)
    have "\<exists>bs. drop pos buf = char_of (unat ?b0) # char_of (unat ?b1) # bs"
      using assms(3) s by (cases "drop pos buf"; cases "tl (drop pos buf)") (auto simp: byte_chars_def)
    then obtain bs where d: "drop pos buf = char_of (unat ?b0) # char_of (unat ?b1) # bs" by blast
    then have "drop (pos + 1) buf = char_of (unat ?b1) # bs" by (metis Suc_eq_plus1 drop_Suc list.sel(3) tl_drop)
    with d have g: "lget pos buf = Some (char_of (unat ?b0))" "lget (pos + 1) buf = Some (char_of (unat ?b1))"
      unfolding lget_drop by simp_all
    have "unat ?b1 mod 64 + 64 * (unat ?b0 mod 32) = v" using lead_mods(1) [of "v mod 64"] lead_mods(2) [OF q(2)] by (simp only: b) simp
    then show ?thesis using two_byte_value [OF r g, of len] assms(2) s by simp
  qed
qed

lemma mouse_three:
  assumes "mouse_value utf8 buf len p0 = Some (Inr (b, p1))" "mouse_value utf8 buf len p1 = Some (Inr (x, p2))"
    "mouse_value utf8 buf len p2 = Some (Inr (y, p3))" "p2 \<le> len" "p0 \<le> p1" "p1 \<le> p2"
  shows "mouse_values 3 utf8 buf len p0 = Some (Inr ([b, x, y], p3))"
  using assms by (simp add: numeral_3_eq_3)

lemma encoded_three:
  assumes "buf = pre @ byte_chars (utf8_split2 b) @ byte_chars (utf8_split2 x) @ byte_chars (utf8_split2 y) @ rest"
    "length pre + length (utf8_split2 b) + length (utf8_split2 x) + length (utf8_split2 y) \<le> len" "b < 0x800" "x < 0x800" "y < 0x800"
  shows "mouse_values 3 True buf len (length pre) =
    Some (Inr ([b, x, y], length pre + length (utf8_split2 b) + length (utf8_split2 x) + length (utf8_split2 y)))"
proof (rule mouse_three)
  have l: "length (byte_chars bs) = length bs" for bs by (simp add: byte_chars_def)
  show "mouse_value True buf len (length pre) = Some (Inr (b, length pre + length (utf8_split2 b)))"
    using assms l by (intro encoded_value) simp_all
  show "mouse_value True buf len (length pre + length (utf8_split2 b)) = Some (Inr (x, length pre + length (utf8_split2 b) + length (utf8_split2 x)))"
    using assms l by (intro encoded_value) simp_all
  show "mouse_value True buf len (length pre + length (utf8_split2 b) + length (utf8_split2 x)) =
      Some (Inr (y, length pre + length (utf8_split2 b) + length (utf8_split2 x) + length (utf8_split2 y)))"
    using assms l by (intro encoded_value) simp_all
qed (use assms(2) in simp_all)

text \<open>
  C12: the mouse in a tmux that runs in another one. The bytes that input_mouse writes are read by
  tty_keys_next as the same event, for every position that the plain form can send and for those
  up to 2014 with UTF-8, if both sides agree on which form is used.
\<close>

theorem nested_mouse:
  assumes "input_mouse mm scr m = Bytes bs" "flag_set (s_mode scr) MODE_MOUSE_UTF8 \<longleftrightarrow> flag_set (ti_mode ti) MODE_MOUSE_UTF8"
    "m_b m < 0x7e0" "m_x m < 0x7df" "m_y m < 0x7df" "ti_buf ti = byte_chars bs @ rest"
  shows "tty_keys_next ti = Some (Key KEYC_MOUSE (Some m), ti\<lparr>ti_buf := rest, ti_escape := False\<rparr>)"
proof -
  let ?utf8 = "flag_set (ti_mode ti) MODE_MOUSE_UTF8" and ?mem = "ti_buf ti @ ti_behind ti" and ?len = "length (ti_buf ti)"
  have on: "flag_set (s_mode scr) ALL_MOUSE_MODES" using assms(1) by (auto simp: input_mouse_def split: if_splits)
  have add: "uadd (m_b m) 32 = m_b m + 32" "uadd (m_x m) 33 = m_x m + 33" "uadd (m_y m) 33 = m_y m + 33"
    using assms(3-5) by (simp_all add: uadd_eq)
  have l: "length (byte_chars bs) = length bs" for bs by (simp add: byte_chars_def)
  have v: "length bs \<le> ?len \<and> mouse_values 3 ?utf8 ?mem ?len 3 = Some (Inr ([m_b m + 32, m_x m + 33, m_y m + 33], length bs)) \<and>
    (\<exists>t. byte_chars bs = [CHR 0x1b, CHR ''['', CHR ''M''] @ t \<and> t \<noteq> [])"
  proof (cases ?utf8)
    case True
    let ?b = "utf8_split2 (m_b m + 32)" and ?x = "utf8_split2 (m_x m + 33)" and ?y = "utf8_split2 (m_y m + 33)"
    have bs: "bs = [0x1b, 0x5b, 0x4d] @ ?b @ ?x @ ?y" using assms(1,2) on True add by (simp add: input_mouse_def)
    have c: "byte_chars bs = [CHR 0x1b, CHR ''['', CHR ''M''] @ byte_chars ?b @ byte_chars ?x @ byte_chars ?y" by (simp add: bs byte_chars_def escape_chars)
    have n: "byte_chars ?b \<noteq> []" by (simp add: byte_chars_def utf8_split2_def)
    have pre: "length [CHR 0x1b, CHR ''['', CHR ''M''] = 3" by simp
    have "?mem = [CHR 0x1b, CHR ''['', CHR ''M''] @ byte_chars ?b @ byte_chars ?x @ byte_chars ?y @ rest @ ti_behind ti" using assms(6) c by simp
    from encoded_three [OF this, of ?len, unfolded pre]
    have "mouse_values 3 True ?mem ?len 3 = Some (Inr ([m_b m + 32, m_x m + 33, m_y m + 33], 3 + length ?b + length ?x + length ?y))"
      using assms(3-6) c l by simp
    moreover have "length bs = 3 + length ?b + length ?x + length ?y" by (simp add: bs)
    moreover have "length bs \<le> ?len" using assms(6) l by simp
    moreover have "\<exists>t. byte_chars bs = [CHR 0x1b, CHR ''['', CHR ''M''] @ t \<and> t \<noteq> []" using c n by simp
    ultimately show ?thesis using True by simp
  next
    case False
    define b1 b2 b3 :: byte where bytes: "b1 = word_of_nat (m_b m + 32)" "b2 = word_of_nat (m_x m + 33)" "b3 = word_of_nat (m_y m + 33)"
    have r: "m_b m \<le> 223" "m_x m < 222" "m_y m \<le> 222" "bs = [0x1b, 0x5b, 0x4d, b1, b2, b3]"
      using assms(1,2) on False by (auto simp: input_mouse_def bytes split: if_splits)
    have n: "unat (word_of_nat n :: byte) = n" if "n < 256" for n using that by (simp add: unat_of_nat)
    have u: "unat b1 = m_b m + 32" "unat b2 = m_x m + 33" "unat b3 = m_y m + 33"
      using r(1-3) by (simp_all only: bytes) (intro n; simp)+
    have c: "byte_chars bs = [CHR 0x1b, CHR ''['', CHR ''M''] @ byte_chars [b1, b2, b3]" by (simp add: r(4) byte_chars_def escape_chars)
    have m: "?mem = [CHR 0x1b, CHR ''['', CHR ''M'', char_of (unat b1), char_of (unat b2), char_of (unat b3)] @ rest @ ti_behind ti"
      using assms(6) c by (simp add: byte_chars_def)
    have v: "mouse_value False ?mem ?len 3 = Some (Inr (m_b m + 32, 4))" "mouse_value False ?mem ?len 4 = Some (Inr (m_x m + 33, 5))"
      "mouse_value False ?mem ?len 5 = Some (Inr (m_y m + 33, 6))"
      using plain_value [of False b1 3 ?mem ?len] plain_value [of False b2 4 ?mem ?len] plain_value [of False b3 5 ?mem ?len] u
      by (simp_all add: m lget_def)
    have six: "length bs = 6" "length bs \<le> ?len" using r(4) assms(6) l [of bs] by simp_all
    have "mouse_values 3 False ?mem ?len 3 = Some (Inr ([m_b m + 32, m_x m + 33, m_y m + 33], 6))"
      by (rule mouse_three [OF v]) (use six in linarith)+
    moreover note six
    moreover have "\<exists>t. byte_chars bs = [CHR 0x1b, CHR ''['', CHR ''M''] @ t \<and> t \<noteq> []" using c by (simp add: byte_chars_def)
    ultimately show ?thesis using False by simp
  qed
  then obtain t where t: "byte_chars bs = [CHR 0x1b, CHR ''['', CHR ''M''] @ t" "t \<noteq> []" by blast
  have "tty_keys_mouse (ti_mode ti) ?mem ?len = Some (Mouse (length bs) m)"
    using v t assms(6) by (cases t) (simp_all add: tty_keys_mouse_def lget_def)
  moreover have "drop (length bs) (ti_buf ti) = rest" using assms(6) l [of bs] by simp
  moreover have "\<exists>u. ti_buf ti = CHR 0x1b # u" using assms(6) t by simp
  ultimately show ?thesis by (auto simp: tty_keys_next_def handle_key_def drain_def)
qed

theorem nested_mouse_witness:
  "tty_keys_next (sample_input\<lparr>ti_mode := MODE_MOUSE_UTF8, ti_buf := byte_chars [0x1b, 0x5b, 0x4d, 0x20, 0xc4, 0x8d, 0x26] @ ''a''\<rparr>) =
   Some (Key KEYC_MOUSE (Some \<lparr>m_b = 0, m_x = 236, m_y = 5\<rparr>), sample_input\<lparr>ti_mode := MODE_MOUSE_UTF8, ti_buf := ''a'', ti_escape := False\<rparr>)"
proof -
  have "input_mouse False (sample_screen\<lparr>s_mode := MODE_MOUSE_ANY OR MODE_MOUSE_UTF8\<rparr>) \<lparr>m_b = 0, m_x = 236, m_y = 5\<rparr> =
      Bytes [0x1b, 0x5b, 0x4d, 0x20, 0xc4, 0x8d, 0x26]"
    by (simp add: input_mouse_def flag_set_def utf8_split2_def uadd_eq)
  from nested_mouse [OF this, of "sample_input\<lparr>ti_mode := MODE_MOUSE_UTF8, ti_buf := byte_chars [0x1b, 0x5b, 0x4d, 0x20, 0xc4, 0x8d, 0x26] @ ''a''\<rparr>" "''a''"]
  show ?thesis by (simp add: flag_set_def)
qed

end
