(* ===== verification/Targets.thy ===== *)
theory Targets
  imports Session Window_Panes Layout_Custom
begin

text \<open>
  The targets of commands in cmd.c: how the text after -t names a client, a session, a window,
  an index for a window or a pane. What the functions read is a context; a client is named by
  its place in the array of clients. None is a null pointer that is followed, and an error is
  the message that is reported. fnmatch of the C library is a field of the context.
\<close>

section \<open>The context\<close>

record client =
  c_path :: "string option"
  c_session :: "nat option"
  c_activity :: nat

record target_context =
  tc_server :: server
  tc_clients :: "client option list"
  tc_curclient :: "nat option"
  tc_cmdclient :: "nat option"
  tc_message :: "(int \<times> nat) option"
  tc_pid :: int
  tc_activity :: "nat \<Rightarrow> nat"
  tc_unattached :: "nat \<Rightarrow> bool"
  tc_name :: "nat \<Rightarrow> string"
  tc_window :: "nat \<Rightarrow> window"
  tc_tty :: "nat \<Rightarrow> string"
  tc_pane :: "nat \<Rightarrow> nat option"
  tc_fnmatch :: "string \<Rightarrow> string \<Rightarrow> bool"

definition client_at :: "target_context \<Rightarrow> nat \<Rightarrow> client option" where
  "client_at ctx i = Option.bind (lget i (tc_clients ctx)) (\<lambda>c. c)"

definition the_session :: "target_context \<Rightarrow> nat \<Rightarrow> session option" where
  "the_session ctx = sv_session (tc_server ctx)"

abbreviation all_sessions :: "target_context \<Rightarrow> nat list" where
  "all_sessions ctx \<equiv> sv_sessions (tc_server ctx)"

section \<open>The current session\<close>

text \<open>The most recently used session, from a list with the best so far.\<close>

fun choose_session_loop :: "target_context \<Rightarrow> bool \<Rightarrow> nat list \<Rightarrow> nat option \<Rightarrow> nat option" where
  "choose_session_loop ctx prefer_unattached [] sbest = sbest"
| "choose_session_loop ctx prefer_unattached (s # ss) sbest =
     (if (case sbest of None \<Rightarrow> True
          | Some b \<Rightarrow> tc_activity ctx b < tc_activity ctx s \<or> prefer_unattached \<and> \<not> tc_unattached ctx b \<and> tc_unattached ctx s)
      then choose_session_loop ctx prefer_unattached ss (Some s)
      else choose_session_loop ctx prefer_unattached ss sbest)"

definition cmd_choose_session :: "target_context \<Rightarrow> bool \<Rightarrow> nat option" where
  "cmd_choose_session ctx prefer_unattached = choose_session_loop ctx prefer_unattached (all_sessions ctx) None"

definition cmd_choose_session_list :: "target_context \<Rightarrow> nat list \<Rightarrow> nat option" where
  "cmd_choose_session_list ctx ss = choose_session_loop ctx False ss None"

definition windows_of :: "target_context \<Rightarrow> nat \<Rightarrow> winlink list" where
  "windows_of ctx s = (case the_session ctx s of None \<Rightarrow> [] | Some x \<Rightarrow> s_windows x)"

definition has_tty :: "target_context \<Rightarrow> string \<Rightarrow> nat \<Rightarrow> bool" where
  "has_tty ctx path s \<longleftrightarrow> list_ex (\<lambda>wl. case wl_window wl of None \<Rightarrow> False
     | Some w \<Rightarrow> list_ex (\<lambda>wp. tc_tty ctx (lp_id wp) = path) (lw_panes (tc_window ctx w))) (windows_of ctx s)"

definition session_find_by_index :: "target_context \<Rightarrow> nat \<Rightarrow> nat option" where
  "session_find_by_index ctx idx = find (\<lambda>s. s = idx) (all_sessions ctx)"

definition cmd_current_session :: "target_context \<Rightarrow> bool \<Rightarrow> nat option option" where
  "cmd_current_session ctx prefer_unattached = do {
     cur \<leftarrow> (case tc_curclient ctx of None \<Rightarrow> Some None | Some i \<Rightarrow> map_option c_session (client_at ctx i));
     path \<leftarrow> (case tc_cmdclient ctx of None \<Rightarrow> Some None | Some i \<Rightarrow> map_option c_path (client_at ctx i));
     Some (if cur \<noteq> None then cur
       else
         let s = (case path of None \<Rightarrow> None | Some p \<Rightarrow> cmd_choose_session_list ctx (filter (has_tty ctx p) (all_sessions ctx))) in
         if s \<noteq> None then s
         else
           let s = (case tc_message ctx of None \<Rightarrow> None
             | Some (pid, idx) \<Rightarrow> if pid = tc_pid ctx \<and> idx \<noteq> 4294967295 then session_find_by_index ctx idx else None) in
           if s \<noteq> None then s else cmd_choose_session ctx prefer_unattached)
   }"

section \<open>Clients\<close>

fun choose_client_loop :: "nat \<Rightarrow> client option list \<Rightarrow> (nat \<times> nat) option \<Rightarrow> nat option" where
  "choose_client_loop i [] best = map_option fst best"
| "choose_client_loop i (None # cs) best = choose_client_loop (Suc i) cs best"
| "choose_client_loop i (Some c # cs) best =
     (if c_session c = None then choose_client_loop (Suc i) cs best
      else if (case best of None \<Rightarrow> True | Some (_, tv) \<Rightarrow> tv < c_activity c)
      then choose_client_loop (Suc i) cs (Some (i, c_activity c))
      else choose_client_loop (Suc i) cs best)"

text \<open>A list that is made of some of the clients keeps their places.\<close>

definition cmd_choose_client :: "client option list \<Rightarrow> nat option" where
  "cmd_choose_client cc = choose_client_loop 0 cc None"

definition cmd_current_client :: "target_context \<Rightarrow> nat option option" where
  "cmd_current_client ctx =
     (if tc_curclient ctx \<noteq> None then Some (tc_curclient ctx)
      else do {
        s \<leftarrow> cmd_current_session ctx False;
        let c = (case s of None \<Rightarrow> None
          | Some s \<Rightarrow> if tc_unattached ctx s then None
              else cmd_choose_client (map (\<lambda>c. case c of None \<Rightarrow> None | Some c \<Rightarrow> if c_session c = Some s then Some c else None) (tc_clients ctx)));
        Some (if c \<noteq> None then c else cmd_choose_client (tc_clients ctx))
      })"

definition path_matches :: "string \<Rightarrow> string \<Rightarrow> bool" where
  "path_matches name path \<longleftrightarrow> name = path \<or> take 5 path = ''/dev/'' \<and> name = drop 5 path"

fun lookup_client_loop :: "string \<Rightarrow> nat \<Rightarrow> client option list \<Rightarrow> nat option option" where
  "lookup_client_loop name i [] = Some None"
| "lookup_client_loop name i (None # cs) = lookup_client_loop name (Suc i) cs"
| "lookup_client_loop name i (Some c # cs) =
     (if c_session c = None then lookup_client_loop name (Suc i) cs
      else case c_path c of
        None \<Rightarrow> None
      | Some path \<Rightarrow> if path_matches name path then Some (Some i) else lookup_client_loop name (Suc i) cs)"

definition cmd_lookup_client :: "target_context \<Rightarrow> string \<Rightarrow> nat option option" where
  "cmd_lookup_client ctx name = lookup_client_loop name 0 (tc_clients ctx)"

definition trim_colon :: "string \<Rightarrow> string" where
  "trim_colon arg = (if arg \<noteq> [] \<and> last arg = CHR '':'' then butlast arg else arg)"

text \<open>The client, or a null pointer without a message if there is no argument.\<close>

definition cmd_find_client :: "target_context \<Rightarrow> string option \<Rightarrow> (string + nat option) option" where
  "cmd_find_client ctx arg =
     (case arg of
        None \<Rightarrow> map_option Inr (cmd_current_client ctx)
      | Some arg \<Rightarrow> map_option (\<lambda>c. if c = None then Inl (''client not found: '' @ trim_colon arg) else Inr c)
          (cmd_lookup_client ctx (trim_colon arg)))"

section \<open>Lookups by name\<close>

definition name_matches :: "target_context \<Rightarrow> string \<Rightarrow> string \<Rightarrow> bool" where
  "name_matches ctx name t \<longleftrightarrow> take (length name) t = name \<or> tc_fnmatch ctx name t"

text \<open>The only one of a list, with a flag that there is more than one.\<close>

fun only_one :: "('a \<Rightarrow> bool) \<Rightarrow> 'a list \<Rightarrow> 'a option \<Rightarrow> 'a option \<times> bool" where
  "only_one P [] found = (found, False)"
| "only_one P (x # xs) found =
     (if P x then if found \<noteq> None then (None, True) else only_one P xs (Some x) else only_one P xs found)"

definition cmd_lookup_session :: "target_context \<Rightarrow> string \<Rightarrow> nat option \<times> bool" where
  "cmd_lookup_session ctx name =
     (case session_find name (tc_server ctx) of
        Some s \<Rightarrow> (Some s, False)
      | None \<Rightarrow> only_one (\<lambda>s. name_matches ctx name (name_of (tc_server ctx) s)) (all_sessions ctx) None)"

definition link_name :: "target_context \<Rightarrow> winlink \<Rightarrow> string" where
  "link_name ctx wl = (case wl_window wl of None \<Rightarrow> [] | Some w \<Rightarrow> tc_name ctx w)"

definition cmd_lookup_window :: "target_context \<Rightarrow> session \<Rightarrow> string \<Rightarrow> int option \<times> bool" where
  "cmd_lookup_window ctx s name =
     (case Option.bind (strtonum name 0 IDX_MAX) (rb_find (s_windows s)) of
        Some wl \<Rightarrow> (Some (wl_idx wl), False)
      | None \<Rightarrow>
         (case only_one (\<lambda>wl. link_name ctx wl = name) (s_windows s) None of
            (Some wl, _) \<Rightarrow> (Some (wl_idx wl), False)
          | (None, True) \<Rightarrow> (None, True)
          | (None, False) \<Rightarrow> map_prod (map_option wl_idx) id (only_one (\<lambda>wl. name_matches ctx name (link_name ctx wl)) (s_windows s) None)))"

definition cmd_lookup_index :: "target_context \<Rightarrow> session \<Rightarrow> string \<Rightarrow> int \<times> bool" where
  "cmd_lookup_index ctx s name =
     (case cmd_lookup_window ctx s name of
        (Some i, _) \<Rightarrow> (i, False)
      | (None, True) \<Rightarrow> (-1, True)
      | (None, False) \<Rightarrow> (case strtonum name 0 IDX_MAX of Some idx \<Rightarrow> (idx, False) | None \<Rightarrow> (-1, False)))"

definition cmd_lookup_paneid :: "target_context \<Rightarrow> string \<Rightarrow> nat option" where
  "cmd_lookup_paneid ctx arg =
     (case arg of
        [] \<Rightarrow> None
      | c # rest \<Rightarrow> if c \<noteq> CHR ''%'' then None
          else (case strtonum rest 0 4294967295 of None \<Rightarrow> None
            | Some n \<Rightarrow> if tc_pane ctx (nat n) = None then None else Some (nat n)))"

text \<open>The session of a pane, and its winlink, where the caller asks for it.\<close>

definition cmd_pane_session :: "target_context \<Rightarrow> nat \<Rightarrow> bool \<Rightarrow> (nat option \<times> int option) option" where
  "cmd_pane_session ctx wp wlp = do {
     w \<leftarrow> tc_pane ctx wp;
     s \<leftarrow> cmd_current_session ctx False;
     (case Option.bind s (\<lambda>s. winlink_find_by_window (windows_of ctx s) w) of
        Some wl \<Rightarrow> Some (s, Some (wl_idx wl))
      | None \<Rightarrow>
         let s = cmd_choose_session_list ctx (filter (\<lambda>s. winlink_find_by_window (windows_of ctx s) w \<noteq> None) (all_sessions ctx)) in
         if wlp then map_option (\<lambda>x. (Some x, map_option wl_idx (winlink_find_by_window (windows_of ctx x) w))) s
         else Some (s, None))
   }"

section \<open>Sessions and windows\<close>

definition cmd_find_session :: "target_context \<Rightarrow> string option \<Rightarrow> bool \<Rightarrow> (string + nat option) option" where
  "cmd_find_session ctx arg prefer_unattached =
     (case arg of
        None \<Rightarrow> map_option Inr (cmd_current_session ctx prefer_unattached)
      | Some arg \<Rightarrow>
         (case cmd_lookup_paneid ctx arg of
            Some wp \<Rightarrow> map_option (\<lambda>r. Inr (fst r)) (cmd_pane_session ctx wp False)
          | None \<Rightarrow>
             let tmparg = trim_colon arg in
             if tmparg = [] then map_option Inr (cmd_current_session ctx prefer_unattached)
             else (case cmd_lookup_session ctx tmparg of
                 (Some s, _) \<Rightarrow> Some (Inr (Some s))
               | (None, ambiguous) \<Rightarrow> do {
                   c \<leftarrow> cmd_lookup_client ctx tmparg;
                   s \<leftarrow> (case c of None \<Rightarrow> Some None | Some c \<Rightarrow> map_option c_session (client_at ctx c));
                   Some (if s \<noteq> None then Inr s
                     else Inl ((if ambiguous then ''more than one session: '' else ''session not found: '') @ tmparg))
                 })))"

text \<open>What follows + or -: 1 if nothing does, and 0 if it is not a number.\<close>

definition offset_of :: "string \<Rightarrow> nat" where
  "offset_of ptr = (if tl ptr = [] then 1 else case strtonum (tl ptr) 1 IDX_MAX of None \<Rightarrow> 0 | Some n \<Rightarrow> nat n)"

definition cmd_find_window_offset :: "target_context \<Rightarrow> string \<Rightarrow> session \<Rightarrow> (int option \<times> bool) option" where
  "cmd_find_window_offset ctx winptr s =
     (let offset = offset_of winptr in
      if offset = 0 then Some (cmd_lookup_window ctx s winptr)
      else do {
        c \<leftarrow> s_curw s;
        i \<leftarrow> (if hd winptr = CHR ''+'' then winlink_next_by_number offset (s_windows s) c
          else winlink_previous_by_number offset (s_windows s) c);
        Some (Some i, False)
      })"

definition session_error :: "bool \<Rightarrow> string \<Rightarrow> string" where
  "session_error ambiguous arg = (if ambiguous then ''multiple sessions: '' else ''session not found: '') @ arg"

definition window_error :: "bool \<Rightarrow> string \<Rightarrow> string" where
  "window_error ambiguous arg = (if ambiguous then ''multiple windows: '' else ''window not found: '') @ arg"

definition is_offset :: "string \<Rightarrow> bool" where
  "is_offset ptr \<longleftrightarrow> hd ptr = CHR ''+'' \<or> hd ptr = CHR ''-''"

text \<open>With a colon, the window in the session before it; the session is found already.\<close>

definition window_in :: "target_context \<Rightarrow> nat \<Rightarrow> string \<Rightarrow> string \<Rightarrow> (string + nat \<times> int option) option" where
  "window_in ctx s winptr arg = do {
     x \<leftarrow> the_session ctx s;
     (wl, ambiguous) \<leftarrow>
       (if winptr = [] then Some (s_curw x, False)
        else if winptr = ''!'' then Some (case s_lastw x of [] \<Rightarrow> None | i # _ \<Rightarrow> Some i, False)
        else if is_offset winptr then cmd_find_window_offset ctx winptr x
        else Some (cmd_lookup_window ctx x winptr));
     Some (if wl = None then Inl (window_error ambiguous arg) else Inr (s, wl))
   }"

text \<open>Without one, first in the current session and then as a session.\<close>

definition window_alone :: "target_context \<Rightarrow> nat \<Rightarrow> string \<Rightarrow> (string + nat \<times> int option) option" where
  "window_alone ctx s arg = do {
     x \<leftarrow> the_session ctx s;
     if arg = ''!'' then Some (case s_lastw x of [] \<Rightarrow> Inl (window_error False arg) | i # _ \<Rightarrow> Inr (s, Some i))
     else do {
       (wl, ambiguous) \<leftarrow> (if is_offset arg then cmd_find_window_offset ctx arg x else Some (cmd_lookup_window ctx x arg));
       if wl \<noteq> None then Some (Inr (s, wl))
       else if ambiguous then Some (Inl (window_error True arg))
       else (case cmd_lookup_session ctx arg of
           (None, ambiguous) \<Rightarrow> Some (Inl (session_error ambiguous arg))
         | (Some s, _) \<Rightarrow> map_option (\<lambda>x. Inr (s, s_curw x)) (the_session ctx s))
     }
   }"

definition cmd_find_window :: "target_context \<Rightarrow> string option \<Rightarrow> (string + nat \<times> int option) option" where
  "cmd_find_window ctx arg = do {
     s \<leftarrow> cmd_current_session ctx False;
     (case s of
        None \<Rightarrow> Some (Inl ''can't establish current session'')
      | Some s \<Rightarrow>
         (case arg of
            None \<Rightarrow> map_option (\<lambda>x. Inr (s, s_curw x)) (the_session ctx s)
          | Some arg \<Rightarrow>
             (case cmd_lookup_paneid ctx arg of
                Some wp \<Rightarrow> do {
                  (s, wl) \<leftarrow> cmd_pane_session ctx wp True;
                  s \<leftarrow> s;
                  Some (Inr (s, wl))
                }
              | None \<Rightarrow>
                 if arg = [] then Some (Inl (window_error False arg))
                 else if CHR '':'' \<in> set arg then
                   (let sessptr = takeWhile (\<lambda>c. c \<noteq> CHR '':'') arg; winptr = tl (dropWhile (\<lambda>c. c \<noteq> CHR '':'') arg) in
                    if sessptr = [] then window_in ctx s winptr arg
                    else (case cmd_lookup_session ctx sessptr of
                        (None, ambiguous) \<Rightarrow> Some (Inl (session_error ambiguous arg))
                      | (Some s, _) \<Rightarrow> window_in ctx s winptr arg))
                 else window_alone ctx s arg)))
   }"

section \<open>Indices\<close>

text \<open>An index, or -1 for none; adding beyond the largest int is undefined.\<close>

definition cmd_find_index_offset :: "target_context \<Rightarrow> string \<Rightarrow> session \<Rightarrow> (int \<times> bool) option" where
  "cmd_find_index_offset ctx winptr s =
     (let offset = int (offset_of winptr) in
      if offset = 0 then Some (cmd_lookup_index ctx s winptr)
      else do {
        c \<leftarrow> s_curw s;
        if hd winptr = CHR ''+'' then
          if c = IDX_MAX then Some (cmd_lookup_index ctx s winptr)
          else if c + offset > IDX_MAX then None else Some (c + offset, False)
        else
          if c = 0 then Some (cmd_lookup_index ctx s winptr)
          else if c - offset < - IDX_MAX - 1 then None else Some (c - offset, False)
      })"

definition index_in :: "target_context \<Rightarrow> nat \<Rightarrow> string \<Rightarrow> string \<Rightarrow> (string + nat \<times> int) option" where
  "index_in ctx s winptr arg = do {
     x \<leftarrow> the_session ctx s;
     if winptr = [] then Some (Inr (s, -1))
     else if winptr = ''!'' then Some (case s_lastw x of [] \<Rightarrow> Inl (window_error False arg) | i # _ \<Rightarrow> Inr (s, i))
     else do {
       (idx, ambiguous) \<leftarrow> (if is_offset winptr then cmd_find_index_offset ctx winptr x else Some (cmd_lookup_index ctx x winptr));
       Some (if (if is_offset winptr then idx < 0 else idx = -1)
         then Inl (if ambiguous then window_error True arg else ''invalid index: '' @ arg)
         else Inr (s, idx))
     }
   }"

definition index_alone :: "target_context \<Rightarrow> nat \<Rightarrow> string \<Rightarrow> (string + nat \<times> int) option" where
  "index_alone ctx s arg = do {
     x \<leftarrow> the_session ctx s;
     if arg = ''!'' then Some (case s_lastw x of [] \<Rightarrow> Inl (window_error False arg) | i # _ \<Rightarrow> Inr (s, i))
     else do {
       (idx, ambiguous) \<leftarrow> (if is_offset arg then cmd_find_index_offset ctx arg x else Some (cmd_lookup_index ctx x arg));
       Some (if \<not> (if is_offset arg then idx < 0 else idx = -1) then Inr (s, idx)
         else if ambiguous then Inl (window_error True arg)
         else (case cmd_lookup_session ctx arg of
             (None, ambiguous) \<Rightarrow> Inl (session_error ambiguous arg)
           | (Some s, _) \<Rightarrow> Inr (s, -1)))
     }
   }"

definition cmd_find_index :: "target_context \<Rightarrow> string option \<Rightarrow> (string + nat \<times> int) option" where
  "cmd_find_index ctx arg = do {
     s \<leftarrow> cmd_current_session ctx False;
     (case s of
        None \<Rightarrow> Some (Inl ''can't establish current session'')
      | Some s \<Rightarrow>
         (case arg of
            None \<Rightarrow> Some (Inr (s, -1))
          | Some arg \<Rightarrow>
             if arg = [] then Some (Inl (window_error False arg))
             else if CHR '':'' \<in> set arg then
               (let sessptr = takeWhile (\<lambda>c. c \<noteq> CHR '':'') arg; winptr = tl (dropWhile (\<lambda>c. c \<noteq> CHR '':'') arg) in
                if sessptr = [] then index_in ctx s winptr arg
                else (case cmd_lookup_session ctx sessptr of
                    (None, ambiguous) \<Rightarrow> Some (Inl (session_error ambiguous arg))
                  | (Some s, _) \<Rightarrow> index_in ctx s winptr arg))
             else index_alone ctx s arg))
   }"

section \<open>Panes\<close>

definition window_at :: "target_context \<Rightarrow> nat \<Rightarrow> int option \<Rightarrow> window option" where
  "window_at ctx s wl = do {
     x \<leftarrow> the_session ctx s;
     i \<leftarrow> wl;
     wl \<leftarrow> rb_find (s_windows x) i;
     w \<leftarrow> wl_window wl;
     Some (tc_window ctx w)
   }"

definition cmd_find_pane_offset :: "string \<Rightarrow> window \<Rightarrow> nat option option" where
  "cmd_find_pane_offset paneptr w =
     (let offset = offset_of paneptr in
      if offset > 0 then map_option (\<lambda>wp. Some (if hd paneptr = CHR ''+'' then window_pane_next_by_number w wp offset
          else window_pane_previous_by_number w wp offset)) (w_active w)
      else Some (w_active w))"

text \<open>layout_find_string and what the cell has for a pane, if there is a cell.\<close>

definition pane_by_place :: "window \<Rightarrow> string \<Rightarrow> nat option option option" where
  "pane_by_place w s = do {
     rt \<leftarrow> lw_root w;
     p \<leftarrow> layout_find_string rt s;
     (case p of None \<Rightarrow> Some None | Some p \<Rightarrow> map_option (\<lambda>lc. Some (lc_wp lc)) (cell_at p rt))
   }"

text \<open>The pane in the window that is found, from the text behind the last period.\<close>

definition pane_in :: "target_context \<Rightarrow> nat \<Rightarrow> int option \<Rightarrow> string \<Rightarrow> (string + nat \<times> int option \<times> nat option) option" where
  "pane_in ctx s wl paneptr = do {
     w \<leftarrow> window_at ctx s wl;
     if paneptr = [] then Some (Inr (s, wl, w_active w))
     else if is_offset paneptr then map_option (\<lambda>wp. Inr (s, wl, wp)) (cmd_find_pane_offset paneptr w)
     else (case Option.bind (strtonum paneptr 0 IDX_MAX) (\<lambda>idx. window_pane_at_index w (nat idx)) of
         Some wp \<Rightarrow> Some (Inr (s, wl, Some (lp_id wp)))
       | None \<Rightarrow> map_option (\<lambda>p. case p of None \<Rightarrow> Inl (''can't find pane: '' @ paneptr) | Some wp \<Rightarrow> Inr (s, wl, wp)) (pane_by_place w paneptr))
   }"

text \<open>Without a period, in the current window, or as a window with its active pane.\<close>

definition pane_alone :: "target_context \<Rightarrow> nat \<Rightarrow> string \<Rightarrow> (string + nat \<times> int option \<times> nat option) option" where
  "pane_alone ctx s arg = do {
     x \<leftarrow> the_session ctx s;
     w \<leftarrow> window_at ctx s (s_curw x);
     (case Option.bind (strtonum arg 0 IDX_MAX) (\<lambda>idx. window_pane_at_index w (nat idx)) of
        Some wp \<Rightarrow> Some (Inr (s, s_curw x, Some (lp_id wp)))
      | None \<Rightarrow> do {
          p \<leftarrow> pane_by_place w arg;
          if p \<noteq> None then Some (Inr (s, s_curw x, the p))
          else do {
            r \<leftarrow> cmd_find_window ctx (Some arg);
            (case r of
               Inl e \<Rightarrow> Some (Inl e)
             | Inr (s, None) \<Rightarrow> Some (Inr (s, None, None))
             | Inr (s, Some i) \<Rightarrow> map_option (\<lambda>w. Inr (s, Some i, w_active w)) (window_at ctx s (Some i)))
          }
        })
   }"

definition after_last :: "char \<Rightarrow> string \<Rightarrow> string" where
  "after_last c s = rev (takeWhile (\<lambda>d. d \<noteq> c) (rev s))"

definition before_last :: "char \<Rightarrow> string \<Rightarrow> string" where
  "before_last c s = rev (tl (dropWhile (\<lambda>d. d \<noteq> c) (rev s)))"

definition cmd_find_pane :: "target_context \<Rightarrow> string option \<Rightarrow> (string + nat \<times> int option \<times> nat option) option" where
  "cmd_find_pane ctx arg = do {
     s \<leftarrow> cmd_current_session ctx False;
     (case s of
        None \<Rightarrow> Some (Inl ''can't establish current session'')
      | Some s \<Rightarrow>
         (case arg of
            None \<Rightarrow> do {
              x \<leftarrow> the_session ctx s;
              w \<leftarrow> window_at ctx s (s_curw x);
              Some (Inr (s, s_curw x, w_active w))
            }
          | Some arg \<Rightarrow>
             (case cmd_lookup_paneid ctx arg of
                Some wp \<Rightarrow> do {
                  (s, wl) \<leftarrow> cmd_pane_session ctx wp True;
                  s \<leftarrow> s;
                  Some (Inr (s, wl, Some wp))
                }
              | None \<Rightarrow>
                 if CHR ''.'' \<in> set arg then
                   (let winptr = before_last (CHR ''.'') arg; paneptr = after_last (CHR ''.'') arg in
                    if winptr = [] then do { x \<leftarrow> the_session ctx s; pane_in ctx s (s_curw x) paneptr }
                    else do {
                      r \<leftarrow> cmd_find_window ctx (Some winptr);
                      (case r of
                         Inl e \<Rightarrow> Some (Inl e)
                       | Inr (s, None) \<Rightarrow> Some (Inr (s, None, None))
                       | Inr (s, Some i) \<Rightarrow> pane_in ctx s (Some i) paneptr)
                    })
                 else pane_alone ctx s arg)))
   }"

section \<open>Templates\<close>

fun template_loop :: "string \<Rightarrow> string \<Rightarrow> int \<Rightarrow> bool \<Rightarrow> string" where
  "template_loop [] s idx replaced = []"
| "template_loop (c # cs) s idx replaced =
     (if c = CHR ''%'' then
        (case cs of
           [] \<Rightarrow> [c]
         | d # ds \<Rightarrow>
            if 49 \<le> char_code d \<and> char_code d \<le> 57 \<and> int (char_code d) - 48 = idx then s @ template_loop ds s idx replaced
            else if d = CHR ''%'' \<and> \<not> replaced then s @ template_loop ds s idx True
            else c # template_loop cs s idx replaced)
      else c # template_loop cs s idx replaced)"

definition cmd_template_replace :: "string \<Rightarrow> string \<Rightarrow> int \<Rightarrow> string" where
  "cmd_template_replace template s idx = (if CHR ''%'' \<in> set template then template_loop template s idx False else template)"

end
