(* ===== verification/Target_Props.thy ===== *)
theory Target_Props
  imports Targets Session_Props Layout_Props
begin

text \<open>
  The properties of targets: whatever is written after -t, the lookups return an error or a
  winlink that exists, and the name that is printed for a pane finds that pane.
\<close>

section \<open>The context\<close>

text \<open>
  A server that can be reached, clients in sessions that exist and with a terminal, and panes of
  windows that exist.
\<close>

definition context_ok :: "target_context \<Rightarrow> bool" where
  "context_ok ctx \<longleftrightarrow> reachable_server (tc_server ctx) \<and>
     (\<forall>c s. Some c \<in> set (tc_clients ctx) \<and> c_session c = Some s \<longrightarrow> s \<in> set (all_sessions ctx) \<and> c_path c \<noteq> None) \<and>
     (\<forall>i. tc_curclient ctx = Some i \<or> tc_cmdclient ctx = Some i \<longrightarrow> client_at ctx i \<noteq> None) \<and>
     (\<forall>wp w. tc_pane ctx wp = Some w \<longrightarrow> sv_refs (tc_server ctx) w \<noteq> None)"

lemma context_server: "context_ok ctx \<Longrightarrow> server_ok (tc_server ctx)"
  using reachable_server_ok by (simp add: context_ok_def)

lemma context_session:
  assumes "context_ok ctx" "s \<in> set (all_sessions ctx)"
  obtains x c where "the_session ctx s = Some x" "sess_ok x" "s_curw x = Some c" "c \<in> idxs (s_windows x)" "windows_ok (s_windows x)"
    "set (s_lastw x) \<subseteq> idxs (s_windows x)"
proof -
  note sv = context_server [OF assms(1)]
  obtain x where x: "the_session ctx s = Some x"
    using server_alive [OF sv, of s] assms(2) by (auto simp: the_session_def session_alive_def)
  have ok: "sess_ok x" using server_session [OF sv] x by (simp add: the_session_def)
  obtain c where "s_curw x = Some c" "c \<in> idxs (s_windows x)" using sess_okD [OF ok] by blast
  then show thesis using that x ok by (auto simp: sess_ok_def near_ok_def)
qed

lemma choose_in:
  "choose_session_loop ctx p ss best = r \<Longrightarrow> (r = None \<longleftrightarrow> ss = [] \<and> best = None) \<and> (\<forall>s. r = Some s \<longrightarrow> s \<in> set ss \<or> best = Some s)"
proof (induction ss arbitrary: best)
  case (Cons s ss)
  then show ?case using Cons.IH [of best] Cons.IH [of "Some s"] by (auto split: if_splits option.splits)
qed auto

lemma client_session: "context_ok ctx \<Longrightarrow> client_at ctx i = Some c \<Longrightarrow> c_session c = Some s \<Longrightarrow> s \<in> set (all_sessions ctx)"
proof -
  assume a: "context_ok ctx" "client_at ctx i = Some c" "c_session c = Some s"
  have "Some c \<in> set (tc_clients ctx)" using a(2) nth_mem by (fastforce simp: client_at_def lget_def split: if_splits)
  then show ?thesis using a(1,3) unfolding context_ok_def by blast
qed

lemma current_session_runs:
  assumes "context_ok ctx"
  shows "\<exists>r. cmd_current_session ctx p = Some r \<and> (\<forall>s. r = Some s \<longrightarrow> s \<in> set (all_sessions ctx)) \<and> (r = None \<longrightarrow> all_sessions ctx = [])"
proof -
  let ?cur = "case tc_curclient ctx of None \<Rightarrow> Some None | Some i \<Rightarrow> map_option c_session (client_at ctx i)"
  let ?path = "case tc_cmdclient ctx of None \<Rightarrow> Some None | Some i \<Rightarrow> map_option c_path (client_at ctx i)"
  obtain cur where cur: "?cur = Some cur" using assms by (cases "tc_curclient ctx") (auto simp: context_ok_def)
  obtain path where path: "?path = Some path" using assms by (cases "tc_cmdclient ctx") (auto simp: context_ok_def)
  have c: "cur = Some s \<Longrightarrow> s \<in> set (all_sessions ctx)" for s
    using cur client_session [OF assms] by (cases "tc_curclient ctx") auto
  let ?s1 = "case path of None \<Rightarrow> None | Some p \<Rightarrow> cmd_choose_session_list ctx (filter (has_tty ctx p) (all_sessions ctx))"
  have s1: "s \<in> set (all_sessions ctx)" if h: "?s1 = Some s" for s
  proof -
    obtain t where "choose_session_loop ctx False (filter (has_tty ctx t) (all_sessions ctx)) None = Some s"
      using h by (cases path) (auto simp: cmd_choose_session_list_def)
    from choose_in [OF this] show ?thesis by simp
  qed
  let ?s2 = "case tc_message ctx of None \<Rightarrow> None
             | Some (pid, idx) \<Rightarrow> if pid = tc_pid ctx \<and> idx \<noteq> 4294967295 then session_find_by_index ctx idx else None"
  have s2: "?s2 = Some s \<Longrightarrow> s \<in> set (all_sessions ctx)" for s
    by (auto simp: session_find_by_index_def find_Some_iff split: option.splits if_splits)
  have s3: "cmd_choose_session ctx p = Some s \<Longrightarrow> s \<in> set (all_sessions ctx)" "cmd_choose_session ctx p = None \<Longrightarrow> all_sessions ctx = []" for s
    using choose_in [of ctx p "all_sessions ctx" None] by (auto simp: cmd_choose_session_def)
  have r: "cmd_current_session ctx p = Some (if cur \<noteq> None then cur else if ?s1 \<noteq> None then ?s1 else if ?s2 \<noteq> None then ?s2 else cmd_choose_session ctx p)"
    unfolding cmd_current_session_def cur path Let_def Option.bind.simps by (rule refl)
  have pick: "\<exists>q. (if a \<noteq> None then a else if b \<noteq> None then b else if e \<noteq> None then e else f) = q \<and> (\<forall>s. q = Some s \<longrightarrow> s \<in> S) \<and> (q = None \<longrightarrow> P)"
    if "\<And>s. a = Some s \<Longrightarrow> s \<in> S" "\<And>s. b = Some s \<Longrightarrow> s \<in> S" "\<And>s. e = Some s \<Longrightarrow> s \<in> S" "\<And>s. f = Some s \<Longrightarrow> s \<in> S" "f = None \<Longrightarrow> P"
    for a b e f :: "nat option" and S P
    using that by auto
  show ?thesis unfolding r option.inject by (rule pick) (erule c s1 s2 s3)+
qed

text \<open>A context with the server of the other examples; the first window has two panes.\<close>

definition some_context :: target_context where
  "some_context = \<lparr>tc_server = some_server, tc_clients = [None, Some \<lparr>c_path = Some ''/dev/ttyp0'', c_session = Some 2, c_activity = 4\<rparr>],
     tc_curclient = Some 1, tc_cmdclient = Some 1, tc_message = None, tc_pid = 1, tc_activity = (\<lambda>s. s), tc_unattached = (\<lambda>s. s \<noteq> 2),
     tc_name = (\<lambda>w. ''sh''), tc_window = (\<lambda>w. \<lparr>lw_sx = 9, lw_sy = 9, lw_panes = [sample_pane 1, sample_pane 2], lw_root = None, lw_lastlayout = 0,
       w_active = Some 1, w_last = None\<rparr>), tc_tty = (\<lambda>p. []), tc_pane = [1 \<mapsto> 10, 2 \<mapsto> 10], tc_fnmatch = (=)\<rparr>"

lemma some_context_ok: "context_ok some_context"
proof -
  have "reachable_server some_server" by (rule some_reachable)
  then show ?thesis by (auto simp: some_context_def context_ok_def client_at_def lget_def some_server_def Let_def)
qed

section \<open>Windows that are found exist\<close>

lemma step_in: "windows_ok ws \<Longrightarrow> i \<in> idxs ws \<Longrightarrow>
  \<exists>r wl. winlink_next ws i = Some r \<and> (if r = None then rb_min ws else r) = Some wl \<and> wl_idx wl \<in> idxs ws"
  "windows_ok ws \<Longrightarrow> i \<in> idxs ws \<Longrightarrow>
  \<exists>r wl. winlink_previous ws i = Some r \<and> (if r = None then rb_max ws else r) = Some wl \<and> wl_idx wl \<in> idxs ws"
proof -
  assume a: "i \<in> idxs ws"
  then have n: "ws \<noteq> []" by auto
  have f: "find P ws = Some wl \<Longrightarrow> wl_idx wl \<in> idxs ws" "find P (rev ws) = Some wl \<Longrightarrow> wl_idx wl \<in> idxs ws" for P wl
    by (auto simp: find_Some_iff in_set_conv_nth rev_nth) (metis (no_types) image_eqI diff_Suc_less length_pos_if_in_set nth_mem a image_iff)+
  show "\<exists>r wl. winlink_next ws i = Some r \<and> (if r = None then rb_min ws else r) = Some wl \<and> wl_idx wl \<in> idxs ws"
    using a n f(1) by (cases "find (\<lambda>wl. i < wl_idx wl) ws") (auto simp: winlink_next_def rb_min_def)
  show "\<exists>r wl. winlink_previous ws i = Some r \<and> (if r = None then rb_max ws else r) = Some wl \<and> wl_idx wl \<in> idxs ws"
    using a n f(2) by (cases "find (\<lambda>wl. wl_idx wl < i) (rev ws)") (auto simp: winlink_previous_def rb_max_def)
qed

lemma by_number_in:
  assumes "windows_ok ws"
  shows "i \<in> idxs ws \<Longrightarrow> \<exists>j\<in>idxs ws. winlink_next_by_number n ws i = Some j"
    "i \<in> idxs ws \<Longrightarrow> \<exists>j\<in>idxs ws. winlink_previous_by_number n ws i = Some j"
proof -
  show "i \<in> idxs ws \<Longrightarrow> \<exists>j\<in>idxs ws. winlink_next_by_number n ws i = Some j"
  proof (induction n arbitrary: i)
    case (Suc n)
    obtain r wl where "winlink_next ws i = Some r" "(if r = None then rb_min ws else r) = Some wl" "wl_idx wl \<in> idxs ws"
      using step_in(1) [OF assms Suc.prems] by blast
    then show ?case using Suc.IH by simp
  qed auto
  show "i \<in> idxs ws \<Longrightarrow> \<exists>j\<in>idxs ws. winlink_previous_by_number n ws i = Some j"
  proof (induction n arbitrary: i)
    case (Suc n)
    obtain r wl where "winlink_previous ws i = Some r" "(if r = None then rb_max ws else r) = Some wl" "wl_idx wl \<in> idxs ws"
      using step_in(2) [OF assms Suc.prems] by blast
    then show ?case using Suc.IH by simp
  qed auto
qed

lemma only_one_in: "only_one P xs found = (Some x, b) \<Longrightarrow> x \<in> set xs \<and> P x \<or> found = Some x"
  by (induction xs arbitrary: found) (auto split: if_splits)

lemma lookup_window_in:
  assumes "cmd_lookup_window ctx x name = (Some i, a)"
  shows "i \<in> idxs (s_windows x)"
proof -
  have o: "wl_idx wl \<in> idxs (s_windows x)" if "only_one P (s_windows x) None = (Some wl, b)" for P wl b
    using only_one_in [OF that] by auto
  have f: "wl_idx wl \<in> idxs (s_windows x)" if "rb_find (s_windows x) k = Some wl" for k wl
    using rb_find_Some [OF that] by auto
  show ?thesis
  proof (cases "Option.bind (strtonum name 0 IDX_MAX) (rb_find (s_windows x))")
    case (Some wl)
    then obtain k where "rb_find (s_windows x) k = Some wl" by (auto simp: bind_eq_Some_conv)
    then show ?thesis using assms f Some by (auto simp: cmd_lookup_window_def)
  next
    case None
    obtain o1 b1 where o1: "only_one (\<lambda>wl. link_name ctx wl = name) (s_windows x) None = (o1, b1)" by fastforce
    obtain o2 b2 where o2: "only_one (\<lambda>wl. name_matches ctx name (link_name ctx wl)) (s_windows x) None = (o2, b2)" by fastforce
    have p: "o1 = Some wl \<Longrightarrow> wl_idx wl \<in> idxs (s_windows x)" "o2 = Some wl \<Longrightarrow> wl_idx wl \<in> idxs (s_windows x)" for wl
      using o o1 o2 by blast+
    have "(case (o1, b1) of (Some wl, _) \<Rightarrow> (Some (wl_idx wl), False) | (None, True) \<Rightarrow> (None, True)
        | (None, False) \<Rightarrow> map_prod (map_option wl_idx) id (o2, b2)) = (Some i, a)"
      using assms unfolding cmd_lookup_window_def None o1 o2 option.case .
    then show ?thesis using p by (cases o1; cases b1; cases o2) auto
  qed
qed

text \<open>The result of a lookup of a window in a session.\<close>

definition target_ok :: "target_context \<Rightarrow> string + nat \<times> int option \<Rightarrow> bool" where
  "target_ok ctx r \<longleftrightarrow> (case r of Inl e \<Rightarrow> True
     | Inr (s, wl) \<Rightarrow> s \<in> set (all_sessions ctx) \<and> (\<exists>i x. wl = Some i \<and> the_session ctx s = Some x \<and> i \<in> idxs (s_windows x)))"

lemma offset_in:
  assumes "context_ok ctx" "s \<in> set (all_sessions ctx)" "the_session ctx s = Some x"
  shows "\<exists>wl a. cmd_find_window_offset ctx ptr x = Some (wl, a) \<and> (\<forall>i. wl = Some i \<longrightarrow> i \<in> idxs (s_windows x))"
proof (cases "offset_of ptr = 0")
  case True
  then show ?thesis using lookup_window_in by (cases "cmd_lookup_window ctx x ptr") (auto simp: cmd_find_window_offset_def)
next
  case False
  obtain y c where y: "the_session ctx s = Some y" "s_curw y = Some c" "c \<in> idxs (s_windows y)" "windows_ok (s_windows y)"
    by (rule context_session [OF assms(1,2)])
  then have c: "s_curw x = Some c" "c \<in> idxs (s_windows x)" "windows_ok (s_windows x)" using assms(3) by simp_all
  obtain i j where j: "winlink_next_by_number (offset_of ptr) (s_windows x) c = Some i" "i \<in> idxs (s_windows x)"
      "winlink_previous_by_number (offset_of ptr) (s_windows x) c = Some j" "j \<in> idxs (s_windows x)"
    using by_number_in [OF c(3), where i = c and n = "offset_of ptr"] c(2) by blast
  have "cmd_find_window_offset ctx ptr x = Some (Some (if hd ptr = CHR ''+'' then i else j), False)"
    using False c(1) j(1,3) by (simp add: cmd_find_window_offset_def Let_def)
  then show ?thesis using j(2,4) by (cases "hd ptr = CHR ''+''") auto
qed

lemma window_in_ok:
  assumes "context_ok ctx" "s \<in> set (all_sessions ctx)"
  shows "\<exists>r. window_in ctx s ptr arg = Some r \<and> target_ok ctx r"
proof -
  obtain x c where x: "the_session ctx s = Some x" "s_curw x = Some c" "c \<in> idxs (s_windows x)" "set (s_lastw x) \<subseteq> idxs (s_windows x)"
    by (rule context_session [OF assms])
  let ?wl = "if ptr = [] then Some (s_curw x, False)
        else if ptr = ''!'' then Some (case s_lastw x of [] \<Rightarrow> None | i # _ \<Rightarrow> Some i, False)
        else if is_offset ptr then cmd_find_window_offset ctx ptr x
        else Some (cmd_lookup_window ctx x ptr)"
  have "\<exists>wl a. ?wl = Some (wl, a) \<and> (\<forall>i. wl = Some i \<longrightarrow> i \<in> idxs (s_windows x))"
    using x offset_in [OF assms x(1), of ptr] lookup_window_in [of ctx x ptr]
    by (cases "cmd_lookup_window ctx x ptr"; cases "s_lastw x") auto
  then obtain wl a where wl: "?wl = Some (wl, a)" "\<forall>i. wl = Some i \<longrightarrow> i \<in> idxs (s_windows x)" by blast
  have "window_in ctx s ptr arg = Some (if wl = None then Inl (window_error a arg) else Inr (s, wl))"
    unfolding window_in_def x(1) Option.bind.simps wl(1) by simp
  then show ?thesis using wl(2) x(1) assms(2) by (cases wl) (simp_all add: target_ok_def)
qed

lemma lookup_session_in: "cmd_lookup_session ctx name = (Some s, a) \<Longrightarrow> s \<in> set (all_sessions ctx)"
proof -
  assume a: "cmd_lookup_session ctx name = (Some s, a)"
  show ?thesis
  proof (cases "session_find name (tc_server ctx)")
    case None
    then have "only_one (\<lambda>s. name_matches ctx name (name_of (tc_server ctx) s)) (all_sessions ctx) None = (Some s, a)"
      using a by (simp add: cmd_lookup_session_def)
    from only_one_in [OF this] show ?thesis by simp
  next
    case (Some t)
    then have "t \<in> set (all_sessions ctx)" by (auto simp: session_find_def find_Some_iff)
    then show ?thesis using a Some by (simp add: cmd_lookup_session_def)
  qed
qed

lemma window_alone_ok:
  assumes "context_ok ctx" "s \<in> set (all_sessions ctx)"
  shows "\<exists>r. window_alone ctx s arg = Some r \<and> target_ok ctx r"
proof -
  obtain x where x: "the_session ctx s = Some x" "set (s_lastw x) \<subseteq> idxs (s_windows x)"
    by (rule context_session [OF assms])
  show ?thesis
  proof (cases "arg = ''!''")
    case True
    then show ?thesis using x assms(2) by (cases "s_lastw x") (simp_all add: window_alone_def target_ok_def)
  next
    case False
    let ?wl = "if is_offset arg then cmd_find_window_offset ctx arg x else Some (cmd_lookup_window ctx x arg)"
    have "\<exists>wl a. ?wl = Some (wl, a) \<and> (\<forall>i. wl = Some i \<longrightarrow> i \<in> idxs (s_windows x))"
      using offset_in [OF assms x(1), of arg] lookup_window_in [of ctx x arg] by (cases "cmd_lookup_window ctx x arg") auto
    then obtain wl a where wl: "?wl = Some (wl, a)" "\<forall>i. wl = Some i \<longrightarrow> i \<in> idxs (s_windows x)" by blast
    obtain t b where t: "cmd_lookup_session ctx arg = (t, b)" by fastforce
    have r: "window_alone ctx s arg = (if wl \<noteq> None then Some (Inr (s, wl)) else if a then Some (Inl (window_error True arg))
        else case t of None \<Rightarrow> Some (Inl (session_error b arg)) | Some s \<Rightarrow> map_option (\<lambda>x. Inr (s, s_curw x)) (the_session ctx s))"
      unfolding window_alone_def x(1) Option.bind.simps if_not_P [OF False] wl(1) t by (cases t) simp_all
    have "\<exists>r. map_option (\<lambda>x. Inr (u, s_curw x)) (the_session ctx u) = Some r \<and> target_ok ctx r" if "t = Some u" for u
    proof -
      have u: "u \<in> set (all_sessions ctx)" using lookup_session_in t unfolding that by blast
      obtain y c where "the_session ctx u = Some y" "s_curw y = Some c" "c \<in> idxs (s_windows y)"
        by (rule context_session [OF assms(1) u])
      then show ?thesis using u by (simp add: target_ok_def)
    qed
    then show ?thesis using wl(2) x(1) assms(2) unfolding r by (cases wl; cases t) (auto simp: target_ok_def)
  qed
qed

text \<open>A pane that exists is found, in the current session if it is there.\<close>

lemma pane_session_ok:
  assumes "context_ok ctx" "tc_pane ctx wp \<noteq> None"
  shows "\<exists>s wl. cmd_pane_session ctx wp True = Some (Some s, wl) \<and> target_ok ctx (Inr (s, wl))"
proof -
  obtain w where w: "tc_pane ctx wp = Some w" using assms(2) by blast
  obtain cur where cur: "cmd_current_session ctx False = Some cur" "\<forall>s. cur = Some s \<longrightarrow> s \<in> set (all_sessions ctx)"
    using current_session_runs [OF assms(1)] by blast
  have there: "target_ok ctx (Inr (s, Some (wl_idx wl)))"
    if "s \<in> set (all_sessions ctx)" "winlink_find_by_window (windows_of ctx s) w = Some wl" for s wl
  proof -
    note in_ses = that(1)
    obtain x where x: "the_session ctx s = Some x" by (rule context_session [OF assms(1) in_ses])
    moreover have "wl \<in> set (s_windows x)" using that(2) x by (auto simp: windows_of_def winlink_find_by_window_def find_Some_iff)
    ultimately show ?thesis using that(1) by (auto simp: target_ok_def)
  qed
  show ?thesis
  proof (cases "Option.bind cur (\<lambda>s. winlink_find_by_window (windows_of ctx s) w)")
    case (Some wl)
    then obtain s where s: "cur = Some s" "winlink_find_by_window (windows_of ctx s) w = Some wl" by (auto simp: bind_eq_Some_conv)
    have "cmd_pane_session ctx wp True = Some (Some s, Some (wl_idx wl))"
      unfolding cmd_pane_session_def w cur(1) Option.bind.simps Some using s by simp
    then show ?thesis using there [OF _ s(2)] cur(2) s(1) by blast
  next
    case None
    let ?ss = "filter (\<lambda>s. winlink_find_by_window (windows_of ctx s) w \<noteq> None) (all_sessions ctx)"
    have "sv_refs (tc_server ctx) w \<noteq> None" using assms(1) w by (auto simp: context_ok_def)
    then obtain r where r: "0 < wcount (wins (tc_server ctx) r) w" using refs_alive [OF context_server [OF assms(1)]] by blast
    then obtain y where y: "the_session ctx r = Some y" "0 < wcount (s_windows y) w"
      by (auto simp: wins_def the_session_def split: option.splits)
    have "r \<in> set (all_sessions ctx)"
      using y(1) server_alive [OF context_server [OF assms(1)], of r] by (auto simp: the_session_def session_alive_def)
    moreover have "winlink_find_by_window (windows_of ctx r) w \<noteq> None" using y by (simp add: windows_of_def find_by_window)
    ultimately have "?ss \<noteq> []" by (auto simp: filter_empty_conv)
    then obtain s where s: "cmd_choose_session_list ctx ?ss = Some s"
      using choose_in [of ctx False ?ss None] unfolding cmd_choose_session_list_def by blast
    then have "s \<in> set ?ss" using choose_in [of ctx False ?ss None] unfolding cmd_choose_session_list_def by blast
    then obtain wl where wl: "s \<in> set (all_sessions ctx)" "winlink_find_by_window (windows_of ctx s) w = Some wl" by auto
    have "cmd_pane_session ctx wp True = Some (Some s, Some (wl_idx wl))"
      unfolding cmd_pane_session_def w cur(1) Option.bind.simps None option.case Let_def s using wl(2) by simp
    then show ?thesis using there [OF wl] by blast
  qed
qed

text \<open>
  C8: Whatever is written after -t, a lookup of a window returns: with a message, or with a
  session that exists and a winlink of this session. No null pointer is followed.
\<close>

theorem find_window_ok:
  assumes "context_ok ctx"
  shows "\<exists>r. cmd_find_window ctx arg = Some r \<and> target_ok ctx r"
proof -
  obtain cur where cur: "cmd_current_session ctx False = Some cur" "\<forall>s. cur = Some s \<longrightarrow> s \<in> set (all_sessions ctx)"
    using current_session_runs [OF assms] by blast
  have err: "target_ok ctx (Inl e)" for e by (simp add: target_ok_def)
  show ?thesis
  proof (cases cur)
    case None
    then show ?thesis using cur err by (simp add: cmd_find_window_def)
  next
    case (Some s)
    then have s: "s \<in> set (all_sessions ctx)" using cur(2) by blast
    obtain x c where x: "the_session ctx s = Some x" "s_curw x = Some c" "c \<in> idxs (s_windows x)" by (rule context_session [OF assms s])
    show ?thesis
    proof (cases arg)
      case None
      then show ?thesis using cur(1) Some x s by (simp add: cmd_find_window_def target_ok_def)
    next
      case (Some a)
      note r = cmd_find_window_def cur(1) \<open>cur = Some s\<close> Option.bind.simps option.case Some
      show ?thesis
      proof (cases "cmd_lookup_paneid ctx a")
        case (Some wp)
        then have "tc_pane ctx wp \<noteq> None" by (auto simp: cmd_lookup_paneid_def split: list.splits if_splits option.splits)
        then obtain t wl where "cmd_pane_session ctx wp True = Some (Some t, wl)" "target_ok ctx (Inr (t, wl))"
          using pane_session_ok [OF assms] by blast
        then show ?thesis unfolding r Some by simp
      next
        case None
        let ?n = "takeWhile (\<lambda>c. c \<noteq> CHR '':'') a"
        obtain t b where t: "cmd_lookup_session ctx ?n = (t, b)" by fastforce
        show ?thesis unfolding r None using err window_in_ok [OF assms s] window_alone_ok [OF assms s, of a]
            window_in_ok [OF assms lookup_session_in [of ctx ?n], of _ b] t
          by (cases t) (simp_all add: Let_def)
      qed
    qed
  qed
qed

theorem find_window_ok_witness: "\<exists>r. cmd_find_window some_context (Some ''a:1'') = Some r \<and> target_ok some_context r"
  by (rule find_window_ok [OF some_context_ok])

section \<open>The name of a pane\<close>

lemma lookup_by_name:
  assumes "context_ok ctx" "s \<in> set (all_sessions ctx)"
  shows "cmd_lookup_session ctx (name_of (tc_server ctx) s) = (Some s, False)"
proof -
  let ?n = "name_of (tc_server ctx)"
  have "sorted_wrt (<) (map ?n (all_sessions ctx))"
    using context_server [OF assms(1)] by (simp add: server_ok_def frame_ok_def alive_ok_def)
  then have "distinct (map ?n (all_sessions ctx))" by (rule strict_sorted_iff [THEN iffD1, THEN conjunct2])
  then have inj: "t = s" if "t \<in> set (all_sessions ctx)" "?n t = ?n s" for t
    using that assms(2) by (auto simp: distinct_map dest: inj_onD)
  obtain t where t: "session_find (?n s) (tc_server ctx) = Some t"
    using assms(2) by (cases "session_find (?n s) (tc_server ctx)") (auto simp: session_find_def find_None_iff)
  then have "t = s" using inj by (auto simp: session_find_def find_Some_iff)
  then show ?thesis using t by (simp add: cmd_lookup_session_def)
qed

lemma find_by_index:
  assumes "windows_ok (s_windows x)" "wl \<in> set (s_windows x)"
  shows "cmd_lookup_window ctx x (print_unsigned (nat (wl_idx wl))) = (Some (wl_idx wl), False)"
proof -
  have i: "0 \<le> wl_idx wl" "wl_idx wl \<le> IDX_MAX" using assms by (auto simp: windows_ok_def)
  then have "strtonum (print_unsigned (nat (wl_idx wl))) 0 IDX_MAX = Some (wl_idx wl)"
    using strtonum_print_unsigned [of 0 "nat (wl_idx wl)" IDX_MAX] by simp
  then show ?thesis using rb_find_member [OF assms] by (simp add: cmd_lookup_window_def)
qed

text \<open>What is printed for a number is not taken for anything else.\<close>

lemma printed_plain:
  "print_unsigned n \<noteq> []" "print_unsigned n \<noteq> ''!''" "\<not> is_offset (print_unsigned n)"
  "c \<in> set (print_unsigned n) \<Longrightarrow> c \<noteq> CHR '':'' \<and> c \<noteq> CHR ''.''"
proof -
  have d: "print_unsigned n \<noteq> []" "list_all is_digit (print_unsigned n)" using print_unsigned_digits [of n] by auto
  have e: "is_digit c \<Longrightarrow> c \<noteq> CHR '':'' \<and> c \<noteq> CHR ''.'' \<and> c \<noteq> CHR ''!''" for c
    by (auto simp: is_digit_def char_code_def)
  show "print_unsigned n \<noteq> []" by (rule d(1))
  show "print_unsigned n \<noteq> ''!''" using d(2) e [of "CHR ''!''"] by auto
  show "\<not> is_offset (print_unsigned n)" using d is_digit_plain by (cases "print_unsigned n") (auto simp: is_offset_def)
  show "c \<in> set (print_unsigned n) \<Longrightarrow> c \<noteq> CHR '':'' \<and> c \<noteq> CHR ''.''" using d(2) e by (auto simp: list_all_iff)
qed

lemma not_paneid: "CHR '':'' \<in> set a \<Longrightarrow> hd a \<noteq> CHR '':'' \<Longrightarrow> cmd_lookup_paneid ctx a = None"
proof (cases a)
  case (Cons c rest)
  assume "CHR '':'' \<in> set a" "hd a \<noteq> CHR '':''"
  then have r: "CHR '':'' \<in> set rest" using Cons by auto
  let ?s = "dropWhile is_space rest"
  have k: "CHR '':'' \<in> set ?s" using r
    by (induction rest) (auto simp: is_space_def char_code_def)
  have "CHR '':'' \<in> set (tl ?s)" if "hd ?s = CHR ''-'' \<or> hd ?s = CHR ''+''" using k that by (cases ?s) auto
  moreover have "\<not> is_digit (CHR '':'')" by (simp add: is_digit_def char_code_def)
  ultimately have "strtonum rest 0 4294967295 = None" using k by (auto simp: strtonum_def Let_def list_all_iff)
  then show ?thesis using Cons by (simp add: cmd_lookup_paneid_def)
qed simp

lemma split_last:
  assumes "c \<notin> set t"
  shows "after_last c (s @ c # t) = t" "before_last c (s @ c # t) = s"
  using assms by (simp_all add: after_last_def before_last_def takeWhile_append dropWhile_append)

lemma split_first:
  assumes "c \<notin> set s"
  shows "takeWhile (\<lambda>d. d \<noteq> c) (s @ c # t) = s" "dropWhile (\<lambda>d. d \<noteq> c) (s @ c # t) = c # t"
  using assms by (simp_all add: takeWhile_append dropWhile_append)

text \<open>
  C13: The name that is printed for a pane, session, window and pane index, finds this pane,
  whatever the current session is and whatever patterns match.
\<close>

theorem pane_name_roundtrip:
  assumes "context_ok ctx" "s \<in> set (all_sessions ctx)" "the_session ctx s = Some x" "session_check_name (s_name x)"
    "wl \<in> set (s_windows x)" "wl_window wl = Some w" "p < length (lw_panes (tc_window ctx w))" "int p \<le> IDX_MAX"
  shows "cmd_find_pane ctx (Some (s_name x @ '':'' @ print_unsigned (nat (wl_idx wl)) @ ''.'' @ print_unsigned p)) =
    Some (Inr (s, Some (wl_idx wl), Some (lp_id (lw_panes (tc_window ctx w) ! p))))"
proof -
  let ?i = "print_unsigned (nat (wl_idx wl))" and ?p = "print_unsigned p"
  let ?a = "s_name x @ '':'' @ ?i" and ?r = "Some (Inr (s, Some (wl_idx wl)))"
  have nm: "s_name x = name_of (tc_server ctx) s" using assms(3) by (simp add: name_of_def the_session_def)
  have n: "s_name x \<noteq> []" "CHR '':'' \<notin> set (s_name x)" using assms(4) by (auto simp: session_check_name_def)
  then have h: "hd (s_name x) \<noteq> CHR '':''" by (metis hd_in_set)
  obtain y where y: "the_session ctx s = Some y" "windows_ok (s_windows y)" by (rule context_session [OF assms(1,2)])
  then have ws: "windows_ok (s_windows x)" using assms(3) by simp
  obtain cur where cur: "cmd_current_session ctx False = Some (Some cur)"
    using current_session_runs [OF assms(1), of False] assms(2) by fastforce
  have lw: "cmd_lookup_window ctx x ?i = (Some (wl_idx wl), False)" by (rule find_by_index [OF ws assms(5)])
  have wi: "window_in ctx s ?i ?a = ?r" unfolding window_in_def assms(3) using printed_plain lw by simp
  have "takeWhile (\<lambda>d. d \<noteq> CHR '':'') ?a = s_name x" "tl (dropWhile (\<lambda>d. d \<noteq> CHR '':'') ?a) = ?i"
    using split_first [OF n(2), of ?i] by simp_all
  moreover have "cmd_lookup_paneid ctx ?a = None" using n h by (intro not_paneid) simp_all
  moreover have "cmd_lookup_session ctx (s_name x) = (Some s, False)" unfolding nm by (rule lookup_by_name [OF assms(1,2)])
  ultimately have fw: "cmd_find_window ctx (Some ?a) = ?r" using cur n wi by (simp add: cmd_find_window_def Let_def)
  have wa: "window_at ctx s (Some (wl_idx wl)) = Some (tc_window ctx w)"
    using assms(3,6) rb_find_member [OF ws assms(5)] by (simp add: window_at_def)
  have "strtonum ?p 0 IDX_MAX = Some (int p)" using strtonum_print_unsigned [of 0 p IDX_MAX] assms(8) by simp
  then have pi: "pane_in ctx s (Some (wl_idx wl)) ?p = Some (Inr (s, Some (wl_idx wl), Some (lp_id (lw_panes (tc_window ctx w) ! p))))"
    using printed_plain assms(7) by (simp add: pane_in_def wa window_pane_at_index_def)
  have d: "CHR ''.'' \<notin> set ?p" using printed_plain(4) by blast
  have sp: "s_name x @ '':'' @ ?i @ ''.'' @ ?p = ?a @ CHR ''.'' # ?p" by simp
  have "cmd_lookup_paneid ctx (?a @ CHR ''.'' # ?p) = None" using n h by (intro not_paneid) simp_all
  then show ?thesis unfolding sp using cur fw pi n
    by (simp add: cmd_find_pane_def split_last [OF d, of ?a, simplified] Let_def)
qed

theorem pane_name_roundtrip_witness:
  "cmd_find_pane some_context (Some (''a'' @ '':'' @ print_unsigned (nat 1) @ ''.'' @ print_unsigned 1)) = Some (Inr (0, Some 1, Some 2))"
proof -
  obtain x where x: "the_session some_context 0 = Some x" "s_name x = ''a''" "\<lparr>wl_idx = 1, wl_window = Some 11, wl_flags = 0\<rparr> \<in> set (s_windows x)"
    by (simp add: some_context_def the_session_def some_server_def Let_def)
  have s: "0 \<in> set (all_sessions some_context)" by (simp add: some_context_def some_server_def Let_def)
  have n: "session_check_name (s_name x)" using x(2) by (simp add: session_check_name_def)
  show ?thesis using pane_name_roundtrip [OF some_context_ok s x(1) n x(3), of 11 1] x(2)
    by (simp add: some_context_def sample_pane_def)
qed

end
