(* ===== verification/Spec2Isabelle.thy ===== *)
theory Spec2Isabelle
  imports Tmux_Prelude Utf8 C_Library Grid_Cell Colour Attributes Grid Grid_Line Grid_Facts Grid_View
    Screen Cell_Facts Screen_Write Screen_Write_Facts Print_Facts Pane Input_Tables Input Input_Facts
    Input_Props Input_Seq Layout Layout_Facts Layout_Ops Layout_Window Layout_Reach
    Layout_Custom Layout_Props Layout_Print Layout_Restore Session Session_Facts
    Session_Server Session_Ops Session_Steps Session_Commands Session_Props
    Environ Arguments Cmd_Table Commands Cmd_Facts Cmd_Lookup Cmd_Print Cmd_Props
    Window_Panes Redraw Redraw_Props Keys Key_Props Input_Keys Tty_Keys Tty_Keys_Props Targets Target_Props
begin

text \<open>
  A verification development of tmux, the terminal multiplexer. tmux is a server that keeps
  sessions; a session has windows, linked to it by numbers, and a window is divided into panes
  by a tree of cells, its layout. A program runs in every pane. The bytes that it writes are
  parsed (input.c), change the screen of the pane (screen-write.c, screen.c) and with it a grid
  of cells with a history (grid-view.c, grid.c). What a client's terminal sends is read as keys
  (tty-keys.c), which run commands or go to the program as bytes (input-keys.c). Commands are
  text (cmd-string.c, cmd-list.c, cmd.c, arguments.c) that names sessions, windows and panes.

  \<^bold>\<open>Conventions.\<close> The theories are translations of the files under src/, function by
  function under the names of the source. A u_int is a natural number with the wrapping
  operations \<open>uadd\<close> and \<open>usub\<close> of Tmux_Prelude where the source calculates, flag words are
  words, and a C string is the list of its characters. A fault is None: a call of fatal, a null
  pointer that is followed, an access outside an allocation, undefined arithmetic. An error that
  the source handles is a value: a message, a false flag, a number. Pointers into trees are
  paths or keys: a layout cell is its path from the root, a winlink its index in its session,
  a session, window or pane a number. log_debug and freeing have no effect.

  \<^bold>\<open>From bytes to cells.\<close> The code is modelled whole here.
  \<^item> Utf8 (utf8.c): the decoder, the width table and its tree; a character is decoded to
    its width, which is that of a linear search of the table.
  \<^item> Grid_Cell, Grid, Grid_View (grid-utf8.c, grid.c, grid-view.c): the operations, their
    content in Grid_Line and Grid_Facts as updates of rows. The locale \<open>cell_store\<close> is what the
    visible part promises; Grid_View interprets it.
  \<^item> Colour, Attributes (colour.c, attributes.c): palette search and names.
  \<^item> Screen, Screen_Write (screen.c, screen-write.c): the state of a screen and the operations
    on it, with the commands for the terminals as a list. Cell_Facts and Screen_Write_Facts show
    that each operation keeps the screen in order (\<open>sw_good\<close>), Print_Facts what a cell
    that is written does.
  \<^item> Pane, Input_Tables, Input (input.c, parts of window.c): the twenty tables of the parser,
    its handlers and loop. The locale \<open>search_table\<close> of C_Library is the contract of bsearch,
    interpreted on the two tables of sequences. Input_Facts shows that no handler faults, which
    Input_Props states for any bytes; Input_Seq has whole sequences, and the one fault that
    there is.

  \<^bold>\<open>Layouts.\<close> Layout (layout.c), Layout_Custom (layout-string.c, layout-custom.c), Window_Panes
  (window.c). Layout_Facts, Layout_Ops, Layout_Window and Layout_Reach prove that splitting,
  closing and resizing keep the tree well formed with each cell where its size puts it;
  Layout_Props states it for every reachable window: panes tile it, and the loops that spread a
  change of size end. Layout_Print and Layout_Restore read back a printed layout. Redraw
  (screen-redraw.c, clock.c) and Redraw_Props: what is drawn between the panes is right because
  they tile the window.

  \<^bold>\<open>Sessions.\<close> Session (session.c, the winlinks of window.c, server-fn.c, the commands on
  sessions and windows); a tree of compat/tree.h is the list of its elements in order. The
  invariant (\<open>server_ok\<close>, Session_Server) ties reference counts, groups and current windows
  together; Session_Facts, Session_Ops and Session_Steps keep it over each command and
  Session_Commands over any number of them (\<open>reachable_server\<close>). Session_Props has what follows,
  and two errors that the source does not handle.

  \<^bold>\<open>Commands and targets.\<close> Environ (environ.c), Arguments (arguments.c, getopt), Cmd_Table (the
  entries of cmd-*.c), Commands (cmd.c, cmd-list.c, cmd-string.c); Cmd_Facts, Cmd_Lookup,
  Cmd_Print and Cmd_Props read printed commands back. Targets (the rest of cmd.c) finds what a
  target names in a context of server, clients and windows; Target_Props proves, on reachable
  servers, that a lookup gives a message or something that exists, and that a printed name is
  found.

  \<^bold>\<open>Keys.\<close> Keys (key-string.c, xterm-keys.c), Input_Keys (input-keys.c), Tty_Keys (tty-keys.c):
  names of keys, what is sent to a program, and what is read from a terminal, with the timer of
  the escape key as a flag. Key_Props and Tty_Keys_Props: names read back, the ternary tree is a
  map, reading makes progress, and a tmux in a tmux reads what the outer one has written.

  \<^bold>\<open>Bounds and fuel.\<close> Loops that end are functions with a measure. Reading a layout has fuel:
  twice the length of the string, enough because every call reads a character
  (\<open>construct_fuel\<close>). The loop of the key timer is a partial function, which
  \<open>tty_keys_callback_returns\<close> shows to return. Theorems on the parser ask for room in the
  history: each byte adds at most one screen to it, and line numbers are u_int. Tables are
  evaluated in the kernel, in lemmas of their own.

  \<^bold>\<open>Not modelled.\<close>
  \<^item> Operating system and event loop: server.c, client.c, server-client.c, job.c, osdep-*,
    signals, sockets and timers; there is nothing to state without libevent and the kernel.
  \<^item> Drawing on terminals (tty.c, tty-acs.c, tty-term.c): output goes through terminfo; the
    model ends with the list of commands for the terminal. What terminfo has for a key is an
    argument.
  \<^item> Options, paste buffers, key bindings, status line, copy mode and the other window modes,
    preset layouts (layout-set.c), configuration files. Where the code that is modelled reads an
    option, it is an argument.
  \<^item> fnmatch is a field of the context of targets; no property depends on what it matches.
  \<^item> compat/ but strtonum, strlcat, getopt and what the sources use of trees and lists.
\<close>

end
